(* ===== verification/Harness_Prelude.thy ===== *)
theory Harness_Prelude
  imports Main "HOL-Library.Word"
begin

text \<open>
  The shared vocabulary of the development.

  \<^item> A program with side effects is a function from a state to a result and the new state. The
    result is \<open>Inl e\<close> when the C++ code throws (or aborts, or has no defined behaviour)
    and \<open>Inr a\<close> when it returns; the state is kept in both cases, because the objects a C++
    function has already written stay written when an exception leaves it.
  \<^item> Hoare triples with a normal and an exceptional postcondition, their rules collected in
    \<open>wp\<close>.
  \<^item> Checked access to a \<open>std::vector\<close> through its data pointer: an access outside the
    vector is undefined behaviour in the source and an error value here.
  \<^item> Counted loops with a result of type option (\<open>None\<close>: the loop body got stuck).
\<close>

named_theorems wp
named_theorems keeps

type_synonym u8 = "8 word"
type_synonym u16 = "16 word"
type_synonym u32 = "32 word"
type_synonym u64 = "64 word"

section \<open>Programs with state and exceptions\<close>

type_synonym ('s, 'e, 'a) prog = "'s \<Rightarrow> ('e + 'a) \<times> 's"

definition ret :: "'a \<Rightarrow> ('s, 'e, 'a) prog" where
  "ret a = (\<lambda>s. (Inr a, s))"

definition throw :: "'e \<Rightarrow> ('s, 'e, 'a) prog" where
  "throw e = (\<lambda>s. (Inl e, s))"

definition bindM :: "('s, 'e, 'a) prog \<Rightarrow> ('a \<Rightarrow> ('s, 'e, 'b) prog) \<Rightarrow> ('s, 'e, 'b) prog" where
  "bindM m f = (\<lambda>s. case m s of (Inl e, s') \<Rightarrow> (Inl e, s') | (Inr a, s') \<Rightarrow> f a s')"

definition thenM :: "('s, 'e, 'a) prog \<Rightarrow> ('s, 'e, 'b) prog \<Rightarrow> ('s, 'e, 'b) prog" where
  "thenM m n = bindM m (\<lambda>_. n)"

definition getM :: "('s, 'e, 's) prog" where
  "getM = (\<lambda>s. (Inr s, s))"

definition modifyM :: "('s \<Rightarrow> 's) \<Rightarrow> ('s, 'e, unit) prog" where
  "modifyM f = (\<lambda>s. (Inr (), f s))"

definition guardM :: "'e \<Rightarrow> bool \<Rightarrow> ('s, 'e, unit) prog" where
  "guardM e b = (if b then ret () else throw e)"

fun seqM :: "('s, 'e, unit) prog list \<Rightarrow> ('s, 'e, unit) prog" where
  "seqM [] = ret ()"
| "seqM (m # ms) = thenM m (seqM ms)"

fun foldM :: "('x \<Rightarrow> 'b \<Rightarrow> ('s, 'e, 'b) prog) \<Rightarrow> 'x list \<Rightarrow> 'b \<Rightarrow> ('s, 'e, 'b) prog" where
  "foldM f [] b = ret b"
| "foldM f (x # xs) b = bindM (f x b) (foldM f xs)"

definition each :: "('x \<Rightarrow> ('s, 'e, unit) prog) \<Rightarrow> 'x list \<Rightarrow> ('s, 'e, unit) prog" where
  "each f xs = foldM (\<lambda>x _. f x) xs ()"

text \<open>\<open>catch m h\<close>: the handler runs in the state the exception left behind.\<close>

definition catch :: "('s, 'e, 'a) prog \<Rightarrow> ('e \<Rightarrow> ('s, 'e, 'a) prog) \<Rightarrow> ('s, 'e, 'a) prog" where
  "catch m h = (\<lambda>s. case m s of (Inl e, s') \<Rightarrow> h e s' | (Inr a, s') \<Rightarrow> (Inr a, s'))"

lemmas prog_defs =
  ret_def throw_def bindM_def thenM_def getM_def modifyM_def guardM_def catch_def

text \<open>
  A rule \<open>ret a s = (Inr a, s)\<close> would be eta-contracted by the simplifier, so the rules for the
  programs that keep the state rewrite an equation or a case distinction instead.
\<close>

lemma ret_eq [simp]: "ret a s = r \<longleftrightarrow> r = (Inr a, s)" "case_prod f (ret a s) = f (Inr a) s"
  by (auto simp: ret_def)

lemma throw_eq [simp]: "throw e s = r \<longleftrightarrow> r = (Inl e, s)" "case_prod f (throw e s) = f (Inl e) s"
  by (auto simp: throw_def)

lemma run_parts [simp]:
  "fst (ret a s) = Inr a" "snd (ret a s) = s" "fst (throw e s) = Inl e" "snd (throw e s) = s"
  by (simp_all add: ret_def throw_def)

lemma getM_run [simp]: "getM s = (Inr s, s)"
  by (simp add: getM_def)

lemma modifyM_run [simp]: "modifyM f s = (Inr (), f s)"
  by (simp add: modifyM_def)

lemma guardM_eq [simp]:
  "guardM e b s = r \<longleftrightarrow> r = (if b then Inr () else Inl e, s)"
  by (auto simp: guardM_def ret_def throw_def)

lemma bindM_Inr: "m s = (Inr a, s') \<Longrightarrow> bindM m f s = f a s'"
  by (simp add: bindM_def)

lemma bindM_Inl: "m s = (Inl e, s') \<Longrightarrow> bindM m f s = (Inl e, s')"
  by (simp add: bindM_def)

lemma thenM_Inr: "m s = (Inr a, s') \<Longrightarrow> thenM m n s = n s'"
  by (simp add: thenM_def bindM_def)

lemma thenM_Inl: "m s = (Inl e, s') \<Longrightarrow> thenM m n s = (Inl e, s')"
  by (simp add: thenM_def bindM_def)

lemma bindM_ret [simp]: "bindM (ret a) f s = f a s"
  by (simp add: bindM_def)

lemma bindM_throw [simp]: "bindM (throw e) f s = (Inl e, s)"
  by (simp add: bindM_def)

lemma bindM_getM [simp]: "bindM getM f s = f s s"
  by (simp add: bindM_def)

lemma bindM_modifyM [simp]: "bindM (modifyM g) f s = f () (g s)"
  by (simp add: bindM_def)

lemma bindM_guardM [simp]: "bindM (guardM e b) f s = (if b then f () s else (Inl e, s))"
  by (simp add: bindM_def guardM_def)

lemma thenM_ret [simp]: "thenM (ret a) n s = n s"
  by (simp add: thenM_def)

lemma thenM_throw [simp]: "thenM (throw e) n s = (Inl e, s)"
  by (simp add: thenM_def)

lemma thenM_modifyM [simp]: "thenM (modifyM g) n s = n (g s)"
  by (simp add: thenM_def)

lemma thenM_guardM [simp]: "thenM (guardM e b) n s = (if b then n s else (Inl e, s))"
  by (simp add: thenM_def)

lemma bindM_assoc: "bindM (bindM m f) g = bindM m (\<lambda>a. bindM (f a) g)"
  by (auto simp: fun_eq_iff bindM_def split: prod.splits sum.splits)

lemma bindM_thenM: "bindM (thenM m n) f = thenM m (bindM n f)"
  by (simp add: thenM_def bindM_assoc)

lemma thenM_assoc: "thenM (thenM m n) k = thenM m (thenM n k)"
  by (simp add: thenM_def bindM_assoc)

lemma bindM_eq_Inr:
  "bindM m f s = (Inr b, s'') \<longleftrightarrow> (\<exists>a s'. m s = (Inr a, s') \<and> f a s' = (Inr b, s''))"
  by (auto simp: bindM_def split: prod.splits sum.splits)

lemma bindM_eq_Inl:
  "bindM m f s = (Inl e, s'') \<longleftrightarrow>
     m s = (Inl e, s'') \<or> (\<exists>a s'. m s = (Inr a, s') \<and> f a s' = (Inl e, s''))"
  by (auto simp: bindM_def split: prod.splits sum.splits)

lemma thenM_eq_Inr:
  "thenM m n s = (Inr b, s'') \<longleftrightarrow> (\<exists>a s'. m s = (Inr a, s') \<and> n s' = (Inr b, s''))"
  by (simp add: thenM_def bindM_eq_Inr)

section \<open>Hoare triples\<close>

definition hoare ::
  "('s \<Rightarrow> bool) \<Rightarrow> ('s, 'e, 'a) prog \<Rightarrow> ('a \<Rightarrow> 's \<Rightarrow> bool) \<Rightarrow> ('e \<Rightarrow> 's \<Rightarrow> bool) \<Rightarrow> bool" where
  "hoare P m Q E \<longleftrightarrow>
     (\<forall>s. P s \<longrightarrow> (case m s of (Inl e, s') \<Rightarrow> E e s' | (Inr a, s') \<Rightarrow> Q a s'))"

lemma hoareI:
  assumes "\<And>s e s'. P s \<Longrightarrow> m s = (Inl e, s') \<Longrightarrow> E e s'"
    and "\<And>s a s'. P s \<Longrightarrow> m s = (Inr a, s') \<Longrightarrow> Q a s'"
  shows "hoare P m Q E"
  unfolding hoare_def
proof (intro allI impI)
  fix s assume "P s"
  then show "case m s of (Inl e, s') \<Rightarrow> E e s' | (Inr a, s') \<Rightarrow> Q a s'"
    using assms by (cases "m s"; cases "fst (m s)") auto
qed

lemma hoareD_Inr: "hoare P m Q E \<Longrightarrow> P s \<Longrightarrow> m s = (Inr a, s') \<Longrightarrow> Q a s'"
  by (fastforce simp: hoare_def)

lemma hoareD_Inl: "hoare P m Q E \<Longrightarrow> P s \<Longrightarrow> m s = (Inl e, s') \<Longrightarrow> E e s'"
  by (fastforce simp: hoare_def)

lemma hoare_pre: "hoare P' m Q E \<Longrightarrow> (\<And>s. P s \<Longrightarrow> P' s) \<Longrightarrow> hoare P m Q E"
  by (simp add: hoare_def)

lemma hoare_ret [wp]: "hoare (Q a) (ret a) Q E"
  by (simp add: hoare_def)

lemma hoare_throw [wp]: "hoare (E e) (throw e) Q E"
  by (simp add: hoare_def)

lemma hoare_getM [wp]: "hoare (\<lambda>s. Q s s) getM Q E"
  by (simp add: hoare_def)

lemma hoare_modifyM [wp]: "hoare (\<lambda>s. Q () (f s)) (modifyM f) Q E"
  by (simp add: hoare_def)

lemma hoare_guardM [wp]: "hoare (\<lambda>s. if b then Q () s else E e s) (guardM e b) Q E"
  by (simp add: hoare_def guardM_def)

lemma hoare_bindM:
  assumes "\<And>a. hoare (R a) (f a) Q E" and "hoare P m R E"
  shows "hoare P (bindM m f) Q E"
proof (rule hoareI)
  fix s e s' assume "P s" "bindM m f s = (Inl e, s')"
  with assms show "E e s'"
    by (auto simp: bindM_eq_Inl dest: hoareD_Inl hoareD_Inr)
next
  fix s a s' assume "P s" "bindM m f s = (Inr a, s')"
  with assms show "Q a s'"
    by (auto simp: bindM_eq_Inr dest: hoareD_Inr)
qed

lemma hoare_thenM:
  assumes "hoare R n Q E" and "hoare P m (\<lambda>_. R) E"
  shows "hoare P (thenM m n) Q E"
  unfolding thenM_def using assms by (intro hoare_bindM)

lemma hoare_foldM:
  assumes "\<And>x b. x \<in> set xs \<Longrightarrow> hoare (I b) (f x b) I E"
  shows "hoare (I b) (foldM f xs b) I E"
  using assms
proof (induction xs arbitrary: b)
  case Nil
  then show ?case by (simp add: hoare_ret)
next
  case (Cons x xs)
  have "hoare (I b) (f x b) I E" and "\<And>b'. hoare (I b') (foldM f xs b') I E"
    using Cons by auto
  then have "hoare (I b) (bindM (f x b) (foldM f xs)) I E"
    by (intro hoare_bindM [where R = I])
  then show ?case by simp
qed

lemma hoare_each:
  assumes "\<And>x. x \<in> set xs \<Longrightarrow> hoare I (f x) (\<lambda>_. I) E"
  shows "hoare I (each f xs) (\<lambda>_. I) E"
  unfolding each_def by (rule hoare_foldM [where I = "\<lambda>_. I"]) (rule assms)

lemma hoare_if:
  assumes "b \<Longrightarrow> hoare P m Q E" and "\<not> b \<Longrightarrow> hoare P n Q E"
  shows "hoare P (if b then m else n) Q E"
  using assms by simp

lemma hoare_conj:
  assumes "hoare P m Q E" and "hoare P' m Q' E'"
  shows "hoare (\<lambda>s. P s \<and> P' s) m (\<lambda>a s. Q a s \<and> Q' a s) (\<lambda>e s. E e s \<and> E' e s)"
  using assms by (fastforce simp: hoare_def split: prod.splits sum.splits)

lemma foldM_append: "foldM f (xs @ ys) b = bindM (foldM f xs b) (foldM f ys)"
  by (induction xs arbitrary: b)
    (auto simp: fun_eq_iff bindM_def ret_def split: prod.splits sum.splits)

text \<open>
  The loop rule the component proofs use: an invariant over the elements already done. It also says
  that the loop returns.
\<close>

lemma foldM_prefix_rule:
  assumes "I [] b s"
    and "\<And>pre x suf b s. xs = pre @ x # suf \<Longrightarrow> I pre b s \<Longrightarrow>
      \<exists>b' s'. f x b s = (Inr b', s') \<and> I (pre @ [x]) b' s'"
  shows "\<exists>b' s'. foldM f xs b s = (Inr b', s') \<and> I xs b' s'"
proof -
  have "\<exists>b' s'. foldM f suf b s = (Inr b', s') \<and> I xs b' s'"
    if "xs = pre @ suf" "I pre b s" for pre suf b s
    using that
  proof (induction suf arbitrary: pre b s)
    case Nil
    then show ?case by simp
  next
    case (Cons x suf)
    obtain b1 s1 where 1: "f x b s = (Inr b1, s1)" "I (pre @ [x]) b1 s1"
      using assms(2) [OF Cons.prems] by blast
    have "\<exists>b' s'. foldM f suf b1 s1 = (Inr b', s') \<and> I xs b' s'"
      using Cons.prems 1 by (intro Cons.IH) auto
    with 1 show ?case by (simp add: bindM_Inr)
  qed
  from this [of "[]"] assms(1) show ?thesis by simp
qed

lemma each_prefix_rule:
  assumes "I [] s"
    and "\<And>pre x suf s. xs = pre @ x # suf \<Longrightarrow> I pre s \<Longrightarrow>
      \<exists>s'. f x s = (Inr (), s') \<and> I (pre @ [x]) s'"
  shows "\<exists>s'. each f xs s = (Inr (), s') \<and> I xs s'"
proof -
  have "\<exists>b' s'. foldM (\<lambda>x _. f x) xs () s = (Inr b', s') \<and> I xs s'"
    using assms by (intro foldM_prefix_rule [where I = "\<lambda>pre _ s. I pre s"]) auto
  then show ?thesis by (simp add: each_def)
qed

lemma each_append: "each f (xs @ ys) = thenM (each f xs) (each f ys)"
  by (simp add: each_def foldM_append thenM_def)

lemma each_Nil [simp]: "each f [] = ret ()"
  by (simp add: each_def)

lemma each_Cons [simp]: "each f (x # xs) = thenM (f x) (each f xs)"
  by (simp add: each_def thenM_def)

section \<open>Predicates a program keeps\<close>

text \<open>A predicate that a program keeps, however it ends.\<close>

definition keeps :: "('s \<Rightarrow> bool) \<Rightarrow> ('s, 'e, 'a) prog \<Rightarrow> bool" where
  "keeps P m \<longleftrightarrow> hoare P m (\<lambda>_. P) (\<lambda>_. P)"

lemma keepsD: "keeps P m \<Longrightarrow> P s \<Longrightarrow> P (snd (m s))"
  by (cases "m s"; cases "fst (m s)") (auto simp: keeps_def hoare_def)

lemma keeps_state: "(\<And>s. P s \<Longrightarrow> P (snd (m s))) \<Longrightarrow> keeps P m"
  unfolding keeps_def by (rule hoareI) fastforce+

lemma keeps_basic [keeps]:
  "keeps P (ret a)" "keeps P (throw e)" "keeps P getM" "keeps P (guardM e b)"
  by (simp_all add: keeps_def hoare_def guardM_def)

lemma keeps_modifyM [keeps]: "(\<And>s. P s \<Longrightarrow> P (f s)) \<Longrightarrow> keeps P (modifyM f)"
  by (simp add: keeps_def hoare_def)

lemma keeps_bindM [keeps]: "keeps P m \<Longrightarrow> (\<And>a. keeps P (f a)) \<Longrightarrow> keeps P (bindM m f)"
  unfolding keeps_def by (rule hoare_bindM)

lemma keeps_thenM [keeps]: "keeps P m \<Longrightarrow> keeps P n \<Longrightarrow> keeps P (thenM m n)"
  unfolding keeps_def by (rule hoare_thenM)

lemma keeps_foldM [keeps]: "(\<And>x b. keeps P (f x b)) \<Longrightarrow> keeps P (foldM f xs b)"
  unfolding keeps_def by (rule hoare_foldM [where I = "\<lambda>_. P"])

lemma keeps_each [keeps]: "(\<And>x. keeps P (f x)) \<Longrightarrow> keeps P (each f xs)"
  unfolding keeps_def by (rule hoare_each)

lemma keeps_if [keeps]: "keeps P m \<Longrightarrow> keeps P n \<Longrightarrow> keeps P (if b then m else n)"
  by simp

lemma keeps_prod [keeps]: "(\<And>a b. keeps P (f a b)) \<Longrightarrow> keeps P (case x of (a, b) \<Rightarrow> f a b)"
  by (simp split: prod.splits)

section \<open>Checked vectors\<close>

text \<open>
  \<open>vec_set i x xs\<close> is \<open>v[i] = x\<close>, \<open>vec_get i xs\<close> is \<open>v[i]\<close>, \<open>vec_blit off bs xs\<close> is a
  \<open>memcpy\<close> of \<open>bs\<close> into \<open>v.data() + off\<close>, \<open>vec_slice off n xs\<close> a \<open>memcpy\<close> of \<open>n\<close> elements out
  of \<open>v.data() + off\<close>. \<open>None\<close> is an access outside the vector. \<open>vec_resize\<close> is
  \<open>resize\<close>: new elements are value initialised.
\<close>

definition vec_get :: "nat \<Rightarrow> 'a list \<Rightarrow> 'a option" where
  "vec_get i xs = (if i < length xs then Some (xs ! i) else None)"

definition vec_set :: "nat \<Rightarrow> 'a \<Rightarrow> 'a list \<Rightarrow> 'a list option" where
  "vec_set i x xs = (if i < length xs then Some (xs[i := x]) else None)"

definition vec_blit :: "nat \<Rightarrow> 'a list \<Rightarrow> 'a list \<Rightarrow> 'a list option" where
  "vec_blit off bs xs =
     (if off + length bs \<le> length xs
      then Some (take off xs @ bs @ drop (off + length bs) xs) else None)"

definition vec_slice :: "nat \<Rightarrow> nat \<Rightarrow> 'a list \<Rightarrow> 'a list option" where
  "vec_slice off n xs = (if off + n \<le> length xs then Some (take n (drop off xs)) else None)"

definition vec_resize :: "nat \<Rightarrow> 'a::zero list \<Rightarrow> 'a list" where
  "vec_resize n xs = take n xs @ replicate (n - length xs) 0"

lemma length_vec_resize [simp]: "length (vec_resize n xs) = n"
  by (simp add: vec_resize_def)

lemma vec_set_Some: "i < length xs \<Longrightarrow> vec_set i x xs = Some (xs[i := x])"
  by (simp add: vec_set_def)

lemma vec_blit_Some_length: "vec_blit off bs xs = Some ys \<Longrightarrow> length ys = length xs"
  by (auto simp: vec_blit_def split: if_splits)

lemma vec_blit_slice_same:
  "vec_blit off bs xs = Some ys \<Longrightarrow> vec_slice off (length bs) ys = Some bs"
  by (auto simp: vec_blit_def vec_slice_def split: if_splits)

lemma vec_blit_nth:
  assumes "vec_blit off bs xs = Some ys" and "i < length xs"
  shows "ys ! i = (if off \<le> i \<and> i < off + length bs then bs ! (i - off) else xs ! i)"
  using assms by (auto simp: vec_blit_def nth_append split: if_splits)

lemma take_drop_nth_eqI:
  assumes "length xs = length ys" and "off + n \<le> length xs"
    and "\<And>i. off \<le> i \<Longrightarrow> i < off + n \<Longrightarrow> xs ! i = ys ! i"
  shows "take n (drop off xs) = take n (drop off ys)"
  using assms by (intro nth_equalityI) auto

lemma vec_blit_slice_other:
  assumes "vec_blit off bs xs = Some ys" and "off' + n \<le> off \<or> off + length bs \<le> off'"
  shows "vec_slice off' n ys = vec_slice off' n xs"
proof -
  have l: "length ys = length xs" using assms(1) by (rule vec_blit_Some_length)
  show ?thesis
  proof (cases "off' + n \<le> length xs")
    case True
    have "take n (drop off' ys) = take n (drop off' xs)"
      using l True assms by (intro take_drop_nth_eqI) (auto simp: vec_blit_nth [OF assms(1)])
    with True l show ?thesis by (simp add: vec_slice_def)
  next
    case False
    with l show ?thesis by (simp add: vec_slice_def)
  qed
qed

section \<open>Reading words as numbers\<close>

lemma unat_of_nat_small: "n < 2 ^ LENGTH('a) \<Longrightarrow> unat (of_nat n :: 'a::len word) = n"
  by (simp add: unat_of_nat)

lemma unat_less_exp: "LENGTH('a) \<le> m \<Longrightarrow> unat (x :: 'a::len word) < 2 ^ m"
  by (rule less_le_trans [OF unsigned_less]) simp

lemma unat_add_small:
  "unat x + unat y < 2 ^ LENGTH('a) \<Longrightarrow> unat (x + y :: 'a::len word) = unat x + unat y"
  by (simp add: unat_word_ariths)

lemma unat_mult_small:
  "unat x * unat y < 2 ^ LENGTH('a) \<Longrightarrow> unat (x * y :: 'a::len word) = unat x * unat y"
  by (simp add: unat_word_ariths)

lemma unat_sub_small: "unat y \<le> unat x \<Longrightarrow> unat (x - y :: 'a::len word) = unat x - unat y"
  by (simp add: unat_sub word_le_nat_alt)

text \<open>Rounding up: \<open>(n + w - 1) / w\<close> is the number of units of \<open>w\<close> that hold \<open>n\<close>.\<close>

lemma ceil_div_bounds:
  assumes "0 < (w :: nat)"
  shows "n \<le> (n + w - 1) div w * w" "(n + w - 1) div w * w < n + w"
proof -
  have "(n + w - 1) div w * w + (n + w - 1) mod w = n + w - 1" by simp
  moreover have "(n + w - 1) mod w < w" using assms by simp
  ultimately show "n \<le> (n + w - 1) div w * w" "(n + w - 1) div w * w < n + w"
    using assms by linarith+
qed

section \<open>Counted loops\<close>

text \<open>\<open>for_loop i k f s\<close> runs the body for the \<open>k\<close> indices from \<open>i\<close> on.\<close>

fun for_loop :: "nat \<Rightarrow> nat \<Rightarrow> (nat \<Rightarrow> 's \<Rightarrow> 's option) \<Rightarrow> 's \<Rightarrow> 's option" where
  "for_loop i 0 f s = Some s"
| "for_loop i (Suc k) f s = (case f i s of None \<Rightarrow> None | Some s' \<Rightarrow> for_loop (Suc i) k f s')"

lemma for_loop_invariant:
  assumes "P i s"
    and "\<And>j t. i \<le> j \<Longrightarrow> j < i + k \<Longrightarrow> P j t \<Longrightarrow> \<exists>t'. f j t = Some t' \<and> P (Suc j) t'"
  shows "\<exists>s'. for_loop i k f s = Some s' \<and> P (i + k) s'"
  using assms
proof (induction k arbitrary: i s)
  case 0
  then show ?case by simp
next
  case (Suc k)
  obtain t where t: "f i s = Some t" "P (Suc i) t"
    using Suc.prems(2) [of i s] Suc.prems(1) by auto
  have "\<exists>s'. for_loop (Suc i) k f t = Some s' \<and> P (Suc i + k) s'"
    using t(2) Suc.prems(2) by (intro Suc.IH) auto
  with t(1) show ?case by auto
qed

lemma for_loop_cong:
  assumes "\<And>j t. i \<le> j \<Longrightarrow> j < i + k \<Longrightarrow> f j t = g j t"
  shows "for_loop i k f s = for_loop i k g s"
  using assms
proof (induction k arbitrary: i s)
  case 0
  then show ?case by simp
next
  case (Suc k)
  have "for_loop (Suc i) k f t = for_loop (Suc i) k g t" for t
    using Suc.prems by (intro Suc.IH) auto
  then show ?case using Suc.prems [of i s] by (simp split: option.splits)
qed

end
