(* ===== verification/Harness_Types.thy ===== *)
theory Harness_Types
  imports Harness_Prelude
begin

unbundle bit_operations_syntax

text \<open>
  The types of \<^verbatim>\<open>include/ps/test_harness_utils.hpp\<close> and
  \<^verbatim>\<open>include/ps/test_harness_exception.hpp\<close>, the errors of the development, and the memory of the
  process that the \<open>char*\<close> members of the user's arguments point into.

  An enumeration with a fixed underlying type holds every value of that type (the server casts a
  received byte to \<open>TestMode\<close>, the MATLAB binding casts a 16-bit number to \<open>channel_index\<close>), so these
  two are words with named constants; the enumerations that are only ever assigned their
  enumerators are datatypes.
\<close>

section \<open>Exceptions\<close>

datatype SocketStatus =
    SOCKET_CREATE_FAILURE
  | SOCKET_BIND_FAILURE
  | SOCKET_LISTEN_FAILURE
  | SOCKET_ACCEPT_FAILURE
  | SOCKET_CONNECT_FAILURE
  | SOCKET_SEND_FAILURE
  | SOCKET_RECEIVE_FAILURE
  | SOCKET_CLOSE_FAILURE
  | FILE_OPEN_FAILURE
  | INVALID_IP_ADDRESS
  | INVALID_PORT_NUMBER

datatype TestHarnessStatus =
    TEST_HARNESS_CREATION_FAILURE
  | TEST_HARNESS_INTERNAL_FAILURE
  | TEST_HARNESS_NOT_CREATED_FAILURE
  | TEST_HARNESS_RUN_GRAPH_FAILURE
  | TEST_HARNESS_RUN_FAILURE
  | TEST_HARNESS_WAIT_FOR_RES_FAILURE
  | TEST_HARNESS_GET_LOG_FILES_FAILURE
  | UNKNOWN_REQUEST
  | INVALID_OPERATIONS
  | INVALID_ARGUMENTS

text \<open>
  What a C++ function can end in besides a normal return: the two exception classes of the harness
  (their message strings are not modelled), an exception of the standard library, a failed
  \<open>assert\<close> or \<open>std::terminate\<close> (the process aborts), undefined behaviour (an access outside a vector, a division by
  zero, the use of a deleted object), or a wait that nothing ends.
\<close>

datatype std_exception = Std_Invalid_Argument | Std_Out_Of_Range | Std_Length_Error | Std_Bad_Alloc | Std_System_Error

datatype harness_error =
    TestHarnessException TestHarnessStatus
  | SocketException SocketStatus
  | StdException std_exception
  | AssertionFailed
  | UndefinedBehaviour
  | NoReturn

abbreviation throw_harness :: "TestHarnessStatus \<Rightarrow> ('s, harness_error, 'a) prog" where
  "throw_harness st \<equiv> throw (TestHarnessException st)"

abbreviation ubM :: "'a option \<Rightarrow> ('s, harness_error, 'a) prog" where
  "ubM x \<equiv> (case x of None \<Rightarrow> throw UndefinedBehaviour | Some a \<Rightarrow> ret a)"

lemma keeps_ubM [keeps]: "keeps P (ubM x)"
  by (cases x) (simp_all add: keeps_basic)

section \<open>Test modes and channels\<close>

type_synonym TestMode = u8

definition FUNC_MODE :: TestMode where "FUNC_MODE = 0"
definition PERF_MODE :: TestMode where "PERF_MODE = 1"

lemma FUNC_PERF_distinct [simp]: "FUNC_MODE \<noteq> PERF_MODE" "PERF_MODE \<noteq> FUNC_MODE"
  by (simp_all add: FUNC_MODE_def PERF_MODE_def)

text \<open>
  \<open>channel_index\<close> enumerates 36 channels to the AI Engine and then 36 channels from it; the code
  computes with the first enumerator of each group only.
\<close>

type_synonym channel_index = u16

definition PLIO_01_TO_AIE :: channel_index where "PLIO_01_TO_AIE = 0"
definition PLIO_01_FROM_AIE :: channel_index where "PLIO_01_FROM_AIE = 36"

text \<open>
  The two range tests the code writes out at every use of a channel index; the comparison and the
  sum are in \<open>unsigned int\<close>, the type of \<open>num_channels\<close>.
\<close>

definition is_to_aie :: "u32 \<Rightarrow> channel_index \<Rightarrow> bool" where
  "is_to_aie num_channels idx \<longleftrightarrow>
     idx \<ge> PLIO_01_TO_AIE \<and> ucast idx < ucast PLIO_01_TO_AIE + num_channels"

definition is_from_aie :: "u32 \<Rightarrow> channel_index \<Rightarrow> bool" where
  "is_from_aie num_channels idx \<longleftrightarrow>
     idx \<ge> PLIO_01_FROM_AIE \<and> ucast idx < ucast PLIO_01_FROM_AIE + num_channels"

lemma unat_ucast_16_32 [simp]: "unat (ucast (x :: u16) :: u32) = unat x"
  using unat_less_exp [where m = 32 and x = x] by (simp add: unsigned_ucast_eq take_bit_nat_eq_self)

lemma is_to_aie_iff: "is_to_aie nc idx \<longleftrightarrow> unat idx < unat nc"
  by (simp add: is_to_aie_def PLIO_01_TO_AIE_def word_less_nat_alt)

lemma is_from_aie_iff:
  assumes "unat nc \<le> 36"
  shows "is_from_aie nc idx \<longleftrightarrow> 36 \<le> unat idx \<and> unat idx < 36 + unat nc"
proof -
  have "unat ((36 :: u32) + nc) = 36 + unat nc"
    using assms by (subst unat_add_lem [THEN iffD1]) auto
  then show ?thesis
    by (simp add: is_from_aie_def PLIO_01_FROM_AIE_def word_less_nat_alt word_le_nat_alt)
qed

lemma to_from_disjoint: "unat nc \<le> 36 \<Longrightarrow> is_to_aie nc idx \<Longrightarrow> \<not> is_from_aie nc idx"
  by (simp add: is_to_aie_iff is_from_aie_iff)

section \<open>Arguments of a transaction and the memory they point into\<close>

record test_harness_args =
  idx :: channel_index
  size_in_byte :: u64
  repetition :: u64
  delay :: u64
  data :: u64 \<comment> \<open>the address held by the \<open>char*\<close>\<close>

type_synonym umem = "u64 \<Rightarrow> u8"

definition mem_read :: "umem \<Rightarrow> u64 \<Rightarrow> nat \<Rightarrow> u8 list" where
  "mem_read m p n = map (\<lambda>i. m (p + of_nat i)) [0..<n]"

definition mem_write :: "umem \<Rightarrow> u64 \<Rightarrow> u8 list \<Rightarrow> umem" where
  "mem_write m p bs = (\<lambda>a. if unat (a - p) < length bs then bs ! unat (a - p) else m a)"

lemma length_mem_read [simp]: "length (mem_read m p n) = n"
  by (simp add: mem_read_def)

lemma mem_read_write_same:
  assumes "length bs \<le> 2 ^ 64"
  shows "mem_read (mem_write m p bs) p (length bs) = bs"
proof (rule nth_equalityI)
  fix i assume "i < length (mem_read (mem_write m p bs) p (length bs))"
  then have i: "i < length bs" by simp
  with assms have "unat (of_nat i :: u64) = i"
    by (intro unat_of_nat_small) simp
  with i show "mem_read (mem_write m p bs) p (length bs) ! i = bs ! i"
    by (simp add: mem_read_def mem_write_def)
qed simp

text \<open>Two regions of memory that share no byte.\<close>

definition mem_disjoint :: "u64 \<Rightarrow> nat \<Rightarrow> u64 \<Rightarrow> nat \<Rightarrow> bool" where
  "mem_disjoint p n q k \<longleftrightarrow> (\<forall>i < n. \<not> unat (p + of_nat i - q) < k)"

lemma mem_read_write_other:
  "mem_disjoint p n q (length bs) \<Longrightarrow> mem_read (mem_write m q bs) p n = mem_read m p n"
  by (simp add: mem_disjoint_def mem_read_def mem_write_def)

lemma mem_disjoint_apart:
  assumes "unat p + n \<le> unat q \<or> unat q + k \<le> unat p"
    and "unat p + n \<le> 2 ^ 64" "unat q + k \<le> 2 ^ 64"
  shows "mem_disjoint p n q k"
  unfolding mem_disjoint_def
proof (intro allI impI)
  fix i assume i: "i < n"
  then have "i < 2 ^ 64" using assms(2) by linarith
  then have wi: "unat (of_nat i :: u64) = i" by (intro unat_of_nat_small) simp
  have s: "unat (p + of_nat i) = unat p + i"
    using i assms(2) wi by (subst unat_add_small) simp_all
  have "unat (p + of_nat i - q) =
      (if unat q \<le> unat p + i then unat p + i - unat q else unat p + i + 2 ^ 64 - unat q)"
    unfolding unat_sub_if' s by simp
  with assms i show "\<not> unat (p + of_nat i - q) < k" by (auto split: if_splits)
qed

end
