(* ===== verification/Transaction.thy ===== *)
theory Transaction
  imports Harness_Types
begin

text \<open>
  \<^verbatim>\<open>include/ps/test_harness_transaction.hpp\<close>: a transaction packs the user's channel arguments
  into the configuration words and the memory images the PL kernel works on
  (\<open>handleInputs\<close>), and unpacks the received image and the cycle counters
  (\<open>handleOutputs\<close>). Every \<open>unsigned\<close> computation is done on words of the type's width, as in
  the code; every access through \<open>data()\<close> or \<open>operator[]\<close> of a vector is checked.
\<close>

section \<open>State\<close>

datatype TransactionStatus =
    TRANSACTION_CREATED
  | TRANSACTION_READY
  | TRANSACTION_RUNNING
  | TRANSACTION_TIMEOUT
  | TRANSACTION_DONE

record transaction =
  trans_id :: u32
  cfg_ptr :: "u64 list"
  perf_ptr :: "u64 list"
  to_aie_ptr :: "u8 list"
  from_aie_ptr :: "u8 list"
  status :: TransactionStatus
  tr_mode :: TestMode
  from_mem_word_offset :: "u32 list"
  args_rec :: "test_harness_args list"
  perf_map :: "channel_index \<rightharpoonup> u64 \<times> u64"
  tr_num_channels :: u32
  tr_word_size :: u32
  tr_depth :: u32
  mMemWidth :: u32
  result_valid :: bool
  mTimeOut :: u32

type_synonym 'a tprog = "(transaction, harness_error, 'a) prog"

section \<open>Construction\<close>

definition clearData :: "transaction \<Rightarrow> transaction" where
  "clearData t = t\<lparr>to_aie_ptr := [], from_aie_ptr := [], from_mem_word_offset := [],
     cfg_ptr := [], perf_ptr := []\<rparr>"

definition reset :: "transaction \<Rightarrow> transaction" where
  "reset t0 =
     (let t = (clearData t0)\<lparr>mTimeOut := 0, args_rec := []\<rparr>;
          nc = tr_num_channels t;
          t = t\<lparr>cfg_ptr := vec_resize (unat (nc * 2 * 4 + 1)) (cfg_ptr t),
                perf_ptr := vec_resize (unat (nc * 4)) (perf_ptr t),
                from_mem_word_offset := vec_resize (unat nc) (from_mem_word_offset t)\<rparr>;
          t = t\<lparr>cfg_ptr := map (\<lambda>_. 0) (cfg_ptr t),
                perf_ptr := map (\<lambda>_. 0) (perf_ptr t),
                from_mem_word_offset := map (\<lambda>_. 0) (from_mem_word_offset t)\<rparr>
      in t\<lparr>status := TRANSACTION_CREATED, result_valid := True\<rparr>)"

text \<open>The constructor: the member initialisers, then \<open>reset()\<close> in the body.\<close>

definition test_harness_transactions ::
  "u32 \<Rightarrow> TestMode \<Rightarrow> u32 \<Rightarrow> u32 \<Rightarrow> u32 \<Rightarrow> u32 \<Rightarrow> u32 \<Rightarrow> transaction" where
  "test_harness_transactions tid md num_channels word_size depth memWidth timeout =
     reset \<lparr>trans_id = tid, cfg_ptr = [], perf_ptr = [], to_aie_ptr = [], from_aie_ptr = [],
       status = TRANSACTION_CREATED, tr_mode = md, from_mem_word_offset = [], args_rec = [],
       perf_map = Map.empty, tr_num_channels = num_channels, tr_word_size = word_size,
       tr_depth = depth, mMemWidth = memWidth, result_valid = True, mTimeOut = timeout\<rparr>"

definition setStatus :: "TransactionStatus \<Rightarrow> transaction \<Rightarrow> transaction" where
  "setStatus st t = t\<lparr>status := st\<rparr>"

definition getStatus :: "transaction \<Rightarrow> TransactionStatus" where
  "getStatus t = status t"

definition setTimeOut :: "u32 \<Rightarrow> transaction \<Rightarrow> transaction" where
  "setTimeOut timeout t = t\<lparr>mTimeOut := timeout\<rparr>"

definition getTimeOut :: "transaction \<Rightarrow> u32" where
  "getTimeOut t = mTimeOut t"

definition getMemoryUsage :: "transaction \<Rightarrow> u64" where
  "getMemoryUsage t =
     of_nat (length (cfg_ptr t)) * 8 + of_nat (length (perf_ptr t)) * 8 +
     of_nat (length (to_aie_ptr t)) * 1 + of_nat (length (from_aie_ptr t)) * 1"

section \<open>Packing the inputs\<close>

definition check_argument :: "test_harness_args \<Rightarrow> unit tprog" where
  "check_argument arg = bindM getM (\<lambda>t.
     if is_to_aie (tr_num_channels t) (idx arg) \<or> is_from_aie (tr_num_channels t) (idx arg) then
       if tr_word_size t = 0 then throw UndefinedBehaviour
       else if size_in_byte arg mod ucast (tr_word_size t) \<noteq> 0 then throw_harness INVALID_ARGUMENTS
       else modifyM (\<lambda>t. t\<lparr>args_rec := args_rec t @ [arg]\<rparr>)
     else throw_harness INVALID_ARGUMENTS)"

definition check_arguments :: "test_harness_args list \<Rightarrow> unit tprog" where
  "check_arguments args = each check_argument args"

definition write_cfg :: "u32 \<Rightarrow> u64 \<Rightarrow> unit tprog" where
  "write_cfg i v = bindM getM (\<lambda>t. bindM (ubM (vec_set (unat i) v (cfg_ptr t)))
     (\<lambda>c. modifyM (\<lambda>t. t\<lparr>cfg_ptr := c\<rparr>)))"

text \<open>
  The four configuration words of a channel: \<open>bias\<close> is 0 for the channels to the AI Engine and 4 for
  those from it.
\<close>

definition write_channel_cfg :: "u32 \<Rightarrow> u32 \<Rightarrow> test_harness_args \<Rightarrow> u64 \<Rightarrow> unit tprog" where
  "write_channel_cfg bias chn a offset = bindM getM (\<lambda>t.
     let nc = tr_num_channels t in
     seqM [write_cfg (1 + nc * bias + 0 * nc + chn) (delay a),
           write_cfg (1 + nc * bias + 1 * nc + chn) (size_in_byte a div ucast (tr_word_size t)),
           write_cfg (1 + nc * bias + 2 * nc + chn) (repetition a),
           write_cfg (1 + nc * bias + 3 * nc + chn) offset])"

definition copy_to_aie :: "nat \<Rightarrow> u8 list \<Rightarrow> unit tprog" where
  "copy_to_aie off bs = bindM getM (\<lambda>t. bindM (ubM (vec_blit off bs (to_aie_ptr t)))
     (\<lambda>b. modifyM (\<lambda>t. t\<lparr>to_aie_ptr := b\<rparr>)))"

definition set_from_offset :: "u32 \<Rightarrow> u32 \<Rightarrow> unit tprog" where
  "set_from_offset chn off = bindM getM (\<lambda>t.
     bindM (ubM (vec_set (unat chn) off (from_mem_word_offset t)))
     (\<lambda>v. modifyM (\<lambda>t. t\<lparr>from_mem_word_offset := v\<rparr>)))"

definition mem_words_of :: "u32 \<Rightarrow> test_harness_args \<Rightarrow> u64" where
  "mem_words_of memw a = (size_in_byte a + ucast memw - 1) div ucast memw"

text \<open>\<open>FUNC_MODE\<close>, first loop: the sizes of the two images, and the check of the repetitions.\<close>

definition func_total :: "test_harness_args \<Rightarrow> u64 \<times> u64 \<Rightarrow> (u64 \<times> u64) tprog" where
  "func_total a acc = bindM getM (\<lambda>t.
     let (total_to, total_from) = acc; memw = mMemWidth t in
     bindM (guardM UndefinedBehaviour (memw \<noteq> 0)) (\<lambda>_.
     let acc' =
       (if is_to_aie (tr_num_channels t) (idx a)
        then (total_to + mem_words_of memw a * ucast memw, total_from)
        else if is_from_aie (tr_num_channels t) (idx a)
        then (total_to, total_from + mem_words_of memw a * ucast memw)
        else (total_to, total_from)) in
     if repetition a \<noteq> 1 then throw_harness INVALID_ARGUMENTS else ret acc'))"

text \<open>\<open>FUNC_MODE\<close>, second loop: the channels' data is laid out back to back, in memory words.\<close>

definition func_place :: "umem \<Rightarrow> test_harness_args \<Rightarrow> u64 \<times> u64 \<Rightarrow> (u64 \<times> u64) tprog" where
  "func_place um a offs = bindM getM (\<lambda>t.
     let (to_offt, from_offt) = offs; memw = mMemWidth t in
     if is_to_aie (tr_num_channels t) (idx a) then
       let chn = ucast (idx a) - ucast PLIO_01_TO_AIE in
       thenM (write_channel_cfg 0 chn a to_offt)
         (thenM (copy_to_aie (unat (to_offt * ucast memw))
            (mem_read um (data a) (unat (size_in_byte a))))
         (ret (to_offt + mem_words_of memw a, from_offt)))
     else if is_from_aie (tr_num_channels t) (idx a) then
       let chn = ucast (idx a) - ucast PLIO_01_FROM_AIE in
       thenM (write_channel_cfg 4 chn a from_offt)
         (thenM (set_from_offset chn (ucast from_offt))
         (ret (to_offt, from_offt + mem_words_of memw a)))
     else ret (to_offt, from_offt))"

definition func_inputs :: "umem \<Rightarrow> unit tprog" where
  "func_inputs um =
     thenM (modifyM (\<lambda>t. t\<lparr>result_valid := True\<rparr>))
     (bindM getM (\<lambda>t. bindM (foldM func_total (args_rec t) (0, 0)) (\<lambda>(total_to, total_from).
      thenM (modifyM (\<lambda>t. t\<lparr>to_aie_ptr := vec_resize (unat total_to) (to_aie_ptr t),
                            from_aie_ptr := vec_resize (unat total_from) (from_aie_ptr t)\<rparr>))
      (thenM (foldM (func_place um) (args_rec t) (0, 0)) (ret ())))))"

text \<open>\<open>PERF_MODE\<close>: a fixed slot of \<open>word_size * depth\<close> bytes per channel.\<close>

definition perf_place :: "umem \<Rightarrow> test_harness_args \<Rightarrow> unit tprog" where
  "perf_place um a = bindM getM (\<lambda>t.
     let memw = mMemWidth t; slot = tr_word_size t * tr_depth t in
     if is_to_aie (tr_num_channels t) (idx a) then
       let chn = ucast (idx a) - ucast PLIO_01_TO_AIE; offsets = slot div memw * chn in
       thenM
         (if size_in_byte a > ucast slot then
            thenM (modifyM (\<lambda>t. t\<lparr>result_valid := False\<rparr>))
              (copy_to_aie (unat (offsets * memw)) (mem_read um (data a) (unat slot)))
          else copy_to_aie (unat (offsets * memw)) (mem_read um (data a) (unat (size_in_byte a))))
         (write_channel_cfg 0 chn a (ucast offsets))
     else if is_from_aie (tr_num_channels t) (idx a) then
       let chn = ucast (idx a) - ucast PLIO_01_FROM_AIE; offsets = slot div memw * chn in
       thenM (write_channel_cfg 4 chn a (ucast offsets)) (set_from_offset chn offsets)
     else ret ())"

definition perf_inputs :: "umem \<Rightarrow> unit tprog" where
  "perf_inputs um = bindM getM (\<lambda>t.
     thenM (guardM UndefinedBehaviour (tr_word_size t \<noteq> 0))
     (thenM (guardM AssertionFailed (mMemWidth t mod tr_word_size t = 0))
     (thenM (guardM UndefinedBehaviour (mMemWidth t \<noteq> 0))
     (thenM (guardM AssertionFailed (tr_word_size t * tr_depth t mod mMemWidth t = 0))
     (thenM (modifyM (\<lambda>t.
         let n = unat (tr_num_channels t * tr_word_size t * tr_depth t) in
         t\<lparr>to_aie_ptr := vec_resize n (to_aie_ptr t),
           from_aie_ptr := vec_resize n (from_aie_ptr t)\<rparr>))
     (each (perf_place um) (args_rec t)))))))"

definition handleInputs :: "umem \<Rightarrow> test_harness_args list \<Rightarrow> unit tprog" where
  "handleInputs um args =
     thenM (modifyM reset)
     (thenM (check_arguments args)
     (bindM getM (\<lambda>t.
      thenM (write_cfg 0 (ucast (tr_mode t)))
      (thenM
        (if tr_mode t = FUNC_MODE then func_inputs um
         else if tr_mode t = PERF_MODE then perf_inputs um
         else ret ())
      (modifyM (\<lambda>t. t\<lparr>status := TRANSACTION_READY\<rparr>))))))"

section \<open>Unpacking the outputs\<close>

type_synonym 'a oprog = "(transaction \<times> umem, harness_error, 'a) prog"

definition perf_pair :: "u32 \<Rightarrow> u32 \<Rightarrow> channel_index \<Rightarrow> unit oprog" where
  "perf_pair i j ch = bindM getM (\<lambda>(t, um).
     bindM (ubM (vec_get (unat i) (perf_ptr t))) (\<lambda>a.
     bindM (ubM (vec_get (unat j) (perf_ptr t))) (\<lambda>b.
     modifyM (\<lambda>(t, um). (t\<lparr>perf_map := (perf_map t)(ch \<mapsto> (a, b))\<rparr>, um)))))"

text \<open>\<open>memcpy(args_rec[i].data, from_aie_ptr.data() + from_mem_word_offset[chn] * mMemWidth, n)\<close>\<close>

definition copy_from_aie :: "test_harness_args \<Rightarrow> u32 \<Rightarrow> nat \<Rightarrow> unit oprog" where
  "copy_from_aie a chn n = bindM getM (\<lambda>(t, um).
     bindM (ubM (vec_get (unat chn) (from_mem_word_offset t))) (\<lambda>off.
     bindM (ubM (vec_slice (unat (off * mMemWidth t)) n (from_aie_ptr t))) (\<lambda>bs.
     modifyM (\<lambda>(t, um). (t, mem_write um (data a) bs)))))"

definition handle_output :: "test_harness_args \<Rightarrow> unit oprog" where
  "handle_output a = bindM getM (\<lambda>(t, um).
     let nc = tr_num_channels t;
         to_chn = ucast (idx a) - ucast PLIO_01_TO_AIE;
         from_chn = ucast (idx a) - ucast PLIO_01_FROM_AIE;
         slot = tr_word_size t * tr_depth t in
     if tr_mode t = FUNC_MODE then
       thenM (if is_to_aie nc (idx a) then perf_pair to_chn (to_chn + nc) (idx a) else ret ())
         (if is_from_aie nc (idx a) then
            thenM (copy_from_aie a from_chn (unat (size_in_byte a)))
              (perf_pair (from_chn + 2 * nc) (from_chn + 3 * nc) (idx a))
          else ret ())
     else if tr_mode t = PERF_MODE then
       thenM
         (if is_from_aie nc (idx a) then
            thenM
              (if size_in_byte a > ucast slot then copy_from_aie a from_chn (unat slot)
               else copy_from_aie a from_chn (unat (size_in_byte a)))
              (perf_pair (from_chn + 2 * nc) (from_chn + 3 * nc) (idx a))
          else ret ())
         (if is_to_aie nc (idx a) then perf_pair to_chn (to_chn + nc) (idx a) else ret ())
     else ret ())"

definition handleOutputs :: "unit oprog" where
  "handleOutputs = bindM getM (\<lambda>(t, um).
     thenM (each handle_output (args_rec t)) (modifyM (\<lambda>(t, um). (clearData t, um))))"

section \<open>Queries\<close>

definition isResultValid :: "transaction \<Rightarrow> bool" where
  "isResultValid t =
     (if status t = TRANSACTION_TIMEOUT then False
      else if status t = TRANSACTION_DONE then result_valid t
      else False)"

text \<open>\<open>std::map::operator[]\<close> inserts a value-initialised pair for a missing key.\<close>

definition perf_lookup :: "channel_index \<Rightarrow> (u64 \<times> u64) tprog" where
  "perf_lookup ch = bindM getM (\<lambda>t. case perf_map t ch of
      Some p \<Rightarrow> ret p
    | None \<Rightarrow> thenM (modifyM (\<lambda>t. t\<lparr>perf_map := (perf_map t)(ch \<mapsto> (0, 0))\<rparr>)) (ret (0, 0)))"

definition getDelayBwtween :: "channel_index \<Rightarrow> channel_index \<Rightarrow> int tprog" where
  "getDelayBwtween id_from id_to = bindM getM (\<lambda>t.
     let nc = tr_num_channels t;
         past_from = (\<lambda>i. (ucast i :: u32) \<ge> ucast PLIO_01_FROM_AIE + nc);
         between = (\<lambda>i. (ucast i :: u32) \<ge> ucast PLIO_01_TO_AIE + nc \<and> i < PLIO_01_FROM_AIE) in
     if status t = TRANSACTION_DONE then
       if id_from < PLIO_01_TO_AIE \<or> past_from id_from \<or> between id_to
       then throw_harness INVALID_ARGUMENTS
       else if id_to < PLIO_01_TO_AIE \<or> past_from id_to \<or> between id_from
       then throw_harness INVALID_ARGUMENTS
       else bindM (perf_lookup id_to) (\<lambda>p. bindM (perf_lookup id_from) (\<lambda>q.
              ret (sint (fst p - fst q))))
     else throw_harness INVALID_ARGUMENTS)"

end
