(* ===== verification/Transaction_Layout.thy ===== *)
theory Transaction_Layout
  imports Transaction
begin

text \<open>
  What \<open>handleInputs\<close> promises: where each channel's configuration words and data end up. The
  offsets are computed on natural numbers here; the lemmas show that the code's word arithmetic
  agrees as long as the padded data of a transaction is below 4 GiB (the server refuses more than
  1 GiB).
\<close>

section \<open>The abstract layout\<close>

definition config_ok :: "transaction \<Rightarrow> bool" where
  "config_ok t \<longleftrightarrow> unat (tr_num_channels t) \<le> 36 \<and> tr_word_size t \<noteq> 0 \<and> mMemWidth t \<noteq> 0"

definition valid_channel :: "transaction \<Rightarrow> test_harness_args \<Rightarrow> bool" where
  "valid_channel t a \<longleftrightarrow>
     is_to_aie (tr_num_channels t) (idx a) \<or> is_from_aie (tr_num_channels t) (idx a)"

definition aligned :: "transaction \<Rightarrow> test_harness_args \<Rightarrow> bool" where
  "aligned t a \<longleftrightarrow> size_in_byte a mod ucast (tr_word_size t) = 0"

text \<open>The number of memory words a channel's data occupies, and the offset of the \<open>i\<close>-th argument
  among those of the same direction.\<close>

definition units :: "nat \<Rightarrow> test_harness_args \<Rightarrow> nat" where
  "units w a = (unat (size_in_byte a) + w - 1) div w"

definition dir_units :: "(channel_index \<Rightarrow> bool) \<Rightarrow> nat \<Rightarrow> test_harness_args list \<Rightarrow> nat" where
  "dir_units p w as = sum_list (map (units w) (filter (\<lambda>a. p (idx a)) as))"

definition fits :: "nat \<Rightarrow> test_harness_args list \<Rightarrow> bool" where
  "fits w as \<longleftrightarrow> sum_list (map (\<lambda>a. unat (size_in_byte a) + w) as) < 2 ^ 32"

definition cfg_at :: "nat \<Rightarrow> u64 list \<Rightarrow> nat \<Rightarrow> nat \<Rightarrow> u64" where
  "cfg_at nc cfg r c = cfg ! (1 + nc * r + c)"

definition to_chn :: "test_harness_args \<Rightarrow> nat" where
  "to_chn a = unat (idx a)"

definition from_chn :: "test_harness_args \<Rightarrow> nat" where
  "from_chn a = unat (idx a) - 36"

text \<open>The four configuration words of argument \<open>a\<close>, rows \<open>b\<close> to \<open>b + 3\<close>, column \<open>c\<close>.\<close>

definition configured ::
  "transaction \<Rightarrow> nat \<Rightarrow> nat \<Rightarrow> test_harness_args \<Rightarrow> nat \<Rightarrow> bool" where
  "configured t b c a off \<longleftrightarrow>
     (let nc = unat (tr_num_channels t); cfg = cfg_ptr t in
      cfg_at nc cfg b c = delay a \<and>
      cfg_at nc cfg (b + 1) c = size_in_byte a div ucast (tr_word_size t) \<and>
      cfg_at nc cfg (b + 2) c = repetition a \<and>
      cfg_at nc cfg (b + 3) c = of_nat off)"

definition unused_zero :: "transaction \<Rightarrow> test_harness_args list \<Rightarrow> bool" where
  "unused_zero t as \<longleftrightarrow>
     (let nc = unat (tr_num_channels t) in
      (\<forall>c < nc. (\<forall>a \<in> set as. is_to_aie (tr_num_channels t) (idx a) \<longrightarrow> to_chn a \<noteq> c) \<longrightarrow>
         (\<forall>r < 4. cfg_at nc (cfg_ptr t) r c = 0)) \<and>
      (\<forall>c < nc. (\<forall>a \<in> set as. is_from_aie (tr_num_channels t) (idx a) \<longrightarrow> from_chn a \<noteq> c) \<longrightarrow>
         (\<forall>r < 4. cfg_at nc (cfg_ptr t) (4 + r) c = 0)))"

section \<open>Sizes\<close>

lemma units_mult:
  "0 < w \<Longrightarrow> unat (size_in_byte a) \<le> units w a * w"
  "0 < w \<Longrightarrow> units w a * w < unat (size_in_byte a) + w"
  using ceil_div_bounds [of w "unat (size_in_byte a)"] by (simp_all add: units_def)

lemma dir_units_snoc:
  "dir_units p w (as @ [a]) = dir_units p w as + (if p (idx a) then units w a else 0)"
  by (simp add: dir_units_def)

lemma dir_units_append:
  "dir_units p w (as @ bs) = dir_units p w as + dir_units p w bs"
  by (simp add: dir_units_def)

lemma dir_units_bound:
  assumes "0 < w" shows "dir_units p w as * w \<le> sum_list (map (\<lambda>a. unat (size_in_byte a) + w) as)"
proof (induction as)
  case Nil
  then show ?case by (simp add: dir_units_def)
next
  case (Cons a as)
  have "units w a * w \<le> unat (size_in_byte a) + w" using units_mult(2) [OF assms] by (simp add: less_imp_le)
  with Cons show ?case by (simp add: dir_units_def add_mult_distrib)
qed

lemma fits_elem: "fits w as \<Longrightarrow> a \<in> set as \<Longrightarrow> unat (size_in_byte a) + w < 2 ^ 32"
  unfolding fits_def using member_le_sum_list [of "unat (size_in_byte a) + w" "map (\<lambda>a. unat (size_in_byte a) + w) as"]
  by auto

lemma fits_dir_units: "0 < w \<Longrightarrow> fits w as \<Longrightarrow> dir_units p w as * w < 2 ^ 32"
  unfolding fits_def using dir_units_bound [of w p as] by linarith

lemma unat_mem_words_of:
  assumes "memw \<noteq> 0" and "unat (size_in_byte a) + unat memw < 2 ^ 32"
  shows "unat (mem_words_of memw a) = units (unat memw) a"
proof -
  have m: "unat (ucast memw :: u64) = unat memw"
    using unat_less_exp [where m = 64 and x = memw] by (simp add: unsigned_ucast_eq take_bit_nat_eq_self)
  have s: "unat (size_in_byte a + ucast memw) = unat (size_in_byte a) + unat memw"
    using assms(2) m by (subst unat_add_small) auto
  have pos: "0 < unat memw" using assms(1) by (simp add: unat_gt_0)
  have "unat (size_in_byte a + ucast memw - 1) = unat (size_in_byte a) + unat memw - 1"
    using s pos by (subst unat_sub_small) auto
  then show ?thesis by (simp add: mem_words_of_def units_def unat_div m)
qed

section \<open>Configuration words\<close>

definition put4 :: "nat \<Rightarrow> nat \<Rightarrow> nat \<Rightarrow> u64 \<times> u64 \<times> u64 \<times> u64 \<Rightarrow> u64 list \<Rightarrow> u64 list" where
  "put4 nc b c v cfg = (case v of (v0, v1, v2, v3) \<Rightarrow>
     cfg[1 + nc * b + c := v0, 1 + nc * (b + 1) + c := v1,
         1 + nc * (b + 2) + c := v2, 1 + nc * (b + 3) + c := v3])"

lemma length_put4 [simp]: "length (put4 nc b c v cfg) = length cfg"
  by (simp add: put4_def split: prod.splits)

lemma row_index_inj:
  assumes "c < nc" "c' < (nc :: nat)"
  shows "nc * r + c = nc * r' + c' \<longleftrightarrow> r = r' \<and> c = c'"
proof
  assume e: "nc * r + c = nc * r' + c'"
  have "(nc * r + c) div nc = r" "(nc * r' + c') div nc = r'"
    using assms by (simp_all add: div_mult2_eq)
  with e show "r = r' \<and> c = c'" by auto
qed simp

lemma row_index_bound:
  assumes "c < nc" "r < (8 :: nat)" shows "1 + nc * r + c < 8 * nc + 1"
proof -
  have "nc * r \<le> nc * 7" using assms(2) by (intro mult_le_mono2) simp
  with assms(1) show ?thesis by linarith
qed

lemma cfg_at_upd:
  assumes "length cfg = 8 * nc + 1" "c < nc" "c' < nc" "r < 8" "r' < 8"
  shows "cfg_at nc (cfg[1 + nc * r + c := v]) r' c' =
    (if r' = r \<and> c' = c then v else cfg_at nc cfg r' c')"
  using assms row_index_inj [OF assms(2,3), of r r'] row_index_bound [OF assms(2,4)]
  by (auto simp: cfg_at_def nth_list_update)

lemma cfg_at_put4:
  assumes "length cfg = 8 * nc + 1" "c < nc" "c' < nc" "b + 3 < 8" "r < 8"
  shows "cfg_at nc (put4 nc b c (v0, v1, v2, v3) cfg) r c' =
    (if r = b + 3 \<and> c' = c then v3 else if r = b + 2 \<and> c' = c then v2
     else if r = b + 1 \<and> c' = c then v1 else if r = b \<and> c' = c then v0
     else cfg_at nc cfg r c')"
proof -
  have b: "b < 8" "b + 1 < 8" "b + 2 < 8" using assms(4) by simp_all
  show ?thesis
    unfolding put4_def prod.case
    by (simp only: cfg_at_upd assms b length_list_update)
qed

lemma put4_0 [simp]: "put4 nc b c v cfg ! 0 = cfg ! 0"
  by (simp add: put4_def split: prod.splits)

lemma unat_cfg_index:
  assumes "unat (nc :: u32) \<le> 36" "unat chn < unat nc" "unat bias + k < 8" "k < 4"
  shows "unat (1 + nc * bias + of_nat k * nc + chn) = 1 + unat nc * (unat bias + k) + unat chn"
proof -
  have kk: "unat (of_nat k :: u32) = k" using assms(4) by (intro unat_of_nat_small) simp
  have m1: "unat nc * unat bias \<le> 36 * 7" and m2: "k * unat nc \<le> 3 * 36"
    using assms by (intro mult_le_mono; simp)+
  have a: "unat (nc * bias) = unat nc * unat bias"
    using m1 by (intro unat_mult_small) simp
  have b: "unat (of_nat k * nc) = k * unat nc"
    using m2 kk by (subst unat_mult_small) (simp_all)
  have c: "unat (1 + nc * bias) = 1 + unat nc * unat bias"
    using m1 a by (subst unat_add_small) simp_all
  have d: "unat (1 + nc * bias + of_nat k * nc) = 1 + unat nc * unat bias + k * unat nc"
    using m1 m2 b c by (subst unat_add_small) simp_all
  have "unat (1 + nc * bias + of_nat k * nc + chn) = 1 + unat nc * unat bias + k * unat nc + unat chn"
    using m1 m2 d assms by (subst unat_add_small) simp_all
  then show ?thesis by (simp add: algebra_simps)
qed

lemma write_cfg_run:
  "unat i < length (cfg_ptr t) \<Longrightarrow>
     write_cfg i v t = (Inr (), t\<lparr>cfg_ptr := (cfg_ptr t)[unat i := v]\<rparr>)"
  by (simp add: write_cfg_def vec_set_def)

lemma write_channel_cfg_run:
  assumes "unat (tr_num_channels t) \<le> 36" "unat chn < unat (tr_num_channels t)"
    and "bias = 0 \<or> bias = 4"
    and "length (cfg_ptr t) = 8 * unat (tr_num_channels t) + 1"
  shows "write_channel_cfg bias chn a off t = (Inr (), t\<lparr>cfg_ptr :=
    put4 (unat (tr_num_channels t)) (unat bias) (unat chn)
      (delay a, size_in_byte a div ucast (tr_word_size t), repetition a, off) (cfg_ptr t)\<rparr>)"
proof -
  let ?nc = "tr_num_channels t"
  have b: "unat bias + 3 < 8" using assms(3) by auto
  have ix: "unat (1 + ?nc * bias + of_nat k * ?nc + chn) =
      1 + unat ?nc * (unat bias + k) + unat chn" if "k < 4" for k
    using assms(1,2) b that by (intro unat_cfg_index) auto
  have bd: "1 + unat ?nc * (unat bias + k) + unat chn < 8 * unat ?nc + 1" if "k < 4" for k
    using assms(2) b that by (intro row_index_bound) auto
  have run: "write_cfg (1 + ?nc * bias + of_nat k * ?nc + chn) v u =
      (Inr (), u\<lparr>cfg_ptr := (cfg_ptr u)[1 + unat ?nc * (unat bias + k) + unat chn := v]\<rparr>)"
    if "k < 4" "length (cfg_ptr u) = 8 * unat ?nc + 1" for k v u
    using ix [OF that(1)] bd [OF that(1)] that(2) by (simp add: write_cfg_run)
  show ?thesis
    using run [of 0] run [of 1] run [of 2] run [of 3] assms(4)
    by (simp add: write_channel_cfg_def Let_def thenM_Inr put4_def)
qed

end
