(* ===== verification/Transaction_Inputs.thy ===== *)
theory Transaction_Inputs
  imports Transaction_Layout
begin

text \<open>\<open>handleInputs\<close> against the layout of the previous theory: the argument checks, the two modes,
  and the errors.\<close>

section \<open>Reset and the argument checks\<close>

lemma reset_simps [simp]:
  "tr_num_channels (reset t) = tr_num_channels t" "tr_word_size (reset t) = tr_word_size t"
  "tr_depth (reset t) = tr_depth t" "mMemWidth (reset t) = mMemWidth t"
  "tr_mode (reset t) = tr_mode t" "args_rec (reset t) = []" "trans_id (reset t) = trans_id t"
  "status (reset t) = TRANSACTION_CREATED" "result_valid (reset t) = True"
  "to_aie_ptr (reset t) = []" "from_aie_ptr (reset t) = []" "mTimeOut (reset t) = 0"
  "perf_map (reset t) = perf_map t"
  by (simp_all add: reset_def clearData_def Let_def)

lemma reset_cfg:
  assumes "unat (tr_num_channels t) \<le> 36"
  shows "cfg_ptr (reset t) = replicate (8 * unat (tr_num_channels t) + 1) 0"
    "perf_ptr (reset t) = replicate (4 * unat (tr_num_channels t)) 0"
    "from_mem_word_offset (reset t) = replicate (unat (tr_num_channels t)) 0"
proof -
  have n4: "unat (tr_num_channels t * 4) = 4 * unat (tr_num_channels t)"
    using assms by (subst unat_mult_small) simp_all
  have "unat (tr_num_channels t * 8) = 8 * unat (tr_num_channels t)"
    using assms by (subst unat_mult_small) simp_all
  then have n8: "unat (tr_num_channels t * 8 + 1) = 8 * unat (tr_num_channels t) + 1"
    using assms by (subst unat_add_small) simp_all
  show "cfg_ptr (reset t) = replicate (8 * unat (tr_num_channels t) + 1) 0"
    "perf_ptr (reset t) = replicate (4 * unat (tr_num_channels t)) 0"
    "from_mem_word_offset (reset t) = replicate (unat (tr_num_channels t)) 0"
    using n4 n8
    by (simp_all add: reset_def clearData_def Let_def map_replicate_const mult.assoc)
qed

definition accepted :: "transaction \<Rightarrow> test_harness_args \<Rightarrow> bool" where
  "accepted t a \<longleftrightarrow> valid_channel t a \<and> aligned t a"

lemma check_argument_run:
  assumes "tr_word_size t \<noteq> 0"
  shows "check_argument a t =
    (if accepted t a then (Inr (), t\<lparr>args_rec := args_rec t @ [a]\<rparr>)
     else (Inl (TestHarnessException INVALID_ARGUMENTS), t))"
  using assms by (auto simp: check_argument_def accepted_def valid_channel_def aligned_def)

lemma accepted_args_rec [simp]: "accepted (t\<lparr>args_rec := x\<rparr>) = accepted t"
  by (simp add: fun_eq_iff accepted_def valid_channel_def aligned_def)

lemma check_arguments_run:
  assumes "tr_word_size t \<noteq> 0"
  shows "check_arguments args t =
    (if \<forall>a \<in> set args. accepted t a then Inr () else Inl (TestHarnessException INVALID_ARGUMENTS),
     t\<lparr>args_rec := args_rec t @ takeWhile (accepted t) args\<rparr>)"
  using assms
proof (induction args arbitrary: t)
  case Nil
  then show ?case by (simp add: check_arguments_def)
next
  case (Cons a args)
  show ?case
  proof (cases "accepted t a")
    case True
    let ?u = "t\<lparr>args_rec := args_rec t @ [a]\<rparr>"
    have "check_arguments (a # args) t = check_arguments args ?u"
      using True Cons.prems by (simp add: check_arguments_def check_argument_run thenM_Inr)
    also have "\<dots> = (if \<forall>a \<in> set args. accepted t a then Inr ()
        else Inl (TestHarnessException INVALID_ARGUMENTS),
        ?u\<lparr>args_rec := args_rec ?u @ takeWhile (accepted t) args\<rparr>)"
      using Cons.IH [of ?u] Cons.prems by simp
    finally show ?thesis using True by simp
  next
    case False
    then show ?thesis
      using Cons.prems by (simp add: check_arguments_def check_argument_run thenM_Inl)
  qed
qed

section \<open>The totals of a functional transaction\<close>

lemma mem_words_of_nat:
  assumes "memw \<noteq> 0" and "unat (size_in_byte a) + unat memw < 2 ^ 32"
  shows "mem_words_of memw a = of_nat (units (unat memw) a)"
  by (metis assms unat_mem_words_of of_nat_unat ucast_id)

lemma func_total_run:
  assumes "mMemWidth t \<noteq> 0" "repetition a = 1"
    and "unat (size_in_byte a) + unat (mMemWidth t) < 2 ^ 32"
    and "unat (tr_num_channels t) \<le> 36"
  shows "func_total a (x, y) t =
    (Inr (x + of_nat (if is_to_aie (tr_num_channels t) (idx a)
                then units (unat (mMemWidth t)) a else 0) * ucast (mMemWidth t),
          y + of_nat (if is_from_aie (tr_num_channels t) (idx a)
                then units (unat (mMemWidth t)) a else 0) * ucast (mMemWidth t)), t)"
  using assms to_from_disjoint [OF assms(4), of "idx a"]
  by (simp add: func_total_def Let_def mem_words_of_nat)

lemma func_total_fold:
  assumes "mMemWidth t \<noteq> 0" "\<forall>a \<in> set args. repetition a = 1"
    and "fits (unat (mMemWidth t)) args" and "unat (tr_num_channels t) \<le> 36"
  shows "foldM func_total args (0, 0) t =
    (Inr (of_nat (dir_units (is_to_aie (tr_num_channels t)) (unat (mMemWidth t)) args) * ucast (mMemWidth t),
          of_nat (dir_units (is_from_aie (tr_num_channels t)) (unat (mMemWidth t)) args) * ucast (mMemWidth t)), t)"
proof -
  let ?w = "unat (mMemWidth t)"
  let ?I = "\<lambda>pre b s. s = t \<and>
     b = (of_nat (dir_units (is_to_aie (tr_num_channels t)) ?w pre) * ucast (mMemWidth t) :: u64,
          of_nat (dir_units (is_from_aie (tr_num_channels t)) ?w pre) * ucast (mMemWidth t) :: u64)"
  have "\<exists>b' s'. foldM func_total args (0, 0) t = (Inr b', s') \<and> ?I args b' s'"
  proof (rule foldM_prefix_rule)
    show "?I [] (0, 0) t" by (simp add: dir_units_def)
  next
    fix pre x suf b s
    assume x: "args = pre @ x # suf" and I: "?I pre b s"
    have "unat (size_in_byte x) + ?w < 2 ^ 32" "repetition x = 1"
      using x fits_elem [OF assms(3)] assms(2) by auto
    with I assms show "\<exists>b' s'. func_total x b s = (Inr b', s') \<and> ?I (pre @ [x]) b' s'"
      by (simp add: func_total_run dir_units_snoc distrib_right)
  qed
  then show ?thesis by auto
qed

lemma func_total_repetition:
  assumes "mMemWidth t \<noteq> 0" "\<exists>a \<in> set args. repetition a \<noteq> 1"
  shows "foldM func_total args acc t = (Inl (TestHarnessException INVALID_ARGUMENTS), t)"
  using assms(2)
proof (induction args arbitrary: acc)
  case Nil
  then show ?case by simp
next
  case (Cons a args)
  show ?case
  proof (cases "repetition a = 1")
    case True
    obtain acc' where "func_total a acc t = (Inr acc', t)"
      using True assms(1) by (cases acc) (simp add: func_total_def Let_def)
    with Cons True show ?thesis by (simp add: bindM_Inr)
  next
    case False
    then have "func_total a acc t = (Inl (TestHarnessException INVALID_ARGUMENTS), t)"
      using assms(1) by (cases acc) (simp add: func_total_def Let_def)
    then show ?thesis by (simp add: bindM_Inl)
  qed
qed

end
