(* ===== verification/Transaction_Func.thy ===== *)
theory Transaction_Func
  imports Transaction_Inputs
begin

text \<open>The functional mode: the second loop of \<open>handleInputs\<close> lays the channels out back to back.\<close>

section \<open>What an update of four configuration words changes\<close>

lemma configured_frame [simp]:
  "configured (t\<lparr>to_aie_ptr := x\<rparr>) = configured t"
  "configured (t\<lparr>from_mem_word_offset := y\<rparr>) = configured t"
  by (simp_all add: fun_eq_iff configured_def)

lemma configured_same:
  assumes "length (cfg_ptr t) = 8 * unat (tr_num_channels t) + 1" "c < unat (tr_num_channels t)"
    "b = 0 \<or> b = 4"
  shows "configured (t\<lparr>cfg_ptr := put4 (unat (tr_num_channels t)) b c
      (delay a, size_in_byte a div ucast (tr_word_size t), repetition a, of_nat off) (cfg_ptr t)\<rparr>)
      b c a off"
  using assms by (auto simp: configured_def Let_def cfg_at_put4)

lemma configured_other:
  assumes "length (cfg_ptr t) = 8 * unat (tr_num_channels t) + 1"
    "c < unat (tr_num_channels t)" "c' < unat (tr_num_channels t)"
    "b = 0 \<or> b = 4" "b' = 0 \<or> b' = 4" "b \<noteq> b' \<or> c \<noteq> c'"
  shows "configured (t\<lparr>cfg_ptr := put4 (unat (tr_num_channels t)) b c v (cfg_ptr t)\<rparr>) b' c' a' off'
    = configured t b' c' a' off'"
  using assms by (cases v) (auto simp: configured_def Let_def cfg_at_put4)

lemma to_chn_less: "is_to_aie nc (idx a) \<Longrightarrow> to_chn a < unat nc"
  by (simp add: to_chn_def is_to_aie_iff)

lemma from_chn_less: "unat nc \<le> 36 \<Longrightarrow> is_from_aie nc (idx a) \<Longrightarrow> from_chn a < unat nc"
  by (auto simp: from_chn_def is_from_aie_iff)

lemma unused_zero_frame [simp]:
  "unused_zero (t\<lparr>to_aie_ptr := x\<rparr>) = unused_zero t"
  "unused_zero (t\<lparr>from_mem_word_offset := y\<rparr>) = unused_zero t"
  by (simp_all add: fun_eq_iff unused_zero_def)

lemma unused_zero_to:
  assumes "length (cfg_ptr t) = 8 * unat (tr_num_channels t) + 1" "unused_zero t as"
    "is_to_aie (tr_num_channels t) (idx a)"
  shows "unused_zero (t\<lparr>cfg_ptr := put4 (unat (tr_num_channels t)) 0 (to_chn a) v (cfg_ptr t)\<rparr>) (as @ [a])"
  using assms to_chn_less [OF assms(3)] by (cases v) (simp add: unused_zero_def Let_def cfg_at_put4)

lemma unused_zero_from:
  assumes "length (cfg_ptr t) = 8 * unat (tr_num_channels t) + 1" "unused_zero t as"
    "is_from_aie (tr_num_channels t) (idx a)" "unat (tr_num_channels t) \<le> 36"
  shows "unused_zero (t\<lparr>cfg_ptr := put4 (unat (tr_num_channels t)) 4 (from_chn a) v (cfg_ptr t)\<rparr>) (as @ [a])"
  using assms from_chn_less [OF assms(4,3)] by (cases v) (simp add: unused_zero_def Let_def cfg_at_put4)

section \<open>The layout after the first arguments\<close>

definition to_dir :: "transaction \<Rightarrow> channel_index \<Rightarrow> bool" where
  "to_dir t = is_to_aie (tr_num_channels t)"

definition from_dir :: "transaction \<Rightarrow> channel_index \<Rightarrow> bool" where
  "from_dir t = is_from_aie (tr_num_channels t)"

definition to_data_at :: "umem \<Rightarrow> transaction \<Rightarrow> test_harness_args \<Rightarrow> nat \<Rightarrow> bool" where
  "to_data_at um t a off \<longleftrightarrow>
     vec_slice (off * unat (mMemWidth t)) (unat (size_in_byte a)) (to_aie_ptr t) =
       Some (mem_read um (data a) (unat (size_in_byte a)))"

text \<open>The last argument that names a channel.\<close>

definition last_named :: "test_harness_args list \<Rightarrow> channel_index \<Rightarrow> nat" where
  "last_named as ch = last (filter (\<lambda>j. idx (as ! j) = ch) [0..<length as])"

lemma named_snoc:
  "filter (\<lambda>j. idx ((as @ [a]) ! j) = ch) [0..<length (as @ [a])] =
     filter (\<lambda>j. idx (as ! j) = ch) [0..<length as] @ (if idx a = ch then [length as] else [])"
proof -
  have "filter (\<lambda>j. idx ((as @ [a]) ! j) = ch) [0..<length as] = filter (\<lambda>j. idx (as ! j) = ch) [0..<length as]"
    by (rule filter_cong) (simp_all add: nth_append)
  then show ?thesis by (simp add: nth_append)
qed

lemma last_named_snoc:
  "last_named (as @ [a]) ch = (if idx a = ch then length as else last_named as ch)"
  unfolding last_named_def named_snoc by simp

lemma last_named_nth:
  assumes "a \<in> set as" shows "last_named as (idx a) < length as" "idx (as ! last_named as (idx a)) = idx a"
proof -
  let ?js = "filter (\<lambda>j. idx (as ! j) = idx a) [0..<length as]"
  have "?js \<noteq> []" using assms by (auto simp: filter_empty_conv in_set_conv_nth)
  then have "last ?js \<in> set ?js" by (rule last_in_set)
  then show "last_named as (idx a) < length as" "idx (as ! last_named as (idx a)) = idx a" by (simp_all add: last_named_def)
qed

lemma last_named_distinct [simp]:
  assumes "distinct (map idx as)" "i < length as" shows "last_named as (idx (as ! i)) = i"
  using last_named_nth [of "as ! i" as] assms nth_eq_iff_index_eq [OF assms(1)] by simp

text \<open>
  The promise for argument \<open>i\<close>: the data of a channel to the AI Engine lies at its offset, and the offset of the last
  argument for a channel from the AI Engine is recorded for \<open>handleOutputs\<close>; if no channel is named twice, the configuration
  words of every channel are in place, and the recorded offset is the one of its argument.
\<close>

definition func_layout :: "umem \<Rightarrow> transaction \<Rightarrow> test_harness_args list \<Rightarrow> bool" where
  "func_layout um t as \<longleftrightarrow>
     (\<forall>i < length as. to_dir t (idx (as ! i)) \<longrightarrow>
        to_data_at um t (as ! i) (dir_units (to_dir t) (unat (mMemWidth t)) (take i as))) \<and>
     (\<forall>a \<in> set as. from_dir t (idx a) \<longrightarrow> from_mem_word_offset t ! from_chn a =
        of_nat (dir_units (from_dir t) (unat (mMemWidth t)) (take (last_named as (idx a)) as))) \<and>
     (distinct (map idx as) \<longrightarrow>
       (\<forall>i < length as.
         (to_dir t (idx (as ! i)) \<longrightarrow>
            configured t 0 (to_chn (as ! i)) (as ! i)
              (dir_units (to_dir t) (unat (mMemWidth t)) (take i as))) \<and>
         (from_dir t (idx (as ! i)) \<longrightarrow>
            configured t 4 (from_chn (as ! i)) (as ! i)
              (dir_units (from_dir t) (unat (mMemWidth t)) (take i as)) \<and>
            from_mem_word_offset t ! from_chn (as ! i) =
              of_nat (dir_units (from_dir t) (unat (mMemWidth t)) (take i as))))) \<and>
     unused_zero t as"

lemma all_less_snoc:
  "(\<forall>i < length (as @ [x]). P i) \<longleftrightarrow> (\<forall>i < length as. P i) \<and> P (length as)"
  by (auto simp: less_Suc_eq)

lemma to_chn_inj: "to_chn a = to_chn b \<longleftrightarrow> idx a = idx b"
  by (simp add: to_chn_def word_unat_eq_iff)

lemma from_chn_inj:
  assumes "unat nc \<le> 36" "is_from_aie nc (idx a)" "is_from_aie nc (idx b)"
  shows "from_chn a = from_chn b \<longleftrightarrow> idx a = idx b"
  using assms by (auto simp: from_chn_def is_from_aie_iff word_unat_eq_iff)

lemma distinct_map_append_idx:
  "distinct (map idx (as @ [x])) \<Longrightarrow> y \<in> set as \<Longrightarrow> idx y \<noteq> idx x"
  by (induction as) auto

lemma distinct_nth_idx:
  "distinct (map idx (as @ [x])) \<Longrightarrow> i < length as \<Longrightarrow> idx (as ! i) \<noteq> idx x"
  by (metis distinct_map_append_idx nth_mem)

text \<open>The data of an earlier argument ends before the next offset.\<close>

lemma earlier_region:
  assumes "0 < w" "i < length as" "p (idx (as ! i))"
  shows "dir_units p w (take i as) * w + unat (size_in_byte (as ! i)) \<le> dir_units p w as * w"
proof -
  have "as = take i as @ as ! i # drop (Suc i) as" using assms(2) by (rule id_take_nth_drop)
  then have "dir_units p w as = dir_units p w (take i as) + dir_units p w (as ! i # drop (Suc i) as)"
    by (metis dir_units_append)
  moreover have "units w (as ! i) \<le> dir_units p w (as ! i # drop (Suc i) as)"
    using assms(3) by (simp add: dir_units_def)
  ultimately have "(dir_units p w (take i as) + units w (as ! i)) * w \<le> dir_units p w as * w"
    by (intro mult_le_mono1) simp
  with units_mult(1) [OF assms(1), of "as ! i"] show ?thesis by (simp add: add_mult_distrib)
qed

lemma func_layout_to:
  assumes lay: "func_layout um t as" and cfg: "length (cfg_ptr t) = 8 * unat (tr_num_channels t) + 1"
    and a: "to_dir t (idx a)" and nc: "unat (tr_num_channels t) \<le> 36" and w: "0 < unat (mMemWidth t)"
    and blit: "vec_blit (dir_units (to_dir t) (unat (mMemWidth t)) as * unat (mMemWidth t))
        (mem_read um (data a) (unat (size_in_byte a))) (to_aie_ptr t) = Some b"
  shows "func_layout um (t\<lparr>cfg_ptr := put4 (unat (tr_num_channels t)) 0 (to_chn a)
      (delay a, size_in_byte a div ucast (tr_word_size t), repetition a,
       of_nat (dir_units (to_dir t) (unat (mMemWidth t)) as)) (cfg_ptr t), to_aie_ptr := b\<rparr>) (as @ [a])"
    (is "func_layout um ?t' _")
proof -
  have d [simp]: "to_dir ?t' = to_dir t" "from_dir ?t' = from_dir t"
    by (simp_all add: to_dir_def from_dir_def)
  have old: "to_data_at um ?t' (as ! i) (dir_units (to_dir t) (unat (mMemWidth t)) (take i as))"
    if "i < length as" "to_dir t (idx (as ! i))" for i
  proof -
    have "vec_slice (dir_units (to_dir t) (unat (mMemWidth t)) (take i as) * unat (mMemWidth t))
        (unat (size_in_byte (as ! i))) b =
      vec_slice (dir_units (to_dir t) (unat (mMemWidth t)) (take i as) * unat (mMemWidth t))
        (unat (size_in_byte (as ! i))) (to_aie_ptr t)"
      using earlier_region [OF w that(1), where p = "to_dir t"] that(2)
      by (intro vec_blit_slice_other [OF blit]) auto
    with lay that show ?thesis by (simp add: func_layout_def to_data_at_def)
  qed
  have new: "to_data_at um ?t' a (dir_units (to_dir t) (unat (mMemWidth t)) as)"
    using vec_blit_slice_same [OF blit] by (simp add: to_data_at_def)
  have c: "to_chn a < unat (tr_num_channels t)" using a by (simp add: to_dir_def to_chn_less)
  have cold: "configured ?t' 0 (to_chn (as ! i)) x off = configured t 0 (to_chn (as ! i)) x off"
    if "distinct (map idx (as @ [a]))" "i < length as" "to_dir t (idx (as ! i))" for i x off
    using that c cfg distinct_nth_idx [OF that(1,2)]
    by (simp add: configured_other to_chn_inj to_dir_def to_chn_less)
  have cfrom: "configured ?t' 4 (from_chn (as ! i)) x off = configured t 4 (from_chn (as ! i)) x off"
    if "i < length as" "from_dir t (idx (as ! i))" for i x off
    using that c cfg nc by (simp add: configured_other from_dir_def from_chn_less)
  have cnew: "configured ?t' 0 (to_chn a) a (dir_units (to_dir t) (unat (mMemWidth t)) as)"
    using configured_same [OF cfg c] by simp
  have nf: "\<not> from_dir t (idx a)" using to_from_disjoint [OF nc] a by (auto simp: to_dir_def from_dir_def)
  have rec: "from_mem_word_offset ?t' ! from_chn b =
      of_nat (dir_units (from_dir t) (unat (mMemWidth t)) (take (last_named (as @ [a]) (idx b)) (as @ [a])))"
    if "b \<in> set (as @ [a])" "from_dir t (idx b)" for b
  proof -
    have "idx a \<noteq> idx b" "b \<in> set as" using that nf by auto
    then show ?thesis using lay that last_named_nth(1) [of b as] by (simp add: func_layout_def last_named_snoc)
  qed
  have "unused_zero ?t' (as @ [a])"
    using unused_zero_to [OF cfg] lay a by (simp add: func_layout_def to_dir_def)
  with lay old new cold cfrom cnew nf rec show ?thesis
    unfolding func_layout_def d all_less_snoc
    by (auto simp: nth_append)
qed

lemma func_layout_from:
  assumes lay: "func_layout um t as" and cfg: "length (cfg_ptr t) = 8 * unat (tr_num_channels t) + 1"
    and fo: "length (from_mem_word_offset t) = unat (tr_num_channels t)"
    and a: "from_dir t (idx a)" and nc: "unat (tr_num_channels t) \<le> 36"
  shows "func_layout um (t\<lparr>cfg_ptr := put4 (unat (tr_num_channels t)) 4 (from_chn a)
      (delay a, size_in_byte a div ucast (tr_word_size t), repetition a,
       of_nat (dir_units (from_dir t) (unat (mMemWidth t)) as)) (cfg_ptr t),
      from_mem_word_offset := (from_mem_word_offset t)
        [from_chn a := of_nat (dir_units (from_dir t) (unat (mMemWidth t)) as)]\<rparr>) (as @ [a])"
    (is "func_layout um ?t' _")
proof -
  have d [simp]: "to_dir ?t' = to_dir t" "from_dir ?t' = from_dir t"
    by (simp_all add: to_dir_def from_dir_def)
  have dt: "to_data_at um ?t' = to_data_at um t"
    by (simp add: fun_eq_iff to_data_at_def)
  have c: "from_chn a < unat (tr_num_channels t)" using a nc by (simp add: from_dir_def from_chn_less)
  have cold: "configured ?t' 4 (from_chn (as ! i)) x off = configured t 4 (from_chn (as ! i)) x off"
    and fold: "from_mem_word_offset ?t' ! from_chn (as ! i) = from_mem_word_offset t ! from_chn (as ! i)"
    if "distinct (map idx (as @ [a]))" "i < length as" "from_dir t (idx (as ! i))" for i x off
  proof -
    have "from_chn a \<noteq> from_chn (as ! i)"
      using from_chn_inj [OF nc] a that distinct_nth_idx [OF that(1,2)] by (auto simp: from_dir_def)
    then show "configured ?t' 4 (from_chn (as ! i)) x off = configured t 4 (from_chn (as ! i)) x off"
      "from_mem_word_offset ?t' ! from_chn (as ! i) = from_mem_word_offset t ! from_chn (as ! i)"
      using that c cfg nc by (simp_all add: configured_other from_dir_def from_chn_less)
  qed
  have cto: "configured ?t' 0 (to_chn (as ! i)) x off = configured t 0 (to_chn (as ! i)) x off"
    if "i < length as" "to_dir t (idx (as ! i))" for i x off
    using that c cfg by (simp add: configured_other to_dir_def to_chn_less)
  have cnew: "configured ?t' 4 (from_chn a) a (dir_units (from_dir t) (unat (mMemWidth t)) as)"
    using configured_same [OF cfg c] by simp
  have fnew: "from_mem_word_offset ?t' ! from_chn a = of_nat (dir_units (from_dir t) (unat (mMemWidth t)) as)"
    using c fo by simp
  have nt: "\<not> to_dir t (idx a)" using to_from_disjoint [OF nc] a by (auto simp: to_dir_def from_dir_def)
  have rec: "from_mem_word_offset ?t' ! from_chn b =
      of_nat (dir_units (from_dir t) (unat (mMemWidth t)) (take (last_named (as @ [a]) (idx b)) (as @ [a])))"
    if "b \<in> set (as @ [a])" "from_dir t (idx b)" for b
  proof (cases "idx a = idx b")
    case True
    then have "from_chn b = from_chn a" by (simp add: from_chn_def)
    then show ?thesis using True fnew by (simp add: last_named_snoc)
  next
    case False
    then have "b \<in> set as" "from_chn a \<noteq> from_chn b" using that a from_chn_inj [OF nc] by (auto simp: from_dir_def)
    then show ?thesis using False lay that last_named_nth(1) [of b as] by (simp add: func_layout_def last_named_snoc)
  qed
  have "unused_zero ?t' (as @ [a])"
    using unused_zero_from [OF cfg] lay a nc by (simp add: func_layout_def from_dir_def)
  with lay dt cold fold cto cnew fnew nt rec show ?thesis
    unfolding func_layout_def d all_less_snoc
    by (auto simp: nth_append)
qed

section \<open>The second loop\<close>

lemma unat_channel:
  "unat (ucast (idx a) - ucast PLIO_01_TO_AIE :: u32) = to_chn a"
  "is_from_aie nc (idx a) \<Longrightarrow> unat (ucast (idx a) - ucast PLIO_01_FROM_AIE :: u32) = from_chn a"
proof -
  show "unat (ucast (idx a) - ucast PLIO_01_TO_AIE :: u32) = to_chn a"
    by (simp add: PLIO_01_TO_AIE_def to_chn_def)
  assume "is_from_aie nc (idx a)"
  then have "36 \<le> unat (idx a)"
    by (simp add: is_from_aie_def PLIO_01_FROM_AIE_def word_le_nat_alt)
  then show "unat (ucast (idx a) - ucast PLIO_01_FROM_AIE :: u32) = from_chn a"
    by (subst unat_sub_small) (simp_all add: PLIO_01_FROM_AIE_def from_chn_def)
qed

lemma unat_byte_offset:
  assumes "off * unat (w :: u32) < 2 ^ 32" "0 < unat w"
  shows "unat (of_nat off * ucast w :: u64) = off * unat w"
proof -
  have u: "unat (ucast w :: u64) = unat w"
    using unat_less_exp [where m = 64 and x = w] by (simp add: unsigned_ucast_eq take_bit_nat_eq_self)
  have "off * 1 \<le> off * unat w" using assms(2) by (intro mult_le_mono2) simp
  with assms(1) have "off < 2 ^ 32" by linarith
  then have "off < 2 ^ 64" by simp
  then have "unat (of_nat off :: u64) = off" by (intro unat_of_nat_small) simp
  with u assms(1) show ?thesis by (subst unat_mult_small) simp_all
qed

lemma copy_to_aie_run:
  "vec_blit off bs (to_aie_ptr t) = Some b \<Longrightarrow>
     copy_to_aie off bs t = (Inr (), t\<lparr>to_aie_ptr := b\<rparr>)"
  by (simp add: copy_to_aie_def)

lemma set_from_offset_run:
  "unat chn < length (from_mem_word_offset t) \<Longrightarrow>
     set_from_offset chn off t =
       (Inr (), t\<lparr>from_mem_word_offset := (from_mem_word_offset t)[unat chn := off]\<rparr>)"
  by (simp add: set_from_offset_def vec_set_def)

lemma func_place_to_run:
  assumes "to_dir t (idx a)" "unat (tr_num_channels t) \<le> 36"
    and "length (cfg_ptr t) = 8 * unat (tr_num_channels t) + 1"
    and "mMemWidth t \<noteq> 0" "unat (size_in_byte a) + unat (mMemWidth t) < 2 ^ 32"
    and "off * unat (mMemWidth t) < 2 ^ 32"
    and "off * unat (mMemWidth t) + unat (size_in_byte a) \<le> length (to_aie_ptr t)"
  shows "\<exists>b. vec_blit (off * unat (mMemWidth t)) (mem_read um (data a) (unat (size_in_byte a)))
      (to_aie_ptr t) = Some b \<and>
    func_place um a (of_nat off, y) t = (Inr (of_nat (off + units (unat (mMemWidth t)) a), y),
      t\<lparr>cfg_ptr := put4 (unat (tr_num_channels t)) 0 (to_chn a)
        (delay a, size_in_byte a div ucast (tr_word_size t), repetition a, of_nat off) (cfg_ptr t),
        to_aie_ptr := b\<rparr>)"
proof -
  obtain b where b: "vec_blit (off * unat (mMemWidth t))
      (mem_read um (data a) (unat (size_in_byte a))) (to_aie_ptr t) = Some b"
    using assms(7) by (simp add: vec_blit_def)
  have ub: "unat (of_nat off * ucast (mMemWidth t) :: u64) = off * unat (mMemWidth t)"
    using assms(4,6) by (intro unat_byte_offset) (simp_all add: unat_gt_0)
  have cfg: "write_channel_cfg 0 (ucast (idx a) - ucast PLIO_01_TO_AIE) a (of_nat off) t =
      (Inr (), t\<lparr>cfg_ptr := put4 (unat (tr_num_channels t)) 0 (to_chn a)
        (delay a, size_in_byte a div ucast (tr_word_size t), repetition a, of_nat off) (cfg_ptr t)\<rparr>)"
    using assms(1-3) to_chn_less [of "tr_num_channels t" a]
    by (subst write_channel_cfg_run) (simp_all add: unat_channel to_dir_def)
  show ?thesis
    using b ub cfg assms
    by (simp add: func_place_def to_dir_def Let_def copy_to_aie_def mem_words_of_nat thenM_Inr)
qed

lemma func_place_from_run:
  assumes "from_dir t (idx a)" "unat (tr_num_channels t) \<le> 36"
    and "length (cfg_ptr t) = 8 * unat (tr_num_channels t) + 1"
    and "length (from_mem_word_offset t) = unat (tr_num_channels t)"
    and "mMemWidth t \<noteq> 0" "unat (size_in_byte a) + unat (mMemWidth t) < 2 ^ 32"
    and "off * unat (mMemWidth t) < 2 ^ 32"
  shows "func_place um a (x, of_nat off) t = (Inr (x, of_nat (off + units (unat (mMemWidth t)) a)),
      t\<lparr>cfg_ptr := put4 (unat (tr_num_channels t)) 4 (from_chn a)
        (delay a, size_in_byte a div ucast (tr_word_size t), repetition a, of_nat off) (cfg_ptr t),
        from_mem_word_offset := (from_mem_word_offset t)[from_chn a := of_nat off]\<rparr>)"
proof -
  have ch: "unat (ucast (idx a) - ucast PLIO_01_FROM_AIE :: u32) = from_chn a"
    using assms(1) unat_channel(2) by (simp add: from_dir_def)
  have cl: "from_chn a < unat (tr_num_channels t)"
    using assms(1,2) from_chn_less by (simp add: from_dir_def)
  have cfg: "write_channel_cfg 4 (ucast (idx a) - ucast PLIO_01_FROM_AIE) a (of_nat off) t =
      (Inr (), t\<lparr>cfg_ptr := put4 (unat (tr_num_channels t)) 4 (from_chn a)
        (delay a, size_in_byte a div ucast (tr_word_size t), repetition a, of_nat off) (cfg_ptr t)\<rparr>)"
    using assms(2,3) ch cl by (subst write_channel_cfg_run) simp_all
  have o: "(ucast (of_nat off :: u64) :: u32) = of_nat off"
    by (simp add: word_unat_eq_iff unsigned_ucast_eq unsigned_of_nat)
  have nt: "\<not> is_to_aie (tr_num_channels t) (idx a)"
    using to_from_disjoint [OF assms(2)] assms(1) by (auto simp: from_dir_def)
  show ?thesis
    using cfg cl ch o nt assms
    by (simp add: func_place_def from_dir_def Let_def set_from_offset_def vec_set_def
        mem_words_of_nat thenM_Inr)
qed

definition same_params :: "transaction \<Rightarrow> transaction \<Rightarrow> bool" where
  "same_params t u \<longleftrightarrow> tr_num_channels u = tr_num_channels t \<and> tr_word_size u = tr_word_size t \<and>
     tr_depth u = tr_depth t \<and> mMemWidth u = mMemWidth t \<and> tr_mode u = tr_mode t \<and>
     args_rec u = args_rec t \<and> trans_id u = trans_id t \<and> perf_ptr u = perf_ptr t \<and>
     length (cfg_ptr u) = length (cfg_ptr t) \<and>
     length (to_aie_ptr u) = length (to_aie_ptr t) \<and>
     length (from_aie_ptr u) = length (from_aie_ptr t) \<and>
     length (from_mem_word_offset u) = length (from_mem_word_offset t) \<and>
     cfg_ptr u ! 0 = cfg_ptr t ! 0 \<and> status u = status t"

lemma same_params_trans: "same_params t u \<Longrightarrow> same_params u v \<Longrightarrow> same_params t v"
  by (simp add: same_params_def)


text \<open>
  The invariant of the second loop: the running offsets count the units of the arguments already
  placed, and the layout promise holds for them.
\<close>

definition func_inv ::
  "umem \<Rightarrow> transaction \<Rightarrow> test_harness_args list \<Rightarrow> u64 \<times> u64 \<Rightarrow> transaction \<Rightarrow> bool" where
  "func_inv um t pre offs u \<longleftrightarrow>
     offs = (of_nat (dir_units (to_dir t) (unat (mMemWidth t)) pre),
             of_nat (dir_units (from_dir t) (unat (mMemWidth t)) pre)) \<and>
     same_params t u \<and> result_valid u = result_valid t \<and> func_layout um u pre"

definition func_ready :: "transaction \<Rightarrow> test_harness_args list \<Rightarrow> bool" where
  "func_ready t args \<longleftrightarrow>
     unat (tr_num_channels t) \<le> 36 \<and> mMemWidth t \<noteq> 0 \<and>
     (\<forall>a \<in> set args. valid_channel t a) \<and> fits (unat (mMemWidth t)) args \<and>
     length (cfg_ptr t) = 8 * unat (tr_num_channels t) + 1 \<and>
     length (from_mem_word_offset t) = unat (tr_num_channels t) \<and>
     length (to_aie_ptr t) = dir_units (to_dir t) (unat (mMemWidth t)) args * unat (mMemWidth t)"

lemma dir_units_prefix:
  "dir_units p w pre \<le> dir_units p w (pre @ x # suf)"
  "p (idx x) \<Longrightarrow> dir_units p w pre + units w x \<le> dir_units p w (pre @ x # suf)"
  by (simp_all add: dir_units_def)

lemma func_place_step:
  assumes ready: "func_ready t args" and args: "args = pre @ x # suf" and inv: "func_inv um t pre offs u"
  shows "\<exists>offs' u'. func_place um x offs u = (Inr offs', u') \<and> func_inv um t (pre @ [x]) offs' u'"
proof -
  let ?w = "unat (mMemWidth t)"
  have w: "0 < ?w" using ready by (simp add: func_ready_def unat_gt_0)
  have sz: "unat (size_in_byte x) + ?w < 2 ^ 32"
    using ready args fits_elem [of ?w args x] by (simp add: func_ready_def)
  have p: "tr_num_channels u = tr_num_channels t" "mMemWidth u = mMemWidth t" "to_dir u = to_dir t"
    "from_dir u = from_dir t" "length (cfg_ptr u) = 8 * unat (tr_num_channels t) + 1"
    "length (from_mem_word_offset u) = unat (tr_num_channels t)"
    "length (to_aie_ptr u) = dir_units (to_dir t) ?w args * ?w" "unat (tr_num_channels t) \<le> 36"
    using inv ready by (simp_all add: func_inv_def same_params_def func_ready_def to_dir_def from_dir_def)
  have lay: "func_layout um u pre" using inv by (simp add: func_inv_def)
  have small: "dir_units d ?w pre * ?w < 2 ^ 32" for d
  proof -
    have "dir_units d ?w args * ?w < 2 ^ 32"
      using ready by (intro fits_dir_units [OF w]) (simp add: func_ready_def)
    moreover have "dir_units d ?w pre * ?w \<le> dir_units d ?w args * ?w"
      unfolding args by (intro mult_le_mono1 dir_units_prefix)
    ultimately show ?thesis by linarith
  qed
  consider "to_dir t (idx x)" "\<not> from_dir t (idx x)" | "from_dir t (idx x)" "\<not> to_dir t (idx x)"
    using ready args to_from_disjoint [OF p(8), of "idx x"]
    by (auto simp: func_ready_def valid_channel_def to_dir_def from_dir_def)
  then show ?thesis
  proof cases
    case 1
    have "(dir_units (to_dir t) ?w pre + units ?w x) * ?w \<le> dir_units (to_dir t) ?w args * ?w"
      unfolding args using 1 by (intro mult_le_mono1 dir_units_prefix)
    then have room: "dir_units (to_dir t) ?w pre * ?w + unat (size_in_byte x) \<le> length (to_aie_ptr u)"
      using units_mult(1) [OF w, of x] p(7) by (simp add: add_mult_distrib)
    obtain b where b: "vec_blit (dir_units (to_dir t) ?w pre * ?w)
        (mem_read um (data x) (unat (size_in_byte x))) (to_aie_ptr u) = Some b"
      and run: "func_place um x (of_nat (dir_units (to_dir t) ?w pre), snd offs) u =
        (Inr (of_nat (dir_units (to_dir t) ?w pre + units ?w x), snd offs),
         u\<lparr>cfg_ptr := put4 (unat (tr_num_channels u)) 0 (to_chn x)
          (delay x, size_in_byte x div ucast (tr_word_size u), repetition x,
           of_nat (dir_units (to_dir t) ?w pre)) (cfg_ptr u), to_aie_ptr := b\<rparr>)"
      using func_place_to_run [of u x "dir_units (to_dir t) ?w pre" um "snd offs"]
        ready 1 sz small room p by (auto simp: func_ready_def)
    have "func_layout um (u\<lparr>cfg_ptr := put4 (unat (tr_num_channels u)) 0 (to_chn x)
          (delay x, size_in_byte x div ucast (tr_word_size u), repetition x,
           of_nat (dir_units (to_dir t) ?w pre)) (cfg_ptr u), to_aie_ptr := b\<rparr>) (pre @ [x])"
      using func_layout_to [OF lay, of x b] p w b 1 by simp
    with run inv 1 vec_blit_Some_length [OF b] show ?thesis
      by (simp add: func_inv_def same_params_def dir_units_snoc)
  next
    case 2
    have run: "func_place um x (fst offs, of_nat (dir_units (from_dir t) ?w pre)) u =
        (Inr (fst offs, of_nat (dir_units (from_dir t) ?w pre + units ?w x)),
         u\<lparr>cfg_ptr := put4 (unat (tr_num_channels u)) 4 (from_chn x)
          (delay x, size_in_byte x div ucast (tr_word_size u), repetition x,
           of_nat (dir_units (from_dir t) ?w pre)) (cfg_ptr u),
          from_mem_word_offset := (from_mem_word_offset u)
            [from_chn x := of_nat (dir_units (from_dir t) ?w pre)]\<rparr>)"
      using func_place_from_run [of u x "dir_units (from_dir t) ?w pre" um "fst offs"]
        ready 2 sz small p by (simp add: func_ready_def)
    have "func_layout um (u\<lparr>cfg_ptr := put4 (unat (tr_num_channels u)) 4 (from_chn x)
          (delay x, size_in_byte x div ucast (tr_word_size u), repetition x,
           of_nat (dir_units (from_dir t) ?w pre)) (cfg_ptr u),
          from_mem_word_offset := (from_mem_word_offset u)
            [from_chn x := of_nat (dir_units (from_dir t) ?w pre)]\<rparr>) (pre @ [x])"
      using func_layout_from [OF lay, of x] p 2 by simp
    with run inv 2 show ?thesis
      by (simp add: func_inv_def same_params_def dir_units_snoc)
  qed
qed

lemma func_place_fold:
  assumes "func_ready t args" and "func_layout um t []"
  shows "\<exists>offs' u'. foldM (func_place um) args (0, 0) t = (Inr offs', u') \<and> func_inv um t args offs' u'"
proof (rule foldM_prefix_rule)
  show "func_inv um t [] (0, 0) t"
    using assms(2) by (simp add: func_inv_def same_params_def dir_units_def)
qed (rule func_place_step [OF assms(1)])

end
