(* ===== verification/Transaction_Perf.thy ===== *)
theory Transaction_Perf
  imports Transaction_Func
begin

text \<open>
  The performance mode: every channel owns a slot of \<open>word_size * depth\<close> bytes, at its channel
  number times the slot size; longer data is cut off at the slot.
\<close>

definition slot_bytes :: "transaction \<Rightarrow> nat" where
  "slot_bytes t = unat (tr_word_size t) * unat (tr_depth t)"

text \<open>The configuration of the three boards satisfies this: see \<open>board_perf_ok\<close>.\<close>

definition perf_config_ok :: "transaction \<Rightarrow> bool" where
  "perf_config_ok t \<longleftrightarrow> config_ok t \<and> unat (mMemWidth t) mod unat (tr_word_size t) = 0 \<and>
     slot_bytes t mod unat (mMemWidth t) = 0 \<and> (unat (tr_num_channels t) + 1) * slot_bytes t < 2 ^ 32"

definition slot_words :: "transaction \<Rightarrow> nat" where
  "slot_words t = slot_bytes t div unat (mMemWidth t)"

definition kept_bytes :: "transaction \<Rightarrow> test_harness_args \<Rightarrow> nat" where
  "kept_bytes t a = min (unat (size_in_byte a)) (slot_bytes t)"

definition perf_data_at :: "umem \<Rightarrow> transaction \<Rightarrow> test_harness_args \<Rightarrow> bool" where
  "perf_data_at um t a \<longleftrightarrow>
     vec_slice (to_chn a * slot_bytes t) (kept_bytes t a) (to_aie_ptr t) =
       Some (mem_read um (data a) (kept_bytes t a))"

definition perf_layout :: "umem \<Rightarrow> transaction \<Rightarrow> test_harness_args list \<Rightarrow> bool" where
  "perf_layout um t as \<longleftrightarrow>
     (distinct (map idx as) \<longrightarrow>
       (\<forall>a \<in> set as.
         (to_dir t (idx a) \<longrightarrow>
            perf_data_at um t a \<and> configured t 0 (to_chn a) a (slot_words t * to_chn a)) \<and>
         (from_dir t (idx a) \<longrightarrow>
            configured t 4 (from_chn a) a (slot_words t * from_chn a) \<and>
            from_mem_word_offset t ! from_chn a = of_nat (slot_words t * from_chn a)))) \<and>
     unused_zero t as \<and>
     (result_valid t \<longleftrightarrow> (\<forall>a \<in> set as. to_dir t (idx a) \<longrightarrow> unat (size_in_byte a) \<le> slot_bytes t))"

section \<open>Word arithmetic of the slots\<close>

lemma perf_slot_word:
  assumes "perf_config_ok t"
  shows "unat (tr_word_size t * tr_depth t) = slot_bytes t"
proof -
  have "slot_bytes t \<le> (unat (tr_num_channels t) + 1) * slot_bytes t" by simp
  then show ?thesis
    using assms by (subst unat_mult_small) (simp_all add: perf_config_ok_def slot_bytes_def)
qed

lemma slot_words_mult:
  "perf_config_ok t \<Longrightarrow> slot_words t * unat (mMemWidth t) = slot_bytes t"
  by (auto simp: perf_config_ok_def slot_words_def)

lemma perf_offset_word:
  assumes "perf_config_ok t" "unat chn < unat (tr_num_channels t)"
  shows "unat (tr_word_size t * tr_depth t div mMemWidth t * chn) = slot_words t * unat chn"
    "unat (tr_word_size t * tr_depth t div mMemWidth t * chn * mMemWidth t) = unat chn * slot_bytes t"
proof -
  have s: "unat (tr_word_size t * tr_depth t div mMemWidth t) = slot_words t"
    using perf_slot_word [OF assms(1)] by (simp add: unat_div slot_words_def)
  have w: "0 < unat (mMemWidth t)" using assms(1) by (simp add: perf_config_ok_def config_ok_def unat_gt_0)
  have "slot_words t * 1 \<le> slot_words t * unat (mMemWidth t)" using w by (intro mult_le_mono2) simp
  then have sb: "slot_words t \<le> slot_bytes t" using slot_words_mult [OF assms(1)] by simp
  have c: "unat chn * slot_bytes t \<le> (unat (tr_num_channels t) + 1) * slot_bytes t"
    using assms(2) by (intro mult_le_mono1) simp
  have "unat chn * slot_words t \<le> unat chn * slot_bytes t" using sb by (rule mult_le_mono2)
  moreover have lim: "(unat (tr_num_channels t) + 1) * slot_bytes t < 2 ^ 32"
    using assms(1) unfolding perf_config_ok_def by blast
  ultimately have "unat chn * slot_words t < 2 ^ 32" using c by linarith
  then have b: "slot_words t * unat chn < 2 ^ 32" by (simp only: mult.commute)
  then show o: "unat (tr_word_size t * tr_depth t div mMemWidth t * chn) = slot_words t * unat chn"
    using s by (subst unat_mult_small) simp_all
  have e: "slot_words t * unat chn * unat (mMemWidth t) = unat chn * slot_bytes t"
    using slot_words_mult [OF assms(1)] by (metis mult.assoc mult.commute)
  then have "slot_words t * unat chn * unat (mMemWidth t) < 2 ^ 32"
    using c lim by linarith
  then have "unat (tr_word_size t * tr_depth t div mMemWidth t * chn * mMemWidth t) =
      slot_words t * unat chn * unat (mMemWidth t)"
    using o by (subst unat_mult_small) simp_all
  with e show "unat (tr_word_size t * tr_depth t div mMemWidth t * chn * mMemWidth t) = unat chn * slot_bytes t"
    by simp
qed

lemma slot_in_image:
  "chn < nc \<Longrightarrow> k \<le> sb \<Longrightarrow> chn * sb + k \<le> (nc :: nat) * sb"
proof -
  assume "chn < nc" "k \<le> sb"
  then have "chn * sb + k \<le> (chn + 1) * sb" by simp
  also have "\<dots> \<le> nc * sb" using \<open>chn < nc\<close> by (intro mult_le_mono1) simp
  finally show ?thesis .
qed

lemma slots_apart:
  fixes c d sb :: nat
  assumes "c \<noteq> d" "k \<le> sb" "l \<le> sb"
  shows "c * sb + k \<le> d * sb \<or> d * sb + l \<le> c * sb"
proof (cases "c < d")
  case True
  then show ?thesis using slot_in_image [OF True assms(2)] by simp
next
  case False
  with assms(1) have "d < c" by simp
  then show ?thesis using slot_in_image [OF \<open>d < c\<close> assms(3)] by simp
qed

section \<open>One argument\<close>

definition perf_after :: "transaction \<Rightarrow> test_harness_args \<Rightarrow> u8 list \<Rightarrow> transaction" where
  "perf_after t a b = t\<lparr>
     result_valid := (result_valid t \<and> unat (size_in_byte a) \<le> slot_bytes t),
     to_aie_ptr := b,
     cfg_ptr := put4 (unat (tr_num_channels t)) 0 (to_chn a)
        (delay a, size_in_byte a div ucast (tr_word_size t), repetition a,
         of_nat (slot_words t * to_chn a)) (cfg_ptr t)\<rparr>"

lemma perf_place_to_run:
  assumes ok: "perf_config_ok t" and a: "to_dir t (idx a)"
    and cfg: "length (cfg_ptr t) = 8 * unat (tr_num_channels t) + 1"
    and im: "length (to_aie_ptr t) = unat (tr_num_channels t) * slot_bytes t"
  shows "\<exists>b. vec_blit (to_chn a * slot_bytes t) (mem_read um (data a) (kept_bytes t a)) (to_aie_ptr t) = Some b
    \<and> perf_place um a t = (Inr (), perf_after t a b)"
proof -
  let ?chn = "ucast (idx a) - ucast PLIO_01_TO_AIE :: u32"
  let ?off = "tr_word_size t * tr_depth t div mMemWidth t * ?chn"
  have c: "unat ?chn = to_chn a" "to_chn a < unat (tr_num_channels t)"
    using unat_channel(1) to_chn_less a by (simp_all add: to_dir_def)
  have nc: "unat (tr_num_channels t) \<le> 36" using ok by (simp add: perf_config_ok_def config_ok_def)
  have off: "unat ?off = slot_words t * to_chn a" "unat (?off * mMemWidth t) = to_chn a * slot_bytes t"
    using perf_offset_word [OF ok, of ?chn] c by simp_all
  have slot: "unat (tr_word_size t * tr_depth t) = slot_bytes t" using ok by (rule perf_slot_word)
  have slot64: "unat (ucast (tr_word_size t * tr_depth t) :: u64) = slot_bytes t"
    using slot unat_less_exp [where m = 64 and x = "tr_word_size t * tr_depth t"]
    by (simp add: unsigned_ucast_eq take_bit_nat_eq_self)
  have "to_chn a * slot_bytes t + kept_bytes t a \<le> length (to_aie_ptr t)"
    unfolding im using c by (intro slot_in_image) (simp_all add: kept_bytes_def)
  then obtain b where b: "vec_blit (to_chn a * slot_bytes t)
      (mem_read um (data a) (kept_bytes t a)) (to_aie_ptr t) = Some b"
    by (simp add: vec_blit_def)
  have offw: "(ucast ?off :: u64) = of_nat (slot_words t * to_chn a)"
    using off(1) by (metis of_nat_unat)
  have wr: "write_channel_cfg 0 ?chn a (ucast ?off) u = (Inr (), u\<lparr>cfg_ptr :=
      put4 (unat (tr_num_channels t)) 0 (to_chn a)
        (delay a, size_in_byte a div ucast (tr_word_size t), repetition a,
         of_nat (slot_words t * to_chn a)) (cfg_ptr t)\<rparr>)"
    if "tr_num_channels u = tr_num_channels t" "tr_word_size u = tr_word_size t" "cfg_ptr u = cfg_ptr t" for u
    using that nc c cfg offw by (subst write_channel_cfg_run) simp_all
  have big: "size_in_byte a > ucast (tr_word_size t * tr_depth t) \<longleftrightarrow> \<not> unat (size_in_byte a) \<le> slot_bytes t"
    using slot64 by (simp add: word_less_nat_alt not_le)
  show ?thesis
  proof (cases "unat (size_in_byte a) \<le> slot_bytes t")
    case True
    then have "kept_bytes t a = unat (size_in_byte a)" by (simp add: kept_bytes_def)
    with True b off wr big a show ?thesis
      by (simp add: perf_place_def Let_def to_dir_def copy_to_aie_run thenM_Inr perf_after_def)
  next
    case False
    then have "kept_bytes t a = slot_bytes t" by (simp add: kept_bytes_def)
    with False b off wr big a slot show ?thesis
      by (simp add: perf_place_def Let_def to_dir_def copy_to_aie_run thenM_Inr thenM_assoc
          perf_after_def)
  qed
qed


lemma perf_place_from_run:
  assumes ok: "perf_config_ok t" and a: "from_dir t (idx a)"
    and cfg: "length (cfg_ptr t) = 8 * unat (tr_num_channels t) + 1"
    and fo: "length (from_mem_word_offset t) = unat (tr_num_channels t)"
  shows "perf_place um a t = (Inr (), t\<lparr>
     cfg_ptr := put4 (unat (tr_num_channels t)) 4 (from_chn a)
        (delay a, size_in_byte a div ucast (tr_word_size t), repetition a,
         of_nat (slot_words t * from_chn a)) (cfg_ptr t),
     from_mem_word_offset := (from_mem_word_offset t)
        [from_chn a := of_nat (slot_words t * from_chn a)]\<rparr>)"
proof -
  let ?chn = "ucast (idx a) - ucast PLIO_01_FROM_AIE :: u32"
  let ?off = "tr_word_size t * tr_depth t div mMemWidth t * ?chn"
  have nc: "unat (tr_num_channels t) \<le> 36" using ok by (simp add: perf_config_ok_def config_ok_def)
  have c: "unat ?chn = from_chn a" "from_chn a < unat (tr_num_channels t)"
    using unat_channel(2) from_chn_less [OF nc] a by (simp_all add: from_dir_def)
  have "unat ?off = slot_words t * from_chn a"
    using perf_offset_word [OF ok, of ?chn] c by simp
  then have offw: "(ucast ?off :: u64) = of_nat (slot_words t * from_chn a)"
    "?off = of_nat (slot_words t * from_chn a)"
    by (metis of_nat_unat) (metis \<open>unat ?off = slot_words t * from_chn a\<close> of_nat_unat ucast_id)
  have wr: "write_channel_cfg 4 ?chn a (ucast ?off) t = (Inr (), t\<lparr>cfg_ptr :=
      put4 (unat (tr_num_channels t)) 4 (from_chn a)
        (delay a, size_in_byte a div ucast (tr_word_size t), repetition a,
         of_nat (slot_words t * from_chn a)) (cfg_ptr t)\<rparr>)"
    using nc c cfg offw by (subst write_channel_cfg_run) simp_all
  have nt: "\<not> is_to_aie (tr_num_channels t) (idx a)"
    using to_from_disjoint [OF nc] a by (auto simp: from_dir_def)
  show ?thesis
    using wr nt a c fo offw(2)
    by (simp add: perf_place_def Let_def from_dir_def thenM_Inr set_from_offset_run)
qed

section \<open>The loop\<close>

lemma perf_params [simp]:
  "slot_bytes (perf_after t a b) = slot_bytes t" "slot_words (perf_after t a b) = slot_words t"
  "to_dir (perf_after t a b) = to_dir t" "from_dir (perf_after t a b) = from_dir t"
  "from_mem_word_offset (perf_after t a b) = from_mem_word_offset t"
  "to_aie_ptr (perf_after t a b) = b"
  by (simp_all add: perf_after_def slot_bytes_def slot_words_def to_dir_def from_dir_def)

lemma configured_perf_after:
  "configured (perf_after t a b) = configured (t\<lparr>cfg_ptr := cfg_ptr (perf_after t a b)\<rparr>)"
  by (simp add: fun_eq_iff configured_def perf_after_def)

lemma unused_zero_perf_after:
  "unused_zero (perf_after t a b) = unused_zero (t\<lparr>cfg_ptr := cfg_ptr (perf_after t a b)\<rparr>)"
  by (simp add: fun_eq_iff unused_zero_def perf_after_def)

lemma perf_layout_to:
  assumes lay: "perf_layout um t as" and cfg: "length (cfg_ptr t) = 8 * unat (tr_num_channels t) + 1"
    and a: "to_dir t (idx a)" and nc: "unat (tr_num_channels t) \<le> 36"
    and blit: "vec_blit (to_chn a * slot_bytes t) (mem_read um (data a) (kept_bytes t a)) (to_aie_ptr t) = Some b"
  shows "perf_layout um (perf_after t a b) (as @ [a])" (is "perf_layout um ?t' _")
proof -
  note of_nat_mult [simp del]
  have c: "to_chn a < unat (tr_num_channels t)" using a by (simp add: to_dir_def to_chn_less)
  have k [simp]: "kept_bytes ?t' = kept_bytes t" by (simp add: fun_eq_iff kept_bytes_def)
  have cfg': "cfg_ptr ?t' = put4 (unat (tr_num_channels t)) 0 (to_chn a)
        (delay a, size_in_byte a div ucast (tr_word_size t), repetition a,
         of_nat (slot_words t * to_chn a)) (cfg_ptr t)" by (simp add: perf_after_def)
  have old: "perf_data_at um ?t' x" "configured ?t' 0 (to_chn x) y off = configured t 0 (to_chn x) y off"
    if "idx x \<noteq> idx a" "to_dir t (idx x)" "perf_data_at um t x" for x y off
  proof -
    have ne: "to_chn x \<noteq> to_chn a" using that(1) by (simp add: to_chn_inj)
    have "vec_slice (to_chn x * slot_bytes t) (kept_bytes t x) b =
        vec_slice (to_chn x * slot_bytes t) (kept_bytes t x) (to_aie_ptr t)"
      using slots_apart [OF ne, of "kept_bytes t x" "slot_bytes t" "kept_bytes t a"]
      by (intro vec_blit_slice_other [OF blit]) (simp add: kept_bytes_def)
    with that show "perf_data_at um ?t' x" by (simp add: perf_data_at_def)
    show "configured ?t' 0 (to_chn x) y off = configured t 0 (to_chn x) y off"
      using ne c cfg that(2) unfolding configured_perf_after cfg'
      by (subst configured_other) (simp_all add: to_dir_def to_chn_less)
  qed
  have new: "perf_data_at um ?t' a" using vec_blit_slice_same [OF blit] by (simp add: perf_data_at_def)
  have cnew: "configured ?t' 0 (to_chn a) a (slot_words t * to_chn a)"
    unfolding configured_perf_after cfg' using configured_same [OF cfg c] by simp
  have cfrom: "configured ?t' 4 (from_chn x) y off = configured t 4 (from_chn x) y off"
    if "from_dir t (idx x)" for x y off
    using that c cfg nc unfolding configured_perf_after cfg'
    by (subst configured_other) (simp_all add: from_dir_def from_chn_less)
  have nf: "\<not> from_dir t (idx a)" using to_from_disjoint [OF nc] a by (auto simp: to_dir_def from_dir_def)
  have "unused_zero ?t' (as @ [a])"
    unfolding unused_zero_perf_after cfg' using unused_zero_to [OF cfg] lay a
    by (simp add: perf_layout_def to_dir_def)
  moreover have "result_valid ?t' \<longleftrightarrow> result_valid t \<and> unat (size_in_byte a) \<le> slot_bytes t"
    by (simp add: perf_after_def)
  ultimately show ?thesis
    using lay old new cnew cfrom nf a distinct_map_append_idx [of as a]
    unfolding perf_layout_def by auto
qed

lemma perf_layout_from:
  assumes lay: "perf_layout um t as" and cfg: "length (cfg_ptr t) = 8 * unat (tr_num_channels t) + 1"
    and fo: "length (from_mem_word_offset t) = unat (tr_num_channels t)"
    and a: "from_dir t (idx a)" and nc: "unat (tr_num_channels t) \<le> 36"
  shows "perf_layout um (t\<lparr>
     cfg_ptr := put4 (unat (tr_num_channels t)) 4 (from_chn a)
        (delay a, size_in_byte a div ucast (tr_word_size t), repetition a,
         of_nat (slot_words t * from_chn a)) (cfg_ptr t),
     from_mem_word_offset := (from_mem_word_offset t)
        [from_chn a := of_nat (slot_words t * from_chn a)]\<rparr>) (as @ [a])" (is "perf_layout um ?t' _")
proof -
  note of_nat_mult [simp del]
  have d [simp]: "to_dir ?t' = to_dir t" "from_dir ?t' = from_dir t" "slot_words ?t' = slot_words t"
    "slot_bytes ?t' = slot_bytes t"
    by (simp_all add: to_dir_def from_dir_def slot_words_def slot_bytes_def)
  have dt: "perf_data_at um ?t' = perf_data_at um t"
    by (simp add: fun_eq_iff perf_data_at_def kept_bytes_def)
  have c: "from_chn a < unat (tr_num_channels t)" using a nc by (simp add: from_dir_def from_chn_less)
  have old: "configured ?t' 4 (from_chn x) y off = configured t 4 (from_chn x) y off"
    "from_mem_word_offset ?t' ! from_chn x = from_mem_word_offset t ! from_chn x"
    if "idx x \<noteq> idx a" "from_dir t (idx x)" for x y off
  proof -
    have "from_chn x \<noteq> from_chn a"
      using from_chn_inj [OF nc] a that by (auto simp: from_dir_def)
    then show "configured ?t' 4 (from_chn x) y off = configured t 4 (from_chn x) y off"
      "from_mem_word_offset ?t' ! from_chn x = from_mem_word_offset t ! from_chn x"
      using that c cfg nc by (simp_all add: configured_other from_dir_def from_chn_less)
  qed
  have cto: "configured ?t' 0 (to_chn x) y off = configured t 0 (to_chn x) y off"
    if "to_dir t (idx x)" for x y off
    using that c cfg by (simp add: configured_other to_dir_def to_chn_less)
  have cnew: "configured ?t' 4 (from_chn a) a (slot_words t * from_chn a)"
    using configured_same [OF cfg c] by simp
  have fnew: "from_mem_word_offset ?t' ! from_chn a = of_nat (slot_words t * from_chn a)"
    using c fo by simp
  have nt: "\<not> to_dir t (idx a)" using to_from_disjoint [OF nc] a by (auto simp: to_dir_def from_dir_def)
  have "unused_zero ?t' (as @ [a])"
    using unused_zero_from [OF cfg] lay a nc by (simp add: perf_layout_def from_dir_def)
  with lay old cto cnew fnew nt a distinct_map_append_idx [of as a] show ?thesis
    unfolding perf_layout_def d dt by auto
qed

end
