(* ===== verification/Transaction_Props.thy ===== *)
theory Transaction_Props
  imports Transaction_Perf
begin

text \<open>The properties of a transaction: packing in both modes, errors, unpacking, queries.\<close>

section \<open>Frames\<close>

lemma layout_frames [simp]:
  "func_layout um (t\<lparr>status := st\<rparr>) = func_layout um t"
  "perf_layout um (t\<lparr>status := st\<rparr>) = perf_layout um t"
  by (simp_all add: fun_eq_iff func_layout_def perf_layout_def to_dir_def from_dir_def to_data_at_def
      perf_data_at_def configured_def unused_zero_def slot_bytes_def slot_words_def kept_bytes_def)

lemma unused_zero_reset:
  "unat (tr_num_channels t) \<le> 36 \<Longrightarrow> length x = 8 * unat (tr_num_channels t) + 1 \<Longrightarrow>
   (\<forall>i. 0 < i \<longrightarrow> i < length x \<longrightarrow> x ! i = 0) \<Longrightarrow> cfg_ptr t = x \<Longrightarrow> unused_zero t []"
proof -
  assume a: "unat (tr_num_channels t) \<le> 36" "length x = 8 * unat (tr_num_channels t) + 1"
    "\<forall>i. 0 < i \<longrightarrow> i < length x \<longrightarrow> x ! i = 0" "cfg_ptr t = x"
  have "cfg_at (unat (tr_num_channels t)) x r c = 0" if "c < unat (tr_num_channels t)" "r < 8" for r c
    using row_index_bound [OF that] a(2,3) by (simp add: cfg_at_def)
  with a(4) show ?thesis by (simp add: unused_zero_def)
qed

section \<open>handleInputs up to the mode\<close>

text \<open>The state in which the branch of the mode starts: reset, arguments recorded, mode stored.\<close>

definition checked :: "transaction \<Rightarrow> test_harness_args list \<Rightarrow> transaction" where
  "checked t args = (reset t)\<lparr>args_rec := args,
     cfg_ptr := (cfg_ptr (reset t))[0 := ucast (tr_mode t)]\<rparr>"

lemma accepted_reset [simp]: "accepted (reset t) = accepted t"
  by (simp add: fun_eq_iff accepted_def valid_channel_def aligned_def)

lemma handleInputs_checked:
  assumes "config_ok t" "\<forall>a \<in> set args. accepted t a"
  shows "handleInputs um args t =
    thenM (if tr_mode t = FUNC_MODE then func_inputs um
           else if tr_mode t = PERF_MODE then perf_inputs um else ret ())
      (modifyM (\<lambda>t. t\<lparr>status := TRANSACTION_READY\<rparr>)) (checked t args)"
proof -
  have tw: "takeWhile (accepted t) args = args" using assms(2) by (simp add: takeWhile_eq_all_conv)
  have c: "check_arguments args (reset t) = (Inr (), (reset t)\<lparr>args_rec := args\<rparr>)"
    using assms tw by (simp add: check_arguments_run config_ok_def)
  have "write_cfg 0 (ucast (tr_mode t)) ((reset t)\<lparr>args_rec := args\<rparr>) = (Inr (), checked t args)"
    using assms(1) reset_cfg [of t] by (simp add: write_cfg_run checked_def config_ok_def)
  with c show ?thesis by (simp add: handleInputs_def thenM_Inr)
qed

lemma checked_simps [simp]:
  "tr_num_channels (checked t args) = tr_num_channels t" "tr_word_size (checked t args) = tr_word_size t"
  "tr_depth (checked t args) = tr_depth t" "mMemWidth (checked t args) = mMemWidth t"
  "tr_mode (checked t args) = tr_mode t" "args_rec (checked t args) = args"
  "status (checked t args) = TRANSACTION_CREATED" "result_valid (checked t args) = True"
  "to_aie_ptr (checked t args) = []" "from_aie_ptr (checked t args) = []"
  "trans_id (checked t args) = trans_id t" "mTimeOut (checked t args) = 0"
  by (simp_all add: checked_def)

lemma checked_vectors:
  assumes "unat (tr_num_channels t) \<le> 36"
  shows "length (cfg_ptr (checked t args)) = 8 * unat (tr_num_channels t) + 1"
    "cfg_ptr (checked t args) ! 0 = ucast (tr_mode t)"
    "length (from_mem_word_offset (checked t args)) = unat (tr_num_channels t)"
    "length (perf_ptr (checked t args)) = 4 * unat (tr_num_channels t)"
    "unused_zero (checked t args) []"
proof -
  note r = reset_cfg [OF assms]
  show "length (cfg_ptr (checked t args)) = 8 * unat (tr_num_channels t) + 1"
    "cfg_ptr (checked t args) ! 0 = ucast (tr_mode t)"
    "length (from_mem_word_offset (checked t args)) = unat (tr_num_channels t)"
    "length (perf_ptr (checked t args)) = 4 * unat (tr_num_channels t)"
    using r by (simp_all add: checked_def)
  show "unused_zero (checked t args) []"
    using assms r
    by (intro unused_zero_reset [where x = "cfg_ptr (checked t args)"])
      (auto simp: checked_def nth_list_update simp del: replicate.simps)
qed

section \<open>Functional mode\<close>

text \<open>What a successful \<open>handleInputs\<close> leaves in both modes.\<close>

definition inputs_ready :: "transaction \<Rightarrow> test_harness_args list \<Rightarrow> transaction \<Rightarrow> bool" where
  "inputs_ready t args u \<longleftrightarrow>
     status u = TRANSACTION_READY \<and> args_rec u = args \<and> trans_id u = trans_id t \<and>
     tr_num_channels u = tr_num_channels t \<and> tr_word_size u = tr_word_size t \<and>
     tr_depth u = tr_depth t \<and> mMemWidth u = mMemWidth t \<and> tr_mode u = tr_mode t \<and>
     length (cfg_ptr u) = 8 * unat (tr_num_channels t) + 1 \<and> cfg_ptr u ! 0 = ucast (tr_mode t) \<and>
     length (perf_ptr u) = 4 * unat (tr_num_channels t) \<and>
     length (from_mem_word_offset u) = unat (tr_num_channels t)"

lemma handleInputs_func_run:
  assumes ok: "config_ok t" and m: "tr_mode t = FUNC_MODE"
    and acc: "\<forall>a \<in> set args. accepted t a" and rep: "\<forall>a \<in> set args. repetition a = 1"
    and fit: "fits (unat (mMemWidth t)) args"
  shows "\<exists>u. handleInputs um args t = (Inr (), u) \<and> inputs_ready t args u \<and> result_valid u \<and>
    length (to_aie_ptr u) = dir_units (to_dir t) (unat (mMemWidth t)) args * unat (mMemWidth t) \<and>
    length (from_aie_ptr u) = dir_units (from_dir t) (unat (mMemWidth t)) args * unat (mMemWidth t) \<and>
    func_layout um u args"
proof -
  let ?w = "unat (mMemWidth t)"
  let ?to = "dir_units (to_dir t) ?w args" and ?from = "dir_units (from_dir t) ?w args"
  have nc: "unat (tr_num_channels t) \<le> 36" and w: "mMemWidth t \<noteq> 0" and wp: "0 < ?w"
    using ok by (simp_all add: config_ok_def unat_gt_0)
  note cv = checked_vectors [OF nc, of args]
  let ?c = "(checked t args)\<lparr>result_valid := True\<rparr>"
  have tot: "foldM func_total args (0, 0) ?c =
      (Inr (of_nat ?to * ucast (mMemWidth t), of_nat ?from * ucast (mMemWidth t)), ?c)"
    using func_total_fold [of ?c args] w rep fit nc by (simp add: to_dir_def from_dir_def)
  have bytes: "unat (of_nat ?to * ucast (mMemWidth t) :: u64) = ?to * ?w"
    "unat (of_nat ?from * ucast (mMemWidth t) :: u64) = ?from * ?w"
    using fits_dir_units [OF wp fit] wp by (simp_all add: unat_byte_offset)
  define v where "v = (checked t args)\<lparr>result_valid := True, to_aie_ptr := vec_resize (?to * ?w) [],
     from_aie_ptr := vec_resize (?from * ?w) []\<rparr>"
  have dv: "to_dir v = to_dir t" "from_dir v = from_dir t" "tr_num_channels v = tr_num_channels t"
    "mMemWidth v = mMemWidth t" by (simp_all add: v_def to_dir_def from_dir_def)
  have val: "\<forall>a \<in> set args. valid_channel v a"
    using acc by (simp add: valid_channel_def accepted_def dv)
  have ready: "func_ready v args"
    unfolding func_ready_def dv using nc w val fit cv by (simp add: v_def)
  have "func_layout um v []"
    using cv(5) by (simp add: func_layout_def v_def unused_zero_def)
  then obtain offs u where u: "foldM (func_place um) args (0, 0) v = (Inr offs, u)"
    "func_inv um v args offs u"
    using func_place_fold [OF ready] by blast
  have "func_inputs um (checked t args) = (Inr (), u)"
    using tot u(1) bytes by (simp add: func_inputs_def bindM_Inr thenM_Inr v_def)
  then have "handleInputs um args t = (Inr (), u\<lparr>status := TRANSACTION_READY\<rparr>)"
    using ok acc m by (simp add: handleInputs_checked thenM_Inr)
  with u(2) cv show ?thesis
    by (auto simp: func_inv_def same_params_def inputs_ready_def v_def)
qed

section \<open>Performance mode\<close>

definition perf_ready :: "transaction \<Rightarrow> bool" where
  "perf_ready t \<longleftrightarrow> perf_config_ok t \<and>
     length (cfg_ptr t) = 8 * unat (tr_num_channels t) + 1 \<and>
     length (from_mem_word_offset t) = unat (tr_num_channels t) \<and>
     length (to_aie_ptr t) = unat (tr_num_channels t) * slot_bytes t"

lemma perf_place_fold:
  assumes ready: "perf_ready t" and lay: "perf_layout um t []"
    and val: "\<forall>a \<in> set args. valid_channel t a"
  shows "\<exists>u. each (perf_place um) args t = (Inr (), u) \<and> same_params t u \<and> perf_layout um u args"
proof -
  have "\<exists>u. each (perf_place um) args t = (Inr (), u) \<and> (same_params t u \<and> perf_layout um u args)"
  proof (rule each_prefix_rule [where I = "\<lambda>pre u. same_params t u \<and> perf_layout um u pre"])
    show "same_params t t \<and> perf_layout um t []" using lay by (simp add: same_params_def)
  next
    fix pre x suf u
    assume x: "args = pre @ x # suf" and I: "same_params t u \<and> perf_layout um u pre"
    have p: "tr_num_channels u = tr_num_channels t" "to_dir u = to_dir t" "from_dir u = from_dir t"
      and sb: "slot_bytes u = slot_bytes t"
      using I by (simp_all add: same_params_def to_dir_def from_dir_def slot_bytes_def)
    have r: "perf_ready u"
      using I ready sb by (simp add: perf_ready_def perf_config_ok_def config_ok_def same_params_def)
    then have nc: "unat (tr_num_channels u) \<le> 36"
      by (simp add: perf_ready_def perf_config_ok_def config_ok_def)
    have "to_dir u (idx x) \<or> from_dir u (idx x)"
      using val x p by (auto simp: valid_channel_def to_dir_def from_dir_def)
    then show "\<exists>s'. perf_place um x u = (Inr (), s') \<and> same_params t s' \<and> perf_layout um s' (pre @ [x])"
    proof
      assume to: "to_dir u (idx x)"
      obtain b where b: "vec_blit (to_chn x * slot_bytes u) (mem_read um (data x) (kept_bytes u x))
          (to_aie_ptr u) = Some b" "perf_place um x u = (Inr (), perf_after u x b)"
        using perf_place_to_run [of u x um] r to by (auto simp: perf_ready_def)
      moreover have "perf_layout um (perf_after u x b) (pre @ [x])"
        using perf_layout_to I r nc to b(1) by (simp add: perf_ready_def)
      moreover have "same_params u (perf_after u x b)"
        using vec_blit_Some_length [OF b(1)] by (simp add: same_params_def perf_after_def)
      ultimately show ?thesis using I same_params_trans by blast
    next
      assume frm: "from_dir u (idx x)"
      let ?v = "u\<lparr>cfg_ptr := put4 (unat (tr_num_channels u)) 4 (from_chn x)
        (delay x, size_in_byte x div ucast (tr_word_size u), repetition x,
         of_nat (slot_words u * from_chn x)) (cfg_ptr u),
       from_mem_word_offset := (from_mem_word_offset u)
        [from_chn x := of_nat (slot_words u * from_chn x)]\<rparr>"
      have "perf_place um x u = (Inr (), ?v)"
        using perf_place_from_run [of u x um] r frm by (simp add: perf_ready_def)
      moreover have "perf_layout um ?v (pre @ [x])"
        using perf_layout_from [of um u pre x] I r nc frm by (simp add: perf_ready_def)
      moreover have "same_params u ?v" by (simp add: same_params_def)
      ultimately show ?thesis using I same_params_trans by blast
    qed
  qed
  then show ?thesis by simp
qed

lemma handleInputs_perf_run:
  assumes ok: "perf_config_ok t" and m: "tr_mode t = PERF_MODE"
    and acc: "\<forall>a \<in> set args. accepted t a"
  shows "\<exists>u. handleInputs um args t = (Inr (), u) \<and> inputs_ready t args u \<and>
    length (to_aie_ptr u) = unat (tr_num_channels t) * slot_bytes t \<and>
    length (from_aie_ptr u) = unat (tr_num_channels t) * slot_bytes t \<and>
    perf_layout um u args"
proof -
  have cok: "config_ok t" using ok by (simp add: perf_config_ok_def)
  then have nc: "unat (tr_num_channels t) \<le> 36" and w: "mMemWidth t \<noteq> 0" "tr_word_size t \<noteq> 0"
    by (simp_all add: config_ok_def)
  note cv = checked_vectors [OF nc, of args]
  have slot: "unat (tr_word_size t * tr_depth t) = slot_bytes t" using ok by (rule perf_slot_word)
  have lim: "(unat (tr_num_channels t) + 1) * slot_bytes t < 2 ^ 32"
    using ok unfolding perf_config_ok_def by blast
  have "unat (tr_num_channels t) * unat (tr_word_size t * tr_depth t) < 2 ^ 32"
    unfolding slot using lim by (simp only: add_mult_distrib)
  then have im: "unat (tr_num_channels t * tr_word_size t * tr_depth t) =
      unat (tr_num_channels t) * slot_bytes t"
    unfolding mult.assoc using slot by (subst unat_mult_small) simp_all
  have g: "mMemWidth t mod tr_word_size t = 0" "tr_word_size t * tr_depth t mod mMemWidth t = 0"
    using ok slot by (simp_all add: perf_config_ok_def unat_eq_0 [symmetric] unat_mod)
  define v where "v = (checked t args)\<lparr>to_aie_ptr := vec_resize (unat (tr_num_channels t) * slot_bytes t) [],
     from_aie_ptr := vec_resize (unat (tr_num_channels t) * slot_bytes t) []\<rparr>"
  have sv: "slot_bytes v = slot_bytes t" "tr_num_channels v = tr_num_channels t"
    "tr_word_size v = tr_word_size t" "mMemWidth v = mMemWidth t"
    "length (cfg_ptr v) = 8 * unat (tr_num_channels t) + 1"
    "length (from_mem_word_offset v) = unat (tr_num_channels t)"
    "length (to_aie_ptr v) = unat (tr_num_channels t) * slot_bytes t"
    using cv by (simp_all add: v_def slot_bytes_def)
  have ready: "perf_ready v"
    using ok unfolding perf_ready_def perf_config_ok_def config_ok_def sv by simp
  have "perf_layout um v []"
    using cv(5) by (simp add: perf_layout_def v_def unused_zero_def)
  moreover have "\<forall>a \<in> set args. valid_channel v a"
    using acc by (simp add: valid_channel_def accepted_def sv)
  ultimately obtain u where u: "each (perf_place um) args v = (Inr (), u)" "same_params v u"
    "perf_layout um u args"
    using perf_place_fold [OF ready] by blast
  have "perf_inputs um (checked t args) = (Inr (), u)"
    using u(1) w g im by (simp add: perf_inputs_def v_def Let_def)
  then have "handleInputs um args t = (Inr (), u\<lparr>status := TRANSACTION_READY\<rparr>)"
    using cok acc m by (simp add: handleInputs_checked thenM_Inr)
  with u(2,3) cv show ?thesis
    by (auto simp: same_params_def inputs_ready_def v_def)
qed

end
