(* ===== verification/Transaction_Outputs.thy ===== *)
theory Transaction_Outputs
  imports Transaction_Props
begin

text \<open>\<open>handleOutputs\<close>: what lands in the user's buffers and in the performance map.\<close>

section \<open>The promise\<close>

text \<open>The bytes copied for a channel from the AI Engine, and where they start in the image.\<close>

definition out_bytes :: "transaction \<Rightarrow> test_harness_args \<Rightarrow> nat" where
  "out_bytes t a = (if tr_mode t = FUNC_MODE then unat (size_in_byte a) else kept_bytes t a)"

definition out_start :: "transaction \<Rightarrow> test_harness_args \<Rightarrow> nat" where
  "out_start t a = unat (from_mem_word_offset t ! from_chn a * mMemWidth t)"

definition out_slice :: "transaction \<Rightarrow> test_harness_args \<Rightarrow> u8 list" where
  "out_slice t a = take (out_bytes t a) (drop (out_start t a) (from_aie_ptr t))"

definition perf_entry :: "transaction \<Rightarrow> test_harness_args \<Rightarrow> u64 \<times> u64" where
  "perf_entry t a =
     (let nc = unat (tr_num_channels t); p = perf_ptr t in
      if to_dir t (idx a) then (p ! to_chn a, p ! (to_chn a + nc))
      else (p ! (from_chn a + 2 * nc), p ! (from_chn a + 3 * nc)))"

definition out_ready :: "transaction \<Rightarrow> bool" where
  "out_ready t \<longleftrightarrow>
     unat (tr_num_channels t) \<le> 36 \<and>
     (tr_mode t = FUNC_MODE \<or> tr_mode t = PERF_MODE \<and> perf_config_ok t) \<and>
     length (from_mem_word_offset t) = unat (tr_num_channels t) \<and>
     length (perf_ptr t) = 4 * unat (tr_num_channels t) \<and>
     (\<forall>a \<in> set (args_rec t). valid_channel t a) \<and>
     (\<forall>a \<in> set (args_rec t). from_dir t (idx a) \<longrightarrow>
        out_start t a + out_bytes t a \<le> length (from_aie_ptr t))"

text \<open>Everything but the room in the image.\<close>

definition out_sized :: "transaction \<Rightarrow> bool" where
  "out_sized t \<longleftrightarrow>
     unat (tr_num_channels t) \<le> 36 \<and>
     (tr_mode t = FUNC_MODE \<or> tr_mode t = PERF_MODE \<and> perf_config_ok t) \<and>
     length (from_mem_word_offset t) = unat (tr_num_channels t) \<and>
     length (perf_ptr t) = 4 * unat (tr_num_channels t)"

lemma out_ready_sized: "out_ready t \<Longrightarrow> out_sized t"
  by (simp add: out_ready_def out_sized_def)

section \<open>One argument\<close>

lemma perf_pair_run:
  "unat i < length (perf_ptr t) \<Longrightarrow> unat j < length (perf_ptr t) \<Longrightarrow>
   perf_pair i j ch (t, um) = (Inr (),
     (t\<lparr>perf_map := (perf_map t)(ch \<mapsto> (perf_ptr t ! unat i, perf_ptr t ! unat j))\<rparr>, um))"
  by (simp add: perf_pair_def vec_get_def)

lemma copy_from_aie_run:
  assumes "unat chn < length (from_mem_word_offset t)"
    and "unat (from_mem_word_offset t ! unat chn * mMemWidth t) + n \<le> length (from_aie_ptr t)"
  shows "copy_from_aie a chn n (t, um) = (Inr (), (t, mem_write um (data a)
     (take n (drop (unat (from_mem_word_offset t ! unat chn * mMemWidth t)) (from_aie_ptr t)))))"
  using assms by (simp add: copy_from_aie_def vec_get_def vec_slice_def)

lemma unat_row:
  assumes "unat (nc :: u32) \<le> 36" "unat chn < unat nc" "k \<le> 3"
  shows "unat (chn + of_nat k * nc) = unat chn + k * unat nc"
proof -
  have kk: "unat (of_nat k :: u32) = k" using assms(3) by (intro unat_of_nat_small) simp
  have m: "k * unat nc \<le> 3 * 36" using assms by (intro mult_le_mono) simp_all
  have "unat (of_nat k * nc) = k * unat nc"
    using m kk by (subst unat_mult_small) simp_all
  then show ?thesis using m assms by (subst unat_add_small) simp_all
qed

lemma handle_output_run:
  assumes r: "out_sized t" and a: "valid_channel t a"
    and room: "from_dir t (idx a) \<longrightarrow> out_start t a + out_bytes t a \<le> length (from_aie_ptr t)"
  shows "handle_output a (t, um) = (Inr (),
     (t\<lparr>perf_map := (perf_map t)(idx a \<mapsto> perf_entry t a)\<rparr>,
      if from_dir t (idx a) then mem_write um (data a) (out_slice t a) else um))"
proof -
  have nc: "unat (tr_num_channels t) \<le> 36" using r by (simp add: out_sized_def)
  let ?f = "ucast (idx a) - ucast PLIO_01_FROM_AIE :: u32"
  let ?t = "ucast (idx a) - ucast PLIO_01_TO_AIE :: u32"
  have perf: "length (perf_ptr t) = 4 * unat (tr_num_channels t)"
    and fo: "length (from_mem_word_offset t) = unat (tr_num_channels t)"
    using r by (simp_all add: out_sized_def)
  consider "to_dir t (idx a)" "\<not> from_dir t (idx a)" | "from_dir t (idx a)" "\<not> to_dir t (idx a)"
    using a to_from_disjoint [OF nc, of "idx a"]
    by (auto simp: valid_channel_def to_dir_def from_dir_def)
  then show ?thesis
  proof cases
    case 1
    have c: "unat ?t = to_chn a" "to_chn a < unat (tr_num_channels t)"
      using 1 unat_channel(1) to_chn_less by (simp_all add: to_dir_def)
    have "unat (?t + tr_num_channels t) = to_chn a + unat (tr_num_channels t)"
      using unat_row [OF nc, of ?t 1] c by simp
    with c perf have "perf_pair ?t (?t + tr_num_channels t) (idx a) (t, um) = (Inr (),
       (t\<lparr>perf_map := (perf_map t)(idx a \<mapsto> perf_entry t a)\<rparr>, um))"
      using 1 by (simp add: perf_pair_run perf_entry_def Let_def)
    then show ?thesis
      using 1 r by (auto simp: handle_output_def Let_def to_dir_def from_dir_def out_sized_def thenM_Inr)
  next
    case 2
    have c: "unat ?f = from_chn a" "from_chn a < unat (tr_num_channels t)"
      using 2 unat_channel(2) from_chn_less [OF nc] by (simp_all add: from_dir_def)
    have "unat (?f + 2 * tr_num_channels t) = from_chn a + 2 * unat (tr_num_channels t)"
      "unat (?f + 3 * tr_num_channels t) = from_chn a + 3 * unat (tr_num_channels t)"
      using unat_row [OF nc, of ?f 2] unat_row [OF nc, of ?f 3] c by simp_all
    with c perf have pp: "perf_pair (?f + 2 * tr_num_channels t) (?f + 3 * tr_num_channels t) (idx a) (t, m) =
       (Inr (), (t\<lparr>perf_map := (perf_map t)(idx a \<mapsto> perf_entry t a)\<rparr>, m))" for m
      using 2 by (simp add: perf_pair_run perf_entry_def Let_def)
    have cp: "copy_from_aie a ?f (out_bytes t a) (t, um) = (Inr (), (t, mem_write um (data a) (out_slice t a)))"
      using room 2 c fo by (subst copy_from_aie_run) (simp_all add: out_start_def out_slice_def)
    show ?thesis
    proof (cases "tr_mode t = FUNC_MODE")
      case True
      then show ?thesis using 2 pp cp
        by (simp add: handle_output_def Let_def to_dir_def from_dir_def out_bytes_def thenM_Inr)
    next
      case False
      with r have m: "tr_mode t = PERF_MODE" and ok: "perf_config_ok t" by (auto simp: out_sized_def)
      have slot: "unat (tr_word_size t * tr_depth t) = slot_bytes t" using ok by (rule perf_slot_word)
      then have slot64: "unat (ucast (tr_word_size t * tr_depth t) :: u64) = slot_bytes t"
        using unat_less_exp [where m = 64 and x = "tr_word_size t * tr_depth t"]
        by (simp add: unsigned_ucast_eq take_bit_nat_eq_self)
      have "(if size_in_byte a > ucast (tr_word_size t * tr_depth t)
             then copy_from_aie a ?f (unat (tr_word_size t * tr_depth t))
             else copy_from_aie a ?f (unat (size_in_byte a))) = copy_from_aie a ?f (out_bytes t a)"
        using m slot slot64 by (simp add: out_bytes_def kept_bytes_def word_less_nat_alt min_def)
      then show ?thesis using 2 pp cp m
        by (simp add: handle_output_def Let_def to_dir_def from_dir_def thenM_Inr thenM_assoc
            split del: if_split)
    qed
  qed
qed

section \<open>The loop\<close>

text \<open>The user's output buffers must not overlap for their contents to be determined.\<close>

definition out_disjoint :: "transaction \<Rightarrow> test_harness_args list \<Rightarrow> bool" where
  "out_disjoint t as \<longleftrightarrow> (\<forall>i < length as. \<forall>j < length as. i \<noteq> j \<longrightarrow>
     from_dir t (idx (as ! i)) \<longrightarrow> from_dir t (idx (as ! j)) \<longrightarrow>
     mem_disjoint (data (as ! i)) (out_bytes t (as ! i)) (data (as ! j)) (out_bytes t (as ! j)))"

text \<open>The memory \<open>um\<close> has the outputs in the buffers, and everything else as in \<open>v\<close>.\<close>

definition outputs_done :: "transaction \<Rightarrow> test_harness_args list \<Rightarrow> umem \<Rightarrow> umem \<Rightarrow> bool" where
  "outputs_done t as v um \<longleftrightarrow>
     (\<forall>i < length as. from_dir t (idx (as ! i)) \<longrightarrow>
        mem_read um (data (as ! i)) (out_bytes t (as ! i)) = out_slice t (as ! i)) \<and>
     (\<forall>p n. (\<forall>a \<in> set as. from_dir t (idx a) \<longrightarrow> mem_disjoint p n (data a) (out_bytes t a)) \<longrightarrow> mem_read um p n = mem_read v p n)"

lemma length_out_slice:
  "out_start t a + out_bytes t a \<le> length (from_aie_ptr t) \<Longrightarrow> length (out_slice t a) = out_bytes t a"
  by (simp add: out_slice_def)

lemma out_bytes_less: "out_bytes t a \<le> 2 ^ 64"
proof -
  have "unat (size_in_byte a) < 2 ^ 64" by (rule unat_less_exp) simp
  moreover have "out_bytes t a \<le> unat (size_in_byte a)" by (simp add: out_bytes_def kept_bytes_def)
  ultimately show ?thesis by linarith
qed

lemma outputs_done_snoc:
  assumes d: "outputs_done t pre v um" and dis: "out_disjoint t (pre @ x # suf)"
    and room: "from_dir t (idx x) \<longrightarrow> out_start t x + out_bytes t x \<le> length (from_aie_ptr t)"
  shows "outputs_done t (pre @ [x]) v
    (if from_dir t (idx x) then mem_write um (data x) (out_slice t x) else um)"
proof (cases "from_dir t (idx x)")
  case False
  then show ?thesis using d by (auto simp: outputs_done_def nth_append less_Suc_eq)
next
  case True
  have len: "length (out_slice t x) = out_bytes t x" using room True by (simp add: length_out_slice)
  have "mem_read (mem_write um (data x) (out_slice t x)) (data (pre ! i)) (out_bytes t (pre ! i)) =
      mem_read um (data (pre ! i)) (out_bytes t (pre ! i))"
    if "i < length pre" "from_dir t (idx (pre ! i))" for i
  proof -
    have "mem_disjoint (data (pre ! i)) (out_bytes t (pre ! i)) (data x) (out_bytes t x)"
      using dis [unfolded out_disjoint_def, rule_format, of i "length pre"] that True
      by (simp add: nth_append)
    then show ?thesis using len by (simp add: mem_read_write_other)
  qed
  moreover have "mem_read (mem_write um (data x) (out_slice t x)) (data x) (out_bytes t x) = out_slice t x"
    using mem_read_write_same [of "out_slice t x" um "data x"] len out_bytes_less by simp
  moreover have "mem_read (mem_write um (data x) (out_slice t x)) p n = mem_read v p n"
    if "\<forall>a \<in> set (pre @ [x]). from_dir t (idx a) \<longrightarrow> mem_disjoint p n (data a) (out_bytes t a)" for p n
    using d that True len by (simp add: outputs_done_def mem_read_write_other)
  ultimately show ?thesis
    using d True by (auto simp: outputs_done_def nth_append less_Suc_eq)
qed

lemma handle_outputs_fold:
  assumes r: "out_ready t" and dis: "out_disjoint t (args_rec t)"
  shows "\<exists>s. each handle_output (args_rec t) (t, um) = (Inr (), s) \<and>
     (\<exists>pm. fst s = t\<lparr>perf_map := pm\<rparr> \<and>
       (\<forall>a \<in> set (args_rec t). pm (idx a) = Some (perf_entry t a)) \<and>
       (\<forall>ch. ch \<notin> idx ` set (args_rec t) \<longrightarrow> pm ch = perf_map t ch)) \<and>
     outputs_done t (args_rec t) um (snd s)"
proof (rule each_prefix_rule [where I = "\<lambda>pre s. (\<exists>pm. fst s = t\<lparr>perf_map := pm\<rparr> \<and>
       (\<forall>a \<in> set pre. pm (idx a) = Some (perf_entry t a)) \<and>
       (\<forall>ch. ch \<notin> idx ` set pre \<longrightarrow> pm ch = perf_map t ch)) \<and> outputs_done t pre um (snd s)"])
  show "(\<exists>pm. fst (t, um) = t\<lparr>perf_map := pm\<rparr> \<and> (\<forall>a \<in> set []. pm (idx a) = Some (perf_entry t a)) \<and>
       (\<forall>ch. ch \<notin> idx ` set [] \<longrightarrow> pm ch = perf_map t ch)) \<and> outputs_done t [] um (snd (t, um))"
    by (auto simp: outputs_done_def intro: exI [of _ "perf_map t"])
next
  fix pre x suf s
  assume x: "args_rec t = pre @ x # suf"
    and I: "(\<exists>pm. fst s = t\<lparr>perf_map := pm\<rparr> \<and> (\<forall>a \<in> set pre. pm (idx a) = Some (perf_entry t a)) \<and>
       (\<forall>ch. ch \<notin> idx ` set pre \<longrightarrow> pm ch = perf_map t ch)) \<and> outputs_done t pre um (snd s)"
  obtain pm m where s: "s = (t\<lparr>perf_map := pm\<rparr>, m)"
    and pm: "\<forall>a \<in> set pre. pm (idx a) = Some (perf_entry t a)"
      "\<forall>ch. ch \<notin> idx ` set pre \<longrightarrow> pm ch = perf_map t ch"
    and od: "outputs_done t pre um m"
    using I by (cases s) auto
  let ?u = "t\<lparr>perf_map := pm\<rparr>"
  have fr: "out_start ?u = out_start t" "out_bytes ?u = out_bytes t" "out_slice ?u = out_slice t"
    "perf_entry ?u = perf_entry t" "from_dir ?u = from_dir t" "valid_channel ?u = valid_channel t"
    "out_ready ?u = out_ready t"
    by (simp_all add: fun_eq_iff out_start_def out_bytes_def kept_bytes_def slot_bytes_def out_slice_def
        perf_entry_def from_dir_def to_dir_def valid_channel_def out_ready_def perf_config_ok_def config_ok_def)
  have vx: "valid_channel t x" "from_dir t (idx x) \<longrightarrow> out_start t x + out_bytes t x \<le> length (from_aie_ptr t)"
    using r x by (auto simp: out_ready_def)
  have run: "handle_output x s = (Inr (), (?u\<lparr>perf_map := pm(idx x \<mapsto> perf_entry t x)\<rparr>,
      if from_dir t (idx x) then mem_write m (data x) (out_slice t x) else m))"
    using handle_output_run [OF out_ready_sized, of ?u x m] r vx unfolding fr s by simp
  have dn: "outputs_done t (pre @ [x]) um (if from_dir t (idx x) then mem_write m (data x) (out_slice t x) else m)"
    using outputs_done_snoc [OF od] dis vx(2) x by simp
  have pm': "\<forall>a \<in> set (pre @ [x]). (pm(idx x \<mapsto> perf_entry t x)) (idx a) = Some (perf_entry t a)"
  proof -
    have same: "idx a = idx x \<Longrightarrow> perf_entry t x = perf_entry t a" for a
      by (simp add: perf_entry_def to_chn_def from_chn_def Let_def)
    show ?thesis
    proof
      fix a assume "a \<in> set (pre @ [x])"
      then show "(pm(idx x \<mapsto> perf_entry t x)) (idx a) = Some (perf_entry t a)"
        using pm(1) same [of a] by (cases "idx a = idx x") auto
    qed
  qed
  show "\<exists>s'. handle_output x s = (Inr (), s') \<and> ((\<exists>pm. fst s' = t\<lparr>perf_map := pm\<rparr> \<and>
       (\<forall>a \<in> set (pre @ [x]). pm (idx a) = Some (perf_entry t a)) \<and>
       (\<forall>ch. ch \<notin> idx ` set (pre @ [x]) \<longrightarrow> pm ch = perf_map t ch)) \<and> outputs_done t (pre @ [x]) um (snd s'))"
    using run dn pm' pm(2) by (auto intro!: exI [of _ "pm(idx x \<mapsto> perf_entry t x)"])
qed

lemma handleOutputs_run:
  assumes r: "out_ready t" and dis: "out_disjoint t (args_rec t)"
  shows "\<exists>pm um'. handleOutputs (t, um) = (Inr (), (clearData (t\<lparr>perf_map := pm\<rparr>), um')) \<and>
     (\<forall>a \<in> set (args_rec t). pm (idx a) = Some (perf_entry t a)) \<and>
     (\<forall>ch. ch \<notin> idx ` set (args_rec t) \<longrightarrow> pm ch = perf_map t ch) \<and>
     outputs_done t (args_rec t) um um'"
proof -
  obtain s pm where s: "each handle_output (args_rec t) (t, um) = (Inr (), s)" "fst s = t\<lparr>perf_map := pm\<rparr>"
    "\<forall>a \<in> set (args_rec t). pm (idx a) = Some (perf_entry t a)"
    "\<forall>ch. ch \<notin> idx ` set (args_rec t) \<longrightarrow> pm ch = perf_map t ch"
    "outputs_done t (args_rec t) um (snd s)"
    using handle_outputs_fold [OF assms] by blast
  have "handleOutputs (t, um) = (Inr (), (clearData (t\<lparr>perf_map := pm\<rparr>), snd s))"
    using s(1,2) by (cases s) (simp add: handleOutputs_def thenM_Inr)
  with s show ?thesis by blast
qed

end
