(* ===== verification/Transaction_Claims.thy ===== *)
theory Transaction_Claims
  imports Transaction_Outputs
begin

text \<open>
  The properties of \<^verbatim>\<open>test_harness_transactions\<close>. The library lemmas they rest on are in the
  theories before this one; the concrete transaction of the witnesses has two channels in each
  direction, words of two bytes and memory words of four bytes, so that padding is visible.
\<close>

section \<open>A concrete transaction\<close>

definition demo_tr :: "TestMode \<Rightarrow> transaction" where
  "demo_tr md = test_harness_transactions 7 md 2 2 4 4 0"

definition demo_mem :: umem where "demo_mem = (\<lambda>a. ucast a + 1)"

definition demo_arg :: "channel_index \<Rightarrow> u64 \<Rightarrow> u64 \<Rightarrow> test_harness_args" where
  "demo_arg ch sz p = \<lparr>idx = ch, size_in_byte = sz, repetition = 1, delay = 3, data = p\<rparr>"

definition demo_args :: "test_harness_args list" where
  "demo_args = [demo_arg 1 6 0, demo_arg 36 2 32, demo_arg 0 4 16, demo_arg 37 8 48]"

lemma demo_simps [simp]:
  "tr_num_channels (demo_tr md) = 2" "tr_word_size (demo_tr md) = 2" "tr_depth (demo_tr md) = 4"
  "mMemWidth (demo_tr md) = 4" "tr_mode (demo_tr md) = md"
  by (simp_all add: demo_tr_def test_harness_transactions_def)

lemma demo_accepted:
  "\<forall>a \<in> set demo_args. accepted (demo_tr md) a"
  by (simp add: demo_args_def demo_arg_def accepted_def valid_channel_def aligned_def
      is_to_aie_iff is_from_aie_iff)

lemma demo_ok: "config_ok (demo_tr md)" "perf_config_ok (demo_tr md)"
  by (simp_all add: config_ok_def perf_config_ok_def slot_bytes_def)

lemma demo_fits: "fits 4 demo_args"
  by (simp add: fits_def demo_args_def demo_arg_def)

lemma demo_repetition: "\<forall>a \<in> set demo_args. repetition a = 1"
  by (simp add: demo_args_def demo_arg_def)

lemma demo_distinct: "distinct (map idx demo_args)"
  by (simp add: demo_args_def demo_arg_def)

section \<open>Rejected arguments\<close>

lemma handleInputs_rejected:
  assumes "config_ok t" and "\<not> (\<forall>a \<in> set args. accepted t a)"
  shows "handleInputs um args t =
    (Inl (TestHarnessException INVALID_ARGUMENTS), (reset t)\<lparr>args_rec := takeWhile (accepted t) args\<rparr>)"
  using assms by (simp add: handleInputs_def check_arguments_run config_ok_def thenM_Inl)

lemma handleInputs_repetition:
  assumes "config_ok t" "tr_mode t = FUNC_MODE" "\<forall>a \<in> set args. accepted t a"
    and "\<exists>a \<in> set args. repetition a \<noteq> 1"
  shows "handleInputs um args t =
    (Inl (TestHarnessException INVALID_ARGUMENTS), (checked t args)\<lparr>result_valid := True\<rparr>)"
proof -
  have "foldM func_total args (0, 0) ((checked t args)\<lparr>result_valid := True\<rparr>) =
      (Inl (TestHarnessException INVALID_ARGUMENTS), (checked t args)\<lparr>result_valid := True\<rparr>)"
    using assms by (intro func_total_repetition) (simp_all add: config_ok_def)
  then have "func_inputs um (checked t args) =
      (Inl (TestHarnessException INVALID_ARGUMENTS), (checked t args)\<lparr>result_valid := True\<rparr>)"
    by (simp add: func_inputs_def bindM_Inl)
  then show ?thesis using assms by (simp add: handleInputs_checked thenM_Inl)
qed

section \<open>What the image of a functional transaction delivers\<close>

text \<open>The driver's part: the received image and the counters are stored into the transaction.\<close>

definition received :: "u8 list \<Rightarrow> u64 list \<Rightarrow> transaction \<Rightarrow> transaction" where
  "received img perf t = t\<lparr>from_aie_ptr := img, perf_ptr := perf\<rparr>"

lemma out_start_func:
  assumes w: "0 < unat (mMemWidth t)" and fit: "fits (unat (mMemWidth t)) args"
    and i: "i < length args"
    and off: "from_mem_word_offset t ! from_chn (args ! i) = of_nat (dir_units p (unat (mMemWidth t)) (take i args))"
  shows "out_start t (args ! i) = dir_units p (unat (mMemWidth t)) (take i args) * unat (mMemWidth t)"
proof -
  let ?w = "unat (mMemWidth t)" and ?d = "dir_units p (unat (mMemWidth t)) (take i args)"
  have "?d \<le> dir_units p ?w args"
    using dir_units_append [of p ?w "take i args" "drop i args"] by simp
  then have "?d * ?w \<le> dir_units p ?w args * ?w" by (rule mult_le_mono1)
  then have b: "?d * ?w < 2 ^ 32" using fits_dir_units [OF w fit, of p] by linarith
  have "?d * 1 \<le> ?d * ?w" using w by (intro mult_le_mono2) simp
  then have "?d < 2 ^ 32" using b by linarith
  then have "unat (of_nat ?d :: u32) = ?d" by (intro unat_of_nat_small) simp
  then show ?thesis using b off by (simp add: out_start_def unat_mult_small)
qed

text \<open>
  After \<open>handleInputs\<close> has packed distinct channels, any received image of the size the transaction
  asked for makes \<open>handleOutputs\<close> run without leaving a vector.
\<close>

lemma func_out_ready:
  assumes ok: "config_ok t" and m: "tr_mode t = FUNC_MODE"
    and acc: "\<forall>a \<in> set args. accepted t a" and dist: "distinct (map idx args)"
    and fit: "fits (unat (mMemWidth t)) args"
    and rd: "inputs_ready t args u" and lay: "func_layout um u args"
    and img: "length img = dir_units (from_dir t) (unat (mMemWidth t)) args * unat (mMemWidth t)"
    and perf: "length perf = 4 * unat (tr_num_channels t)"
  shows "out_ready (received img perf u)"
    "i < length args \<Longrightarrow> from_dir t (idx (args ! i)) \<Longrightarrow>
      out_start (received img perf u) (args ! i) =
        dir_units (from_dir t) (unat (mMemWidth t)) (take i args) * unat (mMemWidth t)"
proof -
  let ?v = "received img perf u" and ?w = "unat (mMemWidth t)"
  have p: "tr_num_channels u = tr_num_channels t" "mMemWidth u = mMemWidth t" "tr_mode u = tr_mode t"
    "args_rec u = args" "length (from_mem_word_offset u) = unat (tr_num_channels t)"
    using rd by (simp_all add: inputs_ready_def)
  have d: "from_dir u = from_dir t" "to_dir u = to_dir t" by (simp_all add: from_dir_def to_dir_def p)
  have wp: "0 < ?w" and nc: "unat (tr_num_channels t) \<le> 36"
    using ok by (simp_all add: config_ok_def unat_gt_0)
  have start: "out_start ?v (args ! i) = dir_units (from_dir t) ?w (take i args) * ?w"
    if "i < length args" "from_dir t (idx (args ! i))" for i
  proof -
    have "from_mem_word_offset u ! from_chn (args ! i) = of_nat (dir_units (from_dir t) ?w (take i args))"
      using lay dist that by (simp add: func_layout_def d p)
    then have "out_start u (args ! i) = dir_units (from_dir t) ?w (take i args) * ?w"
      using out_start_func [of u args i "from_dir t"] wp fit that by (simp add: p)
    then show ?thesis by (simp add: out_start_def received_def)
  qed
  show "out_start ?v (args ! i) = dir_units (from_dir t) ?w (take i args) * ?w"
    if "i < length args" "from_dir t (idx (args ! i))" by (rule start [OF that])
  have room: "out_start ?v a + out_bytes ?v a \<le> length img"
    if "a \<in> set args" "from_dir t (idx a)" for a
  proof -
    obtain i where i: "i < length args" "a = args ! i" using \<open>a \<in> set args\<close> by (auto simp: in_set_conv_nth)
    have "out_bytes ?v a = unat (size_in_byte a)" using m by (simp add: out_bytes_def received_def p)
    with i that(2) start [of i] earlier_region [OF wp, of i args "from_dir t"] img show ?thesis by simp
  qed
  show "out_ready ?v"
    unfolding out_ready_def
  proof (intro conjI)
    show "\<forall>a \<in> set (args_rec ?v). valid_channel ?v a"
      using acc p by (simp add: received_def valid_channel_def accepted_def)
    show "\<forall>a \<in> set (args_rec ?v). from_dir ?v (idx a) \<longrightarrow> out_start ?v a + out_bytes ?v a \<le> length (from_aie_ptr ?v)"
      using room p d by (simp add: received_def from_dir_def)
  qed (use p nc m perf in \<open>simp_all add: received_def\<close>)
qed

lemma len32: "2 ^ LENGTH(32) = (2 :: nat) ^ 32"
  by simp

lemma perf_out_ready:
  assumes ok: "perf_config_ok t" and m: "tr_mode t = PERF_MODE"
    and acc: "\<forall>a \<in> set args. accepted t a" and dist: "distinct (map idx args)"
    and rd: "inputs_ready t args u" and lay: "perf_layout um u args"
    and img: "length img = unat (tr_num_channels t) * slot_bytes t"
    and perf: "length perf = 4 * unat (tr_num_channels t)"
  shows "out_ready (received img perf u)"
    "a \<in> set args \<Longrightarrow> from_dir t (idx a) \<Longrightarrow>
      out_start (received img perf u) a = from_chn a * slot_bytes t"
proof -
  let ?v = "received img perf u"
  have p: "tr_num_channels u = tr_num_channels t" "mMemWidth u = mMemWidth t" "tr_mode u = tr_mode t"
    "tr_word_size u = tr_word_size t" "tr_depth u = tr_depth t"
    "args_rec u = args" "length (from_mem_word_offset u) = unat (tr_num_channels t)"
    using rd by (simp_all add: inputs_ready_def)
  have d: "from_dir u = from_dir t" "to_dir u = to_dir t" by (simp_all add: from_dir_def to_dir_def p)
  have sl: "slot_bytes u = slot_bytes t" "slot_words u = slot_words t"
    by (simp_all add: slot_bytes_def slot_words_def p)
  have nc: "unat (tr_num_channels t) \<le> 36" and w: "0 < unat (mMemWidth t)"
    using ok by (simp_all add: perf_config_ok_def config_ok_def unat_gt_0)
  have lim: "(unat (tr_num_channels t) + 1) * slot_bytes t < 2 ^ 32"
    using ok unfolding perf_config_ok_def by blast
  have chn: "from_chn a * slot_bytes t + slot_bytes t \<le> unat (tr_num_channels t) * slot_bytes t"
    if "from_dir t (idx a)" for a
  proof -
    have "Suc (from_chn a) * slot_bytes t \<le> unat (tr_num_channels t) * slot_bytes t"
      using that from_chn_less [OF nc] by (intro mult_le_mono1) (simp add: from_dir_def Suc_leI)
    then show ?thesis by simp
  qed
  have start: "out_start ?v a = from_chn a * slot_bytes t" if "a \<in> set args" "from_dir t (idx a)" for a
  proof -
    let ?o = "of_nat (slot_words t * from_chn a) :: u32"
    have o: "from_mem_word_offset u ! from_chn a = ?o"
      using lay dist that by (simp add: perf_layout_def d sl)
    have e: "slot_words t * from_chn a * unat (mMemWidth t) = from_chn a * slot_bytes t"
      using slot_words_mult [OF ok] by (metis mult.assoc mult.commute)
    have b: "from_chn a * slot_bytes t < 2 ^ 32"
      using chn [OF that(2)] lim unfolding add_mult_distrib by linarith
    have u: "unat ?o = slot_words t * from_chn a"
    proof (rule unat_of_nat_small)
      have "slot_words t * from_chn a * 1 \<le> slot_words t * from_chn a * unat (mMemWidth t)"
        using w by (intro mult_le_mono2) simp
      then have "slot_words t * from_chn a < 2 ^ 32" using e b by linarith
      then show "slot_words t * from_chn a < 2 ^ LENGTH(32)" by simp
    qed
    have "unat (?o * mMemWidth t) = unat ?o * unat (mMemWidth t)"
      by (rule unat_mult_small) (use b in \<open>simp only: u e len32\<close>)
    then show ?thesis unfolding out_start_def received_def using o u e by (simp add: p del: of_nat_mult)
  qed
  show "out_start ?v a = from_chn a * slot_bytes t" if "a \<in> set args" "from_dir t (idx a)"
    by (rule start [OF that])
  have room: "out_start ?v a + out_bytes ?v a \<le> length img" if "a \<in> set args" "from_dir t (idx a)" for a
  proof -
    have "out_bytes ?v a \<le> slot_bytes t"
      using m by (simp add: out_bytes_def received_def p kept_bytes_def slot_bytes_def)
    with start [OF that] chn [OF that(2)] img show ?thesis by simp
  qed
  show "out_ready ?v"
    unfolding out_ready_def
  proof (intro conjI)
    show "\<forall>a \<in> set (args_rec ?v). valid_channel ?v a"
      using acc p by (simp add: received_def valid_channel_def accepted_def)
    show "\<forall>a \<in> set (args_rec ?v). from_dir ?v (idx a) \<longrightarrow> out_start ?v a + out_bytes ?v a \<le> length (from_aie_ptr ?v)"
      using room p d by (simp add: received_def from_dir_def)
    show "tr_mode ?v = FUNC_MODE \<or> tr_mode ?v = PERF_MODE \<and> perf_config_ok ?v"
      using m ok p by (simp add: received_def perf_config_ok_def config_ok_def slot_bytes_def)
  qed (use p nc perf in \<open>simp_all add: received_def\<close>)
qed

text \<open>The user's output buffers of one call, pairwise disjoint.\<close>

definition user_buffers_disjoint :: "transaction \<Rightarrow> test_harness_args list \<Rightarrow> bool" where
  "user_buffers_disjoint t as \<longleftrightarrow> (\<forall>i < length as. \<forall>j < length as. i \<noteq> j \<longrightarrow>
     from_dir t (idx (as ! i)) \<longrightarrow> from_dir t (idx (as ! j)) \<longrightarrow>
     mem_disjoint (data (as ! i)) (unat (size_in_byte (as ! i)))
       (data (as ! j)) (unat (size_in_byte (as ! j))))"

lemma mem_disjoint_mono:
  "mem_disjoint p n q k \<Longrightarrow> n' \<le> n \<Longrightarrow> k' \<le> k \<Longrightarrow> mem_disjoint p n' q k'"
  unfolding mem_disjoint_def by (meson less_le_trans)

lemma out_bytes_le: "out_bytes t a \<le> unat (size_in_byte a)"
  by (simp add: out_bytes_def kept_bytes_def)

lemma user_out_disjoint:
  "user_buffers_disjoint t as \<Longrightarrow> tr_num_channels u = tr_num_channels t \<Longrightarrow> out_disjoint u as"
  unfolding user_buffers_disjoint_def out_disjoint_def from_dir_def
  by (metis mem_disjoint_mono out_bytes_le)

text \<open>What \<open>handleOutputs\<close> leaves of a transaction: the performance map, no buffers.\<close>

definition delivered ::
  "transaction \<Rightarrow> test_harness_args list \<Rightarrow> u64 list \<Rightarrow> (nat \<Rightarrow> u8 list) \<Rightarrow> transaction \<Rightarrow> umem \<Rightarrow> bool" where
  "delivered t args perf slices u um \<longleftrightarrow>
     getMemoryUsage u = 0 \<and>
     (\<forall>i < length args.
        let a = args ! i; nc = unat (tr_num_channels t) in
        if from_dir t (idx a) then
          mem_read um (data a) (length (slices i)) = slices i \<and>
          perf_map u (idx a) = Some (perf ! (from_chn a + 2 * nc), perf ! (from_chn a + 3 * nc))
        else perf_map u (idx a) = Some (perf ! to_chn a, perf ! (to_chn a + nc)))"

lemma handleOutputs_delivered:
  assumes r: "out_ready v" and dis: "out_disjoint v args" and a: "args_rec v = args"
    and t: "tr_num_channels v = tr_num_channels t"
    and val: "\<forall>a \<in> set args. valid_channel t a" and nc: "unat (tr_num_channels t) \<le> 36"
    and sl: "\<And>i. i < length args \<Longrightarrow> from_dir t (idx (args ! i)) \<Longrightarrow> slices i = out_slice v (args ! i)"
  shows "\<exists>w um'. handleOutputs (v, um) = (Inr (), (w, um')) \<and>
     delivered t args (perf_ptr v) slices w um'"
proof -
  obtain pm um' where run: "handleOutputs (v, um) = (Inr (), (clearData (v\<lparr>perf_map := pm\<rparr>), um'))"
    and pm: "\<forall>a \<in> set args. pm (idx a) = Some (perf_entry v a)" and dn: "outputs_done v args um um'"
    using handleOutputs_run [OF r, of um] dis a by auto
  have d: "from_dir v = from_dir t" "to_dir v = to_dir t" by (simp_all add: from_dir_def to_dir_def t)
  have dirs: "from_dir t (idx x) \<longleftrightarrow> \<not> to_dir t (idx x)" if "x \<in> set args" for x
    using val that to_from_disjoint [OF nc, of "idx x"]
    by (auto simp: valid_channel_def from_dir_def to_dir_def)
  have len: "length (out_slice v (args ! i)) = out_bytes v (args ! i)"
    if "i < length args" "from_dir t (idx (args ! i))" for i
    using r that a d by (intro length_out_slice) (simp add: out_ready_def)
  have "delivered t args (perf_ptr v) slices (clearData (v\<lparr>perf_map := pm\<rparr>)) um'"
    using pm dn sl len dirs
    by (auto simp: delivered_def clearData_def getMemoryUsage_def outputs_done_def perf_entry_def d t Let_def)
  with run show ?thesis by blast
qed

lemma demo_buffers: "user_buffers_disjoint (demo_tr md) demo_args"
proof -
  have "mem_disjoint 32 2 48 8" "mem_disjoint 48 8 32 2"
    by (rule mem_disjoint_apart; simp)+
  moreover have four: "(\<forall>i < length demo_args. P i) \<longleftrightarrow> P 0 \<and> P 1 \<and> P 2 \<and> P 3" for P :: "nat \<Rightarrow> bool"
    by (auto simp: demo_args_def less_Suc_eq numeral_2_eq_2 numeral_3_eq_3)
  ultimately show ?thesis
    unfolding user_buffers_disjoint_def four
    by (simp add: demo_args_def demo_arg_def from_dir_def is_from_aie_iff)
qed

section \<open>Properties\<close>

text \<open>C1: packing a functional transaction. For arguments that pass the checks, with repetition 1 and
  less than 4 GiB of padded data, \<open>handleInputs\<close> succeeds: the transaction is ready, both images have
  exactly the size of the padded channels, the data of every channel to the AI Engine lies at the sum of
  the padded sizes before it, and when no channel is named twice the four configuration words of
  every channel are in place and those of every unused channel are 0.\<close>

theorem func_packing:
  assumes "config_ok t" and "tr_mode t = FUNC_MODE"
    and "\<forall>a \<in> set args. accepted t a \<and> repetition a = 1"
    and "fits (unat (mMemWidth t)) args"
  shows "\<exists>u. handleInputs um args t = (Inr (), u) \<and> inputs_ready t args u \<and> result_valid u \<and>
    length (to_aie_ptr u) = dir_units (to_dir t) (unat (mMemWidth t)) args * unat (mMemWidth t) \<and>
    length (from_aie_ptr u) = dir_units (from_dir t) (unat (mMemWidth t)) args * unat (mMemWidth t) \<and>
    func_layout um u args"
  using assms by (intro handleInputs_func_run) auto

theorem func_packing_witness:
  "\<exists>u. handleInputs demo_mem demo_args (demo_tr FUNC_MODE) = (Inr (), u) \<and>
    length (to_aie_ptr u) = 12 \<and> length (from_aie_ptr u) = 12 \<and> func_layout demo_mem u demo_args"
proof -
  have d: "dir_units (to_dir (demo_tr FUNC_MODE)) 4 demo_args = 3"
    "dir_units (from_dir (demo_tr FUNC_MODE)) 4 demo_args = 3"
    by (simp_all add: dir_units_def demo_args_def demo_arg_def to_dir_def from_dir_def units_def
        is_to_aie_iff is_from_aie_iff)
  show ?thesis
    using func_packing [of "demo_tr FUNC_MODE" demo_args demo_mem] demo_ok demo_accepted demo_fits demo_repetition
    by (auto simp: d)
qed

text \<open>C2: packing a performance transaction. Every channel to the AI Engine gets the slot of its
  number, data longer than the slot is cut there and makes the result invalid, and the result is valid
  exactly when no channel to the AI Engine was cut.\<close>

theorem perf_packing:
  assumes "perf_config_ok t" and "tr_mode t = PERF_MODE" and "\<forall>a \<in> set args. accepted t a"
  shows "\<exists>u. handleInputs um args t = (Inr (), u) \<and> inputs_ready t args u \<and>
    length (to_aie_ptr u) = unat (tr_num_channels t) * slot_bytes t \<and>
    length (from_aie_ptr u) = unat (tr_num_channels t) * slot_bytes t \<and>
    perf_layout um u args"
  using assms by (rule handleInputs_perf_run)

theorem perf_packing_witness:
  "\<exists>u. handleInputs demo_mem demo_args (demo_tr PERF_MODE) = (Inr (), u) \<and>
    length (to_aie_ptr u) = 16 \<and> perf_layout demo_mem u demo_args"
  using perf_packing [of "demo_tr PERF_MODE" demo_args demo_mem] demo_ok demo_accepted
  by (auto simp: slot_bytes_def)

text \<open>C3: errors of a functional transaction whose buffers fit into 32-bit offsets (\<open>fits\<close>). \<open>handleInputs\<close> succeeds exactly when every
  argument names an existing channel, has a size that is a multiple of the stream word, and has repetition 1;
  otherwise it throws \<open>INVALID_ARGUMENTS\<close> and leaves a transaction that is merely created and holds no
  data.\<close>

theorem func_errors:
  assumes "config_ok t" and "tr_mode t = FUNC_MODE" and "fits (unat (mMemWidth t)) args"
  shows "\<exists>u. handleInputs um args t =
      (if \<forall>a \<in> set args. accepted t a \<and> repetition a = 1 then Inr ()
       else Inl (TestHarnessException INVALID_ARGUMENTS), u) \<and>
    (status u = TRANSACTION_READY \<longleftrightarrow> (\<forall>a \<in> set args. accepted t a \<and> repetition a = 1)) \<and>
    (\<not> (\<forall>a \<in> set args. accepted t a \<and> repetition a = 1) \<longrightarrow>
       status u = TRANSACTION_CREATED \<and> to_aie_ptr u = [] \<and> from_aie_ptr u = [])"
proof (cases "\<forall>a \<in> set args. accepted t a")
  case False
  then show ?thesis using handleInputs_rejected [OF assms(1) False] by auto
next
  case True
  show ?thesis
  proof (cases "\<forall>a \<in> set args. repetition a = 1")
    case rep: True
    with True obtain u where "handleInputs um args t = (Inr (), u)" "inputs_ready t args u"
      using handleInputs_func_run [OF assms(1,2) True _ assms(3)] by blast
    with True rep show ?thesis by (auto simp: inputs_ready_def)
  next
    case False
    then have "handleInputs um args t =
      (Inl (TestHarnessException INVALID_ARGUMENTS), (checked t args)\<lparr>result_valid := True\<rparr>)"
      using assms True by (intro handleInputs_repetition) auto
    with False show ?thesis by auto
  qed
qed

theorem func_errors_witness:
  "fst (handleInputs demo_mem [demo_arg 1 6 0, demo_arg 36 3 0] (demo_tr FUNC_MODE)) =
     Inl (TestHarnessException INVALID_ARGUMENTS)"
proof -
  have "\<not> accepted (demo_tr FUNC_MODE) (demo_arg 36 3 0)"
    by (simp add: accepted_def aligned_def demo_arg_def)
  moreover have "fits 4 [demo_arg 1 6 0, demo_arg 36 3 0]" by (simp add: fits_def demo_arg_def)
  ultimately show ?thesis
    using func_errors [of "demo_tr FUNC_MODE" "[demo_arg 1 6 0, demo_arg 36 3 0]" demo_mem] demo_ok by auto
qed

text \<open>C4: a functional transaction delivers. When distinct channels were packed and the driver stored
  the received image and the counters, \<open>handleOutputs\<close> copies to every user buffer of a channel from the
  AI Engine exactly that channel's part of the image, records the counters of every channel, and
  releases the buffers.\<close>

theorem func_delivery:
  assumes "config_ok t" and "tr_mode t = FUNC_MODE"
    and "\<forall>a \<in> set args. accepted t a \<and> repetition a = 1" and "distinct (map idx args)"
    and "fits (unat (mMemWidth t)) args" and "user_buffers_disjoint t args"
    and "length img = dir_units (from_dir t) (unat (mMemWidth t)) args * unat (mMemWidth t)"
    and "length perf = 4 * unat (tr_num_channels t)"
  shows "\<exists>u v um'. handleInputs um args t = (Inr (), u) \<and>
    handleOutputs (received img perf u, um) = (Inr (), (v, um')) \<and>
    delivered t args perf
      (\<lambda>i. take (unat (size_in_byte (args ! i)))
        (drop (dir_units (from_dir t) (unat (mMemWidth t)) (take i args) * unat (mMemWidth t)) img)) v um'"
proof -
  obtain u where u: "handleInputs um args t = (Inr (), u)" "inputs_ready t args u" "func_layout um u args"
    using handleInputs_func_run [OF assms(1,2), of args um] assms(3,5) by blast
  let ?r = "received img perf u"
  have acc: "\<forall>a \<in> set args. accepted t a" using assms(3) by blast
  note o = func_out_ready [OF assms(1,2) acc assms(4,5) u(2,3) assms(7,8)]
  have p: "args_rec ?r = args" "tr_num_channels ?r = tr_num_channels t" "tr_mode ?r = FUNC_MODE"
    "perf_ptr ?r = perf" "from_aie_ptr ?r = img"
    using u(2) assms(2) by (simp_all add: received_def inputs_ready_def)
  have "\<exists>w um'. handleOutputs (?r, um) = (Inr (), (w, um')) \<and> delivered t args (perf_ptr ?r)
      (\<lambda>i. take (unat (size_in_byte (args ! i)))
        (drop (dir_units (from_dir t) (unat (mMemWidth t)) (take i args) * unat (mMemWidth t)) img)) w um'"
  proof (rule handleOutputs_delivered [OF o(1) user_out_disjoint [OF assms(6)] p(1,2)])
    show "\<forall>a \<in> set args. valid_channel t a" using acc by (simp add: accepted_def)
    show "unat (tr_num_channels t) \<le> 36" using assms(1) by (simp add: config_ok_def)
  qed (simp_all add: p o(2) out_slice_def out_bytes_def)
  with u(1) p show ?thesis by auto
qed

theorem func_delivery_witness:
  "\<exists>u v um'. handleInputs demo_mem demo_args (demo_tr FUNC_MODE) = (Inr (), u) \<and>
    handleOutputs (received (map of_nat [0..<12]) (map of_nat [0..<8]) u, demo_mem) = (Inr (), (v, um')) \<and>
    mem_read um' 48 8 = [4, 5, 6, 7, 8, 9, 10, 11]"
proof -
  have d: "dir_units (from_dir (demo_tr FUNC_MODE)) 4 demo_args = 3"
    "dir_units (from_dir (demo_tr FUNC_MODE)) 4 (take 3 demo_args) = 1"
    by (simp_all add: dir_units_def demo_args_def demo_arg_def from_dir_def units_def
        is_from_aie_iff)
  have i: "demo_args ! 3 = demo_arg 37 8 48" "length demo_args = 4" by (simp_all add: demo_args_def)
  have f: "from_dir (demo_tr FUNC_MODE) 37" by (simp add: from_dir_def is_from_aie_iff)
  obtain u v um' where r: "handleInputs demo_mem demo_args (demo_tr FUNC_MODE) = (Inr (), u)"
      "handleOutputs (received (map of_nat [0..<12]) (map of_nat [0..<8]) u, demo_mem) = (Inr (), (v, um'))"
    and del: "delivered (demo_tr FUNC_MODE) demo_args (map of_nat [0..<8])
      (\<lambda>i. take (unat (size_in_byte (demo_args ! i)))
        (drop (dir_units (from_dir (demo_tr FUNC_MODE)) 4 (take i demo_args) * 4) (map of_nat [0..<12]))) v um'"
    using func_delivery [of "demo_tr FUNC_MODE" demo_args "map of_nat [0..<12]" "map of_nat [0..<8]" demo_mem]
      demo_ok demo_accepted demo_fits demo_repetition demo_distinct demo_buffers d by auto
  have "mem_read um' 48 8 = take 8 (drop 4 (map of_nat [0..<12]))"
    using del i f d unfolding delivered_def by (auto simp: demo_arg_def Let_def dest!: spec [of _ 3])
  with r show ?thesis by (auto simp: upt_rec)
qed

text \<open>C5: a performance transaction delivers. The user gets, for every channel from the AI Engine, the
  part of the received image that starts at the slot of its number, cut at the slot size.\<close>

theorem perf_delivery:
  assumes "perf_config_ok t" and "tr_mode t = PERF_MODE"
    and "\<forall>a \<in> set args. accepted t a" and "distinct (map idx args)"
    and "user_buffers_disjoint t args"
    and "length img = unat (tr_num_channels t) * slot_bytes t"
    and "length perf = 4 * unat (tr_num_channels t)"
  shows "\<exists>u v um'. handleInputs um args t = (Inr (), u) \<and>
    handleOutputs (received img perf u, um) = (Inr (), (v, um')) \<and>
    delivered t args perf
      (\<lambda>i. take (kept_bytes t (args ! i)) (drop (from_chn (args ! i) * slot_bytes t) img)) v um'"
proof -
  obtain u where u: "handleInputs um args t = (Inr (), u)" "inputs_ready t args u" "perf_layout um u args"
    using handleInputs_perf_run [OF assms(1-3), of um] by blast
  let ?r = "received img perf u"
  note o = perf_out_ready [OF assms(1-4) u(2,3) assms(6,7)]
  have p: "args_rec ?r = args" "tr_num_channels ?r = tr_num_channels t" "tr_mode ?r = PERF_MODE"
    "tr_word_size ?r = tr_word_size t" "tr_depth ?r = tr_depth t" "perf_ptr ?r = perf" "from_aie_ptr ?r = img"
    using u(2) assms(2) by (simp_all add: received_def inputs_ready_def)
  have "\<exists>w um'. handleOutputs (?r, um) = (Inr (), (w, um')) \<and> delivered t args (perf_ptr ?r)
      (\<lambda>i. take (kept_bytes t (args ! i)) (drop (from_chn (args ! i) * slot_bytes t) img)) w um'"
  proof (rule handleOutputs_delivered [OF o(1) user_out_disjoint [OF assms(5)] p(1,2)])
    show "\<forall>a \<in> set args. valid_channel t a" using assms(3) by (simp add: accepted_def)
    show "unat (tr_num_channels t) \<le> 36" using assms(1) by (simp add: perf_config_ok_def config_ok_def)
  qed (simp_all add: p o(2) out_slice_def out_bytes_def kept_bytes_def slot_bytes_def)
  with u(1) p show ?thesis by auto
qed

theorem perf_delivery_witness:
  "\<exists>u v um'. handleInputs demo_mem demo_args (demo_tr PERF_MODE) = (Inr (), u) \<and>
    handleOutputs (received (map of_nat [0..<16]) (map of_nat [0..<8]) u, demo_mem) = (Inr (), (v, um')) \<and>
    perf_map v 37 = Some (5, 7) \<and> mem_read um' 48 8 = [8, 9, 10, 11, 12, 13, 14, 15]"
proof -
  have sl: "slot_bytes (demo_tr PERF_MODE) = 8" by (simp add: slot_bytes_def)
  have i: "demo_args ! 3 = demo_arg 37 8 48" "length demo_args = 4" by (simp_all add: demo_args_def)
  have f: "from_dir (demo_tr PERF_MODE) 37" by (simp add: from_dir_def is_from_aie_iff)
  obtain u v um' where r: "handleInputs demo_mem demo_args (demo_tr PERF_MODE) = (Inr (), u)"
      "handleOutputs (received (map of_nat [0..<16]) (map of_nat [0..<8]) u, demo_mem) = (Inr (), (v, um'))"
    and del: "delivered (demo_tr PERF_MODE) demo_args (map of_nat [0..<8])
      (\<lambda>i. take (kept_bytes (demo_tr PERF_MODE) (demo_args ! i))
        (drop (from_chn (demo_args ! i) * slot_bytes (demo_tr PERF_MODE)) (map of_nat [0..<16]))) v um'"
    using perf_delivery [of "demo_tr PERF_MODE" demo_args "map of_nat [0..<16]" "map of_nat [0..<8]" demo_mem]
      demo_ok demo_accepted demo_distinct demo_buffers sl by auto
  have "mem_read um' 48 8 = take 8 (drop 8 (map of_nat [0..<16])) \<and> perf_map v 37 = Some (5, 7)"
    using del i f sl unfolding delivered_def
    by (auto simp: demo_arg_def Let_def kept_bytes_def from_chn_def dest!: spec [of _ 3])
  with r show ?thesis by (auto simp: upt_rec)
qed

section \<open>Repeated channels\<close>

text \<open>Where \<open>handleOutputs\<close> starts to read for a channel: at the data of the last argument that names it.\<close>

definition recorded_start :: "transaction \<Rightarrow> test_harness_args list \<Rightarrow> test_harness_args \<Rightarrow> nat" where
  "recorded_start t args a =
     dir_units (from_dir t) (unat (mMemWidth t)) (take (last_named args (idx a)) args) * unat (mMemWidth t)"

lemma out_start_recorded:
  assumes ok: "config_ok t" and fit: "fits (unat (mMemWidth t)) args"
    and rd: "inputs_ready t args u" and lay: "func_layout um u args" and a: "a \<in> set args" "from_dir t (idx a)"
  shows "out_start (received img perf u) a = recorded_start t args a"
proof -
  let ?i = "last_named args (idx a)"
  have p: "tr_num_channels u = tr_num_channels t" "mMemWidth u = mMemWidth t" using rd by (simp_all add: inputs_ready_def)
  have d: "from_dir u = from_dir t" by (simp add: from_dir_def p)
  have c: "from_chn (args ! ?i) = from_chn a" using last_named_nth(2) [OF a(1)] by (simp add: from_chn_def)
  have w: "0 < unat (mMemWidth t)" using ok by (simp add: config_ok_def unat_gt_0)
  have "from_mem_word_offset u ! from_chn (args ! ?i) = of_nat (dir_units (from_dir t) (unat (mMemWidth t)) (take ?i args))"
    using lay a by (simp add: func_layout_def d p c)
  from out_start_func [of u args ?i "from_dir t"] this w fit last_named_nth(1) [OF a(1)] show ?thesis
    by (simp add: p out_start_def received_def recorded_start_def c)
qed

text \<open>An argument whose data ends behind the image.\<close>

lemma handle_output_overread:
  assumes m: "tr_mode t = FUNC_MODE" and nc: "unat (tr_num_channels t) \<le> 36" and a: "from_dir t (idx a)"
    and fo: "length (from_mem_word_offset t) = unat (tr_num_channels t)"
    and over: "length (from_aie_ptr t) < out_start t a + out_bytes t a"
  shows "fst (handle_output a (t, um)) = Inl UndefinedBehaviour"
proof -
  let ?f = "ucast (idx a) - ucast PLIO_01_FROM_AIE :: u32"
  have c: "unat ?f = from_chn a" "from_chn a < unat (tr_num_channels t)" "\<not> to_dir t (idx a)"
    using a unat_channel(2) from_chn_less [OF nc] to_from_disjoint [OF nc] by (auto simp: from_dir_def to_dir_def)
  have "copy_from_aie a ?f (unat (size_in_byte a)) (t, um) = (Inl UndefinedBehaviour, (t, um))"
    using over m c fo by (simp add: copy_from_aie_def vec_get_def vec_slice_def out_start_def out_bytes_def bindM_def ret_def throw_def)
  then show ?thesis
    using a c m by (simp add: handle_output_def Let_def to_dir_def from_dir_def bindM_def thenM_def ret_def)
qed

definition within_image :: "transaction \<Rightarrow> test_harness_args \<Rightarrow> bool" where
  "within_image t a \<longleftrightarrow> (from_dir t (idx a) \<longrightarrow> out_start t a + out_bytes t a \<le> length (from_aie_ptr t))"

lemma handle_outputs_outcome:
  assumes m: "tr_mode t = FUNC_MODE" and s: "out_sized t" and v: "\<forall>a \<in> set as. valid_channel t a"
  shows "fst (each handle_output as (t\<lparr>perf_map := pm\<rparr>, um)) =
    (if \<forall>a \<in> set as. within_image t a then Inr () else Inl UndefinedBehaviour)"
  using v
proof (induction as arbitrary: pm um)
  case (Cons a as)
  let ?u = "t\<lparr>perf_map := pm\<rparr>"
  have fr: "out_start ?u = out_start t" "out_bytes ?u = out_bytes t" "from_dir ?u = from_dir t" "valid_channel ?u = valid_channel t"
    "out_sized ?u = out_sized t"
    by (simp_all add: fun_eq_iff out_start_def out_bytes_def kept_bytes_def slot_bytes_def from_dir_def valid_channel_def
        out_sized_def perf_config_ok_def config_ok_def)
  show ?case
  proof (cases "within_image t a")
    case True
    have "handle_output a (?u, um) = (Inr (), (?u\<lparr>perf_map := pm(idx a \<mapsto> perf_entry ?u a)\<rparr>,
        if from_dir t (idx a) then mem_write um (data a) (out_slice ?u a) else um))"
      using handle_output_run [of ?u a um] s Cons.prems True unfolding fr by (simp add: within_image_def)
    with Cons True show ?thesis by (simp add: thenM_Inr)
  next
    case False
    then have "fst (handle_output a (?u, um)) = Inl UndefinedBehaviour"
      using handle_output_overread [of ?u a um] m s unfolding fr by (simp add: within_image_def out_sized_def)
    then have "fst (thenM (handle_output a) (each handle_output as) (?u, um)) = Inl UndefinedBehaviour"
      by (cases "handle_output a (?u, um)") (simp add: thenM_def bindM_def)
    with False show ?thesis by simp
  qed
qed (simp add: ret_def)

text \<open>C6: channels that are named more than once. \<open>handleInputs\<close> accepts them, but only the offset of the last argument for a
  channel from the AI Engine is recorded, and \<open>handleOutputs\<close> reads for every argument of the channel from there. On an
  image of the size the transaction asked for, it reads past the end, which is undefined, exactly when some argument is
  longer than what is left of the image there; otherwise it succeeds, as it always does when no
  channel is named twice.\<close>

theorem repeated_channel_overread:
  assumes "config_ok t" and "tr_mode t = FUNC_MODE" and "\<forall>a \<in> set args. accepted t a" and "\<forall>a \<in> set args. repetition a = 1"
    and "fits (unat (mMemWidth t)) args"
    and "length img = dir_units (from_dir t) (unat (mMemWidth t)) args * unat (mMemWidth t)"
    and "length perf = 4 * unat (tr_num_channels t)"
  defines "stays \<equiv> \<lambda>a. from_dir t (idx a) \<longrightarrow> recorded_start t args a + unat (size_in_byte a) \<le> length img"
  shows "\<exists>u. handleInputs um args t = (Inr (), u) \<and> status u = TRANSACTION_READY \<and>
    fst (handleOutputs (received img perf u, um')) = (if \<forall>a \<in> set args. stays a then Inr () else Inl UndefinedBehaviour) \<and>
    (distinct (map idx args) \<longrightarrow> (\<forall>a \<in> set args. stays a))"
proof -
  obtain u where u: "handleInputs um args t = (Inr (), u)" "inputs_ready t args u" "func_layout um u args"
    using handleInputs_func_run [OF assms(1-5), of um] by blast
  let ?r = "received img perf u"
  have p: "args_rec ?r = args" "tr_mode ?r = FUNC_MODE" "from_aie_ptr ?r = img" "tr_num_channels ?r = tr_num_channels t" "status u = TRANSACTION_READY"
    using u(2) assms(2) by (simp_all add: received_def inputs_ready_def)
  have d: "from_dir ?r = from_dir t" by (simp add: from_dir_def p)
  have nc: "unat (tr_num_channels t) \<le> 36" and w: "0 < unat (mMemWidth t)" using assms(1) by (simp_all add: config_ok_def unat_gt_0)
  have s: "out_sized ?r" using u(2) assms(2,7) nc by (simp add: out_sized_def received_def inputs_ready_def)
  have v: "\<forall>a \<in> set args. valid_channel ?r a" using assms(3) by (simp add: valid_channel_def accepted_def p)
  have i: "within_image ?r a = stays a" if "a \<in> set args" for a
    using out_start_recorded [OF assms(1,5) u(2,3) that, of img perf] p by (cases "from_dir t (idx a)")
      (simp_all add: within_image_def stays_def out_bytes_def d)
  have "fst (each handle_output args (?r, um')) = (if \<forall>a \<in> set args. stays a then Inr () else Inl UndefinedBehaviour)"
    using handle_outputs_outcome [OF p(2) s v, of "perf_map ?r" um'] i by simp
  then have "fst (handleOutputs (?r, um')) = (if \<forall>a \<in> set args. stays a then Inr () else Inl UndefinedBehaviour)"
    by (cases "each handle_output args (?r, um')") (auto simp: handleOutputs_def p thenM_def bindM_def modifyM_def)
  moreover have "stays a" if h: "distinct (map idx args)" "a \<in> set args" for a
  proof -
    obtain i where "i < length args" "a = args ! i" using h(2) by (auto simp: in_set_conv_nth)
    then show ?thesis using earlier_region [OF w, of i args "from_dir t"] h(1) assms(6) by (simp add: stays_def recorded_start_def)
  qed
  ultimately show ?thesis using u(1) p(5) by blast
qed

theorem repeated_channel_overread_witness:
  "\<exists>u. handleInputs demo_mem [demo_arg 36 8 0, demo_arg 36 2 8] (demo_tr FUNC_MODE) = (Inr (), u) \<and>
     fst (handleOutputs (received (replicate 12 0) (replicate 8 0) u, demo_mem)) = Inl UndefinedBehaviour"
proof -
  let ?args = "[demo_arg 36 8 0, demo_arg 36 2 8]" and ?t = "demo_tr FUNC_MODE"
  have f: "from_dir ?t 36" by (simp add: from_dir_def is_from_aie_iff)
  have "dir_units (from_dir ?t) 4 ?args * 4 = 12" using f by (simp add: dir_units_def units_def demo_arg_def)
  moreover have "recorded_start ?t ?args (demo_arg 36 8 0) = 8"
    using f by (simp add: recorded_start_def last_named_def dir_units_def units_def demo_arg_def)
  ultimately show ?thesis
    using repeated_channel_overread [of ?t ?args "replicate 12 0" "replicate 8 0" demo_mem demo_mem] f
    by (auto simp: demo_ok demo_arg_def accepted_def valid_channel_def aligned_def fits_def is_from_aie_iff)
qed

section \<open>The timeout\<close>

lemma keeps_write_channel_cfg [keeps]:
  "keeps (\<lambda>s. mTimeOut s = k) (write_channel_cfg b c a off)"
  unfolding write_channel_cfg_def write_cfg_def Let_def seqM.simps by (intro keeps) simp_all

lemma keeps_timeout_parts [keeps]:
  "keeps (\<lambda>s. mTimeOut s = k) (check_arguments args)"
  "keeps (\<lambda>s. mTimeOut s = k) (write_cfg i v)"
  "keeps (\<lambda>s. mTimeOut s = k) (func_inputs um)"
  "keeps (\<lambda>s. mTimeOut s = k) (perf_inputs um)"
proof -
  show "keeps (\<lambda>s. mTimeOut s = k) (check_arguments args)"
    unfolding check_arguments_def check_argument_def by (intro keeps) simp_all
  show w: "keeps (\<lambda>s. mTimeOut s = k) (write_cfg i v)" for i v
    unfolding write_cfg_def by (intro keeps) simp_all
  show "keeps (\<lambda>s. mTimeOut s = k) (func_inputs um)"
    unfolding func_inputs_def func_total_def func_place_def copy_to_aie_def set_from_offset_def Let_def
    by (intro keeps) simp_all
  show "keeps (\<lambda>s. mTimeOut s = k) (perf_inputs um)"
    unfolding perf_inputs_def perf_place_def copy_to_aie_def set_from_offset_def Let_def
    by (intro keeps) simp_all
qed

text \<open>The timeout given to a new transaction has no effect: the constructor's body resets it, and
  after \<open>handleInputs\<close>, successful or not, it is 0 whatever it was set to before.\<close>

theorem timeout_dropped:
  "getTimeOut (test_harness_transactions tid md nc ws d mw timeout) = 0 \<and>
   getTimeOut (snd (handleInputs um args (setTimeOut timeout t))) = 0"
proof
  show "getTimeOut (test_harness_transactions tid md nc ws d mw timeout) = 0"
    by (simp add: getTimeOut_def test_harness_transactions_def)
  let ?rest = "thenM (check_arguments args) (bindM getM (\<lambda>t. thenM (write_cfg 0 (ucast (tr_mode t)))
      (thenM (if tr_mode t = FUNC_MODE then func_inputs um
              else if tr_mode t = PERF_MODE then perf_inputs um else ret ())
        (modifyM (\<lambda>t. t\<lparr>status := TRANSACTION_READY\<rparr>)))))"
  have "keeps (\<lambda>s. mTimeOut s = 0) ?rest" by (intro keeps) simp_all
  then have "mTimeOut (snd (?rest (reset (setTimeOut timeout t)))) = 0" by (rule keepsD) simp
  then show "getTimeOut (snd (handleInputs um args (setTimeOut timeout t))) = 0"
    by (simp add: getTimeOut_def handleInputs_def)
qed

section \<open>Queries\<close>

text \<open>C8: the delay between two channels. A finished transaction answers exactly for two existing
  channels, with the signed difference of their first-data cycles, a channel without a record
  counting as cycle 0; everything else is refused with \<open>INVALID_ARGUMENTS\<close>, and the status never
  changes.\<close>

definition first_cycle :: "transaction \<Rightarrow> channel_index \<Rightarrow> u64" where
  "first_cycle t ch = (case perf_map t ch of Some p \<Rightarrow> fst p | None \<Rightarrow> 0)"

definition channel_exists :: "transaction \<Rightarrow> channel_index \<Rightarrow> bool" where
  "channel_exists t ch \<longleftrightarrow> to_dir t ch \<or> from_dir t ch"

lemma perf_lookup_run:
  "\<exists>u. perf_lookup ch t = (Inr (case perf_map t ch of Some p \<Rightarrow> p | None \<Rightarrow> (0, 0)), u) \<and>
     first_cycle u = first_cycle t \<and> status u = status t"
  by (cases "perf_map t ch") (auto simp: perf_lookup_def first_cycle_def fun_eq_iff)

theorem delay_between:
  assumes "unat (tr_num_channels t) \<le> 36"
  shows "fst (getDelayBwtween c1 c2 t) =
      (if status t = TRANSACTION_DONE \<and> channel_exists t c1 \<and> channel_exists t c2
       then Inr (sint (first_cycle t c2 - first_cycle t c1))
       else Inl (TestHarnessException INVALID_ARGUMENTS)) \<and>
    status (snd (getDelayBwtween c1 c2 t)) = status t"
proof -
  have n: "unat ((36 :: u32) + tr_num_channels t) = 36 + unat (tr_num_channels t)"
    using assms by (subst unat_add_small) simp_all
  have ok: "channel_exists t c \<longleftrightarrow> \<not> (ucast PLIO_01_FROM_AIE + tr_num_channels t \<le> (ucast c :: u32)) \<and>
      \<not> (ucast PLIO_01_TO_AIE + tr_num_channels t \<le> (ucast c :: u32) \<and> c < PLIO_01_FROM_AIE)" for c
    using n assms
    by (auto simp: channel_exists_def to_dir_def from_dir_def is_to_aie_iff is_from_aie_iff
        PLIO_01_TO_AIE_def PLIO_01_FROM_AIE_def word_le_nat_alt word_less_nat_alt)
  obtain u where u: "perf_lookup c2 t = (Inr (case perf_map t c2 of Some p \<Rightarrow> p | None \<Rightarrow> (0, 0)), u)"
    "first_cycle u = first_cycle t" "status u = status t" using perf_lookup_run by blast
  obtain v where v: "perf_lookup c1 u = (Inr (case perf_map u c1 of Some p \<Rightarrow> p | None \<Rightarrow> (0, 0)), v)"
    "status v = status u" using perf_lookup_run by blast
  have f: "fst (case perf_map s c of Some p \<Rightarrow> p | None \<Rightarrow> (0, 0)) = first_cycle s c" for s c
    by (simp add: first_cycle_def split: option.splits)
  have "bindM (perf_lookup c2) (\<lambda>p. bindM (perf_lookup c1) (\<lambda>q. ret (sint (fst p - fst q)))) t =
      (Inr (sint (first_cycle t c2 - first_cycle t c1)), v)"
    using u(1) v(1) by (simp add: bindM_Inr f u(2))
  with u(3) v(2) show ?thesis
    unfolding getDelayBwtween_def Let_def by (simp add: ok) (simp add: PLIO_01_TO_AIE_def)
qed

theorem delay_between_witness:
  "fst (getDelayBwtween 36 1 ((demo_tr PERF_MODE)\<lparr>status := TRANSACTION_DONE,
     perf_map := [36 \<mapsto> (9, 20), 1 \<mapsto> (4, 11)]\<rparr>)) = Inr (- 5)"
  using delay_between [of "(demo_tr PERF_MODE)\<lparr>status := TRANSACTION_DONE,
     perf_map := [36 \<mapsto> (9, 20), 1 \<mapsto> (4, 11)]\<rparr>" 36 1]
  by (simp add: channel_exists_def to_dir_def from_dir_def is_to_aie_iff is_from_aie_iff first_cycle_def)

end
