(* ===== verification/HLS_Words.thy ===== *)
theory HLS_Words
  imports Harness_Prelude
begin

unbundle bit_operations_syntax

text \<open>
  The part of the HLS library the kernel is written in that carries its data: bit ranges of
  \<open>ap_uint\<close> (\<open>x.range(hi, lo)\<close> read and written), the packing of \<open>MEM_RATIO\<close> stream words into a
  memory word built from them, and the elements of an AXI stream. An \<open>ap_uint<W>\<close> is a word of \<open>W\<close> bits, a
  \<open>hls::stream\<close> is the list of the elements in it, first in first out.
\<close>

section \<open>Bit ranges\<close>

definition ap_range :: "'m::len word \<Rightarrow> nat \<Rightarrow> nat \<Rightarrow> 's::len word" where
  "ap_range x hi lo = ucast (take_bit (hi + 1 - lo) (drop_bit lo x))"

definition ap_set_range :: "'m::len word \<Rightarrow> nat \<Rightarrow> nat \<Rightarrow> 's::len word \<Rightarrow> 'm word" where
  "ap_set_range x hi lo v =
     (x AND NOT (push_bit lo (mask (hi + 1 - lo)))) OR push_bit lo (take_bit (hi + 1 - lo) (ucast v))"

lemma bit_ap_range:
  "bit (ap_range (x :: 'm::len word) hi lo :: 's::len word) i \<longleftrightarrow>
     i < LENGTH('s) \<and> i < hi + 1 - lo \<and> bit x (lo + i)"
  by (auto simp: ap_range_def bit_simps dest: bit_imp_le_length)

lemma bit_ap_set_range:
  "bit (ap_set_range (x :: 'm::len word) hi lo (v :: 's::len word)) i \<longleftrightarrow>
     i < LENGTH('m) \<and>
     (if lo \<le> i \<and> i < hi + 1 then bit v (i - lo) else bit x i)"
  by (auto simp: ap_set_range_def bit_simps dest: bit_imp_le_length)

section \<open>Stream words in a memory word\<close>

definition MEM_RATIO :: "'m::len itself \<Rightarrow> 's::len itself \<Rightarrow> nat" where
  "MEM_RATIO M S = LENGTH('m) div LENGTH('s)"

text \<open>\<open>data.range((j + 1) * STREAM_WIDTH - 1, j * STREAM_WIDTH)\<close>, read and written.\<close>

definition lane :: "'m::len word \<Rightarrow> nat \<Rightarrow> 's::len word" where
  "lane x j = ap_range x ((j + 1) * LENGTH('s) - 1) (j * LENGTH('s))"

definition set_lane :: "'m::len word \<Rightarrow> nat \<Rightarrow> 's::len word \<Rightarrow> 'm word" where
  "set_lane x j v = ap_set_range x ((j + 1) * LENGTH('s) - 1) (j * LENGTH('s)) v"

text \<open>The static assertions of the template classes.\<close>

definition widths_ok :: "'m::len itself \<Rightarrow> 's::len itself \<Rightarrow> bool" where
  "widths_ok M S \<longleftrightarrow> LENGTH('m) mod LENGTH('s) = 0 \<and> MEM_RATIO M S \<le> 16"

lemma lane_bound:
  "widths_ok TYPE('m::len) TYPE('s::len) \<Longrightarrow> j < MEM_RATIO TYPE('m) TYPE('s) \<Longrightarrow> i < LENGTH('s) \<Longrightarrow>
   j * LENGTH('s) + i < LENGTH('m)"
proof -
  assume w: "widths_ok TYPE('m) TYPE('s)" and j: "j < MEM_RATIO TYPE('m) TYPE('s)" and i: "i < LENGTH('s)"
  have "Suc j * LENGTH('s) \<le> MEM_RATIO TYPE('m) TYPE('s) * LENGTH('s)" using j by (intro mult_le_mono1) simp
  also have "\<dots> \<le> LENGTH('m)" by (simp add: MEM_RATIO_def)
  finally show ?thesis using i by simp
qed

lemma bit_lane:
  "bit (lane (x :: 'm::len word) j :: 's::len word) i \<longleftrightarrow> i < LENGTH('s) \<and> bit x (j * LENGTH('s) + i)"
proof -
  have "(j + 1) * LENGTH('s) - 1 + 1 - j * LENGTH('s) = LENGTH('s)" using len_gt_0 [where 'a = 's] by simp
  then show ?thesis by (simp add: lane_def bit_ap_range)
qed

lemma lane_interval:
  assumes "i < LENGTH('s::len)"
  shows "j' * LENGTH('s) \<le> j * LENGTH('s) + i \<and> j * LENGTH('s) + i < (j' + 1) * LENGTH('s) - 1 + 1
    \<longleftrightarrow> j = j'"
proof
  assume a: "j' * LENGTH('s) \<le> j * LENGTH('s) + i \<and> j * LENGTH('s) + i < (j' + 1) * LENGTH('s) - 1 + 1"
  have "(j * LENGTH('s) + i) div LENGTH('s) = j" using assms by (simp add: div_mult2_eq)
  moreover have "(j * LENGTH('s) + i) div LENGTH('s) = j'"
    using a len_gt_0 [where 'a = 's] by (intro div_nat_eqI) (auto simp: algebra_simps)
  ultimately show "j = j'" by simp
qed (use assms len_gt_0 [where 'a = 's] in auto)

lemma lane_set_lane:
  assumes "widths_ok TYPE('m::len) TYPE('s::len)" "j < MEM_RATIO TYPE('m) TYPE('s)"
  shows "(lane (set_lane (x :: 'm word) j' (v :: 's word)) j :: 's word) = (if j = j' then v else lane x j)"
proof (rule bit_word_eqI)
  fix i assume i: "i < LENGTH('s)"
  have b: "j * LENGTH('s) + i < LENGTH('m)" using lane_bound [OF assms i] .
  show "bit (lane (set_lane x j' v) j :: 's word) i = bit (if j = j' then v else lane x j) i"
    using i b lane_interval [OF i, of j' j]
    by (auto simp: bit_lane set_lane_def bit_ap_set_range)
qed

lemma word_eq_lanesI:
  assumes w: "widths_ok TYPE('m::len) TYPE('s::len)"
    and l: "\<And>j. j < MEM_RATIO TYPE('m) TYPE('s) \<Longrightarrow> (lane (x :: 'm word) j :: 's word) = lane y j"
  shows "x = y"
proof (rule bit_word_eqI)
  fix i assume i: "i < LENGTH('m)"
  let ?j = "i div LENGTH('s)" and ?k = "i mod LENGTH('s)"
  have "LENGTH('m) = MEM_RATIO TYPE('m) TYPE('s) * LENGTH('s)"
    using w by (auto simp: widths_ok_def MEM_RATIO_def)
  then have "?j < MEM_RATIO TYPE('m) TYPE('s)" using i by (simp add: less_mult_imp_div_less)
  then have "bit (lane x ?j :: 's word) ?k = bit (lane y ?j :: 's word) ?k" by (simp add: l)
  then show "bit x i = bit y i" by (simp add: bit_lane)
qed

text \<open>The inner loops of the kernel that build a memory word out of \<open>k\<close> stream words.\<close>

fun pack_lanes :: "nat \<Rightarrow> 's::len word list \<Rightarrow> 'm::len word \<Rightarrow> 'm word" where
  "pack_lanes j [] x = x"
| "pack_lanes j (v # vs) x = pack_lanes (Suc j) vs (set_lane x j v)"

lemma lane_zero [simp]: "lane 0 j = 0"
  by (rule bit_word_eqI) (simp add: bit_lane)

lemma lane_pack_lanes:
  assumes "widths_ok TYPE('m::len) TYPE('s::len)" "i < MEM_RATIO TYPE('m) TYPE('s)"
  shows "lane (pack_lanes j (vs :: 's word list) (x :: 'm word)) i =
    (if j \<le> i \<and> i < j + length vs then vs ! (i - j) else lane x i)"
  using assms
proof (induction vs arbitrary: j x)
  case Nil
  show ?case by auto
next
  case (Cons v vs)
  show ?case
    using Cons.IH [of "Suc j" "set_lane x j v"] Cons.prems
    by (auto simp: lane_set_lane nth_Cons' Suc_diff_le)
qed

text \<open>A list of memory words as the list of stream words in it.\<close>

definition lanes :: "nat \<Rightarrow> 'm::len word \<Rightarrow> 's::len word list" where
  "lanes k x = map (lane x) [0..<k]"

definition stream_words :: "'m::len word list \<Rightarrow> 's::len word list" where
  "stream_words ms = concat (map (lanes (MEM_RATIO TYPE('m) TYPE('s))) ms)"

lemma length_lanes [simp]: "length (lanes k x) = k"
  by (simp add: lanes_def)

lemma stream_words_simps [simp]:
  "stream_words [] = []"
  "stream_words (m # ms) = lanes (MEM_RATIO TYPE('m) TYPE('s)) (m :: 'm::len word) @ (stream_words ms :: 's::len word list)"
  by (simp_all add: stream_words_def)

lemma stream_words_append:
  "stream_words (ms @ ns) = stream_words ms @ stream_words ns"
  by (simp add: stream_words_def)

lemma length_stream_words [simp]:
  "length (stream_words (ms :: 'm::len word list) :: 's::len word list) =
     length ms * MEM_RATIO TYPE('m) TYPE('s)"
  by (induction ms) simp_all

lemma take_lanes: "k \<le> n \<Longrightarrow> take k (lanes n x) = lanes k x"
  by (simp add: lanes_def take_map)

lemma lanes_pack_lanes:
  assumes "widths_ok TYPE('m::len) TYPE('s::len)" "length vs \<le> MEM_RATIO TYPE('m) TYPE('s)"
  shows "(lanes (length vs) (pack_lanes 0 (vs :: 's word list) (x :: 'm word)) :: 's word list) = vs"
  using assms by (intro nth_equalityI) (auto simp: lanes_def lane_pack_lanes)

section \<open>AXI stream elements\<close>

text \<open>\<open>ap_axiu<STREAM_WIDTH, 0, 0, 0>\<close>: data, one \<open>keep\<close> bit per byte, and \<open>last\<close>.\<close>

record 'w ap_axiu =
  axi_data :: 'w
  axi_keep :: "bool list"
  axi_last :: bool

text \<open>\<open>tmp.keep = -1; tmp.last = 0; tmp.data = v;\<close>\<close>

definition axi_word :: "'s::len word \<Rightarrow> 's word ap_axiu" where
  "axi_word v = \<lparr>axi_data = v, axi_keep = replicate (LENGTH('s) div 8) True, axi_last = False\<rparr>"

lemma axi_data_word [simp]: "axi_data (axi_word v) = v"
  by (simp add: axi_word_def)

end
