(* ===== verification/Buff_Channel.thy ===== *)
theory Buff_Channel
  imports HLS_Words "HOL-Library.Monad_Syntax"
begin

unbundle bit_operations_syntax

text \<open>
  \<^verbatim>\<open>buff_channel\<close> of \<^verbatim>\<open>include/pl/test_harness.hpp\<close>: the buffer, the feeder or collector and the cycle
  counter of one channel. The template parameters are the argument \<open>D\<close> (\<open>URAM_DEPTH\<close>) and the lengths
  of the word types \<open>'s\<close> (\<open>STREAM_WIDTH\<close>) and \<open>'m\<close> (\<open>MEM_WIDTH\<close>).

  A process of the dataflow region reads its input streams and leaves a trace of what it does; a read
  from a stream that stays empty never returns, and neither does the process: \<open>None\<close>. An access outside
  the buffer or the memory is \<open>None\<close> as well.
\<close>

section \<open>State\<close>

datatype PL_TestMode = PL_FUNC_MODE | PL_PERF_MODE

record 'w buff_channel =
  mode :: PL_TestMode
  numFrames :: u32
  numRep :: u32
  offsets :: u32
  delays :: u64
  firstcc :: u64
  lastcc :: u64
  buff :: "'w list"

section \<open>Loading and storing the buffer\<close>

definition load_lanes :: "nat \<Rightarrow> nat \<Rightarrow> 'm::len word \<Rightarrow> 's::len word list \<Rightarrow> 's word list option" where
  "load_lanes base k data b = for_loop 0 k (\<lambda>j b. vec_set (base + j) (lane data j) b) b"

definition load_words :: "nat \<Rightarrow> u32 \<Rightarrow> 'm::len word list \<Rightarrow> 's::len word list \<Rightarrow> 's word list option" where
  "load_words n offs source b = for_loop 0 n (\<lambda>i b. do {
     data \<leftarrow> vec_get (unat (of_nat i + offs)) source;
     load_lanes (i * MEM_RATIO TYPE('m) TYPE('s)) (MEM_RATIO TYPE('m) TYPE('s)) data b }) b"

definition load_buff :: "nat \<Rightarrow> 'm::len word list \<Rightarrow> 's::len word buff_channel \<Rightarrow> 's word buff_channel option" where
  "load_buff D source ch =
     (let R = MEM_RATIO TYPE('m) TYPE('s) in
      if mode ch = PL_PERF_MODE then
        if unat (numFrames ch) > D then do {
          b \<leftarrow> load_words (D div R) (offsets ch) source (buff ch);
          Some (ch\<lparr>buff := b\<rparr>) }
        else do {
          let numMemFrames = unat (numFrames ch) div R;
          let numMemRes = unat (numFrames ch) mod R;
          b \<leftarrow> load_words numMemFrames (offsets ch) source (buff ch);
          if numMemRes \<noteq> 0 then do {
            data \<leftarrow> vec_get (unat (of_nat numMemFrames + offsets ch)) source;
            b \<leftarrow> load_lanes (numMemFrames * R) numMemRes data b;
            Some (ch\<lparr>buff := b\<rparr>) }
          else Some (ch\<lparr>buff := b\<rparr>) }
      else Some ch)"

definition store_lanes :: "nat \<Rightarrow> nat \<Rightarrow> 's::len word list \<Rightarrow> 'm::len word option" where
  "store_lanes base k b = for_loop 0 k (\<lambda>j data. do {
     v \<leftarrow> vec_get (base + j) b; Some (set_lane data j v) }) 0"

definition store_words :: "nat \<Rightarrow> u32 \<Rightarrow> 's::len word list \<Rightarrow> 'm::len word list \<Rightarrow> 'm word list option" where
  "store_words n offs b dst = for_loop 0 n (\<lambda>i dst. do {
     data \<leftarrow> store_lanes (i * MEM_RATIO TYPE('m) TYPE('s)) (MEM_RATIO TYPE('m) TYPE('s)) b;
     vec_set (unat (of_nat i + offs)) data dst }) dst"

definition store_buff :: "nat \<Rightarrow> 's::len word buff_channel \<Rightarrow> 'm::len word list \<Rightarrow> 'm word list option" where
  "store_buff D ch dst =
     (let R = MEM_RATIO TYPE('m) TYPE('s) in
      if mode ch = PL_PERF_MODE then
        if unat (numFrames ch) > D then store_words (D div R) (offsets ch) (buff ch) dst
        else do {
          let numMemFrames = unat (numFrames ch) div R;
          let numMemRes = unat (numFrames ch) mod R;
          dst \<leftarrow> store_words numMemFrames (offsets ch) (buff ch) dst;
          if numMemRes \<noteq> 0 then do {
            data \<leftarrow> store_lanes (numMemFrames * R) numMemRes (buff ch);
            vec_set (unat (of_nat numMemFrames + offsets ch)) data dst }
          else Some dst }
      else Some dst)"

section \<open>The feeder\<close>

text \<open>What a process does, in order: the cycles it waits, the triggers it writes for the counter, the
  words it sends to and receives from the AI Engine, and the memory words it passes on.\<close>

datatype ('s, 'm) action =
    Delay nat
  | Trigger
  | Send "'s ap_axiu"
  | Receive "'s ap_axiu"
  | MemWrite 'm

text \<open>\<open>uint64_t count = delays; while (count != 0) count--;\<close>, as the number of its iterations.\<close>

function wait_loop :: "u64 \<Rightarrow> nat" where
  "wait_loop count = (if count \<noteq> 0 then Suc (wait_loop (count - 1)) else 0)"
  by auto

termination
proof (relation "measure unat")
  fix count :: u64 assume "count \<noteq> 0"
  then show "(count - 1, count) \<in> measure unat"
    by (simp add: unat_sub_small unat_gt_0 Suc_leI)
qed simp

declare wait_loop.simps [simp del]

text \<open>The pattern a wrap-around of the buffer is marked with: lane \<open>k\<close> of 16 bits holds \<open>div << k\<close>.\<close>

definition perf_pattern :: "16 word \<Rightarrow> 's::len word" where
  "perf_pattern d = fold (\<lambda>k v. ap_set_range v ((k + 1) * 16 - 1) (k * 16) (push_bit k d))
     [0..<LENGTH('s) div 16] 0"

definition perf_frame :: "nat \<Rightarrow> 's::len word list \<Rightarrow> u32 \<Rightarrow> 's word option" where
  "perf_frame D b i = do {
     tmp_val \<leftarrow> vec_get (unat (i mod of_nat D)) b;
     Some (tmp_val XOR perf_pattern (ucast (i div of_nat D))) }"

definition send_lanes :: "nat \<Rightarrow> 'm::len word \<Rightarrow> ('s::len word, 'm word) action list" where
  "send_lanes k data = map (\<lambda>j. Send (axi_word (lane data j))) [0..<k]"

definition feed :: "nat \<Rightarrow> 's::len word buff_channel \<Rightarrow> 'm::len word list \<Rightarrow>
    ('m word list \<times> ('s word, 'm word) action list) option" where
  "feed D ch memStr =
     (let R = MEM_RATIO TYPE('m) TYPE('s);
          start = [Delay (wait_loop (delays ch)), Trigger] in
      case mode ch of
        PL_FUNC_MODE \<Rightarrow> do {
          let numStreamReads = unat (numFrames ch) div R;
          let numResiduals = unat (numFrames ch) mod R;
          (memStr, acts) \<leftarrow> for_loop 0 numStreamReads (\<lambda>i (memStr, acts).
            case memStr of [] \<Rightarrow> None | data # memStr \<Rightarrow> Some (memStr, acts @ send_lanes R data))
            (memStr, start);
          (memStr, acts) \<leftarrow>
            (if numResiduals \<noteq> 0 then
               (case memStr of [] \<Rightarrow> None | data # memStr \<Rightarrow> Some (memStr, acts @ send_lanes numResiduals data))
             else Some (memStr, acts));
          Some (memStr, acts @ [Trigger]) }
      | PL_PERF_MODE \<Rightarrow> do {
          acts \<leftarrow> for_loop 0 (unat (numRep ch)) (\<lambda>_.
            for_loop 0 (unat (numFrames ch)) (\<lambda>k acts. do {
              let i = numFrames ch - of_nat k;
              v \<leftarrow> perf_frame D (buff ch) (numFrames ch - i);
              Some (acts @ [Send (axi_word v)]) })) start;
          Some (memStr, acts @ [Trigger]) })"

section \<open>The collector\<close>

text \<open>One blocking read, and the first trigger when it is the first word.\<close>

definition receive ::
  "'s ap_axiu list \<times> bool \<times> ('s, 'm) action list \<Rightarrow>
    ('s \<times> 's ap_axiu list \<times> bool \<times> ('s, 'm) action list) option" where
  "receive st = (case st of (from_strm, firstData, acts) \<Rightarrow>
     case from_strm of
       [] \<Rightarrow> None
     | tmp # from_strm \<Rightarrow>
         Some (axi_data tmp, from_strm, False, acts @ Receive tmp # (if firstData then [Trigger] else [])))"

definition receive_lanes ::
  "nat \<Rightarrow> 's::len word ap_axiu list \<times> bool \<times> ('s word, 'm::len word) action list \<Rightarrow>
    ('s word ap_axiu list \<times> bool \<times> ('s word, 'm word) action list) option" where
  "receive_lanes k st = do {
     (data, st) \<leftarrow> for_loop 0 k (\<lambda>j (data, st). do {
       (v, st) \<leftarrow> receive st;
       Some (set_lane data j v, st) }) (0 :: 'm word, st);
     let (from_strm, firstData, acts) = st;
     Some (from_strm, firstData, acts @ [MemWrite data]) }"

definition get :: "nat \<Rightarrow> 's::len word buff_channel \<Rightarrow> 's word ap_axiu list \<Rightarrow>
    ('s word buff_channel \<times> 's word ap_axiu list \<times> ('s word, 'm::len word) action list) option" where
  "get D ch from_strm =
     (let R = MEM_RATIO TYPE('m) TYPE('s);
          start = [Delay (wait_loop (delays ch))];
          finish = (\<lambda>ch (from_strm, firstData, acts).
            Some (ch, from_strm, acts @ (if firstData then [Trigger] else []) @ [Trigger])) in
      case mode ch of
        PL_FUNC_MODE \<Rightarrow> do {
          let numStreamReads = unat (numFrames ch) div R;
          let numResiduals = unat (numFrames ch) mod R;
          st \<leftarrow> for_loop 0 numStreamReads (\<lambda>i. receive_lanes R) (from_strm, True, start);
          st \<leftarrow> (if numResiduals \<noteq> 0 then receive_lanes numResiduals st else Some st);
          finish ch st }
      | PL_PERF_MODE \<Rightarrow> do {
          (b, st) \<leftarrow> for_loop 0 (unat (numRep ch)) (\<lambda>_.
            for_loop 0 (unat (numFrames ch)) (\<lambda>k (b, st). do {
              let i = numFrames ch - of_nat k;
              (v, st) \<leftarrow> receive st;
              b \<leftarrow> vec_set (unat ((numFrames ch - i) mod of_nat D)) v b;
              Some (b, st) })) (buff ch, from_strm, True, start);
          finish (ch\<lparr>buff := b\<rparr>) st })"

section \<open>The cycle counter\<close>

datatype counter_state = START | FIRST | LAST

text \<open>
  \<open>avail c\<close> is the number of triggers written to the trigger stream before the counter looks at it in
  cycle \<open>c\<close>, \<open>taken\<close> the number it has read. The loop ends only in state \<open>LAST\<close>.
\<close>

partial_function (option) counter ::
  "(nat \<Rightarrow> nat) \<Rightarrow> nat \<Rightarrow> nat \<Rightarrow> counter_state \<Rightarrow> u64 \<Rightarrow> u64 \<Rightarrow> u64 \<Rightarrow> (u64 \<times> u64) option" where
  "counter avail c taken st count f l =
     (let isEmpty = avail c \<le> taken in
      case st of
        START \<Rightarrow>
          if \<not> isEmpty then counter avail (Suc c) (Suc taken) FIRST (count + 1) count l
          else counter avail (Suc c) taken START (count + 1) f l
      | FIRST \<Rightarrow>
          if \<not> isEmpty then counter avail (Suc c) (Suc taken) LAST (count + 1) f count
          else counter avail (Suc c) taken FIRST (count + 1) f l
      | LAST \<Rightarrow> Some (f, l))"

text \<open>\<open>sched k\<close> is the cycle from which the counter sees trigger \<open>k\<close>.\<close>

definition avail_of :: "(nat \<Rightarrow> nat) \<Rightarrow> ('s, 'm) action list \<Rightarrow> nat \<Rightarrow> nat" where
  "avail_of sched acts c =
     length (filter (\<lambda>k. sched k \<le> c) [0..<length (filter (\<lambda>a. a = Trigger) acts)])"

definition run_counter :: "(nat \<Rightarrow> nat) \<Rightarrow> ('s, 'm) action list \<Rightarrow> 'w buff_channel \<Rightarrow> 'w buff_channel option" where
  "run_counter sched acts ch = do {
     (f, l) \<leftarrow> counter (avail_of sched acts) 0 0 START 0 (firstcc ch) (lastcc ch);
     Some (ch\<lparr>firstcc := f, lastcc := l\<rparr>) }"

definition load_stream :: "nat \<Rightarrow> (nat \<Rightarrow> nat) \<Rightarrow> 's::len word buff_channel \<Rightarrow> 'm::len word list \<Rightarrow>
    ('s word buff_channel \<times> 'm word list \<times> ('s word, 'm word) action list) option" where
  "load_stream D sched ch memStr = do {
     (memStr, acts) \<leftarrow> feed D ch memStr;
     ch \<leftarrow> run_counter sched acts ch;
     Some (ch, memStr, acts) }"

definition store_stream :: "nat \<Rightarrow> (nat \<Rightarrow> nat) \<Rightarrow> 's::len word buff_channel \<Rightarrow> 's word ap_axiu list \<Rightarrow>
    ('s word buff_channel \<times> 's word ap_axiu list \<times> ('s word, 'm::len word) action list) option" where
  "store_stream D sched ch from_strm = do {
     (ch, from_strm, acts) \<leftarrow> get D ch from_strm;
     ch \<leftarrow> run_counter sched acts ch;
     Some (ch, from_strm, acts) }"

end
