(* ===== verification/Buff_Feed.thy ===== *)
theory Buff_Feed
  imports Buff_Channel
begin

text \<open>The feeder of a channel: what it sends in both modes, and the cycle counter.\<close>

section \<open>Waiting\<close>

lemma wait_loop_unat: "wait_loop count = unat count"
proof (induction count rule: wait_loop.induct)
  case (1 count)
  show ?case
  proof (cases "count = 0")
    case True
    then show ?thesis by (simp add: wait_loop.simps [of 0])
  next
    case False
    then have "unat (count - 1) = unat count - 1" "0 < unat count"
      by (simp_all add: unat_sub_small unat_gt_0 Suc_leI)
    with 1 False show ?thesis by (simp add: wait_loop.simps [of count])
  qed
qed

section \<open>Reading memory words\<close>

lemma for_loop_read:
  "for_loop i n (\<lambda>i (ms, acts). case ms of [] \<Rightarrow> None | x # ms \<Rightarrow> Some (ms, acts @ f x)) (ms, acts) =
    (if n \<le> length ms then Some (drop n ms, acts @ concat (map f (take n ms))) else None)"
  by (induction n arbitrary: i ms acts) (auto split: list.splits)

lemma send_lanes_words:
  "send_lanes k x = map (\<lambda>v. Send (axi_word v)) (lanes k x)"
  by (simp add: send_lanes_def lanes_def)

lemma concat_send_lanes:
  "concat (map (send_lanes (MEM_RATIO TYPE('m) TYPE('s))) (ms :: 'm::len word list)) =
     map (\<lambda>v. Send (axi_word v)) (stream_words ms :: 's::len word list)"
  by (induction ms) (simp_all add: send_lanes_words)

text \<open>The number of memory words that hold \<open>n\<close> frames.\<close>

definition mem_frames :: "nat \<Rightarrow> nat \<Rightarrow> nat" where
  "mem_frames R n = n div R + (if n mod R = 0 then 0 else 1)"

lemma mem_frames_ceil: "0 < R \<Longrightarrow> mem_frames R n = (n + R - 1) div R"
proof -
  assume R: "0 < R"
  have n: "n = n div R * R + n mod R" by simp
  show ?thesis
  proof (cases "n mod R = 0")
    case True
    define q where "q = n div R"
    then have q: "n = q * R" using True n by simp
    have "(q * R + (R - 1)) div R = q" using R by (subst div_mult_self3) auto
    moreover have "n + R - 1 = q * R + (R - 1)" using q R by simp
    ultimately show ?thesis using True q R by (simp add: mem_frames_def)
  next
    case False
    have "Suc (n div R) * R = n div R * R + R" by simp
    then have "n + R - 1 = Suc (n div R) * R + (n mod R - 1)" using False R n by linarith
    moreover have "(Suc (n div R) * R + (n mod R - 1)) div R = Suc (n div R)"
      using R False mod_less_divisor [OF R, of n] by (subst div_mult_self3) auto
    ultimately show ?thesis using False by (simp add: mem_frames_def)
  qed
qed

lemma take_append3:
  "length xs = k \<Longrightarrow> k \<le> n \<Longrightarrow> n \<le> k + length ys \<Longrightarrow> take n (xs @ ys @ zs) = xs @ take (n - k) ys"
  by simp

lemma take_stream_words:
  assumes "n div MEM_RATIO TYPE('m) TYPE('s) < length ms" "n mod MEM_RATIO TYPE('m) TYPE('s) = r"
    "0 < MEM_RATIO TYPE('m) TYPE('s)"
  shows "take n (stream_words (ms :: 'm::len word list) :: 's::len word list) =
    stream_words (take (n div MEM_RATIO TYPE('m) TYPE('s)) ms) @
      lanes r (ms ! (n div MEM_RATIO TYPE('m) TYPE('s)))"
proof -
  let ?R = "MEM_RATIO TYPE('m) TYPE('s)" and ?q = "n div MEM_RATIO TYPE('m) TYPE('s)"
  have n: "n = ?q * ?R + r" using assms(2) by (metis div_mult_mod_eq)
  have rR: "r \<le> ?R" using assms(2,3) by (metis mod_less_divisor less_imp_le)
  have ms: "ms = take ?q ms @ ms ! ?q # drop (Suc ?q) ms" using assms(1) by (rule id_take_nth_drop)
  have l: "length (stream_words (take ?q ms) :: 's word list) = ?q * ?R" using assms(1) by simp
  define p where "p = ?q * ?R"
  have "n = p + r" using n by (simp only: p_def)
  with rR have pn: "p \<le> n" "n \<le> p + length (lanes ?R (ms ! ?q) :: 's word list)" "n - p = r"
    by simp_all
  have "stream_words ms = stream_words (take ?q ms) @ lanes ?R (ms ! ?q) @
      (stream_words (drop (Suc ?q) ms) :: 's word list)"
    by (subst ms) (simp only: stream_words_append stream_words_simps)
  then have "take n (stream_words ms :: 's word list) =
      stream_words (take ?q ms) @ take (n - p) (lanes ?R (ms ! ?q))"
    using take_append3 [OF l [folded p_def] pn(1,2)] by simp
  then show ?thesis using rR pn(3) by (simp add: take_lanes)
qed

section \<open>The feeder in functional mode\<close>

definition sends :: "'s::len word list \<Rightarrow> ('s word, 'm) action list" where
  "sends vs = map (\<lambda>v. Send (axi_word v)) vs"

definition fed_frames :: "nat \<Rightarrow> 'm::len word list \<Rightarrow> 's::len word list" where
  "fed_frames n ms = take n (stream_words ms)"

lemma feed_func:
  fixes ch :: "'s::len word buff_channel" and ms :: "'m::len word list"
  assumes m: "mode ch = PL_FUNC_MODE" and R: "0 < MEM_RATIO TYPE('m) TYPE('s)"
  shows "feed D ch ms =
    (let k = mem_frames (MEM_RATIO TYPE('m) TYPE('s)) (unat (numFrames ch)) in
     if k \<le> length ms
     then Some (drop k ms, [Delay (unat (delays ch)), Trigger] @ sends (fed_frames (unat (numFrames ch)) ms) @ [Trigger])
     else None)"
proof -
  let ?R = "MEM_RATIO TYPE('m) TYPE('s)" and ?n = "unat (numFrames ch)"
  show ?thesis
  proof (cases "?n mod ?R = 0")
    case True
    have "take ?n (stream_words ms :: 's word list) = stream_words (take (?n div ?R) ms)"
      if "?n div ?R \<le> length ms"
    proof -
      have "stream_words ms = stream_words (take (?n div ?R) ms) @ (stream_words (drop (?n div ?R) ms) :: 's word list)"
        by (simp flip: stream_words_append)
      moreover have "length (stream_words (take (?n div ?R) ms) :: 's word list) = ?n"
        using that True by auto
      ultimately show ?thesis by (metis append_eq_conv_conj)
    qed
    with True m show ?thesis
      by (simp add: feed_def for_loop_read concat_send_lanes mem_frames_def sends_def fed_frames_def
          wait_loop_unat Let_def)
  next
    case False
    have "?n div ?R < length ms \<Longrightarrow> drop (?n div ?R) ms = ms ! (?n div ?R) # drop (Suc (?n div ?R)) ms"
      by (simp add: Cons_nth_drop_Suc)
    with False m take_stream_words [OF _ refl R, of _ ms] show ?thesis
      by (auto simp: feed_def for_loop_read concat_send_lanes mem_frames_def sends_def fed_frames_def
          wait_loop_unat send_lanes_words Let_def not_le not_less_eq_eq split: list.splits)
  qed
qed

section \<open>The feeder in performance mode\<close>

lemma perf_frame_Some:
  assumes "length b = D" "0 < D" "D < 2 ^ 32"
  shows "perf_frame D b i = Some (b ! (unat i mod D) XOR perf_pattern (ucast (i div of_nat D)))"
proof -
  have d: "unat (of_nat D :: u32) = D" using assms(3) by (intro unat_of_nat_small) simp
  have "unat (i mod of_nat D) = unat i mod D" by (simp add: unat_mod d)
  then show ?thesis using assms by (simp add: perf_frame_def vec_get_def)
qed

text \<open>The frames of one repetition.\<close>

definition perf_frames :: "nat \<Rightarrow> 's::len word list \<Rightarrow> nat \<Rightarrow> 's word list" where
  "perf_frames D b n = map (\<lambda>i. b ! (i mod D) XOR perf_pattern (of_nat (i div D))) [0..<n]"

lemma perf_inner:
  assumes b: "length b = D" "0 < D" "D < 2 ^ 32"
  shows "for_loop k n (\<lambda>k acts. do {
       let i = nf - of_nat k;
       v \<leftarrow> perf_frame D b (nf - i);
       Some (acts @ [Send (axi_word v)]) }) acts =
    Some (acts @ sends (map (\<lambda>i. b ! (unat (of_nat i :: u32) mod D) XOR
        perf_pattern (ucast ((of_nat i :: u32) div of_nat D))) [k..<k + n]))"
proof (induction n arbitrary: k acts)
  case 0
  then show ?case by (simp add: sends_def)
next
  case (Suc n)
  have "[k..<k + Suc n] = k # [Suc k..<Suc k + n]" by (simp add: upt_rec)
  then show ?case
    using Suc.IH [of "Suc k"] by (simp add: perf_frame_Some [OF b] sends_def Let_def)
qed

lemma perf_frames_words:
  assumes "0 < D" "D < 2 ^ 32" "n < 2 ^ 32"
  shows "map (\<lambda>i. b ! (unat (of_nat i :: u32) mod D) XOR
      perf_pattern (ucast ((of_nat i :: u32) div of_nat D))) [0..<n] = perf_frames D b n"
  unfolding perf_frames_def
proof (rule map_cong [OF refl])
  fix i assume "i \<in> set [0..<n]"
  then have i: "i < 2 ^ 32" using assms by simp
  then have ui: "unat (of_nat i :: u32) = i" by (intro unat_of_nat_small) simp
  have ud: "unat (of_nat D :: u32) = D" using assms by (intro unat_of_nat_small) simp
  have "(ucast ((of_nat i :: u32) div of_nat D) :: 16 word) = of_nat (unat ((of_nat i :: u32) div of_nat D))"
    by (simp only: of_nat_unat)
  also have "\<dots> = of_nat (i div D)" by (simp add: unat_div ui ud)
  finally show "b ! (unat (of_nat i :: u32) mod D) XOR perf_pattern (ucast ((of_nat i :: u32) div of_nat D)) =
      b ! (i mod D) XOR perf_pattern (of_nat (i div D))"
    by (simp add: ui)
qed

lemma for_loop_append:
  assumes "\<And>j acts. f j acts = Some (acts @ x)"
  shows "for_loop i n f acts = Some (acts @ concat (replicate n x))"
  by (induction n arbitrary: i acts) (simp_all add: assms)

lemma sends_concat: "concat (replicate n (sends vs)) = sends (concat (replicate n vs))"
  by (induction n) (simp_all add: sends_def)

lemma feed_perf:
  fixes ch :: "'s::len word buff_channel" and ms :: "'m::len word list"
  assumes m: "mode ch = PL_PERF_MODE" and b: "length (buff ch) = D" "0 < D" "D < 2 ^ 32"
  shows "feed D ch ms = Some (ms, [Delay (unat (delays ch)), Trigger] @
     sends (concat (replicate (unat (numRep ch)) (perf_frames D (buff ch) (unat (numFrames ch))))) @ [Trigger])"
proof -
  have n: "unat (numFrames ch) < 2 ^ 32" by (rule unat_less_exp) simp
  have inner: "for_loop 0 (unat (numFrames ch)) (\<lambda>k acts. do {
       let i = numFrames ch - of_nat k;
       v \<leftarrow> perf_frame D (buff ch) (numFrames ch - i);
       Some (acts @ [Send (axi_word v)]) }) acts =
     Some (acts @ sends (perf_frames D (buff ch) (unat (numFrames ch))))" for acts :: "('s word, 'm word) action list"
    using perf_inner [OF b, of 0 "unat (numFrames ch)" "numFrames ch" acts]
      perf_frames_words [OF b(2,3) n, of "buff ch"] by simp
  show ?thesis
    using m for_loop_append [OF inner] by (simp add: feed_def wait_loop_unat Let_def sends_concat)
qed

section \<open>The pattern\<close>

lemma perf_pattern_0 [simp]: "perf_pattern 0 = (0 :: 's::len word)"
proof -
  have "fold (\<lambda>k v. ap_set_range v ((k + 1) * 16 - 1) (k * 16) (push_bit k (0 :: 16 word))) ks (0 :: 's word) = 0" for ks
  proof (induction ks)
    case (Cons k ks)
    have "ap_set_range (0 :: 's word) ((k + 1) * 16 - 1) (k * 16) (push_bit k (0 :: 16 word)) = 0"
      by (rule bit_word_eqI) (simp add: bit_ap_set_range)
    with Cons show ?case by simp
  qed simp
  then show ?thesis by (simp add: perf_pattern_def)
qed

lemma fold_pattern_low:
  assumes "k \<notin> set ks" "i < 16"
  shows "bit (fold (\<lambda>k v. ap_set_range v ((k + 1) * 16 - 1) (k * 16) (push_bit k (d :: 16 word))) ks x)
      (k * 16 + i) = bit (x :: 's::len word) (k * 16 + i)"
  using assms(1)
proof (induction ks arbitrary: x)
  case (Cons a ks)
  have "\<not> (a * 16 \<le> k * 16 + i \<and> k * 16 + i < (a + 1) * 16 - 1 + 1)"
    using Cons.prems assms(2) by auto
  then show ?case
    using Cons by (auto simp: bit_ap_set_range dest: bit_imp_le_length)
qed simp

text \<open>The lowest lane is the number of the round, so two rounds through the buffer never carry the same
  mark.\<close>

lemma perf_pattern_inj:
  assumes "16 \<le> LENGTH('s::len)"
  shows "(perf_pattern d :: 's word) = perf_pattern e \<longleftrightarrow> d = e"
proof
  have low: "bit (perf_pattern d :: 's word) i = bit d i" if i: "i < 16" for d i
  proof -
    have "0 < LENGTH('s) div 16" using assms by (simp add: div_greater_zero_iff)
    then have u: "[0..<LENGTH('s) div 16] = 0 # [1..<LENGTH('s) div 16]" by (simp add: upt_rec)
    have "bit (perf_pattern d :: 's word) (0 * 16 + i) =
        bit (ap_set_range (0 :: 's word) ((0 + 1) * 16 - 1) (0 * 16) (push_bit 0 d)) (0 * 16 + i)"
      unfolding perf_pattern_def u using i by (simp only: fold.simps comp_def) (rule fold_pattern_low, auto)
    also have "\<dots> = bit d i" using i assms by (simp add: bit_ap_set_range)
    finally show ?thesis by simp
  qed
  assume e: "(perf_pattern d :: 's word) = perf_pattern e"
  show "d = e"
  proof (rule bit_word_eqI)
    fix i assume "i < LENGTH(16)"
    then show "bit d i = bit e i" using low [of i d] low [of i e] e by simp
  qed
qed simp

text \<open>Data that fits in the buffer is sent as it is.\<close>

lemma perf_frames_fit:
  assumes "n \<le> D" "length b = D"
  shows "perf_frames D b n = take n b"
  using assms by (intro nth_equalityI) (auto simp: perf_frames_def)

end
