(* ===== verification/Buff_Counter.thy ===== *)
theory Buff_Counter
  imports Buff_Feed
begin

text \<open>The cycle counter: when it returns and with which cycles.\<close>

section \<open>Runs of the state machine\<close>

lemma counter_wait_START:
  assumes "c \<le> t" "\<And>x. c \<le> x \<Longrightarrow> x < t \<Longrightarrow> avail x \<le> taken" "taken < avail t"
  shows "counter avail c taken START count f l =
    counter avail (Suc t) (Suc taken) FIRST (count + of_nat (t - c) + 1) (count + of_nat (t - c)) l"
  using assms
proof (induction "t - c" arbitrary: c count)
  case 0
  then show ?case by (subst counter.simps) (simp add: Let_def)
next
  case (Suc n)
  then have s: "avail c \<le> taken" "n = t - Suc c" "Suc c \<le> t" by simp_all
  have "counter avail c taken START count f l = counter avail (Suc c) taken START (count + 1) f l"
    using s by (subst counter.simps) (simp add: Let_def)
  also have "\<dots> = counter avail (Suc t) (Suc taken) FIRST (count + 1 + of_nat (t - Suc c) + 1)
      (count + 1 + of_nat (t - Suc c)) l"
    using Suc.prems s by (intro Suc.hyps) auto
  finally show ?case
    using Suc.hyps(2) s by (simp add: algebra_simps flip: Suc.hyps(2))
qed

lemma counter_wait_FIRST:
  assumes "c \<le> t" "\<And>x. c \<le> x \<Longrightarrow> x < t \<Longrightarrow> avail x \<le> taken" "taken < avail t"
  shows "counter avail c taken FIRST count f l = Some (f, count + of_nat (t - c))"
  using assms
proof (induction "t - c" arbitrary: c count)
  case 0
  then show ?case by (subst counter.simps) (simp add: Let_def counter.simps [of _ _ _ LAST])
next
  case (Suc n)
  then have s: "avail c \<le> taken" "n = t - Suc c" "Suc c \<le> t" by simp_all
  have "counter avail c taken FIRST count f l = counter avail (Suc c) taken FIRST (count + 1) f l"
    using s by (subst counter.simps) (simp add: Let_def)
  also have "\<dots> = Some (f, count + 1 + of_nat (t - Suc c))"
    using Suc.prems s by (intro Suc.hyps) auto
  finally show ?case using s by (simp add: algebra_simps flip: Suc.hyps(2))
qed

lemma counter_two_triggers:
  assumes "\<And>x. x < t1 \<Longrightarrow> avail x = 0" "0 < avail t1"
    and "\<And>x. t1 < x \<Longrightarrow> x < t2 \<Longrightarrow> avail x \<le> 1" "t1 < t2" "1 < avail t2"
  shows "counter avail 0 0 START 0 f l = Some (of_nat t1, of_nat t2)"
proof -
  have "counter avail 0 0 START 0 f l = counter avail (Suc t1) 1 FIRST (of_nat t1 + 1) (of_nat t1) l"
    using counter_wait_START [of 0 t1 avail 0 0 f l] assms(1,2) by simp
  also have "\<dots> = Some (of_nat t1, of_nat t1 + 1 + of_nat (t2 - Suc t1))"
    using counter_wait_FIRST [of "Suc t1" t2 avail 1] assms by simp
  also have "of_nat t1 + 1 + of_nat (t2 - Suc t1) = (of_nat (Suc t1 + (t2 - Suc t1)) :: u64)"
    by (simp only: of_nat_add of_nat_Suc) simp
  also have "Suc t1 + (t2 - Suc t1) = t2" using assms(4) by simp
  finally show ?thesis .
qed

text \<open>It returns only after two triggers.\<close>

lemma counter_returns_only:
  assumes "counter avail c taken st count f l = Some r"
  shows "case st of START \<Rightarrow> \<exists>x. Suc taken < avail x | FIRST \<Rightarrow> \<exists>x. taken < avail x | LAST \<Rightarrow> True"
proof (rule counter.raw_induct [where P = "\<lambda>avail c taken st count f l r.
    case st of START \<Rightarrow> \<exists>x. Suc taken < avail x | FIRST \<Rightarrow> \<exists>x. taken < avail x | LAST \<Rightarrow> True", OF _ assms])
  fix rec avail c taken st count f l r
  assume IH: "\<And>avail c taken st count f l r. rec avail c taken st count f l = Some r \<Longrightarrow>
      (case st of START \<Rightarrow> \<exists>x. Suc taken < avail x | FIRST \<Rightarrow> \<exists>x. taken < avail x | LAST \<Rightarrow> True)"
    and eq: "(let isEmpty = avail c \<le> taken in
      case st of
        START \<Rightarrow>
          if \<not> isEmpty then rec avail (Suc c) (Suc taken) FIRST (count + 1) count l
          else rec avail (Suc c) taken START (count + 1) f l
      | FIRST \<Rightarrow>
          if \<not> isEmpty then rec avail (Suc c) (Suc taken) LAST (count + 1) f count
          else rec avail (Suc c) taken FIRST (count + 1) f l
      | LAST \<Rightarrow> Some (f, l)) = Some r"
  show "case st of START \<Rightarrow> \<exists>x. Suc taken < avail x | FIRST \<Rightarrow> \<exists>x. taken < avail x | LAST \<Rightarrow> True"
    using eq by (cases st) (auto simp: Let_def not_le split: if_splits dest!: IH)
qed

section \<open>The counter of a process\<close>

lemma avail_two:
  assumes "length (filter (\<lambda>a. a = Trigger) acts) = 2"
  shows "avail_of sched acts c = (if sched 0 \<le> c then 1 else 0) + (if sched 1 \<le> c then 1 else 0)"
  using assms by (simp add: avail_of_def upt_rec numeral_2_eq_2)

text \<open>The second trigger is read at the earliest one cycle after the first.\<close>

definition last_cycle :: "(nat \<Rightarrow> nat) \<Rightarrow> nat" where
  "last_cycle sched = max (sched 1) (Suc (sched 0))"

lemma run_counter_two:
  assumes "length (filter (\<lambda>a. a = Trigger) acts) = 2" "sched 0 \<le> sched 1"
  shows "run_counter sched acts ch =
    Some (ch\<lparr>firstcc := of_nat (sched 0), lastcc := of_nat (last_cycle sched)\<rparr>)"
proof -
  have "counter (avail_of sched acts) 0 0 START 0 (firstcc ch) (lastcc ch) =
      Some (of_nat (sched 0), of_nat (last_cycle sched))"
    by (rule counter_two_triggers)
      (use assms in \<open>auto simp: avail_two last_cycle_def max_def split: if_splits\<close>)
  then show ?thesis by (simp add: run_counter_def)
qed

lemma run_counter_fewer:
  assumes "length (filter (\<lambda>a. a = Trigger) acts) < 2"
  shows "run_counter sched acts ch = None"
proof (rule ccontr)
  assume "run_counter sched acts ch \<noteq> None"
  then obtain r where "counter (avail_of sched acts) 0 0 START 0 (firstcc ch) (lastcc ch) = Some r"
    by (auto simp: run_counter_def split: Option.bind_splits)
  then obtain x where "1 < avail_of sched acts x" using counter_returns_only by fastforce
  moreover have "avail_of sched acts x \<le> length (filter (\<lambda>a. a = Trigger) acts)"
    unfolding avail_of_def by (rule order_trans [OF length_filter_le]) simp
  ultimately show False using assms by simp
qed

lemma triggers_sends [simp]: "filter (\<lambda>a. a = Trigger) (sends vs) = []"
  by (simp add: sends_def filter_empty_conv)

lemma load_stream_run:
  fixes ch :: "'s::len word buff_channel" and ms :: "'m::len word list"
  assumes "feed D ch ms = Some (ms', [Delay d, Trigger] @ sends vs @ [Trigger])" "sched 0 \<le> sched 1"
  shows "load_stream D sched ch ms = Some
    (ch\<lparr>firstcc := of_nat (sched 0), lastcc := of_nat (last_cycle sched)\<rparr>, ms',
     [Delay d, Trigger] @ sends vs @ [Trigger])"
proof -
  let ?acts = "[Delay d, Trigger] @ sends vs @ [Trigger] :: ('s word, 'm word) action list"
  have "length (filter (\<lambda>a. a = Trigger) ?acts) = 2" by simp
  from run_counter_two [OF this assms(2), of ch] show ?thesis using assms(1) by (simp add: load_stream_def)
qed

end
