(* ===== verification/Buff_Memory.thy ===== *)
theory Buff_Memory
  imports Buff_Counter
begin

text \<open>The buffer against the memory: \<open>load_buff\<close>, \<open>store_buff\<close>, and that they are inverse.\<close>

section \<open>Packed memory words\<close>

lemma nth_stream_words:
  assumes "p < length ms * MEM_RATIO TYPE('m) TYPE('s)"
  shows "(stream_words (ms :: 'm::len word list) :: 's::len word list) ! p =
    lane (ms ! (p div MEM_RATIO TYPE('m) TYPE('s))) (p mod MEM_RATIO TYPE('m) TYPE('s))"
  using assms
proof (induction ms arbitrary: p)
  case Nil
  then show ?case by simp
next
  case (Cons m ms)
  let ?R = "MEM_RATIO TYPE('m) TYPE('s)"
  have R: "0 < ?R" using Cons.prems by (cases "?R = 0") auto
  show ?case
  proof (cases "p < ?R")
    case True
    then show ?thesis by (simp add: nth_append lanes_def)
  next
    case False
    then have "p div ?R = Suc ((p - ?R) div ?R)" "p mod ?R = (p - ?R) mod ?R"
      using R by (simp_all add: le_div_geq le_mod_geq)
    moreover have "(stream_words ms :: 's word list) ! (p - ?R) =
        lane (ms ! ((p - ?R) div ?R)) ((p - ?R) mod ?R)"
      using Cons.prems False by (intro Cons.IH) simp
    ultimately show ?thesis using False by (simp add: nth_append)
  qed
qed

text \<open>The \<open>k\<close> memory words that \<open>store_buff\<close> and \<open>get\<close> make out of a list of stream words, the last one
  filled up with zeros.\<close>

definition packed :: "nat \<Rightarrow> 's::len word list \<Rightarrow> 'm::len word list" where
  "packed k vs = map (\<lambda>i. pack_lanes 0
     (take (MEM_RATIO TYPE('m) TYPE('s)) (drop (i * MEM_RATIO TYPE('m) TYPE('s)) vs)) 0) [0..<k]"

lemma length_packed [simp]: "length (packed k vs) = k"
  by (simp add: packed_def)

lemma packed_Suc:
  "packed (Suc k) (vs :: 's::len word list) = packed k vs @ [pack_lanes 0
     (take (MEM_RATIO TYPE('m) TYPE('s)) (drop (k * MEM_RATIO TYPE('m) TYPE('s)) vs)) 0 :: 'm::len word]"
  by (simp add: packed_def)

lemma packed_take:
  assumes "k * MEM_RATIO TYPE('m) TYPE('s) \<le> n"
  shows "(packed k (take n vs) :: 'm::len word list) = packed k (vs :: 's::len word list)"
  unfolding packed_def
proof (rule map_cong [OF refl])
  let ?R = "MEM_RATIO TYPE('m) TYPE('s)"
  fix i assume "i \<in> set [0..<k]"
  then have "Suc i * ?R \<le> k * ?R" by (intro mult_le_mono1) simp
  then have "?R \<le> n - i * ?R" using assms by simp
  then show "(pack_lanes 0 (take ?R (drop (i * ?R) (take n vs))) 0 :: 'm word) =
      pack_lanes 0 (take ?R (drop (i * ?R) vs)) 0"
    by (simp add: drop_take min_def)
qed

lemma stream_words_packed:
  assumes w: "widths_ok TYPE('m::len) TYPE('s::len)" and R: "0 < MEM_RATIO TYPE('m) TYPE('s)"
    and k: "length vs \<le> k * MEM_RATIO TYPE('m) TYPE('s)"
  shows "stream_words (packed k (vs :: 's word list) :: 'm word list) =
    vs @ replicate (k * MEM_RATIO TYPE('m) TYPE('s) - length vs) 0"
proof (rule nth_equalityI)
  let ?R = "MEM_RATIO TYPE('m) TYPE('s)"
  show "length (stream_words (packed k vs :: 'm word list) :: 's word list) =
      length (vs @ replicate (k * ?R - length vs) 0)" using k by simp
  fix p assume "p < length (stream_words (packed k vs :: 'm word list) :: 's word list)"
  then have p: "p < k * ?R" by simp
  then have q: "p div ?R < k" "p mod ?R < ?R" using R by (simp_all add: less_mult_imp_div_less)
  have d: "p div ?R * ?R + p mod ?R = p" by (rule div_mult_mod_eq)
  have "(stream_words (packed k vs :: 'm word list) :: 's word list) ! p =
      lane (pack_lanes 0 (take ?R (drop (p div ?R * ?R) vs)) 0 :: 'm word) (p mod ?R)"
    using p q by (subst nth_stream_words) (simp_all add: packed_def)
  also have "\<dots> = (if p < length vs then vs ! p else 0)"
    using q(2) d w by (auto simp: lane_pack_lanes)
  finally show "(stream_words (packed k vs :: 'm word list) :: 's word list) ! p =
      (vs @ replicate (k * ?R - length vs) 0) ! p"
    using p by (simp add: nth_append)
qed

section \<open>Indices into the memory\<close>

text \<open>The region of \<open>k\<close> memory words from word offset \<open>offs\<close> on lies inside the memory.\<close>

definition region_ok :: "u32 \<Rightarrow> nat \<Rightarrow> 'm list \<Rightarrow> bool" where
  "region_ok offs k mem \<longleftrightarrow> unat offs + k \<le> length mem \<and> length mem \<le> 2 ^ 32"

lemma region_index:
  assumes "region_ok offs k mem" "i < k" shows "unat (of_nat i + offs) = i + unat offs"
proof -
  have "i + unat offs < 2 ^ 32" using assms by (simp add: region_ok_def)
  moreover have "unat (of_nat i :: u32) = i" using calculation by (intro unat_of_nat_small) simp
  ultimately show ?thesis by (subst unat_add_small) simp_all
qed

lemma region_length: "region_ok offs k mem \<Longrightarrow> k \<le> length (drop (unat offs) mem)"
  by (auto simp: region_ok_def)

lemma region_get:
  assumes "region_ok offs k mem" "i < k"
  shows "vec_get (unat (of_nat i + offs)) mem = Some (drop (unat offs) mem ! i)"
  unfolding region_index [OF assms] using assms
  by (auto simp: vec_get_def region_ok_def add.commute [of i])

section \<open>Loading\<close>

lemma load_lanes_blit:
  assumes "base + k \<le> length b"
  shows "load_lanes base k x b = Some (take base b @ lanes k x @ drop (base + k) b)"
proof -
  have "\<exists>b'. load_lanes base k x b = Some b' \<and> length b' = length b \<and>
      (\<forall>p < length b. b' ! p = (if base \<le> p \<and> p < base + (0 + k) then lane x (p - base) else b ! p))"
    unfolding load_lanes_def
    by (rule for_loop_invariant [where P = "\<lambda>j b'. length b' = length b \<and>
        (\<forall>p < length b. b' ! p = (if base \<le> p \<and> p < base + j then lane x (p - base) else b ! p))"])
      (use assms in \<open>auto simp: vec_set_def nth_list_update\<close>)
  then obtain b' where b': "load_lanes base k x b = Some b'" "length b' = length b"
    "\<forall>p < length b. b' ! p = (if base \<le> p \<and> p < base + k then lane x (p - base) else b ! p)"
    by auto
  have "b' = take base b @ lanes k x @ drop (base + k) b"
    using b'(2,3) assms by (intro nth_equalityI) (auto simp: nth_append lanes_def)
  with b'(1) show ?thesis by simp
qed

lemma load_words_run:
  fixes b :: "'s::len word list" and mem :: "'m::len word list"
  assumes r: "region_ok offs n mem" and len: "n * MEM_RATIO TYPE('m) TYPE('s) \<le> length b"
  shows "load_words n offs mem b = Some (stream_words (take n (drop (unat offs) mem)) @
    drop (n * MEM_RATIO TYPE('m) TYPE('s)) b)"
proof -
  let ?R = "MEM_RATIO TYPE('m) TYPE('s)" and ?src = "drop (unat offs) mem"
  have "\<exists>b'. load_words n offs mem b = Some b' \<and>
      (\<lambda>i b'. i \<le> n \<longrightarrow> b' = stream_words (take i ?src) @ drop (i * ?R) b) (0 + n) b'"
    unfolding load_words_def
  proof (rule for_loop_invariant)
    show "0 \<le> n \<longrightarrow> b = stream_words (take 0 ?src) @ drop (0 * ?R) b" by simp
  next
    fix i b' assume i: "0 \<le> i" "i < 0 + n" and "i \<le> n \<longrightarrow> b' = stream_words (take i ?src) @ drop (i * ?R) b"
    then have b': "b' = stream_words (take i ?src) @ drop (i * ?R) b" by simp
    have "Suc i * ?R \<le> n * ?R" using i by (intro mult_le_mono1) simp
    then have s: "i * ?R + ?R \<le> length b" using len by simp
    have li: "i < length ?src" using i region_length [OF r] by simp
    have l: "length (stream_words (take i ?src) :: 's word list) = i * ?R" using li by simp
    have "length b' = i * ?R + (length b - i * ?R)" unfolding b' by (simp only: length_append length_drop l)
    then have len': "i * ?R + ?R \<le> length b'" using s by linarith
    have "take (i * ?R) b' @ lanes ?R (?src ! i) @ drop (i * ?R + ?R) b' =
        stream_words (take (Suc i) ?src) @ drop (Suc i * ?R) b"
      using l li unfolding b'
      by (simp add: take_Suc_conv_app_nth stream_words_append add.commute)
    then show "\<exists>t'. do { dat \<leftarrow> vec_get (unat (of_nat i + offs)) mem; load_lanes (i * ?R) ?R dat b' } = Some t' \<and>
        (Suc i \<le> n \<longrightarrow> t' = stream_words (take (Suc i) ?src) @ drop (Suc i * ?R) b)"
      using region_get [OF r, of i] i load_lanes_blit [OF len', of "?src ! i"] by simp
  qed
  then show ?thesis by simp
qed

lemma insert_shape:
  "length xs = p \<Longrightarrow> take p (xs @ drop p b) @ ys @ drop (p + length ys) (xs @ drop p b) =
     xs @ ys @ drop (p + length ys) b"
  by (simp add: add.commute)

text \<open>The number of frames the buffer holds.\<close>

definition held :: "nat \<Rightarrow> 'w buff_channel \<Rightarrow> nat" where
  "held D ch = min (unat (numFrames ch)) D"

lemma load_buff_run:
  fixes ch :: "'s::len word buff_channel" and mem :: "'m::len word list"
  assumes m: "mode ch = PL_PERF_MODE" and R: "0 < MEM_RATIO TYPE('m) TYPE('s)"
    and D: "length (buff ch) = D" "D mod MEM_RATIO TYPE('m) TYPE('s) = 0"
    and r: "region_ok (offsets ch) (mem_frames (MEM_RATIO TYPE('m) TYPE('s)) (held D ch)) mem"
  shows "load_buff D mem ch = Some (ch\<lparr>buff :=
    take (held D ch) (stream_words (drop (unat (offsets ch)) mem)) @ drop (held D ch) (buff ch)\<rparr>)"
proof -
  let ?R = "MEM_RATIO TYPE('m) TYPE('s)" and ?n = "held D ch" and ?src = "drop (unat (offsets ch)) mem"
  let ?q = "?n div ?R" and ?r = "?n mod ?R"
  have rq: "region_ok (offsets ch) ?q mem" using r by (simp add: region_ok_def mem_frames_def)
  have qR: "?q * ?R \<le> ?n" by simp
  have nD: "?n \<le> length (buff ch)" using D by (simp add: held_def)
  have lw: "load_words ?q (offsets ch) mem (buff ch) =
      Some (stream_words (take ?q ?src) @ drop (?q * ?R) (buff ch))"
    using qR nD by (intro load_words_run [OF rq]) linarith
  have lsrc: "?q \<le> length ?src" using rq by (rule region_length)
  have ls: "length (stream_words (take ?q ?src) :: 's word list) = ?q * ?R" using lsrc by simp
  show ?thesis
  proof (cases "?r = 0")
    case True
    have n: "?q * ?R = ?n" using True by auto
    have "stream_words ?src = stream_words (take ?q ?src) @ (stream_words (drop ?q ?src) :: 's word list)"
      by (metis append_take_drop_id stream_words_append)
    then have t: "take ?n (stream_words ?src :: 's word list) = stream_words (take ?q ?src)"
      using ls n by (metis append_eq_conv_conj)
    show ?thesis
    proof (cases "unat (numFrames ch) > D")
      case True
      then have "?n = D" by (simp add: held_def)
      with True m lw t n show ?thesis by (simp add: load_buff_def Let_def)
    next
      case False
      then have "?n = unat (numFrames ch)" by (simp add: held_def)
      with False m lw t n \<open>?r = 0\<close> show ?thesis by (simp add: load_buff_def Let_def)
    qed
  next
    case False
    then have small: "\<not> unat (numFrames ch) > D" using D(2) by (auto simp: held_def min_def split: if_splits)
    then have nn: "?n = unat (numFrames ch)" by (simp add: held_def)
    have lt: "?q < length ?src" using region_length [OF r] False by (simp add: mem_frames_def)
    have g: "vec_get (unat (of_nat ?q + offsets ch)) mem = Some (?src ! ?q)"
      by (rule region_get [OF r]) (use False in \<open>simp only: mem_frames_def if_False add_Suc_right add_0_right One_nat_def lessI\<close>)
    let ?b = "stream_words (take ?q ?src) @ drop (?q * ?R) (buff ch) :: 's word list"
    have n: "?q * ?R + ?r = ?n" by (rule div_mult_mod_eq)
    have "?q * ?R + ?r \<le> length ?b" using ls nD n by (simp only: length_append length_drop)
    then have ll: "load_lanes (?q * ?R) ?r (?src ! ?q) ?b =
        Some (take (?q * ?R) ?b @ lanes ?r (?src ! ?q) @ drop (?q * ?R + ?r) ?b)"
      by (rule load_lanes_blit)
    have "take (?q * ?R) ?b @ lanes ?r (?src ! ?q) @ drop (?q * ?R + ?r) ?b =
        stream_words (take ?q ?src) @ lanes ?r (?src ! ?q) @ drop (?q * ?R + ?r) (buff ch)"
      by (rule insert_shape [OF ls, of "buff ch" "lanes ?r (?src ! ?q)", unfolded length_lanes])
    then have "take (?q * ?R) ?b @ lanes ?r (?src ! ?q) @ drop (?q * ?R + ?r) ?b =
        take ?n (stream_words ?src) @ drop ?n (buff ch)"
      unfolding n using take_stream_words [OF lt refl R] by simp
    with ll have "load_lanes (?q * ?R) ?r (?src ! ?q) ?b = Some (take ?n (stream_words ?src) @ drop ?n (buff ch))"
      by simp
    with small m lw g False show ?thesis unfolding nn by (simp add: load_buff_def Let_def)
  qed
qed

section \<open>Storing\<close>

lemma store_lanes_loop:
  assumes "base + j + k \<le> length b"
  shows "for_loop j k (\<lambda>j x. do { v \<leftarrow> vec_get (base + j) b; Some (set_lane x j v) }) x =
    Some (pack_lanes j (take k (drop (base + j) b)) x)"
  using assms
proof (induction k arbitrary: j x)
  case 0
  then show ?case by simp
next
  case (Suc k)
  then have "drop (base + j) b = b ! (base + j) # drop (Suc (base + j)) b"
    by (intro Cons_nth_drop_Suc [symmetric]) simp
  with Suc.IH [of "Suc j"] Suc.prems show ?case by (simp add: vec_get_def)
qed

lemma store_lanes_run:
  "base + k \<le> length b \<Longrightarrow> store_lanes base k b = Some (pack_lanes 0 (take k (drop base b)) 0)"
  unfolding store_lanes_def using store_lanes_loop [of base 0 k b 0] by simp

text \<open>Writing \<open>ws\<close> into the memory from word offset \<open>p\<close> on.\<close>

definition patch :: "nat \<Rightarrow> 'a list \<Rightarrow> 'a list \<Rightarrow> 'a list" where
  "patch p ws xs = take p xs @ ws @ drop (p + length ws) xs"

lemma length_patch: "p + length ws \<le> length xs \<Longrightarrow> length (patch p ws xs) = length xs"
  by (simp add: patch_def)

lemma patch_snoc:
  assumes "p + length ws < length xs"
  shows "(patch p ws xs)[p + length ws := w] = patch p (ws @ [w]) xs"
proof -
  have "drop (p + length ws) xs = xs ! (p + length ws) # drop (Suc (p + length ws)) xs"
    using assms by (intro Cons_nth_drop_Suc [symmetric])
  then show ?thesis using assms by (simp add: patch_def list_update_append)
qed

lemma drop_patch: "p + length ws \<le> length xs \<Longrightarrow> drop p (patch p ws xs) = ws @ drop (p + length ws) xs"
  by (simp add: patch_def)

lemma nth_patch_other:
  "p + length ws \<le> length xs \<Longrightarrow> i < p \<or> p + length ws \<le> i \<Longrightarrow> patch p ws xs ! i = xs ! i"
  by (auto simp: patch_def nth_append)

lemma store_words_run:
  fixes b :: "'s::len word list" and mem :: "'m::len word list"
  assumes r: "region_ok offs n mem" and len: "n * MEM_RATIO TYPE('m) TYPE('s) \<le> length b"
  shows "store_words n offs b mem = Some (patch (unat offs) (packed n b) mem)"
proof -
  let ?R = "MEM_RATIO TYPE('m) TYPE('s)"
  have "\<exists>m. store_words n offs b mem = Some m \<and>
      (\<lambda>i m. i \<le> n \<longrightarrow> m = patch (unat offs) (packed i b) mem) (0 + n) m"
    unfolding store_words_def
  proof (rule for_loop_invariant)
    show "0 \<le> n \<longrightarrow> mem = patch (unat offs) (packed 0 b) mem" by (simp add: patch_def packed_def)
  next
    fix i m assume i: "0 \<le> i" "i < 0 + n" and "i \<le> n \<longrightarrow> m = patch (unat offs) (packed i b) mem"
    then have m: "m = patch (unat offs) (packed i b) mem" by simp
    have "Suc i * ?R \<le> n * ?R" using i by (intro mult_le_mono1) simp
    then have s: "i * ?R + ?R \<le> length b" using len by simp
    have lim: "unat offs + i < length mem" using r i by (simp add: region_ok_def)
    have lm: "length m = length mem" using lim unfolding m by (intro length_patch) simp
    let ?w = "pack_lanes 0 (take ?R (drop (i * ?R) b)) 0 :: 'm word"
    have "vec_set (unat (of_nat i + offs)) ?w m =
        Some (patch (unat offs) (packed (Suc i) b) mem)"
      using region_index [OF r, of i] i lim lm patch_snoc [of "unat offs" "packed i b" mem]
      by (simp add: vec_set_def m packed_Suc add.commute)
    moreover have "store_lanes (i * ?R) ?R b = Some ?w" by (rule store_lanes_run [OF s])
    ultimately show "\<exists>t'. do { dat \<leftarrow> store_lanes (i * ?R) ?R b; vec_set (unat (of_nat i + offs)) dat m } = Some t' \<and>
        (Suc i \<le> n \<longrightarrow> t' = patch (unat offs) (packed (Suc i) b) mem)"
      by simp
  qed
  then show ?thesis by simp
qed

lemma store_buff_run:
  fixes ch :: "'s::len word buff_channel" and mem :: "'m::len word list"
  assumes m: "mode ch = PL_PERF_MODE" and R: "0 < MEM_RATIO TYPE('m) TYPE('s)"
    and D: "length (buff ch) = D" "D mod MEM_RATIO TYPE('m) TYPE('s) = 0"
    and r: "region_ok (offsets ch) (mem_frames (MEM_RATIO TYPE('m) TYPE('s)) (held D ch)) mem"
  shows "store_buff D ch mem = Some (patch (unat (offsets ch))
    (packed (mem_frames (MEM_RATIO TYPE('m) TYPE('s)) (held D ch)) (take (held D ch) (buff ch))) mem)"
proof -
  let ?R = "MEM_RATIO TYPE('m) TYPE('s)" and ?n = "held D ch"
  let ?q = "?n div ?R" and ?r = "?n mod ?R"
  have rq: "region_ok (offsets ch) ?q mem" using r by (auto simp: region_ok_def mem_frames_def)
  have qR: "?q * ?R \<le> ?n" by simp
  have nD: "?n \<le> length (buff ch)" using D by (simp add: held_def)
  have "store_words ?q (offsets ch) (buff ch) mem = Some (patch (unat (offsets ch)) (packed ?q (buff ch)) mem)"
    using qR nD by (intro store_words_run [OF rq]) linarith
  also have "(packed ?q (buff ch) :: 'm word list) = packed ?q (take ?n (buff ch))"
    using packed_take [OF qR, of "buff ch"] by simp
  finally have sw: "store_words ?q (offsets ch) (buff ch) mem =
      Some (patch (unat (offsets ch)) (packed ?q (take ?n (buff ch))) mem)" .
  show ?thesis
  proof (cases "?r = 0")
    case True
    then have "unat (numFrames ch) > D \<Longrightarrow> ?n = D" "\<not> unat (numFrames ch) > D \<Longrightarrow> ?n = unat (numFrames ch)"
      by (simp_all add: held_def)
    with True m sw show ?thesis
      by (cases "unat (numFrames ch) > D") (simp_all add: store_buff_def Let_def mem_frames_def)
  next
    case False
    then have small: "\<not> unat (numFrames ch) > D" using D(2) by (auto simp: held_def min_def split: if_splits)
    then have nn: "?n = unat (numFrames ch)" by (simp add: held_def)
    have k: "mem_frames ?R ?n = Suc ?q" using False by (simp add: mem_frames_def)
    have n: "?q * ?R + ?r = ?n" by (rule div_mult_mod_eq)
    have tk: "take ?R (drop (?q * ?R) (take ?n (buff ch))) = take ?r (drop (?q * ?R) (buff ch))"
    proof -
      have "?r \<le> ?R" using R by (simp add: less_imp_le)
      moreover have "?n - ?q * ?R = ?r" using n by linarith
      ultimately show ?thesis by (simp add: drop_take min_def)
    qed
    have "?q * ?R + ?r \<le> length (buff ch)" using n nD by simp
    then have sl: "store_lanes (?q * ?R) ?r (buff ch) = Some (pack_lanes 0 (take ?R (drop (?q * ?R) (take ?n (buff ch)))) 0 :: 'm word)"
      by (simp add: store_lanes_run tk)
    have lim: "unat (offsets ch) + ?q < length mem" using r unfolding k region_ok_def by simp
    have ix: "unat (of_nat ?q + offsets ch) = unat (offsets ch) + ?q"
      using region_index [OF r, of ?q] k by simp
    have "vec_set (unat (of_nat ?q + offsets ch)) (pack_lanes 0 (take ?R (drop (?q * ?R) (take ?n (buff ch)))) 0)
        (patch (unat (offsets ch)) (packed ?q (take ?n (buff ch))) mem) =
        Some (patch (unat (offsets ch)) (packed (Suc ?q) (take ?n (buff ch))) mem)"
      unfolding ix
      using lim length_patch [of "unat (offsets ch)" "packed ?q (take ?n (buff ch))" mem]
        patch_snoc [of "unat (offsets ch)" "packed ?q (take ?n (buff ch))" mem]
      by (simp add: vec_set_def packed_Suc)
    with small m sw sl False k show ?thesis unfolding nn by (simp add: store_buff_def Let_def)
  qed
qed

section \<open>The round trip\<close>

lemma store_load_buff:
  fixes ch ch' :: "'s::len word buff_channel" and mem :: "'m::len word list"
  assumes w: "widths_ok TYPE('m) TYPE('s)" and R: "0 < MEM_RATIO TYPE('m) TYPE('s)"
    and m: "mode ch = PL_PERF_MODE" "mode ch' = PL_PERF_MODE"
    and same: "numFrames ch' = numFrames ch" "offsets ch' = offsets ch"
    and D: "length (buff ch) = D" "length (buff ch') = D" "D mod MEM_RATIO TYPE('m) TYPE('s) = 0"
    and r: "region_ok (offsets ch) (mem_frames (MEM_RATIO TYPE('m) TYPE('s)) (held D ch)) mem"
  shows "do { mem' \<leftarrow> store_buff D ch mem; load_buff D mem' ch' } =
    Some (ch'\<lparr>buff := take (held D ch) (buff ch) @ drop (held D ch) (buff ch')\<rparr>)"
proof -
  let ?R = "MEM_RATIO TYPE('m) TYPE('s)" and ?n = "held D ch"
  let ?p = "packed (mem_frames ?R ?n) (take ?n (buff ch)) :: 'm word list"
  let ?mem = "patch (unat (offsets ch)) ?p mem"
  have st: "store_buff D ch mem = Some ?mem" by (rule store_buff_run [OF m(1) R D(1,3) r])
  have room: "unat (offsets ch) + length ?p \<le> length mem" using r by (simp add: region_ok_def)
  then have r': "region_ok (offsets ch) (mem_frames ?R ?n) ?mem"
    using r by (simp add: region_ok_def length_patch)
  have h: "held D ch' = ?n" using same by (simp add: held_def)
  have ln: "length (take ?n (buff ch)) = ?n" using D(1) by (simp add: held_def)
  have "?n \<le> mem_frames ?R ?n * ?R"
    using ceil_div_bounds(1) [OF R, of ?n] mem_frames_ceil [OF R, of ?n] by simp
  then have "stream_words ?p = take ?n (buff ch) @ replicate (mem_frames ?R ?n * ?R - ?n) 0"
    using stream_words_packed [OF w R, of "take ?n (buff ch)"] ln by simp
  then have "take ?n (stream_words (drop (unat (offsets ch)) ?mem) :: 's word list) = take ?n (buff ch)"
    using drop_patch [OF room] ln by (simp add: stream_words_append)
  moreover have "load_buff D ?mem ch' = Some (ch'\<lparr>buff :=
      take ?n (stream_words (drop (unat (offsets ch)) ?mem)) @ drop ?n (buff ch')\<rparr>)"
    using load_buff_run [OF m(2) R D(2,3), of ?mem] r' same h by simp
  ultimately show ?thesis using st by simp
qed

end
