(* ===== verification/Buff_Get.thy ===== *)
theory Buff_Get
  imports Buff_Memory
begin

text \<open>The collector of a channel: what it takes from the AI Engine, what it passes to memory or keeps in
  the buffer, and when it triggers the counter.\<close>

section \<open>Projections of a trace\<close>

definition received_words :: "('s, 'm) action list \<Rightarrow> 's ap_axiu list" where
  "received_words acts = concat (map (\<lambda>a. case a of Receive x \<Rightarrow> [x] | _ \<Rightarrow> []) acts)"

definition mem_writes :: "('s, 'm) action list \<Rightarrow> 'm list" where
  "mem_writes acts = concat (map (\<lambda>a. case a of MemWrite w \<Rightarrow> [w] | _ \<Rightarrow> []) acts)"

definition triggers :: "('s, 'm) action list \<Rightarrow> nat" where
  "triggers acts = length (filter (\<lambda>a. a = Trigger) acts)"

lemma projections [simp]:
  "received_words [] = []" "mem_writes [] = []" "triggers [] = 0"
  "received_words (Receive x # acts) = x # received_words acts" "mem_writes (Receive x # acts) = mem_writes acts"
  "triggers (Receive x # acts) = triggers acts"
  "received_words (MemWrite w # acts) = received_words acts" "mem_writes (MemWrite w # acts) = w # mem_writes acts"
  "triggers (MemWrite w # acts) = triggers acts"
  "received_words (Trigger # acts) = received_words acts" "mem_writes (Trigger # acts) = mem_writes acts"
  "triggers (Trigger # acts) = Suc (triggers acts)"
  "received_words (Delay d # acts) = received_words acts" "mem_writes (Delay d # acts) = mem_writes acts"
  "triggers (Delay d # acts) = triggers acts"
  "received_words (acts @ acts') = received_words acts @ received_words acts'"
  "mem_writes (acts @ acts') = mem_writes acts @ mem_writes acts'"
  "triggers (acts @ acts') = triggers acts + triggers acts'"
  by (simp_all add: received_words_def mem_writes_def triggers_def)

lemma projections_receives [simp]:
  "received_words (map Receive xs) = xs" "mem_writes (map Receive xs) = []" "triggers (map Receive xs) = 0"
  by (induction xs) simp_all

section \<open>Reading words\<close>

text \<open>The reads of a block of words; the first word of a transaction triggers the counter.\<close>

fun recv_acts :: "bool \<Rightarrow> 's ap_axiu list \<Rightarrow> ('s, 'm) action list" where
  "recv_acts first [] = []"
| "recv_acts first (x # xs) = Receive x # (if first then [Trigger] else []) @ map Receive xs"

lemma recv_acts_False [simp]: "recv_acts False xs = map Receive xs"
  by (cases xs) simp_all

lemma recv_acts_projections [simp]:
  "received_words (recv_acts first xs) = xs" "mem_writes (recv_acts first xs) = []"
  "triggers (recv_acts first xs) = (if first \<and> xs \<noteq> [] then 1 else 0)"
  by (cases xs; simp)+

lemma recv_acts_snoc:
  "recv_acts first (xs @ [x]) = recv_acts first xs @ Receive x # (if first \<and> xs = [] then [Trigger] else [])"
  by (cases xs) simp_all

lemma receive_run [simp]:
  "receive ([], first, acts) = None"
  "receive (x # xs, first, acts) =
     Some (axi_data x, xs, False, acts @ Receive x # (if first then [Trigger] else []))"
  by (simp_all add: receive_def)

lemma receive_lanes_loop:
  fixes x0 :: "'m::len word" and xs :: "'s::len word ap_axiu list"
  shows "for_loop j k (\<lambda>j (dat, st). do { (v, st) \<leftarrow> receive st; Some (set_lane dat j v, st) }) (x0, (xs, first, acts)) =
    (if k \<le> length xs then Some (pack_lanes j (map axi_data (take k xs)) x0,
       (drop k xs, first \<and> k = 0, acts @ recv_acts first (take k xs)))
     else None)"
proof (induction k arbitrary: j x0 xs first acts)
  case 0
  then show ?case by simp
next
  case (Suc k)
  show ?case
    by (cases xs) (simp_all add: Suc)
qed

definition chunk_acts :: "bool \<Rightarrow> 's::len word ap_axiu list \<Rightarrow> ('s word, 'm::len word) action list" where
  "chunk_acts first xs = recv_acts first xs @ [MemWrite (pack_lanes 0 (map axi_data xs) 0)]"

lemma receive_lanes_run:
  "receive_lanes k (xs, first, acts :: ('s::len word, 'm::len word) action list) =
    (if k \<le> length xs
     then Some (drop k xs, first \<and> k = 0, acts @ chunk_acts first (take k xs)) else None)"
  by (simp add: receive_lanes_def receive_lanes_loop chunk_acts_def)

fun chunks_acts :: "nat \<Rightarrow> nat \<Rightarrow> bool \<Rightarrow> 's::len word ap_axiu list \<Rightarrow> ('s word, 'm::len word) action list" where
  "chunks_acts R 0 first xs = []"
| "chunks_acts R (Suc q) first xs = chunk_acts first (take R xs) @ chunks_acts R q False (drop R xs)"

lemma chunks_run:
  assumes "0 < R"
  shows "for_loop i q (\<lambda>i. receive_lanes R) (xs, first, acts :: ('s::len word, 'm::len word) action list) =
    (if q * R \<le> length xs
     then Some (drop (q * R) xs, first \<and> q = 0, acts @ chunks_acts R q first xs) else None)"
proof (induction q arbitrary: i xs first acts)
  case 0
  then show ?case by simp
next
  case (Suc q)
  show ?case using assms by (auto simp: receive_lanes_run Suc add.commute)
qed

lemma chunks_projections:
  "q * R \<le> length xs \<Longrightarrow> 0 < R \<Longrightarrow> received_words (chunks_acts R q first xs) = take (q * R) xs"
  "q * R \<le> length xs \<Longrightarrow> 0 < R \<Longrightarrow> triggers (chunks_acts R q first xs) = (if first \<and> 0 < q then 1 else 0)"
  by (induction q arbitrary: first xs)
    (auto simp: chunk_acts_def take_add add.commute)

lemma packed_0: "packed 0 vs = []"
  by (simp add: packed_def)

lemma packed_Cons:
  "packed (Suc k) (vs :: 's::len word list) =
    (pack_lanes 0 (take (MEM_RATIO TYPE('m) TYPE('s)) vs) 0 :: 'm::len word) #
      packed k (drop (MEM_RATIO TYPE('m) TYPE('s)) vs)"
  unfolding packed_def by (simp add: upt_conv_Cons add.commute map_Suc_upt [symmetric] del: upt_Suc)

lemma chunks_mem_writes:
  "mem_writes (chunks_acts (MEM_RATIO TYPE('m) TYPE('s)) q first xs :: ('s::len word, 'm::len word) action list) =
     packed q (map axi_data xs)"
  by (induction q arbitrary: first xs) (simp_all add: chunk_acts_def packed_0 packed_Cons take_map drop_map)

section \<open>Functional mode\<close>

text \<open>The trace of a collector: it waits, then takes \<open>n\<close> words, and the counter is triggered right after
  the first of them (or at once if there is none) and once more at the end.\<close>

definition collects :: "nat \<Rightarrow> nat \<Rightarrow> 's::len word ap_axiu list \<Rightarrow> 'm::len word list \<Rightarrow>
    ('s word, 'm word) action list \<Rightarrow> bool" where
  "collects d n xs ws acts \<longleftrightarrow> received_words acts = take n xs \<and> mem_writes acts = ws \<and> triggers acts = 2 \<and>
     (\<exists>rest. acts = Delay d # (if n = 0 then [] else [Receive (xs ! 0)]) @ Trigger # rest @ [Trigger])"

lemma chunk_first:
  "0 < k \<Longrightarrow> k \<le> length xs \<Longrightarrow>
    \<exists>rest. chunk_acts True (take k xs) = Receive (xs ! 0) # Trigger # rest"
  by (cases xs; cases k) (auto simp: chunk_acts_def)

lemma get_func:
  fixes ch :: "'s::len word buff_channel"
  assumes m: "mode ch = PL_FUNC_MODE" and R: "0 < MEM_RATIO TYPE('m) TYPE('s)"
  shows "\<exists>acts :: ('s word, 'm::len word) action list.
    get D ch xs = (if unat (numFrames ch) \<le> length xs then Some (ch, drop (unat (numFrames ch)) xs, acts) else None) \<and>
    (unat (numFrames ch) \<le> length xs \<longrightarrow>
      collects (unat (delays ch)) (unat (numFrames ch)) xs
        (packed (mem_frames (MEM_RATIO TYPE('m) TYPE('s)) (unat (numFrames ch)))
          (map axi_data (take (unat (numFrames ch)) xs))) acts)"
proof -
  let ?R = "MEM_RATIO TYPE('m) TYPE('s)" and ?n = "unat (numFrames ch)"
  let ?q = "?n div ?R" and ?r = "?n mod ?R"
  have n: "?q * ?R + ?r = ?n" by (rule div_mult_mod_eq)
  let ?cs = "chunks_acts ?R ?q True xs :: ('s word, 'm word) action list"
  let ?tail = "(if ?r = 0 then [] else chunk_acts (?q = 0) (take ?r (drop (?q * ?R) xs))) :: ('s word, 'm word) action list"
  let ?body = "?cs @ ?tail"
  let ?acts = "[Delay (unat (delays ch))] @ ?body @ (if ?n = 0 then [Trigger] else []) @ [Trigger]"
  have nz: "?q = 0 \<and> ?r = 0 \<longleftrightarrow> ?n = 0" using n by (metis add_0 mult_0 div_0 mod_0)
  have body: "get D ch xs = (if ?n \<le> length xs then Some (ch, drop ?n xs, ?acts) else None)"
  proof (cases "?q * ?R \<le> length xs")
    case False
    then have "\<not> ?n \<le> length xs" using n by linarith
    with False m R show ?thesis by (simp add: get_def Let_def chunks_run)
  next
    case True
    have len: "?r \<le> length (drop (?q * ?R) xs) \<longleftrightarrow> ?n \<le> length xs" using True n by simp linarith
    have dr: "drop ?r (drop (?q * ?R) xs) = drop ?n xs" using n by (simp add: add.commute)
    show ?thesis
    proof (cases "?r = 0")
      case r: True
      with n True have "?n \<le> length xs" "drop (?q * ?R) xs = drop ?n xs" by simp_all
      with True r m R nz show ?thesis by (auto simp: get_def Let_def chunks_run wait_loop_unat)
    next
      case r: False
      with True m R nz len dr show ?thesis
        by (simp add: get_def Let_def chunks_run wait_loop_unat receive_lanes_run)
    qed
  qed
  have "collects (unat (delays ch)) ?n xs (packed (mem_frames ?R ?n) (map axi_data (take ?n xs))) ?acts"
    if le: "?n \<le> length xs"
  proof -
    have le': "?q * ?R \<le> length xs" using le n by linarith
    have rw: "received_words ?acts = take ?n xs"
    proof -
      have "take (?q * ?R) xs @ take ?r (drop (?q * ?R) xs) = take ?n xs"
        by (simp only: n flip: take_add)
      then show ?thesis using chunks_projections(1) [OF le' R, of True] R n by (auto simp: chunk_acts_def)
    qed
    have mw: "mem_writes ?acts = packed (mem_frames ?R ?n) (map axi_data (take ?n xs))"
    proof -
      have "(packed ?q (map axi_data (take ?n xs)) :: 'm word list) = packed ?q (map axi_data xs)"
        using packed_take [where 'm = 'm and k = ?q and n = ?n and vs = "map axi_data xs"] by (simp add: take_map)
      moreover have "take ?R (drop (?q * ?R) (take ?n xs)) = take ?r (drop (?q * ?R) xs)" if "?r \<noteq> 0"
      proof -
        have "?n - ?q * ?R = ?r" "?r \<le> ?R" using n R by (simp_all add: less_imp_le)
        then show ?thesis by (simp add: drop_take min_def)
      qed
      ultimately show ?thesis
        by (simp add: chunks_mem_writes mem_frames_def packed_Suc chunk_acts_def take_map drop_map)
    qed
    have tr: "triggers ?acts = 2"
      using chunks_projections(2) [OF le' R, of True] R nz le n by (auto simp: chunk_acts_def)
    have "\<exists>rest. ?acts = Delay (unat (delays ch)) # (if ?n = 0 then [] else [Receive (xs ! 0)]) @ Trigger # rest @ [Trigger]"
    proof (cases "?n = 0")
      case True
      then show ?thesis by simp
    next
      case False
      then have "\<exists>rest. ?body = Receive (xs ! 0) # Trigger # rest"
      proof (cases "?q")
        case 0
        then have "?r = ?n" using n by simp
        moreover have "\<exists>rest :: ('s word, 'm word) action list. chunk_acts True (take ?n xs) = Receive (xs ! 0) # Trigger # rest"
          using False le by (intro chunk_first) simp_all
        ultimately show ?thesis using 0 False by simp
      next
        case (Suc q)
        have "?R \<le> length xs" using le' Suc by simp
        then have "\<exists>rest :: ('s word, 'm word) action list. chunk_acts True (take ?R xs) = Receive (xs ! 0) # Trigger # rest"
          using R by (intro chunk_first) simp_all
        with Suc show ?thesis by auto
      qed
      with False show ?thesis by auto
    qed
    with rw mw tr show ?thesis by (simp only: collects_def)
  qed
  with body show ?thesis by blast
qed

section \<open>Performance mode\<close>

text \<open>Writing the frames of one repetition into the ring of \<open>D\<close> entries.\<close>

fun ring_write :: "nat \<Rightarrow> nat \<Rightarrow> 'a list \<Rightarrow> 'a list \<Rightarrow> 'a list" where
  "ring_write D i [] b = b"
| "ring_write D i (v # vs) b = ring_write D (Suc i) vs (b[i mod D := v])"

lemma length_ring_write [simp]: "length (ring_write D i vs b) = length b"
  by (induction vs arbitrary: i b) simp_all

lemma ring_write_append:
  "ring_write D i (vs @ ws) b = ring_write D (i + length vs) ws (ring_write D i vs b)"
  by (induction vs arbitrary: i b) simp_all

text \<open>The ring keeps the last frame written to each entry.\<close>

lemma ring_write_last:
  assumes "length b = D" "0 < D" "j < length vs" "length vs \<le> j + D"
  shows "ring_write D 0 vs b ! (j mod D) = vs ! j"
  using assms(3,4)
proof (induction vs rule: rev_induct)
  case Nil
  then show ?case by simp
next
  case (snoc v vs)
  have r: "ring_write D 0 (vs @ [v]) b = (ring_write D 0 vs b)[length vs mod D := v]"
    by (simp add: ring_write_append)
  show ?case
  proof (cases "j = length vs")
    case True
    then show ?thesis using r assms by simp
  next
    case False
    then have j: "j < length vs" "length vs < j + D" using snoc.prems by simp_all
    have "j mod D \<noteq> length vs mod D"
    proof
      assume "j mod D = length vs mod D"
      then have "length vs mod D = j mod D" by (rule sym)
      then have "D dvd length vs - j" using j(1) by (simp only: mod_eq_dvd_iff_nat less_imp_le)
      then have "D \<le> length vs - j" using j(1) by (intro dvd_imp_le) auto
      with j show False by linarith
    qed
    with r j snoc.IH show ?thesis by (simp add: nth_append)
  qed
qed

lemma ring_write_fit:
  assumes "length vs \<le> D" "length b = D"
  shows "ring_write D 0 vs b = vs @ drop (length vs) b"
  using assms(1)
proof (induction vs rule: rev_induct)
  case Nil
  then show ?case by simp
next
  case (snoc v vs)
  then have l: "length vs < D" by simp
  have "drop (length vs) b = b ! length vs # drop (Suc (length vs)) b"
    using l assms(2) by (intro Cons_nth_drop_Suc [symmetric]) simp
  with snoc l show ?case by (simp add: ring_write_append list_update_append)
qed

lemma get_inner:
  fixes xs :: "'s::len word ap_axiu list" and nf :: u32
  assumes D: "0 < D" "D < 2 ^ 32" and lb: "length b = D" and lim: "i + k \<le> unat nf"
  shows "for_loop i k (\<lambda>k (b, st). do {
      let i = nf - of_nat k;
      (v, st) \<leftarrow> receive st;
      b \<leftarrow> vec_set (unat ((nf - i) mod of_nat D)) v b;
      Some (b, st) }) (b, xs, first, acts) =
    (if k \<le> length xs
     then Some (ring_write D i (map axi_data (take k xs)) b, drop k xs, first \<and> k = 0, acts @ recv_acts first (take k xs))
     else None)"
  using lb lim
proof (induction k arbitrary: i b xs first acts)
  case 0
  then show ?case by simp
next
  case (Suc k)
  have nf: "unat nf < 2 ^ 32" by (rule unat_less_exp) simp
  have ui: "unat (of_nat i :: u32) = i" using Suc.prems(2) nf by (intro unat_of_nat_small) simp
  have uD: "unat (of_nat D :: u32) = D" using D(2) by (intro unat_of_nat_small) simp
  have ix: "unat ((nf - (nf - of_nat i)) mod of_nat D) = i mod D" by (simp add: unat_mod ui uD)
  have ix': "unat ((of_nat i :: u32) mod of_nat D) = i mod D" by (simp add: unat_mod ui uD)
  show ?case
    using Suc.IH [of "b[i mod D := _]" "Suc i"] Suc.prems D(1)
    by (cases xs) (simp_all add: ix ix' vec_set_def Let_def)
qed

text \<open>All repetitions: the frames arrive in blocks of \<open>n\<close>.\<close>

fun reps_write :: "nat \<Rightarrow> nat \<Rightarrow> nat \<Rightarrow> 'a list \<Rightarrow> 'a list \<Rightarrow> 'a list" where
  "reps_write D n 0 vs b = b"
| "reps_write D n (Suc r) vs b = reps_write D n r (drop n vs) (ring_write D 0 (take n vs) b)"

lemma reps_write_last:
  "reps_write D n (Suc r) vs b = ring_write D 0 (take n (drop (r * n) vs)) (reps_write D n r vs b)"
proof (induction r arbitrary: vs b)
  case 0
  then show ?case by simp
next
  case (Suc r)
  have "reps_write D n (Suc (Suc r)) vs b = reps_write D n (Suc r) (drop n vs) (ring_write D 0 (take n vs) b)" by simp
  also have "\<dots> = ring_write D 0 (take n (drop (r * n) (drop n vs))) (reps_write D n r (drop n vs) (ring_write D 0 (take n vs) b))"
    by (rule Suc.IH)
  finally show ?case by (simp add: add.commute)
qed

lemma length_reps_write [simp]: "length (reps_write D n r vs b) = length b"
  by (induction r arbitrary: vs b) simp_all

lemma get_reps:
  fixes xs :: "'s::len word ap_axiu list" and nf :: u32
  assumes D: "0 < D" "D < 2 ^ 32" and lb: "length b = D"
  shows "\<exists>racts. for_loop i r (\<lambda>_. for_loop 0 (unat nf) (\<lambda>k (b, st). do {
      let i = nf - of_nat k;
      (v, st) \<leftarrow> receive st;
      b \<leftarrow> vec_set (unat ((nf - i) mod of_nat D)) v b;
      Some (b, st) })) (b, xs, first, acts) =
    (if r * unat nf \<le> length xs
     then Some (reps_write D (unat nf) r (map axi_data xs) b, drop (r * unat nf) xs, first \<and> r * unat nf = 0, acts @ racts)
     else None) \<and> (r * unat nf \<le> length xs \<longrightarrow> racts = recv_acts first (take (r * unat nf) xs))"
  using lb
proof (induction r arbitrary: i b xs first acts)
  case 0
  then show ?case by simp
next
  case (Suc r)
  let ?n = "unat nf"
  show ?case
  proof (cases "?n \<le> length xs")
    case False
    then have "\<not> Suc r * ?n \<le> length xs" by simp
    with False show ?thesis by (simp only: for_loop.simps get_inner [OF D Suc.prems, of 0 ?n] add_0 order_refl) simp
  next
    case True
    let ?b = "ring_write D 0 (map axi_data (take ?n xs)) b"
    obtain racts where IH: "for_loop (Suc i) r (\<lambda>_. for_loop 0 ?n (\<lambda>k (b, st). do {
        let i = nf - of_nat k;
        (v, st) \<leftarrow> receive st;
        b \<leftarrow> vec_set (unat ((nf - i) mod of_nat D)) v b;
        Some (b, st) })) (?b, drop ?n xs, first \<and> ?n = 0, acts @ recv_acts first (take ?n xs)) =
      (if r * ?n \<le> length (drop ?n xs)
       then Some (reps_write D ?n r (map axi_data (drop ?n xs)) ?b, drop (r * ?n) (drop ?n xs),
         (first \<and> ?n = 0) \<and> r * ?n = 0, (acts @ recv_acts first (take ?n xs)) @ racts)
       else None)" "r * ?n \<le> length (drop ?n xs) \<longrightarrow> racts = recv_acts (first \<and> ?n = 0) (take (r * ?n) (drop ?n xs))"
      using Suc.IH [of ?b "Suc i" "drop ?n xs" "first \<and> ?n = 0" "acts @ recv_acts first (take ?n xs)"] Suc.prems
      by auto
    have len: "r * ?n \<le> length (drop ?n xs) \<longleftrightarrow> Suc r * ?n \<le> length xs" using True by auto
    have ra: "recv_acts first (take ?n xs) @ recv_acts (first \<and> ?n = 0) (take (r * ?n) (drop ?n xs)) =
        recv_acts first (take (Suc r * ?n) xs)" if "Suc r * ?n \<le> length xs"
    proof (cases "?n = 0")
      case False
      then have "take ?n xs \<noteq> []" using True by auto
      then obtain y ys where "take ?n xs = y # ys" by (meson neq_Nil_conv)
      moreover have "take (Suc r * ?n) xs = take ?n xs @ take (r * ?n) (drop ?n xs)"
        by (simp add: take_add)
      ultimately show ?thesis using False by simp
    qed simp
    have step: "for_loop i (Suc r) (\<lambda>_. for_loop 0 ?n (\<lambda>k (b, st). do {
        let i = nf - of_nat k;
        (v, st) \<leftarrow> receive st;
        b \<leftarrow> vec_set (unat ((nf - i) mod of_nat D)) v b;
        Some (b, st) })) (b, xs, first, acts) =
      (if Suc r * ?n \<le> length xs
       then Some (reps_write D ?n (Suc r) (map axi_data xs) b, drop (Suc r * ?n) xs, first \<and> Suc r * ?n = 0,
         acts @ recv_acts first (take ?n xs) @ racts) else None)"
      using True IH(1) len
      by (simp only: for_loop.simps get_inner [OF D Suc.prems, of 0 ?n] add_0 order_refl if_True option.case)
        (auto simp: take_map drop_map add.commute)
    with ra IH(2) len show ?thesis by (intro exI [of _ "recv_acts first (take ?n xs) @ racts"]) auto
  qed
qed

lemma get_perf:
  fixes ch :: "'s::len word buff_channel"
  assumes m: "mode ch = PL_PERF_MODE" and D: "0 < D" "D < 2 ^ 32" "length (buff ch) = D"
  shows "\<exists>acts :: ('s word, 'm::len word) action list.
    get D ch xs = (if unat (numRep ch) * unat (numFrames ch) \<le> length xs
      then Some (ch\<lparr>buff := reps_write D (unat (numFrames ch)) (unat (numRep ch)) (map axi_data xs) (buff ch)\<rparr>,
        drop (unat (numRep ch) * unat (numFrames ch)) xs, acts) else None) \<and>
    (unat (numRep ch) * unat (numFrames ch) \<le> length xs \<longrightarrow>
      collects (unat (delays ch)) (unat (numRep ch) * unat (numFrames ch)) xs [] acts)"
proof -
  let ?n = "unat (numRep ch) * unat (numFrames ch)"
  obtain racts :: "('s word, 'm word) action list" where
    r: "for_loop 0 (unat (numRep ch)) (\<lambda>_. for_loop 0 (unat (numFrames ch)) (\<lambda>k (b, st). do {
      let i = numFrames ch - of_nat k;
      (v, st) \<leftarrow> receive st;
      b \<leftarrow> vec_set (unat ((numFrames ch - i) mod of_nat D)) v b;
      Some (b, st) })) (buff ch, xs, True, [Delay (unat (delays ch))]) =
    (if ?n \<le> length xs
     then Some (reps_write D (unat (numFrames ch)) (unat (numRep ch)) (map axi_data xs) (buff ch), drop ?n xs,
       True \<and> ?n = 0, [Delay (unat (delays ch))] @ racts)
     else None)" "?n \<le> length xs \<longrightarrow> racts = recv_acts True (take ?n xs)"
    using get_reps [OF D(1,2,3), of 0 "unat (numRep ch)" "numFrames ch" xs True "[Delay (unat (delays ch))]"]
    by blast
  let ?acts = "[Delay (unat (delays ch))] @ racts @ (if ?n = 0 then [Trigger] else []) @ [Trigger]"
  have g: "get D ch xs = (if ?n \<le> length xs
      then Some (ch\<lparr>buff := reps_write D (unat (numFrames ch)) (unat (numRep ch)) (map axi_data xs) (buff ch)\<rparr>,
        drop ?n xs, ?acts) else None)"
    unfolding get_def Let_def wait_loop_unat using m r(1) by (auto simp: Let_def)
  have "collects (unat (delays ch)) ?n xs [] ?acts" if le: "?n \<le> length xs"
  proof -
    have racts: "racts = recv_acts True (take ?n xs)" using r(2) le by blast
    have "\<exists>rest. racts @ (if ?n = 0 then [Trigger] else []) @ [Trigger] =
        (if ?n = 0 then [] else [Receive (xs ! 0)]) @ Trigger # rest @ [Trigger]"
    proof (cases "?n = 0")
      case False
      then have "xs \<noteq> []" using le by auto
      then obtain y ys where "xs = y # ys" by (meson neq_Nil_conv)
      moreover obtain k where "?n = Suc k" using False by (meson not0_implies_Suc)
      ultimately show ?thesis unfolding racts by auto
    next
      case True
      then show ?thesis unfolding racts True by simp
    qed
    then show ?thesis using le unfolding collects_def racts by (auto simp: take_eq_Nil)
  qed
  with g show ?thesis by blast
qed

end
