(* ===== verification/Burst_Sched.thy ===== *)
theory Burst_Sched
  imports Harness_Prelude
begin

text \<open>
  The burst scheduler that \<open>load_memories\<close> and \<open>store_memories\<close> of
  \<^verbatim>\<open>include/pl/test_harness.hpp\<close> share: a round robin over the channels that still have data,
  held in the first \<open>num_valid_channels\<close> entries of a shift register. The two functions differ in the
  test whether a channel is ready for a burst or for its tail, and in how one word moves;
  these are parameters here.

  The processes of the dataflow region run concurrently with the scheduler: between any two of its
  steps, and between any two words of a burst, the environment may take a step of its own. The state is
  the control state of the scheduler and the data the processes share.
\<close>

section \<open>State\<close>

datatype sched_pc =
    Sched                     \<comment> \<open>at the head of the while loop\<close>
  | Burst nat nat             \<comment> \<open>\<open>for (int j = 0; j < BURST_LEN; j++)\<close>: channel and \<open>j\<close>\<close>
  | Tail nat "8 word" u32     \<comment> \<open>\<open>for (ap_uint<8> j = 0; j < numData; j++)\<close>: channel, \<open>j\<close>, \<open>numData\<close>\<close>
  | Finished
  | Fault                     \<comment> \<open>an access outside the memory or the channel arrays\<close>

record sched_ctl =
  channel_regs :: "u32 list"
  num_valid_channels :: u32
  frame_idx :: "nat \<Rightarrow> u32"
  pc :: sched_pc

record burst_cfg =
  bc_channels :: nat                 \<comment> \<open>\<open>NUM_CHANNELS\<close>\<close>
  bc_burst :: nat                    \<comment> \<open>\<open>BURST_LEN\<close>\<close>
  bc_ratio :: nat                    \<comment> \<open>\<open>MEM_RATIO\<close>\<close>
  bc_frames :: "nat \<Rightarrow> u32"      \<comment> \<open>\<open>numFrames\<close> of the channels\<close>
  bc_offsets :: "nat \<Rightarrow> u32"     \<comment> \<open>\<open>offsets\<close> of the channels\<close>

section \<open>The shift register\<close>

text \<open>\<open>ap_shift_reg<uint32_t, N>\<close>: \<open>shift\<close> puts a value in front and drops the last one.\<close>

definition reg_shift :: "u32 \<Rightarrow> u32 list \<Rightarrow> u32 list" where
  "reg_shift v rs = v # butlast rs"

definition sched_init :: "burst_cfg \<Rightarrow> bool \<Rightarrow> sched_ctl" where
  "sched_init c func_mode =
     \<lparr>channel_regs = fold (\<lambda>i rs. reg_shift (of_nat i) rs) [0..<bc_channels c] (replicate (bc_channels c) 0),
      num_valid_channels = of_nat (bc_channels c), frame_idx = (\<lambda>_. 0),
      pc = (if func_mode then Sched else Finished)\<rparr>"

section \<open>Steps\<close>

text \<open>\<open>(numFrames + MEM_RATIO - 1) / MEM_RATIO - frame_idx\<close>, in \<open>uint32_t\<close>.\<close>

definition words_total :: "burst_cfg \<Rightarrow> nat \<Rightarrow> u32" where
  "words_total c ch = (bc_frames c ch + of_nat (bc_ratio c) - 1) div of_nat (bc_ratio c)"

definition num_data :: "burst_cfg \<Rightarrow> sched_ctl \<Rightarrow> nat \<Rightarrow> u32" where
  "num_data c k ch = words_total c ch - frame_idx k ch"

text \<open>One iteration of the while loop up to the bursts; \<open>rb\<close> and \<open>rt\<close> are the tests of the two branches.\<close>

definition loop_head ::
  "('d \<Rightarrow> nat \<Rightarrow> bool) \<Rightarrow> ('d \<Rightarrow> nat \<Rightarrow> u32 \<Rightarrow> bool) \<Rightarrow> burst_cfg \<Rightarrow> 'd \<Rightarrow> sched_ctl \<Rightarrow> sched_ctl" where
  "loop_head rb rt c d k =
     (if num_valid_channels k = 0 then k\<lparr>pc := Finished\<rparr>
      else
        let ch_id = channel_regs k ! unat (num_valid_channels k - 1);
            ch = unat ch_id;
            numData = num_data c k ch in
        if bc_channels c \<le> ch then k\<lparr>pc := Fault\<rparr>
        else if numData = 0 then k\<lparr>num_valid_channels := num_valid_channels k - 1\<rparr>
        else
          let k = k\<lparr>channel_regs := reg_shift ch_id (channel_regs k)\<rparr> in
          if numData \<ge> of_nat (bc_burst c) \<and> rb d ch then k\<lparr>pc := Burst ch 0\<rparr>
          else if rt d ch numData then k\<lparr>pc := Tail ch 0 numData\<rparr>
          else k)"

text \<open>One iteration of the loops that move the words, or their end; \<open>xfer ch i\<close> moves a word between the stream
  of channel \<open>ch\<close> and memory word \<open>i\<close>.\<close>

definition word_index :: "burst_cfg \<Rightarrow> sched_ctl \<Rightarrow> nat \<Rightarrow> u32 \<Rightarrow> u32" where
  "word_index c k ch j = bc_offsets c ch + frame_idx k ch + j"

definition move_word ::
  "(nat \<Rightarrow> u32 \<Rightarrow> 'd \<Rightarrow> 'd option) \<Rightarrow> burst_cfg \<Rightarrow> sched_ctl \<Rightarrow> 'd \<Rightarrow> nat \<Rightarrow> u32 \<Rightarrow> sched_pc \<Rightarrow> sched_ctl \<times> 'd" where
  "move_word xfer c k d ch j next_pc =
     (case xfer ch (word_index c k ch j) d of
        None \<Rightarrow> (k\<lparr>pc := Fault\<rparr>, d)
      | Some d \<Rightarrow> (k\<lparr>pc := next_pc\<rparr>, d))"

definition advance_frame :: "nat \<Rightarrow> u32 \<Rightarrow> sched_ctl \<Rightarrow> sched_ctl" where
  "advance_frame ch n k = k\<lparr>frame_idx := (frame_idx k)(ch := frame_idx k ch + n), pc := Sched\<rparr>"

definition sched_step ::
  "('d \<Rightarrow> nat \<Rightarrow> bool) \<Rightarrow> ('d \<Rightarrow> nat \<Rightarrow> u32 \<Rightarrow> bool) \<Rightarrow> (nat \<Rightarrow> u32 \<Rightarrow> 'd \<Rightarrow> 'd option) \<Rightarrow> burst_cfg \<Rightarrow>
    sched_ctl \<times> 'd \<Rightarrow> sched_ctl \<times> 'd" where
  "sched_step rb rt xfer c s = (case s of (k, d) \<Rightarrow>
     case pc k of
       Sched \<Rightarrow> (loop_head rb rt c d k, d)
     | Burst ch j \<Rightarrow>
         if j < bc_burst c then move_word xfer c k d ch (of_nat j) (Burst ch (Suc j))
         else (advance_frame ch (of_nat (bc_burst c)) k, d)
     | Tail ch j n \<Rightarrow>
         if ucast j < n then move_word xfer c k d ch (ucast j) (Tail ch (j + 1) n)
         else (advance_frame ch n k, d)
     | Finished \<Rightarrow> s
     | Fault \<Rightarrow> s)"

text \<open>The interleaving with the environment.\<close>

inductive burst_step ::
  "('d \<Rightarrow> nat \<Rightarrow> bool) \<Rightarrow> ('d \<Rightarrow> nat \<Rightarrow> u32 \<Rightarrow> bool) \<Rightarrow> (nat \<Rightarrow> u32 \<Rightarrow> 'd \<Rightarrow> 'd option) \<Rightarrow> ('d \<Rightarrow> 'd \<Rightarrow> bool) \<Rightarrow>
    burst_cfg \<Rightarrow> sched_ctl \<times> 'd \<Rightarrow> sched_ctl \<times> 'd \<Rightarrow> bool"
  for rb rt xfer env c where
    scheduler: "pc (fst s) \<noteq> Finished \<Longrightarrow> pc (fst s) \<noteq> Fault \<Longrightarrow>
      burst_step rb rt xfer env c s (sched_step rb rt xfer c s)"
  | environment: "env d d' \<Longrightarrow> burst_step rb rt xfer env c (k, d) (k, d')"

end
