(* ===== verification/Burst_Inv.thy ===== *)
theory Burst_Inv
  imports Burst_Sched
begin

text \<open>
  The contract between the burst scheduler and the way words move, as a locale, and what follows from it
  for every interleaving: the scheduler never touches anything outside its arrays, moves every
  channel's words exactly once and in order, and can always finish.
\<close>

section \<open>Sizes\<close>

definition chan_words :: "burst_cfg \<Rightarrow> nat \<Rightarrow> nat" where
  "chan_words c ch = unat (words_total c ch)"

definition cfg_ok :: "burst_cfg \<Rightarrow> bool" where
  "cfg_ok c \<longleftrightarrow> bc_channels c < 2 ^ 32 \<and> 0 < bc_burst c \<and> bc_burst c \<le> 128 \<and>
     (\<forall>ch < bc_channels c. unat (bc_offsets c ch) + chan_words c ch \<le> 2 ^ 32)"

text \<open>The words of each channel moved so far.\<close>

definition in_burst :: "sched_pc \<Rightarrow> nat \<Rightarrow> nat" where
  "in_burst p ch = (case p of
     Burst ch' j \<Rightarrow> if ch' = ch then j else 0
   | Tail ch' j n \<Rightarrow> if ch' = ch then unat j else 0
   | _ \<Rightarrow> 0)"

definition moved :: "sched_ctl \<Rightarrow> nat \<Rightarrow> nat" where
  "moved k = (\<lambda>ch. unat (frame_idx k ch) + in_burst (pc k) ch)"

lemma in_burst_simps [simp]:
  "in_burst Sched = (\<lambda>_. 0)" "in_burst Finished = (\<lambda>_. 0)" "in_burst Fault = (\<lambda>_. 0)"
  by (simp_all add: fun_eq_iff in_burst_def)

lemma in_burst_moving:
  "in_burst (Burst c j) = (\<lambda>ch. if c = ch then j else 0)"
  "in_burst (Tail c i n) = (\<lambda>ch. if c = ch then unat i else 0)"
  by (simp_all add: fun_eq_iff in_burst_def)

lemma in_burst_start [simp]: "in_burst (Burst c 0) = (\<lambda>_. 0)" "in_burst (Tail c 0 n) = (\<lambda>_. 0)"
  by (simp_all add: fun_eq_iff in_burst_def)

section \<open>The control invariant\<close>

definition live :: "sched_ctl \<Rightarrow> u32 list" where
  "live k = take (unat (num_valid_channels k)) (channel_regs k)"

definition queue_ok :: "burst_cfg \<Rightarrow> sched_ctl \<Rightarrow> bool" where
  "queue_ok c k \<longleftrightarrow> length (channel_regs k) = bc_channels c \<and>
     unat (num_valid_channels k) \<le> bc_channels c \<and> distinct (live k) \<and>
     (\<forall>r \<in> set (live k). unat r < bc_channels c) \<and>
     (\<forall>ch < bc_channels c. unat (frame_idx k ch) \<le> chan_words c ch) \<and>
     (\<forall>ch < bc_channels c. of_nat ch \<notin> set (live k) \<longrightarrow> unat (frame_idx k ch) = chan_words c ch)"

definition pc_ok :: "burst_cfg \<Rightarrow> sched_ctl \<Rightarrow> bool" where
  "pc_ok c k \<longleftrightarrow> (case pc k of
     Sched \<Rightarrow> True
   | Burst ch j \<Rightarrow> ch < bc_channels c \<and> j \<le> bc_burst c \<and> unat (frame_idx k ch) + bc_burst c \<le> chan_words c ch
   | Tail ch j n \<Rightarrow> ch < bc_channels c \<and> unat j \<le> unat n \<and> n \<noteq> 0 \<and> unat n < bc_burst c \<and>
       unat (frame_idx k ch) + unat n = chan_words c ch
   | Finished \<Rightarrow> num_valid_channels k = 0
   | Fault \<Rightarrow> False)"

lemma live_rotate:
  assumes "length rs = N" "0 < n" "n \<le> N" "0 < N"
  shows "take n (reg_shift (rs ! (n - 1)) rs) = rs ! (n - 1) # take (n - 1) rs"
    "take n rs = take (n - 1) rs @ [rs ! (n - 1)]"
proof -
  obtain m where m: "n = Suc m" using assms(2) by (cases n) auto
  have "take m (butlast rs) = take m rs" using assms m by (simp add: butlast_conv_take)
  then show "take n (reg_shift (rs ! (n - 1)) rs) = rs ! (n - 1) # take (n - 1) rs"
    by (simp add: m reg_shift_def)
  show "take n rs = take (n - 1) rs @ [rs ! (n - 1)]"
    using assms m by (simp add: take_Suc_conv_app_nth)
qed

lemma num_data_nat:
  "unat (frame_idx k ch) \<le> chan_words c ch \<Longrightarrow> unat (num_data c k ch) = chan_words c ch - unat (frame_idx k ch)"
  by (simp add: num_data_def chan_words_def unat_sub_small)

text \<open>What the head of the loop finds at the end of the live prefix.\<close>

lemma queue_head:
  assumes q: "queue_ok c k" and nv: "num_valid_channels k \<noteq> 0"
  defines "r \<equiv> channel_regs k ! unat (num_valid_channels k - 1)"
  shows "unat r < bc_channels c" "r \<in> set (live k)"
    "live k = take (unat (num_valid_channels k) - 1) (channel_regs k) @ [r]"
    "unat (num_valid_channels k - 1) = unat (num_valid_channels k) - 1"
proof -
  have p: "0 < unat (num_valid_channels k)" using nv by (simp add: unat_gt_0)
  then show u: "unat (num_valid_channels k - 1) = unat (num_valid_channels k) - 1"
    by (simp add: unat_sub_small Suc_leI)
  show l: "live k = take (unat (num_valid_channels k) - 1) (channel_regs k) @ [r]"
    using live_rotate(2) [of "channel_regs k" "bc_channels c" "unat (num_valid_channels k)"] q p
    by (simp add: queue_ok_def live_def r_def u)
  then show "r \<in> set (live k)" by simp
  then show "unat r < bc_channels c" using q by (simp add: queue_ok_def)
qed

lemma queue_ok_pc [simp]: "queue_ok c (k\<lparr>pc := p\<rparr>) = queue_ok c k"
  by (simp add: queue_ok_def live_def)

lemma queue_drop:
  assumes c: "cfg_ok c" and q: "queue_ok c k" and nv: "num_valid_channels k \<noteq> 0"
    and z: "num_data c k (unat (channel_regs k ! unat (num_valid_channels k - 1))) = 0"
  shows "queue_ok c (k\<lparr>num_valid_channels := num_valid_channels k - 1\<rparr>)"
proof -
  let ?r = "channel_regs k ! unat (num_valid_channels k - 1)"
  note h = queue_head [OF q nv]
  have le: "unat (frame_idx k (unat ?r)) \<le> chan_words c (unat ?r)" using q h(1) by (simp add: queue_ok_def)
  have "unat (num_data c k (unat ?r)) = 0" using z by simp
  then have f: "unat (frame_idx k (unat ?r)) = chan_words c (unat ?r)" using num_data_nat [OF le] le by simp
  have lv: "live (k\<lparr>num_valid_channels := num_valid_channels k - 1\<rparr>) =
      take (unat (num_valid_channels k) - 1) (channel_regs k)"
    by (simp add: live_def h(4))
  have fin: "unat (frame_idx k ch) = chan_words c ch"
    if ch: "ch < bc_channels c" "of_nat ch \<notin> set (take (unat (num_valid_channels k) - 1) (channel_regs k))" for ch
  proof (cases "of_nat ch = ?r")
    case True
    have "unat (of_nat ch :: u32) = ch" using ch(1) c by (intro unat_of_nat_small) (simp add: cfg_ok_def)
    then show ?thesis using f True by simp
  next
    case False
    then have "of_nat ch \<notin> set (live k)" using ch(2) h(3) by simp
    then show ?thesis using q ch(1) by (simp add: queue_ok_def)
  qed
  have "distinct (take (unat (num_valid_channels k) - 1) (channel_regs k))"
    using q h(3) by (simp add: queue_ok_def)
  moreover have "\<forall>r \<in> set (take (unat (num_valid_channels k) - 1) (channel_regs k)). unat r < bc_channels c"
    using q h(3) by (simp add: queue_ok_def)
  ultimately show ?thesis using q fin unfolding queue_ok_def lv by (auto simp: h(4))
qed

lemma queue_rotate:
  assumes q: "queue_ok c k" and nv: "num_valid_channels k \<noteq> 0"
  shows "queue_ok c (k\<lparr>channel_regs :=
    reg_shift (channel_regs k ! unat (num_valid_channels k - 1)) (channel_regs k)\<rparr>)"
proof -
  let ?r = "channel_regs k ! unat (num_valid_channels k - 1)"
  let ?k = "k\<lparr>channel_regs := reg_shift ?r (channel_regs k)\<rparr>"
  note h = queue_head [OF q nv]
  have n: "length (channel_regs k) = bc_channels c" "0 < unat (num_valid_channels k)"
    "unat (num_valid_channels k) \<le> bc_channels c"
    using q nv by (simp_all add: queue_ok_def unat_gt_0)
  have lv: "live ?k = ?r # take (unat (num_valid_channels k) - 1) (channel_regs k)"
    using live_rotate(1) [OF n] n h(4) by (simp add: live_def)
  have s: "set (live ?k) = set (live k)" using h(3) lv by auto
  have "distinct (live ?k)" using q h(3) lv by (simp add: queue_ok_def)
  moreover have "length (reg_shift ?r (channel_regs k)) = bc_channels c"
    using n by (simp add: reg_shift_def)
  ultimately show ?thesis using q s unfolding queue_ok_def by simp
qed

text \<open>The invariant at the start.\<close>

lemma init_regs:
  "fold (\<lambda>i rs. reg_shift (of_nat i) rs) [0..<n] (replicate N 0) =
     map of_nat (rev [0..<n]) @ replicate (N - n) (0 :: u32)" if "n \<le> N"
  using that
proof (induction n)
  case (Suc n)
  then have "replicate (N - n) (0 :: u32) = replicate (N - Suc n) 0 @ [0]"
    by (metis Suc_diff_le diff_Suc_Suc replicate_Suc replicate_append_same)
  with Suc show ?case by (simp add: reg_shift_def butlast_append)
qed simp

lemma distinct_of_nat: "N < 2 ^ 32 \<Longrightarrow> distinct (map (of_nat :: nat \<Rightarrow> u32) (rev [0..<N]))"
proof -
  assume N: "N < 2 ^ 32"
  have "inj_on (of_nat :: nat \<Rightarrow> u32) {0..<N}"
  proof (rule inj_onI)
    fix x y assume xy: "x \<in> {0..<N}" "y \<in> {0..<N}" and e: "(of_nat x :: u32) = of_nat y"
    have "unat (of_nat x :: u32) = x" "unat (of_nat y :: u32) = y"
      using xy N by (intro unat_of_nat_small; simp)+
    with e show "x = y" by metis
  qed
  then show ?thesis by (simp add: distinct_map)
qed

lemma init_queue:
  assumes "cfg_ok c"
  shows "queue_ok c (sched_init c f)" "frame_idx (sched_init c f) = (\<lambda>_. 0)"
proof -
  let ?N = "bc_channels c"
  have N: "?N < 2 ^ 32" using assms by (simp add: cfg_ok_def)
  then have n: "unat (of_nat ?N :: u32) = ?N" by (intro unat_of_nat_small) simp
  have r: "channel_regs (sched_init c f) = map of_nat (rev [0..<?N])"
    using init_regs [of ?N ?N] by (simp add: sched_init_def)
  have lv: "live (sched_init c f) = map of_nat (rev [0..<?N])"
    by (simp add: live_def r) (simp add: sched_init_def n)
  have "\<forall>x \<in> set (map of_nat (rev [0..<?N]) :: u32 list). unat x < ?N"
    using N by (auto simp: unat_of_nat_small)
  then show "queue_ok c (sched_init c f)"
    unfolding queue_ok_def lv using r distinct_of_nat [OF N] n by (simp add: sched_init_def)
  show "frame_idx (sched_init c f) = (\<lambda>_. 0)" by (simp add: sched_init_def)
qed

section \<open>The contract\<close>

text \<open>
  \<open>Inv m d\<close> is what the provider keeps of its data when \<open>m ch\<close> words of channel \<open>ch\<close> have been moved;
  \<open>room d ch n\<close> says that \<open>n\<close> more words of the channel can move without waiting; \<open>em\<close> measures the
  work the environment can do on its own.
\<close>

locale word_mover =
  fixes c :: burst_cfg
    and rb :: "'d \<Rightarrow> nat \<Rightarrow> bool" and rt :: "'d \<Rightarrow> nat \<Rightarrow> u32 \<Rightarrow> bool"
    and xfer :: "nat \<Rightarrow> u32 \<Rightarrow> 'd \<Rightarrow> 'd option" and env :: "'d \<Rightarrow> 'd \<Rightarrow> bool"
    and Inv :: "(nat \<Rightarrow> nat) \<Rightarrow> 'd \<Rightarrow> bool" and room :: "'d \<Rightarrow> nat \<Rightarrow> nat \<Rightarrow> bool"
    and em :: "'d \<Rightarrow> nat"
  assumes cfg: "\<And>m d. Inv m d \<Longrightarrow> cfg_ok c"
    and burst_room: "\<And>m d ch. Inv m d \<Longrightarrow> ch < bc_channels c \<Longrightarrow> rb d ch \<Longrightarrow> room d ch (bc_burst c)"
    and tail_room: "\<And>m d ch n. Inv m d \<Longrightarrow> ch < bc_channels c \<Longrightarrow> m ch + unat n = chan_words c ch \<Longrightarrow>
      n \<noteq> 0 \<Longrightarrow> rt d ch n \<Longrightarrow> \<not> (bc_burst c \<le> unat n \<and> rb d ch) \<Longrightarrow> unat n < bc_burst c \<and> room d ch (unat n)"
    and xfer_ok: "\<And>m d ch k. Inv m d \<Longrightarrow> ch < bc_channels c \<Longrightarrow> m ch < chan_words c ch \<Longrightarrow> room d ch (Suc k) \<Longrightarrow>
      \<exists>d'. xfer ch (bc_offsets c ch + of_nat (m ch)) d = Some d' \<and> Inv (m(ch := Suc (m ch))) d' \<and>
        room d' ch k \<and> em d' \<le> Suc (em d)"
    and env_ok: "\<And>m d d'. Inv m d \<Longrightarrow> env d d' \<Longrightarrow>
      Inv m d' \<and> em d' < em d \<and> (\<forall>ch k. room d ch k \<longrightarrow> room d' ch k)"
    and quiet: "\<And>m d ch n. Inv m d \<Longrightarrow> \<forall>d'. \<not> env d d' \<Longrightarrow> ch < bc_channels c \<Longrightarrow>
      m ch + unat n = chan_words c ch \<Longrightarrow> n \<noteq> 0 \<Longrightarrow> (bc_burst c \<le> unat n \<and> rb d ch) \<or> rt d ch n"

text \<open>Definitions of the client, outside the locale: the room a burst in progress still needs, the measure of
  the work left, and the control part of the invariant.\<close>

definition burst_room_left :: "burst_cfg \<Rightarrow> ('d \<Rightarrow> nat \<Rightarrow> nat \<Rightarrow> bool) \<Rightarrow> sched_ctl \<Rightarrow> 'd \<Rightarrow> bool" where
  "burst_room_left c room k d = (case pc k of
     Burst ch j \<Rightarrow> room d ch (bc_burst c - j)
   | Tail ch j n \<Rightarrow> room d ch (unat n - unat j)
   | _ \<Rightarrow> True)"

definition sched_inv ::
  "burst_cfg \<Rightarrow> ((nat \<Rightarrow> nat) \<Rightarrow> 'd \<Rightarrow> bool) \<Rightarrow> ('d \<Rightarrow> nat \<Rightarrow> nat \<Rightarrow> bool) \<Rightarrow> sched_ctl \<times> 'd \<Rightarrow> bool" where
  "sched_inv c Inv room s = (case s of (k, d) \<Rightarrow>
     queue_ok c k \<and> pc_ok c k \<and> Inv (moved k) d \<and> burst_room_left c room k d)"

definition pc_weight :: "burst_cfg \<Rightarrow> sched_pc \<Rightarrow> nat" where
  "pc_weight c p = (case p of
     Sched \<Rightarrow> 1
   | Burst ch j \<Rightarrow> if j < bc_burst c then 0 else 2
   | Tail ch j n \<Rightarrow> if unat j < unat n then 0 else 2
   | _ \<Rightarrow> 0)"

definition words_left :: "burst_cfg \<Rightarrow> sched_ctl \<Rightarrow> nat" where
  "words_left c k = (\<Sum>ch < bc_channels c. chan_words c ch - moved k ch)"

definition work :: "burst_cfg \<Rightarrow> ('d \<Rightarrow> nat) \<Rightarrow> sched_ctl \<times> 'd \<Rightarrow> nat" where
  "work c em s = (case s of (k, d) \<Rightarrow>
     4 * words_left c k + em d + pc_weight c (pc k) + unat (num_valid_channels k))"

lemma words_left_move:
  assumes "ch < bc_channels c" "moved k ch < chan_words c ch" "moved k' = (moved k)(ch := Suc (moved k ch))"
  shows "words_left c k = Suc (words_left c k')"
proof -
  let ?f = "\<lambda>x. chan_words c x - moved k x" and ?g = "\<lambda>x. chan_words c x - moved k' x"
  have "sum ?f {..<bc_channels c} = ?f ch + sum ?f ({..<bc_channels c} - {ch})"
    using assms(1) by (intro sum.remove) auto
  also have "sum ?f ({..<bc_channels c} - {ch}) = sum ?g ({..<bc_channels c} - {ch})"
    using assms(3) by (intro sum.cong) auto
  also have "?f ch = Suc (?g ch)" using assms(2,3) by simp
  also have "Suc (?g ch) + sum ?g ({..<bc_channels c} - {ch}) = Suc (sum ?g {..<bc_channels c})"
    using assms(1) by (subst sum.remove [of _ ch]) auto
  finally show ?thesis by (simp add: words_left_def)
qed

lemma word_index_moved:
  "word_index c k ch (of_nat j) = bc_offsets c ch + of_nat (unat (frame_idx k ch) + j)"
  by (simp add: word_index_def add.assoc)

context word_mover
begin

lemma move_word_step:
  assumes inv: "queue_ok c k" "Inv (moved k) d" and ch: "ch < bc_channels c"
    and lt: "moved k ch < chan_words c ch" and room: "room d ch (Suc n)"
    and j: "moved k ch = unat (frame_idx k ch) + j"
    and p: "in_burst p = (in_burst (pc k))(ch := Suc j)" "in_burst (pc k) ch = j"
  shows "\<exists>d'. move_word xfer c k d ch (of_nat j) p = (k\<lparr>pc := p\<rparr>, d') \<and>
    Inv (moved (k\<lparr>pc := p\<rparr>)) d' \<and> room d' ch n \<and> em d' \<le> Suc (em d) \<and>
    words_left c k = Suc (words_left c (k\<lparr>pc := p\<rparr>))"
proof -
  obtain d' where d': "xfer ch (bc_offsets c ch + of_nat (moved k ch)) d = Some d'"
    "Inv ((moved k)(ch := Suc (moved k ch))) d'" "room d' ch n" "em d' \<le> Suc (em d)"
    using xfer_ok [OF inv(2) ch lt room] by blast
  have m: "moved (k\<lparr>pc := p\<rparr>) = (moved k)(ch := Suc (moved k ch))"
    using p by (auto simp: moved_def fun_eq_iff)
  have "move_word xfer c k d ch (of_nat j) p = (k\<lparr>pc := p\<rparr>, d')"
    using d'(1) by (simp only: move_word_def word_index_moved j option.case)
  moreover have "words_left c k = Suc (words_left c (k\<lparr>pc := p\<rparr>))"
    by (rule words_left_move [OF ch lt m])
  ultimately show ?thesis using d' m by simp
qed

lemma loop_head_step:
  assumes inv: "sched_inv c Inv room (k, d)" and pc: "pc k = Sched"
  shows "sched_inv c Inv room (loop_head rb rt c d k, d)"
    "work c em (loop_head rb rt c d k, d) < work c em (k, d) \<or>
      work c em (loop_head rb rt c d k, d) = work c em (k, d) \<and> pc (loop_head rb rt c d k) = Sched"
    "(\<forall>d'. \<not> env d d') \<Longrightarrow> work c em (loop_head rb rt c d k, d) < work c em (k, d)"
proof -
  have q: "queue_ok c k" and I: "Inv (moved k) d" using inv by (simp_all add: sched_inv_def)
  have mk: "moved k = (\<lambda>ch. unat (frame_idx k ch))" by (simp add: moved_def pc fun_eq_iff)
  let ?k = "loop_head rb rt c d k"
  have "sched_inv c Inv room (?k, d) \<and>
    (work c em (?k, d) < work c em (k, d) \<or> work c em (?k, d) = work c em (k, d) \<and> pc ?k = Sched) \<and>
    ((\<forall>d'. \<not> env d d') \<longrightarrow> work c em (?k, d) < work c em (k, d))"
  proof (cases "num_valid_channels k = 0")
    case True
    then have "?k = k\<lparr>pc := Finished\<rparr>" by (simp add: loop_head_def)
    with True q I pc show ?thesis
      by (simp add: sched_inv_def pc_ok_def burst_room_left_def work_def pc_weight_def words_left_def moved_def)
  next
    case nv: False
    let ?r = "channel_regs k ! unat (num_valid_channels k - 1)"
    let ?ch = "unat ?r" and ?n = "num_data c k (unat ?r)"
    note h = queue_head [OF q nv]
    have ch: "?ch < bc_channels c" by (rule h(1))
    have le: "unat (frame_idx k ?ch) \<le> chan_words c ?ch" using q ch by (simp add: queue_ok_def)
    have n: "unat ?n = chan_words c ?ch - unat (frame_idx k ?ch)" by (rule num_data_nat [OF le])
    then have mn: "moved k ?ch + unat ?n = chan_words c ?ch" using le by (simp add: mk)
    show ?thesis
    proof (cases "?n = 0")
      case True
      then have k: "?k = k\<lparr>num_valid_channels := num_valid_channels k - 1\<rparr>"
        using nv ch by (simp add: loop_head_def Let_def)
      have "0 < unat (num_valid_channels k)" using nv by (simp add: unat_gt_0)
      with k queue_drop [OF cfg [OF I] q nv True] I pc h(4) show ?thesis
        by (simp add: sched_inv_def pc_ok_def burst_room_left_def work_def pc_weight_def words_left_def moved_def)
    next
      case False
      let ?kr = "k\<lparr>channel_regs := reg_shift ?r (channel_regs k)\<rparr>"
      have q0: "queue_ok c ?kr" by (rule queue_rotate [OF q nv])
      have B: "of_nat (bc_burst c) \<le> ?n \<longleftrightarrow> bc_burst c \<le> unat ?n"
        using cfg [OF I] by (simp add: word_le_nat_alt cfg_ok_def unat_of_nat_small)
      have bc: "0 < bc_burst c" using cfg [OF I] by (simp add: cfg_ok_def)
      have np: "0 < unat ?n" using False by (simp add: unat_gt_0)
      consider (burst) "bc_burst c \<le> unat ?n \<and> rb d ?ch" | (tail) "\<not> (bc_burst c \<le> unat ?n \<and> rb d ?ch)" "rt d ?ch ?n"
        | (poll) "\<not> (bc_burst c \<le> unat ?n \<and> rb d ?ch)" "\<not> rt d ?ch ?n" by blast
      then show ?thesis
      proof cases
        case burst
        then have t: "of_nat (bc_burst c) \<le> ?n" "rb d ?ch" using B by blast+
        have k: "?k = ?kr\<lparr>pc := Burst ?ch 0\<rparr>"
          using nv ch False t unfolding loop_head_def Let_def by simp
        have "room d ?ch (bc_burst c)" using burst_room [OF I ch] burst by blast
        with k q0 I pc ch burst mn bc show ?thesis
          by (simp add: sched_inv_def pc_ok_def burst_room_left_def work_def pc_weight_def words_left_def moved_def)
      next
        case tail
        then have k: "?k = ?kr\<lparr>pc := Tail ?ch 0 ?n\<rparr>"
          using nv ch False B by (simp add: loop_head_def Let_def)
        have "unat ?n < bc_burst c \<and> room d ?ch (unat ?n)"
          by (rule tail_room [OF I ch mn False tail(2,1)])
        with k q0 I pc ch False mn np show ?thesis
          by (simp add: sched_inv_def pc_ok_def burst_room_left_def work_def pc_weight_def words_left_def moved_def)
      next
        case poll
        then have k: "?k = ?kr" using nv ch False B by (auto simp: loop_head_def Let_def)
        have "\<not> (\<forall>d'. \<not> env d d')" using quiet [OF I _ ch mn False] poll by blast
        with k q0 I pc show ?thesis
          by (simp add: sched_inv_def pc_ok_def burst_room_left_def work_def pc_weight_def words_left_def moved_def)
      qed
    qed
  qed
  then show "sched_inv c Inv room (?k, d)"
    "work c em (?k, d) < work c em (k, d) \<or> work c em (?k, d) = work c em (k, d) \<and> pc ?k = Sched"
    "(\<forall>d'. \<not> env d d') \<Longrightarrow> work c em (?k, d) < work c em (k, d)" by blast+
qed

lemma burst_word_step:
  assumes inv: "sched_inv c Inv room (k, d)" and pc: "pc k = Burst ch j" and j: "j < bc_burst c"
  shows "\<exists>d'. move_word xfer c k d ch (of_nat j) (Burst ch (Suc j)) = (k\<lparr>pc := Burst ch (Suc j)\<rparr>, d') \<and>
    sched_inv c Inv room (k\<lparr>pc := Burst ch (Suc j)\<rparr>, d') \<and>
    work c em (k\<lparr>pc := Burst ch (Suc j)\<rparr>, d') < work c em (k, d)"
proof -
  have q: "queue_ok c k" and I: "Inv (moved k) d" and r: "room d ch (bc_burst c - j)"
    and p: "ch < bc_channels c" "unat (frame_idx k ch) + bc_burst c \<le> chan_words c ch"
    using inv pc by (simp_all add: sched_inv_def burst_room_left_def pc_ok_def)
  have mj: "moved k ch = unat (frame_idx k ch) + j" by (simp add: moved_def pc in_burst_moving)
  have u: "in_burst (Burst ch (Suc j)) = (in_burst (pc k))(ch := Suc j)" "in_burst (pc k) ch = j"
    using pc by (auto simp: fun_eq_iff in_burst_moving)
  have "room d ch (Suc (bc_burst c - Suc j))" using r j by (simp add: Suc_diff_Suc)
  then obtain d' where d': "move_word xfer c k d ch (of_nat j) (Burst ch (Suc j)) = (k\<lparr>pc := Burst ch (Suc j)\<rparr>, d')"
    "Inv (moved (k\<lparr>pc := Burst ch (Suc j)\<rparr>)) d'" "room d' ch (bc_burst c - Suc j)" "em d' \<le> Suc (em d)"
    "words_left c k = Suc (words_left c (k\<lparr>pc := Burst ch (Suc j)\<rparr>))"
    using move_word_step [OF q I p(1) _ _ mj u, of "bc_burst c - Suc j"] mj j p(2) by auto
  with q p j pc show ?thesis
    by (auto simp: sched_inv_def pc_ok_def burst_room_left_def work_def pc_weight_def)
qed

lemma tail_word_step:
  assumes inv: "sched_inv c Inv room (k, d)" and pc: "pc k = Tail ch j n" and j: "unat j < unat n"
  shows "\<exists>d'. move_word xfer c k d ch (ucast j) (Tail ch (j + 1) n) = (k\<lparr>pc := Tail ch (j + 1) n\<rparr>, d') \<and>
    sched_inv c Inv room (k\<lparr>pc := Tail ch (j + 1) n\<rparr>, d') \<and>
    work c em (k\<lparr>pc := Tail ch (j + 1) n\<rparr>, d') < work c em (k, d)"
proof -
  have q: "queue_ok c k" and I: "Inv (moved k) d" and r: "room d ch (unat n - unat j)"
    and p: "ch < bc_channels c" "unat (frame_idx k ch) + unat n = chan_words c ch" "unat n < bc_burst c" "n \<noteq> 0"
    using inv pc by (simp_all add: sched_inv_def burst_room_left_def pc_ok_def)
  have "unat n < 128" using p(3) cfg [OF I] by (simp add: cfg_ok_def)
  then have j1: "unat (j + 1) = Suc (unat j)" using j by (subst unat_add_small) simp_all
  have mj: "moved k ch = unat (frame_idx k ch) + unat j" by (simp add: moved_def pc in_burst_moving)
  have uj: "(of_nat (unat j) :: u32) = ucast j" by (simp only: of_nat_unat)
  have u: "in_burst (Tail ch (j + 1) n) = (in_burst (pc k))(ch := Suc (unat j))" "in_burst (pc k) ch = unat j"
    using pc j1 by (auto simp: fun_eq_iff in_burst_moving)
  have "room d ch (Suc (unat n - Suc (unat j)))" using r j by (simp add: Suc_diff_Suc)
  then obtain d' where d': "move_word xfer c k d ch (of_nat (unat j)) (Tail ch (j + 1) n) = (k\<lparr>pc := Tail ch (j + 1) n\<rparr>, d')"
    "Inv (moved (k\<lparr>pc := Tail ch (j + 1) n\<rparr>)) d'" "room d' ch (unat n - Suc (unat j))" "em d' \<le> Suc (em d)"
    "words_left c k = Suc (words_left c (k\<lparr>pc := Tail ch (j + 1) n\<rparr>))"
    using move_word_step [OF q I p(1) _ _ mj u, of "unat n - Suc (unat j)"] mj j p(2)
    by (auto simp del: of_nat_unat)
  with q p j pc j1 show ?thesis
    by (auto simp: sched_inv_def pc_ok_def burst_room_left_def work_def pc_weight_def uj)
qed

lemma advance_frame_step:
  assumes inv: "sched_inv c Inv room (k, d)"
    and pc: "pc k = Burst ch (bc_burst c) \<and> n = of_nat (bc_burst c) \<or> (\<exists>j. pc k = Tail ch j n \<and> unat j = unat n)"
  shows "sched_inv c Inv room (advance_frame ch n k, d)"
    "work c em (advance_frame ch n k, d) < work c em (k, d)"
proof -
  have q: "queue_ok c k" and I: "Inv (moved k) d" using inv by (simp_all add: sched_inv_def)
  have B: "unat (of_nat (bc_burst c) :: u32) = bc_burst c"
    using cfg [OF I] by (intro unat_of_nat_small) (simp add: cfg_ok_def)
  have p: "ch < bc_channels c" "unat (frame_idx k ch) + unat n \<le> chan_words c ch"
    using inv pc B by (auto simp: sched_inv_def pc_ok_def)
  have "chan_words c ch < 2 ^ 32" unfolding chan_words_def by (rule unat_less_exp) simp
  then have f: "unat (frame_idx k ch + n) = unat (frame_idx k ch) + unat n"
    using p(2) by (intro unat_add_small) simp
  have m: "moved (advance_frame ch n k) = moved k"
    using pc B f by (auto simp: moved_def advance_frame_def fun_eq_iff in_burst_moving)
  have l: "live (advance_frame ch n k) = live k" by (simp add: live_def advance_frame_def)
  have "queue_ok c (advance_frame ch n k)"
    unfolding queue_ok_def l
  proof (intro conjI allI impI)
    fix x assume x: "x < bc_channels c"
    show "unat (frame_idx (advance_frame ch n k) x) \<le> chan_words c x"
      using q x p f by (simp add: queue_ok_def advance_frame_def)
    assume "of_nat x \<notin> set (live k)"
    then have old: "unat (frame_idx k x) = chan_words c x" using q x by (simp add: queue_ok_def)
    then show "unat (frame_idx (advance_frame ch n k) x) = chan_words c x"
      using p f by (auto simp: advance_frame_def)
  qed (use q in \<open>simp_all add: queue_ok_def advance_frame_def\<close>)
  with m I show "sched_inv c Inv room (advance_frame ch n k, d)"
    by (simp add: sched_inv_def pc_ok_def burst_room_left_def advance_frame_def)
  have "words_left c (advance_frame ch n k) = words_left c k" by (simp add: words_left_def m)
  then show "work c em (advance_frame ch n k, d) < work c em (k, d)"
    using pc by (auto simp: work_def pc_weight_def advance_frame_def)
qed

text \<open>A step of the scheduler: it keeps the invariant, it works or polls, and it does not poll when the
  environment has nothing left to do.\<close>

lemma sched_step_ok:
  assumes inv: "sched_inv c Inv room s" and run: "pc (fst s) \<noteq> Finished"
  shows "sched_inv c Inv room (sched_step rb rt xfer c s)"
    "work c em (sched_step rb rt xfer c s) < work c em s \<or>
      work c em (sched_step rb rt xfer c s) = work c em s \<and> snd (sched_step rb rt xfer c s) = snd s"
    "(\<forall>d'. \<not> env (snd s) d') \<Longrightarrow> work c em (sched_step rb rt xfer c s) < work c em s"
proof -
  obtain k d where s: "s = (k, d)" by (cases s)
  have "sched_inv c Inv room (sched_step rb rt xfer c s) \<and>
    (work c em (sched_step rb rt xfer c s) < work c em s \<or>
      work c em (sched_step rb rt xfer c s) = work c em s \<and> snd (sched_step rb rt xfer c s) = snd s) \<and>
    ((\<forall>d'. \<not> env (snd s) d') \<longrightarrow> work c em (sched_step rb rt xfer c s) < work c em s)"
  proof (cases "pc k")
    case Sched
    with loop_head_step [of k d] inv show ?thesis by (auto simp: s sched_step_def)
  next
    case (Burst ch j)
    show ?thesis
    proof (cases "j < bc_burst c")
      case True
      with burst_word_step [of k d ch j] inv Burst show ?thesis by (auto simp: s sched_step_def)
    next
      case False
      with inv Burst have "pc k = Burst ch (bc_burst c)" by (simp add: s sched_inv_def pc_ok_def)
      with advance_frame_step [of k d ch "of_nat (bc_burst c)"] inv Burst show ?thesis
        by (auto simp: s sched_step_def)
    qed
  next
    case (Tail ch j n)
    have u: "unat (ucast j :: u32) = unat j"
      using unat_less_exp [where m = 32 and x = j] by (simp add: unsigned_ucast_eq take_bit_nat_eq_self)
    show ?thesis
    proof (cases "unat j < unat n")
      case True
      with tail_word_step [of k d ch j n] inv Tail show ?thesis
        by (auto simp: s sched_step_def word_less_nat_alt u)
    next
      case False
      with inv Tail have "unat j = unat n" by (simp add: s sched_inv_def pc_ok_def)
      with advance_frame_step [of k d ch n] inv Tail show ?thesis
        by (auto simp: s sched_step_def word_less_nat_alt u)
    qed
  next
    case Finished
    with run show ?thesis by (simp add: s)
  next
    case Fault
    with inv show ?thesis by (simp add: s sched_inv_def pc_ok_def)
  qed
  then show "sched_inv c Inv room (sched_step rb rt xfer c s)"
    "work c em (sched_step rb rt xfer c s) < work c em s \<or>
      work c em (sched_step rb rt xfer c s) = work c em s \<and> snd (sched_step rb rt xfer c s) = snd s"
    "(\<forall>d'. \<not> env (snd s) d') \<Longrightarrow> work c em (sched_step rb rt xfer c s) < work c em s" by blast+
qed

section \<open>Every interleaving\<close>

lemma step_ok:
  assumes inv: "sched_inv c Inv room s" and step: "burst_step rb rt xfer env c s s'"
  shows "sched_inv c Inv room s' \<and> (work c em s' < work c em s \<or> work c em s' = work c em s \<and> snd s' = snd s)"
  using step
proof (cases rule: burst_step.cases)
  case scheduler
  then show ?thesis using sched_step_ok(1,2) [OF inv] by blast
next
  case (environment d d' k)
  then have "Inv (moved k) d" using inv by (simp add: sched_inv_def)
  from env_ok [OF this environment(3)] show ?thesis
    using environment inv
    by (auto simp: sched_inv_def burst_room_left_def work_def split: sched_pc.splits)
qed

lemma reach_inv:
  assumes "(burst_step rb rt xfer env c)\<^sup>*\<^sup>* s s'" "sched_inv c Inv room s"
  shows "sched_inv c Inv room s'"
  using assms by (induction rule: rtranclp_induct) (use step_ok in blast)+

lemma init_inv:
  assumes "Inv (\<lambda>_. 0) d" shows "sched_inv c Inv room (sched_init c True, d)"
proof -
  note i = init_queue [OF cfg [OF assms]]
  have p: "pc (sched_init c True) = Sched" by (simp add: sched_init_def)
  have "moved (sched_init c True) = (\<lambda>_. 0)" by (simp add: moved_def p i(2))
  with i(1) p assms show ?thesis by (simp add: sched_inv_def pc_ok_def burst_room_left_def)
qed

lemma no_fault: "sched_inv c Inv room s \<Longrightarrow> pc (fst s) \<noteq> Fault"
  by (cases s) (auto simp: sched_inv_def pc_ok_def)

lemma finished_all_moved:
  assumes "sched_inv c Inv room (k, d)" "pc k = Finished"
  shows "Inv (moved k) d" "\<And>ch. ch < bc_channels c \<Longrightarrow> moved k ch = chan_words c ch"
proof -
  show "Inv (moved k) d" using assms(1) by (simp add: sched_inv_def)
  fix ch assume "ch < bc_channels c"
  moreover have "live k = []" using assms by (simp add: sched_inv_def pc_ok_def live_def)
  ultimately show "moved k ch = chan_words c ch"
    using assms by (simp add: sched_inv_def queue_ok_def moved_def)
qed

text \<open>No deadlock: as long as the scheduler has not returned, some step does work.\<close>

lemma progress:
  assumes inv: "sched_inv c Inv room s" and run: "pc (fst s) \<noteq> Finished"
  shows "\<exists>s'. burst_step rb rt xfer env c s s' \<and> work c em s' < work c em s"
proof (cases "\<exists>d'. env (snd s) d'")
  case True
  then obtain d' where d': "env (snd s) d'" by blast
  obtain k d where s: "s = (k, d)" by (cases s)
  have "burst_step rb rt xfer env c (k, d) (k, d')" using d' by (intro burst_step.environment) (simp add: s)
  moreover have "em d' < em d" using env_ok [of "moved k" d d'] d' inv by (simp add: s sched_inv_def)
  then have "work c em (k, d') < work c em (k, d)" by (simp add: work_def)
  ultimately show ?thesis unfolding s by blast
next
  case False
  then have "work c em (sched_step rb rt xfer c s) < work c em s"
    using sched_step_ok(3) [OF inv run] by blast
  moreover have "burst_step rb rt xfer env c s (sched_step rb rt xfer c s)"
    using run no_fault [OF inv] by (intro burst_step.scheduler)
  ultimately show ?thesis by blast
qed

lemma can_finish:
  "sched_inv c Inv room s \<Longrightarrow>
    \<exists>s'. (burst_step rb rt xfer env c)\<^sup>*\<^sup>* s s' \<and> pc (fst s') = Finished"
proof (induction "work c em s" arbitrary: s rule: less_induct)
  case less
  show ?case
  proof (cases "pc (fst s) = Finished")
    case False
    then obtain t where t: "burst_step rb rt xfer env c s t" "work c em t < work c em s"
      using progress [OF less.prems] by blast
    obtain s' where "(burst_step rb rt xfer env c)\<^sup>*\<^sup>* t s'" "pc (fst s') = Finished"
      using less.hyps [OF t(2)] step_ok [OF less.prems t(1)] by blast
    with t(1) show ?thesis by (meson converse_rtranclp_into_rtranclp)
  qed blast
qed

end

end
