(* ===== verification/Load_Memories.thy ===== *)
theory Load_Memories
  imports Burst_Inv
begin

text \<open>
  \<open>load_memories\<close> of \<^verbatim>\<open>include/pl/test_harness.hpp\<close>: the memory is read in bursts into one stream per
  channel, each with room for two bursts, while the feeders of the channels take words out of the
  streams at any time. \<open>write_nb\<close> drops a word when the stream is full.
\<close>

section \<open>The streams\<close>

record 'w load_data =
  to_fifo :: "nat \<Rightarrow> 'w list"
  fed :: "nat \<Rightarrow> 'w list"       \<comment> \<open>what the feeder of the channel has taken so far\<close>

text \<open>\<open>#pragma HLS stream variable = to_aie_strm depth = BURST_LEN * 2\<close>\<close>

definition fifo_capacity :: "burst_cfg \<Rightarrow> nat" where
  "fifo_capacity c = bc_burst c * 2"

definition load_burst_ready :: "burst_cfg \<Rightarrow> 'w load_data \<Rightarrow> nat \<Rightarrow> bool" where
  "load_burst_ready c d ch \<longleftrightarrow>
     (of_nat (length (to_fifo d ch)) :: u32) + of_nat (bc_burst c) \<le> of_nat (fifo_capacity c)"

definition load_tail_ready :: "burst_cfg \<Rightarrow> 'w load_data \<Rightarrow> nat \<Rightarrow> u32 \<Rightarrow> bool" where
  "load_tail_ready c d ch n \<longleftrightarrow> of_nat (length (to_fifo d ch)) + n \<le> of_nat (fifo_capacity c)"

definition load_word :: "burst_cfg \<Rightarrow> 'w list \<Rightarrow> nat \<Rightarrow> u32 \<Rightarrow> 'w load_data \<Rightarrow> 'w load_data option" where
  "load_word c mem ch i d = (case vec_get (unat i) mem of
     None \<Rightarrow> None
   | Some tmp \<Rightarrow>
       Some (if length (to_fifo d ch) < fifo_capacity c
             then d\<lparr>to_fifo := (to_fifo d)(ch := to_fifo d ch @ [tmp])\<rparr> else d))"

inductive feeder_takes :: "burst_cfg \<Rightarrow> 'w load_data \<Rightarrow> 'w load_data \<Rightarrow> bool" for c where
  take_word: "ch < bc_channels c \<Longrightarrow> to_fifo d ch = w # ws \<Longrightarrow>
    feeder_takes c d (d\<lparr>to_fifo := (to_fifo d)(ch := ws), fed := (fed d)(ch := fed d ch @ [w])\<rparr>)"

inductive_cases feeder_takesE: "feeder_takes c d d'"

definition load_step :: "burst_cfg \<Rightarrow> 'w list \<Rightarrow> sched_ctl \<times> 'w load_data \<Rightarrow> sched_ctl \<times> 'w load_data \<Rightarrow> bool" where
  "load_step c mem = burst_step (load_burst_ready c) (load_tail_ready c) (load_word c mem) (feeder_takes c) c"

text \<open>\<open>if (to_aie_ch[0].mode == FUNC_MODE)\<close> decides whether the loop runs at all.\<close>

definition load_memories_init :: "burst_cfg \<Rightarrow> bool \<Rightarrow> sched_ctl \<times> 'w load_data" where
  "load_memories_init c func_mode = (sched_init c func_mode, \<lparr>to_fifo = (\<lambda>_. []), fed = (\<lambda>_. [])\<rparr>)"

section \<open>The contract\<close>

text \<open>The configuration of a transaction that fits the memory.\<close>

definition load_ok :: "burst_cfg \<Rightarrow> 'w list \<Rightarrow> bool" where
  "load_ok c mem \<longleftrightarrow> cfg_ok c \<and> length mem \<le> 2 ^ 32 \<and>
     (\<forall>ch < bc_channels c. chan_words c ch + fifo_capacity c < 2 ^ 32 \<and>
        unat (bc_offsets c ch) + chan_words c ch \<le> length mem)"

definition chan_slice :: "burst_cfg \<Rightarrow> 'w list \<Rightarrow> nat \<Rightarrow> 'w list" where
  "chan_slice c mem ch = take (chan_words c ch) (drop (unat (bc_offsets c ch)) mem)"

definition load_inv :: "burst_cfg \<Rightarrow> 'w list \<Rightarrow> (nat \<Rightarrow> nat) \<Rightarrow> 'w load_data \<Rightarrow> bool" where
  "load_inv c mem m d \<longleftrightarrow> load_ok c mem \<and>
     (\<forall>ch < bc_channels c. m ch \<le> chan_words c ch \<and> length (to_fifo d ch) \<le> fifo_capacity c \<and>
        fed d ch @ to_fifo d ch = take (m ch) (chan_slice c mem ch))"

definition load_room :: "burst_cfg \<Rightarrow> 'w load_data \<Rightarrow> nat \<Rightarrow> nat \<Rightarrow> bool" where
  "load_room c d ch n \<longleftrightarrow> length (to_fifo d ch) + n \<le> fifo_capacity c"

definition load_pending :: "burst_cfg \<Rightarrow> 'w load_data \<Rightarrow> nat" where
  "load_pending c d = (\<Sum>ch < bc_channels c. length (to_fifo d ch))"

lemma capacity_word:
  assumes "load_ok c mem" shows "unat (of_nat (fifo_capacity c) :: u32) = fifo_capacity c"
proof -
  have "bc_burst c * 2 \<le> 128 * 2" using assms by (intro mult_le_mono1) (simp add: load_ok_def cfg_ok_def)
  then show ?thesis by (intro unat_of_nat_small) (simp add: fifo_capacity_def)
qed

text \<open>The two tests of the code, on natural numbers.\<close>

lemma load_tests:
  assumes ok: "load_ok c mem" and ch: "ch < bc_channels c" and len: "length (to_fifo d ch) \<le> fifo_capacity c"
    and n: "unat n \<le> chan_words c ch"
  shows "load_burst_ready c d ch \<longleftrightarrow> length (to_fifo d ch) + bc_burst c \<le> fifo_capacity c"
    "load_tail_ready c d ch n \<longleftrightarrow> length (to_fifo d ch) + unat n \<le> fifo_capacity c"
proof -
  have B: "bc_burst c \<le> 128" "chan_words c ch + fifo_capacity c < 2 ^ 32"
    using ok ch by (simp_all add: load_ok_def cfg_ok_def)
  have l: "unat (of_nat (length (to_fifo d ch)) :: u32) = length (to_fifo d ch)"
    using len B by (intro unat_of_nat_small) simp
  have b: "unat (of_nat (bc_burst c) :: u32) = bc_burst c" using B by (intro unat_of_nat_small) simp
  have "length (to_fifo d ch) + bc_burst c < 2 ^ 32" using len B by (simp add: fifo_capacity_def)
  then have s: "unat (of_nat (length (to_fifo d ch)) + of_nat (bc_burst c) :: u32) = length (to_fifo d ch) + bc_burst c"
    using l b by (subst unat_add_small) simp_all
  show "load_burst_ready c d ch \<longleftrightarrow> length (to_fifo d ch) + bc_burst c \<le> fifo_capacity c"
    by (simp add: load_burst_ready_def word_le_nat_alt s capacity_word [OF ok])
  have "length (to_fifo d ch) + unat n < 2 ^ 32" using len n B by linarith
  then have "unat (of_nat (length (to_fifo d ch)) + n) = length (to_fifo d ch) + unat n"
    using l by (subst unat_add_small) simp_all
  then show "load_tail_ready c d ch n \<longleftrightarrow> length (to_fifo d ch) + unat n \<le> fifo_capacity c"
    by (simp add: load_tail_ready_def word_le_nat_alt capacity_word [OF ok])
qed

lemma load_word_ok:
  assumes inv: "load_inv c mem m d" and ch: "ch < bc_channels c" and lt: "m ch < chan_words c ch"
    and room: "load_room c d ch (Suc k)"
  shows "\<exists>d'. load_word c mem ch (bc_offsets c ch + of_nat (m ch)) d = Some d' \<and>
    load_inv c mem (m(ch := Suc (m ch))) d' \<and> load_room c d' ch k \<and> load_pending c d' \<le> Suc (load_pending c d)"
proof -
  let ?o = "unat (bc_offsets c ch)"
  have ok: "length mem \<le> 2 ^ 32" "?o + chan_words c ch \<le> length mem" using inv ch by (simp_all add: load_inv_def load_ok_def)
  have "unat (of_nat (m ch) :: u32) = m ch" using lt ok by (intro unat_of_nat_small) simp
  then have ix: "unat (bc_offsets c ch + of_nat (m ch)) = ?o + m ch"
    using lt ok by (subst unat_add_small) simp_all
  let ?w = "mem ! (?o + m ch)"
  let ?d = "d\<lparr>to_fifo := (to_fifo d)(ch := to_fifo d ch @ [?w])\<rparr>"
  have free: "length (to_fifo d ch) < fifo_capacity c" using room by (simp add: load_room_def)
  have "load_word c mem ch (bc_offsets c ch + of_nat (m ch)) d = Some ?d"
    using free lt ok by (simp add: load_word_def vec_get_def ix)
  moreover have "load_inv c mem (m(ch := Suc (m ch))) ?d"
  proof -
    have "chan_slice c mem ch ! m ch = ?w" "m ch < length (chan_slice c mem ch)"
      using lt ok by (simp_all add: chan_slice_def)
    then have "take (Suc (m ch)) (chan_slice c mem ch) = take (m ch) (chan_slice c mem ch) @ [?w]"
      by (simp add: take_Suc_conv_app_nth)
    with inv ch lt free show ?thesis by (auto simp: load_inv_def)
  qed
  moreover have "load_room c ?d ch k" using room by (simp add: load_room_def)
  moreover have "load_pending c ?d = Suc (load_pending c d)"
    using ch by (simp add: load_pending_def sum.remove [of _ ch])
  ultimately show ?thesis by auto
qed

lemma feeder_takes_ok:
  assumes inv: "load_inv c mem m d" and step: "feeder_takes c d d'"
  shows "load_inv c mem m d' \<and> load_pending c d' < load_pending c d \<and>
    (\<forall>ch k. load_room c d ch k \<longrightarrow> load_room c d' ch k)"
  using step
proof (cases rule: feeder_takes.cases)
  case (take_word ch w ws)
  have "load_pending c d = Suc (load_pending c d')"
    using take_word by (simp add: load_pending_def sum.remove [of _ ch])
  with take_word inv show ?thesis by (auto simp: load_inv_def load_room_def)
qed

lemma load_quiet:
  assumes inv: "load_inv c mem m d" and quiet: "\<forall>d'. \<not> feeder_takes c d d'" and ch: "ch < bc_channels c"
    and n: "m ch + unat n = chan_words c ch" "n \<noteq> 0"
  shows "(bc_burst c \<le> unat n \<and> load_burst_ready c d ch) \<or> load_tail_ready c d ch n"
proof -
  have "to_fifo d ch = []"
    using quiet feeder_takes.intros [OF ch, of d] by (cases "to_fifo d ch") auto
  with inv ch n show ?thesis
    using load_tests [of c mem ch d n] by (auto simp: load_inv_def fifo_capacity_def)
qed

lemma load_cfg_ok: "load_inv c mem m d \<Longrightarrow> cfg_ok c"
  by (simp add: load_inv_def load_ok_def)

lemma load_burst_room:
  assumes "load_inv c mem m d" "ch < bc_channels c" "load_burst_ready c d ch"
  shows "load_room c d ch (bc_burst c)"
  using load_tests(1) [of c mem ch d 0] assms by (simp add: load_inv_def load_room_def)

lemma load_tail_room:
  assumes i: "load_inv c mem m d" "ch < bc_channels c" and n: "m ch + unat n = chan_words c ch" "n \<noteq> 0"
    and r: "load_tail_ready c d ch n" "\<not> (bc_burst c \<le> unat n \<and> load_burst_ready c d ch)"
  shows "unat n < bc_burst c \<and> load_room c d ch (unat n)"
proof -
  have "load_tail_ready c d ch n \<longleftrightarrow> length (to_fifo d ch) + unat n \<le> fifo_capacity c"
    "load_burst_ready c d ch \<longleftrightarrow> length (to_fifo d ch) + bc_burst c \<le> fifo_capacity c"
    using i n(1) load_tests [of c mem ch d n] by (simp_all add: load_inv_def)
  with r show ?thesis by (auto simp: load_room_def)
qed

interpretation loading: word_mover c "load_burst_ready c" "load_tail_ready c" "load_word c mem"
  "feeder_takes c" "load_inv c mem" "load_room c" "load_pending c" for c mem
  by unfold_locales
    (rule load_cfg_ok load_burst_room load_tail_room load_word_ok feeder_takes_ok load_quiet; assumption)+

section \<open>What the feeders get\<close>

lemma load_init:
  assumes "load_ok c mem" shows "sched_inv c (load_inv c mem) (load_room c) (load_memories_init c True)"
  unfolding load_memories_init_def using assms
  by (intro loading.init_inv) (simp add: load_inv_def)

lemma load_reachable:
  "load_ok c mem \<Longrightarrow> (load_step c mem)\<^sup>*\<^sup>* (load_memories_init c True) s \<Longrightarrow>
    sched_inv c (load_inv c mem) (load_room c) s"
  unfolding load_step_def using load_init by (rule loading.reach_inv [rotated])

lemma load_finished:
  assumes "load_ok c mem" "(load_step c mem)\<^sup>*\<^sup>* (load_memories_init c True) (k, d)" "pc k = Finished"
    "ch < bc_channels c"
  shows "fed d ch @ to_fifo d ch = chan_slice c mem ch"
proof -
  note f = loading.finished_all_moved [OF load_reachable [OF assms(1,2)] assms(3)]
  have l: "length (chan_slice c mem ch) \<le> chan_words c ch" by (simp add: chan_slice_def)
  have "fed d ch @ to_fifo d ch = take (moved k ch) (chan_slice c mem ch)"
    using f(1) assms(4) by (simp add: load_inv_def)
  then show ?thesis using f(2) [OF assms(4)] l by simp
qed

end
