(* ===== verification/Store_Memories.thy ===== *)
theory Store_Memories
  imports Burst_Inv
begin

text \<open>
  \<open>store_memories\<close> of \<^verbatim>\<open>include/pl/test_harness.hpp\<close>: the collectors of the channels write memory
  words into one stream per channel (a write waits while the stream is full), and the scheduler moves
  them to the channels' regions of the memory, in bursts and a shorter tail. \<open>read_nb\<close> on an empty
  stream would leave its argument uninitialised.
\<close>

section \<open>The streams and the memory\<close>

record 'w store_data =
  from_fifo :: "nat \<Rightarrow> 'w list"
  coming :: "nat \<Rightarrow> 'w list"     \<comment> \<open>what the collector of the channel has yet to write\<close>
  stored :: "'w list"

text \<open>\<open>#pragma HLS stream variable = from_aie_strm depth = BURST_LEN * 2\<close>\<close>

definition from_capacity :: "burst_cfg \<Rightarrow> nat" where
  "from_capacity c = bc_burst c * 2"

definition store_burst_ready :: "burst_cfg \<Rightarrow> 'w store_data \<Rightarrow> nat \<Rightarrow> bool" where
  "store_burst_ready c d ch \<longleftrightarrow> (of_nat (length (from_fifo d ch)) :: u32) \<ge> of_nat (bc_burst c)"

definition store_tail_ready :: "'w store_data \<Rightarrow> nat \<Rightarrow> u32 \<Rightarrow> bool" where
  "store_tail_ready d ch n \<longleftrightarrow> of_nat (length (from_fifo d ch)) = n"

definition store_word :: "nat \<Rightarrow> u32 \<Rightarrow> 'w store_data \<Rightarrow> 'w store_data option" where
  "store_word ch i d = (case from_fifo d ch of
     [] \<Rightarrow> None
   | tmp # ws \<Rightarrow> (case vec_set (unat i) tmp (stored d) of
       None \<Rightarrow> None
     | Some mem \<Rightarrow> Some (d\<lparr>from_fifo := (from_fifo d)(ch := ws), stored := mem\<rparr>)))"

inductive collector_puts :: "burst_cfg \<Rightarrow> 'w store_data \<Rightarrow> 'w store_data \<Rightarrow> bool" for c where
  put_word: "ch < bc_channels c \<Longrightarrow> coming d ch = w # ws \<Longrightarrow> length (from_fifo d ch) < from_capacity c \<Longrightarrow>
    collector_puts c d (d\<lparr>coming := (coming d)(ch := ws), from_fifo := (from_fifo d)(ch := from_fifo d ch @ [w])\<rparr>)"

definition store_step :: "burst_cfg \<Rightarrow> sched_ctl \<times> 'w store_data \<Rightarrow> sched_ctl \<times> 'w store_data \<Rightarrow> bool" where
  "store_step c = burst_step (store_burst_ready c) store_tail_ready store_word (collector_puts c) c"

definition store_memories_init ::
  "burst_cfg \<Rightarrow> bool \<Rightarrow> (nat \<Rightarrow> 'w list) \<Rightarrow> 'w list \<Rightarrow> sched_ctl \<times> 'w store_data" where
  "store_memories_init c func_mode src mem =
     (sched_init c func_mode, \<lparr>from_fifo = (\<lambda>_. []), coming = src, stored = mem\<rparr>)"

section \<open>The contract\<close>

definition in_region :: "burst_cfg \<Rightarrow> nat \<Rightarrow> nat \<Rightarrow> bool" where
  "in_region c ch a \<longleftrightarrow> unat (bc_offsets c ch) \<le> a \<and> a < unat (bc_offsets c ch) + chan_words c ch"

definition store_ok :: "burst_cfg \<Rightarrow> (nat \<Rightarrow> 'w list) \<Rightarrow> 'w list \<Rightarrow> bool" where
  "store_ok c src mem \<longleftrightarrow> cfg_ok c \<and> length mem \<le> 2 ^ 32 \<and>
     (\<forall>ch < bc_channels c. length (src ch) = chan_words c ch \<and>
        unat (bc_offsets c ch) + chan_words c ch \<le> length mem) \<and>
     (\<forall>ch < bc_channels c. \<forall>ch' < bc_channels c. ch \<noteq> ch' \<longrightarrow>
        (\<forall>a. in_region c ch a \<longrightarrow> \<not> in_region c ch' a))"

definition store_inv ::
  "burst_cfg \<Rightarrow> (nat \<Rightarrow> 'w list) \<Rightarrow> 'w list \<Rightarrow> (nat \<Rightarrow> nat) \<Rightarrow> 'w store_data \<Rightarrow> bool" where
  "store_inv c src mem m d \<longleftrightarrow> store_ok c src mem \<and>
     length (stored d) = length mem \<and>
     (\<forall>ch < bc_channels c. m ch \<le> chan_words c ch \<and> length (from_fifo d ch) \<le> from_capacity c \<and>
        take (m ch) (src ch) @ from_fifo d ch @ coming d ch = src ch \<and>
        (\<forall>i < m ch. stored d ! (unat (bc_offsets c ch) + i) = src ch ! i)) \<and>
     (\<forall>a < length mem. (\<forall>ch < bc_channels c. \<not> in_region c ch a) \<longrightarrow> stored d ! a = mem ! a)"

definition store_room :: "'w store_data \<Rightarrow> nat \<Rightarrow> nat \<Rightarrow> bool" where
  "store_room d ch n \<longleftrightarrow> n \<le> length (from_fifo d ch)"

definition store_pending :: "burst_cfg \<Rightarrow> 'w store_data \<Rightarrow> nat" where
  "store_pending c d = (\<Sum>ch < bc_channels c. length (coming d ch))"

lemma store_cfg_ok: "store_inv c src mem m d \<Longrightarrow> cfg_ok c"
  by (simp add: store_inv_def store_ok_def)

text \<open>The two tests of the code, on natural numbers.\<close>

lemma store_tests:
  assumes "store_inv c src mem m d" "ch < bc_channels c"
  shows "store_burst_ready c d ch \<longleftrightarrow> bc_burst c \<le> length (from_fifo d ch)"
    "store_tail_ready d ch n \<longleftrightarrow> length (from_fifo d ch) = unat n"
proof -
  have B: "bc_burst c \<le> 128" "length (from_fifo d ch) \<le> bc_burst c * 2"
    using assms by (auto simp: store_inv_def store_ok_def cfg_ok_def from_capacity_def)
  have l: "unat (of_nat (length (from_fifo d ch)) :: u32) = length (from_fifo d ch)"
    using B by (intro unat_of_nat_small) simp
  have b: "unat (of_nat (bc_burst c) :: u32) = bc_burst c" using B by (intro unat_of_nat_small) simp
  show "store_burst_ready c d ch \<longleftrightarrow> bc_burst c \<le> length (from_fifo d ch)"
    by (simp add: store_burst_ready_def word_le_nat_alt l b)
  show "store_tail_ready d ch n \<longleftrightarrow> length (from_fifo d ch) = unat n"
    unfolding store_tail_ready_def using l by (metis of_nat_unat ucast_id)
qed

lemma store_burst_room:
  "store_inv c src mem m d \<Longrightarrow> ch < bc_channels c \<Longrightarrow> store_burst_ready c d ch \<Longrightarrow> store_room d ch (bc_burst c)"
  by (simp add: store_tests store_room_def)

lemma store_tail_room:
  "store_inv c src mem m d \<Longrightarrow> ch < bc_channels c \<Longrightarrow> m ch + unat n = chan_words c ch \<Longrightarrow> n \<noteq> 0 \<Longrightarrow>
   store_tail_ready d ch n \<Longrightarrow> \<not> (bc_burst c \<le> unat n \<and> store_burst_ready c d ch) \<Longrightarrow>
   unat n < bc_burst c \<and> store_room d ch (unat n)"
  by (auto simp: store_tests store_room_def)

lemma store_word_ok:
  assumes inv: "store_inv c src mem m d" and ch: "ch < bc_channels c" and lt: "m ch < chan_words c ch"
    and room: "store_room d ch (Suc k)"
  shows "\<exists>d'. store_word ch (bc_offsets c ch + of_nat (m ch)) d = Some d' \<and>
    store_inv c src mem (m(ch := Suc (m ch))) d' \<and> store_room d' ch k \<and>
    store_pending c d' \<le> Suc (store_pending c d)"
proof -
  let ?o = "unat (bc_offsets c ch)"
  have ok: "length mem \<le> 2 ^ 32" "?o + chan_words c ch \<le> length mem" "length (stored d) = length mem"
    "length (src ch) = chan_words c ch"
    using inv ch by (simp_all add: store_inv_def store_ok_def)
  have "unat (of_nat (m ch) :: u32) = m ch" using lt ok by (intro unat_of_nat_small) simp
  then have ix: "unat (bc_offsets c ch + of_nat (m ch)) = ?o + m ch"
    using lt ok by (subst unat_add_small) simp_all
  obtain w ws where f: "from_fifo d ch = w # ws" using room by (cases "from_fifo d ch") (auto simp: store_room_def)
  let ?d = "d\<lparr>from_fifo := (from_fifo d)(ch := ws), stored := (stored d)[?o + m ch := w]\<rparr>"
  have "store_word ch (bc_offsets c ch + of_nat (m ch)) d = Some ?d"
    using lt ok by (simp add: store_word_def vec_set_def ix f)
  moreover have "store_inv c src mem (m(ch := Suc (m ch))) ?d"
  proof -
    have split: "take (m ch) (src ch) @ (w # ws) @ coming d ch = src ch"
      using inv ch f by (auto simp: store_inv_def)
    then have "src ch ! m ch = (take (m ch) (src ch) @ (w # ws) @ coming d ch) ! m ch" by simp
    also have "\<dots> = w" using lt ok by (simp add: nth_append)
    finally have w: "src ch ! m ch = w" .
    have tk: "take (Suc (m ch)) (src ch) @ ws @ coming d ch = src ch"
      using split w lt ok by (simp add: take_Suc_conv_app_nth)
    have reg: "in_region c ch (?o + m ch)" using lt by (simp add: in_region_def)
    have other: "in_region c x (unat (bc_offsets c x) + i)" if "x < bc_channels c" "i < m x" for x i
      using inv that by (auto simp: in_region_def store_inv_def)
    have apart: "unat (bc_offsets c x) + i \<noteq> ?o + m ch" if "x < bc_channels c" "x \<noteq> ch" "i < m x" for x i
      using inv reg other [OF that(1,3)] that ch unfolding store_inv_def store_ok_def by metis
    have nth: "(stored d)[?o + m ch := w] ! (unat (bc_offsets c x) + i) =
        (if x = ch \<and> i = m ch then w else stored d ! (unat (bc_offsets c x) + i))"
      if "x < bc_channels c" "i < m x \<or> x = ch \<and> i = m ch" for x i
      using that apart [of x i] lt ok by (cases "x = ch") (auto simp: nth_list_update)
    show ?thesis
      unfolding store_inv_def
    proof (intro conjI allI impI)
      fix x assume x: "x < bc_channels c"
      show "(m(ch := Suc (m ch))) x \<le> chan_words c x" using inv x lt by (simp add: store_inv_def)
      show "length (from_fifo ?d x) \<le> from_capacity c" using inv x f by (auto simp: store_inv_def dest: spec [of _ ch])
      show "take ((m(ch := Suc (m ch))) x) (src x) @ from_fifo ?d x @ coming ?d x = src x"
        using inv x tk by (simp add: store_inv_def)
      fix i assume i: "i < (m(ch := Suc (m ch))) x"
      then have "stored ?d ! (unat (bc_offsets c x) + i) =
          (if x = ch \<and> i = m ch then w else stored d ! (unat (bc_offsets c x) + i))"
        using nth [OF x, of i] by (cases "x = ch") auto
      with inv x i w show "stored ?d ! (unat (bc_offsets c x) + i) = src x ! i"
        by (auto simp: store_inv_def split: if_splits)
    next
      fix a assume a: "a < length mem" "\<forall>ch < bc_channels c. \<not> in_region c ch a"
      then have "a \<noteq> ?o + m ch" using reg ch by blast
      then show "stored ?d ! a = mem ! a"
        using inv a by (simp add: store_inv_def)
    qed (use inv in \<open>simp_all add: store_inv_def\<close>)
  qed
  moreover have "store_room ?d ch k" using room f by (simp add: store_room_def)
  ultimately show ?thesis by (auto simp: store_pending_def)
qed

lemma collector_puts_ok:
  assumes inv: "store_inv c src mem m d" and step: "collector_puts c d d'"
  shows "store_inv c src mem m d' \<and> store_pending c d' < store_pending c d \<and>
    (\<forall>ch k. store_room d ch k \<longrightarrow> store_room d' ch k)"
  using step
proof (cases rule: collector_puts.cases)
  case (put_word ch w ws)
  have "store_pending c d = Suc (store_pending c d')"
    using put_word by (simp add: store_pending_def sum.remove [of _ ch])
  moreover have "store_inv c src mem m d'"
    using inv put_word by (auto simp: store_inv_def)
  ultimately show ?thesis using put_word by (auto simp: store_room_def)
qed

lemma store_quiet:
  assumes inv: "store_inv c src mem m d" and quiet: "\<forall>d'. \<not> collector_puts c d d'" and ch: "ch < bc_channels c"
    and n: "m ch + unat n = chan_words c ch" "n \<noteq> 0"
  shows "(bc_burst c \<le> unat n \<and> store_burst_ready c d ch) \<or> store_tail_ready d ch n"
proof -
  have len: "m ch + length (from_fifo d ch) + length (coming d ch) = chan_words c ch"
  proof -
    have "length (take (m ch) (src ch) @ from_fifo d ch @ coming d ch) = length (src ch)" "length (src ch) = chan_words c ch"
      "m ch \<le> chan_words c ch"
      using inv ch by (simp_all add: store_inv_def store_ok_def)
    then show ?thesis by simp
  qed
  have "coming d ch = [] \<or> from_capacity c \<le> length (from_fifo d ch)"
    using quiet collector_puts.intros [OF ch, of d] by (cases "coming d ch") (auto simp: not_less [symmetric])
  then show ?thesis
    unfolding store_tests [OF inv ch] using n len by (auto simp: from_capacity_def)
qed

interpretation storing: word_mover c "store_burst_ready c" store_tail_ready store_word
  "collector_puts c" "store_inv c src mem" store_room "store_pending c" for c src mem
  by unfold_locales
    (rule store_cfg_ok store_burst_room store_tail_room store_word_ok collector_puts_ok store_quiet; assumption)+

section \<open>What the memory holds at the end\<close>

lemma store_init:
  assumes "store_ok c src mem"
  shows "sched_inv c (store_inv c src mem) store_room (store_memories_init c True src mem)"
  unfolding store_memories_init_def using assms
  by (intro storing.init_inv) (simp add: store_inv_def)

lemma store_reachable:
  "store_ok c src mem \<Longrightarrow> (store_step c)\<^sup>*\<^sup>* (store_memories_init c True src mem) s \<Longrightarrow>
    sched_inv c (store_inv c src mem) store_room s"
  unfolding store_step_def using store_init by (rule storing.reach_inv [rotated])

lemma store_finished:
  assumes ok: "store_ok c src mem" and run: "(store_step c)\<^sup>*\<^sup>* (store_memories_init c True src mem) (k, d)"
    and fin: "pc k = Finished"
  shows "length (stored d) = length mem"
    "ch < bc_channels c \<Longrightarrow> take (chan_words c ch) (drop (unat (bc_offsets c ch)) (stored d)) = src ch"
    "a < length mem \<Longrightarrow> \<forall>ch < bc_channels c. \<not> in_region c ch a \<Longrightarrow> stored d ! a = mem ! a"
proof -
  note f = storing.finished_all_moved [OF store_reachable [OF ok run] fin]
  show "length (stored d) = length mem" using f(1) by (simp add: store_inv_def)
  show "a < length mem \<Longrightarrow> \<forall>ch < bc_channels c. \<not> in_region c ch a \<Longrightarrow> stored d ! a = mem ! a"
    using f(1) by (simp add: store_inv_def)
  assume ch: "ch < bc_channels c"
  have len: "unat (bc_offsets c ch) + chan_words c ch \<le> length (stored d)" "length (src ch) = chan_words c ch"
    using f(1) ch by (simp_all add: store_inv_def store_ok_def)
  show "take (chan_words c ch) (drop (unat (bc_offsets c ch)) (stored d)) = src ch"
    using f ch len by (intro nth_equalityI) (auto simp: store_inv_def)
qed

end
