(* ===== verification/Test_Harness_PL.thy ===== *)
theory Test_Harness_PL
  imports Buff_Get Load_Memories Store_Memories
begin

text \<open>
  \<^verbatim>\<open>test_harness\<close> of \<^verbatim>\<open>include/pl/test_harness.hpp\<close> and the kernels of \<^verbatim>\<open>src/pl\<close> built from it: the
  configuration words are read, the buffers are filled, the channels run concurrently with the two
  burst schedulers, the buffers are written back and the counters are stored. The AI Engine graph
  between the streams is not part of this repository: it is a function from the words sent on all
  channels to the words received on all channels.
\<close>

section \<open>State\<close>

record 'w test_harness =
  to_aie_ch :: "nat \<Rightarrow> 'w buff_channel"
  from_aie_ch :: "nat \<Rightarrow> 'w buff_channel"

definition upd_to :: "nat \<Rightarrow> ('w buff_channel \<Rightarrow> 'w buff_channel) \<Rightarrow> 'w test_harness \<Rightarrow> 'w test_harness" where
  "upd_to i f th = th\<lparr>to_aie_ch := (to_aie_ch th)(i := f (to_aie_ch th i))\<rparr>"

definition upd_from :: "nat \<Rightarrow> ('w buff_channel \<Rightarrow> 'w buff_channel) \<Rightarrow> 'w test_harness \<Rightarrow> 'w test_harness" where
  "upd_from i f th = th\<lparr>from_aie_ch := (from_aie_ch th)(i := f (from_aie_ch th i))\<rparr>"

text \<open>The constructors: the counters are 0; the other members, the buffer's contents among them, are
  whatever they were.\<close>

definition new_buff_channel :: "'w buff_channel \<Rightarrow> 'w buff_channel" where
  "new_buff_channel ch = ch\<lparr>firstcc := 0, lastcc := 0\<rparr>"

definition new_test_harness :: "'w test_harness \<Rightarrow> 'w test_harness" where
  "new_test_harness th = \<lparr>to_aie_ch = (\<lambda>i. new_buff_channel (to_aie_ch th i)),
     from_aie_ch = (\<lambda>i. new_buff_channel (from_aie_ch th i))\<rparr>"

section \<open>Configuration and counters\<close>

definition cfg_mode :: "u64 \<Rightarrow> PL_TestMode" where
  "cfg_mode m = (if m = 0 then PL_FUNC_MODE else PL_PERF_MODE)"

text \<open>One of the loops \<open>for (int i = 1; i <= NUM_CHANNELS; i++) ch[i - 1].member = cfg[i + NUM_CHANNELS * r]\<close>.\<close>

definition cfg_row ::
  "nat \<Rightarrow> u64 list \<Rightarrow> nat \<Rightarrow> (nat \<Rightarrow> u64 \<Rightarrow> 'w test_harness \<Rightarrow> 'w test_harness) \<Rightarrow> 'w test_harness \<Rightarrow>
    'w test_harness option" where
  "cfg_row N cfg r upd th = for_loop 1 N (\<lambda>i th. do {
     v \<leftarrow> vec_get (i + N * r) cfg; Some (upd (i - 1) v th) }) th"

definition load_cfg :: "nat \<Rightarrow> u64 list \<Rightarrow> 'w test_harness \<Rightarrow> 'w test_harness option" where
  "load_cfg N cfg th = do {
     th \<leftarrow> for_loop 0 N (\<lambda>i th. do {
       m \<leftarrow> vec_get 0 cfg;
       let th = upd_to i (\<lambda>ch. ch\<lparr>mode := cfg_mode m\<rparr>) th;
       Some (upd_from i (\<lambda>ch. ch\<lparr>mode := cfg_mode m\<rparr>) th) }) th;
     th \<leftarrow> cfg_row N cfg 0 (\<lambda>i v. upd_to i (\<lambda>ch. ch\<lparr>delays := v\<rparr>)) th;
     th \<leftarrow> cfg_row N cfg 1 (\<lambda>i v. upd_to i (\<lambda>ch. ch\<lparr>numFrames := ucast v\<rparr>)) th;
     th \<leftarrow> cfg_row N cfg 2 (\<lambda>i v. upd_to i (\<lambda>ch. ch\<lparr>numRep := ucast v\<rparr>)) th;
     th \<leftarrow> cfg_row N cfg 3 (\<lambda>i v. upd_to i (\<lambda>ch. ch\<lparr>offsets := ucast v\<rparr>)) th;
     th \<leftarrow> cfg_row N cfg 4 (\<lambda>i v. upd_from i (\<lambda>ch. ch\<lparr>delays := v\<rparr>)) th;
     th \<leftarrow> cfg_row N cfg 5 (\<lambda>i v. upd_from i (\<lambda>ch. ch\<lparr>numFrames := ucast v\<rparr>)) th;
     th \<leftarrow> cfg_row N cfg 6 (\<lambda>i v. upd_from i (\<lambda>ch. ch\<lparr>numRep := ucast v\<rparr>)) th;
     cfg_row N cfg 7 (\<lambda>i v. upd_from i (\<lambda>ch. ch\<lparr>offsets := ucast v\<rparr>)) th }"

definition perf_row :: "nat \<Rightarrow> nat \<Rightarrow> (nat \<Rightarrow> u64) \<Rightarrow> u64 list \<Rightarrow> u64 list option" where
  "perf_row N r f perf = for_loop 0 N (\<lambda>i perf. vec_set (i + N * r) (f i) perf) perf"

definition store_perf :: "nat \<Rightarrow> 'w test_harness \<Rightarrow> u64 list \<Rightarrow> u64 list option" where
  "store_perf N th perf = do {
     perf \<leftarrow> perf_row N 0 (\<lambda>i. firstcc (to_aie_ch th i)) perf;
     perf \<leftarrow> perf_row N 1 (\<lambda>i. lastcc (to_aie_ch th i)) perf;
     perf \<leftarrow> perf_row N 2 (\<lambda>i. firstcc (from_aie_ch th i)) perf;
     perf_row N 3 (\<lambda>i. lastcc (from_aie_ch th i)) perf }"

section \<open>Buffers\<close>

definition load_buffs :: "nat \<Rightarrow> nat \<Rightarrow> 'm::len word list \<Rightarrow> 's::len word test_harness \<Rightarrow> 's word test_harness option" where
  "load_buffs N D mem th = for_loop 0 N (\<lambda>i th. do {
     ch \<leftarrow> load_buff D mem (to_aie_ch th i); Some (upd_to i (\<lambda>_. ch) th) }) th"

definition store_buffs :: "nat \<Rightarrow> nat \<Rightarrow> 's::len word test_harness \<Rightarrow> 'm::len word list \<Rightarrow> 'm word list option" where
  "store_buffs N D th mem = for_loop 0 N (\<lambda>i mem. store_buff D (from_aie_ch th i) mem) mem"

section \<open>The dataflow region\<close>

text \<open>\<open>#define BURST_LENGTH_EACH_CHANNEL 16\<close>\<close>

definition BURST_LENGTH_EACH_CHANNEL :: nat where
  "BURST_LENGTH_EACH_CHANNEL = 16"

definition channels_cfg :: "nat \<Rightarrow> nat \<Rightarrow> (nat \<Rightarrow> 'w buff_channel) \<Rightarrow> burst_cfg" where
  "channels_cfg N R chs = \<lparr>bc_channels = N, bc_burst = BURST_LENGTH_EACH_CHANNEL, bc_ratio = R,
     bc_frames = (\<lambda>ch. numFrames (chs ch)), bc_offsets = (\<lambda>ch. offsets (chs ch))\<rparr>"

text \<open>
  \<open>load_memories\<close> and the feeders: the scheduler has returned, and so has every feeder, having read the
  words \<open>fed d ch\<close>.
\<close>

inductive load_region ::
  "nat \<Rightarrow> nat \<Rightarrow> (nat \<Rightarrow> nat \<Rightarrow> nat) \<Rightarrow> (nat \<Rightarrow> 's::len word buff_channel) \<Rightarrow> 'm::len word list \<Rightarrow>
    (nat \<Rightarrow> 's word buff_channel) \<Rightarrow> (nat \<Rightarrow> ('s word, 'm word) action list) \<Rightarrow> bool"
  for N D sched chs mem where
    "(load_step (channels_cfg N (MEM_RATIO TYPE('m) TYPE('s)) chs) mem)\<^sup>*\<^sup>*
       (load_memories_init (channels_cfg N (MEM_RATIO TYPE('m) TYPE('s)) chs) (mode (chs 0) = PL_FUNC_MODE)) (k, d) \<Longrightarrow>
     pc k = Finished \<Longrightarrow>
     (\<And>ch. ch < N \<Longrightarrow> load_stream D (sched ch) (chs ch) (fed d ch) = Some (chs' ch, [], acts ch)) \<Longrightarrow>
     load_region N D sched chs (mem :: 'm word list) chs' acts"

text \<open>\<open>store_memories\<close> and the collectors, which take their words from the AI Engine's streams \<open>strms\<close>.\<close>

inductive store_region ::
  "nat \<Rightarrow> nat \<Rightarrow> (nat \<Rightarrow> nat \<Rightarrow> nat) \<Rightarrow> (nat \<Rightarrow> 's::len word buff_channel) \<Rightarrow> (nat \<Rightarrow> 's word ap_axiu list) \<Rightarrow>
    'm::len word list \<Rightarrow> (nat \<Rightarrow> 's word buff_channel) \<Rightarrow> 'm word list \<Rightarrow> bool"
  for N D sched chs strms mem where
    "(\<And>ch. ch < N \<Longrightarrow>
       store_stream D (sched ch) (chs ch) (strms ch) = Some (chs' ch, rest ch, acts ch)) \<Longrightarrow>
     (store_step (channels_cfg N (MEM_RATIO TYPE('m) TYPE('s)) chs))\<^sup>*\<^sup>*
       (store_memories_init (channels_cfg N (MEM_RATIO TYPE('m) TYPE('s)) chs) (mode (chs 0) = PL_FUNC_MODE)
         (\<lambda>ch. mem_writes (acts ch)) mem) (k, d) \<Longrightarrow>
     pc k = Finished \<Longrightarrow>
     store_region N D sched chs strms (mem :: 'm word list) chs' (stored d)"

section \<open>The kernel\<close>

text \<open>The words a channel has sent to the AI Engine.\<close>

definition sent_words :: "('s, 'm) action list \<Rightarrow> 's ap_axiu list" where
  "sent_words acts = concat (map (\<lambda>a. case a of Send x \<Rightarrow> [x] | _ \<Rightarrow> []) acts)"

inductive kernel ::
  "nat \<Rightarrow> nat \<Rightarrow> ((nat \<Rightarrow> 's::len word ap_axiu list) \<Rightarrow> nat \<Rightarrow> 's word ap_axiu list) \<Rightarrow>
    u64 list \<Rightarrow> u64 list \<Rightarrow> 'm::len word list \<Rightarrow> 'm word list \<Rightarrow>
    (nat \<Rightarrow> 's word ap_axiu list) \<Rightarrow> u64 list \<Rightarrow> 'm word list \<Rightarrow> bool"
  for N D aie cfg perf to_aie_mem from_aie_mem where
    "load_cfg N cfg (new_test_harness raw) = Some th1 \<Longrightarrow>
     (\<And>ch. length (buff (to_aie_ch raw ch)) = D \<and> length (buff (from_aie_ch raw ch)) = D) \<Longrightarrow>
     load_buffs N D to_aie_mem th1 = Some th2 \<Longrightarrow>
     (\<And>ch. to_sched ch 0 \<le> to_sched ch 1 \<and> from_sched ch 0 \<le> from_sched ch 1) \<Longrightarrow>
     load_region N D to_sched (to_aie_ch th2) to_aie_mem to_chs acts \<Longrightarrow>
     store_region N D from_sched (from_aie_ch th2) (aie (\<lambda>ch. sent_words (acts ch))) from_aie_mem from_chs mem2 \<Longrightarrow>
     th3 = \<lparr>to_aie_ch = to_chs, from_aie_ch = from_chs\<rparr> \<Longrightarrow>
     store_buffs N D th3 mem2 = Some mem3 \<Longrightarrow>
     store_perf N th3 perf = Some perf' \<Longrightarrow>
     kernel N D aie cfg perf (to_aie_mem :: 'm word list) (from_aie_mem :: 'm word list)
       (\<lambda>ch. sent_words (acts ch)) perf' mem3"

end
