(* ===== verification/Kernel_Lemmas.thy ===== *)
theory Kernel_Lemmas
  imports Test_Harness_PL
begin

text \<open>The sequential parts of the kernel: configuration, buffers, counters.\<close>

section \<open>Loops over the channels\<close>

lemma for_loop_channels:
  assumes "\<And>j t. i \<le> j \<Longrightarrow> j < i + n \<Longrightarrow> f j t = Some (g j t)"
    and "\<And>j t. sel (g j t) = (sel t)(j - i0 := h j (sel t (j - i0)))" and "i0 \<le> i"
    and "\<And>j t. rest (g j t) = rest t"
  shows "\<exists>t'. for_loop i n f t = Some t' \<and> rest t' = rest t \<and>
    sel t' = (\<lambda>ch. if i \<le> ch + i0 \<and> ch + i0 < i + n then h (ch + i0) (sel t ch) else sel t ch)"
proof -
  let ?P = "\<lambda>j t'. rest t' = rest t \<and>
    sel t' = (\<lambda>ch. if i \<le> ch + i0 \<and> ch + i0 < j then h (ch + i0) (sel t ch) else sel t ch)"
  have "\<exists>t'. for_loop i n f t = Some t' \<and> ?P (i + n) t'"
  proof (rule for_loop_invariant)
    fix j u assume j: "i \<le> j" "j < i + n" and P: "?P j u"
    have "sel (g j u) = (\<lambda>ch. if i \<le> ch + i0 \<and> ch + i0 < Suc j then h (ch + i0) (sel t ch) else sel t ch)"
      using P j assms(2) [of j u] assms(3) by (auto simp: fun_eq_iff)
    with P assms(1) [OF j] assms(4) show "\<exists>t'. f j u = Some t' \<and> ?P (Suc j) t'" by auto
  qed (auto simp: fun_eq_iff)
  then show ?thesis by blast
qed

lemma cfg_row_to:
  assumes "N * r + N < length cfg"
  shows "cfg_row N cfg r (\<lambda>i v. upd_to i (u v)) th =
    Some (th\<lparr>to_aie_ch := (\<lambda>ch. if ch < N then u (cfg ! (1 + N * r + ch)) (to_aie_ch th ch) else to_aie_ch th ch)\<rparr>)"
proof -
  have "\<exists>t'. cfg_row N cfg r (\<lambda>i v. upd_to i (u v)) th = Some t' \<and> from_aie_ch t' = from_aie_ch th \<and>
    to_aie_ch t' = (\<lambda>ch. if 1 \<le> ch + 1 \<and> ch + 1 < 1 + N then u (cfg ! (ch + 1 + N * r)) (to_aie_ch th ch) else to_aie_ch th ch)"
    unfolding cfg_row_def
    by (rule for_loop_channels [where g = "\<lambda>j. upd_to (j - 1) (u (cfg ! (j + N * r)))"])
      (use assms in \<open>simp_all add: vec_get_def upd_to_def fun_eq_iff\<close>)
  then obtain t' where "cfg_row N cfg r (\<lambda>i v. upd_to i (u v)) th = Some t'" "from_aie_ch t' = from_aie_ch th"
    "to_aie_ch t' = (\<lambda>ch. if ch < N then u (cfg ! (ch + 1 + N * r)) (to_aie_ch th ch) else to_aie_ch th ch)"
    by auto
  then show ?thesis by (cases t'; cases th) (simp add: fun_eq_iff add.commute [of N] add.commute add.left_commute)
qed

lemma cfg_row_from:
  assumes "N * r + N < length cfg"
  shows "cfg_row N cfg r (\<lambda>i v. upd_from i (u v)) th =
    Some (th\<lparr>from_aie_ch := (\<lambda>ch. if ch < N then u (cfg ! (1 + N * r + ch)) (from_aie_ch th ch) else from_aie_ch th ch)\<rparr>)"
proof -
  have "\<exists>t'. cfg_row N cfg r (\<lambda>i v. upd_from i (u v)) th = Some t' \<and> to_aie_ch t' = to_aie_ch th \<and>
    from_aie_ch t' = (\<lambda>ch. if 1 \<le> ch + 1 \<and> ch + 1 < 1 + N then u (cfg ! (ch + 1 + N * r)) (from_aie_ch th ch) else from_aie_ch th ch)"
    unfolding cfg_row_def
    by (rule for_loop_channels [where g = "\<lambda>j. upd_from (j - 1) (u (cfg ! (j + N * r)))"])
      (use assms in \<open>simp_all add: vec_get_def upd_from_def fun_eq_iff\<close>)
  then obtain t' where "cfg_row N cfg r (\<lambda>i v. upd_from i (u v)) th = Some t'" "to_aie_ch t' = to_aie_ch th"
    "from_aie_ch t' = (\<lambda>ch. if ch < N then u (cfg ! (ch + 1 + N * r)) (from_aie_ch th ch) else from_aie_ch th ch)"
    by auto
  then show ?thesis by (cases t'; cases th) (simp add: fun_eq_iff add.commute [of N] add.commute add.left_commute)
qed

text \<open>The channels as the configuration words describe them.\<close>

definition cfg_channel :: "nat \<Rightarrow> u64 list \<Rightarrow> nat \<Rightarrow> nat \<Rightarrow> 'w buff_channel \<Rightarrow> 'w buff_channel" where
  "cfg_channel N cfg b ch c = c\<lparr>mode := cfg_mode (cfg ! 0), delays := cfg ! (1 + N * b + ch),
     numFrames := ucast (cfg ! (1 + N * (b + 1) + ch)), numRep := ucast (cfg ! (1 + N * (b + 2) + ch)),
     offsets := ucast (cfg ! (1 + N * (b + 3) + ch))\<rparr>"

definition configured_harness :: "nat \<Rightarrow> u64 list \<Rightarrow> 'w test_harness \<Rightarrow> 'w test_harness" where
  "configured_harness N cfg th = \<lparr>
     to_aie_ch = (\<lambda>ch. if ch < N then cfg_channel N cfg 0 ch (to_aie_ch th ch) else to_aie_ch th ch),
     from_aie_ch = (\<lambda>ch. if ch < N then cfg_channel N cfg 4 ch (from_aie_ch th ch) else from_aie_ch th ch)\<rparr>"

lemma load_cfg_run:
  fixes th :: "'w test_harness"
  assumes len: "length cfg = 8 * N + 1"
  shows "load_cfg N cfg th = Some (configured_harness N cfg th)"
proof -
  let ?u = "\<lambda>ch. ch\<lparr>mode := cfg_mode (cfg ! 0)\<rparr>"
  have m: "for_loop 0 N (\<lambda>i th. do {
      m \<leftarrow> vec_get 0 cfg;
      let th = upd_to i (\<lambda>ch. ch\<lparr>mode := cfg_mode m\<rparr>) th;
      Some (upd_from i (\<lambda>ch. ch\<lparr>mode := cfg_mode m\<rparr>) th) }) th =
    Some \<lparr>to_aie_ch = (\<lambda>ch. if ch < N then ?u (to_aie_ch th ch) else to_aie_ch th ch),
      from_aie_ch = (\<lambda>ch. if ch < N then ?u (from_aie_ch th ch) else from_aie_ch th ch)\<rparr>"
  proof -
    let ?P = "\<lambda>j t. t = \<lparr>to_aie_ch = (\<lambda>ch. if ch < j then ?u (to_aie_ch th ch) else to_aie_ch th ch),
      from_aie_ch = (\<lambda>ch. if ch < j then ?u (from_aie_ch th ch) else from_aie_ch th ch)\<rparr>"
    have "\<exists>t. for_loop 0 N (\<lambda>i th. do {
      m \<leftarrow> vec_get 0 cfg;
      let th = upd_to i (\<lambda>ch. ch\<lparr>mode := cfg_mode m\<rparr>) th;
      Some (upd_from i (\<lambda>ch. ch\<lparr>mode := cfg_mode m\<rparr>) th) }) th = Some t \<and> ?P (0 + N) t"
      by (rule for_loop_invariant)
        (use len in \<open>auto simp: vec_get_def upd_to_def upd_from_def fun_eq_iff\<close>)
    then show ?thesis by simp
  qed
  have b: "N * r + N < length cfg" if "r < 8" for r
  proof -
    have "N * r \<le> N * 7" using that by (intro mult_le_mono2) simp
    then show ?thesis using len by linarith
  qed
  have to: "cfg_row N cfg r (\<lambda>i v. upd_to i (u v)) th = Some (th\<lparr>to_aie_ch :=
      (\<lambda>ch. if ch < N then u (cfg ! (1 + N * r + ch)) (to_aie_ch th ch) else to_aie_ch th ch)\<rparr>)"
    if "r < 8" for r u and th :: "'w test_harness" by (rule cfg_row_to [OF b [OF that]])
  have frm: "cfg_row N cfg r (\<lambda>i v. upd_from i (u v)) th = Some (th\<lparr>from_aie_ch :=
      (\<lambda>ch. if ch < N then u (cfg ! (1 + N * r + ch)) (from_aie_ch th ch) else from_aie_ch th ch)\<rparr>)"
    if "r < 8" for r u and th :: "'w test_harness" by (rule cfg_row_from [OF b [OF that]])
  show ?thesis
    unfolding load_cfg_def m
    by (simp add: to frm configured_harness_def cfg_channel_def fun_eq_iff mult_2_right)
qed

section \<open>The counters\<close>

lemma perf_row_run:
  assumes "N * r + N \<le> length perf"
  shows "\<exists>p. perf_row N r f perf = Some p \<and> length p = length perf \<and>
    (\<forall>i < length perf. p ! i = (if N * r \<le> i \<and> i < N * r + N then f (i - N * r) else perf ! i))"
proof -
  have "\<exists>p. perf_row N r f perf = Some p \<and> (\<lambda>j p. length p = length perf \<and>
    (\<forall>i < length perf. p ! i = (if N * r \<le> i \<and> i < N * r + j then f (i - N * r) else perf ! i))) (0 + N) p"
    unfolding perf_row_def
    by (rule for_loop_invariant) (use assms in \<open>auto simp: vec_set_def nth_list_update\<close>)
  then show ?thesis by simp
qed

lemma store_perf_run:
  assumes len: "length perf = 4 * N"
  shows "\<exists>p. store_perf N th perf = Some p \<and> length p = 4 * N \<and>
    (\<forall>ch < N. p ! ch = firstcc (to_aie_ch th ch) \<and> p ! (ch + N) = lastcc (to_aie_ch th ch) \<and>
       p ! (ch + 2 * N) = firstcc (from_aie_ch th ch) \<and> p ! (ch + 3 * N) = lastcc (from_aie_ch th ch))"
proof -
  obtain p0 where p0: "perf_row N 0 (\<lambda>i. firstcc (to_aie_ch th i)) perf = Some p0" "length p0 = length perf"
    "\<forall>i < length perf. p0 ! i = (if N * 0 \<le> i \<and> i < N * 0 + N then firstcc (to_aie_ch th (i - N * 0)) else perf ! i)"
    using perf_row_run [of N 0 perf "\<lambda>i. firstcc (to_aie_ch th i)"] len by auto
  obtain p1 where p1: "perf_row N 1 (\<lambda>i. lastcc (to_aie_ch th i)) p0 = Some p1" "length p1 = length p0"
    "\<forall>i < length p0. p1 ! i = (if N * 1 \<le> i \<and> i < N * 1 + N then lastcc (to_aie_ch th (i - N * 1)) else p0 ! i)"
    using perf_row_run [of N 1 p0 "\<lambda>i. lastcc (to_aie_ch th i)"] len p0(2) by auto
  obtain p2 where p2: "perf_row N 2 (\<lambda>i. firstcc (from_aie_ch th i)) p1 = Some p2" "length p2 = length p1"
    "\<forall>i < length p1. p2 ! i = (if N * 2 \<le> i \<and> i < N * 2 + N then firstcc (from_aie_ch th (i - N * 2)) else p1 ! i)"
    using perf_row_run [of N 2 p1 "\<lambda>i. firstcc (from_aie_ch th i)"] len p0(2) p1(2) by auto
  obtain p3 where p3: "perf_row N 3 (\<lambda>i. lastcc (from_aie_ch th i)) p2 = Some p3" "length p3 = length p2"
    "\<forall>i < length p2. p3 ! i = (if N * 3 \<le> i \<and> i < N * 3 + N then lastcc (from_aie_ch th (i - N * 3)) else p2 ! i)"
    using perf_row_run [of N 3 p2 "\<lambda>i. lastcc (from_aie_ch th i)"] len p0(2) p1(2) p2(2) by auto
  have "store_perf N th perf = Some p3" using p0(1) p1(1) p2(1) p3(1) by (simp add: store_perf_def)
  moreover have "p3 ! ch = firstcc (to_aie_ch th ch) \<and> p3 ! (ch + N) = lastcc (to_aie_ch th ch) \<and>
       p3 ! (ch + 2 * N) = firstcc (from_aie_ch th ch) \<and> p3 ! (ch + 3 * N) = lastcc (from_aie_ch th ch)"
    if "ch < N" for ch
    using that len p0(2,3) p1(2,3) p2(2,3) p3(2,3) by simp
  ultimately show ?thesis using len p0(2) p1(2) p2(2) p3(2) by auto
qed

section \<open>Buffers\<close>

lemma load_buffs_func:
  assumes "\<And>ch. ch < N \<Longrightarrow> mode (to_aie_ch th ch) = PL_FUNC_MODE"
  shows "load_buffs N D mem th = Some th"
proof -
  have "\<exists>t. load_buffs N D mem th = Some t \<and> (\<lambda>j t. t = th) (0 + N) t"
    unfolding load_buffs_def
    by (rule for_loop_invariant) (use assms in \<open>auto simp: load_buff_def upd_to_def\<close>)
  then show ?thesis by simp
qed

lemma store_buffs_func:
  assumes "\<And>ch. ch < N \<Longrightarrow> mode (from_aie_ch th ch) = PL_FUNC_MODE"
  shows "store_buffs N D th mem = Some mem"
proof -
  have "\<exists>t. store_buffs N D th mem = Some t \<and> (\<lambda>j t. t = mem) (0 + N) t"
    unfolding store_buffs_def
    by (rule for_loop_invariant) (use assms in \<open>auto simp: store_buff_def\<close>)
  then show ?thesis by simp
qed

text \<open>In performance mode every channel's buffer is filled from its own region.\<close>

lemma load_buffs_perf:
  fixes th :: "'s::len word test_harness" and mem :: "'m::len word list"
  assumes R: "0 < MEM_RATIO TYPE('m) TYPE('s)" and D: "D mod MEM_RATIO TYPE('m) TYPE('s) = 0"
    and ch: "\<And>ch. ch < N \<Longrightarrow> mode (to_aie_ch th ch) = PL_PERF_MODE \<and> length (buff (to_aie_ch th ch)) = D \<and>
      region_ok (offsets (to_aie_ch th ch)) (mem_frames (MEM_RATIO TYPE('m) TYPE('s)) (held D (to_aie_ch th ch))) mem"
  shows "load_buffs N D mem th = Some (th\<lparr>to_aie_ch := (\<lambda>ch. if ch < N then
      (to_aie_ch th ch)\<lparr>buff := take (held D (to_aie_ch th ch)) (stream_words (drop (unat (offsets (to_aie_ch th ch))) mem)) @
        drop (held D (to_aie_ch th ch)) (buff (to_aie_ch th ch))\<rparr> else to_aie_ch th ch)\<rparr>)"
proof -
  let ?f = "\<lambda>c. c\<lparr>buff := take (held D c) (stream_words (drop (unat (offsets c)) mem)) @ drop (held D c) (buff c)\<rparr>"
  have run: "load_buff D mem (to_aie_ch th ch) = Some (?f (to_aie_ch th ch))" if "ch < N" for ch
    using ch [OF that] by (intro load_buff_run R D) auto
  have "\<exists>t. load_buffs N D mem th = Some t \<and>
    (\<lambda>j t. t = th\<lparr>to_aie_ch := (\<lambda>ch. if ch < j then ?f (to_aie_ch th ch) else to_aie_ch th ch)\<rparr>) (0 + N) t"
    unfolding load_buffs_def
    by (rule for_loop_invariant) (use run in \<open>auto simp: upd_to_def fun_eq_iff\<close>)
  then show ?thesis by simp
qed

end
