(* ===== verification/Kernel_Func.thy ===== *)
theory Kernel_Func
  imports Kernel_Lemmas
begin

text \<open>
  A functional transaction through the kernel: every run that ends has sent every channel's frames of
  the input image to the AI Engine, has written the frames received on every channel to the channel's region
  of the output image and nowhere else, and has stored the counters.
\<close>

section \<open>Regions of the dataflow\<close>

lemma sent_words_simps [simp]:
  "sent_words [] = []" "sent_words (Send x # acts) = x # sent_words acts"
  "sent_words (Delay d # acts) = sent_words acts" "sent_words (Trigger # acts) = sent_words acts"
  "sent_words (acts @ acts') = sent_words acts @ sent_words acts'"
  by (simp_all add: sent_words_def)

lemma sent_words_sends [simp]: "sent_words (sends vs) = map axi_word vs"
  by (induction vs) (simp_all add: sends_def)

text \<open>The memory words of a channel, computed in \<open>uint32_t\<close> by the scheduler and split by the feeder.\<close>

lemma chan_words_frames:
  assumes "0 < R" "unat (numFrames (chs ch)) + R < 2 ^ 32"
  shows "chan_words (channels_cfg N R chs) ch = mem_frames R (unat (numFrames (chs ch)))"
proof -
  let ?n = "numFrames (chs ch)"
  have r: "unat (of_nat R :: u32) = R" using assms(2) by (intro unat_of_nat_small) simp
  have s: "unat (?n + (of_nat R - 1)) = unat ?n + (R - 1)"
  proof -
    have "unat (of_nat R - 1 :: u32) = R - 1" using assms(1) r by (subst unat_sub_small) simp_all
    then show ?thesis using assms by (subst unat_add_small) simp_all
  qed
  have "?n + of_nat R - 1 = ?n + (of_nat R - 1)" by simp
  then have "unat (words_total (channels_cfg N R chs) ch) = (unat ?n + (R - 1)) div R"
    unfolding words_total_def channels_cfg_def burst_cfg.simps by (simp only: unat_div s r)
  then show ?thesis using assms(1) by (simp add: chan_words_def mem_frames_ceil)
qed

lemma load_region_func:
  fixes mem :: "'m::len word list" and chs :: "nat \<Rightarrow> 's::len word buff_channel"
  assumes run: "load_region N D sched chs mem chs' acts"
    and R: "0 < MEM_RATIO TYPE('m) TYPE('s)"
    and m: "\<And>ch. ch < N \<Longrightarrow> mode (chs ch) = PL_FUNC_MODE"
    and ok: "load_ok (channels_cfg N (MEM_RATIO TYPE('m) TYPE('s)) chs) mem"
    and fr: "\<And>ch. ch < N \<Longrightarrow> unat (numFrames (chs ch)) + MEM_RATIO TYPE('m) TYPE('s) < 2 ^ 32"
    and sched: "\<And>ch. sched ch 0 \<le> sched ch 1" and ch: "ch < N"
  shows "sent_words (acts ch) = map axi_word (take (unat (numFrames (chs ch)))
      (stream_words (take (mem_frames (MEM_RATIO TYPE('m) TYPE('s)) (unat (numFrames (chs ch))))
        (drop (unat (offsets (chs ch))) mem))))"
    "chs' ch = (chs ch)\<lparr>firstcc := of_nat (sched ch 0), lastcc := of_nat (last_cycle (sched ch))\<rparr>"
proof -
  let ?R = "MEM_RATIO TYPE('m) TYPE('s)" and ?n = "unat (numFrames (chs ch))"
  let ?c = "channels_cfg N ?R chs"
  obtain k d where l: "(load_step ?c mem)\<^sup>*\<^sup>* (load_memories_init ?c (mode (chs 0) = PL_FUNC_MODE)) (k, d)"
    "pc k = Finished" "load_stream D (sched ch) (chs ch) (fed d ch) = Some (chs' ch, [], acts ch)"
    using run ch by (cases rule: load_region.cases) blast
  have m0: "mode (chs 0) = PL_FUNC_MODE" using m [of 0] ch by simp
  have l': "(load_step ?c mem)\<^sup>*\<^sup>* (load_memories_init ?c True) (k, d)" using l(1) m0 by simp
  have nc: "ch < bc_channels ?c" using ch by (simp add: channels_cfg_def)
  have kw: "chan_words ?c ch = mem_frames ?R ?n" by (intro chan_words_frames R fr ch)
  have sl: "fed d ch @ to_fifo d ch = take (mem_frames ?R ?n) (drop (unat (offsets (chs ch))) mem)"
    using load_finished [OF ok l' l(2) nc] unfolding chan_slice_def kw by (simp add: channels_cfg_def)
  have lsl: "length (fed d ch @ to_fifo d ch) = mem_frames ?R ?n"
    unfolding sl using ok nc kw by (auto simp: load_ok_def channels_cfg_def)
  obtain fd where f: "feed D (chs ch) (fed d ch) = Some fd"
    using l(3) by (auto simp: load_stream_def split: Option.bind_splits)
  then have le: "mem_frames ?R ?n \<le> length (fed d ch)"
    using feed_func [OF m [OF ch] R, of D "fed d ch"] by (auto simp: Let_def split: if_splits)
  have "length (to_fifo d ch) = 0" using lsl le unfolding length_append by linarith
  then have all: "fed d ch = take (mem_frames ?R ?n) (drop (unat (offsets (chs ch))) mem)"
    using sl by simp
  have fr: "feed D (chs ch) (fed d ch) = Some (drop (mem_frames ?R ?n) (fed d ch),
      [Delay (unat (delays (chs ch))), Trigger] @ sends (fed_frames ?n (fed d ch)) @ [Trigger])"
    using feed_func [OF m [OF ch] R, of D "fed d ch"] le by (simp add: Let_def)
  from load_stream_run [OF fr sched [of ch]] l(3)
  have r: "chs' ch = (chs ch)\<lparr>firstcc := of_nat (sched ch 0), lastcc := of_nat (last_cycle (sched ch))\<rparr>"
    "acts ch = [Delay (unat (delays (chs ch))), Trigger] @ sends (fed_frames ?n (fed d ch)) @ [Trigger]"
    by simp_all
  show "chs' ch = (chs ch)\<lparr>firstcc := of_nat (sched ch 0), lastcc := of_nat (last_cycle (sched ch))\<rparr>" by (rule r(1))
  show "sent_words (acts ch) = map axi_word (take ?n (stream_words (take (mem_frames ?R ?n)
      (drop (unat (offsets (chs ch))) mem))))"
    unfolding r(2) by (simp add: fed_frames_def all)
qed

lemma store_stream_func:
  fixes ch :: "'s::len word buff_channel"
  assumes run: "store_stream D sched ch xs = Some (ch', rest, acts :: ('s word, 'm::len word) action list)"
    and R: "0 < MEM_RATIO TYPE('m) TYPE('s)" and m: "mode ch = PL_FUNC_MODE" and sched: "sched 0 \<le> sched 1"
  shows "unat (numFrames ch) \<le> length xs"
    "ch' = ch\<lparr>firstcc := of_nat (sched 0), lastcc := of_nat (last_cycle sched)\<rparr>"
    "mem_writes acts = packed (mem_frames (MEM_RATIO TYPE('m) TYPE('s)) (unat (numFrames ch)))
      (map axi_data (take (unat (numFrames ch)) xs))"
proof -
  let ?n = "unat (numFrames ch)"
  obtain acts' :: "('s word, 'm word) action list" where g:
    "get D ch xs = (if ?n \<le> length xs then Some (ch, drop ?n xs, acts') else None)"
    "?n \<le> length xs \<longrightarrow> collects (unat (delays ch)) ?n xs
        (packed (mem_frames (MEM_RATIO TYPE('m) TYPE('s)) ?n) (map axi_data (take ?n xs))) acts'"
    using get_func [OF m R, of D xs] by blast
  show le: "?n \<le> length xs"
  proof (rule ccontr)
    assume "\<not> ?n \<le> length xs"
    then have "get D ch xs = (None :: ('s word buff_channel \<times> 's word ap_axiu list \<times> ('s word, 'm word) action list) option)"
      using g(1) by simp
    then show False using run by (simp add: store_stream_def)
  qed
  then have c: "collects (unat (delays ch)) ?n xs
        (packed (mem_frames (MEM_RATIO TYPE('m) TYPE('s)) ?n) (map axi_data (take ?n xs))) acts'" using g(2) by blast
  then have "length (filter (\<lambda>a. a = Trigger) acts') = 2" by (simp add: collects_def triggers_def)
  from run_counter_two [OF this sched, of ch] have
    "store_stream D sched ch xs = Some (ch\<lparr>firstcc := of_nat (sched 0), lastcc := of_nat (last_cycle sched)\<rparr>, drop ?n xs, acts')"
    using g(1) le by (simp add: store_stream_def)
  with run have e: "ch' = ch\<lparr>firstcc := of_nat (sched 0), lastcc := of_nat (last_cycle sched)\<rparr>" "acts = acts'" by simp_all
  show "ch' = ch\<lparr>firstcc := of_nat (sched 0), lastcc := of_nat (last_cycle sched)\<rparr>" by (rule e(1))
  show "mem_writes acts = packed (mem_frames (MEM_RATIO TYPE('m) TYPE('s)) ?n) (map axi_data (take ?n xs))"
    using c unfolding e(2) by (simp add: collects_def)
qed

lemma store_region_func:
  fixes mem :: "'m::len word list" and chs :: "nat \<Rightarrow> 's::len word buff_channel"
  assumes run: "store_region N D sched chs strms mem chs' mem'"
    and R: "0 < MEM_RATIO TYPE('m) TYPE('s)"
    and m: "\<And>ch. ch < N \<Longrightarrow> mode (chs ch) = PL_FUNC_MODE"
    and ok: "\<And>src. (\<And>ch. ch < N \<Longrightarrow> length (src ch) =
        chan_words (channels_cfg N (MEM_RATIO TYPE('m) TYPE('s)) chs) ch) \<Longrightarrow>
        store_ok (channels_cfg N (MEM_RATIO TYPE('m) TYPE('s)) chs) src mem"
    and fr: "\<And>ch. ch < N \<Longrightarrow> unat (numFrames (chs ch)) + MEM_RATIO TYPE('m) TYPE('s) < 2 ^ 32"
    and sched: "\<And>ch. sched ch 0 \<le> sched ch 1" and N: "0 < N"
  shows "length mem' = length mem"
    "ch < N \<Longrightarrow> chs' ch = (chs ch)\<lparr>firstcc := of_nat (sched ch 0), lastcc := of_nat (last_cycle (sched ch))\<rparr>"
    "ch < N \<Longrightarrow> unat (numFrames (chs ch)) \<le> length (strms ch)"
    "ch < N \<Longrightarrow> take (mem_frames (MEM_RATIO TYPE('m) TYPE('s)) (unat (numFrames (chs ch))))
        (drop (unat (offsets (chs ch))) mem') =
      packed (mem_frames (MEM_RATIO TYPE('m) TYPE('s)) (unat (numFrames (chs ch))))
        (map axi_data (take (unat (numFrames (chs ch))) (strms ch)))"
    "a < length mem \<Longrightarrow> \<forall>ch < N. \<not> in_region (channels_cfg N (MEM_RATIO TYPE('m) TYPE('s)) chs) ch a \<Longrightarrow>
      mem' ! a = mem ! a"
proof -
  let ?R = "MEM_RATIO TYPE('m) TYPE('s)"
  let ?c = "channels_cfg N ?R chs" and ?n = "\<lambda>ch. unat (numFrames (chs ch))"
  obtain k d rest and acts :: "nat \<Rightarrow> ('s word, 'm word) action list" where
    st: "\<And>ch. ch < N \<Longrightarrow> store_stream D (sched ch) (chs ch) (strms ch) = Some (chs' ch, rest ch, acts ch)"
    and l: "(store_step ?c)\<^sup>*\<^sup>* (store_memories_init ?c (mode (chs 0) = PL_FUNC_MODE)
        (\<lambda>ch. mem_writes (acts ch)) mem) (k, d)" "pc k = Finished" and d: "mem' = stored d"
    using run by (cases rule: store_region.cases) blast
  have m0: "mode (chs 0) = PL_FUNC_MODE" using m N by blast
  have w: "mem_writes (acts ch) = packed (mem_frames ?R (?n ch)) (map axi_data (take (?n ch) (strms ch)))"
    "chs' ch = (chs ch)\<lparr>firstcc := of_nat (sched ch 0), lastcc := of_nat (last_cycle (sched ch))\<rparr>"
    "?n ch \<le> length (strms ch)" if "ch < N" for ch
    using store_stream_func [OF st [OF that] R m [OF that] sched] by simp_all
  have kw: "chan_words ?c ch = mem_frames ?R (?n ch)" if "ch < N" for ch
    by (intro chan_words_frames R fr that)
  have sok: "store_ok ?c (\<lambda>ch. mem_writes (acts ch)) mem" by (rule ok) (simp add: w kw)
  have l': "(store_step ?c)\<^sup>*\<^sup>* (store_memories_init ?c True (\<lambda>ch. mem_writes (acts ch)) mem) (k, d)"
    using l(1) m0 by simp
  note f = store_finished [OF sok l' l(2)]
  show "length mem' = length mem" using f(1) d by simp
  show "a < length mem \<Longrightarrow> \<forall>ch < N. \<not> in_region ?c ch a \<Longrightarrow> mem' ! a = mem ! a"
    using f(3) d by (simp add: channels_cfg_def)
  show "ch < N \<Longrightarrow> chs' ch = (chs ch)\<lparr>firstcc := of_nat (sched ch 0), lastcc := of_nat (last_cycle (sched ch))\<rparr>"
    "ch < N \<Longrightarrow> ?n ch \<le> length (strms ch)" using w by blast+
  assume ch: "ch < N"
  then have "ch < bc_channels ?c" by (simp add: channels_cfg_def)
  from f(2) [OF this] have "take (mem_frames ?R (?n ch)) (drop (unat (bc_offsets ?c ch)) mem') = mem_writes (acts ch)"
    by (simp add: kw ch d)
  moreover have "bc_offsets ?c ch = offsets (chs ch)" by (simp add: channels_cfg_def)
  ultimately show "take (mem_frames ?R (?n ch)) (drop (unat (offsets (chs ch))) mem') =
      packed (mem_frames ?R (?n ch)) (map axi_data (take (?n ch) (strms ch)))"
    using w(1) [OF ch] by simp
qed

section \<open>The kernel\<close>

text \<open>What the configuration words say about a channel: its frames, and where its region is.\<close>

definition cfg_frames :: "nat \<Rightarrow> u64 list \<Rightarrow> nat \<Rightarrow> nat \<Rightarrow> nat" where
  "cfg_frames N cfg b ch = unat (ucast (cfg ! (1 + N * (b + 1) + ch)) :: u32)"

definition cfg_offset :: "nat \<Rightarrow> u64 list \<Rightarrow> nat \<Rightarrow> nat \<Rightarrow> nat" where
  "cfg_offset N cfg b ch = unat (ucast (cfg ! (1 + N * (b + 3) + ch)) :: u32)"

text \<open>The regions of the channels lie inside the memory, for the channels to (\<open>b = 0\<close>) or from
  (\<open>b = 4\<close>) the AI Engine.\<close>

definition cfg_fits :: "nat \<Rightarrow> nat \<Rightarrow> u64 list \<Rightarrow> nat \<Rightarrow> 'w list \<Rightarrow> bool" where
  "cfg_fits R N cfg b mem \<longleftrightarrow> length mem < 2 ^ 32 - 32 \<and>
     (\<forall>ch < N. cfg_frames N cfg b ch + R < 2 ^ 32 \<and>
        cfg_offset N cfg b ch + mem_frames R (cfg_frames N cfg b ch) \<le> length mem)"

definition cfg_regions_disjoint :: "nat \<Rightarrow> nat \<Rightarrow> u64 list \<Rightarrow> nat \<Rightarrow> bool" where
  "cfg_regions_disjoint R N cfg b \<longleftrightarrow> (\<forall>x < N. \<forall>y < N. x \<noteq> y \<longrightarrow>
     cfg_offset N cfg b x + mem_frames R (cfg_frames N cfg b x) \<le> cfg_offset N cfg b y \<or>
     cfg_offset N cfg b y + mem_frames R (cfg_frames N cfg b y) \<le> cfg_offset N cfg b x \<or>
     cfg_frames N cfg b x = 0 \<or> cfg_frames N cfg b y = 0)"

lemma burst_length_ok: "BURST_LENGTH_EACH_CHANNEL = 16"
  by (simp add: BURST_LENGTH_EACH_CHANNEL_def)

lemma cfg_fits_load_ok:
  assumes R: "0 < R" and N: "N < 2 ^ 32" and fits: "cfg_fits R N cfg b mem"
    and chs: "\<And>ch. ch < N \<Longrightarrow> numFrames (chs ch) = ucast (cfg ! (1 + N * (b + 1) + ch)) \<and>
      offsets (chs ch) = ucast (cfg ! (1 + N * (b + 3) + ch))"
  shows "load_ok (channels_cfg N R chs) mem"
proof -
  have e: "unat (numFrames (chs ch)) = cfg_frames N cfg b ch" "unat (offsets (chs ch)) = cfg_offset N cfg b ch"
    if "ch < N" for ch using chs [OF that] by (simp_all add: cfg_frames_def cfg_offset_def)
  have k: "chan_words (channels_cfg N R chs) ch = mem_frames R (cfg_frames N cfg b ch)" if "ch < N" for ch
    using chan_words_frames [of R chs ch N] R fits that e [OF that] by (simp add: cfg_fits_def)
  have in_mem: "cfg_offset N cfg b ch + mem_frames R (cfg_frames N cfg b ch) \<le> length mem" if "ch < N" for ch
    using fits that by (simp add: cfg_fits_def)
  have lm: "length mem < 2 ^ 32 - 32" using fits by (simp add: cfg_fits_def)
  have sel: "bc_channels (channels_cfg N R chs) = N" "bc_burst (channels_cfg N R chs) = 16"
    "\<And>ch. unat (bc_offsets (channels_cfg N R chs) ch) = unat (offsets (chs ch))"
    by (simp_all add: channels_cfg_def burst_length_ok)
  show ?thesis
    unfolding load_ok_def cfg_ok_def sel fifo_capacity_def
  proof (intro conjI allI impI)
    fix ch assume ch: "ch < N"
    note i = in_mem [OF ch]
    show "unat (offsets (chs ch)) + chan_words (channels_cfg N R chs) ch \<le> 2 ^ 32"
      "chan_words (channels_cfg N R chs) ch + 16 * 2 < 2 ^ 32"
      "unat (offsets (chs ch)) + chan_words (channels_cfg N R chs) ch \<le> length mem"
      using i lm unfolding e(2) [OF ch] k [OF ch] by linarith+
  qed (use N lm in simp_all)
qed

lemma cfg_fits_store_ok:
  assumes R: "0 < R" and N: "N < 2 ^ 32" and fits: "cfg_fits R N cfg b mem" and dis: "cfg_regions_disjoint R N cfg b"
    and chs: "\<And>ch. ch < N \<Longrightarrow> numFrames (chs ch) = ucast (cfg ! (1 + N * (b + 1) + ch)) \<and>
      offsets (chs ch) = ucast (cfg ! (1 + N * (b + 3) + ch))"
    and src: "\<And>ch. ch < N \<Longrightarrow> length (src ch) = chan_words (channels_cfg N R chs) ch"
  shows "store_ok (channels_cfg N R chs) src mem"
proof -
  note l = cfg_fits_load_ok [OF R N fits chs]
  have e: "unat (numFrames (chs ch)) = cfg_frames N cfg b ch" "unat (offsets (chs ch)) = cfg_offset N cfg b ch"
    if "ch < N" for ch using chs [OF that] by (simp_all add: cfg_frames_def cfg_offset_def)
  have k: "chan_words (channels_cfg N R chs) ch = mem_frames R (cfg_frames N cfg b ch)" if "ch < N" for ch
    using chan_words_frames [of R chs ch N] R fits that e [OF that] by (simp add: cfg_fits_def)
  have reg: "in_region (channels_cfg N R chs) ch a \<longleftrightarrow> cfg_offset N cfg b ch \<le> a \<and>
      a < cfg_offset N cfg b ch + mem_frames R (cfg_frames N cfg b ch)" if "ch < N" for ch a
    unfolding in_region_def k [OF that] e(2) [OF that, symmetric] by (simp add: channels_cfg_def)
  have z: "mem_frames R 0 = 0" by (simp add: mem_frames_def)
  have apart: "\<not> in_region (channels_cfg N R chs) y a"
    if "x < N" "y < N" "x \<noteq> y" "in_region (channels_cfg N R chs) x a" for x y a
  proof -
    have d: "cfg_offset N cfg b x + mem_frames R (cfg_frames N cfg b x) \<le> cfg_offset N cfg b y \<or>
        cfg_offset N cfg b y + mem_frames R (cfg_frames N cfg b y) \<le> cfg_offset N cfg b x \<or>
        cfg_frames N cfg b x = 0 \<or> cfg_frames N cfg b y = 0"
      by (rule dis [unfolded cfg_regions_disjoint_def, rule_format, OF that(1,2,3)])
    have i: "cfg_offset N cfg b x \<le> a \<and> a < cfg_offset N cfg b x + mem_frames R (cfg_frames N cfg b x)"
      using that(4) unfolding reg [OF that(1)] .
    have "\<not> (cfg_offset N cfg b y \<le> a \<and> a < cfg_offset N cfg b y + mem_frames R (cfg_frames N cfg b y))"
      using d
    proof (elim disjE)
      assume "cfg_frames N cfg b x = 0" then show ?thesis using i z by auto
    next
      assume "cfg_frames N cfg b y = 0" then show ?thesis using z by simp
    qed (use i in linarith)+
    then show ?thesis unfolding reg [OF that(2)] .
  qed
  have N': "bc_channels (channels_cfg N R chs) = N" by (simp add: channels_cfg_def)
  show ?thesis
    unfolding store_ok_def N'
  proof (intro conjI allI impI)
    show "cfg_ok (channels_cfg N R chs)" "length mem \<le> 2 ^ 32" using l unfolding load_ok_def by blast+
    fix x assume x: "x < N"
    show "length (src x) = chan_words (channels_cfg N R chs) x" by (rule src [OF x])
    show "unat (bc_offsets (channels_cfg N R chs) x) + chan_words (channels_cfg N R chs) x \<le> length mem"
      using l x unfolding load_ok_def N' by blast
    fix y a assume "y < N" "x \<noteq> y" "in_region (channels_cfg N R chs) x a"
    then show "\<not> in_region (channels_cfg N R chs) y a" using apart x by blast
  qed
qed

end
