(* ===== verification/Kernel_Run.thy ===== *)
theory Kernel_Run
  imports Kernel_Func
begin

text \<open>
  The kernel in functional mode, from its arguments to its results: what is sent, what is stored, what
  is left alone and what the counters are.
\<close>

text \<open>The specification: what a functional transaction has done to the memories, the streams and the
  counters.\<close>

definition words_sent :: "nat \<Rightarrow> u64 list \<Rightarrow> 'm::len word list \<Rightarrow> nat \<Rightarrow> 's::len word list" where
  "words_sent N cfg mem ch = take (cfg_frames N cfg 0 ch)
     (stream_words (take (mem_frames (MEM_RATIO TYPE('m) TYPE('s)) (cfg_frames N cfg 0 ch))
       (drop (cfg_offset N cfg 0 ch) mem)))"

definition region_of :: "nat \<Rightarrow> nat \<Rightarrow> u64 list \<Rightarrow> nat \<Rightarrow> nat \<Rightarrow> nat set" where
  "region_of R N cfg b ch =
     {cfg_offset N cfg b ch ..< cfg_offset N cfg b ch + mem_frames R (cfg_frames N cfg b ch)}"

definition region_words :: "nat \<Rightarrow> nat \<Rightarrow> u64 list \<Rightarrow> nat \<Rightarrow> nat \<Rightarrow> 'w list \<Rightarrow> 'w list" where
  "region_words R N cfg b ch mem =
     take (mem_frames R (cfg_frames N cfg b ch)) (drop (cfg_offset N cfg b ch) mem)"

text \<open>Two counter values taken from a run: the first is read before the second.\<close>

definition counted :: "u64 \<Rightarrow> u64 \<Rightarrow> bool" where
  "counted f l \<longleftrightarrow> (\<exists>s. s 0 \<le> s (1::nat) \<and> f = of_nat (s 0) \<and> l = of_nat (last_cycle s))"

definition harness_ready :: "nat \<Rightarrow> u64 list \<Rightarrow> u64 list \<Rightarrow> bool" where
  "harness_ready N cfg perf \<longleftrightarrow> 0 < N \<and> N < 2 ^ 32 \<and> length cfg = 8 * N + 1 \<and> length perf = 4 * N"

definition func_ready ::
  "nat \<Rightarrow> nat \<Rightarrow> u64 list \<Rightarrow> u64 list \<Rightarrow> 'm list \<Rightarrow> 'm list \<Rightarrow> bool" where
  "func_ready R N cfg perf to_mem from_mem \<longleftrightarrow> 0 < R \<and> harness_ready N cfg perf \<and> cfg ! 0 = 0 \<and>
     cfg_fits R N cfg 0 to_mem \<and> cfg_fits R N cfg 4 from_mem \<and> cfg_regions_disjoint R N cfg 4"

lemma cfg_channel_simps [simp]:
  "mode (cfg_channel N cfg b ch c) = cfg_mode (cfg ! 0)" "delays (cfg_channel N cfg b ch c) = cfg ! (1 + N * b + ch)"
  "numFrames (cfg_channel N cfg b ch c) = ucast (cfg ! (1 + N * (b + 1) + ch))"
  "numRep (cfg_channel N cfg b ch c) = ucast (cfg ! (1 + N * (b + 2) + ch))"
  "offsets (cfg_channel N cfg b ch c) = ucast (cfg ! (1 + N * (b + 3) + ch))"
  "buff (cfg_channel N cfg b ch c) = buff c"
  by (simp_all add: cfg_channel_def)

lemma configured_harness_simps:
  "ch < N \<Longrightarrow> to_aie_ch (configured_harness N cfg th) ch = cfg_channel N cfg 0 ch (to_aie_ch th ch)"
  "ch < N \<Longrightarrow> from_aie_ch (configured_harness N cfg th) ch = cfg_channel N cfg 4 ch (from_aie_ch th ch)"
  by (simp_all add: configured_harness_def)

text \<open>The two dataflow regions of a functional transaction, over the configuration words.\<close>

lemma load_region_cfg:
  fixes mem :: "'m::len word list" and th :: "'s::len word test_harness"
  assumes run: "load_region N D sched (to_aie_ch (configured_harness N cfg th)) mem chs' acts"
    and R: "0 < MEM_RATIO TYPE('m) TYPE('s)" and N: "N < 2 ^ 32" and m: "cfg ! 0 = 0"
    and fits: "cfg_fits (MEM_RATIO TYPE('m) TYPE('s)) N cfg 0 mem" and sched: "\<And>ch. sched ch 0 \<le> sched ch 1"
    and ch: "ch < N"
  shows "sent_words (acts ch) = map axi_word (words_sent N cfg mem ch)" "counted (firstcc (chs' ch)) (lastcc (chs' ch))"
    "mode (chs' ch) = PL_FUNC_MODE"
proof -
  let ?chs = "to_aie_ch (configured_harness N cfg th)"
  have c: "numFrames (?chs ch) = ucast (cfg ! (1 + N * (0 + 1) + ch)) \<and> offsets (?chs ch) = ucast (cfg ! (1 + N * (0 + 3) + ch))"
    if "ch < N" for ch by (simp add: configured_harness_simps that)
  have md: "mode (?chs ch) = PL_FUNC_MODE" if "ch < N" for ch
    using m by (simp add: configured_harness_simps that cfg_mode_def)
  have e: "unat (numFrames (?chs ch)) = cfg_frames N cfg 0 ch" "unat (offsets (?chs ch)) = cfg_offset N cfg 0 ch"
    if "ch < N" for ch using c [OF that] by (simp_all add: cfg_frames_def cfg_offset_def)
  have fr: "unat (numFrames (?chs ch)) + MEM_RATIO TYPE('m) TYPE('s) < 2 ^ 32" if "ch < N" for ch
    using fits that unfolding e(1) [OF that] cfg_fits_def by blast
  note f = load_region_func [OF run R md cfg_fits_load_ok [OF R N fits c] fr sched ch]
  have f2: "chs' ch = (?chs ch)\<lparr>firstcc := of_nat (sched ch 0), lastcc := of_nat (last_cycle (sched ch))\<rparr>"
    by (rule f(2))
  show "sent_words (acts ch) = map axi_word (words_sent N cfg mem ch)"
    using f(1) unfolding words_sent_def e [OF ch] .
  show "counted (firstcc (chs' ch)) (lastcc (chs' ch))" "mode (chs' ch) = PL_FUNC_MODE"
    unfolding f2 counted_def using sched [of ch] md [OF ch] by auto
qed

lemma store_region_cfg:
  fixes mem :: "'m::len word list" and th :: "'s::len word test_harness"
  assumes run: "store_region N D sched (from_aie_ch (configured_harness N cfg th)) strms mem chs' mem'"
    and R: "0 < MEM_RATIO TYPE('m) TYPE('s)" and N: "0 < N" "N < 2 ^ 32" and m: "cfg ! 0 = 0"
    and fits: "cfg_fits (MEM_RATIO TYPE('m) TYPE('s)) N cfg 4 mem"
    and dis: "cfg_regions_disjoint (MEM_RATIO TYPE('m) TYPE('s)) N cfg 4"
    and sched: "\<And>ch. sched ch 0 \<le> sched ch 1"
  shows "length mem' = length mem"
    "ch < N \<Longrightarrow> cfg_frames N cfg 4 ch \<le> length (strms ch)"
    "ch < N \<Longrightarrow> region_words (MEM_RATIO TYPE('m) TYPE('s)) N cfg 4 ch mem' =
      packed (mem_frames (MEM_RATIO TYPE('m) TYPE('s)) (cfg_frames N cfg 4 ch))
        (map axi_data (take (cfg_frames N cfg 4 ch) (strms ch)))"
    "a < length mem \<Longrightarrow> (\<forall>ch < N. a \<notin> region_of (MEM_RATIO TYPE('m) TYPE('s)) N cfg 4 ch) \<Longrightarrow> mem' ! a = mem ! a"
    "ch < N \<Longrightarrow> counted (firstcc (chs' ch)) (lastcc (chs' ch))" "ch < N \<Longrightarrow> mode (chs' ch) = PL_FUNC_MODE"
proof -
  let ?chs = "from_aie_ch (configured_harness N cfg th)" and ?R = "MEM_RATIO TYPE('m) TYPE('s)"
  have c: "numFrames (?chs ch) = ucast (cfg ! (1 + N * (4 + 1) + ch)) \<and> offsets (?chs ch) = ucast (cfg ! (1 + N * (4 + 3) + ch))"
    if "ch < N" for ch by (simp add: configured_harness_simps that)
  have md: "mode (?chs ch) = PL_FUNC_MODE" if "ch < N" for ch
    using m by (simp add: configured_harness_simps that cfg_mode_def)
  have e: "unat (numFrames (?chs ch)) = cfg_frames N cfg 4 ch" "unat (offsets (?chs ch)) = cfg_offset N cfg 4 ch"
    if "ch < N" for ch using c [OF that] by (simp_all add: cfg_frames_def cfg_offset_def)
  have fr: "unat (numFrames (?chs ch)) + ?R < 2 ^ 32" if "ch < N" for ch
    using fits that unfolding e(1) [OF that] cfg_fits_def by blast
  note f = store_region_func [OF run R md cfg_fits_store_ok [OF R N(2) fits dis c] fr sched N(1)]
  have f2: "chs' ch = (?chs ch)\<lparr>firstcc := of_nat (sched ch 0), lastcc := of_nat (last_cycle (sched ch))\<rparr>"
    "cfg_frames N cfg 4 ch \<le> length (strms ch)" if "ch < N" for ch
    using f(2) [of ch] f(3) [of ch] e [of ch] that by auto
  have f4: "region_words ?R N cfg 4 ch mem' =
      packed (mem_frames ?R (cfg_frames N cfg 4 ch)) (map axi_data (take (cfg_frames N cfg 4 ch) (strms ch)))"
    if ch: "ch < N" for ch
    unfolding region_words_def e [OF ch, symmetric] by (rule f(4)) (simp_all add: ch)
  have f5: "mem' ! a = mem ! a"
    if "a < length mem" "\<forall>ch < N. \<not> in_region (channels_cfg N ?R ?chs) ch a" for a
    by (rule f(5)) (use that in simp_all)
  show "length mem' = length mem" by (rule f(1))
  show "ch < N \<Longrightarrow> cfg_frames N cfg 4 ch \<le> length (strms ch)"
    "ch < N \<Longrightarrow> region_words ?R N cfg 4 ch mem' =
      packed (mem_frames ?R (cfg_frames N cfg 4 ch)) (map axi_data (take (cfg_frames N cfg 4 ch) (strms ch)))"
    by (fact f2(2), fact f4)
  show "ch < N \<Longrightarrow> counted (firstcc (chs' ch)) (lastcc (chs' ch))" "ch < N \<Longrightarrow> mode (chs' ch) = PL_FUNC_MODE"
    using f2(1) [of ch] sched [of ch] md [of ch] unfolding counted_def by auto
  assume a: "a < length mem" "\<forall>ch < N. a \<notin> region_of ?R N cfg 4 ch"
  have "\<not> in_region (channels_cfg N ?R ?chs) ch a" if ch: "ch < N" for ch
  proof -
    have "chan_words (channels_cfg N ?R ?chs) ch = mem_frames ?R (cfg_frames N cfg 4 ch)"
      using chan_words_frames [of ?R ?chs ch N] R fr [OF ch] e [OF ch] by simp
    moreover have "unat (bc_offsets (channels_cfg N ?R ?chs) ch) = cfg_offset N cfg 4 ch"
      using e [OF ch] by (simp add: channels_cfg_def)
    ultimately show ?thesis using a(2) ch unfolding in_region_def region_of_def by simp
  qed
  then show "mem' ! a = mem ! a" using f5 [OF a(1)] by blast
qed

section \<open>The kernel\<close>

lemma kernel_func_run:
  fixes to_mem from_mem :: "'m::len word list" and aie :: "(nat \<Rightarrow> 's::len word ap_axiu list) \<Rightarrow> nat \<Rightarrow> 's word ap_axiu list"
  assumes run: "kernel N D aie cfg perf to_mem from_mem sent perf' mem'"
    and rdy: "func_ready (MEM_RATIO TYPE('m) TYPE('s)) N cfg perf to_mem from_mem"
  shows "ch < N \<Longrightarrow> sent ch = map axi_word (words_sent N cfg to_mem ch)"
    "ch < N \<Longrightarrow> cfg_frames N cfg 4 ch \<le> length (aie sent ch)"
    "ch < N \<Longrightarrow> region_words (MEM_RATIO TYPE('m) TYPE('s)) N cfg 4 ch mem' =
      packed (mem_frames (MEM_RATIO TYPE('m) TYPE('s)) (cfg_frames N cfg 4 ch))
        (map axi_data (take (cfg_frames N cfg 4 ch) (aie sent ch)))"
    "length mem' = length from_mem"
    "a < length from_mem \<Longrightarrow> (\<forall>ch < N. a \<notin> region_of (MEM_RATIO TYPE('m) TYPE('s)) N cfg 4 ch) \<Longrightarrow>
      mem' ! a = from_mem ! a"
    "ch < N \<Longrightarrow> counted (perf' ! ch) (perf' ! (ch + N)) \<and> counted (perf' ! (ch + 2 * N)) (perf' ! (ch + 3 * N))"
    "length perf' = 4 * N"
proof -
  let ?R = "MEM_RATIO TYPE('m) TYPE('s)"
  have R: "0 < ?R" and N: "0 < N" "N < 2 ^ 32" and len: "length cfg = 8 * N + 1" "length perf = 4 * N"
    and m: "cfg ! 0 = 0" and fits: "cfg_fits ?R N cfg 0 to_mem" "cfg_fits ?R N cfg 4 from_mem"
    and dis: "cfg_regions_disjoint ?R N cfg 4"
    using rdy unfolding func_ready_def harness_ready_def by blast+
  obtain raw th1 th2 to_sched from_sched to_chs from_chs acts mem2 where
    k: "load_cfg N cfg (new_test_harness raw) = Some th1" "load_buffs N D to_mem th1 = Some th2"
      "\<And>ch. to_sched ch 0 \<le> to_sched ch 1 \<and> from_sched ch 0 \<le> from_sched ch 1"
      "load_region N D to_sched (to_aie_ch th2) to_mem to_chs (acts :: nat \<Rightarrow> ('s word, 'm word) action list)"
      "store_region N D from_sched (from_aie_ch th2) (aie (\<lambda>ch. sent_words (acts ch))) from_mem from_chs mem2"
      "store_buffs N D \<lparr>to_aie_ch = to_chs, from_aie_ch = from_chs\<rparr> mem2 = Some mem'"
      "store_perf N \<lparr>to_aie_ch = to_chs, from_aie_ch = from_chs\<rparr> perf = Some perf'"
      and s: "sent = (\<lambda>ch. sent_words (acts ch))"
    using run by (cases rule: kernel.cases) blast
  let ?th = "configured_harness N cfg (new_test_harness raw)"
  have md: "mode (to_aie_ch ?th ch) = PL_FUNC_MODE" if "ch < N" for ch
    using m that by (simp add: configured_harness_simps cfg_mode_def)
  have th1: "th1 = ?th" using k(1) load_cfg_run [OF len(1), of "new_test_harness raw"] by simp
  have th2: "th2 = ?th" using k(2) load_buffs_func [of N ?th D to_mem, OF md] unfolding th1 by simp
  have ld: "load_region N D to_sched (to_aie_ch ?th) to_mem to_chs acts" using k(4) unfolding th2 .
  have sd: "store_region N D from_sched (from_aie_ch ?th) (aie sent) from_mem from_chs mem2"
    using k(5) unfolding th2 s .
  have ts: "to_sched ch 0 \<le> to_sched ch 1" "from_sched ch 0 \<le> from_sched ch 1" for ch using k(3) by blast+
  note L = load_region_cfg [OF ld R N(2) m fits(1) ts(1)]
    and S = store_region_cfg [OF sd R N m fits(2) dis ts(2)]
  have mem2: "mem' = mem2" using k(6) store_buffs_func [of N "\<lparr>to_aie_ch = to_chs, from_aie_ch = from_chs\<rparr>" D mem2] S(6) by simp
  show "ch < N \<Longrightarrow> sent ch = map axi_word (words_sent N cfg to_mem ch)" unfolding s by (rule L(1))
  show "ch < N \<Longrightarrow> cfg_frames N cfg 4 ch \<le> length (aie sent ch)"
    "ch < N \<Longrightarrow> region_words ?R N cfg 4 ch mem' = packed (mem_frames ?R (cfg_frames N cfg 4 ch))
      (map axi_data (take (cfg_frames N cfg 4 ch) (aie sent ch)))"
    "length mem' = length from_mem"
    "a < length from_mem \<Longrightarrow> (\<forall>ch < N. a \<notin> region_of ?R N cfg 4 ch) \<Longrightarrow> mem' ! a = from_mem ! a"
    unfolding mem2 by (fact S(2), fact S(3), fact S(1), fact S(4))
  obtain p where p: "store_perf N \<lparr>to_aie_ch = to_chs, from_aie_ch = from_chs\<rparr> perf = Some p" "length p = 4 * N"
    "\<forall>ch < N. p ! ch = firstcc (to_chs ch) \<and> p ! (ch + N) = lastcc (to_chs ch) \<and>
       p ! (ch + 2 * N) = firstcc (from_chs ch) \<and> p ! (ch + 3 * N) = lastcc (from_chs ch)"
    using store_perf_run [OF len(2), of "\<lparr>to_aie_ch = to_chs, from_aie_ch = from_chs\<rparr>"] by auto
  have e: "perf' = p" using k(7) p(1) by simp
  show "length perf' = 4 * N" unfolding e by (rule p(2))
  assume ch: "ch < N"
  then show "counted (perf' ! ch) (perf' ! (ch + N)) \<and> counted (perf' ! (ch + 2 * N)) (perf' ! (ch + 3 * N))"
    unfolding e using p(3) L(2) S(5) by simp
qed

end
