(* ===== verification/Kernel_Live.thy ===== *)
theory Kernel_Live
  imports Kernel_Run
begin

text \<open>
  A functional transaction can always run to its end: both dataflow regions have a finished run, whatever
  the schedule has done so far, provided that the AI Engine sends at least the frames that are collected.
\<close>

section \<open>The feeders empty their streams\<close>

lemma load_drain:
  assumes "load_inv c mem m d"
  shows "\<exists>d'. (load_step c mem)\<^sup>*\<^sup>* (k, d) (k, d') \<and> (\<forall>ch < bc_channels c. to_fifo d' ch = [])"
  using assms
proof (induction "load_pending c d" arbitrary: d rule: less_induct)
  case less
  show ?case
  proof (cases "\<exists>d'. feeder_takes c d d'")
    case True
    then obtain t where t: "feeder_takes c d t" by blast
    note ok = feeder_takes_ok [OF less.prems t]
    then obtain d' where d': "(load_step c mem)\<^sup>*\<^sup>* (k, t) (k, d')" "\<forall>ch < bc_channels c. to_fifo d' ch = []"
      using less.hyps by blast
    have "load_step c mem (k, d) (k, t)" unfolding load_step_def using t by (rule burst_step.environment)
    with d' show ?thesis by (meson converse_rtranclp_into_rtranclp)
  next
    case False
    then have "to_fifo d ch = []" if "ch < bc_channels c" for ch
      using feeder_takes.intros [OF that, of d] by (cases "to_fifo d ch") auto
    then show ?thesis by blast
  qed
qed

lemma load_can_finish:
  assumes ok: "load_ok c mem" and s: "(load_step c mem)\<^sup>*\<^sup>* (load_memories_init c True) s"
  shows "\<exists>k d. (load_step c mem)\<^sup>*\<^sup>* s (k, d) \<and> pc k = Finished \<and>
    (\<forall>ch < bc_channels c. fed d ch = chan_slice c mem ch)"
proof -
  obtain k d where kd: "(load_step c mem)\<^sup>*\<^sup>* s (k, d)" "pc k = Finished"
    using loading.can_finish [OF load_reachable [OF ok s]] unfolding load_step_def by auto
  have "load_inv c mem (moved k) d"
    using loading.finished_all_moved(1) load_reachable [OF ok rtranclp_trans [OF s kd(1)]] kd(2) by blast
  then obtain d' where d': "(load_step c mem)\<^sup>*\<^sup>* (k, d) (k, d')" "\<forall>ch < bc_channels c. to_fifo d' ch = []"
    using load_drain by blast
  have r: "(load_step c mem)\<^sup>*\<^sup>* s (k, d')" using kd(1) d'(1) by (rule rtranclp_trans)
  have "fed d' ch = chan_slice c mem ch" if "ch < bc_channels c" for ch
    using load_finished [OF ok rtranclp_trans [OF s r] kd(2) that] d'(2) that by simp
  with r kd(2) show ?thesis by blast
qed

lemma store_can_finish:
  assumes ok: "store_ok c src mem" and s: "(store_step c)\<^sup>*\<^sup>* (store_memories_init c True src mem) s"
  shows "\<exists>k d. (store_step c)\<^sup>*\<^sup>* s (k, d) \<and> pc k = Finished"
  using storing.can_finish [OF store_reachable [OF ok s]] unfolding store_step_def by auto

section \<open>The regions\<close>

lemma load_region_exists:
  fixes mem :: "'m::len word list" and chs :: "nat \<Rightarrow> 's::len word buff_channel"
  assumes R: "0 < MEM_RATIO TYPE('m) TYPE('s)"
    and m: "\<forall>ch < N. mode (chs ch) = PL_FUNC_MODE" and N: "0 < N"
    and ok: "load_ok (channels_cfg N (MEM_RATIO TYPE('m) TYPE('s)) chs) mem"
    and fr: "\<forall>ch < N. unat (numFrames (chs ch)) + MEM_RATIO TYPE('m) TYPE('s) < 2 ^ 32"
    and sched: "\<forall>ch. sched ch 0 \<le> sched ch 1"
  shows "\<exists>chs' acts. load_region N D sched chs mem chs' acts"
proof -
  let ?R = "MEM_RATIO TYPE('m) TYPE('s)"
  let ?c = "channels_cfg N ?R chs"
  obtain k d where kd: "(load_step ?c mem)\<^sup>*\<^sup>* (load_memories_init ?c True) (k, d)" "pc k = Finished"
    "\<forall>ch < bc_channels ?c. fed d ch = chan_slice ?c mem ch"
    using load_can_finish [OF ok, of "load_memories_init ?c True"] by blast
  have nc: "bc_channels ?c = N" by (simp add: channels_cfg_def)
  have "\<exists>r. load_stream D (sched ch) (chs ch) (fed d ch) =
      Some (fst r, [], snd r :: ('s word, 'm word) action list)" if ch: "ch < N" for ch
  proof -
    have kw: "chan_words ?c ch = mem_frames ?R (unat (numFrames (chs ch)))"
      using chan_words_frames [of ?R chs ch N] R fr ch by blast
    have "unat (bc_offsets ?c ch) + chan_words ?c ch \<le> length mem" using ok ch unfolding load_ok_def nc by blast
    then have len: "length (fed d ch) = mem_frames ?R (unat (numFrames (chs ch)))"
      using kd(3) ch unfolding nc by (simp add: chan_slice_def kw)
    have "feed D (chs ch) (fed d ch) = Some ([],
        [Delay (unat (delays (chs ch))), Trigger] @ sends (fed_frames (unat (numFrames (chs ch))) (fed d ch)) @ [Trigger])"
      using feed_func [of "chs ch" D "fed d ch"] m ch R len by (simp add: Let_def)
    from load_stream_run [OF this] sched show ?thesis by (metis fst_conv snd_conv)
  qed
  then have "\<exists>r. \<forall>ch < N. load_stream D (sched ch) (chs ch) (fed d ch) =
      Some (fst (r ch), [], snd (r ch) :: ('s word, 'm word) action list)" by metis
  then obtain r where r: "\<And>ch. ch < N \<Longrightarrow> load_stream D (sched ch) (chs ch) (fed d ch) =
      Some (fst (r ch), [], snd (r ch) :: ('s word, 'm word) action list)" by blast
  have init: "(load_step ?c mem)\<^sup>*\<^sup>* (load_memories_init ?c (mode (chs 0) = PL_FUNC_MODE)) (k, d)"
    using kd(1) m N by simp
  have "load_region N D sched chs mem (\<lambda>ch. fst (r ch)) (\<lambda>ch. snd (r ch))"
    using init kd(2) r by (rule load_region.intros)
  then show ?thesis by blast
qed

lemma store_region_exists:
  fixes mem :: "'m::len word list" and chs :: "nat \<Rightarrow> 's::len word buff_channel"
  assumes R: "0 < MEM_RATIO TYPE('m) TYPE('s)"
    and m: "\<forall>ch < N. mode (chs ch) = PL_FUNC_MODE" and N: "0 < N"
    and ok: "\<And>src. (\<And>ch. ch < N \<Longrightarrow> length (src ch) =
        chan_words (channels_cfg N (MEM_RATIO TYPE('m) TYPE('s)) chs) ch) \<Longrightarrow>
        store_ok (channels_cfg N (MEM_RATIO TYPE('m) TYPE('s)) chs) src mem"
    and fr: "\<forall>ch < N. unat (numFrames (chs ch)) + MEM_RATIO TYPE('m) TYPE('s) < 2 ^ 32"
    and sched: "\<forall>ch. sched ch 0 \<le> sched ch 1"
    and long: "\<forall>ch < N. unat (numFrames (chs ch)) \<le> length (strms ch)"
  shows "\<exists>chs' mem'. store_region N D sched chs strms mem chs' mem'"
proof -
  let ?R = "MEM_RATIO TYPE('m) TYPE('s)"
  let ?c = "channels_cfg N ?R chs" and ?n = "\<lambda>ch. unat (numFrames (chs ch))"
  have "\<exists>r. store_stream D (sched ch) (chs ch) (strms ch) =
      Some (fst r, fst (snd r), snd (snd r) :: ('s word, 'm word) action list) \<and>
      mem_writes (snd (snd r)) = packed (mem_frames ?R (?n ch)) (map axi_data (take (?n ch) (strms ch)))"
    if ch: "ch < N" for ch
  proof -
    obtain acts :: "('s word, 'm word) action list" where g: "get D (chs ch) (strms ch) = Some (chs ch, drop (?n ch) (strms ch), acts)"
      "collects (unat (delays (chs ch))) (?n ch) (strms ch)
        (packed (mem_frames ?R (?n ch)) (map axi_data (take (?n ch) (strms ch)))) acts"
      using get_func [of "chs ch", where 'm = 'm and D = D and xs = "strms ch"] m ch R long by auto
    have "length (filter (\<lambda>a. a = Trigger) acts) = 2" using g(2) by (simp add: collects_def triggers_def)
    from run_counter_two [OF this, of "sched ch" "chs ch"] sched g(1)
    have "store_stream D (sched ch) (chs ch) (strms ch) =
        Some ((chs ch)\<lparr>firstcc := of_nat (sched ch 0), lastcc := of_nat (last_cycle (sched ch))\<rparr>,
          drop (?n ch) (strms ch), acts)"
      by (simp add: store_stream_def)
    moreover have "mem_writes acts = packed (mem_frames ?R (?n ch)) (map axi_data (take (?n ch) (strms ch)))"
      using g(2) by (simp add: collects_def)
    ultimately show ?thesis by (metis fst_conv snd_conv)
  qed
  then have "\<exists>r. \<forall>ch < N. store_stream D (sched ch) (chs ch) (strms ch) =
      Some (fst (r ch), fst (snd (r ch)), snd (snd (r ch)) :: ('s word, 'm word) action list) \<and>
      mem_writes (snd (snd (r ch))) = packed (mem_frames ?R (?n ch)) (map axi_data (take (?n ch) (strms ch)))"
    by metis
  then obtain r where r: "\<And>ch. ch < N \<Longrightarrow> store_stream D (sched ch) (chs ch) (strms ch) =
      Some (fst (r ch), fst (snd (r ch)), snd (snd (r ch)) :: ('s word, 'm word) action list)"
    "\<And>ch. ch < N \<Longrightarrow> mem_writes (snd (snd (r ch))) =
      packed (mem_frames ?R (?n ch)) (map axi_data (take (?n ch) (strms ch)))" by blast
  have "store_ok ?c (\<lambda>ch. mem_writes (snd (snd (r ch)))) mem"
  proof (rule ok)
    fix ch assume ch: "ch < N"
    then have "chan_words ?c ch = mem_frames ?R (?n ch)" using chan_words_frames [of ?R chs ch N] R fr by blast
    then show "length (mem_writes (snd (snd (r ch)))) = chan_words ?c ch" using r(2) [OF ch] by simp
  qed
  then obtain k d where kd: "(store_step ?c)\<^sup>*\<^sup>* (store_memories_init ?c True (\<lambda>ch. mem_writes (snd (snd (r ch)))) mem) (k, d)"
    "pc k = Finished" using store_can_finish by blast
  have init: "(store_step ?c)\<^sup>*\<^sup>* (store_memories_init ?c (mode (chs 0) = PL_FUNC_MODE)
      (\<lambda>ch. mem_writes (snd (snd (r ch)))) mem) (k, d)" using kd(1) m N by simp
  have "store_region N D sched chs strms mem (\<lambda>ch. fst (r ch)) (stored d)"
    using r(1) init kd(2) by (rule store_region.intros)
  then show ?thesis by blast
qed

section \<open>The kernel\<close>

lemma kernel_func_exists:
  fixes to_mem from_mem :: "'m::len word list" and aie :: "(nat \<Rightarrow> 's::len word ap_axiu list) \<Rightarrow> nat \<Rightarrow> 's word ap_axiu list"
  assumes rdy: "func_ready (MEM_RATIO TYPE('m) TYPE('s)) N cfg perf to_mem from_mem"
    and long: "\<And>sent ch. (\<forall>ch < N. sent ch = map axi_word (words_sent N cfg to_mem ch)) \<Longrightarrow> ch < N \<Longrightarrow>
      cfg_frames N cfg 4 ch \<le> length (aie sent ch)"
  shows "\<exists>sent perf' mem'. kernel N D aie cfg perf to_mem from_mem sent perf' mem'"
proof -
  let ?R = "MEM_RATIO TYPE('m) TYPE('s)"
  have R: "0 < ?R" and N: "0 < N" "N < 2 ^ 32" and len: "length cfg = 8 * N + 1" "length perf = 4 * N"
    and m: "cfg ! 0 = 0" and fits: "cfg_fits ?R N cfg 0 to_mem" "cfg_fits ?R N cfg 4 from_mem"
    and dis: "cfg_regions_disjoint ?R N cfg 4"
    using rdy unfolding func_ready_def harness_ready_def by blast+
  define c0 :: "'s word buff_channel" where "c0 = \<lparr>mode = PL_FUNC_MODE, numFrames = 0, numRep = 0, offsets = 0,
    delays = 0, firstcc = 0, lastcc = 0, buff = replicate D 0\<rparr>"
  define raw :: "'s word test_harness" where "raw = \<lparr>to_aie_ch = (\<lambda>_. c0), from_aie_ch = (\<lambda>_. c0)\<rparr>"
  let ?th = "configured_harness N cfg (new_test_harness raw)"
  let ?sched = "\<lambda>(ch::nat) (i::nat). i"
  have c: "numFrames (to_aie_ch ?th ch) = ucast (cfg ! (1 + N * (0 + 1) + ch)) \<and>
      offsets (to_aie_ch ?th ch) = ucast (cfg ! (1 + N * (0 + 3) + ch))"
    "numFrames (from_aie_ch ?th ch) = ucast (cfg ! (1 + N * (4 + 1) + ch)) \<and>
      offsets (from_aie_ch ?th ch) = ucast (cfg ! (1 + N * (4 + 3) + ch))"
    "mode (to_aie_ch ?th ch) = PL_FUNC_MODE" "mode (from_aie_ch ?th ch) = PL_FUNC_MODE"
    if "ch < N" for ch using m by (simp_all add: configured_harness_simps that cfg_mode_def)
  have e: "unat (numFrames (to_aie_ch ?th ch)) = cfg_frames N cfg 0 ch"
    "unat (numFrames (from_aie_ch ?th ch)) = cfg_frames N cfg 4 ch" if "ch < N" for ch
    using c [OF that] by (simp_all add: cfg_frames_def)
  have fr: "\<forall>ch < N. unat (numFrames (to_aie_ch ?th ch)) + ?R < 2 ^ 32"
    "\<forall>ch < N. unat (numFrames (from_aie_ch ?th ch)) + ?R < 2 ^ 32"
    using fits e unfolding cfg_fits_def by simp_all
  have lok: "load_ok (channels_cfg N ?R (to_aie_ch ?th)) to_mem"
    by (rule cfg_fits_load_ok [OF R N(2) fits(1)]) (rule c(1))
  have sok: "store_ok (channels_cfg N ?R (from_aie_ch ?th)) src from_mem"
    if "\<And>ch. ch < N \<Longrightarrow> length (src ch) = chan_words (channels_cfg N ?R (from_aie_ch ?th)) ch" for src
    by (rule cfg_fits_store_ok [OF R N(2) fits(2) dis]) (use c(2) that in blast)+
  obtain to_chs and acts :: "nat \<Rightarrow> ('s word, 'm word) action list" where
    ld: "load_region N D ?sched (to_aie_ch ?th) to_mem to_chs acts"
    using load_region_exists [OF R _ N(1) lok fr(1), of ?sched D] c(3) by auto
  let ?sent = "\<lambda>ch. sent_words (acts ch)"
  have L: "?sent ch = map axi_word (words_sent N cfg to_mem ch)" if "ch < N" for ch
    by (rule load_region_cfg(1) [OF ld R N(2) m fits(1) _ that]) simp
  have long': "\<forall>ch < N. unat (numFrames (from_aie_ch ?th ch)) \<le> length (aie ?sent ch)"
    using long [of ?sent] L e(2) by simp
  obtain from_chs mem2 where sd: "store_region N D ?sched (from_aie_ch ?th) (aie ?sent) from_mem from_chs mem2"
    using store_region_exists [OF R _ N(1) sok fr(2), of ?sched "aie ?sent" D] c(4) long' by auto
  have fm: "mode (from_chs ch) = PL_FUNC_MODE" if "ch < N" for ch
    by (rule store_region_cfg(6) [OF sd R N m fits(2) dis _ that]) simp
  let ?th3 = "\<lparr>to_aie_ch = to_chs, from_aie_ch = from_chs\<rparr>"
  obtain p where p: "store_perf N ?th3 perf = Some p" using store_perf_run [OF len(2)] by blast
  have "kernel N D aie cfg perf to_mem from_mem ?sent p mem2"
  proof (rule kernel.intros)
    show "load_cfg N cfg (new_test_harness raw) = Some ?th" by (rule load_cfg_run [OF len(1)])
    show "length (buff (to_aie_ch raw ch)) = D \<and> length (buff (from_aie_ch raw ch)) = D" for ch
      by (simp add: raw_def c0_def)
    show "load_buffs N D to_mem ?th = Some ?th" by (rule load_buffs_func) (rule c(3))
    show "store_buffs N D ?th3 mem2 = Some mem2" by (rule store_buffs_func) (simp add: fm)
    show "load_region N D ?sched (to_aie_ch ?th) to_mem to_chs acts" by (rule ld)
    show "store_region N D ?sched (from_aie_ch ?th) (aie ?sent) from_mem from_chs mem2" by (rule sd)
  qed (use p in simp_all)
  then show ?thesis by blast
qed

end
