(* ===== verification/Kernel_Perf.thy ===== *)
theory Kernel_Perf
  imports Kernel_Live
begin

text \<open>
  The kernel in performance mode: the buffers are filled before the streams start, every channel repeats its
  frames from its buffer, and the last repetition received on a channel is written back from its buffer.
  The memory is not touched in between: the two burst schedulers return at once.
\<close>

section \<open>What a buffer keeps\<close>

text \<open>Entry \<open>p\<close> of the buffer holds the last frame whose number is \<open>p\<close> modulo the depth.\<close>

definition ring_content :: "nat \<Rightarrow> 'a list \<Rightarrow> 'a list" where
  "ring_content D vs = map (\<lambda>p. vs ! (p + D * ((length vs - 1 - p) div D))) [0..<min (length vs) D]"

lemma ring_write_content:
  assumes b: "length b = D" "0 < D"
  shows "take (min (length vs) D) (ring_write D 0 vs b) = ring_content D vs"
proof (rule nth_equalityI)
  show "length (take (min (length vs) D) (ring_write D 0 vs b)) = length (ring_content D vs)"
    using b by (simp add: ring_content_def)
  fix p assume "p < length (take (min (length vs) D) (ring_write D 0 vs b))"
  then have p: "p < length vs" "p < D" using b by simp_all
  let ?m = "length vs - 1 - p"
  let ?j = "p + D * (?m div D)"
  have q: "D * (?m div D) \<le> ?m" "?m < D * (?m div D) + D"
    using mult_div_mod_eq [of D ?m] mod_less_divisor [OF b(2), of ?m] by linarith+
  have "ring_write D 0 vs b ! (?j mod D) = vs ! ?j"
    using q p by (intro ring_write_last b) linarith+
  moreover have "?j mod D = p" using p by simp
  ultimately show "take (min (length vs) D) (ring_write D 0 vs b) ! p = ring_content D vs ! p"
    using p b by (simp add: ring_content_def)
qed

lemma ring_content_Nil [simp]: "ring_content D [] = []"
  by (simp add: ring_content_def)

lemma ring_content_fit: "length vs \<le> D \<Longrightarrow> ring_content D vs = vs"
  by (intro nth_equalityI) (auto simp: ring_content_def)

text \<open>After all repetitions the buffer holds the frames of the last one.\<close>

lemma reps_content:
  assumes b: "length b = D" "0 < D" and r: "0 < r" and len: "r * n \<le> length vs"
  shows "take (min n D) (reps_write D n r vs b) = ring_content D (take n (drop ((r - 1) * n) vs))"
proof -
  obtain r' where r': "r = Suc r'" using r by (cases r) auto
  have l: "length (take n (drop (r' * n) vs)) = n" using len r' by simp
  have "reps_write D n r vs b = ring_write D 0 (take n (drop (r' * n) vs)) (reps_write D n r' vs b)"
    unfolding r' by (rule reps_write_last)
  then show ?thesis
    using ring_write_content [of "reps_write D n r' vs b" D "take n (drop (r' * n) vs)"] b l r' by simp
qed

section \<open>Writing all buffers back\<close>

definition within :: "nat \<Rightarrow> nat \<Rightarrow> nat \<Rightarrow> bool" where
  "within p k a \<longleftrightarrow> p \<le> a \<and> a < p + k"

lemma patch_loop:
  assumes step: "\<And>ch m. ch < N \<Longrightarrow> length m = length mem \<Longrightarrow> f ch m = Some (patch (off ch) (ws ch) m)"
    and room: "\<And>ch. ch < N \<Longrightarrow> off ch + length (ws ch) \<le> length mem"
    and dis: "\<And>x y a. x < N \<Longrightarrow> y < N \<Longrightarrow> x \<noteq> y \<Longrightarrow> within (off x) (length (ws x)) a \<Longrightarrow>
      \<not> within (off y) (length (ws y)) a"
  shows "\<exists>m. for_loop 0 N f mem = Some m \<and> length m = length mem \<and>
    (\<forall>ch < N. take (length (ws ch)) (drop (off ch) m) = ws ch) \<and>
    (\<forall>a < length mem. (\<forall>ch < N. \<not> within (off ch) (length (ws ch)) a) \<longrightarrow> m ! a = mem ! a)"
proof -
  let ?P = "\<lambda>j m. j \<le> N \<longrightarrow> length m = length mem \<and>
    (\<forall>ch < j. take (length (ws ch)) (drop (off ch) m) = ws ch) \<and>
    (\<forall>a < length mem. (\<forall>ch < j. \<not> within (off ch) (length (ws ch)) a) \<longrightarrow> m ! a = mem ! a)"
  have "\<exists>m. for_loop 0 N f mem = Some m \<and> ?P (0 + N) m"
  proof (rule for_loop_invariant)
    fix j m assume j: "j < 0 + N" and P: "?P j m"
    then have lm: "length m = length mem" and old: "\<And>ch. ch < j \<Longrightarrow> take (length (ws ch)) (drop (off ch) m) = ws ch"
      and rest: "\<And>a. a < length mem \<Longrightarrow> (\<forall>ch < j. \<not> within (off ch) (length (ws ch)) a) \<Longrightarrow> m ! a = mem ! a"
      by auto
    let ?m = "patch (off j) (ws j) m"
    have rj: "off j + length (ws j) \<le> length m" using room [of j] j lm by simp
    have lm': "length ?m = length mem" using length_patch [OF rj] lm by simp
    have other: "?m ! a = m ! a" if "\<not> within (off j) (length (ws j)) a" for a
      using that by (intro nth_patch_other [OF rj]) (auto simp: within_def)
    have "take (length (ws ch)) (drop (off ch) ?m) = ws ch" if ch: "ch < Suc j" for ch
    proof (cases "ch = j")
      case True
      then show ?thesis using drop_patch [OF rj] by simp
    next
      case False
      then have c: "ch < j" using ch by simp
      have rc: "off ch + length (ws ch) \<le> length mem" using room [of ch] c j by simp
      have "?m ! (off ch + i) = ws ch ! i" if i: "i < length (ws ch)" for i
      proof -
        have "\<not> within (off j) (length (ws j)) (off ch + i)"
          using dis [of ch j "off ch + i"] c j i by (simp add: within_def)
        then have "?m ! (off ch + i) = m ! (off ch + i)" by (rule other)
        also have "\<dots> = take (length (ws ch)) (drop (off ch) m) ! i" using i rc lm by simp
        finally show ?thesis using old [OF c] by simp
      qed
      then show ?thesis using rc lm' by (intro nth_equalityI) auto
    qed
    moreover have "?m ! a = mem ! a"
      if "a < length mem" "\<forall>ch < Suc j. \<not> within (off ch) (length (ws ch)) a" for a
      using that other [of a] rest [of a] by auto
    ultimately show "\<exists>m'. f j m = Some m' \<and> ?P (Suc j) m'"
      using step [of j m] j lm lm' by auto
  qed simp
  then show ?thesis by simp
qed

section \<open>A transaction that fits\<close>

definition held_cfg :: "nat \<Rightarrow> nat \<Rightarrow> u64 list \<Rightarrow> nat \<Rightarrow> nat \<Rightarrow> nat" where
  "held_cfg D N cfg b ch = min (cfg_frames N cfg b ch) D"

definition cfg_reps :: "nat \<Rightarrow> u64 list \<Rightarrow> nat \<Rightarrow> nat \<Rightarrow> nat" where
  "cfg_reps N cfg b ch = unat (ucast (cfg ! (1 + N * (b + 2) + ch)) :: u32)"

definition buffers_fit :: "nat \<Rightarrow> nat \<Rightarrow> nat \<Rightarrow> u64 list \<Rightarrow> nat \<Rightarrow> 'w list \<Rightarrow> bool" where
  "buffers_fit R D N cfg b mem \<longleftrightarrow> length mem \<le> 2 ^ 32 \<and>
     (\<forall>ch < N. cfg_offset N cfg b ch + mem_frames R (held_cfg D N cfg b ch) \<le> length mem)"

definition buffers_disjoint :: "nat \<Rightarrow> nat \<Rightarrow> nat \<Rightarrow> u64 list \<Rightarrow> nat \<Rightarrow> bool" where
  "buffers_disjoint R D N cfg b \<longleftrightarrow> (\<forall>x < N. \<forall>y < N. \<forall>a. x \<noteq> y \<longrightarrow>
     within (cfg_offset N cfg b x) (mem_frames R (held_cfg D N cfg b x)) a \<longrightarrow>
     \<not> within (cfg_offset N cfg b y) (mem_frames R (held_cfg D N cfg b y)) a)"

definition perf_ready ::
  "nat \<Rightarrow> nat \<Rightarrow> nat \<Rightarrow> u64 list \<Rightarrow> u64 list \<Rightarrow> 'm list \<Rightarrow> 'm list \<Rightarrow> bool" where
  "perf_ready R D N cfg perf to_mem from_mem \<longleftrightarrow> 0 < R \<and> harness_ready N cfg perf \<and> cfg ! 0 \<noteq> 0 \<and>
     0 < D \<and> D < 2 ^ 32 \<and> D mod R = 0 \<and> (\<forall>ch < N. 0 < cfg_frames N cfg 4 ch \<longrightarrow> 0 < cfg_reps N cfg 4 ch) \<and>
     buffers_fit R D N cfg 0 to_mem \<and> buffers_fit R D N cfg 4 from_mem \<and> buffers_disjoint R D N cfg 4"

text \<open>What a channel sends: its frames, read around the buffer, once per repetition.\<close>

definition perf_sent :: "nat \<Rightarrow> nat \<Rightarrow> u64 list \<Rightarrow> 'm::len word list \<Rightarrow> nat \<Rightarrow> 's::len word list" where
  "perf_sent D N cfg mem ch = concat (replicate (cfg_reps N cfg 0 ch)
     (perf_frames D (take (held_cfg D N cfg 0 ch) (stream_words (drop (cfg_offset N cfg 0 ch) mem)))
       (cfg_frames N cfg 0 ch)))"

text \<open>What a channel stores: the buffer after the last repetition.\<close>

definition last_frames :: "nat \<Rightarrow> u64 list \<Rightarrow> nat \<Rightarrow> 'a list \<Rightarrow> 'a list" where
  "last_frames N cfg ch vs =
     take (cfg_frames N cfg 4 ch) (drop ((cfg_reps N cfg 4 ch - 1) * cfg_frames N cfg 4 ch) vs)"

definition perf_stored :: "nat \<Rightarrow> nat \<Rightarrow> u64 list \<Rightarrow> nat \<Rightarrow> 's::len word ap_axiu list \<Rightarrow> 'm::len word list" where
  "perf_stored D N cfg ch xs = packed (mem_frames (MEM_RATIO TYPE('m) TYPE('s)) (held_cfg D N cfg 4 ch))
     (ring_content D (last_frames N cfg ch (map axi_data xs)))"

lemma perf_frames_held:
  assumes "length b = D" "0 < D"
  shows "perf_frames D (take (min n D) b) n = perf_frames D b n"
  unfolding perf_frames_def
proof (rule map_cong [OF refl])
  fix i assume "i \<in> set [0..<n]"
  then have "i mod D < min n D" using assms by (auto intro: le_less_trans [OF mod_less_eq_dividend])
  then show "take (min n D) b ! (i mod D) XOR perf_pattern (of_nat (i div D)) =
      b ! (i mod D) XOR perf_pattern (of_nat (i div D))" by simp
qed

section \<open>The schedulers return at once\<close>

lemma load_idle:
  assumes "(load_step c mem)\<^sup>*\<^sup>* (load_memories_init c False) s"
  shows "s = load_memories_init c False"
  using assms
proof (induction rule: rtranclp_induct)
  case (step t u)
  from step.hyps(2) have "burst_step (load_burst_ready c) (load_tail_ready c) (load_word c mem) (feeder_takes c) c
      (load_memories_init c False) u"
    unfolding load_step_def step.IH .
  then show ?case
    by (cases rule: burst_step.cases)
      (auto simp: load_memories_init_def sched_init_def elim!: feeder_takesE)
qed simp

lemma store_idle_unused:
  assumes "(store_step c)\<^sup>*\<^sup>* (store_memories_init c False src mem) s" and "bc_channels c = N" "\<forall>ch < N. src ch = []"
  shows "s = store_memories_init c False src mem"
  using assms(1)
proof (induction rule: rtranclp_induct)
  case (step t u)
  from step.hyps(2) have "burst_step (store_burst_ready c) store_tail_ready store_word (collector_puts c) c
      (store_memories_init c False src mem) u"
    unfolding store_step_def step.IH .
  then show ?case using assms(2,3)
    by (cases rule: burst_step.cases)
      (auto simp: store_memories_init_def sched_init_def elim!: collector_puts.cases)
qed simp

section \<open>The regions\<close>

lemma load_region_perf:
  fixes mem :: "'m::len word list" and chs :: "nat \<Rightarrow> 's::len word buff_channel"
  assumes run: "load_region N D sched chs mem chs' acts"
    and m: "\<forall>ch < N. mode (chs ch) = PL_PERF_MODE \<and> length (buff (chs ch)) = D" and D: "0 < D" "D < 2 ^ 32"
    and sched: "\<forall>ch. sched ch 0 \<le> sched ch 1" and ch: "ch < N"
  shows "sent_words (acts ch) = map axi_word
      (concat (replicate (unat (numRep (chs ch))) (perf_frames D (buff (chs ch)) (unat (numFrames (chs ch))))))"
    "counted (firstcc (chs' ch)) (lastcc (chs' ch))"
proof -
  let ?c = "channels_cfg N (MEM_RATIO TYPE('m) TYPE('s)) chs"
  have m0: "mode (chs 0) = PL_PERF_MODE" using m ch by auto
  obtain k d where l: "(load_step ?c mem)\<^sup>*\<^sup>* (load_memories_init ?c False) (k, d)"
    "load_stream D (sched ch) (chs ch) (fed d ch) = Some (chs' ch, [], acts ch)"
    using run m0 ch by (cases rule: load_region.cases) auto
  have fd: "feed D (chs ch) (fed d ch) = Some (fed d ch, [Delay (unat (delays (chs ch))), Trigger] @
     sends (concat (replicate (unat (numRep (chs ch))) (perf_frames D (buff (chs ch)) (unat (numFrames (chs ch)))))) @ [Trigger])"
    using feed_perf [of "chs ch" D "fed d ch"] m ch D by simp
  have e: "chs' ch = (chs ch)\<lparr>firstcc := of_nat (sched ch 0), lastcc := of_nat (last_cycle (sched ch))\<rparr>"
    "acts ch = [Delay (unat (delays (chs ch))), Trigger] @
     sends (concat (replicate (unat (numRep (chs ch))) (perf_frames D (buff (chs ch)) (unat (numFrames (chs ch)))))) @ [Trigger]"
    using load_stream_run [OF fd] sched l(2) by simp_all
  show "sent_words (acts ch) = map axi_word
      (concat (replicate (unat (numRep (chs ch))) (perf_frames D (buff (chs ch)) (unat (numFrames (chs ch))))))"
    unfolding e(2) by simp
  show "counted (firstcc (chs' ch)) (lastcc (chs' ch))" unfolding e(1) counted_def using sched by auto
qed

lemma store_stream_perf:
  fixes ch :: "'s::len word buff_channel"
  assumes run: "store_stream D sched ch xs = Some (ch', rest, acts :: ('s word, 'm::len word) action list)"
    and m: "mode ch = PL_PERF_MODE" and D: "0 < D" "D < 2 ^ 32" "length (buff ch) = D" and sched: "sched 0 \<le> sched 1"
  shows "unat (numRep ch) * unat (numFrames ch) \<le> length xs" "mem_writes acts = []"
    "ch' = ch\<lparr>buff := reps_write D (unat (numFrames ch)) (unat (numRep ch)) (map axi_data xs) (buff ch),
      firstcc := of_nat (sched 0), lastcc := of_nat (last_cycle sched)\<rparr>"
proof -
  let ?n = "unat (numRep ch) * unat (numFrames ch)"
  let ?ch = "ch\<lparr>buff := reps_write D (unat (numFrames ch)) (unat (numRep ch)) (map axi_data xs) (buff ch)\<rparr>"
  obtain acts' :: "('s word, 'm word) action list" where g:
    "get D ch xs = (if ?n \<le> length xs then Some (?ch, drop ?n xs, acts') else None)"
    "?n \<le> length xs \<longrightarrow> collects (unat (delays ch)) ?n xs [] acts'"
    using get_perf [OF m D, of xs] by blast
  show le: "?n \<le> length xs"
  proof (rule ccontr)
    assume "\<not> ?n \<le> length xs"
    then have "get D ch xs = (None :: ('s word buff_channel \<times> 's word ap_axiu list \<times> ('s word, 'm word) action list) option)"
      using g(1) by simp
    then show False using run by (simp add: store_stream_def)
  qed
  have c: "collects (unat (delays ch)) ?n xs [] acts'" using g(2) le by blast
  then have "length (filter (\<lambda>a. a = Trigger) acts') = 2" by (simp add: collects_def triggers_def)
  from run_counter_two [OF this sched, of ?ch] have
    "store_stream D sched ch xs = Some (?ch\<lparr>firstcc := of_nat (sched 0), lastcc := of_nat (last_cycle sched)\<rparr>, drop ?n xs, acts')"
    using g(1) le by (simp add: store_stream_def)
  with run have e: "ch' = ?ch\<lparr>firstcc := of_nat (sched 0), lastcc := of_nat (last_cycle sched)\<rparr>" "acts = acts'" by simp_all
  show "mem_writes acts = []" using c unfolding e(2) by (simp add: collects_def)
  show "ch' = ch\<lparr>buff := reps_write D (unat (numFrames ch)) (unat (numRep ch)) (map axi_data xs) (buff ch),
      firstcc := of_nat (sched 0), lastcc := of_nat (last_cycle sched)\<rparr>" unfolding e(1) by simp
qed

lemma store_region_perf:
  fixes mem :: "'m::len word list" and chs :: "nat \<Rightarrow> 's::len word buff_channel"
  assumes run: "store_region N D sched chs strms mem chs' mem'"
    and m: "\<forall>ch < N. mode (chs ch) = PL_PERF_MODE \<and> length (buff (chs ch)) = D" and D: "0 < D" "D < 2 ^ 32"
    and sched: "\<forall>ch. sched ch 0 \<le> sched ch 1" and N: "0 < N"
  shows "ch < N \<Longrightarrow> unat (numRep (chs ch)) * unat (numFrames (chs ch)) \<le> length (strms ch)"
    "ch < N \<Longrightarrow> chs' ch = (chs ch)\<lparr>buff := reps_write D (unat (numFrames (chs ch))) (unat (numRep (chs ch)))
        (map axi_data (strms ch)) (buff (chs ch)),
      firstcc := of_nat (sched ch 0), lastcc := of_nat (last_cycle (sched ch))\<rparr>"
    "mem' = mem"
proof -
  let ?c = "channels_cfg N (MEM_RATIO TYPE('m) TYPE('s)) chs"
  have m0: "mode (chs 0) = PL_PERF_MODE" using m N by auto
  obtain k d rest and acts :: "nat \<Rightarrow> ('s word, 'm word) action list" where
    st: "\<And>ch. ch < N \<Longrightarrow> store_stream D (sched ch) (chs ch) (strms ch) = Some (chs' ch, rest ch, acts ch)"
    and l: "(store_step ?c)\<^sup>*\<^sup>* (store_memories_init ?c (mode (chs 0) = PL_FUNC_MODE)
        (\<lambda>ch. mem_writes (acts ch)) mem) (k, d)" and d: "mem' = stored d"
    using run by (cases rule: store_region.cases) blast
  have w: "unat (numRep (chs ch)) * unat (numFrames (chs ch)) \<le> length (strms ch)" "mem_writes (acts ch) = []"
    "chs' ch = (chs ch)\<lparr>buff := reps_write D (unat (numFrames (chs ch))) (unat (numRep (chs ch)))
        (map axi_data (strms ch)) (buff (chs ch)),
      firstcc := of_nat (sched ch 0), lastcc := of_nat (last_cycle (sched ch))\<rparr>" if "ch < N" for ch
    using store_stream_perf [OF st [OF that]] m that D sched by blast+
  show "ch < N \<Longrightarrow> unat (numRep (chs ch)) * unat (numFrames (chs ch)) \<le> length (strms ch)"
    "ch < N \<Longrightarrow> chs' ch = (chs ch)\<lparr>buff := reps_write D (unat (numFrames (chs ch))) (unat (numRep (chs ch)))
        (map axi_data (strms ch)) (buff (chs ch)),
      firstcc := of_nat (sched ch 0), lastcc := of_nat (last_cycle (sched ch))\<rparr>" by (fact w(1), fact w(3))
  show "mem' = mem" using store_idle_unused [of ?c "\<lambda>ch. mem_writes (acts ch)" mem "(k, d)" N] l m0 w(2) d
    by (auto simp: channels_cfg_def store_memories_init_def)
qed

end
