(* ===== verification/Kernel_Perf_Run.thy ===== *)
theory Kernel_Perf_Run
  imports Kernel_Perf
begin

text \<open>The kernel in performance mode, from its arguments to its results, and that it can run.\<close>

section \<open>The buffers that were filled\<close>

definition filled :: "nat \<Rightarrow> nat \<Rightarrow> 'm::len word list \<Rightarrow> 's::len word test_harness \<Rightarrow> 's word test_harness" where
  "filled N D mem th = th\<lparr>to_aie_ch := (\<lambda>ch. if ch < N then
      (to_aie_ch th ch)\<lparr>buff := take (held D (to_aie_ch th ch)) (stream_words (drop (unat (offsets (to_aie_ch th ch))) mem)) @
        drop (held D (to_aie_ch th ch)) (buff (to_aie_ch th ch))\<rparr> else to_aie_ch th ch)\<rparr>"

lemma fits_region:
  fixes c :: "'s word buff_channel"
  assumes "buffers_fit R D N cfg b mem" "ch < N" and r: "cfg_channel N cfg b ch raw = c"
  shows "region_ok (offsets c) (mem_frames R (held D c)) mem" "held D c = held_cfg D N cfg b ch"
    "unat (offsets c) = cfg_offset N cfg b ch" "unat (numFrames c) = cfg_frames N cfg b ch"
    "unat (numRep c) = cfg_reps N cfg b ch"
proof -
  show e: "held D c = held_cfg D N cfg b ch" "unat (offsets c) = cfg_offset N cfg b ch"
    "unat (numFrames c) = cfg_frames N cfg b ch" "unat (numRep c) = cfg_reps N cfg b ch"
    unfolding r [symmetric] by (simp_all add: held_def held_cfg_def cfg_offset_def cfg_frames_def cfg_reps_def)
  show "region_ok (offsets c) (mem_frames R (held D c)) mem"
    unfolding region_ok_def e using assms(1,2) unfolding buffers_fit_def by blast
qed

lemma filled_run:
  fixes raw :: "'s::len word test_harness" and mem :: "'m::len word list"
  assumes R: "0 < MEM_RATIO TYPE('m) TYPE('s)" and D: "D mod MEM_RATIO TYPE('m) TYPE('s) = 0" "0 < D"
    and m: "cfg ! 0 \<noteq> 0" and fits: "buffers_fit (MEM_RATIO TYPE('m) TYPE('s)) D N cfg 0 mem"
    and raw: "\<forall>ch. length (buff (to_aie_ch raw ch)) = D"
  defines "th \<equiv> configured_harness N cfg raw"
  shows "load_buffs N D mem th = Some (filled N D mem th)"
    "ch < N \<Longrightarrow> mode (to_aie_ch (filled N D mem th) ch) = PL_PERF_MODE \<and>
      length (buff (to_aie_ch (filled N D mem th) ch)) = D \<and>
      concat (replicate (unat (numRep (to_aie_ch (filled N D mem th) ch)))
        (perf_frames D (buff (to_aie_ch (filled N D mem th) ch)) (unat (numFrames (to_aie_ch (filled N D mem th) ch)))))
      = perf_sent D N cfg mem ch"
    "from_aie_ch (filled N D mem th) = from_aie_ch th"
proof -
  let ?R = "MEM_RATIO TYPE('m) TYPE('s)"
  have c: "to_aie_ch th ch = cfg_channel N cfg 0 ch (to_aie_ch raw ch)" if "ch < N" for ch
    using that unfolding th_def by (rule configured_harness_simps(1))
  have ch_ok: "mode (to_aie_ch th ch) = PL_PERF_MODE \<and> length (buff (to_aie_ch th ch)) = D \<and>
      region_ok (offsets (to_aie_ch th ch)) (mem_frames ?R (held D (to_aie_ch th ch))) mem" if "ch < N" for ch
    unfolding c [OF that] using fits_region(1) [OF fits that refl] raw m by (simp add: cfg_mode_def)
  show "load_buffs N D mem th = Some (filled N D mem th)"
    unfolding filled_def by (rule load_buffs_perf [OF R D(1) ch_ok])
  show "from_aie_ch (filled N D mem th) = from_aie_ch th" by (simp add: filled_def)
  assume ch: "ch < N"
  let ?c = "to_aie_ch th ch" and ?f = "to_aie_ch (filled N D mem th) ch"
  let ?src = "stream_words (drop (unat (offsets ?c)) mem) :: 's word list"
  have hf: "held D ?c = min (unat (numFrames ?c)) D" by (simp add: held_def)
  have b: "?f = ?c\<lparr>buff := take (held D ?c) ?src @ drop (held D ?c) (buff ?c)\<rparr>" using ch by (simp add: filled_def)
  have lb: "length (buff ?c) = D" using ch_ok [OF ch] by blast
  have ls: "held D ?c \<le> length ?src"
  proof -
    have "mem_frames ?R (held D ?c) \<le> length (drop (unat (offsets ?c)) mem)"
      using ch_ok [OF ch] region_length by blast
    then have "mem_frames ?R (held D ?c) * ?R \<le> length (drop (unat (offsets ?c)) mem) * ?R" by (rule mult_le_mono1)
    then have "mem_frames ?R (held D ?c) * ?R \<le> length ?src" by (simp only: length_stream_words)
    then show ?thesis
      using ceil_div_bounds(1) [OF R, of "held D ?c"] unfolding mem_frames_ceil [OF R] by linarith
  qed
  have l: "length (buff ?f) = D" unfolding b using ls lb hf by simp
  have tk: "take (held D ?c) (buff ?f) = take (held D ?c) ?src" unfolding b using ls by simp
  have nf: "numFrames ?f = numFrames ?c" unfolding b by simp
  have "perf_frames D (buff ?f) (unat (numFrames ?f)) = perf_frames D (take (held D ?c) ?src) (unat (numFrames ?c))"
    using perf_frames_held [OF l D(2), of "unat (numFrames ?c)"] unfolding hf [symmetric] tk nf by (rule sym)
  moreover have e: "held D ?c = held_cfg D N cfg 0 ch" "unat (offsets ?c) = cfg_offset N cfg 0 ch"
    "unat (numFrames ?c) = cfg_frames N cfg 0 ch" "unat (numRep ?f) = cfg_reps N cfg 0 ch"
    using fits_region(2-5) [OF fits ch c [OF ch, symmetric]] unfolding b by simp_all
  ultimately show "mode ?f = PL_PERF_MODE \<and> length (buff ?f) = D \<and>
      concat (replicate (unat (numRep ?f)) (perf_frames D (buff ?f) (unat (numFrames ?f)))) = perf_sent D N cfg mem ch"
    unfolding perf_sent_def e using l ch_ok [OF ch] unfolding b by simp
qed

section \<open>The buffers that are written back\<close>

lemma store_buffs_content:
  fixes from_mem :: "'m::len word list" and th :: "'s::len word test_harness"
  assumes R: "0 < MEM_RATIO TYPE('m) TYPE('s)" and D: "D mod MEM_RATIO TYPE('m) TYPE('s) = 0"
    and fits: "buffers_fit (MEM_RATIO TYPE('m) TYPE('s)) D N cfg 4 from_mem"
    and dis: "buffers_disjoint (MEM_RATIO TYPE('m) TYPE('s)) D N cfg 4"
    and ch: "\<forall>ch < N. mode (from_aie_ch th ch) = PL_PERF_MODE \<and> length (buff (from_aie_ch th ch)) = D \<and>
      held D (from_aie_ch th ch) = held_cfg D N cfg 4 ch \<and> unat (offsets (from_aie_ch th ch)) = cfg_offset N cfg 4 ch"
  shows "\<exists>m. store_buffs N D th from_mem = Some m \<and> length m = length from_mem \<and>
    (\<forall>ch < N. take (mem_frames (MEM_RATIO TYPE('m) TYPE('s)) (held_cfg D N cfg 4 ch)) (drop (cfg_offset N cfg 4 ch) m) =
       packed (mem_frames (MEM_RATIO TYPE('m) TYPE('s)) (held_cfg D N cfg 4 ch))
         (take (held_cfg D N cfg 4 ch) (buff (from_aie_ch th ch)))) \<and>
    (\<forall>a < length from_mem. (\<forall>ch < N. \<not> within (cfg_offset N cfg 4 ch)
       (mem_frames (MEM_RATIO TYPE('m) TYPE('s)) (held_cfg D N cfg 4 ch)) a) \<longrightarrow> m ! a = from_mem ! a)"
proof -
  let ?R = "MEM_RATIO TYPE('m) TYPE('s)"
  define ws :: "nat \<Rightarrow> 'm word list" where
    "ws = (\<lambda>ch. packed (mem_frames ?R (held_cfg D N cfg 4 ch)) (take (held_cfg D N cfg 4 ch) (buff (from_aie_ch th ch))))"
  have len: "length (ws ch) = mem_frames ?R (held_cfg D N cfg 4 ch)" for ch by (simp add: ws_def)
  have step: "store_buff D (from_aie_ch th ch) m = Some (patch (cfg_offset N cfg 4 ch) (ws ch) m)"
    if c: "ch < N" and l: "length m = length from_mem" for ch m
  proof -
    have e: "mode (from_aie_ch th ch) = PL_PERF_MODE" "length (buff (from_aie_ch th ch)) = D"
      "held D (from_aie_ch th ch) = held_cfg D N cfg 4 ch" "unat (offsets (from_aie_ch th ch)) = cfg_offset N cfg 4 ch"
      using ch c by blast+
    have "region_ok (offsets (from_aie_ch th ch)) (mem_frames ?R (held D (from_aie_ch th ch))) m"
      using fits c l unfolding region_ok_def buffers_fit_def e by simp
    from store_buff_run [OF e(1) R e(2) D this] show ?thesis unfolding e(3,4) ws_def .
  qed
  have room: "cfg_offset N cfg 4 ch + length (ws ch) \<le> length from_mem" if "ch < N" for ch
    using fits that unfolding len buffers_fit_def by blast
  have "\<not> within (cfg_offset N cfg 4 y) (length (ws y)) a"
    if "x < N" "y < N" "x \<noteq> y" "within (cfg_offset N cfg 4 x) (length (ws x)) a" for x y a
    using dis that unfolding len buffers_disjoint_def by blast
  from patch_loop [where f = "\<lambda>ch. store_buff D (from_aie_ch th ch)", OF step room this]
  show ?thesis unfolding store_buffs_def len by (simp add: ws_def)
qed

section \<open>The kernel\<close>

definition perf_done ::
  "nat \<Rightarrow> nat \<Rightarrow> u64 list \<Rightarrow> 'm::len word list \<Rightarrow> (nat \<Rightarrow> 's::len word ap_axiu list) \<Rightarrow> 'm word list \<Rightarrow> bool" where
  "perf_done D N cfg from_mem strms mem' \<longleftrightarrow>
     (let R = MEM_RATIO TYPE('m) TYPE('s) in
      length mem' = length from_mem \<and>
      (\<forall>ch < N. take (mem_frames R (held_cfg D N cfg 4 ch)) (drop (cfg_offset N cfg 4 ch) mem') =
         perf_stored D N cfg ch (strms ch)) \<and>
      (\<forall>a < length from_mem. (\<forall>ch < N. \<not> within (cfg_offset N cfg 4 ch) (mem_frames R (held_cfg D N cfg 4 ch)) a) \<longrightarrow>
         mem' ! a = from_mem ! a))"

lemma store_part_perf:
  fixes from_mem :: "'m::len word list" and th :: "'s::len word test_harness"
  assumes rdy: "perf_ready (MEM_RATIO TYPE('m) TYPE('s)) D N cfg perf to_mem from_mem"
    and raw: "\<forall>ch. length (buff (from_aie_ch th ch)) = D"
    and sched: "\<forall>ch. sched ch 0 \<le> sched ch 1"
    and run: "store_region N D sched (from_aie_ch (configured_harness N cfg th)) strms from_mem from_chs mem2"
  shows "ch < N \<Longrightarrow> cfg_reps N cfg 4 ch * cfg_frames N cfg 4 ch \<le> length (strms ch)"
    "ch < N \<Longrightarrow> counted (firstcc (from_chs ch)) (lastcc (from_chs ch))"
    "\<exists>m. store_buffs N D \<lparr>to_aie_ch = to_chs, from_aie_ch = from_chs\<rparr> mem2 = Some m \<and>
      perf_done D N cfg from_mem strms m"
proof -
  let ?R = "MEM_RATIO TYPE('m) TYPE('s)" and ?chs = "from_aie_ch (configured_harness N cfg th)"
  have p: "0 < ?R" "0 < N" "cfg ! 0 \<noteq> 0" "0 < D" "D < 2 ^ 32" "D mod ?R = 0"
    "\<forall>ch < N. 0 < cfg_frames N cfg 4 ch \<longrightarrow> 0 < cfg_reps N cfg 4 ch" "buffers_fit ?R D N cfg 4 from_mem" "buffers_disjoint ?R D N cfg 4"
    using rdy unfolding perf_ready_def harness_ready_def by blast+
  have c: "?chs ch = cfg_channel N cfg 4 ch (from_aie_ch th ch)" if "ch < N" for ch
    using that by (rule configured_harness_simps(2))
  have m: "\<forall>ch < N. mode (?chs ch) = PL_PERF_MODE \<and> length (buff (?chs ch)) = D"
    using p(3) raw by (simp add: c cfg_mode_def)
  note S = store_region_perf [OF run m p(4,5) sched p(2)]
  have e: "held D (?chs ch) = held_cfg D N cfg 4 ch" "unat (offsets (?chs ch)) = cfg_offset N cfg 4 ch"
    "unat (numFrames (?chs ch)) = cfg_frames N cfg 4 ch" "unat (numRep (?chs ch)) = cfg_reps N cfg 4 ch"
    if "ch < N" for ch
    using fits_region(2-5) [OF p(8) that c [OF that, symmetric]] by simp_all
  show long: "cfg_reps N cfg 4 ch * cfg_frames N cfg 4 ch \<le> length (strms ch)" if "ch < N" for ch
    using S(1) [OF that] e [OF that] by simp
  show "counted (firstcc (from_chs ch)) (lastcc (from_chs ch))" if "ch < N" for ch
    unfolding S(2) [OF that] counted_def using sched by auto
  let ?th = "\<lparr>to_aie_ch = to_chs, from_aie_ch = from_chs\<rparr>"
  have "mode (from_aie_ch ?th ch) = PL_PERF_MODE \<and> length (buff (from_aie_ch ?th ch)) = D \<and>
      held D (from_aie_ch ?th ch) = held_cfg D N cfg 4 ch \<and> unat (offsets (from_aie_ch ?th ch)) = cfg_offset N cfg 4 ch"
    if "ch < N" for ch
    using m e [OF that] that unfolding held_def by (simp add: S(2) [OF that])
  then obtain mm where mm: "store_buffs N D ?th from_mem = Some mm" "length mm = length from_mem"
    "\<forall>ch < N. take (mem_frames ?R (held_cfg D N cfg 4 ch)) (drop (cfg_offset N cfg 4 ch) mm) =
       packed (mem_frames ?R (held_cfg D N cfg 4 ch)) (take (held_cfg D N cfg 4 ch) (buff (from_aie_ch ?th ch)))"
    "\<forall>a < length from_mem. (\<forall>ch < N. \<not> within (cfg_offset N cfg 4 ch) (mem_frames ?R (held_cfg D N cfg 4 ch)) a) \<longrightarrow>
       mm ! a = from_mem ! a"
    using store_buffs_content [OF p(1,6,8,9), of ?th] by blast
  have "take (held_cfg D N cfg 4 ch) (buff (from_aie_ch ?th ch)) =
      ring_content D (last_frames N cfg ch (map axi_data (strms ch)))" if ch: "ch < N" for ch
  proof -
    have "buff (from_chs ch) = reps_write D (cfg_frames N cfg 4 ch) (cfg_reps N cfg 4 ch) (map axi_data (strms ch)) (buff (?chs ch))"
      using S(2) [OF ch] e [OF ch] by simp
    then show ?thesis
      using reps_content [of "buff (?chs ch)" D "cfg_reps N cfg 4 ch" "cfg_frames N cfg 4 ch" "map axi_data (strms ch)"]
        m ch p(4,7) long [OF ch] by (cases "cfg_frames N cfg 4 ch = 0") (simp_all add: held_cfg_def last_frames_def)
  qed
  then have "perf_done D N cfg from_mem strms mm"
    using mm(2-4) unfolding perf_done_def Let_def perf_stored_def by simp
  with mm(1) show "\<exists>m. store_buffs N D ?th mem2 = Some m \<and> perf_done D N cfg from_mem strms m"
    unfolding S(3) by blast
qed

lemma kernel_perf_run:
  fixes to_mem from_mem :: "'m::len word list" and aie :: "(nat \<Rightarrow> 's::len word ap_axiu list) \<Rightarrow> nat \<Rightarrow> 's word ap_axiu list"
  assumes run: "kernel N D aie cfg perf to_mem from_mem sent perf' mem'"
    and rdy: "perf_ready (MEM_RATIO TYPE('m) TYPE('s)) D N cfg perf to_mem from_mem"
  shows "ch < N \<Longrightarrow> sent ch = map axi_word (perf_sent D N cfg to_mem ch)"
    "ch < N \<Longrightarrow> cfg_reps N cfg 4 ch * cfg_frames N cfg 4 ch \<le> length (aie sent ch)"
    "perf_done D N cfg from_mem (aie sent) mem'"
    "ch < N \<Longrightarrow> counted (perf' ! ch) (perf' ! (ch + N)) \<and> counted (perf' ! (ch + 2 * N)) (perf' ! (ch + 3 * N))"
proof -
  let ?R = "MEM_RATIO TYPE('m) TYPE('s)"
  have p: "0 < ?R" "0 < N" "cfg ! 0 \<noteq> 0" "0 < D" "D < 2 ^ 32" "D mod ?R = 0"
    "length cfg = 8 * N + 1" "length perf = 4 * N" "buffers_fit ?R D N cfg 0 to_mem"
    using rdy unfolding perf_ready_def harness_ready_def by blast+
  obtain raw th1 th2 to_sched from_sched to_chs from_chs acts mem2 where
    k: "load_cfg N cfg (new_test_harness raw) = Some th1" "load_buffs N D to_mem th1 = Some th2"
      "\<And>ch. length (buff (to_aie_ch raw ch)) = D \<and> length (buff (from_aie_ch raw ch)) = D"
      "\<And>ch. to_sched ch 0 \<le> to_sched ch 1 \<and> from_sched ch 0 \<le> from_sched ch 1"
      "load_region N D to_sched (to_aie_ch th2) to_mem to_chs (acts :: nat \<Rightarrow> ('s word, 'm word) action list)"
      "store_region N D from_sched (from_aie_ch th2) (aie (\<lambda>ch. sent_words (acts ch))) from_mem from_chs mem2"
      "store_buffs N D \<lparr>to_aie_ch = to_chs, from_aie_ch = from_chs\<rparr> mem2 = Some mem'"
      "store_perf N \<lparr>to_aie_ch = to_chs, from_aie_ch = from_chs\<rparr> perf = Some perf'"
      and s: "sent = (\<lambda>ch. sent_words (acts ch))"
    using run by (cases rule: kernel.cases) blast
  let ?raw = "new_test_harness raw"
  let ?th = "configured_harness N cfg ?raw"
  have rl: "\<forall>ch. length (buff (to_aie_ch ?raw ch)) = D" "\<forall>ch. length (buff (from_aie_ch ?raw ch)) = D"
    using k(3) by (simp_all add: new_test_harness_def new_buff_channel_def)
  note F = filled_run [OF p(1,6,4,3,9) rl(1)]
  have th1: "th1 = ?th" using k(1) load_cfg_run [OF p(7), of ?raw] by simp
  have th2: "th2 = filled N D to_mem ?th" using k(2) F(1) unfolding th1 by simp
  have sc: "\<forall>ch. to_sched ch 0 \<le> to_sched ch 1" "\<forall>ch. from_sched ch 0 \<le> from_sched ch 1" using k(4) by blast+
  have md: "\<forall>ch < N. mode (to_aie_ch (filled N D to_mem ?th) ch) = PL_PERF_MODE \<and>
      length (buff (to_aie_ch (filled N D to_mem ?th) ch)) = D" using F(2) by blast
  note L = load_region_perf [OF k(5) [unfolded th2] md p(4,5) sc(1)]
  have sd: "store_region N D from_sched (from_aie_ch ?th) (aie sent) from_mem from_chs mem2"
    using k(6) unfolding th2 F(3) s .
  note S = store_part_perf [OF rdy rl(2) sc(2) sd]
  show "ch < N \<Longrightarrow> sent ch = map axi_word (perf_sent D N cfg to_mem ch)"
    unfolding s using L(1) F(2) by simp
  show "ch < N \<Longrightarrow> cfg_reps N cfg 4 ch * cfg_frames N cfg 4 ch \<le> length (aie sent ch)" by (rule S(1))
  show "perf_done D N cfg from_mem (aie sent) mem'" using S(3) [of to_chs] k(7) by auto
  assume ch: "ch < N"
  obtain pp where "store_perf N \<lparr>to_aie_ch = to_chs, from_aie_ch = from_chs\<rparr> perf = Some pp"
    "\<forall>ch < N. pp ! ch = firstcc (to_chs ch) \<and> pp ! (ch + N) = lastcc (to_chs ch) \<and>
       pp ! (ch + 2 * N) = firstcc (from_chs ch) \<and> pp ! (ch + 3 * N) = lastcc (from_chs ch)"
    using store_perf_run [OF p(8), of "\<lparr>to_aie_ch = to_chs, from_aie_ch = from_chs\<rparr>"] by auto
  then show "counted (perf' ! ch) (perf' ! (ch + N)) \<and> counted (perf' ! (ch + 2 * N)) (perf' ! (ch + 3 * N))"
    using k(8) L(2) [OF ch] S(2) [OF ch] ch by simp
qed

section \<open>It can run\<close>

lemma load_region_perf_exists:
  fixes mem :: "'m::len word list" and chs :: "nat \<Rightarrow> 's::len word buff_channel"
  assumes m: "\<forall>ch < N. mode (chs ch) = PL_PERF_MODE \<and> length (buff (chs ch)) = D" and D: "0 < D" "D < 2 ^ 32"
    and sched: "\<forall>ch. sched ch 0 \<le> sched ch 1" and N: "0 < N"
  shows "\<exists>chs' acts. load_region N D sched chs mem chs' acts"
proof -
  let ?c = "channels_cfg N (MEM_RATIO TYPE('m) TYPE('s)) chs"
  define chs' where "chs' = (\<lambda>ch. (chs ch)\<lparr>firstcc := of_nat (sched ch 0), lastcc := of_nat (last_cycle (sched ch))\<rparr>)"
  define acts :: "nat \<Rightarrow> ('s word, 'm word) action list" where
    "acts = (\<lambda>ch. [Delay (unat (delays (chs ch))), Trigger] @
     sends (concat (replicate (unat (numRep (chs ch))) (perf_frames D (buff (chs ch)) (unat (numFrames (chs ch)))))) @ [Trigger])"
  have m0: "mode (chs 0) = PL_PERF_MODE" using m N by auto
  have "load_stream D (sched ch) (chs ch) [] = Some (chs' ch, [], acts ch)" if "ch < N" for ch
    unfolding chs'_def acts_def
    by (rule load_stream_run) (use feed_perf [of "chs ch" D "[] :: 'm word list"] m that D sched in simp_all)
  then have "load_region N D sched chs mem chs' acts"
    by (intro load_region.intros [where k = "sched_init ?c False" and d = "\<lparr>to_fifo = (\<lambda>_. []), fed = (\<lambda>_. [])\<rparr>"])
      (simp_all add: m0 load_memories_init_def sched_init_def)
  then show ?thesis by blast
qed

lemma store_region_perf_exists:
  fixes mem :: "'m::len word list" and chs :: "nat \<Rightarrow> 's::len word buff_channel"
  assumes m: "\<forall>ch < N. mode (chs ch) = PL_PERF_MODE \<and> length (buff (chs ch)) = D" and D: "0 < D" "D < 2 ^ 32"
    and sched: "\<forall>ch. sched ch 0 \<le> sched ch 1" and N: "0 < N"
    and long: "\<forall>ch < N. unat (numRep (chs ch)) * unat (numFrames (chs ch)) \<le> length (strms ch)"
  shows "\<exists>chs' mem'. store_region N D sched chs strms mem chs' mem'"
proof -
  let ?c = "channels_cfg N (MEM_RATIO TYPE('m) TYPE('s)) chs"
  have m0: "mode (chs 0) = PL_PERF_MODE" using m N by auto
  have "\<exists>r. store_stream D (sched ch) (chs ch) (strms ch) =
      Some (fst r, fst (snd r), snd (snd r) :: ('s word, 'm word) action list) \<and> mem_writes (snd (snd r)) = []"
    if ch: "ch < N" for ch
  proof -
    obtain ch' rest and acts :: "('s word, 'm word) action list" where g: "get D (chs ch) (strms ch) = Some (ch', rest, acts)"
      "collects (unat (delays (chs ch))) (unat (numRep (chs ch)) * unat (numFrames (chs ch))) (strms ch) [] acts"
      using get_perf [of "chs ch" D "strms ch", where 'm = 'm] m ch D long by auto
    have "length (filter (\<lambda>a. a = Trigger) acts) = 2" using g(2) by (simp add: collects_def triggers_def)
    from run_counter_two [OF this, of "sched ch" ch'] sched g(1)
    have "store_stream D (sched ch) (chs ch) (strms ch) =
        Some (ch'\<lparr>firstcc := of_nat (sched ch 0), lastcc := of_nat (last_cycle (sched ch))\<rparr>, rest, acts)"
      by (simp add: store_stream_def)
    with g(2) show ?thesis by (metis collects_def fst_conv snd_conv)
  qed
  then have "\<exists>r. \<forall>ch < N. store_stream D (sched ch) (chs ch) (strms ch) =
      Some (fst (r ch), fst (snd (r ch)), snd (snd (r ch)) :: ('s word, 'm word) action list)" by metis
  then obtain r where r: "\<And>ch. ch < N \<Longrightarrow> store_stream D (sched ch) (chs ch) (strms ch) =
      Some (fst (r ch), fst (snd (r ch)), snd (snd (r ch)) :: ('s word, 'm word) action list)" by blast
  have "\<exists>mem'. store_region N D sched chs strms mem (\<lambda>ch. fst (r ch)) mem'"
    by (rule exI, rule store_region.intros [where k = "sched_init ?c False" and acts = "\<lambda>ch. snd (snd (r ch))"
        and rest = "\<lambda>ch. fst (snd (r ch))"
        and d = "\<lparr>from_fifo = (\<lambda>_. []), coming = (\<lambda>ch. mem_writes (snd (snd (r ch)))), stored = mem\<rparr>"])
      (use r m0 in \<open>simp_all add: store_memories_init_def sched_init_def\<close>)
  then show ?thesis by blast
qed

lemma kernel_perf_exists:
  fixes to_mem from_mem :: "'m::len word list" and aie :: "(nat \<Rightarrow> 's::len word ap_axiu list) \<Rightarrow> nat \<Rightarrow> 's word ap_axiu list"
  assumes rdy: "perf_ready (MEM_RATIO TYPE('m) TYPE('s)) D N cfg perf to_mem from_mem"
    and long: "\<And>sent ch. (\<forall>ch < N. sent ch = map axi_word (perf_sent D N cfg to_mem ch)) \<Longrightarrow> ch < N \<Longrightarrow>
      cfg_reps N cfg 4 ch * cfg_frames N cfg 4 ch \<le> length (aie sent ch)"
  shows "\<exists>sent perf' mem'. kernel N D aie cfg perf to_mem from_mem sent perf' mem'"
proof -
  let ?R = "MEM_RATIO TYPE('m) TYPE('s)"
  have p: "0 < ?R" "0 < N" "cfg ! 0 \<noteq> 0" "0 < D" "D < 2 ^ 32" "D mod ?R = 0"
    "length cfg = 8 * N + 1" "length perf = 4 * N" "buffers_fit ?R D N cfg 0 to_mem" "buffers_fit ?R D N cfg 4 from_mem"
    using rdy unfolding perf_ready_def harness_ready_def by blast+
  define c0 :: "'s word buff_channel" where "c0 = \<lparr>mode = PL_FUNC_MODE, numFrames = 0, numRep = 0, offsets = 0,
    delays = 0, firstcc = 0, lastcc = 0, buff = replicate D 0\<rparr>"
  define raw :: "'s word test_harness" where "raw = \<lparr>to_aie_ch = (\<lambda>_. c0), from_aie_ch = (\<lambda>_. c0)\<rparr>"
  let ?raw = "new_test_harness raw" and ?sched = "\<lambda>(ch::nat) (i::nat). i"
  let ?th = "configured_harness N cfg ?raw"
  let ?fl = "filled N D to_mem ?th"
  have rl: "\<forall>ch. length (buff (to_aie_ch ?raw ch)) = D" "\<forall>ch. length (buff (from_aie_ch ?raw ch)) = D"
    by (simp_all add: raw_def c0_def new_test_harness_def new_buff_channel_def)
  note F = filled_run [OF p(1,6,4,3,9) rl(1)]
  have md: "\<forall>ch < N. mode (to_aie_ch ?fl ch) = PL_PERF_MODE \<and> length (buff (to_aie_ch ?fl ch)) = D" using F(2) by blast
  have sc: "\<forall>ch. ?sched ch 0 \<le> ?sched ch 1" by simp
  obtain to_chs and acts :: "nat \<Rightarrow> ('s word, 'm word) action list" where
    ld: "load_region N D ?sched (to_aie_ch ?fl) to_mem to_chs acts"
    using load_region_perf_exists [OF md p(4,5) sc p(2)] by blast
  let ?sent = "\<lambda>ch. sent_words (acts ch)"
  have L: "?sent ch = map axi_word (perf_sent D N cfg to_mem ch)" if "ch < N" for ch
    using load_region_perf(1) [OF ld md p(4,5) sc that] F(2) [OF that] by simp
  have c: "from_aie_ch ?th ch = cfg_channel N cfg 4 ch (from_aie_ch ?raw ch)" if "ch < N" for ch
    using that by (rule configured_harness_simps(2))
  have m: "\<forall>ch < N. mode (from_aie_ch ?th ch) = PL_PERF_MODE \<and> length (buff (from_aie_ch ?th ch)) = D"
    using p(3) rl(2) by (simp add: c cfg_mode_def)
  have e: "unat (numFrames (from_aie_ch ?th ch)) = cfg_frames N cfg 4 ch" "unat (numRep (from_aie_ch ?th ch)) = cfg_reps N cfg 4 ch"
    if "ch < N" for ch using fits_region(4,5) [OF p(10) that c [OF that, symmetric]] by simp_all
  have lg: "\<forall>ch < N. unat (numRep (from_aie_ch ?th ch)) * unat (numFrames (from_aie_ch ?th ch)) \<le> length (aie ?sent ch)"
    using long [of ?sent] L e by simp
  obtain from_chs mem2 where sd: "store_region N D ?sched (from_aie_ch ?th) (aie ?sent) from_mem from_chs mem2"
    using store_region_perf_exists [OF m p(4,5) sc p(2) lg] by blast
  let ?th3 = "\<lparr>to_aie_ch = to_chs, from_aie_ch = from_chs\<rparr>"
  obtain mem3 where sb: "store_buffs N D ?th3 mem2 = Some mem3"
    using store_part_perf(3) [OF rdy rl(2) sc sd] by blast
  obtain pp where pp: "store_perf N ?th3 perf = Some pp" using store_perf_run [OF p(8)] by blast
  have "kernel N D aie cfg perf to_mem from_mem ?sent pp mem3"
  proof (rule kernel.intros)
    show "load_cfg N cfg (new_test_harness raw) = Some ?th" by (rule load_cfg_run [OF p(7)])
    show "length (buff (to_aie_ch raw ch)) = D \<and> length (buff (from_aie_ch raw ch)) = D" for ch
      by (simp add: raw_def c0_def)
    show "load_buffs N D to_mem ?th = Some ?fl" by (rule F(1))
    show "load_region N D ?sched (to_aie_ch ?fl) to_mem to_chs acts" by (rule ld)
    show "store_region N D ?sched (from_aie_ch ?fl) (aie ?sent) from_mem from_chs mem2" unfolding F(3) by (rule sd)
  qed (use sb pp in simp_all)
  then show ?thesis by blast
qed

end
