(* ===== verification/Kernel_Claims.thy ===== *)
theory Kernel_Claims
  imports Kernel_Perf_Run
begin

text \<open>
  The properties of the whole PL kernel, in both modes and on the three boards. The concrete kernel of the
  witnesses has two channels, stream words of 32 bits and memory words of 64 bits.
\<close>

section \<open>The kernel in functional mode\<close>

definition func_done ::
  "nat \<Rightarrow> u64 list \<Rightarrow> 'm::len word list \<Rightarrow> 'm word list \<Rightarrow>
    ((nat \<Rightarrow> 's::len word ap_axiu list) \<Rightarrow> nat \<Rightarrow> 's word ap_axiu list) \<Rightarrow>
    (nat \<Rightarrow> 's word ap_axiu list) \<Rightarrow> u64 list \<Rightarrow> 'm word list \<Rightarrow> bool" where
  "func_done N cfg to_mem from_mem aie sent perf' mem' \<longleftrightarrow>
     (let R = MEM_RATIO TYPE('m) TYPE('s) in
      length mem' = length from_mem \<and>
      (\<forall>ch < N.
         sent ch = map axi_word (words_sent N cfg to_mem ch) \<and>
         cfg_frames N cfg 4 ch \<le> length (aie sent ch) \<and>
         region_words R N cfg 4 ch mem' = packed (mem_frames R (cfg_frames N cfg 4 ch))
           (map axi_data (take (cfg_frames N cfg 4 ch) (aie sent ch))) \<and>
         counted (perf' ! ch) (perf' ! (ch + N)) \<and> counted (perf' ! (ch + 2 * N)) (perf' ! (ch + 3 * N))) \<and>
      (\<forall>a < length from_mem. (\<forall>ch < N. a \<notin> region_of R N cfg 4 ch) \<longrightarrow> mem' ! a = from_mem ! a))"

definition answers ::
  "nat \<Rightarrow> (nat \<Rightarrow> nat) \<Rightarrow> (nat \<Rightarrow> 's::len word list) \<Rightarrow>
    ((nat \<Rightarrow> 's word ap_axiu list) \<Rightarrow> nat \<Rightarrow> 's word ap_axiu list) \<Rightarrow> bool" where
  "answers N n words aie \<longleftrightarrow>
     (\<forall>sent. (\<forall>ch < N. sent ch = map axi_word (words ch)) \<longrightarrow> (\<forall>ch < N. n ch \<le> length (aie sent ch)))"

definition demo_cfg :: "u64 \<Rightarrow> u64 list" where
  "demo_cfg md = [md, 0, 5, 3, 2, 1, 1, 0, 2, 0, 0, 3, 2, 1, 1, 0, 2]"

definition demo_to_mem :: "64 word list" where
  "demo_to_mem = [0x0000000200000001, 3, 0x0000000500000004]"

definition loopback :: "(nat \<Rightarrow> 32 word ap_axiu list) \<Rightarrow> nat \<Rightarrow> 32 word ap_axiu list" where
  "loopback sent = sent"

lemma demo_ratio: "MEM_RATIO TYPE(64) TYPE(32) = 2" "MEM_RATIO TYPE('s::len) TYPE('s) = 1"
  by (simp_all add: MEM_RATIO_def)

lemma less_2_cases: "(ch::nat) < 2 \<longleftrightarrow> ch = 0 \<or> ch = 1"
  by auto

lemma less_2_all: "(\<forall>ch < (2::nat). P ch) \<longleftrightarrow> P 0 \<and> P 1"
  by (auto simp: less_2_cases)

lemma demo_cfg_values:
  "cfg_frames 2 (demo_cfg md) 0 0 = 3" "cfg_frames 2 (demo_cfg md) 0 1 = 2"
  "cfg_frames 2 (demo_cfg md) 4 0 = 3" "cfg_frames 2 (demo_cfg md) 4 1 = 2"
  "cfg_offset 2 (demo_cfg md) 0 0 = 0" "cfg_offset 2 (demo_cfg md) 0 1 = 2"
  "cfg_offset 2 (demo_cfg md) 4 0 = 0" "cfg_offset 2 (demo_cfg md) 4 1 = 2"
  "cfg_reps 2 (demo_cfg md) 0 0 = 1" "cfg_reps 2 (demo_cfg md) 0 1 = 1"
  "cfg_reps 2 (demo_cfg md) 4 0 = 1" "cfg_reps 2 (demo_cfg md) 4 1 = 1"
  by (simp_all add: cfg_frames_def cfg_offset_def cfg_reps_def demo_cfg_def)

lemma demo_cfg_values' [simp]:
  "cfg_frames 2 (demo_cfg md) 0 (Suc 0) = 2" "cfg_frames 2 (demo_cfg md) 4 (Suc 0) = 2"
  "cfg_offset 2 (demo_cfg md) 0 (Suc 0) = 2" "cfg_offset 2 (demo_cfg md) 4 (Suc 0) = 2"
  "cfg_reps 2 (demo_cfg md) 0 (Suc 0) = 1" "cfg_reps 2 (demo_cfg md) 4 (Suc 0) = 1"
  using demo_cfg_values by simp_all

lemmas demo_values = demo_cfg_values demo_cfg_values'

lemma demo_func_ready:
  "func_ready 2 2 (demo_cfg 0) (replicate 8 0) demo_to_mem (replicate 3 0)"
  by (simp add: func_ready_def harness_ready_def cfg_fits_def cfg_regions_disjoint_def less_2_all demo_values
      mem_frames_def demo_to_mem_def) (simp add: demo_cfg_def)

lemma words_sent_length:
  assumes "0 < MEM_RATIO TYPE('m::len) TYPE('s::len)" "cfg_fits (MEM_RATIO TYPE('m) TYPE('s)) N cfg 0 (mem :: 'm word list)" "ch < N"
  shows "length (words_sent N cfg mem ch :: 's word list) = cfg_frames N cfg 0 ch"
proof -
  let ?R = "MEM_RATIO TYPE('m) TYPE('s)" and ?n = "cfg_frames N cfg 0 ch"
  have "cfg_offset N cfg 0 ch + mem_frames ?R ?n \<le> length mem" using assms(2,3) unfolding cfg_fits_def by blast
  then have "length (take (mem_frames ?R ?n) (drop (cfg_offset N cfg 0 ch) mem)) = mem_frames ?R ?n" by simp
  moreover have "?n \<le> mem_frames ?R ?n * ?R"
    using ceil_div_bounds(1) [OF assms(1), of ?n] unfolding mem_frames_ceil [OF assms(1)] .
  ultimately show ?thesis unfolding words_sent_def by simp
qed

text \<open>C9: a functional transaction through the kernel. When the configuration fits the memories and the regions
  of the channels from the AI Engine do not overlap, every run that ends has sent exactly each channel's
  frames, in order; has stored the frames received on each channel in the channel's region, packed into
  memory words and padded with zeros, and nothing outside the regions; and has stored two counter values
  per channel. If the AI Engine graph answers with enough frames, such a run exists.\<close>

theorem kernel_functional:
  fixes to_mem from_mem :: "'m::len word list" and aie :: "(nat \<Rightarrow> 's::len word ap_axiu list) \<Rightarrow> nat \<Rightarrow> 's word ap_axiu list"
  assumes "func_ready (MEM_RATIO TYPE('m) TYPE('s)) N cfg perf to_mem from_mem"
  shows "(\<forall>sent perf' mem'. kernel N D aie cfg perf to_mem from_mem sent perf' mem' \<longrightarrow>
      func_done N cfg to_mem from_mem aie sent perf' mem') \<and>
    (answers N (cfg_frames N cfg 4) (words_sent N cfg to_mem) aie \<longrightarrow>
      (\<exists>sent perf' mem'. kernel N D aie cfg perf to_mem from_mem sent perf' mem'))"
proof (intro conjI allI impI)
  fix sent perf' mem' assume run: "kernel N D aie cfg perf to_mem from_mem sent perf' mem'"
  note K = kernel_func_run [OF run assms]
  show "func_done N cfg to_mem from_mem aie sent perf' mem'"
    unfolding func_done_def Let_def using K by blast
next
  assume a: "answers N (cfg_frames N cfg 4) (words_sent N cfg to_mem) aie"
  show "\<exists>sent perf' mem'. kernel N D aie cfg perf to_mem from_mem sent perf' mem'"
    using assms by (rule kernel_func_exists) (use a in \<open>simp add: answers_def\<close>)
qed

theorem kernel_functional_witness:
  "\<exists>sent perf'. kernel 2 4 loopback (demo_cfg 0) (replicate 8 0) demo_to_mem (replicate 3 0) sent perf' demo_to_mem"
proof -
  have r: "func_ready (MEM_RATIO TYPE(64) TYPE(32)) 2 (demo_cfg 0) (replicate 8 0) demo_to_mem (replicate 3 0)"
    unfolding demo_ratio by (rule demo_func_ready)
  have w: "(words_sent 2 (demo_cfg 0) demo_to_mem 0 :: 32 word list) = [1, 2, 3]"
    "(words_sent 2 (demo_cfg 0) demo_to_mem 1 :: 32 word list) = [4, 5]"
    by code_simp+
  have p: "(packed 2 [1, 2, 3 :: 32 word] :: 64 word list) = [0x0000000200000001, 3]"
    "(packed 1 [4, 5 :: 32 word] :: 64 word list) = [0x0000000500000004]"
    by code_simp+
  have mf: "mem_frames 2 3 = 2" "mem_frames 2 2 = 1" by (simp_all add: mem_frames_def)
  have "answers 2 (cfg_frames 2 (demo_cfg 0) 4) (words_sent 2 (demo_cfg 0) demo_to_mem) loopback"
    by (simp add: answers_def loopback_def less_2_all w demo_values) (use w in simp)
  then obtain sent perf' mem' where k:
    "kernel 2 4 loopback (demo_cfg 0) (replicate 8 0) demo_to_mem (replicate 3 0) sent perf' mem'"
    "func_done 2 (demo_cfg 0) demo_to_mem (replicate 3 0) loopback sent perf' mem'"
    using kernel_functional [OF r, of 4 loopback] by blast
  have "take 2 mem' = [0x0000000200000001, 3]" "take 1 (drop 2 mem') = [0x0000000500000004]" "length mem' = 3"
    using k(2) p unfolding func_done_def Let_def less_2_all demo_ratio
    by (simp_all add: w w [simplified] region_words_def demo_values mf loopback_def)
  moreover from this(3) have "mem' = take 2 mem' @ take 1 (drop 2 mem')"
    by (metis Suc_1 append_take_drop_id length_drop numeral_3_eq_3 diff_Suc_Suc diff_zero One_nat_def take_all order_refl)
  ultimately have "mem' = demo_to_mem" by (simp add: demo_to_mem_def)
  with k(1) show ?thesis by blast
qed

section \<open>The kernel in performance mode\<close>

lemma demo_perf_ready:
  "perf_ready 2 2 2 (demo_cfg 1) (replicate 8 0) demo_to_mem (replicate 3 0)"
proof -
  have h: "held_cfg 2 2 (demo_cfg 1) 0 0 = 2" "held_cfg 2 2 (demo_cfg 1) 0 1 = 2"
    "held_cfg 2 2 (demo_cfg 1) 4 0 = 2" "held_cfg 2 2 (demo_cfg 1) 4 1 = 2"
    by (simp_all add: held_cfg_def demo_values)
  show ?thesis
    by (simp add: perf_ready_def harness_ready_def buffers_fit_def buffers_disjoint_def less_2_all demo_values
        mem_frames_def demo_to_mem_def h h [simplified] within_def) (simp add: demo_cfg_def)
qed

text \<open>C10: a performance transaction through the kernel. Every run that ends has sent each channel's frames once
  per repetition, read from a buffer that was filled from the channel's region and marked with the
  number of the round when they do not fit; has left in each region the frames of the last repetition, as
  the buffer of limited depth kept them, and has written nothing outside the regions. If the AI Engine
  graph answers every repetition, such a run exists.\<close>

theorem kernel_performance:
  fixes to_mem from_mem :: "'m::len word list" and aie :: "(nat \<Rightarrow> 's::len word ap_axiu list) \<Rightarrow> nat \<Rightarrow> 's word ap_axiu list"
  assumes "perf_ready (MEM_RATIO TYPE('m) TYPE('s)) D N cfg perf to_mem from_mem"
  shows "(\<forall>sent perf' mem'. kernel N D aie cfg perf to_mem from_mem sent perf' mem' \<longrightarrow>
      perf_done D N cfg from_mem (aie sent) mem' \<and>
      (\<forall>ch < N. sent ch = map axi_word (perf_sent D N cfg to_mem ch) \<and>
         cfg_reps N cfg 4 ch * cfg_frames N cfg 4 ch \<le> length (aie sent ch) \<and>
         counted (perf' ! ch) (perf' ! (ch + N)) \<and> counted (perf' ! (ch + 2 * N)) (perf' ! (ch + 3 * N)))) \<and>
    (answers N (\<lambda>ch. cfg_reps N cfg 4 ch * cfg_frames N cfg 4 ch) (perf_sent D N cfg to_mem) aie \<longrightarrow>
      (\<exists>sent perf' mem'. kernel N D aie cfg perf to_mem from_mem sent perf' mem'))"
proof (intro conjI allI impI)
  fix sent perf' mem' assume run: "kernel N D aie cfg perf to_mem from_mem sent perf' mem'"
  note K = kernel_perf_run [OF run assms]
  show "perf_done D N cfg from_mem (aie sent) mem'" by (rule K(3))
  fix ch assume ch: "ch < N"
  show "sent ch = map axi_word (perf_sent D N cfg to_mem ch)"
    "cfg_reps N cfg 4 ch * cfg_frames N cfg 4 ch \<le> length (aie sent ch)" by (rule K(1,2) [OF ch])+
  show "counted (perf' ! ch) (perf' ! (ch + N))" "counted (perf' ! (ch + 2 * N)) (perf' ! (ch + 3 * N))"
    using K(4) [OF ch] by blast+
next
  assume a: "answers N (\<lambda>ch. cfg_reps N cfg 4 ch * cfg_frames N cfg 4 ch) (perf_sent D N cfg to_mem) aie"
  show "\<exists>sent perf' mem'. kernel N D aie cfg perf to_mem from_mem sent perf' mem'"
    using assms by (rule kernel_perf_exists) (use a in \<open>simp add: answers_def\<close>)
qed

theorem kernel_performance_witness:
  "\<exists>sent perf'. kernel 2 2 loopback (demo_cfg 1) (replicate 8 0) demo_to_mem (replicate 3 0) sent perf'
     [0x0000000200020000, 0, 0x0000000500000004]"
proof -
  have r: "perf_ready (MEM_RATIO TYPE(64) TYPE(32)) 2 2 (demo_cfg 1) (replicate 8 0) demo_to_mem (replicate 3 0)"
    unfolding demo_ratio by (rule demo_perf_ready)
  have w: "(perf_sent 2 2 (demo_cfg 1) demo_to_mem 0 :: 32 word list) = [1, 2, 0x20000]"
    "(perf_sent 2 2 (demo_cfg 1) demo_to_mem 1 :: 32 word list) = [4, 5]"
    by code_simp+
  have st: "(perf_stored 2 2 (demo_cfg 1) 0 (map axi_word [1, 2, 0x20000 :: 32 word]) :: 64 word list) = [0x0000000200020000]"
    "(perf_stored 2 2 (demo_cfg 1) 1 (map axi_word [4, 5 :: 32 word]) :: 64 word list) = [0x0000000500000004]"
    by code_simp+
  have h: "held_cfg 2 2 (demo_cfg 1) 4 0 = 2" "held_cfg 2 2 (demo_cfg 1) 4 1 = 2"
    by (simp_all add: held_cfg_def demo_values)
  have mf: "mem_frames 2 2 = 1" by (simp add: mem_frames_def)
  have "answers 2 (\<lambda>ch. cfg_reps 2 (demo_cfg 1) 4 ch * cfg_frames 2 (demo_cfg 1) 4 ch)
      (perf_sent 2 2 (demo_cfg 1) demo_to_mem) loopback"
    by (simp add: answers_def loopback_def less_2_all w demo_values) (use w in simp)
  then obtain sent perf' mem' where k:
    "kernel 2 2 loopback (demo_cfg 1) (replicate 8 0) demo_to_mem (replicate 3 0) sent perf' mem'"
    "perf_done 2 2 (demo_cfg 1) (replicate 3 0) (loopback sent) mem'"
    "\<forall>ch < 2. sent ch = map axi_word (perf_sent 2 2 (demo_cfg 1) demo_to_mem ch)"
    using kernel_performance [OF r, of loopback] by blast
  have s: "sent 0 = map axi_word [1, 2, 0x20000]" "sent 1 = map axi_word [4, 5]"
    using k(3) w unfolding less_2_all by simp_all
  have "take 1 mem' = [0x0000000200020000]" "take 1 (drop 2 mem') = [0x0000000500000004]" "mem' ! 1 = 0" "length mem' = 3"
    using k(2) st s s [simplified] unfolding perf_done_def Let_def less_2_all demo_ratio loopback_def
    by (simp_all add: h h [simplified] demo_values mf within_def)
  then have "mem' = [0x0000000200020000, 0, 0x0000000500000004]"
    by (cases mem' rule: list.exhaust; cases "tl mem'" rule: list.exhaust; cases "tl (tl mem')" rule: list.exhaust) auto
  with k(1) show ?thesis by blast
qed

end
