(* ===== verification/Board_Kernels.thy ===== *)
theory Board_Kernels
  imports Kernel_Perf_Run
begin

text \<open>
  The kernels of \<^verbatim>\<open>src/pl\<close>: \<^verbatim>\<open>vck190_test_harness.cpp\<close>, \<^verbatim>\<open>vek280_test_harness.cpp\<close> and
  \<^verbatim>\<open>vek385_test_harness.cpp\<close>. Each is the template of \<^verbatim>\<open>test_harness.hpp\<close> wired to the streams of its
  board by hand: the stream parameters of the dataflow function, its \<open>load_stream\<close> and \<open>store_stream\<close>
  calls, the stream parameters of the kernel, the interface pragmas of the streams and the arguments of the call are
  lists here, in the order of the source. The pragmas are recorded only; what a kernel does depends on the other lists.
\<close>

section \<open>Wiring\<close>

datatype strm = To nat | From nat      \<comment> \<open>\<open>to_aie_strm0\<close>, \<open>from_aie_strm0\<close>, ...\<close>

record kernel_source =
  ks_params :: "strm list"                         \<comment> \<open>stream parameters of the dataflow function\<close>
  ks_loads :: "(nat \<times> nat \<times> strm) list"          \<comment> \<open>channel, memory stream and parameter of each \<open>load_stream\<close>\<close>
  ks_stores :: "(nat \<times> nat \<times> strm) list"
  ks_ports :: "strm list"                          \<comment> \<open>stream parameters of the kernel\<close>
  ks_axis :: "strm list"                           \<comment> \<open>\<open>#pragma HLS INTERFACE axis port\<close>\<close>
  ks_args :: "strm list"                           \<comment> \<open>stream arguments of the call\<close>

text \<open>The port of the kernel that is bound to a parameter of the dataflow function.\<close>

definition port_of :: "kernel_source \<Rightarrow> strm \<Rightarrow> strm option" where
  "port_of ks s = (case map_of (zip (ks_params ks) (ks_args ks)) s of
     None \<Rightarrow> None
   | Some p \<Rightarrow> if p \<in> set (ks_ports ks) then Some p else None)"

text \<open>The memory stream and the port of the process of a channel.\<close>

definition call_of :: "kernel_source \<Rightarrow> (nat \<times> nat \<times> strm) list \<Rightarrow> nat \<Rightarrow> (nat \<times> strm) option" where
  "call_of ks calls ch = (case map_of calls ch of
     None \<Rightarrow> None
   | Some (m, s) \<Rightarrow> (case port_of ks s of None \<Rightarrow> None | Some p \<Rightarrow> Some (m, p)))"

definition load_port :: "kernel_source \<Rightarrow> nat \<Rightarrow> strm option" where
  "load_port ks ch = map_option snd (call_of ks (ks_loads ks) ch)"

definition store_port :: "kernel_source \<Rightarrow> nat \<Rightarrow> strm option" where
  "store_port ks ch = map_option snd (call_of ks (ks_stores ks) ch)"

text \<open>What is on the ports when channel \<open>ch\<close> has sent the words \<open>sent ch\<close>.\<close>

definition port_words :: "kernel_source \<Rightarrow> nat \<Rightarrow> (nat \<Rightarrow> 'w list) \<Rightarrow> strm \<Rightarrow> 'w list" where
  "port_words ks N sent p = concat (map sent (filter (\<lambda>ch. load_port ks ch = Some p) [0..<N]))"

text \<open>The schedulers of \<open>kernel\<close> serve the process of a channel through the memory stream of the same number.\<close>

definition own_streams :: "kernel_source \<Rightarrow> nat \<Rightarrow> bool" where
  "own_streams ks N \<longleftrightarrow> (\<forall>ch < N. map_option fst (call_of ks (ks_loads ks) ch) = Some ch \<and>
     map_option fst (call_of ks (ks_stores ks) ch) = Some ch)"

text \<open>
  A kernel with its ports: \<open>aie\<close> turns what is on the ports to the AI Engine into what comes on the
  ports from it, \<open>out\<close> is what the run has put on the ports. A process that was given another channel's memory
  stream has no run here.
\<close>

definition board_kernel ::
  "kernel_source \<Rightarrow> nat \<Rightarrow> nat \<Rightarrow> ((strm \<Rightarrow> 's::len word ap_axiu list) \<Rightarrow> strm \<Rightarrow> 's word ap_axiu list) \<Rightarrow>
    u64 list \<Rightarrow> u64 list \<Rightarrow> 'm::len word list \<Rightarrow> 'm word list \<Rightarrow>
    (strm \<Rightarrow> 's word ap_axiu list) \<Rightarrow> u64 list \<Rightarrow> 'm word list \<Rightarrow> bool" where
  "board_kernel ks N D aie cfg perf to_mem from_mem out perf' mem' \<longleftrightarrow>
     own_streams ks N \<and>
     (\<exists>sent. kernel N D (\<lambda>sent ch. aie (port_words ks N sent) (the (store_port ks ch)))
        cfg perf to_mem from_mem sent perf' mem' \<and> out = port_words ks N sent)"

section \<open>VCK190\<close>

definition vck190_params :: "strm list" where
  "vck190_params =
   [To 0, To 1, To 2, To 3, To 4, To 5, To 6, To 7, To 8,
   To 9, To 10, To 11, To 12, To 13, To 14, To 15, To 16, To 17,
   To 18, To 19, To 20, To 21, To 22, To 23, To 24, To 25, To 26,
   To 27, To 28, To 29, To 30, To 31, To 32, To 33, To 34, To 35,
   From 0, From 1, From 2, From 3, From 4, From 5, From 6, From 7, From 8,
   From 9, From 10, From 11, From 12, From 13, From 14, From 15, From 16, From 17,
   From 18, From 19, From 20, From 21, From 22, From 23, From 24, From 25, From 26,
   From 27, From 28, From 29, From 30, From 31, From 32, From 33, From 34, From 35]"

definition vck190_loads :: "(nat \<times> nat \<times> strm) list" where
  "vck190_loads =
   [(0, 0, To 0), (1, 1, To 1), (2, 2, To 2), (3, 3, To 3), (4, 4, To 4), (5, 5, To 5),
   (6, 6, To 6), (7, 7, To 7), (8, 8, To 8), (9, 9, To 9), (10, 10, To 10), (11, 11, To 11),
   (12, 12, To 12), (13, 13, To 13), (14, 14, To 14), (15, 15, To 15), (16, 16, To 16), (17, 17, To 17),
   (18, 18, To 18), (19, 19, To 19), (20, 20, To 20), (21, 21, To 21), (22, 22, To 22), (23, 23, To 23),
   (24, 24, To 24), (25, 25, To 25), (26, 26, To 26), (27, 27, To 27), (28, 28, To 28), (29, 29, To 29),
   (30, 30, To 30), (31, 31, To 31), (32, 32, To 32), (33, 33, To 33), (34, 34, To 34), (35, 35, To 35)]"

definition vck190_stores :: "(nat \<times> nat \<times> strm) list" where
  "vck190_stores =
   [(0, 0, From 0), (1, 1, From 1), (2, 2, From 2), (3, 3, From 3), (4, 4, From 4), (5, 5, From 5),
   (6, 6, From 6), (7, 7, From 7), (8, 8, From 8), (9, 9, From 9), (10, 10, From 10), (11, 11, From 11),
   (12, 12, From 12), (13, 13, From 13), (14, 14, From 14), (15, 15, From 15), (16, 16, From 16), (17, 17, From 17),
   (18, 18, From 18), (19, 19, From 19), (20, 20, From 20), (21, 21, From 21), (22, 22, From 22), (23, 23, From 23),
   (24, 24, From 24), (25, 25, From 25), (26, 26, From 26), (27, 27, From 27), (28, 28, From 28), (29, 29, From 29),
   (30, 30, From 30), (31, 31, From 31), (32, 32, From 32), (33, 33, From 33), (34, 34, From 34), (35, 35, From 35)]"

definition vck190_ports :: "strm list" where
  "vck190_ports =
   [To 0, To 1, To 2, To 3, To 4, To 5, To 6, To 7, To 8,
   To 9, To 10, To 11, To 12, To 13, To 14, To 15, To 16, To 17,
   To 18, To 19, To 20, To 21, To 22, To 23, To 24, To 25, To 26,
   To 27, To 28, To 29, To 30, To 31, To 32, To 33, To 34, To 35,
   From 0, From 1, From 2, From 3, From 4, From 5, From 6, From 7, From 8,
   From 9, From 10, From 11, From 12, From 13, From 14, From 15, From 16, From 17,
   From 18, From 19, From 20, From 21, From 22, From 23, From 24, From 25, From 26,
   From 27, From 28, From 29, From 30, From 31, From 32, From 33, From 34, From 35]"

definition vck190_axis :: "strm list" where
  "vck190_axis =
   [To 0, To 1, To 2, To 3, To 4, To 5, To 6, To 7, To 8,
   To 9, To 10, To 11, To 12, To 13, To 14, To 15, To 16, To 17,
   To 18, To 19, To 20, To 21, To 22, To 23, To 24, To 25, To 26,
   To 27, To 28, To 29, To 30, To 31, To 32, To 33, To 34, To 35,
   From 0, From 1, From 2, From 3, From 4, From 5, From 6, From 7, From 8,
   From 9, From 10, From 11, From 12, From 13, From 14, From 15, From 16, From 17,
   From 18, From 19, From 20, From 21, From 22, From 23, From 24, From 25, From 26,
   From 27, From 28, From 29, From 30, From 31, From 32, From 33, From 34, From 35]"

definition vck190_args :: "strm list" where
  "vck190_args =
   [To 0, To 1, To 2, To 3, To 4, To 5, To 6, To 7, To 8,
   To 9, To 10, To 11, To 12, To 13, To 14, To 15, To 16, To 17,
   To 18, To 19, To 20, To 21, To 22, To 23, To 24, To 25, To 26,
   To 27, To 28, To 29, To 30, To 31, To 32, To 33, To 34, To 35,
   From 0, From 1, From 2, From 3, From 4, From 5, From 6, From 7, From 8,
   From 9, From 10, From 11, From 12, From 13, From 14, From 15, From 16, From 17,
   From 18, From 19, From 20, From 21, From 22, From 23, From 24, From 25, From 26,
   From 27, From 28, From 29, From 30, From 31, From 32, From 33, From 34, From 35]"

definition vck190_source :: kernel_source where
  "vck190_source = \<lparr>ks_params = vck190_params, ks_loads = vck190_loads, ks_stores = vck190_stores,
     ks_ports = vck190_ports, ks_axis = vck190_axis, ks_args = vck190_args\<rparr>"

text \<open>
  With the widths of \<^verbatim>\<open>test_harness/common.mk\<close>: 36 channels, buffers of 4096 words, streams and memory of
  16 bytes.
\<close>

definition vck190_test_harness where
  "vck190_test_harness = (board_kernel vck190_source 36 4096 ::
     ((strm \<Rightarrow> 128 word ap_axiu list) \<Rightarrow> strm \<Rightarrow> 128 word ap_axiu list) \<Rightarrow>
     u64 list \<Rightarrow> u64 list \<Rightarrow> 128 word list \<Rightarrow> 128 word list \<Rightarrow>
     (strm \<Rightarrow> 128 word ap_axiu list) \<Rightarrow> u64 list \<Rightarrow> 128 word list \<Rightarrow> bool)"

section \<open>VEK280\<close>

definition vek280_params :: "strm list" where
  "vek280_params =
   [To 0, To 1, To 2, To 3, To 4, To 5, To 6, To 7, To 8,
   To 9, To 10, To 11, To 12, To 13, To 14, To 15, From 0, From 1,
   From 2, From 3, From 4, From 5, From 6, From 7, From 8, From 9, From 10,
   From 11, From 12, From 13, From 14, From 15]"

definition vek280_loads :: "(nat \<times> nat \<times> strm) list" where
  "vek280_loads =
   [(0, 0, To 0), (1, 1, To 1), (2, 2, To 2), (3, 3, To 3), (4, 4, To 4), (5, 5, To 5),
   (6, 6, To 6), (7, 7, To 7), (8, 8, To 8), (9, 9, To 9), (10, 10, To 10), (11, 11, To 11),
   (12, 12, To 12), (13, 13, To 13), (14, 14, To 14), (15, 15, To 15)]"

definition vek280_stores :: "(nat \<times> nat \<times> strm) list" where
  "vek280_stores =
   [(0, 0, From 0), (1, 1, From 1), (2, 2, From 2), (3, 3, From 3), (4, 4, From 4), (5, 5, From 5),
   (6, 6, From 6), (7, 7, From 7), (8, 8, From 8), (9, 9, From 9), (10, 10, From 10), (11, 11, From 11),
   (12, 12, From 12), (13, 13, From 13), (14, 14, From 14), (15, 15, From 15)]"

definition vek280_ports :: "strm list" where
  "vek280_ports =
   [To 0, To 1, To 2, To 3, To 4, To 5, To 6, To 7, To 8,
   To 9, To 10, To 11, To 12, To 13, To 14, To 15, From 0, From 1,
   From 2, From 3, From 4, From 5, From 6, From 7, From 8, From 9, From 10,
   From 11, From 12, From 13, From 14, From 15]"

definition vek280_axis :: "strm list" where
  "vek280_axis =
   [To 0, To 1, To 2, To 3, To 4, To 5, To 6, To 7, To 8,
   To 9, To 10, To 11, To 12, To 13, To 14, To 15, From 0, From 1,
   From 2, From 3, From 4, From 5, From 6, From 7, From 8, From 9, From 10,
   From 11, From 13, From 13, From 14, From 15]"

definition vek280_args :: "strm list" where
  "vek280_args =
   [To 0, To 1, To 2, To 3, To 4, To 5, To 6, To 7, To 8,
   To 9, To 10, To 11, To 12, To 13, To 14, To 15, From 0, From 1,
   From 2, From 3, From 4, From 5, From 6, From 7, From 8, From 9, From 10,
   From 11, From 12, From 13, From 14, From 15]"

definition vek280_source :: kernel_source where
  "vek280_source = \<lparr>ks_params = vek280_params, ks_loads = vek280_loads, ks_stores = vek280_stores,
     ks_ports = vek280_ports, ks_axis = vek280_axis, ks_args = vek280_args\<rparr>"

definition vek280_test_harness where
  "vek280_test_harness = (board_kernel vek280_source 16 8192 ::
     ((strm \<Rightarrow> 128 word ap_axiu list) \<Rightarrow> strm \<Rightarrow> 128 word ap_axiu list) \<Rightarrow>
     u64 list \<Rightarrow> u64 list \<Rightarrow> 128 word list \<Rightarrow> 128 word list \<Rightarrow>
     (strm \<Rightarrow> 128 word ap_axiu list) \<Rightarrow> u64 list \<Rightarrow> 128 word list \<Rightarrow> bool)"

section \<open>VEK385\<close>

definition vek385_params :: "strm list" where
  "vek385_params =
   [To 0, To 1, To 2, To 3, To 4, To 5, To 6, To 7, To 8,
   To 9, To 10, To 11, To 12, To 13, To 14, To 15, From 0, From 1,
   From 2, From 3, From 4, From 5, From 6, From 7, From 8, From 9, From 10,
   From 11, From 12, From 13, From 14, From 15]"

definition vek385_loads :: "(nat \<times> nat \<times> strm) list" where
  "vek385_loads =
   [(0, 0, To 0), (1, 1, To 1), (2, 2, To 2), (3, 3, To 3), (4, 4, To 4), (5, 5, To 5),
   (6, 6, To 6), (7, 7, To 7), (8, 8, To 8), (9, 9, To 9), (10, 10, To 10), (11, 11, To 11),
   (12, 12, To 12), (13, 13, To 13), (14, 14, To 14), (15, 15, To 15)]"

definition vek385_stores :: "(nat \<times> nat \<times> strm) list" where
  "vek385_stores =
   [(0, 0, From 0), (1, 1, From 1), (2, 2, From 2), (3, 3, From 3), (4, 4, From 4), (5, 5, From 5),
   (6, 6, From 6), (7, 7, From 7), (8, 8, From 8), (9, 9, From 9), (10, 10, From 10), (11, 11, From 11),
   (12, 12, From 12), (13, 13, From 13), (14, 14, From 14), (15, 15, From 15)]"

definition vek385_ports :: "strm list" where
  "vek385_ports =
   [To 0, To 1, To 2, To 3, To 4, To 5, To 6, To 7, To 8,
   To 9, To 10, To 11, To 12, To 13, To 14, To 15, From 0, From 1,
   From 2, From 3, From 4, From 5, From 6, From 7, From 8, From 9, From 10,
   From 11, From 12, From 13, From 14, From 15]"

definition vek385_axis :: "strm list" where
  "vek385_axis =
   [To 0, To 1, To 2, To 3, To 4, To 5, To 6, To 7, To 8,
   To 9, To 10, To 11, To 12, To 13, To 14, To 15, From 0, From 1,
   From 2, From 3, From 4, From 5, From 6, From 7, From 8, From 9, From 10,
   From 11, From 13, From 13, From 14, From 15]"

definition vek385_args :: "strm list" where
  "vek385_args =
   [To 0, To 1, To 2, To 3, To 4, To 5, To 6, To 7, To 8,
   To 9, To 10, To 11, To 12, To 13, To 14, To 15, From 0, From 1,
   From 2, From 3, From 4, From 5, From 6, From 7, From 8, From 9, From 10,
   From 11, From 12, From 13, From 14, From 15]"

definition vek385_source :: kernel_source where
  "vek385_source = \<lparr>ks_params = vek385_params, ks_loads = vek385_loads, ks_stores = vek385_stores,
     ks_ports = vek385_ports, ks_axis = vek385_axis, ks_args = vek385_args\<rparr>"

definition vek385_test_harness where
  "vek385_test_harness = (board_kernel vek385_source 16 8192 ::
     ((strm \<Rightarrow> 128 word ap_axiu list) \<Rightarrow> strm \<Rightarrow> 128 word ap_axiu list) \<Rightarrow>
     u64 list \<Rightarrow> u64 list \<Rightarrow> 128 word list \<Rightarrow> 128 word list \<Rightarrow>
     (strm \<Rightarrow> 128 word ap_axiu list) \<Rightarrow> u64 list \<Rightarrow> 128 word list \<Rightarrow> bool)"

section \<open>Direct wiring\<close>

text \<open>Channel, memory stream and port have the same number, in both directions.\<close>

definition wired :: "kernel_source \<Rightarrow> nat \<Rightarrow> bool" where
  "wired ks N \<longleftrightarrow> map (call_of ks (ks_loads ks)) [0..<N] = map (\<lambda>ch. Some (ch, To ch)) [0..<N] \<and>
     map (call_of ks (ks_stores ks)) [0..<N] = map (\<lambda>ch. Some (ch, From ch)) [0..<N]"

lemma wired_ports:
  assumes "wired ks N" "ch < N"
  shows "load_port ks ch = Some (To ch)" "store_port ks ch = Some (From ch)"
    "map_option fst (call_of ks (ks_loads ks) ch) = Some ch" "map_option fst (call_of ks (ks_stores ks) ch) = Some ch"
proof -
  have "\<forall>ch \<in> set [0..<N]. call_of ks (ks_loads ks) ch = Some (ch, To ch)"
    "\<forall>ch \<in> set [0..<N]. call_of ks (ks_stores ks) ch = Some (ch, From ch)"
    using assms(1) unfolding wired_def map_eq_conv by (rule conjunct1, rule conjunct2)
  then show "load_port ks ch = Some (To ch)" "store_port ks ch = Some (From ch)"
    "map_option fst (call_of ks (ks_loads ks) ch) = Some ch" "map_option fst (call_of ks (ks_stores ks) ch) = Some ch"
    using assms(2) by (simp_all add: load_port_def store_port_def)
qed

lemma wired_streams: "wired ks N \<Longrightarrow> own_streams ks N"
  unfolding own_streams_def using wired_ports(3,4) by blast

lemma port_words_wired:
  assumes "wired ks N" "ch < N" shows "port_words ks N sent (To ch) = sent ch"
proof -
  have "filter (\<lambda>c. load_port ks c = Some (To ch)) [0..<N] = filter (\<lambda>c. c = ch) [0..<N]"
    by (rule filter_cong) (simp_all add: wired_ports(1) [OF assms(1)])
  also have "\<dots> = [ch]" using assms(2) by (induction N) (auto simp: less_Suc_eq filter_empty_conv)
  finally show ?thesis by (simp add: port_words_def)
qed

lemma boards_wired: "wired vck190_source 36" "wired vek280_source 16" "wired vek385_source 16"
  by code_simp+

end
