(* ===== verification/Board_Claims.thy ===== *)
theory Board_Claims
  imports Board_Kernels Kernel_Claims
begin

text \<open>The properties of the kernels of the three boards, on their ports.\<close>

section \<open>Words of one width\<close>

lemma lane_whole: "(lane (x :: 's::len word) 0 :: 's word) = x"
  by (rule bit_word_eqI) (simp add: bit_lane)

lemma stream_words_whole: "(stream_words (ms :: 's::len word list) :: 's word list) = ms"
  by (induction ms) (simp_all add: lanes_def lane_whole demo_ratio)

lemma pack_whole: "(pack_lanes 0 [v :: 's::len word] 0 :: 's word) = v"
proof (rule word_eq_lanesI [where 's = 's])
  show w: "widths_ok TYPE('s) TYPE('s)" by (simp add: widths_ok_def demo_ratio)
  fix j assume "j < MEM_RATIO TYPE('s) TYPE('s)"
  then show "(lane (pack_lanes 0 [v] 0 :: 's word) j :: 's word) = lane v j"
    using lane_pack_lanes [OF w, of j 0 "[v]" 0] by (simp add: demo_ratio lane_whole)
qed

lemma packed_whole:
  assumes "k \<le> length vs" shows "(packed k (vs :: 's::len word list) :: 's word list) = take k vs"
proof (rule nth_equalityI)
  fix i assume "i < length (packed k vs :: 's word list)"
  then have i: "i < k" by simp
  then have "take 1 (drop i vs) = [vs ! i]" using assms by (simp add: take_Suc hd_drop_conv_nth)
  then show "(packed k vs :: 's word list) ! i = take k vs ! i"
    using i by (simp add: packed_def demo_ratio pack_whole [simplified])
qed (use assms in simp)

lemma mem_frames_whole: "mem_frames 1 n = n"
  by (simp add: mem_frames_def)

section \<open>Transactions on the ports\<close>

definition board_done ::
  "nat \<Rightarrow> u64 list \<Rightarrow> 's::len word list \<Rightarrow> 's word list \<Rightarrow>
    ((strm \<Rightarrow> 's word ap_axiu list) \<Rightarrow> strm \<Rightarrow> 's word ap_axiu list) \<Rightarrow>
    (strm \<Rightarrow> 's word ap_axiu list) \<Rightarrow> 's word list \<Rightarrow> bool" where
  "board_done N cfg to_mem from_mem aie out mem' \<longleftrightarrow> length mem' = length from_mem \<and>
     (\<forall>ch < N.
        out (To ch) = map axi_word (take (cfg_frames N cfg 0 ch) (drop (cfg_offset N cfg 0 ch) to_mem)) \<and>
        take (cfg_frames N cfg 4 ch) (drop (cfg_offset N cfg 4 ch) mem') =
          map axi_data (take (cfg_frames N cfg 4 ch) (aie out (From ch))) \<and>
        cfg_frames N cfg 4 ch \<le> length (aie out (From ch)))"

text \<open>The graph answers with enough words whenever it gets the words of the transaction.\<close>

definition board_answers ::
  "nat \<Rightarrow> u64 list \<Rightarrow> 's::len word list \<Rightarrow> ((strm \<Rightarrow> 's word ap_axiu list) \<Rightarrow> strm \<Rightarrow> 's word ap_axiu list) \<Rightarrow> bool" where
  "board_answers N cfg to_mem aie \<longleftrightarrow> (\<forall>out.
     (\<forall>ch < N. out (To ch) = map axi_word (take (cfg_frames N cfg 0 ch) (drop (cfg_offset N cfg 0 ch) to_mem))) \<longrightarrow>
     (\<forall>ch < N. cfg_frames N cfg 4 ch \<le> length (aie out (From ch))))"

lemma words_sent_whole:
  "words_sent N cfg (mem :: 's::len word list) ch = (take (cfg_frames N cfg 0 ch) (drop (cfg_offset N cfg 0 ch) mem) :: 's word list)"
  unfolding words_sent_def demo_ratio mem_frames_whole stream_words_whole by simp

lemma board_kernel_done:
  fixes aie :: "(strm \<Rightarrow> 's::len word ap_axiu list) \<Rightarrow> strm \<Rightarrow> 's word ap_axiu list" and to_mem :: "'s word list"
  assumes w: "wired ks N" and rdy: "func_ready 1 N cfg perf to_mem from_mem"
    and run: "board_kernel ks N D aie cfg perf to_mem from_mem out perf' mem'"
  shows "board_done N cfg to_mem from_mem aie out mem'"
proof -
  obtain sent where k: "kernel N D (\<lambda>sent ch. aie (port_words ks N sent) (the (store_port ks ch)))
      cfg perf to_mem from_mem sent perf' mem'" and out: "out = port_words ks N sent"
    using run unfolding board_kernel_def by blast
  have r: "func_ready (MEM_RATIO TYPE('s) TYPE('s)) N cfg perf to_mem from_mem" using rdy unfolding demo_ratio .
  note K = kernel_func_run [OF k r]
  show ?thesis
    unfolding board_done_def
  proof (intro conjI allI impI)
    show "length mem' = length from_mem" by (rule K(4))
    fix ch assume ch: "ch < N"
    have a: "aie (port_words ks N sent) (the (store_port ks ch)) = aie out (From ch)"
      using wired_ports(2) [OF w ch] by (simp add: out)
    show "cfg_frames N cfg 4 ch \<le> length (aie out (From ch))" using K(2) [OF ch] unfolding a .
    show "out (To ch) = map axi_word (take (cfg_frames N cfg 0 ch) (drop (cfg_offset N cfg 0 ch) to_mem))"
      using K(1) [OF ch] unfolding words_sent_whole by (simp add: out port_words_wired [OF w ch])
    show "take (cfg_frames N cfg 4 ch) (drop (cfg_offset N cfg 4 ch) mem') =
        map axi_data (take (cfg_frames N cfg 4 ch) (aie out (From ch)))"
      using K(2,3) [OF ch] unfolding region_words_def demo_ratio mem_frames_whole a by (simp add: packed_whole)
  qed
qed

lemma board_kernel_exists:
  fixes aie :: "(strm \<Rightarrow> 's::len word ap_axiu list) \<Rightarrow> strm \<Rightarrow> 's word ap_axiu list" and to_mem :: "'s word list"
  assumes w: "wired ks N" and rdy: "func_ready 1 N cfg perf to_mem from_mem"
    and a: "board_answers N cfg to_mem aie"
  shows "\<exists>out perf' mem'. board_kernel ks N D aie cfg perf to_mem from_mem out perf' mem'"
proof -
  have r: "func_ready (MEM_RATIO TYPE('s) TYPE('s)) N cfg perf to_mem from_mem" using rdy unfolding demo_ratio .
  have "\<exists>sent perf' mem'. kernel N D (\<lambda>sent ch. aie (port_words ks N sent) (the (store_port ks ch)))
      cfg perf to_mem from_mem sent perf' mem'"
    using r
  proof (rule kernel_func_exists)
    fix sent :: "nat \<Rightarrow> 's word ap_axiu list" and ch
    assume s: "\<forall>ch < N. sent ch = map axi_word (words_sent N cfg to_mem ch)" and ch: "ch < N"
    then have "\<forall>ch < N. port_words ks N sent (To ch) =
        map axi_word (take (cfg_frames N cfg 0 ch) (drop (cfg_offset N cfg 0 ch) to_mem))"
      by (simp add: port_words_wired [OF w] words_sent_whole)
    then show "cfg_frames N cfg 4 ch \<le> length (aie (port_words ks N sent) (the (store_port ks ch)))"
      using a ch wired_ports(2) [OF w ch] unfolding board_answers_def by simp
  qed
  then show ?thesis unfolding board_kernel_def using wired_streams [OF w] by blast
qed

definition board_cfg :: "u64 list" where
  "board_cfg = (replicate 289 0)[1 + 36 * 1 + 35 := 2, 1 + 36 * 5 + 35 := 2, 1 + 36 * 7 + 35 := 1]"

definition board_loopback :: "(strm \<Rightarrow> 128 word ap_axiu list) \<Rightarrow> strm \<Rightarrow> 128 word ap_axiu list" where
  "board_loopback out p = (case p of From ch \<Rightarrow> out (To ch) | To ch \<Rightarrow> [])"

text \<open>C11: the kernels of the three boards, on their ports. A functional transaction puts the memory words of
  each channel's region on the port of the channel's own number and stores the words that come on the
  port of that number, on all 36 channels of a VCK190 and all 16 of a VEK280 or VEK385; and it can run to
  its end when the graph answers.\<close>

theorem boards_functional:
  assumes "(N, board) \<in> {(36, vck190_test_harness), (16, vek280_test_harness), (16, vek385_test_harness)}"
    and "func_ready 1 N cfg perf to_mem from_mem"
  shows "(\<forall>out perf' mem'. board aie cfg perf to_mem from_mem out perf' mem' \<longrightarrow>
      board_done N cfg to_mem from_mem aie out mem') \<and>
    (board_answers N cfg to_mem aie \<longrightarrow>
      (\<exists>out perf' mem'. board aie cfg perf to_mem from_mem out perf' mem'))"
proof -
  obtain ks D where b: "board = board_kernel ks N D" and w: "wired ks N"
    using assms(1) boards_wired by (auto simp: vck190_test_harness_def vek280_test_harness_def vek385_test_harness_def)
  show ?thesis
    unfolding b using board_kernel_done [OF w assms(2)] board_kernel_exists [OF w assms(2)] by blast
qed

theorem boards_functional_witness:
  "\<exists>out perf' mem'. vck190_test_harness board_loopback board_cfg (replicate 144 0) [7, 8] [0, 0, 0] out perf' mem' \<and>
     mem' ! 1 = 7 \<and> mem' ! 2 = 8"
proof -
  have f: "cfg_frames 36 board_cfg 0 ch = (if ch = 35 then 2 else 0)" "cfg_frames 36 board_cfg 4 ch = (if ch = 35 then 2 else 0)"
    "cfg_offset 36 board_cfg 0 ch = 0" "cfg_offset 36 board_cfg 4 ch = (if ch = 35 then 1 else 0)" if "ch < 36" for ch
    using that by (simp_all add: cfg_frames_def cfg_offset_def board_cfg_def nth_list_update)
  have r: "func_ready 1 36 board_cfg (replicate 144 0) [7, 8 :: 128 word] [0, 0, 0]"
    by (simp add: func_ready_def harness_ready_def cfg_fits_def cfg_regions_disjoint_def f mem_frames_whole [simplified])
      (simp add: board_cfg_def)
  have "board_answers 36 board_cfg [7, 8] board_loopback"
    by (auto simp: board_answers_def board_loopback_def f)
  then obtain out perf' mem' where k: "vck190_test_harness board_loopback board_cfg (replicate 144 0) [7, 8] [0, 0, 0] out perf' mem'"
    "board_done 36 board_cfg [7, 8] [0, 0, 0] board_loopback out mem'"
    using boards_functional [of 36 vck190_test_harness, OF _ r, of board_loopback] by blast
  have "out (To 35) = [axi_word 7, axi_word 8]" using k(2) f [of 35] unfolding board_done_def by (auto dest: spec [of _ 35])
  then have "take 2 (drop 1 mem') = [7, 8]" "length mem' = 3"
    using k(2) f [of 35] unfolding board_done_def board_loopback_def by (auto dest!: spec [of _ 35])
  then have "mem' ! 1 = 7 \<and> mem' ! 2 = 8"
    by (cases mem' rule: list.exhaust; cases "tl mem'" rule: list.exhaust; cases "tl (tl mem')" rule: list.exhaust) auto
  with k(1) show ?thesis by blast
qed

end
