(* ===== verification/Channel_Claims.thy ===== *)
theory Channel_Claims
  imports Kernel_Perf_Run
begin

text \<open>
  The properties of the parts of the kernel: the two burst schedulers under every interleaving with the
  channels, the feeder and the collector of a channel, its buffer and its cycle counter.
\<close>

section \<open>The burst schedulers\<close>

definition demo_burst :: burst_cfg where
  "demo_burst = \<lparr>bc_channels = 2, bc_burst = 2, bc_ratio = 2, bc_frames = (\<lambda>ch. if ch = 0 then 5 else 2),
     bc_offsets = (\<lambda>ch. if ch = 0 then 0 else 3)\<rparr>"

lemma demo_burst_words: "chan_words demo_burst 0 = 3" "chan_words demo_burst 1 = 1"
  by code_simp+

lemma two_channels: "(\<forall>ch < bc_channels demo_burst. P ch) \<longleftrightarrow> P 0 \<and> P 1"
  by (auto simp: demo_burst_def numeral_2_eq_2 less_Suc_eq)

lemma demo_burst_ok: "load_ok demo_burst [10, 11, 12, 13 :: 64 word]"
  by (simp add: load_ok_def cfg_ok_def two_channels demo_burst_words demo_burst_words [simplified])
    (simp add: demo_burst_def fifo_capacity_def)

text \<open>C13: \<open>load_memories\<close>. In whatever order the scheduler and the feeders take their steps, the scheduler never
  reads outside the memory or its arrays and never overfills a stream; what a feeder has got and what
  is in its stream is always a prefix of the channel's region, so no word is lost, repeated or out of order;
  when the scheduler has returned it is the whole region; and from every state that can be reached
  it can return with every feeder served.\<close>

theorem load_memories_correct:
  assumes "load_ok c mem" and "(load_step c mem)\<^sup>*\<^sup>* (load_memories_init c True) (k, d)"
  shows "pc k \<noteq> Fault \<and>
    (\<forall>ch < bc_channels c. length (to_fifo d ch) \<le> fifo_capacity c \<and>
      (\<exists>n. fed d ch @ to_fifo d ch = take n (chan_slice c mem ch)) \<and>
      (pc k = Finished \<longrightarrow> fed d ch @ to_fifo d ch = chan_slice c mem ch)) \<and>
    (\<exists>k' d'. (load_step c mem)\<^sup>*\<^sup>* (k, d) (k', d') \<and> pc k' = Finished \<and>
      (\<forall>ch < bc_channels c. fed d' ch = chan_slice c mem ch))"
proof -
  have inv: "sched_inv c (load_inv c mem) (load_room c) (k, d)" by (rule load_reachable [OF assms])
  have "load_inv c mem (moved k) d" using inv by (simp add: sched_inv_def)
  then have d: "length (to_fifo d ch) \<le> fifo_capacity c" "fed d ch @ to_fifo d ch = take (moved k ch) (chan_slice c mem ch)"
    if "ch < bc_channels c" for ch using that by (simp_all add: load_inv_def)
  show ?thesis
    using loading.no_fault [OF inv] d load_finished [OF assms] load_can_finish [OF assms] by auto
qed

theorem load_memories_correct_witness:
  "\<exists>k d. (load_step demo_burst [10, 11, 12, 13 :: 64 word])\<^sup>*\<^sup>* (load_memories_init demo_burst True) (k, d) \<and>
     pc k = Finished \<and> fed d 0 = [10, 11, 12] \<and> fed d 1 = [13]"
proof -
  obtain k0 d0 where init: "load_memories_init demo_burst True = (k0, d0 :: 64 word load_data)" by fastforce
  then have "(load_step demo_burst [10, 11, 12, 13 :: 64 word])\<^sup>*\<^sup>* (load_memories_init demo_burst True) (k0, d0)" by simp
  from load_memories_correct [OF demo_burst_ok this] init
  obtain k d where kd: "(load_step demo_burst [10, 11, 12, 13 :: 64 word])\<^sup>*\<^sup>* (load_memories_init demo_burst True) (k, d)"
    "pc k = Finished" "\<forall>ch < bc_channels demo_burst. fed d ch = chan_slice demo_burst [10, 11, 12, 13] ch"
    by auto
  then show ?thesis
    unfolding two_channels by (auto simp: chan_slice_def demo_burst_words demo_burst_words [simplified]) (auto simp: demo_burst_def)
qed

text \<open>C14: \<open>store_memories\<close>. In whatever order the collectors and the scheduler take their steps, the scheduler
  never reads from an empty stream and never writes outside the memory; what it has stored, what is
  in a channel's stream and what the collector still holds is always the channel's data in order; when it
  has returned, each region holds its channel's data and the rest of the memory is untouched; and
  from every state that can be reached it can return.\<close>

theorem store_memories_correct:
  assumes "store_ok c src mem" and "(store_step c)\<^sup>*\<^sup>* (store_memories_init c True src mem) (k, d)"
  shows "pc k \<noteq> Fault \<and> length (stored d) = length mem \<and>
    (\<forall>ch < bc_channels c. \<exists>n. take n (src ch) @ from_fifo d ch @ coming d ch = src ch \<and>
       (\<forall>i < n. stored d ! (unat (bc_offsets c ch) + i) = src ch ! i)) \<and>
    (\<forall>a < length mem. (\<forall>ch < bc_channels c. \<not> in_region c ch a) \<longrightarrow> stored d ! a = mem ! a) \<and>
    (pc k = Finished \<longrightarrow> (\<forall>ch < bc_channels c.
       take (chan_words c ch) (drop (unat (bc_offsets c ch)) (stored d)) = src ch)) \<and>
    (\<exists>k' d'. (store_step c)\<^sup>*\<^sup>* (k, d) (k', d') \<and> pc k' = Finished)"
proof -
  have inv: "sched_inv c (store_inv c src mem) store_room (k, d)" by (rule store_reachable [OF assms])
  have i: "store_inv c src mem (moved k) d" using inv by (simp add: sched_inv_def)
  have d: "take (moved k ch) (src ch) @ from_fifo d ch @ coming d ch = src ch \<and>
      (\<forall>i < moved k ch. stored d ! (unat (bc_offsets c ch) + i) = src ch ! i)" if "ch < bc_channels c" for ch
    using i that by (simp add: store_inv_def)
  have "length (stored d) = length mem"
    "\<forall>a < length mem. (\<forall>ch < bc_channels c. \<not> in_region c ch a) \<longrightarrow> stored d ! a = mem ! a"
    using i by (simp_all add: store_inv_def)
  then show ?thesis
    using storing.no_fault [OF inv] d store_finished(2) [OF assms] store_can_finish [OF assms] by auto
qed

definition demo_src :: "nat \<Rightarrow> 64 word list" where
  "demo_src ch = (if ch = 0 then [10, 11, 12] else [13])"

lemma demo_store_ok: "store_ok demo_burst demo_src [0, 0, 0, 0]"
proof -
  have r: "in_region demo_burst 0 a \<longleftrightarrow> a < 3" "in_region demo_burst 1 a \<longleftrightarrow> a = 3" for a
    unfolding in_region_def demo_burst_words by (auto simp: demo_burst_def)
  show ?thesis
    using demo_burst_ok unfolding store_ok_def load_ok_def two_channels
    by (auto simp: demo_src_def demo_burst_words demo_burst_words [simplified] r r [simplified])
qed

theorem store_memories_correct_witness:
  "\<exists>k d. (store_step demo_burst)\<^sup>*\<^sup>* (store_memories_init demo_burst True demo_src [0, 0, 0, 0]) (k, d) \<and> pc k = Finished"
proof -
  let ?init = "store_memories_init demo_burst True demo_src [0, 0, 0, 0]"
  obtain k0 d0 where init: "?init = (k0, d0)" by fastforce
  then have "(store_step demo_burst)\<^sup>*\<^sup>* ?init (k0, d0)" by simp
  from store_memories_correct [OF demo_store_ok this] init show ?thesis by auto
qed

end
