(* ===== verification/Stream_Claims.thy ===== *)
theory Stream_Claims
  imports Kernel_Perf_Run
begin

text \<open>The properties of one channel: its feeder, its collector, its buffer and its cycle counter.\<close>

section \<open>The feeder\<close>

definition demo_channel :: "PL_TestMode \<Rightarrow> u32 \<Rightarrow> 32 word buff_channel" where
  "demo_channel m n = \<lparr>mode = m, numFrames = n, numRep = 2, offsets = 1, delays = 5, firstcc = 0, lastcc = 0,
     buff = [10, 11, 12, 13]\<rparr>"

lemma demo_ratio_2: "MEM_RATIO TYPE(64) TYPE(32) = 2"
  by (simp add: MEM_RATIO_def)

text \<open>C15: \<open>buff_channel::feed\<close>. It waits for the delay of the channel, writes a trigger, sends the frames and
  writes a second trigger. In functional mode the frames are the first \<open>numFrames\<close> stream words of the memory words
  it reads, and it reads just the memory words that hold them (it hangs when fewer come). In performance
  mode it reads nothing and sends the buffer \<open>numRep\<close> times, \<open>numFrames\<close> frames each time.\<close>

theorem feeder_correct:
  fixes ch :: "'s::len word buff_channel" and ms :: "'m::len word list"
  assumes R: "0 < MEM_RATIO TYPE('m) TYPE('s)" and D: "length (buff ch) = D" "0 < D" "D < 2 ^ 32"
  shows "feed D ch ms =
    (let n = unat (numFrames ch); k = mem_frames (MEM_RATIO TYPE('m) TYPE('s)) n;
         trace = (\<lambda>vs. [Delay (unat (delays ch)), Trigger] @ sends vs @ [Trigger]) in
     case mode ch of
       PL_FUNC_MODE \<Rightarrow> if k \<le> length ms then Some (drop k ms, trace (take n (stream_words ms))) else None
     | PL_PERF_MODE \<Rightarrow> Some (ms, trace (concat (replicate (unat (numRep ch)) (perf_frames D (buff ch) n)))))"
  by (cases "mode ch") (simp_all add: feed_func [OF _ R] feed_perf [OF _ D] fed_frames_def Let_def)

theorem feeder_correct_witness:
  "feed 4 (demo_channel PL_FUNC_MODE 3) [0x200000001, 0x400000003, 0x600000005 :: 64 word] =
     Some ([0x600000005], [Delay 5, Trigger] @ sends [1, 2, 3] @ [Trigger])"
proof -
  have "take 3 (stream_words [0x200000001, 0x400000003, 0x600000005 :: 64 word]) = [1, 2, 3 :: 32 word]" by code_simp
  then show ?thesis
    using feeder_correct [of "demo_channel PL_FUNC_MODE 3" 4 "[0x200000001, 0x400000003, 0x600000005 :: 64 word]"]
    by (simp add: demo_ratio_2 demo_channel_def mem_frames_def)
qed

text \<open>C16: the marking of the frames in performance mode. Two frames sent from the same entry of the buffer
  are equal exactly when the numbers of their rounds agree in their lower 16 bits: the rounds can be
  told apart by the receiver as long as there are at most 65536 of them.\<close>

theorem rounds_marked:
  fixes b :: "'s::len word list"
  assumes "16 \<le> LENGTH('s)" "i < n" "j < n" "i mod D = j mod D"
  shows "perf_frames D b n ! i = perf_frames D b n ! j \<longleftrightarrow> (i div D) mod 65536 = (j div D) mod 65536"
proof -
  have "(of_nat (i div D) :: 16 word) = of_nat (j div D) \<longleftrightarrow> (i div D) mod 65536 = (j div D) mod 65536"
    by (simp add: word_unat_eq_iff unat_of_nat)
  moreover have "x XOR y = x XOR z \<longleftrightarrow> y = z" for x y z :: "'s word"
    by (metis xor_self_eq xor.assoc xor.left_neutral)
  ultimately show ?thesis using assms perf_pattern_inj [OF assms(1)] by (simp add: perf_frames_def)
qed

theorem rounds_marked_witness:
  "perf_frames 2 [5, 6 :: 32 word] 4 ! 0 \<noteq> perf_frames 2 [5, 6 :: 32 word] 4 ! 2"
  using rounds_marked [where 's = 32, of 0 4 2 2 "[5, 6]"] by simp

section \<open>The collector\<close>

text \<open>C17: \<open>buff_channel::get\<close>. With at least as many words in the stream as the transaction asks for it takes exactly
  these, triggers the counter after the first of them (or at once if there is none) and again at the
  end; with fewer it hangs. In functional mode it passes them to memory, packed in memory words and the
  last one padded with zeros; in performance mode it passes nothing and its buffer holds the frames
  of the last repetition, the later ones in place of the earlier when there are more than it has
  entries.\<close>

theorem collector_correct:
  fixes ch :: "'s::len word buff_channel" and xs :: "'s word ap_axiu list"
  assumes R: "0 < MEM_RATIO TYPE('m::len) TYPE('s)" and D: "length (buff ch) = D" "0 < D" "D < 2 ^ 32"
  defines "n \<equiv> unat (numFrames ch)" and "r \<equiv> unat (numRep ch)"
  shows "(mode ch = PL_FUNC_MODE \<longrightarrow>
      (if n \<le> length xs
       then \<exists>acts :: ('s word, 'm word) action list. get D ch xs = Some (ch, drop n xs, acts) \<and>
         collects (unat (delays ch)) n xs (packed (mem_frames (MEM_RATIO TYPE('m) TYPE('s)) n) (map axi_data (take n xs))) acts
       else get D ch xs = (None :: ('s word buff_channel \<times> _ \<times> ('s word, 'm word) action list) option))) \<and>
    (mode ch = PL_PERF_MODE \<longrightarrow>
      (if r * n \<le> length xs
       then \<exists>b (acts :: ('s word, 'm word) action list). get D ch xs = Some (ch\<lparr>buff := b\<rparr>, drop (r * n) xs, acts) \<and>
         length b = D \<and> collects (unat (delays ch)) (r * n) xs [] acts \<and>
         (0 < r \<longrightarrow> take (min n D) b = ring_content D (take n (drop ((r - 1) * n) (map axi_data xs))))
       else get D ch xs = (None :: ('s word buff_channel \<times> _ \<times> ('s word, 'm word) action list) option)))"
proof (intro conjI impI)
  assume "mode ch = PL_FUNC_MODE"
  from get_func [OF this R, of D xs] show "if n \<le> length xs
       then \<exists>acts :: ('s word, 'm word) action list. get D ch xs = Some (ch, drop n xs, acts) \<and>
         collects (unat (delays ch)) n xs (packed (mem_frames (MEM_RATIO TYPE('m) TYPE('s)) n) (map axi_data (take n xs))) acts
       else get D ch xs = (None :: ('s word buff_channel \<times> _ \<times> ('s word, 'm word) action list) option)"
    unfolding n_def by (cases "unat (numFrames ch) \<le> length xs") auto
next
  assume "mode ch = PL_PERF_MODE"
  from get_perf [where 'm = 'm, OF this D(2,3,1), of xs] obtain acts :: "('s word, 'm word) action list" where
    g: "get D ch xs = (if r * n \<le> length xs
      then Some (ch\<lparr>buff := reps_write D n r (map axi_data xs) (buff ch)\<rparr>, drop (r * n) xs, acts) else None)"
    "r * n \<le> length xs \<Longrightarrow> collects (unat (delays ch)) (r * n) xs [] acts"
    unfolding n_def r_def by auto
  show "if r * n \<le> length xs
       then \<exists>b (acts :: ('s word, 'm word) action list). get D ch xs = Some (ch\<lparr>buff := b\<rparr>, drop (r * n) xs, acts) \<and>
         length b = D \<and> collects (unat (delays ch)) (r * n) xs [] acts \<and>
         (0 < r \<longrightarrow> take (min n D) b = ring_content D (take n (drop ((r - 1) * n) (map axi_data xs))))
       else get D ch xs = (None :: ('s word buff_channel \<times> _ \<times> ('s word, 'm word) action list) option)"
  proof (cases "r * n \<le> length xs")
    case True
    with reps_content [OF D(1,2), of r n "map axi_data xs"] D(1) g show ?thesis
      by (auto intro!: exI [of _ "reps_write D n r (map axi_data xs) (buff ch)"] exI [of _ acts])
  qed (use g in simp)
qed

theorem collector_correct_witness:
  "\<exists>acts :: (32 word, 64 word) action list.
     get 4 (demo_channel PL_FUNC_MODE 3) (map axi_word [1, 2, 3, 4]) =
       Some (demo_channel PL_FUNC_MODE 3, [axi_word 4], acts) \<and> mem_writes acts = [0x200000001, 3]"
proof -
  have p: "packed (Suc (Suc 0)) [1, 2, 3 :: 32 word] = [0x200000001, 3 :: 64 word]" by code_simp
  from collector_correct [where 'm = 64 and xs = "map axi_word [1, 2, 3, 4]", of "demo_channel PL_FUNC_MODE 3" 4]
  show ?thesis
    by (auto simp: demo_ratio_2 demo_channel_def mem_frames_def collects_def p)
qed

section \<open>The counter\<close>

text \<open>C18: \<open>buff_channel::counter\<close>. It returns only when two triggers have been written, at the latest when the second
  is seen, and then has stored the cycle in which it saw each; with fewer it runs for ever. The second is
  read at the earliest one cycle after the first, even when both are there at once.\<close>

theorem counter_correct:
  fixes acts :: "('s, 'm) action list"
  assumes "sched 0 \<le> sched 1"
  shows "(triggers acts = 2 \<longrightarrow> run_counter sched acts ch =
      Some (ch\<lparr>firstcc := of_nat (sched 0), lastcc := of_nat (max (sched 1) (Suc (sched 0)))\<rparr>)) \<and>
    (triggers acts < 2 \<longrightarrow> run_counter sched acts ch = None)"
  using run_counter_two [of acts sched ch] run_counter_fewer [of acts sched ch] assms
  by (simp add: triggers_def last_cycle_def)

theorem counter_correct_witness:
  "run_counter (\<lambda>k. 7 + 3 * k) ([Trigger, Send (axi_word 1), Trigger] :: (32 word, 64 word) action list)
     (demo_channel PL_FUNC_MODE 3) = Some ((demo_channel PL_FUNC_MODE 3)\<lparr>firstcc := 7, lastcc := 10\<rparr>)"
  using counter_correct [of "\<lambda>k. 7 + 3 * k" "[Trigger, Send (axi_word 1), Trigger]" "demo_channel PL_FUNC_MODE 3"]
  by (simp add: triggers_def)

section \<open>The buffer\<close>

text \<open>C19: \<open>store_buff\<close> and \<open>load_buff\<close>. A buffer written to memory and loaded again by a channel with the same
  region comes back: the entries of the transaction are those that were stored, the others are
  untouched, whatever the width of the memory and whether or not the data fills its last word.\<close>

theorem buffer_roundtrip:
  fixes ch ch' :: "'s::len word buff_channel" and mem :: "'m::len word list"
  assumes "widths_ok TYPE('m) TYPE('s)" "0 < MEM_RATIO TYPE('m) TYPE('s)"
    and "mode ch = PL_PERF_MODE" "mode ch' = PL_PERF_MODE"
    and "numFrames ch' = numFrames ch" "offsets ch' = offsets ch"
    and "length (buff ch) = D" "length (buff ch') = D" "D mod MEM_RATIO TYPE('m) TYPE('s) = 0"
    and "region_ok (offsets ch) (mem_frames (MEM_RATIO TYPE('m) TYPE('s)) (held D ch)) mem"
  shows "do { mem' \<leftarrow> store_buff D ch mem; load_buff D mem' ch' } =
    Some (ch'\<lparr>buff := take (held D ch) (buff ch) @ drop (held D ch) (buff ch')\<rparr>)"
  by (rule store_load_buff [OF assms])

theorem buffer_roundtrip_witness:
  "do { mem' \<leftarrow> store_buff 4 (demo_channel PL_PERF_MODE 3) (replicate 3 (0 :: 64 word));
      load_buff 4 mem' ((demo_channel PL_PERF_MODE 3)\<lparr>buff := [0, 0, 0, 9]\<rparr>) } =
    Some ((demo_channel PL_PERF_MODE 3)\<lparr>buff := [10, 11, 12, 9]\<rparr>)"
proof -
  have "region_ok 1 (Suc (Suc 0)) (replicate 3 (0 :: 64 word))" by (simp add: region_ok_def)
  then show ?thesis
    using buffer_roundtrip [of "demo_channel PL_PERF_MODE 3" "(demo_channel PL_PERF_MODE 3)\<lparr>buff := [0, 0, 0, 9]\<rparr>" 4
        "replicate 3 (0 :: 64 word)"]
    by (simp add: demo_ratio_2 demo_channel_def mem_frames_def held_def widths_ok_def)
qed

end
