(* ===== verification/AIE_Vector.thy ===== *)
theory AIE_Vector
  imports Harness_Prelude "HOL-Library.Monad_Syntax"
begin

text \<open>
  What the kernels of \<^verbatim>\<open>examples/vck190/channelizer/aie\<close> use of the AI Engine. The vector
  instructions are not part of this repository: they are the fields of \<open>aie_ops\<close>, and what the kernels rely on
  is stated in the predicate \<open>aie_documented\<close>, after the documentation of the instructions. A stream is the list of
  the elements in it; a read from an empty one waits, here \<open>None\<close>.
\<close>

section \<open>Data\<close>

type_synonym int16 = "16 word"

record cint16 =
  c_re :: int16
  c_im :: int16

text \<open>One lane of a \<open>v4cacc48\<close> as the pair of its values.\<close>

type_synonym cacc48 = "int \<times> int"

text \<open>The control registers \<open>aie::set_rounding\<close> and \<open>aie::set_saturation\<close> write. The last constructors stand for the
  modes the kernels never select.\<close>

datatype rounding_mode = Positive_inf | Other_rounding
datatype saturation_mode = Saturate | Other_saturation

record aie_core =
  rounding :: rounding_mode
  saturation :: saturation_mode

definition set_rounding :: "rounding_mode \<Rightarrow> aie_core \<Rightarrow> aie_core" where
  "set_rounding m core = core\<lparr>rounding := m\<rparr>"

definition set_saturation :: "saturation_mode \<Rightarrow> aie_core \<Rightarrow> aie_core" where
  "set_saturation m core = core\<lparr>saturation := m\<rparr>"

record aie_ops =
  null_v16cint16 :: "cint16 list"
  upd_w :: "cint16 list \<Rightarrow> nat \<Rightarrow> cint16 list \<Rightarrow> cint16 list"
  ext_w :: "cint16 list \<Rightarrow> nat \<Rightarrow> cint16 list"
  shft_elem :: "cint16 list \<Rightarrow> cint16 \<Rightarrow> cint16 list"
  mul4 :: "cint16 list \<Rightarrow> nat \<Rightarrow> nat \<Rightarrow> nat \<Rightarrow> int16 list \<Rightarrow> nat \<Rightarrow> nat \<Rightarrow> nat \<Rightarrow> cacc48 list"
  mac4 :: "cacc48 list \<Rightarrow> cint16 list \<Rightarrow> nat \<Rightarrow> nat \<Rightarrow> nat \<Rightarrow> int16 list \<Rightarrow> nat \<Rightarrow> nat \<Rightarrow> nat \<Rightarrow> cacc48 list"
  sliding_mul :: "nat \<Rightarrow> nat \<Rightarrow> nat \<Rightarrow> nat \<Rightarrow> nat \<Rightarrow> cint16 list \<Rightarrow> nat \<Rightarrow> cint16 list \<Rightarrow> nat \<Rightarrow> cacc48 list"
  sliding_mac ::
    "nat \<Rightarrow> nat \<Rightarrow> nat \<Rightarrow> nat \<Rightarrow> nat \<Rightarrow> cacc48 list \<Rightarrow> cint16 list \<Rightarrow> nat \<Rightarrow> cint16 list \<Rightarrow> nat \<Rightarrow> cacc48 list"
  srs :: "aie_core \<Rightarrow> cacc48 list \<Rightarrow> nat \<Rightarrow> cint16 list"
  to_vector :: "aie_core \<Rightarrow> cacc48 list \<Rightarrow> nat \<Rightarrow> cint16 list"
  vec_insert :: "cint16 list \<Rightarrow> nat \<Rightarrow> cint16 list \<Rightarrow> cint16 list"

section \<open>Sums of products\<close>

definition cadd :: "cacc48 \<Rightarrow> cacc48 \<Rightarrow> cacc48" where
  "cadd a b = (fst a + fst b, snd a + snd b)"

text \<open>Complex samples times real coefficients, and times complex ones.\<close>

definition rdot :: "(cint16 \<times> int16) list \<Rightarrow> cacc48" where
  "rdot ps = (sum_list (map (\<lambda>(x, t). sint (c_re x) * sint t) ps), sum_list (map (\<lambda>(x, t). sint (c_im x) * sint t) ps))"

definition cdot :: "(cint16 \<times> cint16) list \<Rightarrow> cacc48" where
  "cdot ps =
     (sum_list (map (\<lambda>(x, t). sint (c_re x) * sint (c_re t) - sint (c_im x) * sint (c_im t)) ps),
      sum_list (map (\<lambda>(x, t). sint (c_re x) * sint (c_im t) + sint (c_im x) * sint (c_re t)) ps))"

lemma rdot_append: "rdot (ps @ qs) = cadd (rdot ps) (rdot qs)"
  by (simp add: rdot_def cadd_def)

lemma cdot_append: "cdot (ps @ qs) = cadd (cdot ps) (cdot qs)"
  by (simp add: cdot_def cadd_def)

lemma sint16_bound: "\<bar>sint (w :: int16)\<bar> \<le> 2 ^ 15"
  using sint_greater_eq [of w] sint_less [of w] by simp

lemma sint16_prod: "\<bar>sint (v :: int16) * sint (w :: int16)\<bar> \<le> 2 ^ 30"
proof -
  have "\<bar>sint v\<bar> * \<bar>sint w\<bar> \<le> 2 ^ 15 * 2 ^ 15" by (intro mult_mono sint16_bound) simp_all
  then show ?thesis by (simp add: abs_mult)
qed

definition acc_within :: "int \<Rightarrow> cacc48 \<Rightarrow> bool" where
  "acc_within m a \<longleftrightarrow> \<bar>fst a\<bar> \<le> m \<and> \<bar>snd a\<bar> \<le> m"

lemma acc_within_add: "acc_within m a \<Longrightarrow> acc_within n b \<Longrightarrow> acc_within (m + n) (cadd a b)"
  unfolding acc_within_def cadd_def by auto

lemma acc_within_mono: "acc_within m a \<Longrightarrow> m \<le> n \<Longrightarrow> acc_within n a"
  unfolding acc_within_def by auto

lemma sum_list_bound: "(\<And>x. x \<in> set xs \<Longrightarrow> \<bar>f x\<bar> \<le> m) \<Longrightarrow> \<bar>sum_list (map f xs)\<bar> \<le> int (length xs) * m"
proof (induction xs)
  case (Cons x xs)
  then have "\<bar>f x\<bar> \<le> m" "\<bar>sum_list (map f xs)\<bar> \<le> int (length xs) * m" by simp_all
  then show ?case by (simp add: distrib_right)
qed simp

lemma rdot_bound: "acc_within (int (length ps) * 2 ^ 30) (rdot ps)"
  unfolding acc_within_def rdot_def fst_conv snd_conv
  by (intro conjI sum_list_bound) (auto simp del: power_numeral intro: sint16_prod split: prod.splits)

lemma cdot_bound: "acc_within (int (length ps) * 2 ^ 31) (cdot ps)"
proof -
  have "\<bar>a - b\<bar> \<le> 2 ^ 31 \<and> \<bar>a + b\<bar> \<le> 2 ^ 31" if "\<bar>a\<bar> \<le> 2 ^ 30" "\<bar>b\<bar> \<le> 2 ^ 30" for a b :: int
    using that by (simp add: abs_le_iff)
  note s = this [OF sint16_prod sint16_prod]
  show ?thesis
    unfolding acc_within_def cdot_def fst_conv snd_conv
    by (intro conjI sum_list_bound) (auto simp del: power_numeral intro: s [THEN conjunct1] s [THEN conjunct2] split: prod.splits)
qed

section \<open>The documented behaviour\<close>

text \<open>An accumulator lane has 48 bits for each part.\<close>

definition fits48 :: "cacc48 \<Rightarrow> bool" where
  "fits48 a \<longleftrightarrow> - (2 ^ 47) \<le> fst a \<and> fst a < 2 ^ 47 \<and> - (2 ^ 47) \<le> snd a \<and> snd a < 2 ^ 47"

lemma within_fits48: "acc_within m a \<Longrightarrow> m < 2 ^ 47 \<Longrightarrow> fits48 a"
  unfolding acc_within_def fits48_def by auto

text \<open>Hexadecimal digit \<open>i\<close> of the offsets belongs to lane \<open>i\<close>.\<close>

definition lane_offset :: "nat \<Rightarrow> nat \<Rightarrow> nat" where
  "lane_offset offs i = offs div 16 ^ i mod 16"

definition lane_terms ::
  "cint16 list \<Rightarrow> nat \<Rightarrow> nat \<Rightarrow> nat \<Rightarrow> int16 list \<Rightarrow> nat \<Rightarrow> nat \<Rightarrow> nat \<Rightarrow> nat \<Rightarrow> (cint16 \<times> int16) list" where
  "lane_terms x xstart xoffs xstep z zstart zoffs zstep i =
     map (\<lambda>p. (x ! (xstart + lane_offset xoffs i + p * xstep), z ! (zstart + lane_offset zoffs i + p * zstep))) [0..<4]"

definition lanes_inside :: "nat \<Rightarrow> nat \<Rightarrow> nat \<Rightarrow> bool" where
  "lanes_inside start offs step \<longleftrightarrow> (\<forall>i < 4. start + lane_offset offs i + 3 * step < 16)"

definition sliding_terms ::
  "nat \<Rightarrow> nat \<Rightarrow> nat \<Rightarrow> nat \<Rightarrow> cint16 list \<Rightarrow> nat \<Rightarrow> cint16 list \<Rightarrow> nat \<Rightarrow> nat \<Rightarrow> (cint16 \<times> cint16) list" where
  "sliding_terms points cstep stepx stepy coeff cstart dat dstart i =
     map (\<lambda>p. (coeff ! (cstart + p * cstep), dat ! (dstart + i * stepy + p * stepx))) [0..<points]"

text \<open>The value a part of a lane has after it is shifted right by \<open>n\<close> bits with rounding to the nearest, halves up,
  and saturated to 16 bits.\<close>

definition round_shift :: "nat \<Rightarrow> int \<Rightarrow> int" where
  "round_shift n v = (v + 2 ^ n div 2) div 2 ^ n"

definition saturate16 :: "int \<Rightarrow> int" where
  "saturate16 v = max (- (2 ^ 15)) (min (2 ^ 15 - 1) v)"

definition srs_value :: "nat \<Rightarrow> cacc48 \<Rightarrow> cint16" where
  "srs_value n a = \<lparr>c_re = word_of_int (saturate16 (round_shift n (fst a))),
     c_im = word_of_int (saturate16 (round_shift n (snd a)))\<rparr>"

definition czero :: cint16 where
  "czero = \<lparr>c_re = 0, c_im = 0\<rparr>"

definition moves_documented :: "aie_ops \<Rightarrow> bool" where
  "moves_documented ops \<longleftrightarrow>
     null_v16cint16 ops = replicate 16 czero \<and>
     (\<forall>b h. length b = 16 \<longrightarrow> length h = 8 \<longrightarrow> upd_w ops b 0 h = h @ drop 8 b) \<and>
     (\<forall>b. length b = 16 \<longrightarrow> ext_w ops b 0 = take 8 b) \<and>
     (\<forall>b x. length b = 16 \<longrightarrow> shft_elem ops b x = x # butlast b) \<and>
     (\<forall>b i v. (i + 1) * length v \<le> length b \<longrightarrow>
        vec_insert ops b i v = take (i * length v) b @ v @ drop ((i + 1) * length v) b)"

definition mul4_documented :: "aie_ops \<Rightarrow> bool" where
  "mul4_documented ops \<longleftrightarrow> (\<forall>x xstart xoffs xstep z zstart zoffs zstep.
     length x = 16 \<longrightarrow> length z = 16 \<longrightarrow> lanes_inside xstart xoffs xstep \<longrightarrow> lanes_inside zstart zoffs zstep \<longrightarrow>
     mul4 ops x xstart xoffs xstep z zstart zoffs zstep =
       map (\<lambda>i. rdot (lane_terms x xstart xoffs xstep z zstart zoffs zstep i)) [0..<4])"

definition mac4_documented :: "aie_ops \<Rightarrow> bool" where
  "mac4_documented ops \<longleftrightarrow> (\<forall>acc x xstart xoffs xstep z zstart zoffs zstep.
     length acc = 4 \<longrightarrow> length x = 16 \<longrightarrow> length z = 16 \<longrightarrow> lanes_inside xstart xoffs xstep \<longrightarrow>
     lanes_inside zstart zoffs zstep \<longrightarrow>
     (\<forall>i < 4. fits48 (cadd (acc ! i) (rdot (lane_terms x xstart xoffs xstep z zstart zoffs zstep i)))) \<longrightarrow>
     mac4 ops acc x xstart xoffs xstep z zstart zoffs zstep =
       map (\<lambda>i. cadd (acc ! i) (rdot (lane_terms x xstart xoffs xstep z zstart zoffs zstep i))) [0..<4])"

definition sliding_mul_documented :: "aie_ops \<Rightarrow> bool" where
  "sliding_mul_documented ops \<longleftrightarrow> (\<forall>cstep stepx stepy coeff cstart dat dstart.
     cstart + cstep < length coeff \<longrightarrow> dstart + 3 * stepy + stepx < length dat \<longrightarrow>
     sliding_mul ops 4 2 cstep stepx stepy coeff cstart dat dstart =
       map (\<lambda>i. cdot (sliding_terms 2 cstep stepx stepy coeff cstart dat dstart i)) [0..<4])"

definition sliding_mac_documented :: "aie_ops \<Rightarrow> bool" where
  "sliding_mac_documented ops \<longleftrightarrow> (\<forall>cstep stepx stepy acc coeff cstart dat dstart.
     length acc = 4 \<longrightarrow> cstart + cstep < length coeff \<longrightarrow> dstart + 3 * stepy + stepx < length dat \<longrightarrow>
     (\<forall>i < 4. fits48 (cadd (acc ! i) (cdot (sliding_terms 2 cstep stepx stepy coeff cstart dat dstart i)))) \<longrightarrow>
     sliding_mac ops 4 2 cstep stepx stepy acc coeff cstart dat dstart =
       map (\<lambda>i. cadd (acc ! i) (cdot (sliding_terms 2 cstep stepx stepy coeff cstart dat dstart i))) [0..<4])"

definition srs_documented :: "aie_ops \<Rightarrow> bool" where
  "srs_documented ops \<longleftrightarrow> (\<forall>core acc n. rounding core = Positive_inf \<longrightarrow> saturation core = Saturate \<longrightarrow>
     srs ops core acc n = map (srs_value n) acc \<and> to_vector ops core acc n = map (srs_value n) acc)"

definition aie_documented :: "aie_ops \<Rightarrow> bool" where
  "aie_documented ops \<longleftrightarrow> moves_documented ops \<and> mul4_documented ops \<and> mac4_documented ops \<and>
     sliding_mul_documented ops \<and> sliding_mac_documented ops \<and> srs_documented ops"

lemma documented_moves:
  assumes "aie_documented ops"
  shows "null_v16cint16 ops = replicate 16 czero"
    "length b = 16 \<Longrightarrow> length h = 8 \<Longrightarrow> upd_w ops b 0 h = h @ drop 8 b"
    "length b = 16 \<Longrightarrow> ext_w ops b 0 = take 8 b"
    "length b = 16 \<Longrightarrow> shft_elem ops b x = x # butlast b"
    "(i + 1) * length v \<le> length b \<Longrightarrow> vec_insert ops b i v = take (i * length v) b @ v @ drop ((i + 1) * length v) b"
  using assms unfolding aie_documented_def moves_documented_def by simp_all

lemma documented_mul4:
  assumes "aie_documented ops" "length x = 16" "length z = 16" "lanes_inside xstart xoffs xstep" "lanes_inside zstart zoffs zstep"
  shows "mul4 ops x xstart xoffs xstep z zstart zoffs zstep =
    map (\<lambda>i. rdot (lane_terms x xstart xoffs xstep z zstart zoffs zstep i)) [0..<4]"
  using assms unfolding aie_documented_def mul4_documented_def by simp

lemma documented_mac4:
  assumes "aie_documented ops" "length acc = 4" "length x = 16" "length z = 16" "lanes_inside xstart xoffs xstep"
    "lanes_inside zstart zoffs zstep" "\<forall>i < 4. acc_within (2 ^ 46) (acc ! i)"
  shows "mac4 ops acc x xstart xoffs xstep z zstart zoffs zstep =
    map (\<lambda>i. cadd (acc ! i) (rdot (lane_terms x xstart xoffs xstep z zstart zoffs zstep i))) [0..<4]"
proof -
  have "fits48 (cadd (acc ! i) (rdot (lane_terms x xstart xoffs xstep z zstart zoffs zstep i)))" if "i < 4" for i
    by (rule within_fits48 [OF acc_within_add [OF assms(7) [rule_format, OF that] rdot_bound]]) (simp add: lane_terms_def)
  then show ?thesis using assms unfolding aie_documented_def mac4_documented_def by simp
qed

lemma documented_sliding:
  assumes "aie_documented ops" "cstart + cstep < length coeff" "dstart + 3 * stepy + stepx < length dat"
  shows "sliding_mul ops 4 2 cstep stepx stepy coeff cstart dat dstart =
      map (\<lambda>i. cdot (sliding_terms 2 cstep stepx stepy coeff cstart dat dstart i)) [0..<4]"
    "length acc = 4 \<Longrightarrow> \<forall>i < 4. acc_within (2 ^ 46) (acc ! i) \<Longrightarrow>
      sliding_mac ops 4 2 cstep stepx stepy acc coeff cstart dat dstart =
        map (\<lambda>i. cadd (acc ! i) (cdot (sliding_terms 2 cstep stepx stepy coeff cstart dat dstart i))) [0..<4]"
proof -
  show "sliding_mul ops 4 2 cstep stepx stepy coeff cstart dat dstart =
      map (\<lambda>i. cdot (sliding_terms 2 cstep stepx stepy coeff cstart dat dstart i)) [0..<4]"
    using assms unfolding aie_documented_def sliding_mul_documented_def by simp
next
  assume a: "length acc = 4" "\<forall>i < 4. acc_within (2 ^ 46) (acc ! i)"
  have "fits48 (cadd (acc ! i) (cdot (sliding_terms 2 cstep stepx stepy coeff cstart dat dstart i)))" if "i < 4" for i
    by (rule within_fits48 [OF acc_within_add [OF a(2) [rule_format, OF that] cdot_bound]]) (simp add: sliding_terms_def)
  then show "sliding_mac ops 4 2 cstep stepx stepy acc coeff cstart dat dstart =
      map (\<lambda>i. cadd (acc ! i) (cdot (sliding_terms 2 cstep stepx stepy coeff cstart dat dstart i))) [0..<4]"
    using assms a(1) unfolding aie_documented_def sliding_mac_documented_def by simp
qed

lemma documented_srs:
  "aie_documented ops \<Longrightarrow> rounding core = Positive_inf \<Longrightarrow> saturation core = Saturate \<Longrightarrow>
    srs ops core acc n = map (srs_value n) acc \<and> to_vector ops core acc n = map (srs_value n) acc"
  unfolding aie_documented_def srs_documented_def by simp

section \<open>Instructions that behave as documented\<close>

definition exact_ops :: aie_ops where
  "exact_ops = \<lparr>null_v16cint16 = replicate 16 czero, upd_w = (\<lambda>b i h. take (8 * i) b @ h @ drop (8 * i + 8) b),
     ext_w = (\<lambda>b i. take 8 (drop (8 * i) b)), shft_elem = (\<lambda>b x. x # butlast b),
     mul4 = (\<lambda>x xs xo xp z zs zo zp. map (\<lambda>i. rdot (lane_terms x xs xo xp z zs zo zp i)) [0..<4]),
     mac4 = (\<lambda>acc x xs xo xp z zs zo zp. map (\<lambda>i. cadd (acc ! i) (rdot (lane_terms x xs xo xp z zs zo zp i))) [0..<4]),
     sliding_mul = (\<lambda>lanes points cp px py coeff cs dat ds.
       map (\<lambda>i. cdot (sliding_terms points cp px py coeff cs dat ds i)) [0..<lanes]),
     sliding_mac = (\<lambda>lanes points cp px py acc coeff cs dat ds.
       map (\<lambda>i. cadd (acc ! i) (cdot (sliding_terms points cp px py coeff cs dat ds i))) [0..<lanes]),
     srs = (\<lambda>core acc n. map (srs_value n) acc), to_vector = (\<lambda>core acc n. map (srs_value n) acc),
     vec_insert = (\<lambda>b i v. take (i * length v) b @ v @ drop ((i + 1) * length v) b)\<rparr>"

lemma exact_documented: "aie_documented exact_ops"
  by (simp add: aie_documented_def exact_ops_def moves_documented_def mul4_documented_def mac4_documented_def
      sliding_mul_documented_def sliding_mac_documented_def srs_documented_def)

section \<open>Streams\<close>

text \<open>The input and the output stream of a kernel.\<close>

record stream_io =
  sig_i :: "cint16 list"
  sig_o :: "cint16 list"

definition readincr :: "stream_io \<Rightarrow> (cint16 \<times> stream_io) option" where
  "readincr io = (case sig_i io of [] \<Rightarrow> None | x # xs \<Rightarrow> Some (x, io\<lparr>sig_i := xs\<rparr>))"

definition writeincr :: "cint16 list \<Rightarrow> stream_io \<Rightarrow> stream_io" where
  "writeincr vs io = io\<lparr>sig_o := sig_o io @ vs\<rparr>"

end
