(* ===== verification/Polyphase_FIR.thy ===== *)
theory Polyphase_FIR
  imports AIE_Vector
begin

text \<open>
  \<^verbatim>\<open>polyphase_fir\<close> of \<^verbatim>\<open>examples/vck190/channelizer/aie\<close> (\<^verbatim>\<open>polyphase_fir.h\<close>, \<^verbatim>\<open>polyphase_fir.cpp\<close>): the kernel that
  computes two filters of the channelizer's filter bank with the vector instructions, and the filter it
  computes. A pointer to the taps is its distance from their beginning in vectors of 16.
\<close>

section \<open>State\<close>

record polyphase_fir =
  taps0 :: "int16 list"
  taps1 :: "int16 list"
  state0 :: "cint16 list"
  state1 :: "cint16 list"

definition TAPS_PER_PHASE :: nat where "TAPS_PER_PHASE = 8"
definition NUM_POLY :: nat where "NUM_POLY = 8"
definition BIT_SHIFT :: nat where "BIT_SHIFT = 15"

definition new_polyphase_fir :: "int16 list \<Rightarrow> int16 list \<Rightarrow> aie_core \<Rightarrow> polyphase_fir \<times> aie_core" where
  "new_polyphase_fir taps0_i taps1_i core =
     (\<lparr>taps0 = taps0_i, taps1 = taps1_i, state0 = replicate TAPS_PER_PHASE czero, state1 = replicate TAPS_PER_PHASE czero\<rparr>,
      set_saturation Saturate (set_rounding Positive_inf core))"

section \<open>The compute patterns\<close>

type_synonym fir_regs = "cint16 list \<times> nat \<times> stream_io"    \<comment> \<open>\<open>BUFF\<close>, \<open>PTR\<close> and the streams\<close>
type_synonym fir_macro = "aie_ops \<Rightarrow> aie_core \<Rightarrow> int16 list \<Rightarrow> fir_regs \<Rightarrow> fir_regs option"

definition shift_in :: "aie_ops \<Rightarrow> cint16 list \<times> stream_io \<Rightarrow> (cint16 list \<times> stream_io) option" where
  "shift_in ops s = do { (x, io) \<leftarrow> readincr (snd s); Some (shft_elem ops (fst s) x, io) }"

definition discard_one :: "cint16 list \<times> stream_io \<Rightarrow> (cint16 list \<times> stream_io) option" where
  "discard_one s = do { (x, io) \<leftarrow> readincr (snd s); Some (fst s, io) }"

text \<open>\<open>*PTR\<close>\<close>

definition load_coeff :: "int16 list \<Rightarrow> nat \<Rightarrow> int16 list option" where
  "load_coeff taps ptr = (if 16 * ptr + 16 \<le> length taps then Some (take 16 (drop (16 * ptr) taps)) else None)"

text \<open>The two multiplications of a pattern: the offsets of the first, start and offsets of the second.\<close>

definition fir_macs :: "nat \<Rightarrow> nat \<Rightarrow> nat \<Rightarrow> aie_ops \<Rightarrow> aie_core \<Rightarrow> int16 list \<Rightarrow> nat \<Rightarrow> cint16 list \<times> stream_io \<Rightarrow> fir_regs option" where
  "fir_macs x1 start2 x2 ops core taps ptr s = do {
     coeff \<leftarrow> load_coeff taps ptr;
     let acc = mul4 ops (fst s) 0 x1 1 coeff 0 0xC840 1;
     coeff \<leftarrow> load_coeff taps (ptr + 1);
     let acc = mac4 ops acc (fst s) start2 x2 1 coeff 0 0xC840 1;
     Some (fst s, ptr + 2, writeincr (srs ops core acc BIT_SHIFT) (snd s)) }"

definition REPEATED_D0 :: fir_macro where
  "REPEATED_D0 ops core taps r = (case r of (buff, ptr, io) \<Rightarrow> do {
     s \<leftarrow> shift_in ops (buff, io);
     s \<leftarrow> discard_one s;
     s \<leftarrow> shift_in ops s;
     s \<leftarrow> shift_in ops s;
     fir_macs 0x0122 2 0x2344 ops core taps ptr s })"

definition REPEATED_D1 :: fir_macro where
  "REPEATED_D1 ops core taps r = (case r of (buff, ptr, io) \<Rightarrow> do {
     s \<leftarrow> shift_in ops (buff, io);
     s \<leftarrow> shift_in ops s;
     s \<leftarrow> discard_one s;
     s \<leftarrow> shift_in ops s;
     fir_macs 0x0112 2 0x2334 ops core taps ptr s })"

definition REPEATED_D2 :: fir_macro where
  "REPEATED_D2 ops core taps r = (case r of (buff, ptr, io) \<Rightarrow> do {
     s \<leftarrow> shift_in ops (buff, io);
     s \<leftarrow> shift_in ops s;
     s \<leftarrow> shift_in ops s;
     s \<leftarrow> discard_one s;
     fir_macs 0x0012 2 0x2234 ops core taps ptr s })"

definition HOLDOVER_D0 :: fir_macro where
  "HOLDOVER_D0 ops core taps r = (case r of (buff, ptr, io) \<Rightarrow> do {
     s \<leftarrow> discard_one (buff, io);
     s \<leftarrow> shift_in ops s;
     s \<leftarrow> shift_in ops s;
     s \<leftarrow> shift_in ops s;
     fir_macs 0x0123 3 0x1234 ops core taps ptr s })"

definition NORMAL_FIR :: fir_macro where
  "NORMAL_FIR ops core taps r = (case r of (buff, ptr, io) \<Rightarrow> do {
     s \<leftarrow> shift_in ops (buff, io);
     s \<leftarrow> shift_in ops s;
     s \<leftarrow> shift_in ops s;
     s \<leftarrow> shift_in ops s;
     fir_macs 0x0123 4 0x0123 ops core taps ptr s })"

section \<open>The kernel\<close>

text \<open>The registers of both filters, and the streams.\<close>

type_synonym fir_state = "cint16 list \<times> nat \<times> cint16 list \<times> nat \<times> stream_io"

definition both_filters :: "fir_macro \<Rightarrow> aie_ops \<Rightarrow> aie_core \<Rightarrow> polyphase_fir \<Rightarrow> fir_state \<Rightarrow> fir_state option" where
  "both_filters M ops core fir s = (case s of (buff0, ptr0, buff1, ptr1, io) \<Rightarrow> do {
     (buff0, ptr0, io) \<leftarrow> M ops core (taps0 fir) (buff0, ptr0, io);
     (buff1, ptr1, io) \<leftarrow> M ops core (taps1 fir) (buff1, ptr1, io);
     Some (buff0, ptr0, buff1, ptr1, io) })"

text \<open>The two patterns of an iteration, by \<open>PATTERN\<close>; for any other value the loop body computes nothing.\<close>

definition pattern_macros :: "nat \<Rightarrow> (fir_macro \<times> fir_macro) option" where
  "pattern_macros PATTERN =
     (if PATTERN = 0 then Some (REPEATED_D0, NORMAL_FIR)
      else if PATTERN = 1 then Some (REPEATED_D1, NORMAL_FIR)
      else if PATTERN = 2 then Some (REPEATED_D2, NORMAL_FIR)
      else if PATTERN = 3 then Some (NORMAL_FIR, HOLDOVER_D0)
      else if PATTERN = 4 then Some (NORMAL_FIR, REPEATED_D0)
      else if PATTERN = 5 then Some (NORMAL_FIR, REPEATED_D1)
      else if PATTERN = 6 then Some (NORMAL_FIR, REPEATED_D2)
      else if PATTERN = 7 then Some (HOLDOVER_D0, NORMAL_FIR)
      else None)"

definition RESET_COEFF :: "fir_state \<Rightarrow> fir_state" where
  "RESET_COEFF s = (case s of (buff0, ptr0, buff1, ptr1, io) \<Rightarrow> (buff0, 0, buff1, 0, io))"

definition fir_iteration :: "nat \<Rightarrow> aie_ops \<Rightarrow> aie_core \<Rightarrow> polyphase_fir \<Rightarrow> fir_state \<Rightarrow> fir_state option" where
  "fir_iteration PATTERN ops core fir s = (case pattern_macros PATTERN of
     None \<Rightarrow> Some (RESET_COEFF s)
   | Some (M1, M2) \<Rightarrow> do {
       s \<leftarrow> both_filters M1 ops core fir s;
       s \<leftarrow> both_filters M2 ops core fir s;
       Some (RESET_COEFF s) })"

definition run_i ::
  "nat \<Rightarrow> nat \<Rightarrow> aie_ops \<Rightarrow> aie_core \<Rightarrow> polyphase_fir \<Rightarrow> stream_io \<Rightarrow> (polyphase_fir \<times> stream_io) option" where
  "run_i PATTERN NSAMP ops core fir io = do {
     let buff0 = upd_w ops (null_v16cint16 ops) 0 (state0 fir);
     let buff1 = upd_w ops (null_v16cint16 ops) 0 (state1 fir);
     (buff0, ptr0, buff1, ptr1, io) \<leftarrow>
       for_loop 0 (NSAMP div 16) (\<lambda>ii s. fir_iteration PATTERN ops core fir s) (buff0, 0, buff1, 0, io);
     Some (fir\<lparr>state0 := ext_w ops buff0 0, state1 := ext_w ops buff1 0\<rparr>, io) }"

section \<open>The filter\<close>

text \<open>
  A filter sees one sample after another; a sample that repeats the one before it does not move the window
  of the last eight. The output at a sample is the product of the window, the newest sample first, with the eight
  taps of the phase.
\<close>

definition push_window :: "bool \<Rightarrow> cint16 \<Rightarrow> cint16 list \<Rightarrow> cint16 list" where
  "push_window keep x w = (if keep then x # butlast w else w)"

fun windows :: "(bool \<times> cint16) list \<Rightarrow> cint16 list \<Rightarrow> cint16 list list" where
  "windows [] w = []"
| "windows ((keep, x) # s) w = (let w = push_window keep x w in w # windows s w)"

definition final_window :: "(bool \<times> cint16) list \<Rightarrow> cint16 list \<Rightarrow> cint16 list" where
  "final_window s w = fold (\<lambda>(keep, x). push_window keep x) s w"

text \<open>The taps of phase \<open>q\<close> as the kernel reads them: four phases in each 32 values, their first four taps
  before their last four.\<close>

definition phase_taps :: "int16 list \<Rightarrow> nat \<Rightarrow> int16 list" where
  "phase_taps taps q = map (\<lambda>j. taps ! (32 * (q div 4) + 16 * (j div 4) + 4 * (q mod 4) + j mod 4)) [0..<8]"

definition fir_value :: "int16 list \<Rightarrow> nat \<Rightarrow> cint16 list \<Rightarrow> cint16" where
  "fir_value taps q w = srs_value BIT_SHIFT (rdot (zip w (phase_taps taps q)))"

lemma length_windows [simp]: "length (windows s w) = length s"
  by (induction s w rule: windows.induct) (simp_all add: Let_def)

lemma length_push_window: "length w = Suc n \<Longrightarrow> length (push_window keep x w) = Suc n"
  by (simp add: push_window_def)

lemma length_final_window: "length w = Suc n \<Longrightarrow> length (final_window s w) = Suc n"
  unfolding final_window_def by (induction s arbitrary: w) (simp_all add: length_push_window split: prod.splits)

lemma windows_append: "windows (s @ t) w = windows s w @ windows t (final_window s w)"
  by (induction s w rule: windows.induct) (simp_all add: Let_def final_window_def)

lemma final_window_append: "final_window (s @ t) w = final_window t (final_window s w)"
  by (simp add: final_window_def)

end
