(* ===== verification/FIR_Blocks.thy ===== *)
theory FIR_Blocks
  imports Polyphase_FIR
begin

text \<open>Each compute pattern of \<open>polyphase_fir\<close> computes four outputs of the filter.\<close>

section \<open>The multiplications\<close>

lemma less_4_cases: "i < 4 \<longleftrightarrow> i = 0 \<or> i = 1 \<or> i = 2 \<or> i = (3 :: nat)"
  by auto

lemma coeff_offset: "i < 4 \<Longrightarrow> lane_offset 0xC840 i = 4 * i"
  unfolding less_4_cases lane_offset_def by auto

lemma lane_terms_zip:
  assumes b: "length b = 16" and t: "length taps = 64" and ptr: "ptr = 0 \<or> ptr = 2" and i: "i < 4"
    and o1: "lane_offset x1 i = s" and o2: "start2 + lane_offset x2 i = s + 4" and s: "s + 8 \<le> 16"
  shows "lane_terms b 0 x1 1 (take 16 (drop (16 * ptr) taps)) 0 0xC840 1 i @
      lane_terms b start2 x2 1 (take 16 (drop (16 * (ptr + 1)) taps)) 0 0xC840 1 i =
    zip (take 8 (drop s b)) (phase_taps taps (2 * ptr + i))" (is "?l = ?r")
proof (rule nth_equalityI)
  show "length ?l = length ?r" using b s by (simp add: lane_terms_def phase_taps_def)
  fix j assume "j < length ?l"
  then have j: "j < 8" by (simp add: lane_terms_def)
  have q: "(2 * ptr + i) div 4 = ptr div 2" "(2 * ptr + i) mod 4 = i" "32 * (ptr div 2) = 16 * ptr"
    using ptr i by auto
  have n: "?r ! j = (b ! (s + j), taps ! (16 * ptr + 16 * (j div 4) + 4 * i + j mod 4))"
    using b s j by (simp add: phase_taps_def q)
  have pt: "16 * ptr + 32 \<le> length taps" using ptr t by auto
  show "?l ! j = ?r ! j"
  proof (cases "j < 4")
    case True
    with i pt have "4 * i + j < 16" "16 * ptr + (4 * i + j) < length taps" by auto
    with True show ?thesis
      unfolding n by (simp add: nth_append lane_terms_def coeff_offset [OF i, simplified] o1 add.assoc)
  next
    case False
    then obtain k where jk: "j = 4 + k" using le_Suc_ex [of 4 j] by auto
    with j have k: "k < 4" "(4 + k) div 4 = 1" "(4 + k) mod 4 = k" by simp_all
    with i pt have lt: "4 * i + k < 16" "16 * ptr + 16 + (4 * i + k) < length taps" by auto
    have "?l ! j = (b ! (s + j), taps ! (16 * ptr + 16 + (4 * i + k)))"
      using k lt by (simp add: jk nth_append lane_terms_def coeff_offset [OF i, simplified] o2 add.assoc add.left_commute [of 16])
    moreover have "16 * ptr + 16 * 1 + 4 * i + k = 16 * ptr + 16 + (4 * i + k)" by simp
    ultimately show ?thesis unfolding n unfolding jk k(2,3) by (simp only:)
  qed
qed

lemma lanes_insideI: "(\<And>i. i < 4 \<Longrightarrow> start + lane_offset offs i + 3 * step < 16) \<Longrightarrow> lanes_inside start offs step"
  by (simp add: lanes_inside_def)

lemma fir_macs_run:
  assumes doc: "aie_documented ops" and core: "rounding core = Positive_inf" "saturation core = Saturate"
    and b: "length b = 16" and t: "length taps = 64" and ptr: "ptr = 0 \<or> ptr = 2"
    and lanes: "\<forall>i < 4. lane_offset x1 i = s i \<and> start2 + lane_offset x2 i = s i + 4 \<and> s i + 8 \<le> 16"
  shows "fir_macs x1 start2 x2 ops core taps ptr (b, io) =
    Some (b, ptr + 2, writeincr (map (\<lambda>i. fir_value taps (2 * ptr + i) (take 8 (drop (s i) b))) [0..<4]) io)"
proof -
  let ?c1 = "take 16 (drop (16 * ptr) taps)" and ?c2 = "take 16 (drop (16 * (ptr + 1)) taps)"
  let ?t1 = "\<lambda>i. lane_terms b 0 x1 1 ?c1 0 0xC840 1 i" and ?t2 = "\<lambda>i. lane_terms b start2 x2 1 ?c2 0 0xC840 1 i"
  have pt: "16 * ptr + 16 \<le> length taps" "16 * (ptr + 1) + 16 \<le> length taps" using ptr t by auto
  have c: "length ?c1 = 16" "length ?c2 = 16" using pt by simp_all
  have off: "lane_offset 0xC840 i = 4 * i" if "i < 4" for i using that by (rule coeff_offset)
  have ins: "lanes_inside 0 x1 1" "lanes_inside start2 x2 1"
    by (rule lanes_insideI, use lanes in fastforce)+
  have insc: "lanes_inside 0 0xC840 1" by (rule lanes_insideI) (simp add: off [simplified])
  define acc where "acc = map (\<lambda>i. rdot (?t1 i)) [0..<4]"
  have m1: "mul4 ops b 0 x1 1 ?c1 0 0xC840 1 = acc"
    unfolding acc_def by (rule documented_mul4 [OF doc b c(1) ins(1) insc])
  have "\<forall>i < 4. acc_within (2 ^ 46) (acc ! i)"
  proof (intro allI impI)
    fix i :: nat assume "i < 4"
    then have "acc ! i = rdot (?t1 i)" by (simp add: acc_def)
    then show "acc_within (2 ^ 46) (acc ! i)"
      using acc_within_mono [OF rdot_bound [of "?t1 i"], of "2 ^ 46"] by (simp add: lane_terms_def)
  qed
  then have m2: "mac4 ops acc b start2 x2 1 ?c2 0 0xC840 1 = map (\<lambda>i. cadd (acc ! i) (rdot (?t2 i))) [0..<4]"
    by (intro documented_mac4 [OF doc _ b c(2) ins(2) insc]) (simp_all add: acc_def)
  have eq: "map (\<lambda>i. cadd (acc ! i) (rdot (?t2 i))) [0..<4] =
      map (\<lambda>i. rdot (zip (take 8 (drop (s i) b)) (phase_taps taps (2 * ptr + i)))) [0..<4]"
  proof (rule map_cong [OF refl])
    fix i assume "i \<in> set [0..<4]"
    then have i: "i < 4" by simp
    have "cadd (acc ! i) (rdot (?t2 i)) = rdot (?t1 i @ ?t2 i)" using i by (simp add: acc_def rdot_append)
    also have "?t1 i @ ?t2 i = zip (take 8 (drop (s i) b)) (phase_taps taps (2 * ptr + i))"
      using lanes [rule_format, OF i] by (intro lane_terms_zip [OF b t ptr i]) simp_all
    finally show "cadd (acc ! i) (rdot (?t2 i)) = rdot (zip (take 8 (drop (s i) b)) (phase_taps taps (2 * ptr + i)))" .
  qed
  have e: "srs ops core (map (\<lambda>i. cadd (acc ! i) (rdot (?t2 i))) [0..<4]) BIT_SHIFT =
      map (\<lambda>i. fir_value taps (2 * ptr + i) (take 8 (drop (s i) b))) [0..<4]"
    unfolding eq documented_srs [OF doc core, THEN conjunct1] by (simp add: fir_value_def)
  show ?thesis
    unfolding fir_macs_def load_coeff_def fst_conv snd_conv if_P [OF pt(1)] if_P [OF pt(2)] Let_def bind.bind_lunit m1 m2 e
    by simp
qed

section \<open>The patterns\<close>

text \<open>What a pattern with the mask \<open>ks\<close> does with four samples: \<open>False\<close> marks the one that repeats its predecessor.\<close>

definition fir_block :: "fir_macro \<Rightarrow> bool list \<Rightarrow> bool" where
  "fir_block M ks \<longleftrightarrow> length ks = 4 \<and> (\<forall>ops core taps b ptr io xs rest.
     aie_documented ops \<longrightarrow> rounding core = Positive_inf \<longrightarrow> saturation core = Saturate \<longrightarrow>
     length taps = 64 \<longrightarrow> ptr = 0 \<or> ptr = 2 \<longrightarrow> length b = 16 \<longrightarrow> length xs = 4 \<longrightarrow> sig_i io = xs @ rest \<longrightarrow>
     (\<exists>b'. M ops core taps (b, ptr, io) = Some (b', ptr + 2, io\<lparr>sig_i := rest,
          sig_o := sig_o io @ map2 (fir_value taps) [2 * ptr..<2 * ptr + 4] (windows (zip ks xs) (take 8 b))\<rparr>) \<and>
        length b' = 16 \<and> take 8 b' = final_window (zip ks xs) (take 8 b)))"

lemma length_16:
  "length b = 16 \<Longrightarrow> \<exists>b0 b1 b2 b3 b4 b5 b6 b7 b8 b9 b10 b11 b12 b13 b14 b15.
     b = [b0, b1, b2, b3, b4, b5, b6, b7, b8, b9, b10, b11, b12, b13, b14, b15]"
  by (simp add: numeral_eq_Suc length_Suc_conv) blast

lemma length_4: "length xs = 4 \<Longrightarrow> \<exists>a b c d. xs = [a, b, c, d]"
  by (simp add: numeral_eq_Suc length_Suc_conv) blast

lemma shift_in_run:
  "aie_documented ops \<Longrightarrow> length b = 16 \<Longrightarrow> sig_i io = x # xs \<Longrightarrow>
    shift_in ops (b, io) = Some (x # butlast b, io\<lparr>sig_i := xs\<rparr>)"
  by (simp add: shift_in_def readincr_def documented_moves(4))

lemma discard_one_run: "sig_i io = x # xs \<Longrightarrow> discard_one (b, io) = Some (b, io\<lparr>sig_i := xs\<rparr>)"
  by (simp add: discard_one_def readincr_def)

lemmas macro_runs = shift_in_run discard_one_run

lemma map_upt_4: "map f [0..<4] = [f 0, f 1, f 2, f (3 :: nat)]" "map2 g [k..<k + 4] [a, b, c, d] = [g k a, g (k + 1) b, g (k + 2) c, g (k + 3) d]"
  by (simp_all add: upt_rec numeral_eq_Suc)

text \<open>The lanes of a pattern: where lane \<open>i\<close> begins in the buffer.\<close>

definition lane_starts :: "nat \<Rightarrow> nat \<Rightarrow> nat \<Rightarrow> nat list \<Rightarrow> bool" where
  "lane_starts x1 start2 x2 ss \<longleftrightarrow>
     (\<forall>i < 4. lane_offset x1 i = ss ! i \<and> start2 + lane_offset x2 i = ss ! i + 4 \<and> ss ! i + 8 \<le> 16)"

lemma lane_starts_patterns:
  "lane_starts 0x0122 2 0x2344 [2, 2, 1, 0]" "lane_starts 0x0112 2 0x2334 [2, 1, 1, 0]"
  "lane_starts 0x0012 2 0x2234 [2, 1, 0, 0]" "lane_starts 0x0123 3 0x1234 [3, 2, 1, 0]"
  "lane_starts 0x0123 4 0x0123 [3, 2, 1, 0]"
  by (simp_all add: lane_starts_def less_4_cases lane_offset_def)

lemmas pattern_macs = lane_starts_patterns [unfolded lane_starts_def, THEN fir_macs_run [rotated 6]]

lemma fir_blockI:
  assumes ks: "length ks = 4"
    and run: "\<And>ops core taps ptr io x0 x1 x2 x3 rest b0 b1 b2 b3 b4 b5 b6 b7 b8 b9 b10 b11 b12 b13 b14 b15.
      aie_documented ops \<Longrightarrow> rounding core = Positive_inf \<Longrightarrow> saturation core = Saturate \<Longrightarrow>
      length taps = 64 \<Longrightarrow> ptr = 0 \<or> ptr = 2 \<Longrightarrow> sig_i io = x0 # x1 # x2 # x3 # rest \<Longrightarrow>
      \<exists>b'. M ops core taps ([b0, b1, b2, b3, b4, b5, b6, b7, b8, b9, b10, b11, b12, b13, b14, b15], ptr, io) =
          Some (b', ptr + 2, io\<lparr>sig_i := rest, sig_o := sig_o io @ map2 (fir_value taps) [2 * ptr..<2 * ptr + 4]
            (windows (zip ks [x0, x1, x2, x3]) [b0, b1, b2, b3, b4, b5, b6, b7])\<rparr>) \<and>
        length b' = 16 \<and> take 8 b' = final_window (zip ks [x0, x1, x2, x3]) [b0, b1, b2, b3, b4, b5, b6, b7]"
  shows "fir_block M ks"
  unfolding fir_block_def
proof (intro conjI allI impI ks)
  fix ops and core :: aie_core and taps :: "int16 list" and ptr :: nat and io :: stream_io and b xs rest :: "cint16 list"
  assume a: "aie_documented ops" "rounding core = Positive_inf" "saturation core = Saturate"
    "length taps = 64" "ptr = 0 \<or> ptr = 2" "length b = 16" "length xs = 4" "sig_i io = xs @ rest"
  obtain x0 x1 x2 x3 where xs: "xs = [x0, x1, x2, x3]" using length_4 [OF a(7)] by blast
  obtain b0 b1 b2 b3 b4 b5 b6 b7 b8 b9 b10 b11 b12 b13 b14 b15 where
    be: "b = [b0, b1, b2, b3, b4, b5, b6, b7, b8, b9, b10, b11, b12, b13, b14, b15]" using length_16 [OF a(6)] by blast
  have "sig_i io = x0 # x1 # x2 # x3 # rest" using a(8) xs by simp
  from run [OF a(1-5) this, of b0 b1 b2 b3 b4 b5 b6 b7 b8 b9 b10 b11 b12 b13 b14 b15]
  show "\<exists>b'. M ops core taps (b, ptr, io) = Some (b', ptr + 2, io\<lparr>sig_i := rest,
          sig_o := sig_o io @ map2 (fir_value taps) [2 * ptr..<2 * ptr + 4] (windows (zip ks xs) (take 8 b))\<rparr>) \<and>
        length b' = 16 \<and> take 8 b' = final_window (zip ks xs) (take 8 b)"
    unfolding xs be by simp
qed

lemmas block_simps = macro_runs pattern_macs map_upt_4 push_window_def final_window_def writeincr_def Let_def

lemma fir_blocks:
  "fir_block REPEATED_D0 [True, False, True, True]"
  "fir_block REPEATED_D1 [True, True, False, True]"
  "fir_block REPEATED_D2 [True, True, True, False]"
  "fir_block HOLDOVER_D0 [False, True, True, True]"
  "fir_block NORMAL_FIR [True, True, True, True]"
  by (rule fir_blockI; simp add: REPEATED_D0_def REPEATED_D1_def REPEATED_D2_def HOLDOVER_D0_def NORMAL_FIR_def block_simps)+

end
