(* ===== verification/FIR_Run.thy ===== *)
theory FIR_Run
  imports FIR_Blocks
begin

text \<open>Whole runs of \<open>polyphase_fir\<close>: the samples of the two filters come and go in turns of four.\<close>

section \<open>The samples of a filter\<close>

definition filter_samples :: "nat \<Rightarrow> 'a list \<Rightarrow> 'a list" where
  "filter_samples f s = concat (map (\<lambda>i. take 4 (drop (8 * i + 4 * f) s)) [0..<length s div 8])"

lemma upt_shift: "[0..<a + n] = [0..<a] @ map (\<lambda>i. i + a) [0..<n]"
  by (induction n) (simp_all add: add.commute)

lemma filter_samples_append:
  assumes "length s = 8 * k" "f < 2"
  shows "filter_samples f (s @ t) = filter_samples f s @ filter_samples f t"
proof -
  have "(8 * k + length t) div 8 = k + length t div 8" by simp
  then have u: "[0..<length (s @ t) div 8] = [0..<k] @ map (\<lambda>i. i + k) [0..<length t div 8]"
    using assms by (simp only: length_append upt_shift)
  have pre: "map (\<lambda>i. take 4 (drop (8 * i + 4 * f) (s @ t))) [0..<k] = map (\<lambda>i. take 4 (drop (8 * i + 4 * f) s)) [0..<k]"
  proof (rule map_cong [OF refl])
    fix i assume "i \<in> set [0..<k]"
    then have "8 * i + 4 * f + 4 \<le> length s" using assms by auto
    then show "take 4 (drop (8 * i + 4 * f) (s @ t)) = take 4 (drop (8 * i + 4 * f) s)" by simp
  qed
  have "drop (8 * (i + k) + 4 * f) (s @ t) = drop (8 * i + 4 * f) t" for i
    using assms by simp
  then show ?thesis
    unfolding filter_samples_def u map_append map_map comp_def pre using assms(1) by simp
qed

lemma filter_samples_16:
  assumes "length a1 = 4" "length b1 = 4" "length a2 = 4" "length b2 = 4"
  shows "filter_samples 0 (a1 @ b1 @ a2 @ b2) = a1 @ a2" "filter_samples (Suc 0) (a1 @ b1 @ a2 @ b2) = b1 @ b2"
  using assms by (simp_all add: filter_samples_def upt_rec numeral_2_eq_2)

lemma length_filter_samples:
  assumes "length s = 8 * k" "f < 2" shows "length (filter_samples f s) = 4 * k"
proof -
  have l: "map (\<lambda>i. length (take 4 (drop (8 * i + 4 * f) s))) [0..<k] = map (\<lambda>i. 4) [0..<k]"
    using assms by (intro map_cong refl) auto
  have k: "length s div 8 = k" using assms by simp
  show ?thesis unfolding filter_samples_def length_concat map_map comp_def k l by (simp add: sum_list_triv)
qed

section \<open>The filter over a whole stream\<close>

definition fresh_at :: "nat \<Rightarrow> nat \<Rightarrow> bool" where
  "fresh_at PATTERN n \<longleftrightarrow> n mod 8 \<noteq> (PATTERN + 1) mod 8"

definition marked :: "nat \<Rightarrow> cint16 list \<Rightarrow> (bool \<times> cint16) list" where
  "marked PATTERN xs = zip (map (fresh_at PATTERN) [0..<length xs]) xs"

definition fir_outputs :: "nat \<Rightarrow> int16 list \<Rightarrow> cint16 list \<Rightarrow> cint16 list \<Rightarrow> cint16 list" where
  "fir_outputs PATTERN taps w xs = map2 (\<lambda>n w. fir_value taps (n mod 8) w) [0..<length xs] (windows (marked PATTERN xs) w)"

lemma marked_append:
  assumes "length xs = 8 * k" shows "marked P (xs @ ys) = marked P xs @ marked P ys"
proof -
  have "map (fresh_at P) (map (\<lambda>i. i + 8 * k) [0..<length ys]) = map (fresh_at P) [0..<length ys]"
    by (simp add: fresh_at_def)
  then show ?thesis using assms by (simp only: marked_def length_append upt_shift map_append) simp
qed

lemma length_marked [simp]: "length (marked P xs) = length xs"
  by (simp add: marked_def)

lemma length_fir_outputs [simp]: "length (fir_outputs P taps w xs) = length xs"
  by (simp add: fir_outputs_def)

lemma fir_outputs_append:
  assumes "length xs = 8 * k"
  shows "fir_outputs P taps w (xs @ ys) = fir_outputs P taps w xs @ fir_outputs P taps (final_window (marked P xs) w) ys"
proof -
  have "zip (map (\<lambda>i. i + 8 * k) [0..<length ys]) v = map (\<lambda>(i, w). (i + 8 * k, w)) (zip [0..<length ys] v)"
    for v :: "cint16 list list" by (simp add: zip_map1)
  then show ?thesis
    using assms by (simp only: fir_outputs_def length_append upt_shift marked_append windows_append)
      (simp add: comp_def case_prod_unfold)
qed

section \<open>One iteration\<close>

lemma pattern_blocks:
  assumes "P < 8"
  shows "\<exists>M1 M2 k1 k2. pattern_macros P = Some (M1, M2) \<and> fir_block M1 k1 \<and> fir_block M2 k2 \<and> length k1 = 4 \<and>
    k1 @ k2 = map (fresh_at P) [0..<8]"
proof -
  have "P = 0 \<or> P = 1 \<or> P = 2 \<or> P = 3 \<or> P = 4 \<or> P = 5 \<or> P = 6 \<or> P = 7" using assms by linarith
  then show ?thesis
    by (elim disjE; simp add: pattern_macros_def fresh_at_def upt_rec) (use fir_blocks in force)+
qed

lemma fir_block_run:
  assumes "fir_block M ks" "aie_documented ops" "rounding core = Positive_inf" "saturation core = Saturate"
    "length taps = 64" "ptr = 0 \<or> ptr = 2" "length b = 16" "length xs = 4" "sig_i io = xs @ rest"
  obtains b' where "M ops core taps (b, ptr, io) = Some (b', ptr + 2, io\<lparr>sig_i := rest,
      sig_o := sig_o io @ map2 (fir_value taps) [2 * ptr..<2 * ptr + 4] (windows (zip ks xs) (take 8 b))\<rparr>)"
    "length b' = 16" "take 8 b' = final_window (zip ks xs) (take 8 b)"
  using assms unfolding fir_block_def by blast

lemma filter_8:
  assumes k: "k1 @ k2 = map (fresh_at P) [0..<8]" "length k1 = 4" and a: "length a1 = 4" "length a2 = 4"
  shows "marked P (a1 @ a2) = zip k1 a1 @ zip k2 a2"
    "fir_outputs P taps w (a1 @ a2) = map2 (fir_value taps) [2 * 0..<2 * 0 + 4] (windows (zip k1 a1) w) @
      map2 (fir_value taps) [2 * 2..<2 * 2 + 4] (windows (zip k2 a2) (final_window (zip k1 a1) w))"
proof -
  show m: "marked P (a1 @ a2) = zip k1 a1 @ zip k2 a2"
    using k a by (simp add: marked_def flip: k(1))
  have k2: "length k2 = 4" using arg_cong [OF k(1), of length] k(2) by simp
  have v: "map2 (\<lambda>n w. fir_value taps (n mod 8) w) [0..<8] v = map2 (fir_value taps) [0..<8] v" for v
    by (rule map_cong [OF refl]) (auto dest!: set_zip_leftD)
  have u: "[0..<8] = [0..<4] @ [4..<8 :: nat]" by (simp add: upt_rec)
  have l: "length [0..<4] = length (windows (zip k1 a1) w)" using a k by simp
  have "fir_outputs P taps w (a1 @ a2) = map2 (fir_value taps) ([0..<4] @ [4..<8])
      (windows (zip k1 a1) w @ windows (zip k2 a2) (final_window (zip k1 a1) w))"
    unfolding fir_outputs_def m windows_append u [symmetric] v [symmetric] using a by simp
  then show "fir_outputs P taps w (a1 @ a2) = map2 (fir_value taps) [2 * 0..<2 * 0 + 4] (windows (zip k1 a1) w) @
      map2 (fir_value taps) [2 * 2..<2 * 2 + 4] (windows (zip k2 a2) (final_window (zip k1 a1) w))"
    unfolding zip_append [OF l] map_append by simp
qed

text \<open>The windows of a filter after the samples of the stream \<open>s\<close>, and its outputs for them.\<close>

definition window_after :: "nat \<Rightarrow> nat \<Rightarrow> cint16 list \<Rightarrow> cint16 list \<Rightarrow> cint16 list" where
  "window_after PATTERN f w s = final_window (marked PATTERN (filter_samples f s)) w"

definition filter_result :: "nat \<Rightarrow> nat \<Rightarrow> int16 list \<Rightarrow> cint16 list \<Rightarrow> cint16 list \<Rightarrow> cint16 list" where
  "filter_result PATTERN f taps w s = fir_outputs PATTERN taps w (filter_samples f s)"

lemma filter_result_append:
  assumes "length s = 16 * k" "f < 2"
  shows "filter_result P f taps w (s @ t) = filter_result P f taps w s @ filter_result P f taps (window_after P f w s) t"
    "window_after P f w (s @ t) = window_after P f (window_after P f w s) t"
proof -
  have s: "length s = 8 * (2 * k)" using assms by simp
  have "length (filter_samples f s) = 8 * k" using length_filter_samples [OF s assms(2)] by simp
  note m = marked_append [OF this] fir_outputs_append [OF this]
  show "filter_result P f taps w (s @ t) = filter_result P f taps w s @ filter_result P f taps (window_after P f w s) t"
    "window_after P f w (s @ t) = window_after P f (window_after P f w s) t"
    by (simp_all add: filter_result_def window_after_def filter_samples_append [OF s assms(2)] m final_window_append)
qed

lemma fir_iteration_run:
  assumes P: "P < 8" and doc: "aie_documented ops" and core: "rounding core = Positive_inf" "saturation core = Saturate"
    and t: "length (taps0 fir) = 64" "length (taps1 fir) = 64" and b: "length b0 = 16" "length b1 = 16"
    and s: "length s = 16" "sig_i io = s @ rest"
  obtains b0' b1' out where
    "fir_iteration P ops core fir (b0, 0, b1, 0, io) = Some (b0', 0, b1', 0, io\<lparr>sig_i := rest, sig_o := sig_o io @ out\<rparr>)"
    "length b0' = 16" "length b1' = 16" "length out = 16"
    "filter_samples 0 out = filter_result P 0 (taps0 fir) (take 8 b0) s"
    "filter_samples (Suc 0) out = filter_result P (Suc 0) (taps1 fir) (take 8 b1) s"
    "take 8 b0' = window_after P 0 (take 8 b0) s" "take 8 b1' = window_after P (Suc 0) (take 8 b1) s"
proof -
  obtain M1 M2 k1 k2 where M: "pattern_macros P = Some (M1, M2)" "fir_block M1 k1" "fir_block M2 k2"
    and k: "length k1 = 4" "k1 @ k2 = map (fresh_at P) [0..<8]" using pattern_blocks [OF P] by blast
  define a1 c1 a2 c2 where "a1 = take 4 s" and "c1 = take 4 (drop 4 s)" and "a2 = take 4 (drop 8 s)" and "c2 = drop 12 s"
  have "drop 4 (drop 4 s) = drop 8 s" "drop 4 (drop 8 s) = drop 12 s" by simp_all
  then have se: "s = a1 @ c1 @ a2 @ c2" unfolding a1_def c1_def a2_def c2_def by (metis append_take_drop_id)
  have len: "length a1 = 4" "length c1 = 4" "length a2 = 4" "length c2 = 4"
    using s(1) by (simp_all add: a1_def c1_def a2_def c2_def)
  note block = fir_block_run [OF _ doc core]
  obtain b0a where A1: "M1 ops core (taps0 fir) (b0, 0, io) = Some (b0a, 0 + 2, io\<lparr>sig_i := c1 @ a2 @ c2 @ rest,
      sig_o := sig_o io @ map2 (fir_value (taps0 fir)) [2 * 0..<2 * 0 + 4] (windows (zip k1 a1) (take 8 b0))\<rparr>)"
    "length b0a = 16" "take 8 b0a = final_window (zip k1 a1) (take 8 b0)"
    using block [OF M(2) t(1) _ b(1) len(1), of 0 io "c1 @ a2 @ c2 @ rest"] s(2) unfolding se by auto
  let ?yA1 = "map2 (fir_value (taps0 fir)) [2 * 0..<2 * 0 + 4] (windows (zip k1 a1) (take 8 b0))"
  let ?io1 = "io\<lparr>sig_i := c1 @ a2 @ c2 @ rest, sig_o := sig_o io @ ?yA1\<rparr>"
  let ?yC1 = "map2 (fir_value (taps1 fir)) [2 * 0..<2 * 0 + 4] (windows (zip k1 c1) (take 8 b1))"
  obtain b1a where C1: "M1 ops core (taps1 fir) (b1, 0, ?io1) = Some (b1a, 0 + 2, ?io1\<lparr>sig_i := a2 @ c2 @ rest,
      sig_o := sig_o ?io1 @ ?yC1\<rparr>)" "length b1a = 16" "take 8 b1a = final_window (zip k1 c1) (take 8 b1)"
    using block [OF M(2) t(2) _ b(2) len(2), of 0 ?io1 "a2 @ c2 @ rest"] by auto
  let ?io2 = "?io1\<lparr>sig_i := a2 @ c2 @ rest, sig_o := sig_o ?io1 @ ?yC1\<rparr>"
  let ?yA2 = "map2 (fir_value (taps0 fir)) [2 * 2..<2 * 2 + 4] (windows (zip k2 a2) (take 8 b0a))"
  obtain b0b where A2: "M2 ops core (taps0 fir) (b0a, 2, ?io2) = Some (b0b, 2 + 2, ?io2\<lparr>sig_i := c2 @ rest,
      sig_o := sig_o ?io2 @ ?yA2\<rparr>)" "length b0b = 16" "take 8 b0b = final_window (zip k2 a2) (take 8 b0a)"
    using block [OF M(3) t(1) _ A1(2) len(3), of 2 ?io2 "c2 @ rest"] by auto
  let ?io3 = "?io2\<lparr>sig_i := c2 @ rest, sig_o := sig_o ?io2 @ ?yA2\<rparr>"
  let ?yC2 = "map2 (fir_value (taps1 fir)) [2 * 2..<2 * 2 + 4] (windows (zip k2 c2) (take 8 b1a))"
  obtain b1b where C2: "M2 ops core (taps1 fir) (b1a, 2, ?io3) = Some (b1b, 2 + 2, ?io3\<lparr>sig_i := rest,
      sig_o := sig_o ?io3 @ ?yC2\<rparr>)" "length b1b = 16" "take 8 b1b = final_window (zip k2 c2) (take 8 b1a)"
    using block [OF M(3) t(2) _ C1(2) len(4), of 2 ?io3 rest] by auto
  define out where "out = ?yA1 @ ?yC1 @ ?yA2 @ ?yC2"
  have k2: "length k2 = 4" using arg_cong [OF k(2), of length] k(1) by simp
  have ol: "length ?yA1 = 4" "length ?yC1 = 4" "length ?yA2 = 4" "length ?yC2 = 4" using len k k2 by simp_all
  note fA = filter_8 [OF k(2,1) len(1,3)] and fC = filter_8 [OF k(2,1) len(2,4)]
  show thesis
  proof
    show "fir_iteration P ops core fir (b0, 0, b1, 0, io) =
        Some (b0b, 0, b1b, 0, io\<lparr>sig_i := rest, sig_o := sig_o io @ out\<rparr>)"
      using A1(1) C1(1) A2(1) C2(1) M(1)
      by (simp add: fir_iteration_def both_filters_def RESET_COEFF_def out_def numeral_2_eq_2)
    show "length b0b = 16" "length b1b = 16" by fact+
    show "length out = 16" using ol by (simp add: out_def)
    show "filter_samples 0 out = filter_result P 0 (taps0 fir) (take 8 b0) s"
      "filter_samples (Suc 0) out = filter_result P (Suc 0) (taps1 fir) (take 8 b1) s"
      unfolding out_def filter_samples_16 [OF ol] unfolding filter_result_def se filter_samples_16 [OF len] fA fC A1(3) C1(3)
      by (rule refl)+
    show "take 8 b0b = window_after P 0 (take 8 b0) s" "take 8 b1b = window_after P (Suc 0) (take 8 b1) s"
      unfolding window_after_def se filter_samples_16 [OF len] fA fC A2(3) C2(3) A1(3) C1(3) by (simp_all add: final_window_append)
  qed
qed

section \<open>Runs\<close>

lemma fir_loop_run:
  assumes P: "P < 8" and doc: "aie_documented ops" and core: "rounding core = Positive_inf" "saturation core = Saturate"
    and t: "length (taps0 fir) = 64" "length (taps1 fir) = 64" and b: "length b0 = 16" "length b1 = 16"
    and s: "length s = 16 * n" "sig_i io = s @ rest"
  shows "\<exists>b0' b1' out. for_loop i n (\<lambda>ii s. fir_iteration P ops core fir s) (b0, 0, b1, 0, io) =
      Some (b0', 0, b1', 0, io\<lparr>sig_i := rest, sig_o := sig_o io @ out\<rparr>) \<and>
    length b0' = 16 \<and> length b1' = 16 \<and> length out = 16 * n \<and>
    filter_samples 0 out = filter_result P 0 (taps0 fir) (take 8 b0) s \<and>
    filter_samples (Suc 0) out = filter_result P (Suc 0) (taps1 fir) (take 8 b1) s \<and>
    take 8 b0' = window_after P 0 (take 8 b0) s \<and> take 8 b1' = window_after P (Suc 0) (take 8 b1) s"
  using b s
proof (induction n arbitrary: i b0 b1 s io)
  case 0
  then show ?case
    by (intro exI [of _ b0] exI [of _ b1] exI [of _ "[]"])
      (simp add: filter_samples_def filter_result_def fir_outputs_def window_after_def marked_def final_window_def)
next
  case (Suc n)
  define h u where "h = take 16 s" and "u = drop 16 s"
  have se: "s = h @ u" and hl: "length h = 16" "length h = 16 * 1" and ul: "length u = 16 * n"
    using Suc.prems(3) by (simp_all add: h_def u_def)
  have io: "sig_i io = h @ u @ rest" using Suc.prems(4) se by simp
  obtain b0a b1a o1 where 1:
    "fir_iteration P ops core fir (b0, 0, b1, 0, io) = Some (b0a, 0, b1a, 0, io\<lparr>sig_i := u @ rest, sig_o := sig_o io @ o1\<rparr>)"
    "length b0a = 16" "length b1a = 16" "length o1 = 16"
    "filter_samples 0 o1 = filter_result P 0 (taps0 fir) (take 8 b0) h"
    "filter_samples (Suc 0) o1 = filter_result P (Suc 0) (taps1 fir) (take 8 b1) h"
    "take 8 b0a = window_after P 0 (take 8 b0) h" "take 8 b1a = window_after P (Suc 0) (take 8 b1) h"
    by (rule fir_iteration_run [OF P doc core t Suc.prems(1,2) hl(1) io])
  let ?io = "io\<lparr>sig_i := u @ rest, sig_o := sig_o io @ o1\<rparr>"
  obtain b0' b1' out where 2:
    "for_loop (Suc i) n (\<lambda>ii s. fir_iteration P ops core fir s) (b0a, 0, b1a, 0, ?io) =
      Some (b0', 0, b1', 0, ?io\<lparr>sig_i := rest, sig_o := sig_o ?io @ out\<rparr>)"
    "length b0' = 16" "length b1' = 16" "length out = 16 * n"
    "filter_samples 0 out = filter_result P 0 (taps0 fir) (take 8 b0a) u"
    "filter_samples (Suc 0) out = filter_result P (Suc 0) (taps1 fir) (take 8 b1a) u"
    "take 8 b0' = window_after P 0 (take 8 b0a) u" "take 8 b1' = window_after P (Suc 0) (take 8 b1a) u"
    using Suc.IH [OF 1(2,3) ul, of ?io "Suc i"] by auto
  have o8: "length o1 = 8 * 2" using 1(4) by simp
  have f: "(0 :: nat) < 2" "Suc 0 < 2" by simp_all
  show ?case
  proof (intro exI conjI)
    show "for_loop i (Suc n) (\<lambda>ii s. fir_iteration P ops core fir s) (b0, 0, b1, 0, io) =
        Some (b0', 0, b1', 0, io\<lparr>sig_i := rest, sig_o := sig_o io @ o1 @ out\<rparr>)"
      using 1(1) 2(1) by simp
    show "length b0' = 16" "length b1' = 16" by fact+
    show "length (o1 @ out) = 16 * Suc n" using 1(4) 2(4) by simp
    show "filter_samples 0 (o1 @ out) = filter_result P 0 (taps0 fir) (take 8 b0) s"
      unfolding se filter_samples_append [OF o8 f(1)] filter_result_append(1) [OF hl(2) f(1)] 1(5,7) [symmetric] 2(5) ..
    show "filter_samples (Suc 0) (o1 @ out) = filter_result P (Suc 0) (taps1 fir) (take 8 b1) s"
      unfolding se filter_samples_append [OF o8 f(2)] filter_result_append(1) [OF hl(2) f(2)] 1(6,8) [symmetric] 2(6) ..
    show "take 8 b0' = window_after P 0 (take 8 b0) s" "take 8 b1' = window_after P (Suc 0) (take 8 b1) s"
      unfolding se filter_result_append(2) [OF hl(2) f(1)] filter_result_append(2) [OF hl(2) f(2)] 1(7,8) [symmetric]
      by (fact 2(7) 2(8))+
  qed
qed

lemma run_i_run:
  assumes P: "P < 8" and doc: "aie_documented ops" and core: "rounding core = Positive_inf" "saturation core = Saturate"
    and t: "length (taps0 fir) = 64" "length (taps1 fir) = 64" and w: "length (state0 fir) = 8" "length (state1 fir) = 8"
    and s: "length s = 16 * (NSAMP div 16)" "sig_i io = s @ rest"
  shows "\<exists>out. run_i P NSAMP ops core fir io =
      Some (fir\<lparr>state0 := window_after P 0 (state0 fir) s, state1 := window_after P (Suc 0) (state1 fir) s\<rparr>,
        io\<lparr>sig_i := rest, sig_o := sig_o io @ out\<rparr>) \<and> length out = length s \<and>
    filter_samples 0 out = filter_result P 0 (taps0 fir) (state0 fir) s \<and>
    filter_samples (Suc 0) out = filter_result P (Suc 0) (taps1 fir) (state1 fir) s"
proof -
  let ?b0 = "upd_w ops (null_v16cint16 ops) 0 (state0 fir)" and ?b1 = "upd_w ops (null_v16cint16 ops) 0 (state1 fir)"
  have b: "length ?b0 = 16" "length ?b1 = 16" "take 8 ?b0 = state0 fir" "take 8 ?b1 = state1 fir"
    using w by (simp_all add: documented_moves [OF doc])
  obtain b0' b1' out where l: "for_loop 0 (NSAMP div 16) (\<lambda>ii s. fir_iteration P ops core fir s) (?b0, 0, ?b1, 0, io) =
      Some (b0', 0, b1', 0, io\<lparr>sig_i := rest, sig_o := sig_o io @ out\<rparr>)"
    "length b0' = 16" "length b1' = 16" "length out = 16 * (NSAMP div 16)"
    "filter_samples 0 out = filter_result P 0 (taps0 fir) (state0 fir) s"
    "filter_samples (Suc 0) out = filter_result P (Suc 0) (taps1 fir) (state1 fir) s"
    "take 8 b0' = window_after P 0 (state0 fir) s" "take 8 b1' = window_after P (Suc 0) (state1 fir) s"
    using fir_loop_run [OF P doc core t b(1,2) s, of 0] unfolding b(3,4) by blast
  have "run_i P NSAMP ops core fir io = Some (fir\<lparr>state0 := take 8 b0', state1 := take 8 b1'\<rparr>,
      io\<lparr>sig_i := rest, sig_o := sig_o io @ out\<rparr>)"
    using l(1-3) by (simp add: run_i_def documented_moves(3) [OF doc])
  with l(4-8) s(1) show ?thesis by auto
qed

text \<open>The kernel is invoked once for every iteration of the graph.\<close>

fun run_kernel ::
  "nat \<Rightarrow> nat \<Rightarrow> nat \<Rightarrow> aie_ops \<Rightarrow> aie_core \<Rightarrow> polyphase_fir \<Rightarrow> stream_io \<Rightarrow> (polyphase_fir \<times> stream_io) option" where
  "run_kernel 0 PATTERN NSAMP ops core fir io = Some (fir, io)"
| "run_kernel (Suc k) PATTERN NSAMP ops core fir io = do {
     (fir, io) \<leftarrow> run_i PATTERN NSAMP ops core fir io;
     run_kernel k PATTERN NSAMP ops core fir io }"

lemma run_kernel_run:
  assumes P: "P < 8" and doc: "aie_documented ops" and core: "rounding core = Positive_inf" "saturation core = Saturate"
    and N: "16 dvd NSAMP"
  shows "length (taps0 fir) = 64 \<Longrightarrow> length (taps1 fir) = 64 \<Longrightarrow> length (state0 fir) = 8 \<Longrightarrow> length (state1 fir) = 8 \<Longrightarrow>
    length s = k * NSAMP \<Longrightarrow> sig_i io = s @ rest \<Longrightarrow>
    \<exists>fir' out. run_kernel k P NSAMP ops core fir io = Some (fir', io\<lparr>sig_i := rest, sig_o := sig_o io @ out\<rparr>) \<and>
      length out = length s \<and>
      filter_samples 0 out = filter_result P 0 (taps0 fir) (state0 fir) s \<and>
      filter_samples (Suc 0) out = filter_result P (Suc 0) (taps1 fir) (state1 fir) s"
proof (induction k arbitrary: fir s io)
  case 0
  then show ?case
    by (intro exI [of _ fir] exI [of _ "[]"]) (simp add: filter_samples_def filter_result_def fir_outputs_def)
next
  case (Suc k)
  define h u where "h = take NSAMP s" and "u = drop NSAMP s"
  have N16: "16 * (NSAMP div 16) = NSAMP" using N by simp
  have se: "s = h @ u" and hl: "length h = 16 * (NSAMP div 16)" and ul: "length u = k * NSAMP"
    using Suc.prems(5) N by (simp_all add: h_def u_def)
  have io: "sig_i io = h @ u @ rest" using Suc.prems(6) se by simp
  let ?fir = "fir\<lparr>state0 := window_after P 0 (state0 fir) h, state1 := window_after P (Suc 0) (state1 fir) h\<rparr>"
  obtain o1 where 1: "run_i P NSAMP ops core fir io = Some (?fir, io\<lparr>sig_i := u @ rest, sig_o := sig_o io @ o1\<rparr>)"
    "length o1 = length h" "filter_samples 0 o1 = filter_result P 0 (taps0 fir) (state0 fir) h"
    "filter_samples (Suc 0) o1 = filter_result P (Suc 0) (taps1 fir) (state1 fir) h"
    using run_i_run [OF P doc core Suc.prems(1-4) hl io] by auto
  let ?io = "io\<lparr>sig_i := u @ rest, sig_o := sig_o io @ o1\<rparr>"
  have w8: "length (state0 fir) = Suc 7" "length (state1 fir) = Suc 7" using Suc.prems by simp_all
  have "length (state0 ?fir) = 8" "length (state1 ?fir) = 8"
    using w8 [THEN length_final_window] by (simp_all add: window_after_def)
  then obtain fir' out where 2: "run_kernel k P NSAMP ops core ?fir ?io = Some (fir', ?io\<lparr>sig_i := rest, sig_o := sig_o ?io @ out\<rparr>)"
    "length out = length u" "filter_samples 0 out = filter_result P 0 (taps0 fir) (state0 ?fir) u"
    "filter_samples (Suc 0) out = filter_result P (Suc 0) (taps1 fir) (state1 ?fir) u"
    using Suc.IH [of ?fir u ?io] Suc.prems ul by auto
  have o8: "length o1 = 8 * (2 * (NSAMP div 16))" using 1(2) hl by simp
  have f: "(0 :: nat) < 2" "Suc 0 < 2" by simp_all
  show ?case
  proof (intro exI conjI)
    show "run_kernel (Suc k) P NSAMP ops core fir io = Some (fir', io\<lparr>sig_i := rest, sig_o := sig_o io @ o1 @ out\<rparr>)"
      using 1(1) 2(1) by simp
    show "length (o1 @ out) = length s" using 1(2) 2(2) by (simp add: se)
    show "filter_samples 0 (o1 @ out) = filter_result P 0 (taps0 fir) (state0 fir) s"
      unfolding se filter_samples_append [OF o8 f(1)] filter_result_append(1) [OF hl f(1)] 1(3) 2(3) by simp
    show "filter_samples (Suc 0) (o1 @ out) = filter_result P (Suc 0) (taps1 fir) (state1 fir) s"
      unfolding se filter_samples_append [OF o8 f(2)] filter_result_append(1) [OF hl f(2)] 1(4) 2(4) by simp
  qed
qed

end
