(* ===== verification/Filterbank_Taps.thy ===== *)
theory Filterbank_Taps
  imports Polyphase_FIR
begin

text \<open>
  The tables of \<^verbatim>\<open>m16_ssr8_filterbank_taps_init.h\<close>: for each tile the taps of its two filters, as the kernel
  reads them. A line holds the first or the last four taps of four phases.
\<close>

section \<open>The tables\<close>

definition tile0_tapsA :: "int16 list" where
  "tile0_tapsA = [
     0, 2, -4, 6,  -13, 54, -178, 1985,  -20, 88, -287, 1822,  -22, 100, -326, 1570,
     2042, 6, -4, 2,  259, -80, 23, -8,  569, -166, 49, -9,  911, -248, 74, -14,
     -19, 93, -307, 1256,  -14, 74, -248, 911,  -9, 49, -166, 569,  -8, 23, -80, 259,
     1256, -307, 93, -19,  1570, -326, 100, -22,  1822, -287, 88, -20,  1985, -178, 54, -13]"

definition tile0_tapsB :: "int16 list" where
  "tile0_tapsB = [
     6, 12, -40, 124,  -6, 28, -95, 2027,  -17, 74, -241, 1916,  -22, 97, -314, 1706,
     2027, -95, 28, -6,  124, -40, 12, 6,  408, -123, 36, -8,  737, -209, 62, -12,
     -21, 99, -322, 1419,  -17, 85, -281, 1085,  -12, 62, -209, 737,  -8, 36, -123, 408,
     1085, -281, 85, -17,  1419, -322, 99, -21,  1706, -314, 97, -22,  1916, -241, 74, -17]"

definition tile1_tapsA :: "int16 list" where
  "tile1_tapsA = [
     -8, 23, -80, 259,  0, 2, -4, 6,  -13, 54, -178, 1985,  -20, 88, -287, 1822,
     1985, -178, 54, -13,  2042, 6, -4, 2,  259, -80, 23, -8,  569, -166, 49, -9,
     -22, 100, -326, 1570,  -19, 93, -307, 1256,  -14, 74, -248, 911,  -9, 49, -166, 569,
     911, -248, 74, -14,  1256, -307, 93, -19,  1570, -326, 100, -22,  1822, -287, 88, -20]"

definition tile1_tapsB :: "int16 list" where
  "tile1_tapsB = [
     -8, 36, -123, 408,  6, 12, -40, 124,  -6, 28, -95, 2027,  -17, 74, -241, 1916,
     1916, -241, 74, -17,  2027, -95, 28, -6,  124, -40, 12, 6,  408, -123, 36, -8,
     -22, 97, -314, 1706,  -21, 99, -322, 1419,  -17, 85, -281, 1085,  -12, 62, -209, 737,
     737, -209, 62, -12,  1085, -281, 85, -17,  1419, -322, 99, -21,  1706, -314, 97, -22]"

definition tile2_tapsA :: "int16 list" where
  "tile2_tapsA = [
     -9, 49, -166, 569,  -8, 23, -80, 259,  0, 2, -4, 6,  -13, 54, -178, 1985,
     1822, -287, 88, -20,  1985, -178, 54, -13,  2042, 6, -4, 2,  259, -80, 23, -8,
     -20, 88, -287, 1822,  -22, 100, -326, 1570,  -19, 93, -307, 1256,  -14, 74, -248, 911,
     569, -166, 49, -9,  911, -248, 74, -14,  1256, -307, 93, -19,  1570, -326, 100, -22]"

definition tile2_tapsB :: "int16 list" where
  "tile2_tapsB = [
     -12, 62, -209, 737,  -8, 36, -123, 408,  6, 12, -40, 124,  -6, 28, -95, 2027,
     1706, -314, 97, -22,  1916, -241, 74, -17,  2027, -95, 28, -6,  124, -40, 12, 6,
     -17, 74, -241, 1916,  -22, 97, -314, 1706,  -21, 99, -322, 1419,  -17, 85, -281, 1085,
     408, -123, 36, -8,  737, -209, 62, -12,  1085, -281, 85, -17,  1419, -322, 99, -21]"

definition tile3_tapsA :: "int16 list" where
  "tile3_tapsA = [
     -14, 74, -248, 911,  -9, 49, -166, 569,  -8, 23, -80, 259,  0, 2, -4, 6,
     1570, -326, 100, -22,  1822, -287, 88, -20,  1985, -178, 54, -13,  2042, 6, -4, 2,
     -13, 54, -178, 1985,  -20, 88, -287, 1822,  -22, 100, -326, 1570,  -19, 93, -307, 1256,
     259, -80, 23, -8,  569, -166, 49, -9,  911, -248, 74, -14,  1256, -307, 93, -19]"

definition tile3_tapsB :: "int16 list" where
  "tile3_tapsB = [
     -17, 85, -281, 1085,  -12, 62, -209, 737,  -8, 36, -123, 408,  6, 12, -40, 124,
     1419, -322, 99, -21,  1706, -314, 97, -22,  1916, -241, 74, -17,  2027, -95, 28, -6,
     -6, 28, -95, 2027,  -17, 74, -241, 1916,  -22, 97, -314, 1706,  -21, 99, -322, 1419,
     124, -40, 12, 6,  408, -123, 36, -8,  737, -209, 62, -12,  1085, -281, 85, -17]"

definition tile4_tapsA :: "int16 list" where
  "tile4_tapsA = [
     -19, 93, -307, 1256,  -14, 74, -248, 911,  -9, 49, -166, 569,  -8, 23, -80, 259,
     1256, -307, 93, -19,  1570, -326, 100, -22,  1822, -287, 88, -20,  1985, -178, 54, -13,
     0, 2, -4, 6,  -13, 54, -178, 1985,  -20, 88, -287, 1822,  -22, 100, -326, 1570,
     2042, 6, -4, 2,  259, -80, 23, -8,  569, -166, 49, -9,  911, -248, 74, -14]"

definition tile4_tapsB :: "int16 list" where
  "tile4_tapsB = [
     -21, 99, -322, 1419,  -17, 85, -281, 1085,  -12, 62, -209, 737,  -8, 36, -123, 408,
     1085, -281, 85, -17,  1419, -322, 99, -21,  1706, -314, 97, -22,  1916, -241, 74, -17,
     6, 12, -40, 124,  -6, 28, -95, 2027,  -17, 74, -241, 1916,  -22, 97, -314, 1706,
     2027, -95, 28, -6,  124, -40, 12, 6,  408, -123, 36, -8,  737, -209, 62, -12]"

definition tile5_tapsA :: "int16 list" where
  "tile5_tapsA = [
     -22, 100, -326, 1570,  -19, 93, -307, 1256,  -14, 74, -248, 911,  -9, 49, -166, 569,
     911, -248, 74, -14,  1256, -307, 93, -19,  1570, -326, 100, -22,  1822, -287, 88, -20,
     -8, 23, -80, 259,  0, 2, -4, 6,  -13, 54, -178, 1985,  -20, 88, -287, 1822,
     1985, -178, 54, -13,  2042, 6, -4, 2,  259, -80, 23, -8,  569, -166, 49, -9]"

definition tile5_tapsB :: "int16 list" where
  "tile5_tapsB = [
     -22, 97, -314, 1706,  -21, 99, -322, 1419,  -17, 85, -281, 1085,  -12, 62, -209, 737,
     737, -209, 62, -12,  1085, -281, 85, -17,  1419, -322, 99, -21,  1706, -314, 97, -22,
     -8, 36, -123, 408,  6, 12, -40, 124,  -6, 28, -95, 2027,  -17, 74, -241, 1916,
     1916, -241, 74, -17,  2027, -95, 28, -6,  124, -40, 12, 6,  408, -123, 36, -8]"

definition tile6_tapsA :: "int16 list" where
  "tile6_tapsA = [
     -20, 88, -287, 1822,  -22, 100, -326, 1570,  -19, 93, -307, 1256,  -14, 74, -248, 911,
     569, -166, 49, -9,  911, -248, 74, -14,  1256, -307, 93, -19,  1570, -326, 100, -22,
     -9, 49, -166, 569,  -8, 23, -80, 259,  0, 2, -4, 6,  -13, 54, -178, 1985,
     1822, -287, 88, -20,  1985, -178, 54, -13,  2042, 6, -4, 2,  259, -80, 23, -8]"

definition tile6_tapsB :: "int16 list" where
  "tile6_tapsB = [
     -17, 74, -241, 1916,  -22, 97, -314, 1706,  -21, 99, -322, 1419,  -17, 85, -281, 1085,
     408, -123, 36, -8,  737, -209, 62, -12,  1085, -281, 85, -17,  1419, -322, 99, -21,
     -12, 62, -209, 737,  -8, 36, -123, 408,  6, 12, -40, 124,  -6, 28, -95, 2027,
     1706, -314, 97, -22,  1916, -241, 74, -17,  2027, -95, 28, -6,  124, -40, 12, 6]"

definition tile7_tapsA :: "int16 list" where
  "tile7_tapsA = [
     -13, 54, -178, 1985,  -20, 88, -287, 1822,  -22, 100, -326, 1570,  -19, 93, -307, 1256,
     259, -80, 23, -8,  569, -166, 49, -9,  911, -248, 74, -14,  1256, -307, 93, -19,
     -14, 74, -248, 911,  -9, 49, -166, 569,  -8, 23, -80, 259,  0, 2, -4, 6,
     1570, -326, 100, -22,  1822, -287, 88, -20,  1985, -178, 54, -13,  2042, 6, -4, 2]"

definition tile7_tapsB :: "int16 list" where
  "tile7_tapsB = [
     -6, 28, -95, 2027,  -17, 74, -241, 1916,  -22, 97, -314, 1706,  -21, 99, -322, 1419,
     124, -40, 12, 6,  408, -123, 36, -8,  737, -209, 62, -12,  1085, -281, 85, -17,
     -17, 85, -281, 1085,  -12, 62, -209, 737,  -8, 36, -123, 408,  6, 12, -40, 124,
     1419, -322, 99, -21,  1706, -314, 97, -22,  1916, -241, 74, -17,  2027, -95, 28, -6]"

definition tile_taps :: "nat \<Rightarrow> nat \<Rightarrow> int16 list" where
  "tile_taps t f = [tile0_tapsA, tile0_tapsB, tile1_tapsA, tile1_tapsB, tile2_tapsA, tile2_tapsB, tile3_tapsA, tile3_tapsB,
     tile4_tapsA, tile4_tapsB, tile5_tapsA, tile5_tapsB, tile6_tapsA, tile6_tapsB, tile7_tapsA, tile7_tapsB] ! (2 * t + f)"

section \<open>The prototype filter\<close>

text \<open>
  The bank is the polyphase decomposition of one low-pass filter: branch \<open>r\<close> of 16 has the taps
  \<open>r\<close>, \<open>r + 16\<close>, ..., \<open>r + 112\<close> of it. The first tile alone has all branches: its first filter the even ones, its second
  the odd ones, downwards in steps of two.
\<close>

definition prototype :: "nat \<Rightarrow> int16" where
  "prototype n = phase_taps (if n mod 2 = 0 then tile0_tapsA else tile0_tapsB) ((16 - (n mod 16 - n mod 2)) div 2 mod 8) ! (n div 16)"

definition branch :: "nat \<Rightarrow> int16 list" where
  "branch r = map (\<lambda>j. prototype (r mod 16 + 16 * j)) [0..<8]"

lemma phases_64:
  "map (phase_taps
     [a0, a1, a2, a3, a4, a5, a6, a7, a8, a9, a10, a11, a12, a13, a14, a15,
      a16, a17, a18, a19, a20, a21, a22, a23, a24, a25, a26, a27, a28, a29, a30, a31,
      a32, a33, a34, a35, a36, a37, a38, a39, a40, a41, a42, a43, a44, a45, a46, a47,
      a48, a49, a50, a51, a52, a53, a54, a55, a56, a57, a58, a59, a60, a61, a62, a63]) [0..<8] =
   [[a0, a1, a2, a3, a16, a17, a18, a19],
    [a4, a5, a6, a7, a20, a21, a22, a23],
    [a8, a9, a10, a11, a24, a25, a26, a27],
    [a12, a13, a14, a15, a28, a29, a30, a31],
    [a32, a33, a34, a35, a48, a49, a50, a51],
    [a36, a37, a38, a39, a52, a53, a54, a55],
    [a40, a41, a42, a43, a56, a57, a58, a59],
    [a44, a45, a46, a47, a60, a61, a62, a63]]"
  by (simp add: phase_taps_def upt_rec)

lemma prototype_rows:
  "map (phase_taps tile0_tapsA) [0..<8] = [[0, 2, -4, 6, 2042, 6, -4, 2],
     [-13, 54, -178, 1985, 259, -80, 23, -8],
     [-20, 88, -287, 1822, 569, -166, 49, -9],
     [-22, 100, -326, 1570, 911, -248, 74, -14],
     [-19, 93, -307, 1256, 1256, -307, 93, -19],
     [-14, 74, -248, 911, 1570, -326, 100, -22],
     [-9, 49, -166, 569, 1822, -287, 88, -20],
     [-8, 23, -80, 259, 1985, -178, 54, -13]]"
  "map (phase_taps tile0_tapsB) [0..<8] = [[6, 12, -40, 124, 2027, -95, 28, -6],
     [-6, 28, -95, 2027, 124, -40, 12, 6],
     [-17, 74, -241, 1916, 408, -123, 36, -8],
     [-22, 97, -314, 1706, 737, -209, 62, -12],
     [-21, 99, -322, 1419, 1085, -281, 85, -17],
     [-17, 85, -281, 1085, 1419, -322, 99, -21],
     [-12, 62, -209, 737, 1706, -314, 97, -22],
     [-8, 36, -123, 408, 1916, -241, 74, -17]]"
  unfolding tile0_tapsA_def tile0_tapsB_def by (rule phases_64)+

lemma phase_taps_nth: "q < 8 \<Longrightarrow> map (phase_taps taps) [0..<8] = rows \<Longrightarrow> phase_taps taps q = rows ! q"
  by auto

text \<open>The sixteen branches.\<close>

definition branch_rows :: "int16 list list" where
  "branch_rows = [[0, 2, -4, 6, 2042, 6, -4, 2],
     [6, 12, -40, 124, 2027, -95, 28, -6],
     [-8, 23, -80, 259, 1985, -178, 54, -13],
     [-8, 36, -123, 408, 1916, -241, 74, -17],
     [-9, 49, -166, 569, 1822, -287, 88, -20],
     [-12, 62, -209, 737, 1706, -314, 97, -22],
     [-14, 74, -248, 911, 1570, -326, 100, -22],
     [-17, 85, -281, 1085, 1419, -322, 99, -21],
     [-19, 93, -307, 1256, 1256, -307, 93, -19],
     [-21, 99, -322, 1419, 1085, -281, 85, -17],
     [-22, 100, -326, 1570, 911, -248, 74, -14],
     [-22, 97, -314, 1706, 737, -209, 62, -12],
     [-20, 88, -287, 1822, 569, -166, 49, -9],
     [-17, 74, -241, 1916, 408, -123, 36, -8],
     [-13, 54, -178, 1985, 259, -80, 23, -8],
     [-6, 28, -95, 2027, 124, -40, 12, 6]]"

lemma branch_value: "branch r = branch_rows ! (r mod 16)"
proof -
  have row: "map prototype [k, k + 16, k + 32, k + 48, k + 64, k + 80, k + 96, k + 112] = branch_rows ! k" if "k < 16" for k
  proof -
    have "k = 0 \<or> k = 1 \<or> k = 2 \<or> k = 3 \<or> k = 4 \<or> k = 5 \<or> k = 6 \<or> k = 7 \<or> k = 8 \<or> k = 9 \<or> k = 10 \<or>
        k = 11 \<or> k = 12 \<or> k = 13 \<or> k = 14 \<or> k = 15" using that by presburger
    then show ?thesis
      by (elim disjE) (simp_all add: prototype_def phase_taps_nth [OF _ prototype_rows(1)]
          phase_taps_nth [OF _ prototype_rows(2)] branch_rows_def)
  qed
  have "branch r = map prototype [r mod 16, r mod 16 + 16, r mod 16 + 32, r mod 16 + 48, r mod 16 + 64, r mod 16 + 80,
      r mod 16 + 96, r mod 16 + 112]"
    by (simp add: branch_def upt_rec)
  then show ?thesis using row [of "r mod 16"] by simp
qed

lemmas tables = tile0_tapsA_def tile0_tapsB_def tile1_tapsA_def tile1_tapsB_def tile2_tapsA_def tile2_tapsB_def tile3_tapsA_def tile3_tapsB_def tile4_tapsA_def tile4_tapsB_def tile5_tapsA_def tile5_tapsB_def tile6_tapsA_def tile6_tapsB_def tile7_tapsA_def tile7_tapsB_def

lemma table_branches:
  "map (phase_taps tile0_tapsA) [0..<8] = map (\<lambda>q. branch (0 + 14 * q)) [0..<8]"
  "map (phase_taps tile0_tapsB) [0..<8] = map (\<lambda>q. branch (1 + 14 * q)) [0..<8]"
  "map (phase_taps tile1_tapsA) [0..<8] = map (\<lambda>q. branch (2 + 14 * q)) [0..<8]"
  "map (phase_taps tile1_tapsB) [0..<8] = map (\<lambda>q. branch (3 + 14 * q)) [0..<8]"
  "map (phase_taps tile2_tapsA) [0..<8] = map (\<lambda>q. branch (4 + 14 * q)) [0..<8]"
  "map (phase_taps tile2_tapsB) [0..<8] = map (\<lambda>q. branch (5 + 14 * q)) [0..<8]"
  "map (phase_taps tile3_tapsA) [0..<8] = map (\<lambda>q. branch (6 + 14 * q)) [0..<8]"
  "map (phase_taps tile3_tapsB) [0..<8] = map (\<lambda>q. branch (7 + 14 * q)) [0..<8]"
  "map (phase_taps tile4_tapsA) [0..<8] = map (\<lambda>q. branch (8 + 14 * q)) [0..<8]"
  "map (phase_taps tile4_tapsB) [0..<8] = map (\<lambda>q. branch (9 + 14 * q)) [0..<8]"
  "map (phase_taps tile5_tapsA) [0..<8] = map (\<lambda>q. branch (10 + 14 * q)) [0..<8]"
  "map (phase_taps tile5_tapsB) [0..<8] = map (\<lambda>q. branch (11 + 14 * q)) [0..<8]"
  "map (phase_taps tile6_tapsA) [0..<8] = map (\<lambda>q. branch (12 + 14 * q)) [0..<8]"
  "map (phase_taps tile6_tapsB) [0..<8] = map (\<lambda>q. branch (13 + 14 * q)) [0..<8]"
  "map (phase_taps tile7_tapsA) [0..<8] = map (\<lambda>q. branch (14 + 14 * q)) [0..<8]"
  "map (phase_taps tile7_tapsB) [0..<8] = map (\<lambda>q. branch (15 + 14 * q)) [0..<8]"
  unfolding tables phases_64 by (simp_all add: branch_value branch_rows_def upt_rec)

lemma tile_branches:
  assumes "t < 8" "f < 2" "q < 8"
  shows "phase_taps (tile_taps t f) q = branch (2 * t + f + 14 * q)"
proof -
  have "t = 0 \<or> t = 1 \<or> t = 2 \<or> t = 3 \<or> t = 4 \<or> t = 5 \<or> t = 6 \<or> t = 7" "f = 0 \<or> f = 1" using assms by linarith+
  then have "map (phase_taps (tile_taps t f)) [0..<8] = map (\<lambda>q. branch (2 * t + f + 14 * q)) [0..<8]"
    by (elim disjE) (simp_all only: tile_taps_def, simp_all add: table_branches)
  from arg_cong [OF this, of "\<lambda>l. l ! q"] show ?thesis using assms(3) by simp
qed

lemma length_tile_taps: "t < 8 \<Longrightarrow> f < 2 \<Longrightarrow> length (tile_taps t f) = 64"
proof -
  assume "t < 8" "f < 2"
  then have "t = 0 \<or> t = 1 \<or> t = 2 \<or> t = 3 \<or> t = 4 \<or> t = 5 \<or> t = 6 \<or> t = 7" "f = 0 \<or> f = 1" by linarith+
  then show ?thesis by (elim disjE) (simp_all add: tile_taps_def, simp_all add: tables)
qed

text \<open>The prototype is symmetric about its tap 64, and no branch amplifies: the magnitudes of its taps add up to at
  most 3350.\<close>

lemma prototype_symmetric: "list_all (\<lambda>r. branch (16 - r) = rev (branch r)) [1..<16]" "tl (branch 0) = rev (tl (branch 0))"
  "prototype 0 = 0"
  by (simp_all add: branch_value branch_rows_def upt_rec)
    (simp add: prototype_def phase_taps_nth [OF _ prototype_rows(1)])

definition gain :: "int16 list \<Rightarrow> int" where
  "gain taps = sum_list (map (\<lambda>t. \<bar>sint t\<bar>) taps)"

lemma branch_gain: "gain (branch r) \<le> 3350"
proof -
  have "list_all (\<lambda>b. gain b \<le> 3350) branch_rows" by code_simp
  then show ?thesis unfolding branch_value list_all_length by (simp add: branch_rows_def)
qed

end
