(* ===== verification/Filterbank.thy ===== *)
theory Filterbank
  imports FIR_Run Filterbank_Taps
begin

text \<open>
  The filter bank of the channelizer: \<^verbatim>\<open>polyphase_fir_graph.h\<close> and \<^verbatim>\<open>m16_ssr8_filterbank_graph.h\<close>. Each of
  eight tiles runs the kernel with its own pattern and tables on its own stream.
\<close>

section \<open>The graphs\<close>

text \<open>A graph is invoked \<open>k\<close> times; the result is the output stream, \<open>None\<close> when the kernel waits for input.\<close>

definition polyphase_fir_graph ::
  "nat \<Rightarrow> nat \<Rightarrow> int16 list \<Rightarrow> int16 list \<Rightarrow> aie_ops \<Rightarrow> aie_core \<Rightarrow> nat \<Rightarrow> cint16 list \<Rightarrow> cint16 list option" where
  "polyphase_fir_graph PATTERN NSAMP tapsA_i tapsB_i ops core k s =
     (let (fir, core) = new_polyphase_fir tapsA_i tapsB_i core in
      case run_kernel k PATTERN NSAMP ops core fir \<lparr>sig_i = s, sig_o = []\<rparr> of
        None \<Rightarrow> None
      | Some (fir, io) \<Rightarrow> Some (sig_o io))"

definition NSAMP :: nat where "NSAMP = 8192"

text \<open>Pattern and tables of \<open>dut_graph0\<close> to \<open>dut_graph7\<close>, which are connected to the streams of their numbers.\<close>

definition dut_graphs :: "(nat \<times> int16 list \<times> int16 list) list" where
  "dut_graphs = [
     (0, tile0_tapsA, tile0_tapsB),
     (1, tile1_tapsA, tile1_tapsB),
     (2, tile2_tapsA, tile2_tapsB),
     (3, tile3_tapsA, tile3_tapsB),
     (4, tile4_tapsA, tile4_tapsB),
     (5, tile5_tapsA, tile5_tapsB),
     (6, tile6_tapsA, tile6_tapsB),
     (7, tile7_tapsA, tile7_tapsB)]"

definition m16_ssr8_filterbank_graph ::
  "aie_ops \<Rightarrow> (nat \<Rightarrow> aie_core) \<Rightarrow> nat \<Rightarrow> (nat \<Rightarrow> cint16 list) \<Rightarrow> nat \<Rightarrow> cint16 list option" where
  "m16_ssr8_filterbank_graph ops cores k sig t = (case dut_graphs ! t of (PATTERN, tapsA, tapsB) \<Rightarrow>
     polyphase_fir_graph PATTERN NSAMP tapsA tapsB ops (cores t) k (sig t))"

section \<open>The filter as a sum over the samples\<close>

text \<open>The last eight samples that are no repetitions, the newest first, zeros before the first.\<close>

definition recent :: "nat \<Rightarrow> cint16 list \<Rightarrow> nat \<Rightarrow> cint16 list" where
  "recent t xs n = take 8 (map (\<lambda>i. xs ! i) (rev (filter (fresh_at t) [0..<Suc n])) @ replicate 8 czero)"

lemma windows_nth:
  "n < length s \<Longrightarrow> length w = Suc m \<Longrightarrow> windows s w ! n = take (Suc m) (rev (map snd (filter fst (take (Suc n) s))) @ w)"
proof (induction s w arbitrary: n rule: windows.induct)
  case (2 keep x s w)
  show ?case
  proof (cases n)
    case 0
    then show ?thesis using 2(3) by (simp add: Let_def push_window_def butlast_conv_take)
  next
    case (Suc k)
    have l: "length (push_window keep x w) = Suc m" by (rule length_push_window [OF 2(3)])
    have p: "push_window keep x w = take (Suc m) ((if keep then [x] else []) @ w)"
      using 2(3) by (simp add: push_window_def butlast_conv_take)
    have "windows ((keep, x) # s) w ! n = windows s (push_window keep x w) ! k" by (simp add: Suc Let_def)
    also have "\<dots> = take (Suc m) (rev (map snd (filter fst (take (Suc k) s))) @ push_window keep x w)"
      using 2(2) Suc by (intro 2(1) [OF refl _ l]) simp
    also have "\<dots> = take (Suc m) (rev (map snd (filter fst (take (Suc k) s))) @ (if keep then [x] else []) @ w)"
      unfolding p by (simp add: min_def)
    finally show ?thesis by (simp add: Suc)
  qed
qed simp

lemma windows_recent:
  assumes "n < length xs"
  shows "windows (marked t xs) (replicate 8 czero) ! n = recent t xs n"
proof -
  have "take (Suc n) (marked t xs) = map (\<lambda>i. (fresh_at t i, xs ! i)) [0..<Suc n]"
    using assms by (intro nth_equalityI) (auto simp: marked_def simp del: upt_Suc)
  then have "map snd (filter fst (take (Suc n) (marked t xs))) = map (\<lambda>i. xs ! i) (filter (fresh_at t) [0..<Suc n])"
    by (simp add: filter_map comp_def del: upt_Suc)
  moreover have "length (replicate 8 czero) = Suc 7" by simp
  ultimately show ?thesis
    using windows_nth [of n "marked t xs" "replicate 8 czero" 7] assms by (simp add: recent_def rev_map del: upt_Suc)
qed

section \<open>A tile\<close>

lemma nth_fir_outputs:
  "n < length xs \<Longrightarrow> fir_outputs P taps w xs ! n = fir_value taps (n mod 8) (windows (marked P xs) w ! n)"
  by (simp add: fir_outputs_def)

lemma filter_samples_take:
  assumes "8 dvd m" "m \<le> length s" "f < 2" "n < length (filter_samples f (take m s))"
  shows "filter_samples f (take m s) ! n = filter_samples f s ! n"
proof -
  have "length (take m s) = 8 * (m div 8)" using assms by simp
  from filter_samples_append [OF this assms(3), of "drop m s"] show ?thesis using assms(4) by (simp add: nth_append)
qed

lemma recent_cong: "(\<And>i. i \<le> n \<Longrightarrow> xs ! i = ys ! i) \<Longrightarrow> recent t xs n = recent t ys n"
  unfolding recent_def by (intro arg_cong [of _ _ "take 8"] arg_cong2 [of _ _ _ _ "(@)"] map_cong refl) (auto simp del: upt_Suc)

lemma dut_graphs_nth: "t < 8 \<Longrightarrow> dut_graphs ! t = (t, tile_taps t 0, tile_taps t (Suc 0))"
proof -
  assume "t < 8"
  then have "t = 0 \<or> t = 1 \<or> t = 2 \<or> t = 3 \<or> t = 4 \<or> t = 5 \<or> t = 6 \<or> t = 7" by linarith
  then show ?thesis by (elim disjE) (simp_all add: dut_graphs_def tile_taps_def)
qed

lemma filterbank_tile:
  assumes doc: "aie_documented ops" and t: "t < 8" and len: "k * NSAMP \<le> length (sig t)"
  shows "\<exists>out. m16_ssr8_filterbank_graph ops cores k sig t = Some out \<and> length out = k * NSAMP \<and>
    (\<forall>f < 2. length (filter_samples f out) = k * 4096 \<and>
       (\<forall>n < k * 4096. filter_samples f out ! n =
          srs_value BIT_SHIFT (rdot (zip (recent t (filter_samples f (sig t)) n) (branch (2 * t + f + 14 * n))))))"
proof -
  define s where "s = take (k * NSAMP) (sig t)"
  define fir where "fir = fst (new_polyphase_fir (tile_taps t 0) (tile_taps t (Suc 0)) (cores t))"
  define core where "core = snd (new_polyphase_fir (tile_taps t 0) (tile_taps t (Suc 0)) (cores t))"
  have init: "new_polyphase_fir (tile_taps t 0) (tile_taps t (Suc 0)) (cores t) = (fir, core)"
    by (simp add: fir_def core_def)
  have c: "rounding core = Positive_inf" "saturation core = Saturate"
    by (simp_all add: core_def new_polyphase_fir_def set_rounding_def set_saturation_def)
  have fields: "taps0 fir = tile_taps t 0" "taps1 fir = tile_taps t (Suc 0)"
    "state0 fir = replicate 8 czero" "state1 fir = replicate 8 czero"
    by (simp_all add: fir_def new_polyphase_fir_def TAPS_PER_PHASE_def)
  have sl: "length s = k * NSAMP" using len by (simp add: s_def)
  have N: "16 dvd NSAMP" by (simp add: NSAMP_def)
  obtain fir' out where run: "run_kernel k t NSAMP ops core fir \<lparr>sig_i = sig t, sig_o = []\<rparr> =
      Some (fir', \<lparr>sig_i = drop (k * NSAMP) (sig t), sig_o = out\<rparr>)" "length out = length s"
    "filter_samples 0 out = filter_result t 0 (tile_taps t 0) (replicate 8 czero) s"
    "filter_samples (Suc 0) out = filter_result t (Suc 0) (tile_taps t (Suc 0)) (replicate 8 czero) s"
    using run_kernel_run [OF t doc c N, of fir s k "\<lparr>sig_i = sig t, sig_o = []\<rparr>" "drop (k * NSAMP) (sig t)"] sl
    by (auto simp: fields length_tile_taps [OF t] s_def)
  have fo: "filter_samples f out = filter_result t f (tile_taps t f) (replicate 8 czero) s" if "f < 2" for f
    using that run(3,4) by (auto simp: less_2_cases_iff)
  have "m16_ssr8_filterbank_graph ops cores k sig t = Some out"
    using run(1) init by (simp add: m16_ssr8_filterbank_graph_def dut_graphs_nth [OF t] polyphase_fir_graph_def)
  moreover have "length (filter_samples f out) = k * 4096 \<and> (\<forall>n < k * 4096. filter_samples f out ! n =
      srs_value BIT_SHIFT (rdot (zip (recent t (filter_samples f (sig t)) n) (branch (2 * t + f + 14 * n)))))" if f: "f < 2" for f
  proof (intro conjI allI impI)
    have l: "length (filter_samples f s) = k * 4096"
      using length_filter_samples [of s "k * 1024" f] f sl by (simp add: NSAMP_def)
    then show lo: "length (filter_samples f out) = k * 4096" by (simp add: fo [OF f] filter_result_def)
    fix n assume n: "n < k * 4096"
    have d8: "8 dvd k * NSAMP" by (simp add: NSAMP_def)
    have same: "filter_samples f s ! i = filter_samples f (sig t) ! i" if "i \<le> n" for i
      using filter_samples_take [OF d8 len f, of i] l n that by (simp add: s_def)
    have "filter_samples f out ! n = fir_value (tile_taps t f) (n mod 8) (recent t (filter_samples f s) n)"
      using n l by (simp add: fo [OF f] filter_result_def nth_fir_outputs windows_recent)
    also have "recent t (filter_samples f s) n = recent t (filter_samples f (sig t)) n"
      by (rule recent_cong) (rule same)
    also have "phase_taps (tile_taps t f) (n mod 8) = branch (2 * t + f + 14 * n)"
    proof -
      have "14 * n = 14 * (n mod 8) + 16 * (7 * (n div 8))" using div_mult_mod_eq [of n 8] by linarith
      then have "14 * n mod 16 = 14 * (n mod 8) mod 16" by (simp only: mod_mult_self2)
      then have "(2 * t + f + 14 * (n mod 8)) mod 16 = (2 * t + f + 14 * n) mod 16" by (metis mod_add_right_eq)
      then show ?thesis using tile_branches [OF t f, of "n mod 8"] by (simp add: branch_value)
    qed
    then have "fir_value (tile_taps t f) (n mod 8) w = srs_value BIT_SHIFT (rdot (zip w (branch (2 * t + f + 14 * n))))" for w
      by (simp add: fir_value_def)
    finally show "filter_samples f out ! n = srs_value BIT_SHIFT (rdot (zip (recent t (filter_samples f (sig t)) n) (branch (2 * t + f + 14 * n))))" .
  qed
  ultimately show ?thesis using run(2) sl by auto
qed

end
