(* ===== verification/DFT_Widget.thy ===== *)
theory DFT_Widget
  imports AIE_Vector
begin

text \<open>
  \<^verbatim>\<open>dft_1xN_widget.cpp\<close> and \<^verbatim>\<open>dft_1xN_widget.h\<close>: the three kernels a cascade of the channelizer's Fourier transform
  is built from. The streams of a kernel are lists; a cascade carries accumulators of four lanes.
\<close>

section \<open>State\<close>

record dft_kernel =
  coeff0 :: "cint16 list"
  coeff1 :: "cint16 list"

record dft_io =
  sig0_i :: "cint16 list"
  sig1_i :: "cint16 list"
  acc_i :: "cacc48 list list"
  acc_o :: "cacc48 list list"
  sig0_o :: "cint16 list"
  sig1_o :: "cint16 list"

text \<open>The local variables of a run: the buffers and the positions of the two circular iterators.\<close>

record dft_regs =
  buff_sig :: "cint16 list"
  buff_coeff :: "cint16 list"
  it0 :: nat
  it1 :: nat

definition new_dft_kernel :: "cint16 list \<Rightarrow> cint16 list \<Rightarrow> aie_core \<Rightarrow> dft_kernel \<times> aie_core" where
  "new_dft_kernel coeff0_i coeff1_i core =
     (\<lparr>coeff0 = coeff0_i, coeff1 = coeff1_i\<rparr>, set_saturation Saturate (set_rounding Positive_inf core))"

definition init_regs :: dft_regs where
  "init_regs = \<lparr>buff_sig = replicate 8 czero, buff_coeff = replicate 16 czero, it0 = 0, it1 = 0\<rparr>"

section \<open>The loop bodies\<close>

definition readincr_v :: "nat \<Rightarrow> 'a list \<Rightarrow> ('a list \<times> 'a list) option" where
  "readincr_v n s = (if n \<le> length s then Some (take n s, drop n s) else None)"

text \<open>\<open>*it\<close> of a circular iterator over vectors of 8 in an array of 8\<close>

definition circular_vector :: "cint16 list \<Rightarrow> nat \<Rightarrow> cint16 list" where
  "circular_vector c pos = map (\<lambda>i. c ! ((pos + i) mod 8)) [0..<8]"

definition load_buffers :: "aie_ops \<Rightarrow> dft_kernel \<Rightarrow> dft_regs \<times> dft_io \<Rightarrow> (dft_regs \<times> dft_io) option" where
  "load_buffers ops k s = (case s of (r, io) \<Rightarrow> do {
     (a, rest0) \<leftarrow> readincr_v 4 (sig0_i io);
     (b, rest1) \<leftarrow> readincr_v 4 (sig1_i io);
     let r = r\<lparr>buff_sig := vec_insert ops (buff_sig r) 0 (a @ b)\<rparr>;
     let r = r\<lparr>buff_coeff := vec_insert ops (buff_coeff r) 0 (circular_vector (coeff0 k) (it0 r)), it0 := (it0 r + 8) mod 8\<rparr>;
     let r = r\<lparr>buff_coeff := vec_insert ops (buff_coeff r) 1 (circular_vector (coeff1 k) (it1 r)), it1 := (it1 r + 8) mod 8\<rparr>;
     Some (r, io\<lparr>sig0_i := rest0, sig1_i := rest1\<rparr>) })"

definition dft_mul :: "aie_ops \<Rightarrow> dft_regs \<Rightarrow> nat \<Rightarrow> nat \<Rightarrow> cacc48 list" where
  "dft_mul ops r c d = sliding_mul ops 4 2 1 4 1 (buff_sig r) c (buff_coeff r) d"

definition dft_mac :: "aie_ops \<Rightarrow> dft_regs \<Rightarrow> cacc48 list \<Rightarrow> nat \<Rightarrow> nat \<Rightarrow> cacc48 list" where
  "dft_mac ops r acc c d = sliding_mac ops 4 2 1 4 1 acc (buff_sig r) c (buff_coeff r) d"

definition write_acc :: "cacc48 list \<Rightarrow> dft_io \<Rightarrow> dft_io" where
  "write_acc acc io = io\<lparr>acc_o := acc_o io @ [acc]\<rparr>"

definition read_acc :: "dft_io \<Rightarrow> (cacc48 list \<times> dft_io) option" where
  "read_acc io = (case acc_i io of [] \<Rightarrow> None | acc # rest \<Rightarrow> Some (acc, io\<lparr>acc_i := rest\<rparr>))"

definition input_body :: "aie_ops \<Rightarrow> dft_kernel \<Rightarrow> dft_regs \<times> dft_io \<Rightarrow> (dft_regs \<times> dft_io) option" where
  "input_body ops k s = do {
     (r, io) \<leftarrow> load_buffers ops k s;
     let accA = dft_mul ops r 0 0;
     let accA = dft_mac ops r accA 4 8;
     let io = write_acc accA io;
     let accB = dft_mul ops r 2 0;
     let accB = dft_mac ops r accB 6 8;
     let io = write_acc accB io;
     Some (r, io) }"

definition middle_body :: "aie_ops \<Rightarrow> dft_kernel \<Rightarrow> dft_regs \<times> dft_io \<Rightarrow> (dft_regs \<times> dft_io) option" where
  "middle_body ops k s = do {
     (r, io) \<leftarrow> load_buffers ops k s;
     (accA, io) \<leftarrow> read_acc io;
     let accA = dft_mac ops r accA 0 0;
     let accA = dft_mac ops r accA 4 8;
     let io = write_acc accA io;
     (accB, io) \<leftarrow> read_acc io;
     let accB = dft_mac ops r accB 2 0;
     let accB = dft_mac ops r accB 6 8;
     let io = write_acc accB io;
     Some (r, io) }"

definition DFT_BIT_SHIFT :: nat where "DFT_BIT_SHIFT = 15"

definition output_body :: "aie_ops \<Rightarrow> aie_core \<Rightarrow> dft_kernel \<Rightarrow> dft_regs \<times> dft_io \<Rightarrow> (dft_regs \<times> dft_io) option" where
  "output_body ops core k s = do {
     (r, io) \<leftarrow> load_buffers ops k s;
     (accA, io) \<leftarrow> read_acc io;
     let accA = dft_mac ops r accA 0 0;
     let accA = dft_mac ops r accA 4 8;
     let io = io\<lparr>sig0_o := sig0_o io @ to_vector ops core accA DFT_BIT_SHIFT\<rparr>;
     (accB, io) \<leftarrow> read_acc io;
     let accB = dft_mac ops r accB 2 0;
     let accB = dft_mac ops r accB 6 8;
     let io = io\<lparr>sig1_o := sig1_o io @ to_vector ops core accB DFT_BIT_SHIFT\<rparr>;
     Some (r, io) }"

section \<open>The kernels\<close>

definition dft_run :: "(dft_regs \<times> dft_io \<Rightarrow> (dft_regs \<times> dft_io) option) \<Rightarrow> nat \<Rightarrow> dft_io \<Rightarrow> dft_io option" where
  "dft_run body NSAMP io = (case for_loop 0 (NSAMP div 4) (\<lambda>rr. body) (init_regs, io) of
     None \<Rightarrow> None | Some (r, io) \<Rightarrow> Some io)"

definition run_input :: "aie_ops \<Rightarrow> dft_kernel \<Rightarrow> nat \<Rightarrow> dft_io \<Rightarrow> dft_io option" where
  "run_input ops k NSAMP io = dft_run (input_body ops k) NSAMP io"

definition run_middle :: "aie_ops \<Rightarrow> dft_kernel \<Rightarrow> nat \<Rightarrow> dft_io \<Rightarrow> dft_io option" where
  "run_middle ops k NSAMP io = dft_run (middle_body ops k) NSAMP io"

definition run_output :: "aie_ops \<Rightarrow> aie_core \<Rightarrow> dft_kernel \<Rightarrow> nat \<Rightarrow> dft_io \<Rightarrow> dft_io option" where
  "run_output ops core k NSAMP io = dft_run (output_body ops core k) NSAMP io"

text \<open>A kernel is invoked once for every iteration of the graph.\<close>

fun invoke :: "nat \<Rightarrow> ('a \<Rightarrow> 'a option) \<Rightarrow> 'a \<Rightarrow> 'a option" where
  "invoke 0 f s = Some s"
| "invoke (Suc k) f s = (case f s of None \<Rightarrow> None | Some s \<Rightarrow> invoke k f s)"

end
