(* ===== verification/DFT_Run.thy ===== *)
theory DFT_Run
  imports DFT_Widget
begin

text \<open>What the three kernels of the Fourier transform compute over whole streams.\<close>

section \<open>Kernels that work in blocks\<close>

text \<open>Block \<open>j\<close> of \<open>n\<close> elements.\<close>

definition block :: "nat \<Rightarrow> nat \<Rightarrow> 'a list \<Rightarrow> 'a list" where
  "block n j s = take n (drop (n * j) s)"

definition block_outputs ::
  "nat \<Rightarrow> (cint16 list \<Rightarrow> cint16 list \<Rightarrow> 'c list \<Rightarrow> 'o list) \<Rightarrow> nat \<Rightarrow> cint16 list \<Rightarrow> cint16 list \<Rightarrow> 'c list \<Rightarrow> 'o list" where
  "block_outputs na f n s0 s1 c = concat (map (\<lambda>j. f (block 4 j s0) (block 4 j s1) (block na j c)) [0..<n])"

lemma block_drop: "block n j (drop (n * m) s) = block n (j + m) s"
  by (simp add: block_def distrib_left)

lemma upt_split: "[0..<m + n] = [0..<m] @ map (\<lambda>i. i + m) [0..<n]"
  by (induction n) (simp_all add: add.commute)

lemma block_outputs_add:
  "block_outputs na f (m + n) s0 s1 c = block_outputs na f m s0 s1 c @
     block_outputs na f n (drop (4 * m) s0) (drop (4 * m) s1) (drop (na * m) c)"
  by (simp only: block_outputs_def upt_split map_append concat_append map_map comp_def block_drop)

text \<open>A kernel that has done \<open>n\<close> iterations, each of which takes 4 samples of both streams and \<open>na\<close> accumulators.\<close>

definition advance ::
  "nat \<Rightarrow> (cint16 list \<Rightarrow> cint16 list \<Rightarrow> cacc48 list list \<Rightarrow> cacc48 list list) \<Rightarrow>
    (cint16 list \<Rightarrow> cint16 list \<Rightarrow> cacc48 list list \<Rightarrow> cint16 list) \<Rightarrow>
    (cint16 list \<Rightarrow> cint16 list \<Rightarrow> cacc48 list list \<Rightarrow> cint16 list) \<Rightarrow> nat \<Rightarrow> dft_io \<Rightarrow> dft_io" where
  "advance na fa f0 f1 n io = io\<lparr>sig0_i := drop (4 * n) (sig0_i io), sig1_i := drop (4 * n) (sig1_i io),
     acc_i := drop (na * n) (acc_i io),
     acc_o := acc_o io @ block_outputs na fa n (sig0_i io) (sig1_i io) (acc_i io),
     sig0_o := sig0_o io @ block_outputs na f0 n (sig0_i io) (sig1_i io) (acc_i io),
     sig1_o := sig1_o io @ block_outputs na f1 n (sig0_i io) (sig1_i io) (acc_i io)\<rparr>"

lemma advance_add: "advance na fa f0 f1 n (advance na fa f0 f1 m io) = advance na fa f0 f1 (m + n) io"
  by (simp add: advance_def block_outputs_add distrib_left add.commute)

definition enough :: "nat \<Rightarrow> (cacc48 list \<Rightarrow> bool) \<Rightarrow> nat \<Rightarrow> dft_io \<Rightarrow> bool" where
  "enough na okp n io \<longleftrightarrow> 4 * n \<le> length (sig0_i io) \<and> 4 * n \<le> length (sig1_i io) \<and> na * n \<le> length (acc_i io) \<and>
     (\<forall>x \<in> set (take (na * n) (acc_i io)). okp x)"

lemma enough_add: "enough na okp (m + n) io \<Longrightarrow> enough na okp m io \<and> enough na okp n (advance na fa f0 f1 m io)"
proof -
  assume e: "enough na okp (m + n) io"
  have "set (take (na * m) (acc_i io)) \<subseteq> set (take (na * (m + n)) (acc_i io))"
    by (rule set_take_subset_set_take) simp
  moreover have "set (take (na * n) (drop (na * m) (acc_i io))) \<subseteq> set (take (na * (m + n)) (acc_i io))"
    by (simp add: distrib_left take_add)
  moreover have "m * na + n * na = na * (m + n)" by (simp add: algebra_simps)
  ultimately show ?thesis using e by (auto simp: enough_def advance_def distrib_left)
qed

definition regs_ok :: "dft_regs \<Rightarrow> bool" where
  "regs_ok r \<longleftrightarrow> length (buff_sig r) = 8 \<and> length (buff_coeff r) = 16 \<and> it0 r = 0 \<and> it1 r = 0"

lemma init_regs_ok: "regs_ok init_regs"
  by (simp add: regs_ok_def init_regs_def)

locale block_kernel =
  fixes body :: "dft_regs \<times> dft_io \<Rightarrow> (dft_regs \<times> dft_io) option"
    and na :: nat
    and fa :: "cint16 list \<Rightarrow> cint16 list \<Rightarrow> cacc48 list list \<Rightarrow> cacc48 list list"
    and f0 :: "cint16 list \<Rightarrow> cint16 list \<Rightarrow> cacc48 list list \<Rightarrow> cint16 list"
    and f1 :: "cint16 list \<Rightarrow> cint16 list \<Rightarrow> cacc48 list list \<Rightarrow> cint16 list"
    and pre :: bool
    and okp :: "cacc48 list \<Rightarrow> bool"
  assumes body_run: "pre \<Longrightarrow> regs_ok r \<Longrightarrow> enough na okp 1 io \<Longrightarrow>
    \<exists>r'. body (r, io) = Some (r', advance na fa f0 f1 1 io) \<and> regs_ok r'"
begin

lemma loop_run:
  "pre \<Longrightarrow> regs_ok r \<Longrightarrow> enough na okp n io \<Longrightarrow>
    \<exists>r'. for_loop i n (\<lambda>rr. body) (r, io) = Some (r', advance na fa f0 f1 n io) \<and> regs_ok r'"
proof (induction n arbitrary: i r io)
  case 0
  then show ?case by (simp add: advance_def block_outputs_def)
next
  case (Suc n)
  have e: "enough na okp 1 io" "enough na okp n (advance na fa f0 f1 1 io)"
    using enough_add [of na okp 1 n io] Suc.prems(3) by simp_all
  obtain r1 where r1: "body (r, io) = Some (r1, advance na fa f0 f1 1 io)" "regs_ok r1"
    using body_run [OF Suc.prems(1,2) e(1)] by blast
  obtain r2 where "for_loop (Suc i) n (\<lambda>rr. body) (r1, advance na fa f0 f1 1 io) =
      Some (r2, advance na fa f0 f1 n (advance na fa f0 f1 1 io))" "regs_ok r2"
    using Suc.IH [OF Suc.prems(1) r1(2) e(2)] by blast
  with r1 show ?case by (simp add: advance_add)
qed

lemma dft_run_run: "pre \<Longrightarrow> enough na okp (NSAMP div 4) io \<Longrightarrow> dft_run body NSAMP io = Some (advance na fa f0 f1 (NSAMP div 4) io)"
  using loop_run [OF _ init_regs_ok, of "NSAMP div 4" io 0] by (auto simp: dft_run_def)

lemma invoke_run:
  "pre \<Longrightarrow> enough na okp (k * (NSAMP div 4)) io \<Longrightarrow>
    invoke k (dft_run body NSAMP) io = Some (advance na fa f0 f1 (k * (NSAMP div 4)) io)"
proof (induction k arbitrary: io)
  case 0
  then show ?case by (simp add: advance_def block_outputs_def)
next
  case (Suc k)
  let ?q = "NSAMP div 4"
  have "enough na okp ?q io" "enough na okp (k * ?q) (advance na fa f0 f1 ?q io)"
    using enough_add [of na okp ?q "k * ?q" io] Suc.prems(2) by simp_all
  with Suc.IH [OF Suc.prems(1)] dft_run_run [OF Suc.prems(1)] show ?case
    by (simp add: advance_add)
qed

end

section \<open>The sums of a tile\<close>

text \<open>The four products tile \<open>k\<close> adds to lane \<open>i\<close> of the accumulator number \<open>m\<close>.\<close>

definition tile_terms :: "dft_kernel \<Rightarrow> cint16 list \<Rightarrow> cint16 list \<Rightarrow> nat \<Rightarrow> nat \<Rightarrow> (cint16 \<times> cint16) list" where
  "tile_terms k s0 s1 m i = [(s0 ! (2 * m), coeff0 k ! i), (s0 ! (2 * m + 1), coeff0 k ! (4 + i)),
     (s1 ! (2 * m), coeff1 k ! i), (s1 ! (2 * m + 1), coeff1 k ! (4 + i))]"

definition tile_acc :: "dft_kernel \<Rightarrow> cint16 list \<Rightarrow> cint16 list \<Rightarrow> nat \<Rightarrow> cacc48 list" where
  "tile_acc k s0 s1 m = map (\<lambda>i. cdot (tile_terms k s0 s1 m i)) [0..<4]"

definition acc_add :: "cacc48 list \<Rightarrow> cacc48 list \<Rightarrow> cacc48 list" where
  "acc_add a b = map2 cadd a b"

definition acc_bounded :: "int \<Rightarrow> cacc48 list \<Rightarrow> bool" where
  "acc_bounded m acc \<longleftrightarrow> length acc = 4 \<and> (\<forall>i < 4. acc_within m (acc ! i))"

definition tile_ok :: "aie_ops \<Rightarrow> dft_kernel \<Rightarrow> bool" where
  "tile_ok ops k \<longleftrightarrow> aie_documented ops \<and> length (coeff0 k) = 8 \<and> length (coeff1 k) = 8"

lemma circular_vector_0: "length c = 8 \<Longrightarrow> circular_vector c 0 = c"
  unfolding circular_vector_def by (intro nth_equalityI) simp_all

lemma load_buffers_run:
  assumes "tile_ok ops k" "regs_ok r" "4 \<le> length (sig0_i io)" "4 \<le> length (sig1_i io)"
  shows "load_buffers ops k (r, io) =
    Some (r\<lparr>buff_sig := block 4 0 (sig0_i io) @ block 4 0 (sig1_i io), buff_coeff := coeff0 k @ coeff1 k\<rparr>,
      io\<lparr>sig0_i := drop 4 (sig0_i io), sig1_i := drop 4 (sig1_i io)\<rparr>)"
  using assms
  by (simp add: load_buffers_def readincr_v_def tile_ok_def regs_ok_def block_def circular_vector_0 documented_moves(5)
      numeral_2_eq_2)

lemma cadd_assoc: "cadd (cadd a b) c = cadd a (cadd b c)"
  by (simp add: cadd_def)

text \<open>The first and the second half of the products of a tile.\<close>

definition half_terms :: "dft_kernel \<Rightarrow> cint16 list \<Rightarrow> cint16 list \<Rightarrow> nat \<Rightarrow> bool \<Rightarrow> nat \<Rightarrow> (cint16 \<times> cint16) list" where
  "half_terms k a b h second i = (if second then drop 2 (tile_terms k a b h i) else take 2 (tile_terms k a b h i))"

lemma half_sum: "cadd (cdot (half_terms k a b h False i)) (cdot (half_terms k a b h True i)) = cdot (tile_terms k a b h i)"
  by (simp add: half_terms_def flip: cdot_append)

lemma half_bound: "acc_within (2 ^ 32) (cdot (half_terms k a b h second i))"
  using cdot_bound [of "half_terms k a b h second i"] by (cases second) (simp_all add: half_terms_def tile_terms_def)

definition loaded :: "aie_ops \<Rightarrow> dft_kernel \<Rightarrow> dft_regs \<Rightarrow> cint16 list \<Rightarrow> cint16 list \<Rightarrow> bool" where
  "loaded ops k r a b \<longleftrightarrow> tile_ok ops k \<and> length a = 4 \<and> length b = 4 \<and> buff_sig r = a @ b \<and>
     buff_coeff r = coeff0 k @ coeff1 k"

lemma loaded_doc: "loaded ops k r a b \<Longrightarrow> aie_documented ops"
  by (simp add: loaded_def tile_ok_def)

lemma half_sliding:
  assumes L: "loaded ops k r a b" and "h < 2" "i < 4"
  shows "sliding_terms 2 1 4 1 (buff_sig r) (2 * h) (buff_coeff r) 0 i = half_terms k a b h False i"
    "sliding_terms 2 1 4 1 (buff_sig r) (4 + 2 * h) (buff_coeff r) 8 i = half_terms k a b h True i"
  using assms unfolding loaded_def
  by (auto simp: tile_ok_def sliding_terms_def half_terms_def tile_terms_def nth_append upt_rec less_2_cases_iff add.commute)

lemma mul_first:
  assumes L: "loaded ops k r a b" and h: "h < 2"
  shows "dft_mul ops r (2 * h) 0 = map (\<lambda>i. cdot (half_terms k a b h False i)) [0..<4]"
proof -
  have "2 * h + 1 < length (buff_sig r)" "0 + 3 * 1 + 4 < length (buff_coeff r)"
    using h L by (simp_all add: loaded_def tile_ok_def)
  from documented_sliding(1) [OF loaded_doc [OF L] this] show ?thesis
    unfolding dft_mul_def by (simp add: half_sliding(1) [OF L h, simplified] cong: map_cong)
qed

lemma mac_half:
  assumes L: "loaded ops k r a b" and h: "h < 2" and acc: "length acc = 4" "\<forall>i < 4. acc_within (2 ^ 46) (acc ! i)"
  shows "dft_mac ops r acc (2 * h) 0 = map (\<lambda>i. cadd (acc ! i) (cdot (half_terms k a b h False i))) [0..<4]"
    "dft_mac ops r acc (4 + 2 * h) 8 = map (\<lambda>i. cadd (acc ! i) (cdot (half_terms k a b h True i))) [0..<4]"
proof -
  have l: "2 * h + 1 < length (buff_sig r)" "0 + 3 * 1 + 4 < length (buff_coeff r)"
    "4 + 2 * h + 1 < length (buff_sig r)" "8 + 3 * 1 + 4 < length (buff_coeff r)"
    using h L by (simp_all add: loaded_def tile_ok_def)
  show "dft_mac ops r acc (2 * h) 0 = map (\<lambda>i. cadd (acc ! i) (cdot (half_terms k a b h False i))) [0..<4]"
    using documented_sliding(2) [OF loaded_doc [OF L] l(1,2) acc] unfolding dft_mac_def by (simp add: half_sliding(1) [OF L h, simplified] cong: map_cong)
  show "dft_mac ops r acc (4 + 2 * h) 8 = map (\<lambda>i. cadd (acc ! i) (cdot (half_terms k a b h True i))) [0..<4]"
    using documented_sliding(2) [OF loaded_doc [OF L] l(3,4) acc] unfolding dft_mac_def by (simp add: half_sliding(2) [OF L h, simplified] cong: map_cong)
qed

lemma tile_first:
  assumes L: "loaded ops k r a b" and h: "h < 2"
  shows "dft_mac ops r (dft_mul ops r (2 * h) 0) (4 + 2 * h) 8 = tile_acc k a b h"
proof -
  have "\<forall>i < 4. acc_within (2 ^ 46) (dft_mul ops r (2 * h) 0 ! i)"
    using acc_within_mono [OF half_bound] by (simp add: mul_first [OF L h])
  moreover have "length (dft_mul ops r (2 * h) 0) = 4" by (simp add: mul_first [OF L h])
  ultimately have "dft_mac ops r (dft_mul ops r (2 * h) 0) (4 + 2 * h) 8 =
      map (\<lambda>i. cadd (dft_mul ops r (2 * h) 0 ! i) (cdot (half_terms k a b h True i))) [0..<4]"
    by (intro mac_half(2) [OF L h])
  also have "\<dots> = tile_acc k a b h"
    unfolding tile_acc_def by (rule map_cong [OF refl]) (simp add: mul_first [OF L h] half_sum)
  finally show ?thesis .
qed

lemma tile_next:
  assumes L: "loaded ops k r a b" and h: "h < 2" and acc: "acc_bounded (2 ^ 45) acc"
  shows "dft_mac ops r (dft_mac ops r acc (2 * h) 0) (4 + 2 * h) 8 = acc_add acc (tile_acc k a b h)"
proof -
  have l: "length acc = 4" and w: "acc_within (2 ^ 45) (acc ! i)" if "i < 4" for i
    using acc that by (simp_all add: acc_bounded_def)
  have la: "length acc = 4" using acc by (simp add: acc_bounded_def)
  have w6: "\<forall>i < 4. acc_within (2 ^ 46) (acc ! i)" using acc_within_mono [OF w] by simp
  note m1 = mac_half(1) [OF L h la w6]
  have "acc_within (2 ^ 45 + 2 ^ 32) (cadd (acc ! i) (cdot (half_terms k a b h False i)))" if "i < 4" for i
    by (rule acc_within_add [OF w [OF that] half_bound])
  then have "\<forall>i < 4. acc_within (2 ^ 46) (dft_mac ops r acc (2 * h) 0 ! i)"
    unfolding m1 using acc_within_mono by fastforce
  moreover have "length (dft_mac ops r acc (2 * h) 0) = 4" by (simp add: m1)
  ultimately have "dft_mac ops r (dft_mac ops r acc (2 * h) 0) (4 + 2 * h) 8 =
      map (\<lambda>i. cadd (dft_mac ops r acc (2 * h) 0 ! i) (cdot (half_terms k a b h True i))) [0..<4]"
    by (intro mac_half(2) [OF L h])
  also have "\<dots> = map (\<lambda>i. cadd (acc ! i) (tile_acc k a b h ! i)) [0..<4]"
    by (rule map_cong [OF refl]) (simp add: m1 cadd_assoc half_sum tile_acc_def)
  also have "\<dots> = acc_add acc (tile_acc k a b h)"
    unfolding acc_add_def by (rule nth_equalityI) (simp_all add: la tile_acc_def)
  finally show ?thesis .
qed

section \<open>The three kernels\<close>

definition input_outputs :: "dft_kernel \<Rightarrow> cint16 list \<Rightarrow> cint16 list \<Rightarrow> cacc48 list list \<Rightarrow> cacc48 list list" where
  "input_outputs k a b c = [tile_acc k a b 0, tile_acc k a b 1]"

definition middle_outputs :: "dft_kernel \<Rightarrow> cint16 list \<Rightarrow> cint16 list \<Rightarrow> cacc48 list list \<Rightarrow> cacc48 list list" where
  "middle_outputs k a b c = [acc_add (c ! 0) (tile_acc k a b 0), acc_add (c ! 1) (tile_acc k a b 1)]"

definition final_outputs :: "dft_kernel \<Rightarrow> nat \<Rightarrow> cint16 list \<Rightarrow> cint16 list \<Rightarrow> cacc48 list list \<Rightarrow> cint16 list" where
  "final_outputs k h a b c = map (srs_value DFT_BIT_SHIFT) (acc_add (c ! h) (tile_acc k a b h))"

definition no_outputs :: "cint16 list \<Rightarrow> cint16 list \<Rightarrow> cacc48 list list \<Rightarrow> 'o list" where
  "no_outputs a b c = []"

text \<open>The registers after the loads of an iteration.\<close>

lemma load_run:
  assumes "tile_ok ops k" "regs_ok r" "enough na okp 1 io"
  obtains r' where "load_buffers ops k (r, io) = Some (r', io\<lparr>sig0_i := drop 4 (sig0_i io), sig1_i := drop 4 (sig1_i io)\<rparr>)"
    "loaded ops k r' (block 4 0 (sig0_i io)) (block 4 0 (sig1_i io))" "regs_ok r'"
proof
  let ?a = "block 4 0 (sig0_i io)" and ?b = "block 4 0 (sig1_i io)"
  let ?r = "r\<lparr>buff_sig := ?a @ ?b, buff_coeff := coeff0 k @ coeff1 k\<rparr>"
  have len: "4 \<le> length (sig0_i io)" "4 \<le> length (sig1_i io)" using assms(3) by (simp_all add: enough_def)
  show "load_buffers ops k (r, io) = Some (?r, io\<lparr>sig0_i := drop 4 (sig0_i io), sig1_i := drop 4 (sig1_i io)\<rparr>)"
    by (rule load_buffers_run [OF assms(1,2) len])
  show "loaded ops k ?r ?a ?b" using assms(1) len by (simp add: loaded_def block_def)
  show "regs_ok ?r" using assms(1,2) len by (simp add: regs_ok_def block_def tile_ok_def)
qed

lemmas tile_halves =
  tile_first [where h = 0, simplified] tile_first [where h = 1, simplified]
  tile_next [where h = 0, simplified] tile_next [where h = 1, simplified]

lemma block_outputs_1: "block_outputs na f (Suc 0) s0 s1 c = f (block 4 0 s0) (block 4 0 s1) (block na 0 c)"
  by (simp add: block_outputs_def)

interpretation dft_in: block_kernel "input_body ops k" 0 "input_outputs k" no_outputs no_outputs "tile_ok ops k" "\<lambda>_. True"
proof
  fix r io assume ok: "tile_ok ops k" and r: "regs_ok r" and e: "enough 0 (\<lambda>_. True) 1 io"
  show "\<exists>r'. input_body ops k (r, io) = Some (r', advance 0 (input_outputs k) no_outputs no_outputs 1 io) \<and> regs_ok r'"
    by (rule load_run [OF ok r e])
      (auto simp: input_body_def Let_def tile_halves write_acc_def advance_def block_outputs_1 input_outputs_def no_outputs_def)
qed

lemma two_accs:
  assumes "enough 2 (acc_bounded m) 1 io"
  obtains a0 a1 rest where "acc_i io = a0 # a1 # rest" "acc_bounded m a0" "acc_bounded m a1"
    "block 2 0 (acc_i io) = [a0, a1]"
proof -
  have "2 \<le> length (acc_i io)" using assms by (simp add: enough_def)
  then obtain a0 a1 rest where "acc_i io = a0 # a1 # rest" by (auto simp: numeral_2_eq_2 Suc_le_length_iff)
  with assms that show thesis by (auto simp: enough_def block_def)
qed

interpretation dft_mid: block_kernel "middle_body ops k" 2 "middle_outputs k" no_outputs no_outputs "tile_ok ops k" "acc_bounded (2 ^ 45)"
proof
  fix r io assume ok: "tile_ok ops k" and r: "regs_ok r" and e: "enough 2 (acc_bounded (2 ^ 45)) 1 io"
  obtain a0 a1 rest where acc: "acc_i io = a0 # a1 # rest" "acc_bounded (2 ^ 45) a0" "acc_bounded (2 ^ 45) a1"
    "block 2 0 (acc_i io) = [a0, a1]" using two_accs [OF e] by blast
  show "\<exists>r'. middle_body ops k (r, io) = Some (r', advance 2 (middle_outputs k) no_outputs no_outputs 1 io) \<and> regs_ok r'"
    by (rule load_run [OF ok r e])
      (use acc(2,3) in \<open>auto simp: middle_body_def Let_def read_acc_def acc(1) tile_halves write_acc_def advance_def
        block_outputs_1 acc(4) [unfolded acc(1)] middle_outputs_def no_outputs_def\<close>)
qed

interpretation dft_out: block_kernel "output_body ops core k" 2 no_outputs "final_outputs k 0" "final_outputs k 1"
  "tile_ok ops k \<and> rounding core = Positive_inf \<and> saturation core = Saturate" "acc_bounded (2 ^ 45)"
proof
  fix r io assume ok: "tile_ok ops k \<and> rounding core = Positive_inf \<and> saturation core = Saturate"
    and r: "regs_ok r" and e: "enough 2 (acc_bounded (2 ^ 45)) 1 io"
  obtain a0 a1 rest where acc: "acc_i io = a0 # a1 # rest" "acc_bounded (2 ^ 45) a0" "acc_bounded (2 ^ 45) a1"
    "block 2 0 (acc_i io) = [a0, a1]" using two_accs [OF e] by blast
  have doc: "aie_documented ops" and tk: "tile_ok ops k" using ok by (simp_all add: tile_ok_def)
  have tv: "to_vector ops core acc n = map (srs_value n) acc" for acc n using documented_srs [OF doc] ok by simp
  show "\<exists>r'. output_body ops core k (r, io) =
      Some (r', advance 2 no_outputs (final_outputs k 0) (final_outputs k 1) 1 io) \<and> regs_ok r'"
    by (rule load_run [OF tk r e])
      (use acc(2,3) in \<open>auto simp: output_body_def Let_def read_acc_def acc(1) tile_halves tv advance_def
        block_outputs_1 acc(4) [unfolded acc(1)] final_outputs_def no_outputs_def\<close>)
qed

section \<open>Streams\<close>

lemma tile_acc_block:
  assumes "h < 2" "4 * n \<le> length s0" "4 * n \<le> length s1" "j < n"
  shows "tile_acc k (block 4 j s0) (block 4 j s1) h = tile_acc k s0 s1 (2 * j + h)"
  using assms unfolding tile_acc_def tile_terms_def block_def
  by (intro map_cong refl) (auto simp: less_2_cases_iff algebra_simps)

lemma concat_pairs: "concat (map (\<lambda>j. [g (2 * j), g (2 * j + 1)]) [0..<n]) = map g [0..<2 * n]"
  by (induction n) simp_all

lemma pair_stream:
  assumes "\<And>j. j < n \<Longrightarrow> f (block 4 j s0) (block 4 j s1) (block na j c) = [g (2 * j), g (2 * j + 1)]"
  shows "block_outputs na f n s0 s1 c = map g [0..<2 * n]"
proof -
  have "map (\<lambda>j. f (block 4 j s0) (block 4 j s1) (block na j c)) [0..<n] = map (\<lambda>j. [g (2 * j), g (2 * j + 1)]) [0..<n]"
    by (rule map_cong [OF refl]) (use assms in simp)
  then show ?thesis unfolding block_outputs_def by (simp only: concat_pairs)
qed

lemma input_stream:
  assumes "4 * n \<le> length s0" "4 * n \<le> length s1"
  shows "block_outputs 0 (input_outputs k) n s0 s1 c = map (tile_acc k s0 s1) [0..<2 * n]"
  by (rule pair_stream) (use tile_acc_block [OF _ assms, where h = 0] tile_acc_block [OF _ assms, where h = 1] in
      \<open>simp add: input_outputs_def\<close>)

lemma nth_block_2: "2 * n \<le> length c \<Longrightarrow> j < n \<Longrightarrow> h < 2 \<Longrightarrow> block 2 j c ! h = c ! (2 * j + h)"
  by (simp add: block_def)

lemma middle_stream:
  assumes "4 * n \<le> length s0" "4 * n \<le> length s1" "2 * n \<le> length c"
  shows "block_outputs 2 (middle_outputs k) n s0 s1 c = map (\<lambda>m. acc_add (c ! m) (tile_acc k s0 s1 m)) [0..<2 * n]"
proof (rule pair_stream)
  fix j assume j: "j < n"
  then show "middle_outputs k (block 4 j s0) (block 4 j s1) (block 2 j c) =
      [acc_add (c ! (2 * j)) (tile_acc k s0 s1 (2 * j)), acc_add (c ! (2 * j + 1)) (tile_acc k s0 s1 (2 * j + 1))]"
    using tile_acc_block [OF _ assms(1,2) j, of 0 k] tile_acc_block [OF _ assms(1,2) j, of 1 k]
      nth_block_2 [OF assms(3) j, of 0] nth_block_2 [OF assms(3) j, of 1]
    by (simp add: middle_outputs_def)
qed

lemma final_stream:
  assumes "4 * n \<le> length s0" "4 * n \<le> length s1" "2 * n \<le> length c" "h < 2"
  shows "block_outputs 2 (final_outputs k h) n s0 s1 c =
    concat (map (\<lambda>j. map (srs_value DFT_BIT_SHIFT) (acc_add (c ! (2 * j + h)) (tile_acc k s0 s1 (2 * j + h)))) [0..<n])"
  unfolding block_outputs_def
proof (intro arg_cong [of _ _ concat] map_cong [OF refl])
  fix j assume "j \<in> set [0..<n]"
  then have j: "j < n" by simp
  show "final_outputs k h (block 4 j s0) (block 4 j s1) (block 2 j c) =
      map (srs_value DFT_BIT_SHIFT) (acc_add (c ! (2 * j + h)) (tile_acc k s0 s1 (2 * j + h)))"
    using tile_acc_block [OF assms(4,1,2) j, of k] nth_block_2 [OF assms(3) j assms(4)] by (simp add: final_outputs_def)
qed

lemma no_stream: "block_outputs na no_outputs n s0 s1 c = []"
  by (simp add: block_outputs_def no_outputs_def)

lemma tile_acc_bounded: "acc_bounded (2 ^ 33) (tile_acc k s0 s1 m)"
proof -
  have "acc_within (2 ^ 33) (cdot (tile_terms k s0 s1 m i))" for i
    using cdot_bound [of "tile_terms k s0 s1 m i"] by (simp add: tile_terms_def)
  then show ?thesis by (simp add: acc_bounded_def tile_acc_def)
qed

lemma acc_add_bounded: "acc_bounded m a \<Longrightarrow> acc_bounded n b \<Longrightarrow> acc_bounded (m + n) (acc_add a b)"
  by (simp add: acc_bounded_def acc_add_def acc_within_add)

lemma acc_bounded_mono: "acc_bounded m a \<Longrightarrow> m \<le> n \<Longrightarrow> acc_bounded n a"
  unfolding acc_bounded_def using acc_within_mono by blast

end
