(* ===== verification/DFT_Graph.thy ===== *)
theory DFT_Graph
  imports DFT_Run
begin

text \<open>
  The Fourier transform of the channelizer: \<^verbatim>\<open>twiddle_m16_ssr8_dft.h\<close>, \<^verbatim>\<open>dft_1xN_widget_graph.h\<close> and
  \<^verbatim>\<open>m16_ssr8_dft_graph.h\<close>. Four cascades of four tiles get the same eight streams; each computes four of the
  sixteen outputs of two transforms per iteration.
\<close>

section \<open>The twiddle tables\<close>

definition cw :: "int16 \<Rightarrow> int16 \<Rightarrow> cint16" where
  "cw a b = \<lparr>c_re = a, c_im = b\<rparr>"

definition A_TWID0 :: "cint16 list list" where
  "A_TWID0 = [
     [cw 32767 0, cw 32767 0, cw 32767 0, cw 32767 0, cw 32767 0, cw 30274 12540, cw 23170 23170, cw 12540 30274],
     [cw 32767 0, cw 0 32767, cw (-32768) 0, cw 0 (-32768), cw 32767 0, cw (-12540) 30274, cw (-23170) (-23170), cw 30274 (-12540)],
     [cw 32767 0, cw (-32768) 0, cw 32767 0, cw (-32768) 0, cw 32767 0, cw (-30274) (-12540), cw 23170 23170, cw (-12540) (-30274)],
     [cw 32767 0, cw 0 (-32768), cw (-32768) 0, cw 0 32767, cw 32767 0, cw 12540 (-30274), cw (-23170) (-23170), cw (-30274) 12540]]"

definition A_TWID1 :: "cint16 list list" where
  "A_TWID1 = [
     [cw 32767 0, cw 23170 23170, cw 0 32767, cw (-23170) 23170, cw 32767 0, cw 12540 30274, cw (-23170) 23170, cw (-30274) (-12540)],
     [cw 32767 0, cw (-23170) 23170, cw 0 (-32768), cw 23170 23170, cw 32767 0, cw (-30274) 12540, cw 23170 (-23170), cw (-12540) 30274],
     [cw 32767 0, cw (-23170) (-23170), cw 0 32767, cw 23170 (-23170), cw 32767 0, cw (-12540) (-30274), cw (-23170) 23170, cw 30274 12540],
     [cw 32767 0, cw 23170 (-23170), cw 0 (-32768), cw (-23170) (-23170), cw 32767 0, cw 30274 (-12540), cw 23170 (-23170), cw 12540 (-30274)]]"

definition B_TWID0 :: "cint16 list list" where
  "B_TWID0 = [
     [cw 32767 0, cw 32767 0, cw 32767 0, cw 32767 0, cw 0 32767, cw (-12540) 30274, cw (-23170) 23170, cw (-30274) 12540],
     [cw 32767 0, cw 0 32767, cw (-32768) 0, cw 0 (-32768), cw 0 32767, cw (-30274) (-12540), cw 23170 (-23170), cw 12540 30274],
     [cw 32767 0, cw (-32768) 0, cw 32767 0, cw (-32768) 0, cw 0 32767, cw 12540 (-30274), cw (-23170) 23170, cw 30274 (-12540)],
     [cw 32767 0, cw 0 (-32768), cw (-32768) 0, cw 0 32767, cw 0 32767, cw 30274 12540, cw 23170 (-23170), cw (-12540) (-30274)]]"

definition B_TWID1 :: "cint16 list list" where
  "B_TWID1 = [
     [cw (-32768) 0, cw (-23170) (-23170), cw 0 (-32768), cw 23170 (-23170), cw 0 (-32768), cw 30274 (-12540), cw 23170 23170, cw (-12540) 30274],
     [cw (-32768) 0, cw 23170 (-23170), cw 0 32767, cw (-23170) (-23170), cw 0 (-32768), cw 12540 30274, cw (-23170) (-23170), cw 30274 12540],
     [cw (-32768) 0, cw 23170 23170, cw 0 (-32768), cw (-23170) 23170, cw 0 (-32768), cw (-30274) 12540, cw 23170 23170, cw 12540 (-30274)],
     [cw (-32768) 0, cw (-23170) 23170, cw 0 32767, cw 23170 23170, cw 0 (-32768), cw (-12540) (-30274), cw (-23170) (-23170), cw (-30274) (-12540)]]"

definition C_TWID0 :: "cint16 list list" where
  "C_TWID0 = [
     [cw 32767 0, cw 32767 0, cw 32767 0, cw 32767 0, cw (-32768) 0, cw (-30274) (-12540), cw (-23170) (-23170), cw (-12540) (-30274)],
     [cw 32767 0, cw 0 32767, cw (-32768) 0, cw 0 (-32768), cw (-32768) 0, cw 12540 (-30274), cw 23170 23170, cw (-30274) 12540],
     [cw 32767 0, cw (-32768) 0, cw 32767 0, cw (-32768) 0, cw (-32768) 0, cw 30274 12540, cw (-23170) (-23170), cw 12540 30274],
     [cw 32767 0, cw 0 (-32768), cw (-32768) 0, cw 0 32767, cw (-32768) 0, cw (-12540) 30274, cw 23170 23170, cw 30274 (-12540)]]"

definition C_TWID1 :: "cint16 list list" where
  "C_TWID1 = [
     [cw 32767 0, cw 23170 23170, cw 0 32767, cw (-23170) 23170, cw (-32768) 0, cw (-12540) (-30274), cw 23170 (-23170), cw 30274 12540],
     [cw 32767 0, cw (-23170) 23170, cw 0 (-32768), cw 23170 23170, cw (-32768) 0, cw 30274 (-12540), cw (-23170) 23170, cw 12540 (-30274)],
     [cw 32767 0, cw (-23170) (-23170), cw 0 32767, cw 23170 (-23170), cw (-32768) 0, cw 12540 30274, cw 23170 (-23170), cw (-30274) (-12540)],
     [cw 32767 0, cw 23170 (-23170), cw 0 (-32768), cw (-23170) (-23170), cw (-32768) 0, cw (-30274) 12540, cw (-23170) 23170, cw (-12540) 30274]]"

definition D_TWID0 :: "cint16 list list" where
  "D_TWID0 = [
     [cw 32767 0, cw 32767 0, cw 32767 0, cw 32767 0, cw 0 (-32768), cw 12540 (-30274), cw 23170 (-23170), cw 30274 (-12540)],
     [cw 32767 0, cw 0 32767, cw (-32768) 0, cw 0 (-32768), cw 0 (-32768), cw 30274 12540, cw (-23170) 23170, cw (-12540) (-30274)],
     [cw 32767 0, cw (-32768) 0, cw 32767 0, cw (-32768) 0, cw 0 (-32768), cw (-12540) 30274, cw 23170 (-23170), cw (-30274) 12540],
     [cw 32767 0, cw 0 (-32768), cw (-32768) 0, cw 0 32767, cw 0 (-32768), cw (-30274) (-12540), cw (-23170) 23170, cw 12540 30274]]"

definition D_TWID1 :: "cint16 list list" where
  "D_TWID1 = [
     [cw (-32768) 0, cw (-23170) (-23170), cw 0 (-32768), cw 23170 (-23170), cw 0 32767, cw (-30274) 12540, cw (-23170) (-23170), cw 12540 (-30274)],
     [cw (-32768) 0, cw 23170 (-23170), cw 0 32767, cw (-23170) (-23170), cw 0 32767, cw (-12540) (-30274), cw 23170 23170, cw (-30274) (-12540)],
     [cw (-32768) 0, cw 23170 23170, cw 0 (-32768), cw (-23170) 23170, cw 0 32767, cw 30274 (-12540), cw (-23170) (-23170), cw (-12540) 30274],
     [cw (-32768) 0, cw (-23170) 23170, cw 0 32767, cw 23170 23170, cw 0 32767, cw 12540 30274, cw 23170 23170, cw 30274 12540]]"

text \<open>The sixteenth roots of unity, in Q15.\<close>

definition roots :: "cint16 list" where
  "roots = [cw 32767 0, cw 30274 12540, cw 23170 23170, cw 12540 30274,
     cw 0 32767, cw (-12540) 30274, cw (-23170) 23170, cw (-30274) 12540,
     cw (-32768) 0, cw (-30274) (-12540), cw (-23170) (-23170), cw (-12540) (-30274),
     cw 0 (-32768), cw 12540 (-30274), cw 23170 (-23170), cw 30274 (-12540)]"

definition root16 :: "nat \<Rightarrow> cint16" where
  "root16 n = roots ! (n mod 16)"

section \<open>The graphs\<close>

definition NT :: nat where "NT = 4"

text \<open>The ports of a tile: streams \<open>2 * kk\<close> and \<open>2 * kk + 1\<close>, and the cascade into it.\<close>

definition tile_ports :: "(nat \<Rightarrow> cint16 list) \<Rightarrow> nat \<Rightarrow> cacc48 list list \<Rightarrow> dft_io" where
  "tile_ports sig kk acc = \<lparr>sig0_i = sig (2 * kk + 0), sig1_i = sig (2 * kk + 1), acc_i = acc, acc_o = [],
     sig0_o = [], sig1_o = []\<rparr>"

definition dft_1xN_widget_graph ::
  "aie_ops \<Rightarrow> (nat \<Rightarrow> aie_core) \<Rightarrow> nat \<Rightarrow> cint16 list list \<Rightarrow> cint16 list list \<Rightarrow> nat \<Rightarrow> (nat \<Rightarrow> cint16 list) \<Rightarrow>
    (cint16 list \<times> cint16 list) option" where
  "dft_1xN_widget_graph ops cores NSAMP twid0 twid1 n sig = do {
     let (k_input, core_i) = new_dft_kernel (twid0 ! 0) (twid1 ! 0) (cores 0);
     let (k_output, core_o) = new_dft_kernel (twid0 ! (NT - 1)) (twid1 ! (NT - 1)) (cores (NT - 1));
     let k_middle = map (\<lambda>kk. fst (new_dft_kernel (twid0 ! (kk + 1)) (twid1 ! (kk + 1)) (cores (kk + 1)))) [0..<NT - 2];
     io \<leftarrow> invoke n (run_input ops k_input NSAMP) (tile_ports sig 0 []);
     io \<leftarrow> invoke n (run_middle ops (k_middle ! 0) NSAMP) (tile_ports sig 1 (acc_o io));
     io \<leftarrow> invoke n (run_middle ops (k_middle ! 1) NSAMP) (tile_ports sig 2 (acc_o io));
     io \<leftarrow> invoke n (run_output ops core_o k_output NSAMP) (tile_ports sig 3 (acc_o io));
     Some (sig0_o io, sig1_o io) }"

definition DFT_NSAMP :: nat where "DFT_NSAMP = 8192"

definition dft_twiddles :: "(cint16 list list \<times> cint16 list list) list" where
  "dft_twiddles = [(A_TWID0, A_TWID1), (B_TWID0, B_TWID1), (C_TWID0, C_TWID1), (D_TWID0, D_TWID1)]"

text \<open>Output stream \<open>ii\<close>: the cascade it is connected to and the port of it.\<close>

definition dft_source :: "nat \<Rightarrow> nat \<times> nat" where
  "dft_source ii = (if ii < 2 then (0, ii) else if ii < 4 then (1, ii - 2) else if ii < 6 then (2, ii - 4) else (3, ii - 6))"

definition m16_ssr8_dft_graph ::
  "aie_ops \<Rightarrow> (nat \<Rightarrow> nat \<Rightarrow> aie_core) \<Rightarrow> nat \<Rightarrow> (nat \<Rightarrow> cint16 list) \<Rightarrow> nat \<Rightarrow> cint16 list option" where
  "m16_ssr8_dft_graph ops cores n sig ii = (case dft_source ii of (g, port) \<Rightarrow>
     (case dft_1xN_widget_graph ops (cores g) DFT_NSAMP (fst (dft_twiddles ! g)) (snd (dft_twiddles ! g)) n sig of
       None \<Rightarrow> None
     | Some (out0, out1) \<Rightarrow> Some (if port = 0 then out0 else out1)))"

section \<open>The tables are Fourier matrices\<close>

lemmas twiddles = A_TWID0_def A_TWID1_def B_TWID0_def B_TWID1_def C_TWID0_def C_TWID1_def D_TWID0_def D_TWID1_def

definition twiddle :: "nat \<Rightarrow> nat \<Rightarrow> nat \<Rightarrow> nat \<Rightarrow> nat \<Rightarrow> cint16" where
  "twiddle g kk s p l = (if s = 0 then fst (dft_twiddles ! g) else snd (dft_twiddles ! g)) ! kk ! (4 * p + l)"

text \<open>In cascade \<open>g\<close>, tile \<open>kk\<close> multiplies sample \<open>p\<close> of its stream \<open>s\<close> for lane \<open>l\<close>: input \<open>4 * kk + 2 * s + p\<close> of
  the transform, output \<open>4 * g + l\<close>.\<close>

lemma table_roots:
  "[A_TWID0, B_TWID0, C_TWID0, D_TWID0] =
     map (\<lambda>g. map (\<lambda>kk. map (\<lambda>j. root16 ((4 * kk + j div 4) * (4 * g + j mod 4))) [0..<8]) [0..<4]) [0..<4]"
  "[A_TWID1, B_TWID1, C_TWID1, D_TWID1] =
     map (\<lambda>g. map (\<lambda>kk. map (\<lambda>j. root16 ((4 * kk + 2 + j div 4) * (4 * g + j mod 4))) [0..<8]) [0..<4]) [0..<4]"
  by (simp_all add: twiddles root16_def roots_def upt_rec)

lemma dft_tables:
  assumes "g < 4"
  shows "fst (dft_twiddles ! g) = map (\<lambda>kk. map (\<lambda>j. root16 ((4 * kk + j div 4) * (4 * g + j mod 4))) [0..<8]) [0..<4]"
    "snd (dft_twiddles ! g) = map (\<lambda>kk. map (\<lambda>j. root16 ((4 * kk + 2 + j div 4) * (4 * g + j mod 4))) [0..<8]) [0..<4]"
proof -
  have t: "dft_twiddles = zip [A_TWID0, B_TWID0, C_TWID0, D_TWID0] [A_TWID1, B_TWID1, C_TWID1, D_TWID1]"
    by (simp add: dft_twiddles_def)
  show "fst (dft_twiddles ! g) = map (\<lambda>kk. map (\<lambda>j. root16 ((4 * kk + j div 4) * (4 * g + j mod 4))) [0..<8]) [0..<4]"
    "snd (dft_twiddles ! g) = map (\<lambda>kk. map (\<lambda>j. root16 ((4 * kk + 2 + j div 4) * (4 * g + j mod 4))) [0..<8]) [0..<4]"
    unfolding t table_roots using assms by simp_all
qed

section \<open>A cascade\<close>

text \<open>The kernel of tile \<open>kk\<close> and what the cascade has added up after tile \<open>kk\<close>.\<close>

definition tile_kernel :: "cint16 list list \<Rightarrow> cint16 list list \<Rightarrow> nat \<Rightarrow> dft_kernel" where
  "tile_kernel twid0 twid1 kk = \<lparr>coeff0 = twid0 ! kk, coeff1 = twid1 ! kk\<rparr>"

fun cascade :: "cint16 list list \<Rightarrow> cint16 list list \<Rightarrow> (nat \<Rightarrow> cint16 list) \<Rightarrow> nat \<Rightarrow> nat \<Rightarrow> cacc48 list" where
  "cascade twid0 twid1 sig 0 m = tile_acc (tile_kernel twid0 twid1 0) (sig 0) (sig 1) m"
| "cascade twid0 twid1 sig (Suc kk) m = acc_add (cascade twid0 twid1 sig kk m)
     (tile_acc (tile_kernel twid0 twid1 (Suc kk)) (sig (2 * Suc kk)) (sig (2 * Suc kk + 1)) m)"

lemma cascade_bounded: "acc_bounded (int (Suc kk) * 2 ^ 33) (cascade twid0 twid1 sig kk m)"
proof (induction kk)
  case 0
  then show ?case using tile_acc_bounded by simp
next
  case (Suc kk)
  have "int (Suc (Suc kk)) * 2 ^ 33 = int (Suc kk) * 2 ^ 33 + 2 ^ 33" by (simp add: algebra_simps)
  then show ?case using acc_add_bounded [OF Suc.IH tile_acc_bounded] by simp
qed

definition twiddles_ok :: "cint16 list list \<Rightarrow> bool" where
  "twiddles_ok twid \<longleftrightarrow> (\<forall>kk < 4. length (twid ! kk) = 8)"

lemma tile_kernel_ok:
  "aie_documented ops \<Longrightarrow> twiddles_ok twid0 \<Longrightarrow> twiddles_ok twid1 \<Longrightarrow> kk < 4 \<Longrightarrow> tile_ok ops (tile_kernel twid0 twid1 kk)"
  by (simp add: tile_ok_def tile_kernel_def twiddles_ok_def)

lemma cascade_input:
  assumes "tile_ok ops (tile_kernel twid0 twid1 0)" and len: "\<And>s. s < 8 \<Longrightarrow> 4 * (n * (NSAMP div 4)) \<le> length (sig s)"
  shows "\<exists>io. invoke n (run_input ops (tile_kernel twid0 twid1 0) NSAMP) (tile_ports sig 0 []) = Some io \<and>
    acc_o io = map (cascade twid0 twid1 sig 0) [0..<2 * (n * (NSAMP div 4))]"
proof -
  let ?q = "n * (NSAMP div 4)"
  have e: "enough 0 (\<lambda>_. True) ?q (tile_ports sig 0 [])"
    using len [of 0] len [of 1] by (simp add: enough_def tile_ports_def)
  have r: "run_input ops (tile_kernel twid0 twid1 0) NSAMP = dft_run (input_body ops (tile_kernel twid0 twid1 0)) NSAMP"
    by (rule ext) (simp add: run_input_def)
  have "cascade twid0 twid1 sig 0 = tile_acc (tile_kernel twid0 twid1 0) (sig 0) (sig 1)" by (rule ext) simp
  then show ?thesis
    unfolding r dft_in.invoke_run [OF assms(1) e]
    using len [of 0] len [of 1] by (simp add: advance_def tile_ports_def input_stream)
qed

lemma cascade_enough:
  assumes "4 * q \<le> length (sig (2 * Suc kk))" "4 * q \<le> length (sig (2 * Suc kk + 1))" "kk < 3"
  shows "enough 2 (acc_bounded (2 ^ 45)) q (tile_ports sig (Suc kk) (map (cascade twid0 twid1 sig kk) [0..<2 * q]))"
proof -
  have "int (Suc kk) * 2 ^ 33 \<le> 3 * 2 ^ 33" using assms(3) by (intro mult_right_mono) simp_all
  then have "int (Suc kk) * 2 ^ 33 \<le> (2 ^ 45 :: int)" by simp
  then have "acc_bounded (2 ^ 45) (cascade twid0 twid1 sig kk m)" for m by (rule acc_bounded_mono [OF cascade_bounded])
  then show ?thesis using assms by (auto simp: enough_def tile_ports_def)
qed

lemma cascade_middle:
  assumes "tile_ok ops (tile_kernel twid0 twid1 (Suc kk))" "kk < 3"
    and len: "4 * (n * (NSAMP div 4)) \<le> length (sig (2 * Suc kk))" "4 * (n * (NSAMP div 4)) \<le> length (sig (2 * Suc kk + 1))"
  shows "\<exists>io. invoke n (run_middle ops (tile_kernel twid0 twid1 (Suc kk)) NSAMP)
      (tile_ports sig (Suc kk) (map (cascade twid0 twid1 sig kk) [0..<2 * (n * (NSAMP div 4))])) = Some io \<and>
    acc_o io = map (cascade twid0 twid1 sig (Suc kk)) [0..<2 * (n * (NSAMP div 4))]"
proof -
  let ?q = "n * (NSAMP div 4)" and ?c = "map (cascade twid0 twid1 sig kk) [0..<2 * (n * (NSAMP div 4))]"
  have r: "run_middle ops (tile_kernel twid0 twid1 (Suc kk)) NSAMP = dft_run (middle_body ops (tile_kernel twid0 twid1 (Suc kk))) NSAMP"
    by (rule ext) (simp add: run_middle_def)
  have "block_outputs 2 (middle_outputs (tile_kernel twid0 twid1 (Suc kk))) ?q (sig (2 * Suc kk)) (sig (2 * Suc kk + 1)) ?c =
      map (cascade twid0 twid1 sig (Suc kk)) [0..<2 * ?q]"
    unfolding middle_stream [OF len, of ?c, simplified length_map length_upt diff_zero, OF order_refl]
    by (rule map_cong [OF refl]) simp
  then show ?thesis
    unfolding r dft_mid.invoke_run [OF assms(1) cascade_enough [OF len assms(2)]]
    by (simp add: advance_def tile_ports_def)
qed

lemma cascade_output:
  assumes "tile_ok ops (tile_kernel twid0 twid1 (Suc kk))" "kk < 3"
    and core: "rounding core = Positive_inf" "saturation core = Saturate"
    and len: "4 * (n * (NSAMP div 4)) \<le> length (sig (2 * Suc kk))" "4 * (n * (NSAMP div 4)) \<le> length (sig (2 * Suc kk + 1))"
  shows "\<exists>io. invoke n (run_output ops core (tile_kernel twid0 twid1 (Suc kk)) NSAMP)
      (tile_ports sig (Suc kk) (map (cascade twid0 twid1 sig kk) [0..<2 * (n * (NSAMP div 4))])) = Some io \<and>
    sig0_o io = concat (map (\<lambda>j. map (srs_value DFT_BIT_SHIFT) (cascade twid0 twid1 sig (Suc kk) (2 * j))) [0..<n * (NSAMP div 4)]) \<and>
    sig1_o io = concat (map (\<lambda>j. map (srs_value DFT_BIT_SHIFT) (cascade twid0 twid1 sig (Suc kk) (2 * j + 1))) [0..<n * (NSAMP div 4)])"
proof -
  let ?q = "n * (NSAMP div 4)" and ?c = "map (cascade twid0 twid1 sig kk) [0..<2 * (n * (NSAMP div 4))]"
  have r: "run_output ops core (tile_kernel twid0 twid1 (Suc kk)) NSAMP = dft_run (output_body ops core (tile_kernel twid0 twid1 (Suc kk))) NSAMP"
    by (rule ext) (simp add: run_output_def)
  have "block_outputs 2 (final_outputs (tile_kernel twid0 twid1 (Suc kk)) h) ?q (sig (2 * Suc kk)) (sig (2 * Suc kk + 1)) ?c =
      concat (map (\<lambda>j. map (srs_value DFT_BIT_SHIFT) (cascade twid0 twid1 sig (Suc kk) (2 * j + h))) [0..<?q])" if "h < 2" for h
    unfolding final_stream [OF len, of ?c, simplified length_map length_upt diff_zero, OF order_refl that]
    by (intro arg_cong [of _ _ concat] map_cong refl) (use that in simp)
  from this [of 0] this [of 1] show ?thesis
    unfolding r dft_out.invoke_run [OF conjI [OF assms(1) conjI [OF core]] cascade_enough [OF len assms(2)]]
    by (simp add: advance_def tile_ports_def)
qed

section \<open>The transform\<close>

lemma nth_concat_4:
  assumes "\<And>j. j < n \<Longrightarrow> length (f j) = 4" "j < n" "i < 4"
  shows "concat (map f [0..<n]) ! (4 * j + i) = f j ! i"
  using assms
proof (induction n)
  case (Suc n)
  have l: "length (concat (map f [0..<m])) = 4 * m" if "m \<le> Suc n" for m
    using that Suc.prems(1) by (induction m) simp_all
  show ?case
  proof (cases "j = n")
    case True
    then show ?thesis using l [of n] Suc.prems by (simp add: nth_append)
  next
    case False
    then have "j < n" using Suc.prems by simp
    then show ?thesis using Suc l [of n] by (simp add: nth_append)
  qed
qed simp

lemma length_concat_4: "(\<And>j. j < n \<Longrightarrow> length (f j) = 4) \<Longrightarrow> length (concat (map f [0..<n])) = 4 * n"
  by (induction n) simp_all

lemma length_cascade [simp]: "length (cascade twid0 twid1 sig kk m) = 4"
  using cascade_bounded [of kk twid0 twid1 sig m] by (simp add: acc_bounded_def)

lemma widget_run:
  assumes doc: "aie_documented ops" and tw: "twiddles_ok twid0" "twiddles_ok twid1"
    and len: "\<And>s. s < 8 \<Longrightarrow> 4 * (n * (NSAMP div 4)) \<le> length (sig s)"
  shows "dft_1xN_widget_graph ops cores NSAMP twid0 twid1 n sig = Some
    (concat (map (\<lambda>j. map (srs_value DFT_BIT_SHIFT) (cascade twid0 twid1 sig 3 (2 * j))) [0..<n * (NSAMP div 4)]),
     concat (map (\<lambda>j. map (srs_value DFT_BIT_SHIFT) (cascade twid0 twid1 sig 3 (2 * j + 1))) [0..<n * (NSAMP div 4)]))"
proof -
  let ?K = "tile_kernel twid0 twid1" and ?q = "n * (NSAMP div 4)"
  let ?c = "\<lambda>kk. map (cascade twid0 twid1 sig kk) [0..<2 * ?q]"
  define core where "core = snd (new_dft_kernel (twid0 ! 3) (twid1 ! 3) (cores 3))"
  have core: "rounding core = Positive_inf" "saturation core = Saturate"
    by (simp_all add: core_def new_dft_kernel_def set_rounding_def set_saturation_def)
  note ok = tile_kernel_ok [OF doc tw]
  have new: "new_dft_kernel (twid0 ! 0) (twid1 ! 0) (cores 0) = (?K 0, set_saturation Saturate (set_rounding Positive_inf (cores 0)))"
    by (simp add: new_dft_kernel_def tile_kernel_def)
  have e3: "Suc 2 = (3 :: nat)" by simp
  have l6: "4 * ?q \<le> length (sig (2 * 3))" "4 * ?q \<le> length (sig (2 * 3 + 1))" using len by simp_all
  obtain io0 where io0: "invoke n (run_input ops (?K 0) NSAMP) (tile_ports sig 0 []) = Some io0" "acc_o io0 = ?c 0"
    using cascade_input [OF ok, of n NSAMP sig] len by auto
  obtain io1 where io1: "invoke n (run_middle ops (?K 1) NSAMP) (tile_ports sig 1 (?c 0)) = Some io1" "acc_o io1 = ?c 1"
    using cascade_middle [of ops twid0 twid1 0, OF ok, of n NSAMP sig] len by auto
  obtain io2 where io2: "invoke n (run_middle ops (?K 2) NSAMP) (tile_ports sig 2 (?c 1)) = Some io2" "acc_o io2 = ?c 2"
    using cascade_middle [of ops twid0 twid1 1, OF ok, of n NSAMP sig] len by (auto simp: numeral_2_eq_2)
  obtain io3 where io3: "invoke n (run_output ops core (?K 3) NSAMP) (tile_ports sig 3 (?c 2)) = Some io3"
    "sig0_o io3 = concat (map (\<lambda>j. map (srs_value DFT_BIT_SHIFT) (cascade twid0 twid1 sig 3 (2 * j))) [0..<?q])"
    "sig1_o io3 = concat (map (\<lambda>j. map (srs_value DFT_BIT_SHIFT) (cascade twid0 twid1 sig 3 (2 * j + 1))) [0..<?q])"
    using cascade_output [of ops twid0 twid1 2 core n NSAMP sig, unfolded e3, OF ok _ core l6] by auto
  have m: "map (\<lambda>kk. fst (new_dft_kernel (twid0 ! (kk + 1)) (twid1 ! (kk + 1)) (cores (kk + 1)))) [0..<NT - 2] = [?K 1, ?K 2]"
    by (simp add: NT_def upt_rec new_dft_kernel_def tile_kernel_def numeral_2_eq_2)
  have out: "new_dft_kernel (twid0 ! (NT - 1)) (twid1 ! (NT - 1)) (cores (NT - 1)) = (?K 3, core)"
    unfolding NT_def core_def by (simp add: new_dft_kernel_def tile_kernel_def)
  show ?thesis
    unfolding dft_1xN_widget_graph_def m out Let_def new using io0 io1 io2 io3 by simp
qed

lemma cascade_lanes:
  "i < 4 \<Longrightarrow> cascade twid0 twid1 sig kk m ! i =
    cdot (concat (map (\<lambda>kk. tile_terms (tile_kernel twid0 twid1 kk) (sig (2 * kk)) (sig (2 * kk + 1)) m i) [0..<Suc kk]))"
proof (induction kk)
  case 0
  then show ?case by (simp add: tile_acc_def)
next
  case (Suc kk)
  have "cascade twid0 twid1 sig (Suc kk) m ! i = cadd (cascade twid0 twid1 sig kk m ! i)
      (cdot (tile_terms (tile_kernel twid0 twid1 (Suc kk)) (sig (2 * Suc kk)) (sig (2 * Suc kk + 1)) m i))"
    using Suc.prems by (simp add: acc_add_def tile_acc_def)
  then show ?case unfolding Suc.IH [OF Suc.prems] by (simp add: cdot_append cadd_assoc)
qed

definition dft_terms :: "(nat \<Rightarrow> cint16 list) \<Rightarrow> nat \<Rightarrow> nat \<Rightarrow> (cint16 \<times> cint16) list" where
  "dft_terms sig m c = map (\<lambda>x. (sig (x div 2) ! (2 * m + x mod 2), root16 (x * c))) [0..<16]"

lemma concat_fours: "concat (map (\<lambda>kk. map f [4 * kk..<4 * kk + 4]) [0..<n]) = map f [0..<4 * n]"
proof (induction n)
  case (Suc n)
  have "[0..<4 * Suc n] = [0..<4 * n] @ [4 * n..<4 * n + 4]"
    using upt_add_eq_append [of 0 "4 * n" 4] by (simp add: add.commute)
  with Suc show ?case by simp
qed simp

lemma cascade_dft:
  assumes g: "g < 4" and i: "i < 4"
  shows "cascade (fst (dft_twiddles ! g)) (snd (dft_twiddles ! g)) sig 3 m ! i = cdot (dft_terms sig m (4 * g + i))"
proof -
  let ?K = "tile_kernel (fst (dft_twiddles ! g)) (snd (dft_twiddles ! g))"
  let ?t = "\<lambda>x. (sig (x div 2) ! (2 * m + x mod 2), root16 (x * (4 * g + i)))"
  have "tile_terms (?K kk) (sig (2 * kk)) (sig (2 * kk + 1)) m i = map ?t [4 * kk..<4 * kk + 4]" if "kk < 4" for kk
  proof -
    have c: "coeff0 (?K kk) ! j = root16 ((4 * kk + j div 4) * (4 * g + j mod 4))"
      "coeff1 (?K kk) ! j = root16 ((4 * kk + 2 + j div 4) * (4 * g + j mod 4))" if "j < 8" for j
      using that \<open>kk < 4\<close> by (simp_all add: tile_kernel_def dft_tables [OF g])
    have "(4 + i) div 4 = 1" "(4 + i) mod 4 = i" "i div 4 = 0" "i mod 4 = i" using i by simp_all
    moreover have "4 * kk div 2 = 2 * kk" "(4 * kk + 1) div 2 = 2 * kk" "(4 * kk + 2) div 2 = 2 * kk + 1"
      "(4 * kk + 3) div 2 = 2 * kk + 1" "4 * kk mod 2 = 0" "(4 * kk + 1) mod 2 = 1" "(4 * kk + 2) mod 2 = 0"
      "(4 * kk + 3) mod 2 = 1" by presburger+
    moreover have "[4 * kk..<4 * kk + 4] = [4 * kk, 4 * kk + 1, 4 * kk + 2, 4 * kk + 3]" by (simp add: upt_rec numeral_eq_Suc)
    ultimately show ?thesis using i by (simp only: tile_terms_def c list.map) (simp add: c algebra_simps)
  qed
  then have "map (\<lambda>kk. tile_terms (?K kk) (sig (2 * kk)) (sig (2 * kk + 1)) m i) [0..<4] =
      map (\<lambda>kk. map ?t [4 * kk..<4 * kk + 4]) [0..<4]" by (intro map_cong refl) simp
  moreover have "concat (map (\<lambda>kk. map ?t [4 * kk..<4 * kk + 4]) [0..<4]) = map ?t [0..<16]"
    using concat_fours [of ?t 4] by simp
  moreover have "[0..<Suc 3] = [0..<4]" by simp
  ultimately show ?thesis unfolding cascade_lanes [OF i] dft_terms_def by (simp only:)
qed

lemma dft_run_graph:
  assumes doc: "aie_documented ops" and ii: "ii < 8" and len: "\<And>s. s < 8 \<Longrightarrow> n * DFT_NSAMP \<le> length (sig s)"
  shows "\<exists>out. m16_ssr8_dft_graph ops cores n sig ii = Some out \<and> length out = n * DFT_NSAMP \<and>
    (\<forall>j < n * (DFT_NSAMP div 4). \<forall>l < 4. out ! (4 * j + l) =
       srs_value DFT_BIT_SHIFT (cdot (dft_terms sig (2 * j + ii mod 2) (4 * (ii div 2) + l))))"
proof -
  have "ii = 0 \<or> ii = 1 \<or> ii = 2 \<or> ii = 3 \<or> ii = 4 \<or> ii = 5 \<or> ii = 6 \<or> ii = 7" using ii by linarith
  then have src: "dft_source ii = (ii div 2, ii mod 2)" by (elim disjE) (simp_all add: dft_source_def)
  let ?g = "ii div 2" and ?q = "n * (DFT_NSAMP div 4)"
  have g: "?g < 4" using ii by simp
  have tw: "twiddles_ok (fst (dft_twiddles ! ?g))" "twiddles_ok (snd (dft_twiddles ! ?g))"
    by (simp_all add: twiddles_ok_def dft_tables [OF g])
  have q: "4 * ?q = n * DFT_NSAMP" by (simp add: DFT_NSAMP_def)
  let ?o = "\<lambda>h j. map (srs_value DFT_BIT_SHIFT) (cascade (fst (dft_twiddles ! ?g)) (snd (dft_twiddles ! ?g)) sig 3 (2 * j + h))"
  let ?out = "concat (map (?o (ii mod 2)) [0..<?q])"
  have "dft_1xN_widget_graph ops (cores ?g) DFT_NSAMP (fst (dft_twiddles ! ?g)) (snd (dft_twiddles ! ?g)) n sig =
      Some (concat (map (?o 0) [0..<?q]), concat (map (?o 1) [0..<?q]))"
    using widget_run [OF doc tw, of n DFT_NSAMP sig "cores ?g"] len unfolding q by simp
  then have "m16_ssr8_dft_graph ops cores n sig ii = Some ?out"
    by (auto simp: m16_ssr8_dft_graph_def src mod_2_eq_odd)
  moreover have "length ?out = n * DFT_NSAMP" by (subst length_concat_4) (simp_all add: q)
  moreover have "?out ! (4 * j + l) = srs_value DFT_BIT_SHIFT (cdot (dft_terms sig (2 * j + ii mod 2) (4 * ?g + l)))"
    if "j < ?q" "l < 4" for j l
    using that by (subst nth_concat_4) (simp_all add: cascade_dft [OF g])
  ultimately show ?thesis by blast
qed

end
