(* ===== verification/Channelizer.thy ===== *)
theory Channelizer
  imports Filterbank DFT_Graph Board_Kernels
begin

text \<open>
  The graph of the channelizer, \<^verbatim>\<open>m16_ssr8_graph.h\<close>: the filter bank and the transform on the PLIOs of the test
  harness, and the graph as what stands between the streams of the VCK190 kernel.
\<close>

section \<open>The graph\<close>

text \<open>The PLIOs are numbered as in \<open>test_harness::in_names\<close> and \<open>out_names\<close>: those of the filter bank and of the
  transform for stream \<open>ii\<close>.\<close>

definition plio_fbank_i :: "nat \<Rightarrow> nat" where "plio_fbank_i ii = 16 + ii * 2"
definition plio_fbank_o :: "nat \<Rightarrow> nat" where "plio_fbank_o ii = 16 + ii * 2 + 1"
definition plio_dft_i :: "nat \<Rightarrow> nat" where "plio_dft_i ii = ii * 2"
definition plio_dft_o :: "nat \<Rightarrow> nat" where "plio_dft_o ii = ii * 2 + 1"

text \<open>What comes out of output PLIO \<open>p\<close> in \<open>n\<close> iterations when \<open>plio i\<close> goes into input PLIO \<open>i\<close>: nothing on a
  PLIO the loop does not create.\<close>

definition m16_ssr8_graph ::
  "aie_ops \<Rightarrow> (nat \<Rightarrow> aie_core) \<Rightarrow> (nat \<Rightarrow> nat \<Rightarrow> aie_core) \<Rightarrow> nat \<Rightarrow> (nat \<Rightarrow> cint16 list) \<Rightarrow> nat \<Rightarrow> cint16 list option" where
  "m16_ssr8_graph ops fbank_cores dft_cores n plio p =
     (case find (\<lambda>ii. plio_fbank_o ii = p) [0..<8] of
       Some ii \<Rightarrow> m16_ssr8_filterbank_graph ops fbank_cores n (\<lambda>ii. plio (plio_fbank_i ii)) ii
     | None \<Rightarrow> (case find (\<lambda>ii. plio_dft_o ii = p) [0..<8] of
         Some ii \<Rightarrow> m16_ssr8_dft_graph ops dft_cores n (\<lambda>ii. plio (plio_dft_i ii)) ii
       | None \<Rightarrow> None))"

lemmas plio_defs = plio_fbank_i_def plio_fbank_o_def plio_dft_i_def plio_dft_o_def

lemma graph_ports:
  assumes "ii < 8"
  shows "m16_ssr8_graph ops fc dc n plio (plio_fbank_o ii) = m16_ssr8_filterbank_graph ops fc n (\<lambda>ii. plio (plio_fbank_i ii)) ii"
    "m16_ssr8_graph ops fc dc n plio (plio_dft_o ii) = m16_ssr8_dft_graph ops dc n (\<lambda>ii. plio (plio_dft_i ii)) ii"
proof -
  have "ii = 0 \<or> ii = 1 \<or> ii = 2 \<or> ii = 3 \<or> ii = 4 \<or> ii = 5 \<or> ii = 6 \<or> ii = 7" using assms by linarith
  then have "find (\<lambda>k. plio_fbank_o k = plio_fbank_o ii) [0..<8] = Some ii"
    "find (\<lambda>k. plio_fbank_o k = plio_dft_o ii) [0..<8] = None" "find (\<lambda>k. plio_dft_o k = plio_dft_o ii) [0..<8] = Some ii"
    by (elim disjE; simp add: plio_fbank_o_def plio_dft_o_def upt_rec)+
  then show "m16_ssr8_graph ops fc dc n plio (plio_fbank_o ii) = m16_ssr8_filterbank_graph ops fc n (\<lambda>ii. plio (plio_fbank_i ii)) ii"
    "m16_ssr8_graph ops fc dc n plio (plio_dft_o ii) = m16_ssr8_dft_graph ops dc n (\<lambda>ii. plio (plio_dft_i ii)) ii"
    by (simp_all add: m16_ssr8_graph_def)
qed

section \<open>Between the streams of a kernel\<close>

text \<open>
  A PLIO of 128 bits carries four samples in a word. How they lie in it is up to the hardware: \<open>unpack\<close> and \<open>pack\<close> are
  parameters.
\<close>

definition plio_samples :: "('w \<Rightarrow> cint16 list) \<Rightarrow> 'w list \<Rightarrow> cint16 list" where
  "plio_samples unpack ws = concat (map unpack ws)"

definition plio_words :: "(cint16 list \<Rightarrow> 'w) \<Rightarrow> cint16 list \<Rightarrow> 'w list" where
  "plio_words pack ys = map (\<lambda>j. pack (take 4 (drop (4 * j) ys))) [0..<length ys div 4]"

definition channelizer_aie ::
  "('s::len word \<Rightarrow> cint16 list) \<Rightarrow> (cint16 list \<Rightarrow> 's word) \<Rightarrow> aie_ops \<Rightarrow> (nat \<Rightarrow> aie_core) \<Rightarrow> (nat \<Rightarrow> nat \<Rightarrow> aie_core) \<Rightarrow> nat \<Rightarrow>
    (strm \<Rightarrow> 's word ap_axiu list) \<Rightarrow> strm \<Rightarrow> 's word ap_axiu list" where
  "channelizer_aie unpack pack ops fbank_cores dft_cores n out s = (case s of
     To i \<Rightarrow> []
   | From p \<Rightarrow> (case m16_ssr8_graph ops fbank_cores dft_cores n (\<lambda>i. plio_samples unpack (map axi_data (out (To i)))) p of
       None \<Rightarrow> []
     | Some ys \<Rightarrow> map axi_word (plio_words pack ys)))"

lemma length_plio_samples: "(\<And>w. length (unpack w) = 4) \<Longrightarrow> length (plio_samples unpack ws) = 4 * length ws"
  by (induction ws) (simp_all add: plio_samples_def)

lemma length_plio_words: "length (plio_words pack ys) = length ys div 4"
  by (simp add: plio_words_def)

end
