(* ===== verification/Roots_Of_Unity.thy ===== *)
theory Roots_Of_Unity
  imports DFT_Graph Complex_Main
begin

text \<open>The entries of the twiddle tables are the sixteenth roots of unity up to one unit of Q15.\<close>

section \<open>Five cosines\<close>

lemma cos_eighth_sq: "cos (pi / 8) ^ 2 = (1 + sqrt 2 / 2) / 2" "sin (pi / 8) ^ 2 = (1 - sqrt 2 / 2) / 2"
  using cos_double_cos [of "pi / 8"] cos_double_sin [of "pi / 8"] cos_45 by (simp_all add: field_simps)

lemma sqrt2_bounds: "23170 / 32768 \<le> sqrt 2 / 2" "sqrt 2 / 2 \<le> 23171 / (32768 :: real)"
proof -
  have "46340 / 32768 \<le> sqrt 2" by (rule real_le_rsqrt) (simp add: power2_eq_square)
  then show "23170 / 32768 \<le> sqrt 2 / 2" by simp
  have "sqrt 2 \<le> 46342 / 32768" by (rule real_le_lsqrt) (simp_all add: power2_eq_square)
  then show "sqrt 2 / 2 \<le> 23171 / 32768" by simp
qed

lemma near_root:
  assumes sq: "x ^ 2 = (y :: real)" and x: "0 \<le> x" and lo: "(v - 1) ^ 2 \<le> 32768 ^ 2 * y" and hi: "32768 ^ 2 * y \<le> (v + 1) ^ 2"
    and v: "0 \<le> v"
  shows "\<bar>v - 32768 * x\<bar> \<le> 1"
proof -
  have e: "(32768 * x) ^ 2 = 32768 ^ 2 * y" by (simp add: power_mult_distrib sq)
  have "v - 1 \<le> 32768 * x" by (rule power2_le_imp_le) (use lo x in \<open>simp only: e, simp\<close>)
  moreover have "32768 * x \<le> v + 1" by (rule power2_le_imp_le) (use hi v in \<open>simp only: e, simp\<close>)
  ultimately show ?thesis by (simp add: abs_le_iff)
qed

lemma base_cosines:
  "\<bar>30274 - 32768 * cos (pi / 8)\<bar> \<le> 1" "\<bar>23170 - 32768 * cos (pi / 4)\<bar> \<le> 1" "\<bar>12540 - 32768 * sin (pi / 8)\<bar> \<le> 1"
proof -
  have "0 \<le> cos (pi / 8)" by (rule cos_ge_zero) simp_all
  then show "\<bar>30274 - 32768 * cos (pi / 8)\<bar> \<le> 1"
    by (rule near_root [OF cos_eighth_sq(1)]) (use sqrt2_bounds in \<open>simp_all add: power2_eq_square\<close>)
  show "\<bar>23170 - 32768 * cos (pi / 4)\<bar> \<le> 1" using sqrt2_bounds by (simp add: cos_45 abs_le_iff)
  have "0 \<le> sin (pi / 8)" by (rule sin_ge_zero) simp_all
  then show "\<bar>12540 - 32768 * sin (pi / 8)\<bar> \<le> 1"
    by (rule near_root [OF cos_eighth_sq(2)]) (use sqrt2_bounds in \<open>simp_all add: power2_eq_square\<close>)
qed

section \<open>All sixteen\<close>

definition cos16 :: "nat \<Rightarrow> real" where
  "cos16 k = cos (2 * pi * real k / 16)"

definition sin16 :: "nat \<Rightarrow> real" where
  "sin16 k = sin (2 * pi * real k / 16)"

lemma cos16_values:
  "cos16 0 = 1" "cos16 1 = cos (pi / 8)" "cos16 2 = cos (pi / 4)" "cos16 3 = sin (pi / 8)" "cos16 4 = 0"
proof -
  show "cos16 0 = 1" "cos16 1 = cos (pi / 8)" "cos16 2 = cos (pi / 4)" by (simp_all add: cos16_def)
  show "cos16 4 = 0" by (simp add: cos16_def)
  show "cos16 3 = sin (pi / 8)" unfolding cos16_def sin_cos_eq by (rule arg_cong [of _ _ cos]) simp
qed

lemma cos16_minus: "cos16 (k + 8) = - cos16 k" "k \<le> 16 \<Longrightarrow> cos16 (16 - k) = cos16 k"
proof -
  have "2 * pi * real (k + 8) / 16 = 2 * pi * real k / 16 + pi" by (simp add: field_simps)
  then show "cos16 (k + 8) = - cos16 k" by (simp only: cos16_def cos_periodic_pi)
  assume "k \<le> 16"
  then have "2 * pi * real (16 - k) / 16 = 2 * pi - 2 * pi * real k / 16" by (simp add: field_simps)
  then show "cos16 (16 - k) = cos16 k" by (simp only: cos16_def cos_2pi_minus)
qed

lemma sin16_cos: "sin16 k = cos16 (k + 12)"
proof -
  have "2 * pi * real (k + 12) / 16 = 2 * pi * real k / 16 - pi / 2 + 2 * pi" by (simp add: field_simps)
  then have "cos16 (k + 12) = cos (2 * pi * real k / 16 - pi / 2)" by (simp only: cos16_def cos_periodic)
  also have "\<dots> = cos (pi / 2 - 2 * pi * real k / 16)" by (metis cos_minus minus_diff_eq)
  finally show ?thesis by (simp add: sin16_def sin_cos_eq)
qed

lemma cos16_mod: "cos16 (n mod 16) = cos16 n"
proof -
  have "n = n mod 16 + 16 * (n div 16)" by simp
  then have "real n = real (n mod 16) + 16 * real (n div 16)" by (metis of_nat_add of_nat_mult of_nat_numeral)
  then have "2 * pi * real n / 16 = 2 * pi * real (n mod 16) / 16 + 2 * real (n div 16) * pi" by (simp add: field_simps)
  then show ?thesis by (simp only: cos16_def cos_add cos_2npi sin_2npi mult_1_right mult_zero_right diff_zero)
qed

lemma cos16_all:
  "cos16 5 = - sin (pi / 8)" "cos16 6 = - cos (pi / 4)" "cos16 7 = - cos (pi / 8)" "cos16 8 = - 1"
  "cos16 9 = - cos (pi / 8)" "cos16 10 = - cos (pi / 4)" "cos16 11 = - sin (pi / 8)" "cos16 12 = 0"
  "cos16 13 = sin (pi / 8)" "cos16 14 = cos (pi / 4)" "cos16 15 = cos (pi / 8)"
  using cos16_minus(1) [of 0] cos16_minus(1) [of 1] cos16_minus(1) [of 2] cos16_minus(1) [of 3] cos16_minus(1) [of 4]
    cos16_minus(1) [of 5] cos16_minus(1) [of 6] cos16_minus(1) [of 7] cos16_minus(2) [of 1] cos16_minus(2) [of 2]
    cos16_minus(2) [of 3] cos16_values
  by simp_all

lemma cos16_wrap: "cos16 (n + 16) = cos16 n"
  using cos16_mod [of "n + 16"] cos16_mod [of n] by simp

lemma root_parts:
  "map (\<lambda>z. sint (c_re z)) roots = [32767, 30274, 23170, 12540, 0, -12540, -23170, -30274, -32768, -30274, -23170,
     -12540, 0, 12540, 23170, 30274]"
  "map (\<lambda>z. sint (c_im z)) roots = [0, 12540, 23170, 30274, 32767, 30274, 23170, 12540, 0, -12540, -23170, -30274,
     -32768, -30274, -23170, -12540]"
  by code_simp+

lemma root16_near:
  "\<bar>real_of_int (sint (c_re (root16 n))) - 32768 * cos16 n\<bar> \<le> 1 \<and>
   \<bar>real_of_int (sint (c_im (root16 n))) - 32768 * sin16 n\<bar> \<le> 1"
proof -
  define k where "k = n mod 16"
  have k: "k < 16" "root16 n = roots ! k" "cos16 n = cos16 k" "sin16 n = cos16 (k + 12)"
    using cos16_mod [of n] cos16_mod [of "n + 12"] cos16_mod [of "n mod 16 + 12"]
    by (simp_all add: k_def root16_def sin16_cos mod_add_left_eq)
  have len: "length roots = 16" by (simp add: roots_def)
  have p: "sint (c_re (roots ! k)) = map (\<lambda>z. sint (c_re z)) roots ! k" "sint (c_im (roots ! k)) = map (\<lambda>z. sint (c_im z)) roots ! k"
    using k(1) len by simp_all
  have w: "cos16 16 = 1" "cos16 17 = cos (pi / 8)" "cos16 18 = cos (pi / 4)" "cos16 19 = sin (pi / 8)" "cos16 20 = 0"
    "cos16 21 = - sin (pi / 8)" "cos16 22 = - cos (pi / 4)" "cos16 23 = - cos (pi / 8)" "cos16 24 = - 1"
    "cos16 25 = - cos (pi / 8)" "cos16 26 = - cos (pi / 4)" "cos16 27 = - sin (pi / 8)"
    using cos16_wrap [of 0] cos16_wrap [of 1] cos16_wrap [of 2] cos16_wrap [of 3] cos16_wrap [of 4] cos16_wrap [of 5]
      cos16_wrap [of 6] cos16_wrap [of 7] cos16_wrap [of 8] cos16_wrap [of 9] cos16_wrap [of 10] cos16_wrap [of 11]
    by (simp_all add: cos16_values [simplified] cos16_all)
  have "k = 0 \<or> k = 1 \<or> k = 2 \<or> k = 3 \<or> k = 4 \<or> k = 5 \<or> k = 6 \<or> k = 7 \<or> k = 8 \<or> k = 9 \<or> k = 10 \<or>
      k = 11 \<or> k = 12 \<or> k = 13 \<or> k = 14 \<or> k = 15" using k(1) by presburger
  then show ?thesis
    unfolding k(2-4) p root_parts
    by (elim disjE) (use base_cosines in \<open>simp_all add: cos16_values [simplified] cos16_values cos16_all w abs_le_iff\<close>)
qed

end
