(* ===== verification/Channelizer_Claims.thy ===== *)
theory Channelizer_Claims
  imports Channelizer Roots_Of_Unity Board_Claims
begin

text \<open>The properties of the channelizer.\<close>

section \<open>The filter bank\<close>

text \<open>C20: the filter bank. Whatever the number of invocations, the vector code of tile \<open>t\<close> computes two exact
  filters: the four-by-four interleaved samples of filter \<open>f\<close> come out as the rounded and saturated sums of the
  eight most recent samples of the filter, without the repeated ones, times the taps of branch \<open>2 * t + f + 14 * n\<close>
  of one prototype filter, which steps down by two of sixteen branches with every sample. The state of a filter is carried
  over from one invocation to the next, and no accumulator overflows.\<close>

theorem filterbank_correct:
  assumes "aie_documented ops" and "t < 8" and "k * NSAMP \<le> length (sig t)"
  shows "\<exists>out. m16_ssr8_filterbank_graph ops cores k sig t = Some out \<and> length out = k * NSAMP \<and>
    (\<forall>f < 2. length (filter_samples f out) = k * 4096 \<and>
       (\<forall>n < k * 4096. filter_samples f out ! n =
          srs_value BIT_SHIFT (rdot (zip (recent t (filter_samples f (sig t)) n) (branch (2 * t + f + 14 * n))))))"
  by (rule filterbank_tile [where ops = ops and t = t and k = k and sig = sig, OF assms])

theorem filterbank_correct_witness:
  "\<exists>out. m16_ssr8_filterbank_graph exact_ops (\<lambda>_. \<lparr>rounding = Other_rounding, saturation = Other_saturation\<rparr>) 1
      (\<lambda>_. replicate 8192 (cw 100 (-100))) 3 = Some out \<and> length out = 8192"
  using filterbank_correct [OF exact_documented, of 3 1 "\<lambda>_. replicate 8192 (cw 100 (-100))"
      "\<lambda>_. \<lparr>rounding = Other_rounding, saturation = Other_saturation\<rparr>"]
  by (auto simp: NSAMP_def)

text \<open>C21: the tables of the filter bank. The 16 tables of 64 taps, reordered for the vector instructions, are the 16
  polyphase branches of one prototype filter, each filter's at its own starting phase; and the prototype is symmetric
  about its tap 64, so the bank has linear phase.\<close>

theorem tables_polyphase:
  assumes "t < 8" "f < 2" "q < 8"
  shows "phase_taps (tile_taps t f) q = map (\<lambda>j. prototype ((2 * t + f + 14 * q) mod 16 + 16 * j)) [0..<8] \<and>
    prototype 0 = 0 \<and> (\<forall>n. 0 < n \<and> n < 128 \<longrightarrow> prototype (128 - n) = prototype n)"
proof (intro conjI allI impI)
  show "phase_taps (tile_taps t f) q = map (\<lambda>j. prototype ((2 * t + f + 14 * q) mod 16 + 16 * j)) [0..<8]"
    using tile_branches [OF assms] by (simp add: branch_def)
  show "prototype 0 = 0" by (rule prototype_symmetric(3))
  have tap: "prototype m = branch m ! (m div 16)" if "m < 128" for m
  proof -
    have "m mod 16 + 16 * (m div 16) = m" by simp
    then show ?thesis using that by (simp add: branch_def)
  qed
  fix n :: nat assume n: "0 < n \<and> n < 128"
  show "prototype (128 - n) = prototype n"
  proof (cases "n mod 16 = 0")
    case True
    then obtain j where j: "n = 16 * j" by auto
    with n have "j = 1 \<or> j = 2 \<or> j = 3 \<or> j = 4 \<or> j = 5 \<or> j = 6 \<or> j = 7" by linarith
    then show ?thesis using n by (elim disjE) (simp_all add: j tap branch_value branch_rows_def)
  next
    case False
    define r j where "r = n mod 16" and "j = n div 16"
    have nr: "n = r + 16 * j" "0 < r" "r < 16" "j < 8" using n False less_mult_imp_div_less [of n 8 16] by (simp_all add: r_def j_def)
    have e: "128 - n = (16 - r) + 16 * (7 - j)" using nr by linarith
    have d: "(128 - n) div 16 = 7 - j" unfolding e using nr by simp
    have "branch (128 - n) = branch (16 - r)" unfolding branch_value e by simp
    also have "\<dots> = rev (branch r)" using prototype_symmetric(1) nr by (simp add: list_all_iff)
    also have "branch r = branch n" unfolding branch_value nr(1) by simp
    finally have "branch (128 - n) ! (7 - j) = branch n ! j"
      using nr(4) by (simp add: rev_nth branch_def)
    then show ?thesis using n by (simp add: tap d j_def)
  qed
qed

theorem tables_polyphase_witness:
  "phase_taps tile3_tapsB 2 = map (\<lambda>j. prototype (3 + 16 * j)) [0..<8]"
  using tables_polyphase [of 3 1 2] by (simp add: tile_taps_def)

text \<open>C22: no output of the filter bank is ever saturated: both its parts are the exact sum rounded to the nearest
  integer, and at most 3350 in magnitude, whatever the input.\<close>

lemma rdot_gain:
  assumes "length w = length taps"
  shows "\<bar>fst (rdot (zip w taps))\<bar> \<le> 2 ^ 15 * gain taps \<and> \<bar>snd (rdot (zip w taps))\<bar> \<le> 2 ^ 15 * gain taps"
  using assms
proof (induction w taps rule: list_induct2)
  case (Cons x w t ts)
  have "\<bar>sint a * sint t\<bar> \<le> 2 ^ 15 * \<bar>sint t\<bar>" for a :: int16
    unfolding abs_mult by (intro mult_right_mono sint16_bound) simp
  note p = this [of "c_re x"] this [of "c_im x"]
  have tri: "\<bar>a + b\<bar> \<le> u + v" if "\<bar>a\<bar> \<le> u" "\<bar>b\<bar> \<le> v" for a b u v :: int using that by linarith
  show ?case
    using tri [OF p(1) Cons.IH [THEN conjunct1]] tri [OF p(2) Cons.IH [THEN conjunct2]]
    by (simp add: rdot_def gain_def distrib_left)
qed (simp add: rdot_def gain_def)

lemma round_shift_small:
  assumes "\<bar>v\<bar> \<le> 2 ^ 15 * m" "m \<le> 3350"
  shows "\<bar>round_shift 15 v\<bar> \<le> m" "sint (word_of_int (saturate16 (round_shift 15 v)) :: int16) = round_shift 15 v"
proof -
  have v: "- (32768 * m) \<le> v" "v \<le> 32768 * m" using assms(1) by (simp_all add: abs_le_iff)
  have "(v + 16384) div 32768 \<le> (32768 * m + 16384) div 32768" by (intro zdiv_mono1) (use v in simp_all)
  also have "(32768 * m + 16384) div 32768 = m" by simp
  finally have u: "(v + 16384) div 32768 \<le> m" .
  have "(32768 * (- m) + 16384) div 32768 \<le> (v + 16384) div 32768" by (intro zdiv_mono1) (use v in simp_all)
  moreover have "(32768 * (- m) + 16384) div 32768 = - m" by (subst div_mult_self4) simp_all
  ultimately have b: "- m \<le> round_shift 15 v" "round_shift 15 v \<le> m" using u by (simp_all add: round_shift_def)
  then show "\<bar>round_shift 15 v\<bar> \<le> m" by (simp add: abs_le_iff)
  have s: "saturate16 (round_shift 15 v) = round_shift 15 v" using b assms(2) by (simp add: saturate16_def)
  show "sint (word_of_int (saturate16 (round_shift 15 v)) :: int16) = round_shift 15 v"
    unfolding s using b assms(2) by (simp add: sint_sbintrunc' signed_take_bit_int_eq_self)
qed

theorem filterbank_never_saturates:
  assumes "aie_documented ops" and "t < 8" and "k * NSAMP \<le> length (sig t)" and "f < 2" and "n < k * 4096"
  shows "\<exists>out sum. m16_ssr8_filterbank_graph ops cores k sig t = Some out \<and>
    sum = rdot (zip (recent t (filter_samples f (sig t)) n) (branch (2 * t + f + 14 * n))) \<and>
    sint (c_re (filter_samples f out ! n)) = round_shift 15 (fst sum) \<and>
    sint (c_im (filter_samples f out ! n)) = round_shift 15 (snd sum) \<and>
    \<bar>sint (c_re (filter_samples f out ! n))\<bar> \<le> 3350 \<and> \<bar>sint (c_im (filter_samples f out ! n))\<bar> \<le> 3350"
proof -
  let ?b = "branch (2 * t + f + 14 * n)" and ?w = "recent t (filter_samples f (sig t)) n"
  obtain out where out: "m16_ssr8_filterbank_graph ops cores k sig t = Some out"
    "filter_samples f out ! n = srs_value BIT_SHIFT (rdot (zip ?w ?b))"
    using filterbank_tile [where ops = ops and t = t and k = k and sig = sig, OF assms(1-3), of cores] assms(4,5) by blast
  have "length ?w = length ?b" by (simp add: recent_def branch_def min_def)
  note g = rdot_gain [OF this]
  have gb: "gain ?b \<le> 3350" by (rule branch_gain)
  note re = round_shift_small [OF g [THEN conjunct1] gb] and im = round_shift_small [OF g [THEN conjunct2] gb]
  have "c_re (filter_samples f out ! n) = word_of_int (saturate16 (round_shift 15 (fst (rdot (zip ?w ?b)))))"
    "c_im (filter_samples f out ! n) = word_of_int (saturate16 (round_shift 15 (snd (rdot (zip ?w ?b)))))"
    by (simp_all add: out(2) srs_value_def BIT_SHIFT_def)
  then have "sint (c_re (filter_samples f out ! n)) = round_shift 15 (fst (rdot (zip ?w ?b)))"
    "sint (c_im (filter_samples f out ! n)) = round_shift 15 (snd (rdot (zip ?w ?b)))"
    by (simp_all only: re(2) im(2))
  with out(1) re(1) im(1) gb show ?thesis by (intro exI [of _ out] exI conjI) (assumption | simp | linarith)+
qed

theorem filterbank_never_saturates_witness:
  "\<exists>out. m16_ssr8_filterbank_graph exact_ops (\<lambda>_. \<lparr>rounding = Other_rounding, saturation = Other_saturation\<rparr>) 1
      (\<lambda>_. replicate 8192 (cw 32767 (-32768))) 2 = Some out \<and> \<bar>sint (c_re (filter_samples 1 out ! 100))\<bar> \<le> 3350"
  using filterbank_never_saturates [OF exact_documented, of 2 1 "\<lambda>_. replicate 8192 (cw 32767 (-32768))" 1 100
      "\<lambda>_. \<lparr>rounding = Other_rounding, saturation = Other_saturation\<rparr>"]
  by (auto simp: NSAMP_def)

section \<open>The transform\<close>

text \<open>C23: the Fourier transform. The four cascades of four tiles compute, twice in an iteration, the sixteen-point
  transform of two samples from each of the eight streams: output stream \<open>ii\<close> carries the outputs
  \<open>4 * (ii div 2)\<close> to \<open>4 * (ii div 2) + 3\<close> of the even or the odd one, each the rounded and saturated sum over all
  sixteen inputs, with no overflow in any accumulator on the way through the cascade.\<close>

theorem dft_correct:
  assumes "aie_documented ops" and "ii < 8" and "\<forall>s < 8. n * DFT_NSAMP \<le> length (sig s)"
  shows "\<exists>out. m16_ssr8_dft_graph ops cores n sig ii = Some out \<and> length out = n * DFT_NSAMP \<and>
    (\<forall>j < n * 2048. \<forall>l < 4. out ! (4 * j + l) = srs_value DFT_BIT_SHIFT (cdot (map
       (\<lambda>x. (sig (x div 2) ! (4 * j + 2 * (ii mod 2) + x mod 2), root16 (x * (4 * (ii div 2) + l)))) [0..<16])))"
  using dft_run_graph [where sig = sig, OF assms(1,2), of n cores] assms(3)
  by (simp add: dft_terms_def DFT_NSAMP_def algebra_simps)

theorem dft_correct_witness:
  "\<exists>out. m16_ssr8_dft_graph exact_ops (\<lambda>_ _. \<lparr>rounding = Other_rounding, saturation = Other_saturation\<rparr>) 1
      (\<lambda>s. replicate 8192 (cw 1000 0)) 0 = Some out \<and> out ! 0 = cw 16000 0"
proof -
  have "srs_value DFT_BIT_SHIFT (cdot (replicate 16 (cw 1000 0, root16 0))) = cw 16000 0" by code_simp
  moreover have "map (\<lambda>x. (replicate 8192 (cw 1000 0) ! (x mod 2), root16 0)) [0..<16] = replicate 16 (cw 1000 0, root16 0)"
    by (intro nth_equalityI) auto
  ultimately show ?thesis
    using dft_correct [OF exact_documented, of 0 1 "\<lambda>s. replicate 8192 (cw 1000 0)"
        "\<lambda>_ _. \<lparr>rounding = Other_rounding, saturation = Other_saturation\<rparr>"]
    by (auto simp: DFT_NSAMP_def dest!: spec [of _ 0])
qed

text \<open>C24: the twiddle tables. The entry for sample \<open>p\<close> of stream \<open>s\<close> of tile \<open>kk\<close> and lane \<open>l\<close> of cascade \<open>g\<close> is the
  power \<open>(4 * kk + 2 * s + p) * (4 * g + l)\<close> of the sixteenth root of unity, each part within one unit of Q15.\<close>

theorem twiddles_are_roots:
  assumes "g < 4" "kk < 4" "s < 2" "p < 2" "l < 4"
  defines "phi \<equiv> 2 * pi * real ((4 * kk + 2 * s + p) * (4 * g + l)) / 16"
  shows "\<bar>real_of_int (sint (c_re (twiddle g kk s p l))) - 2 ^ 15 * cos phi\<bar> \<le> 1 \<and>
    \<bar>real_of_int (sint (c_im (twiddle g kk s p l))) - 2 ^ 15 * sin phi\<bar> \<le> 1"
proof -
  have "4 * p + l < 8" "(4 * p + l) div 4 = p" "(4 * p + l) mod 4 = l" "s = 0 \<or> s = 1" using assms(3-5) by auto
  then have "twiddle g kk s p l = root16 ((4 * kk + 2 * s + p) * (4 * g + l))"
    using assms(2) by (auto simp: twiddle_def dft_tables [OF assms(1)])
  then show ?thesis
    using root16_near [of "(4 * kk + 2 * s + p) * (4 * g + l)"] unfolding cos16_def sin16_def phi_def by simp
qed

theorem twiddles_are_roots_witness:
  "\<bar>real_of_int (sint (c_re (twiddle 1 2 1 0 3))) - 2 ^ 15 * cos (2 * pi * 70 / 16)\<bar> \<le> 1"
  using twiddles_are_roots [of 1 2 1 0 3] by simp

section \<open>On the board\<close>

definition region :: "u64 list \<Rightarrow> nat \<Rightarrow> nat \<Rightarrow> 'w list \<Rightarrow> 'w list" where
  "region cfg b ch mem = take (cfg_frames 36 cfg b ch) (drop (cfg_offset 36 cfg b ch) mem)"

definition dft_transaction :: "nat \<Rightarrow> u64 list \<Rightarrow> bool" where
  "dft_transaction n cfg \<longleftrightarrow> (\<forall>ii < 8. n * 2048 \<le> cfg_frames 36 cfg 0 (plio_dft_i ii) \<and> cfg_frames 36 cfg 4 (plio_dft_o ii) \<le> n * 2048) \<and>
     (\<forall>ch < 36. ch \<notin> plio_dft_o ` {..<8} \<longrightarrow> cfg_frames 36 cfg 4 ch = 0)"

text \<open>Every word that is sent is consumed by the \<open>n\<close> iterations and every word they produce is collected.\<close>

definition dft_exact :: "nat \<Rightarrow> u64 list \<Rightarrow> bool" where
  "dft_exact n cfg \<longleftrightarrow> (\<forall>ch < 36.
     cfg_frames 36 cfg 0 ch = (if ch \<in> plio_dft_i ` {..<8} then n * 2048 else 0) \<and>
     cfg_frames 36 cfg 4 ch = (if ch \<in> plio_dft_o ` {..<8} then n * 2048 else 0))"

lemma board_region_length: "cfg_fits 1 36 cfg b mem \<Longrightarrow> ch < 36 \<Longrightarrow> length (region cfg b ch mem) = cfg_frames 36 cfg b ch"
proof -
  assume "cfg_fits 1 36 cfg b mem" "ch < 36"
  then have "cfg_offset 36 cfg b ch + cfg_frames 36 cfg b ch \<le> length mem" unfolding cfg_fits_def mem_frames_whole by simp
  then show ?thesis by (simp add: region_def)
qed

lemma channelizer_out:
  fixes to_mem :: "128 word list"
  assumes doc: "aie_documented ops" and u: "\<forall>w. length (unpack w) = 4" and fits: "cfg_fits 1 36 cfg 0 to_mem"
    and tr: "dft_transaction n cfg" and ii: "ii < 8"
    and out: "\<And>ch. ch < 36 \<Longrightarrow> out (To ch) = map axi_word (region cfg 0 ch to_mem)"
  shows "\<exists>ys. m16_ssr8_dft_graph ops dc n (\<lambda>s. plio_samples unpack (region cfg 0 (plio_dft_i s) to_mem)) ii = Some ys \<and>
    length ys = n * DFT_NSAMP \<and>
    channelizer_aie unpack pack ops fc dc n out (From (plio_dft_o ii)) = map axi_word (plio_words pack ys)"
proof -
  let ?sig = "\<lambda>s. plio_samples unpack (region cfg 0 (plio_dft_i s) to_mem)"
  have in36: "plio_dft_i s < 36" if "s < 8" for s using that by (simp add: plio_dft_i_def)
  have len: "n * DFT_NSAMP \<le> length (?sig s)" if "s < 8" for s
    using tr board_region_length [OF fits in36 [OF that]] that
    by (auto simp: dft_transaction_def length_plio_samples [OF u [rule_format]] DFT_NSAMP_def)
  obtain ys where ys: "m16_ssr8_dft_graph ops dc n ?sig ii = Some ys" "length ys = n * DFT_NSAMP"
    using dft_run_graph [where sig = ?sig, OF doc ii len] by blast
  have local: "m16_ssr8_dft_graph ops dc n f ii = m16_ssr8_dft_graph ops dc n g ii" if "\<And>s. s < 8 \<Longrightarrow> f s = g s" for f g
    using that by (simp add: m16_ssr8_dft_graph_def dft_1xN_widget_graph_def tile_ports_def)
  have "m16_ssr8_dft_graph ops dc n (\<lambda>s. plio_samples unpack (map axi_data (out (To (plio_dft_i s))))) ii = Some ys"
    using local [of "\<lambda>s. plio_samples unpack (map axi_data (out (To (plio_dft_i s))))" ?sig] out [OF in36] ys(1)
    by (simp add: comp_def)
  with ys show ?thesis by (simp add: channelizer_aie_def graph_ports(2) [OF ii])
qed

text \<open>C25: the channelizer between the streams of the VCK190 kernel. When a functional transaction gives every input
  PLIO of the transform enough words and asks its output PLIOs for no more than comes out, then after any run
  the region of output PLIO \<open>2 * ii + 1\<close> holds the first words of output \<open>ii\<close> of the
  transform of the samples in the regions of the input PLIOs. When moreover the transaction sends exactly the words that
  \<open>n\<close> iterations of the graph consume and collects exactly the words they produce, the kernel can run to its end, and no
  word is left on the way.\<close>

theorem channelizer_on_board:
  fixes to_mem from_mem :: "128 word list" and pack :: "cint16 list \<Rightarrow> 128 word" and fc :: "nat \<Rightarrow> aie_core"
    and dc :: "nat \<Rightarrow> nat \<Rightarrow> aie_core"
  assumes "aie_documented ops" and "\<forall>w. length (unpack w) = 4"
    and "func_ready 1 36 cfg perf to_mem from_mem" and "dft_transaction n cfg"
  defines "aie \<equiv> channelizer_aie unpack pack ops fc dc n"
    and "sig \<equiv> \<lambda>s. plio_samples unpack (region cfg 0 (plio_dft_i s) to_mem)"
  shows "(\<forall>out perf' mem' ii. vck190_test_harness aie cfg perf to_mem from_mem out perf' mem' \<longrightarrow> ii < 8 \<longrightarrow>
      (\<exists>ys. m16_ssr8_dft_graph ops dc n sig ii = Some ys \<and>
        region cfg 4 (plio_dft_o ii) mem' = take (cfg_frames 36 cfg 4 (plio_dft_o ii)) (plio_words pack ys))) \<and>
    (dft_exact n cfg \<longrightarrow> (\<exists>out perf' mem'. vck190_test_harness aie cfg perf to_mem from_mem out perf' mem' \<and>
      (\<forall>ii < 8. length (out (To (plio_dft_i ii))) = n * 2048 \<and>
        length (aie out (From (plio_dft_o ii))) = cfg_frames 36 cfg 4 (plio_dft_o ii))))"
proof (intro conjI allI impI)
  have fits: "cfg_fits 1 36 cfg 0 to_mem" using assms(3) by (simp add: func_ready_def)
  note chan = channelizer_out [OF assms(1,2) fits assms(4)]
  fix out perf' mem' and ii :: nat
  assume run: "vck190_test_harness aie cfg perf to_mem from_mem out perf' mem'" and ii: "ii < 8"
  have d: "board_done 36 cfg to_mem from_mem aie out mem'"
    using run unfolding vck190_test_harness_def by (rule board_kernel_done [OF boards_wired(1) assms(3)])
  then have "\<And>ch. ch < 36 \<Longrightarrow> out (To ch) = map axi_word (region cfg 0 ch to_mem)"
    unfolding board_done_def region_def by simp
  from chan [OF ii this, where dc = dc and pack = pack and fc = fc] obtain ys where ys: "m16_ssr8_dft_graph ops dc n sig ii = Some ys"
    "aie out (From (plio_dft_o ii)) = map axi_word (plio_words pack ys)"
    unfolding sig_def aie_def by blast
  have "plio_dft_o ii < 36" using ii by (simp add: plio_dft_o_def)
  then have "region cfg 4 (plio_dft_o ii) mem' =
      map axi_data (take (cfg_frames 36 cfg 4 (plio_dft_o ii)) (aie out (From (plio_dft_o ii))))"
    using d unfolding board_done_def region_def by blast
  then have "region cfg 4 (plio_dft_o ii) mem' = take (cfg_frames 36 cfg 4 (plio_dft_o ii)) (plio_words pack ys)"
    unfolding ys(2) by (simp add: take_map comp_def)
  with ys(1) show "\<exists>ys. m16_ssr8_dft_graph ops dc n sig ii = Some ys \<and>
      region cfg 4 (plio_dft_o ii) mem' = take (cfg_frames 36 cfg 4 (plio_dft_o ii)) (plio_words pack ys)" by blast
next
  have fits: "cfg_fits 1 36 cfg 0 to_mem" using assms(3) by (simp add: func_ready_def)
  note chan = channelizer_out [OF assms(1,2) fits assms(4)]
  assume ex: "dft_exact n cfg"
  have long: "length (aie out (From (plio_dft_o ii))) = n * 2048"
    if o: "\<forall>ch < 36. out (To ch) = map axi_word (region cfg 0 ch to_mem)" and ii: "ii < 8" for out :: "strm \<Rightarrow> 128 word ap_axiu list" and ii
    using chan [OF ii, where out = out and dc = dc and pack = pack and fc = fc] o
    unfolding aie_def by (auto simp: length_plio_words DFT_NSAMP_def)
  have "board_answers 36 cfg to_mem aie"
    unfolding board_answers_def
  proof (intro allI impI)
    fix out :: "strm \<Rightarrow> 128 word ap_axiu list" and ch
    assume o: "\<forall>ch < 36. out (To ch) = map axi_word (take (cfg_frames 36 cfg 0 ch) (drop (cfg_offset 36 cfg 0 ch) to_mem))"
      and ch: "ch < (36 :: nat)"
    show "cfg_frames 36 cfg 4 ch \<le> length (aie out (From ch))"
      using ex ch long [OF o [folded region_def]] by (cases "ch \<in> plio_dft_o ` {..<8}") (auto simp: dft_exact_def)
  qed
  then obtain out perf' mem' where run: "vck190_test_harness aie cfg perf to_mem from_mem out perf' mem'"
    unfolding vck190_test_harness_def using board_kernel_exists [OF boards_wired(1) assms(3)] by blast
  then have o: "\<forall>ch < 36. out (To ch) = map axi_word (region cfg 0 ch to_mem)"
    using board_kernel_done [OF boards_wired(1) assms(3)] unfolding vck190_test_harness_def board_done_def region_def by blast
  have "length (out (To (plio_dft_i ii))) = n * 2048 \<and> length (aie out (From (plio_dft_o ii))) = cfg_frames 36 cfg 4 (plio_dft_o ii)"
    if ii: "ii < 8" for ii
  proof -
    have c: "plio_dft_i ii < 36" "plio_dft_o ii < 36" using ii by (simp_all add: plio_dft_i_def plio_dft_o_def)
    then show ?thesis using ex ii long [OF o ii] o board_region_length [OF fits c(1)] by (simp add: dft_exact_def)
  qed
  with run show "\<exists>out perf' mem'. vck190_test_harness aie cfg perf to_mem from_mem out perf' mem' \<and>
      (\<forall>ii < 8. length (out (To (plio_dft_i ii))) = n * 2048 \<and>
        length (aie out (From (plio_dft_o ii))) = cfg_frames 36 cfg 4 (plio_dft_o ii))" by blast
qed

text \<open>One iteration: 2048 words on each of the eight inputs, the results one after the other.\<close>

definition dft_cfg :: "u64 list" where
  "dft_cfg = fold (\<lambda>ii c. c[1 + 36 * 1 + 2 * ii := 2048, 1 + 36 * 5 + (2 * ii + 1) := 2048,
     1 + 36 * 7 + (2 * ii + 1) := of_nat ii * 2048]) [0..<8] (replicate 289 0)"

lemma dft_cfg_words:
  "length dft_cfg = 289" "dft_cfg ! 0 = 0"
  "list_all (\<lambda>ch. dft_cfg ! (1 + 36 * 1 + ch) = (if ch < 16 \<and> even ch then 2048 else 0) \<and> dft_cfg ! (1 + 36 * 3 + ch) = 0 \<and>
     dft_cfg ! (1 + 36 * 5 + ch) = (if ch < 16 \<and> odd ch then 2048 else 0) \<and>
     dft_cfg ! (1 + 36 * 7 + ch) = (if ch < 16 \<and> odd ch then of_nat (ch div 2) * 2048 else 0)) [0..<36]"
  by code_simp+

lemma dft_cfg_values:
  assumes "ch < 36"
  shows "cfg_frames 36 dft_cfg 0 ch = (if ch < 16 \<and> even ch then 2048 else 0)" "cfg_offset 36 dft_cfg 0 ch = 0"
    "cfg_frames 36 dft_cfg 4 ch = (if ch < 16 \<and> odd ch then 2048 else 0)"
    "cfg_offset 36 dft_cfg 4 ch = (if ch < 16 \<and> odd ch then 2048 * (ch div 2) else 0)"
proof -
  have w: "dft_cfg ! (37 + ch) = (if ch < 16 \<and> even ch then 2048 else 0)" "dft_cfg ! (109 + ch) = 0"
    "dft_cfg ! (181 + ch) = (if ch < 16 \<and> odd ch then 2048 else 0)"
    "dft_cfg ! (253 + ch) = (if ch < 16 \<and> odd ch then of_nat (ch div 2) * 2048 else 0)"
    using dft_cfg_words(3) assms by (simp_all add: list_all_iff)
  have "unat (ucast (of_nat k * 2048 :: u64) :: u32) = 2048 * k" if "k < 8" for k
  proof -
    have "k \<in> set [0..<8]" using that by simp
    then show ?thesis by (auto simp: upt_rec)
  qed
  moreover have "ch < 16 \<Longrightarrow> ch div 2 < 8" by simp
  ultimately have "ch < 16 \<Longrightarrow> unat (ucast (of_nat (ch div 2) * 2048 :: u64) :: u32) = 2048 * (ch div 2)" by blast
  with w show "cfg_frames 36 dft_cfg 0 ch = (if ch < 16 \<and> even ch then 2048 else 0)" "cfg_offset 36 dft_cfg 0 ch = 0"
    "cfg_frames 36 dft_cfg 4 ch = (if ch < 16 \<and> odd ch then 2048 else 0)"
    "cfg_offset 36 dft_cfg 4 ch = (if ch < 16 \<and> odd ch then 2048 * (ch div 2) else 0)"
    by (simp_all add: cfg_frames_def cfg_offset_def)
qed

lemma plio_dft_images: "plio_dft_i ` {..<8} = {ch. ch < 16 \<and> even ch}" "plio_dft_o ` {..<8} = {ch. ch < 16 \<and> odd ch}"
proof -
  show "plio_dft_i ` {..<8} = {ch. ch < 16 \<and> even ch}"
    by (auto simp: plio_dft_i_def image_iff elim!: evenE)
  show "plio_dft_o ` {..<8} = {ch. ch < 16 \<and> odd ch}"
    by (auto simp: plio_dft_o_def image_iff elim!: oddE)
qed

lemma dft_cfg_ready:
  "func_ready 1 36 dft_cfg (replicate 144 0) (replicate 2048 (0 :: 128 word)) (replicate 16384 0)" "dft_exact 1 dft_cfg"
  "dft_transaction 1 dft_cfg"
proof -
  note f = dft_cfg_values
  have odd: "2048 * (x div 2) + 2048 \<le> 2048 * (y div 2) \<or> 2048 * (y div 2) + 2048 \<le> 2048 * (x div 2)" if "odd x" "odd y" "x \<noteq> y" for x y :: nat
  proof -
    have "x div 2 < y div 2 \<or> y div 2 < x div 2" using that by presburger
    then show ?thesis by linarith
  qed
  have "cfg_regions_disjoint 1 36 dft_cfg 4"
    unfolding cfg_regions_disjoint_def mem_frames_whole
  proof (intro allI impI)
    fix x y :: nat assume xy: "x < 36" "y < 36" "x \<noteq> y"
    show "cfg_offset 36 dft_cfg 4 x + cfg_frames 36 dft_cfg 4 x \<le> cfg_offset 36 dft_cfg 4 y \<or>
        cfg_offset 36 dft_cfg 4 y + cfg_frames 36 dft_cfg 4 y \<le> cfg_offset 36 dft_cfg 4 x \<or>
        cfg_frames 36 dft_cfg 4 x = 0 \<or> cfg_frames 36 dft_cfg 4 y = 0"
      using odd [of x y] xy(3) unfolding f [OF xy(1)] f [OF xy(2)] by auto
  qed
  moreover have "cfg_fits 1 36 dft_cfg 0 (replicate 2048 (0 :: 128 word))" "cfg_fits 1 36 dft_cfg 4 (replicate 16384 (0 :: 128 word))"
    unfolding cfg_fits_def mem_frames_whole by (auto simp: f)
  ultimately show "func_ready 1 36 dft_cfg (replicate 144 0) (replicate 2048 (0 :: 128 word)) (replicate 16384 0)"
    using dft_cfg_words(1,2) by (simp add: func_ready_def harness_ready_def)
  show ex: "dft_exact 1 dft_cfg"
    unfolding dft_exact_def plio_dft_images
  proof (intro allI impI)
    fix ch :: nat assume "ch < 36"
    then show "cfg_frames 36 dft_cfg 0 ch = (if ch \<in> {ch. ch < 16 \<and> even ch} then 1 * 2048 else 0) \<and>
        cfg_frames 36 dft_cfg 4 ch = (if ch \<in> {ch. ch < 16 \<and> odd ch} then 1 * 2048 else 0)" by (simp only: f mem_Collect_eq mult_1)
  qed
  have "plio_dft_i ii < 36" "plio_dft_o ii < 36" if "ii < 8" for ii using that by (simp_all add: plio_dft_i_def plio_dft_o_def)
  with ex show "dft_transaction 1 dft_cfg" by (simp add: dft_exact_def dft_transaction_def)
qed

theorem channelizer_on_board_witness:
  "\<exists>out perf' mem' ys. vck190_test_harness
      (channelizer_aie (\<lambda>_. replicate 4 czero) (\<lambda>_. 0) exact_ops (\<lambda>_. \<lparr>rounding = Other_rounding, saturation = Other_saturation\<rparr>)
        (\<lambda>_ _. \<lparr>rounding = Other_rounding, saturation = Other_saturation\<rparr>) 1)
      dft_cfg (replicate 144 0) (replicate 2048 0) (replicate 16384 0) out perf' mem' \<and> region dft_cfg 4 15 mem' = take 2048 ys"
proof -
  let ?fc = "\<lambda>_. \<lparr>rounding = Other_rounding, saturation = Other_saturation\<rparr>" and ?unpack = "\<lambda>_ :: 128 word. replicate 4 czero"
  have u: "\<forall>w. length (?unpack w) = 4" by simp
  note c = channelizer_on_board [OF exact_documented u dft_cfg_ready(1,3), where pack = "\<lambda>_. 0" and fc = ?fc and dc = "\<lambda>_. ?fc"]
  obtain out perf' mem' where r: "vck190_test_harness (channelizer_aie ?unpack (\<lambda>_. 0) exact_ops ?fc (\<lambda>_. ?fc) 1)
      dft_cfg (replicate 144 0) (replicate 2048 0) (replicate 16384 0) out perf' mem'"
    using mp [OF conjunct2 [OF c] dft_cfg_ready(2)] by (elim exE conjE)
  have f: "cfg_frames 36 dft_cfg 4 15 = 2048" "plio_dft_o 7 = 15"
    by (simp_all add: dft_cfg_values plio_dft_o_def)
  obtain ys where "region dft_cfg 4 15 mem' = take 2048 (plio_words (\<lambda>_. 0) ys)"
    using conjunct1 [OF c, rule_format, OF r, of 7, unfolded f] by auto
  with r show ?thesis by blast
qed

end
