(* ===== verification/Sockets.thy ===== *)
theory Sockets
  imports Transaction HLS_Words
begin

text \<open>
  \<^verbatim>\<open>include/ps/test_harness_sockets.hpp\<close>: the byte stream between client and server, and the encoding of numbers,
  strings and vectors on it. Both ends are little endian with 8 bytes in a \<open>size_t\<close>.

  The operating system delivers the bytes of the peer in pieces of its own choice: \<open>recv\<close> returns at least one and
  at most as many bytes as asked for, 0 when the connection is closed, and a negative number on failure. The
  pieces that will still arrive are a list here; its end is the end of the connection.
\<close>

section \<open>The connection\<close>

datatype recv_event =
    Chunk u8 "u8 list"     \<comment> \<open>a piece, not empty\<close>
  | Recv_Failure

record sock =
  incoming :: "recv_event list"
  outgoing :: "u8 list"
  send_room :: "nat option"     \<comment> \<open>the bytes the peer still takes before the connection breaks\<close>
  alloc_limit :: nat            \<comment> \<open>the most elements a vector or string can have before memory runs out\<close>

type_synonym 'a sprog = "(sock, harness_error, 'a) prog"

abbreviation throw_socket :: "SocketStatus \<Rightarrow> ('s, harness_error, 'a) prog" where
  "throw_socket st \<equiv> throw (SocketException st)"

text \<open>\<open>recv(mSockfd, buffer, n, 0)\<close> and \<open>send(mSockfd, buffer, n, 0)\<close> of the operating system.\<close>

fun sys_recv :: "nat \<Rightarrow> recv_event list \<Rightarrow> int \<times> u8 list \<times> recv_event list" where
  "sys_recv n [] = (0, [], [])"
| "sys_recv n (Recv_Failure # es) = (-1, [], es)"
| "sys_recv n (Chunk b bs # es) =
     (if length (b # bs) \<le> n then (int (length (b # bs)), b # bs, es)
      else (int n, take n (b # bs), (case drop n (b # bs) of [] \<Rightarrow> es | c # cs \<Rightarrow> Chunk c cs # es)))"

definition sys_send :: "u8 list \<Rightarrow> sock \<Rightarrow> u64 \<times> sock" where
  "sys_send bs s = (case send_room s of
     None \<Rightarrow> (of_nat (length bs), s\<lparr>outgoing := outgoing s @ bs\<rparr>)
   | Some k \<Rightarrow>
       if length bs \<le> k then (of_nat (length bs), s\<lparr>outgoing := outgoing s @ bs, send_room := Some (k - length bs)\<rparr>)
       else (if k = 0 then -1 else of_nat k, s\<lparr>outgoing := outgoing s @ take k bs, send_room := Some 0\<rparr>))"

section \<open>Bytes\<close>

text \<open>The loop of \<open>recvData(char*, ssize_t)\<close>: \<open>n\<close> bytes are still to come.\<close>

function recv_rest :: "nat \<Rightarrow> u8 list sprog" where
  "recv_rest n s =
     (if n = 0 then (Inr [], s)
      else case sys_recv n (incoming s) of (received, bs, es) \<Rightarrow>
        let s = s\<lparr>incoming := es\<rparr> in
        if received < 0 then (Inl (SocketException SOCKET_RECEIVE_FAILURE), s)
        else if received = 0 then (Inl (SocketException SOCKET_CLOSE_FAILURE), s)
        else case recv_rest (n - nat received) s of
          (Inl e, s) \<Rightarrow> (Inl e, s)
        | (Inr cs, s) \<Rightarrow> (Inr (bs @ cs), s))"
  by auto

termination
  by (relation "measure fst") auto

declare recv_rest.simps [simp del]

definition recvBytes :: "int \<Rightarrow> u8 list sprog" where
  "recvBytes d_size =
     (if d_size < 0 then throw_socket SOCKET_RECEIVE_FAILURE else recv_rest (nat d_size))"

definition sendBytes :: "u8 list \<Rightarrow> nat sprog" where
  "sendBytes bs = (\<lambda>s. case sys_send bs s of (sent, s) \<Rightarrow>
     if sent \<noteq> of_nat (length bs) then (Inl (SocketException SOCKET_SEND_FAILURE), s)
     else (Inr (unat sent), s))"

section \<open>Values\<close>

text \<open>The bytes of an object of an integer type, and of a \<open>bool\<close>; reading any other byte as a \<open>bool\<close> is undefined.\<close>

definition word_bytes :: "'a::len word \<Rightarrow> u8 list" where
  "word_bytes w = lanes (LENGTH('a) div 8) w"

definition sendData_word :: "'a::len word \<Rightarrow> nat sprog" where
  "sendData_word w = sendBytes (word_bytes w)"

definition recvData_word :: "('a::len word \<times> nat) sprog" where
  "recvData_word = bindM (recvBytes (int (LENGTH('a) div 8))) (\<lambda>bs. ret (pack_lanes 0 bs 0, length bs))"

definition sendData_bool :: "bool \<Rightarrow> nat sprog" where
  "sendData_bool b = sendBytes [if b then 1 else 0]"

definition recvData_bool :: "(bool \<times> nat) sprog" where
  "recvData_bool = bindM (recvBytes 1) (\<lambda>bs.
     if bs = [0] then ret (False, 1) else if bs = [1] then ret (True, 1) else throw UndefinedBehaviour)"

text \<open>\<open>resize\<close> of a vector or a string to \<open>n\<close> elements of \<open>k\<close> bytes: the bytes of an object fit into a \<open>ptrdiff_t\<close>. The
  size of a string or a path is up to the library and taken as 1, which can only change the kind of the exception.\<close>

definition resizeM :: "nat \<Rightarrow> u64 \<Rightarrow> unit sprog" where
  "resizeM k n = bindM getM (\<lambda>s. guardM (StdException (if 2 ^ 63 \<le> unat n * k then Std_Length_Error else Std_Bad_Alloc))
     (unat n \<le> alloc_limit s \<and> unat n * k < 2 ^ 63))"

text \<open>Strings: their length as a \<open>ssize_t\<close>, then their characters.\<close>

definition sendData_str :: "u8 list \<Rightarrow> nat sprog" where
  "sendData_str str = bindM (sendData_word (of_nat (length str) :: u64)) (\<lambda>a.
     bindM (sendBytes str) (\<lambda>b. ret (a + b)))"

definition recvData_str :: "(u8 list \<times> nat) sprog" where
  "recvData_str = bindM recvData_word (\<lambda>(n :: u64, rsize).
     if rsize < 8 then ret ([], rsize)
     else thenM (resizeM 1 n) (bindM (recvBytes (sint n)) (\<lambda>bs. ret (bs, rsize + length bs))))"

text \<open>The byte of a \<open>TransactionStatus\<close>.\<close>

definition status_code :: "TransactionStatus \<Rightarrow> u8" where
  "status_code st = (case st of TRANSACTION_CREATED \<Rightarrow> 0 | TRANSACTION_READY \<Rightarrow> 1 | TRANSACTION_RUNNING \<Rightarrow> 2
     | TRANSACTION_TIMEOUT \<Rightarrow> 3 | TRANSACTION_DONE \<Rightarrow> 4)"

text \<open>The enumeration has a fixed underlying type and could hold any byte; the type here has its enumerators only.\<close>

definition status_of :: "u8 \<Rightarrow> TransactionStatus option" where
  "status_of c = List.find (\<lambda>st. status_code st = c)
     [TRANSACTION_CREATED, TRANSACTION_READY, TRANSACTION_RUNNING, TRANSACTION_TIMEOUT, TRANSACTION_DONE]"

section \<open>Vectors\<close>

text \<open>Vectors of an integer type: the number of elements, then their bytes in one piece.\<close>

definition sendVec_word :: "'a::len word list \<Rightarrow> nat sprog" where
  "sendVec_word v = bindM (sendData_word (of_nat (length v) :: u64)) (\<lambda>a.
     bindM (sendBytes (concat (map word_bytes v))) (\<lambda>b. ret (a + b)))"

fun words_of :: "nat \<Rightarrow> nat \<Rightarrow> u8 list \<Rightarrow> 'a::len word list" where
  "words_of k 0 bs = []"
| "words_of k (Suc n) bs = pack_lanes 0 (take k bs) 0 # words_of k n (drop k bs)"

definition recvVec_word :: "('a::len word list \<times> nat) sprog" where
  "recvVec_word = bindM recvData_word (\<lambda>(n :: u64, a). thenM (resizeM (LENGTH('a) div 8) n)
     (bindM (recvBytes (int (unat n * (LENGTH('a) div 8)))) (\<lambda>bs.
       ret (words_of (LENGTH('a) div 8) (unat n) bs, a + length bs))))"

text \<open>Vectors of \<open>bool\<close> and of strings go element by element.\<close>

definition send_each :: "('x \<Rightarrow> nat sprog) \<Rightarrow> 'x list \<Rightarrow> nat sprog" where
  "send_each send v = bindM (sendData_word (of_nat (length v) :: u64)) (\<lambda>a.
     foldM (\<lambda>x total. bindM (send x) (\<lambda>b. ret (total + b))) v a)"

definition recv_each :: "('x \<times> nat) sprog \<Rightarrow> ('x list \<times> nat) sprog" where
  "recv_each recv = bindM recvData_word (\<lambda>(n :: u64, a). thenM (resizeM 1 n)
     (foldM (\<lambda>_ (xs, total). bindM recv (\<lambda>(x, b). ret (xs @ [x], total + b))) [0..<unat n] ([], a)))"

definition sendVec_bool :: "bool list \<Rightarrow> nat sprog" where "sendVec_bool = send_each sendData_bool"
definition recvVec_bool :: "(bool list \<times> nat) sprog" where "recvVec_bool = recv_each recvData_bool"
definition sendVec_str :: "u8 list list \<Rightarrow> nat sprog" where "sendVec_str = send_each sendData_str"
definition recvVec_str :: "(u8 list list \<times> nat) sprog" where "recvVec_str = recv_each recvData_str"

section \<open>Files\<close>

text \<open>A file: its name, then its contents. What the file system does is a parameter: the file to send, if it exists and can be
  read, and whether the file to write can be opened.\<close>

definition sendData_path :: "(u8 list \<times> u8 list) option \<Rightarrow> nat sprog" where
  "sendData_path pa = (case pa of
     None \<Rightarrow> throw_socket FILE_OPEN_FAILURE
   | Some (filename, contents) \<Rightarrow>
       bindM (sendData_str filename) (\<lambda>a. bindM (sendVec_word contents) (\<lambda>b. ret (a + b))))"

definition recvData_path :: "bool \<Rightarrow> ((u8 list \<times> u8 list) \<times> nat) sprog" where
  "recvData_path can_open = bindM recvData_str (\<lambda>(filename, a).
     if filename = [] \<or> \<not> can_open then throw_socket FILE_OPEN_FAILURE
     else bindM recvVec_word (\<lambda>(filecontent, b). ret ((filename, filecontent), a + b)))"

section \<open>Requests\<close>

definition sendReq :: "u8 list \<Rightarrow> nat sprog" where
  "sendReq str = bindM (sendData_str str) (\<lambda>s_size.
     if s_size \<noteq> length str + 8 then throw_socket SOCKET_SEND_FAILURE else ret s_size)"

definition recvReq :: "u8 list sprog" where
  "recvReq = bindM recvData_str (\<lambda>(res, r_size).
     if r_size = 0 then throw_socket SOCKET_CLOSE_FAILURE else ret res)"

section \<open>Programs with a connection\<close>

text \<open>A client or a server is a state with a connection: \<open>net m\<close> talks, \<open>own m\<close> computes.\<close>

definition net :: "'a sprog \<Rightarrow> ('s \<times> sock, harness_error, 'a) prog" where
  "net m = (\<lambda>(s, k). case m k of (r, k') \<Rightarrow> (r, (s, k')))"

definition own :: "('s, harness_error, 'a) prog \<Rightarrow> ('s \<times> sock, harness_error, 'a) prog" where
  "own m = (\<lambda>(s, k). case m s of (r, s') \<Rightarrow> (r, (s', k)))"

text \<open>The value a receiving function stores through its reference argument.\<close>

definition fetch :: "('x \<times> nat) sprog \<Rightarrow> ('s \<times> sock, harness_error, 'x) prog" where
  "fetch m = bindM (net m) (\<lambda>(x, n). ret x)"

definition put :: "nat sprog \<Rightarrow> ('s \<times> sock, harness_error, unit) prog" where
  "put m = bindM (net m) (\<lambda>n. ret ())"

text \<open>\<open>catch (const SocketException&) { throw TestHarnessException(st, ...); }\<close>\<close>

definition socket_guard :: "TestHarnessStatus \<Rightarrow> ('s, harness_error, 'a) prog \<Rightarrow> ('s, harness_error, 'a) prog" where
  "socket_guard st m = catch m (\<lambda>e. case e of SocketException _ \<Rightarrow> throw_harness st | _ \<Rightarrow> throw e)"

abbreviation ascii :: "string \<Rightarrow> u8 list" where
  "ascii \<equiv> map of_char"

end
