(* ===== verification/Client_Manager.thy ===== *)
theory Client_Manager
  imports Sockets Transaction
begin

text \<open>
  \<open>test_harness_mgr_client\<close> of \<^verbatim>\<open>include/ps/test_harness_mgr_client.hpp\<close>: the user's end of the connection. It packs the
  arguments of a transaction into a transaction object, sends it, and unpacks the results in a thread of
  its own for each transaction. The loggers, \<open>printPerf\<close>, the log files and the first bytes of the connection are not modelled;
  \<open>writeGraphPort\<close> and \<open>readGraphPort\<close> send requests that no session knows.

  The transactions live in a heap; the user's buffers are the memory \<open>cl_mem\<close>.
\<close>

section \<open>State\<close>

datatype client_thread = CL_Waiting | CL_Ended

record client =
  cl_device :: "u8 list"
  cl_num_channels :: u32
  cl_word_size :: u32
  cl_depth :: u32
  cl_memWidth :: u32
  cl_transactions :: "nat list"
  cl_pending :: "nat list"
  cl_front :: nat                   \<comment> \<open>how many elements have left \<open>pending_transactions\<close> at its front\<close>
  cl_threads :: "nat \<rightharpoonup> client_thread"
  cl_graph_started :: "bool list"
  cl_max_memory_usage :: u64
  cl_trans_id :: u32                \<comment> \<open>the static counter of \<open>runTestHarness\<close>\<close>
  cl_heap :: "nat \<rightharpoonup> transaction"
  cl_next :: nat
  cl_mem :: umem

type_synonym 'a cown = "(client, harness_error, 'a) prog"
type_synonym 'a cprog = "(client \<times> sock, harness_error, 'a) prog"

text \<open>The manager before \<open>createTestHarness\<close>.\<close>

definition new_client :: "u8 list \<Rightarrow> umem \<Rightarrow> client" where
  "new_client device um = \<lparr>cl_device = device, cl_num_channels = 0, cl_word_size = 0, cl_depth = 0, cl_memWidth = 0,
     cl_transactions = [], cl_pending = [], cl_front = 0, cl_threads = Map.empty, cl_graph_started = [], cl_max_memory_usage = 0,
     cl_trans_id = 0, cl_heap = Map.empty, cl_next = 0, cl_mem = um\<rparr>"

definition cl_deref :: "nat \<Rightarrow> transaction cown" where
  "cl_deref p = bindM getM (\<lambda>s. ubM (cl_heap s p))"

definition cl_on :: "nat \<Rightarrow> (umem \<Rightarrow> 'a tprog) \<Rightarrow> 'a cown" where
  "cl_on p m = bindM getM (\<lambda>s. case cl_heap s p of
     None \<Rightarrow> throw UndefinedBehaviour
   | Some t \<Rightarrow> (\<lambda>s. case m (cl_mem s) t of (r, t') \<Rightarrow> (r, s\<lparr>cl_heap := (cl_heap s)(p \<mapsto> t')\<rparr>)))"

text \<open>A method that also writes the user's memory.\<close>

definition cl_on_mem :: "nat \<Rightarrow> 'a oprog \<Rightarrow> 'a cown" where
  "cl_on_mem p m = bindM getM (\<lambda>s. case cl_heap s p of
     None \<Rightarrow> throw UndefinedBehaviour
   | Some t \<Rightarrow> (\<lambda>s. case m (t, cl_mem s) of (r, (t', um)) \<Rightarrow> (r, s\<lparr>cl_heap := (cl_heap s)(p \<mapsto> t'), cl_mem := um\<rparr>)))"

abbreviation cl_update :: "nat \<Rightarrow> (transaction \<Rightarrow> transaction) \<Rightarrow> unit cprog" where
  "cl_update p f \<equiv> own (cl_on p (\<lambda>_. modifyM f))"

section \<open>Creation\<close>

text \<open>\<open>setup\<close> of \<open>test_harness_mgr_base\<close>.\<close>

definition cl_setup :: "u32 \<Rightarrow> u32 \<Rightarrow> u32 \<Rightarrow> u32 \<Rightarrow> unit cown" where
  "cl_setup num_channels depth word_size memWidth = modifyM (\<lambda>s. s\<lparr>cl_num_channels := num_channels, cl_depth := depth,
     cl_word_size := word_size, cl_memWidth := memWidth\<rparr>)"

definition cl_send_design :: "u32 \<Rightarrow> (u8 list \<times> u8 list) option \<Rightarrow> u8 list list \<Rightarrow> unit cprog" where
  "cl_send_design device_index xclbin graph_name = bindM getM (\<lambda>(s, k).
     let started = cl_graph_started s @ replicate (length graph_name - length (cl_graph_started s)) False in
     thenM (put (sendData_word device_index))
     (thenM (put (sendVec_str graph_name))
     (thenM (own (modifyM (\<lambda>s. s\<lparr>cl_graph_started := take (length graph_name) started\<rparr>)))
     (thenM (put (sendVec_bool (take (length graph_name) started)))
     (thenM (put (sendVec_str [cl_device s @ ascii ''_test_harness'']))
     (thenM (put (sendData_path xclbin))
     (bindM (fetch recvData_word) (\<lambda>max_memory. own (modifyM (\<lambda>s. s\<lparr>cl_max_memory_usage := max_memory\<rparr>))))))))))"

text \<open>\<open>createTestHarness\<close>; \<open>xclbin\<close> is the file of the design, if it can be read.\<close>

definition createTestHarness :: "u32 \<Rightarrow> (u8 list \<times> u8 list) option \<Rightarrow> u8 list list \<Rightarrow> unit cprog" where
  "createTestHarness device_index xclbin graph_name =
     thenM (socket_guard TEST_HARNESS_CREATION_FAILURE (put (sendReq (ascii ''test_harness_mgr''))))
     (socket_guard TEST_HARNESS_CREATION_FAILURE
       (bindM getM (\<lambda>(s, k). thenM (put (sendData_str (cl_device s)))
       (bindM (fetch recvData_bool) (\<lambda>res.
        if \<not> res then bindM (fetch recvData_str) (\<lambda>server_req_device. throw_harness TEST_HARNESS_CREATION_FAILURE)
        else bindM (fetch recvData_word) (\<lambda>serverN. bindM (fetch recvData_word) (\<lambda>serverW.
          bindM (fetch recvData_word) (\<lambda>serverD. bindM (fetch recvData_word) (\<lambda>serverM.
          thenM (own (cl_setup serverN serverD serverW serverM)) (cl_send_design device_index xclbin graph_name))))))))))"

section \<open>Running\<close>

definition cl_new_transaction :: "TestMode \<Rightarrow> u32 \<Rightarrow> nat cown" where
  "cl_new_transaction md timeout = bindM getM (\<lambda>s.
     let p = cl_next s in
     thenM (modifyM (\<lambda>s. s\<lparr>cl_trans_id := cl_trans_id s + 1, cl_next := Suc p, cl_transactions := cl_transactions s @ [p],
       cl_heap := (cl_heap s)(p \<mapsto> test_harness_transactions (cl_trans_id s) md (cl_num_channels s) (cl_word_size s)
         (cl_depth s) (cl_memWidth s) timeout)\<rparr>))
     (ret p))"

text \<open>The exchange with the server, once the transaction is packed.\<close>

definition cl_submit :: "TestMode \<Rightarrow> nat \<Rightarrow> transaction \<Rightarrow> unit cprog" where
  "cl_submit md p t =
     thenM (put (sendReq (ascii ''runTestHarness'')))
     (thenM (put (sendData_word (getMemoryUsage t)))
     (bindM (fetch recvData_bool) (\<lambda>trans_accepted.
      if \<not> trans_accepted then throw_harness INVALID_ARGUMENTS
      else thenM (put (sendData_word md)) (thenM (put (sendData_word (trans_id t)))
        (thenM (put (sendData_word (getTimeOut t))) (thenM (put (sendVec_word (cfg_ptr t)))
        (thenM (put (sendVec_word (to_aie_ptr t))) (thenM (put (sendData_word (of_nat (length (from_aie_ptr t)) :: u64)))
        (thenM (cl_update p (setStatus TRANSACTION_RUNNING))
        (own (modifyM (\<lambda>s. s\<lparr>cl_pending := cl_pending s @ [p], cl_threads := (cl_threads s)(p \<mapsto> CL_Waiting)\<rparr>))))))))))))"

text \<open>The sum over the pending transactions only decides about a warning.\<close>

definition cl_runTestHarness :: "TestMode \<Rightarrow> test_harness_args list \<Rightarrow> u32 \<Rightarrow> unit cprog" where
  "cl_runTestHarness md args timeout =
     (if md \<noteq> FUNC_MODE \<and> md \<noteq> PERF_MODE then throw_harness INVALID_ARGUMENTS
      else socket_guard TEST_HARNESS_RUN_FAILURE
        (bindM (own (cl_new_transaction md timeout)) (\<lambda>p.
         thenM (own (cl_on p (\<lambda>um. handleInputs um args)))
         (bindM (own (cl_deref p)) (\<lambda>t.
          if getStatus t \<noteq> TRANSACTION_READY then throw_harness INVALID_ARGUMENTS
          else bindM getM (\<lambda>(s, k).
            if getMemoryUsage t > cl_max_memory_usage s then throw_harness INVALID_ARGUMENTS
            else cl_submit md p t))))))"

section \<open>The thread of a transaction\<close>

definition cl_queryTransactionStatus :: "nat \<Rightarrow> bool cprog" where
  "cl_queryTransactionStatus p = bindM (own (cl_deref p)) (\<lambda>t.
     thenM (put (sendReq (ascii ''queryTransactionStatus'')))
     (thenM (put (sendData_word (trans_id t)))
     (bindM (fetch recvData_word) (\<lambda>ustatus.
       ret (ustatus = status_code TRANSACTION_DONE \<or> ustatus = status_code TRANSACTION_TIMEOUT)))))"

text \<open>The end of \<open>waitForTestHarness\<close>, after the loop.\<close>

definition cl_collect :: "nat \<Rightarrow> unit cprog" where
  "cl_collect p = bindM (own (cl_deref p)) (\<lambda>t.
     thenM (put (sendReq (ascii ''waitForTestHarness'')))
     (thenM (put (sendData_word (trans_id t)))
     (thenM (put (sendData_word (getTimeOut t)))
     (bindM (fetch recvData_word) (\<lambda>status. bindM (ubM (status_of status)) (\<lambda>st. thenM (cl_update p (setStatus st))
     (bindM (fetch recvVec_word) (\<lambda>v. thenM (cl_update p (\<lambda>t. t\<lparr>from_aie_ptr := v\<rparr>))
     (bindM (fetch recvVec_word) (\<lambda>v. thenM (cl_update p (\<lambda>t. t\<lparr>perf_ptr := v\<rparr>))
     (own (cl_on_mem p handleOutputs))))))))))))"

text \<open>One round of \<open>waitForTestHarness\<close>; the result says whether the thread has ended. An exception that leaves a thread ends
  the process.\<close>

definition cl_round :: "nat \<Rightarrow> bool cprog" where
  "cl_round p = catch
     (bindM (own (cl_deref p)) (\<lambda>t.
      if getTimeOut t = 0 then
        bindM (cl_queryTransactionStatus p) (\<lambda>over. if over then thenM (cl_collect p) (ret True) else ret False)
      else thenM (cl_collect p) (ret True)))
     (\<lambda>e. if e = UndefinedBehaviour then throw e else throw AssertionFailed)"

text \<open>A round of the thread of \<open>p\<close>, with its end noted.\<close>

definition cl_thread_round :: "nat \<Rightarrow> unit cprog" where
  "cl_thread_round p = bindM (cl_round p) (\<lambda>over.
     if over then own (modifyM (\<lambda>s. s\<lparr>cl_threads := (cl_threads s)(p \<mapsto> CL_Ended)\<rparr>)) else ret ())"

section \<open>Graphs and time limits\<close>

definition cl_runAIEGraph :: "u32 \<Rightarrow> u32 \<Rightarrow> unit cprog" where
  "cl_runAIEGraph g_idx iters = bindM getM (\<lambda>(s, k).
     if unat g_idx \<ge> length (cl_graph_started s) then throw_harness INVALID_ARGUMENTS
     else if cl_graph_started s ! unat g_idx then throw_harness INVALID_OPERATIONS
     else socket_guard TEST_HARNESS_RUN_GRAPH_FAILURE
       (thenM (put (sendReq (ascii ''runAIEGraph''))) (thenM (put (sendData_word g_idx)) (thenM (put (sendData_word iters))
       (bindM (fetch recvVec_bool) (\<lambda>g. thenM (own (modifyM (\<lambda>s. s\<lparr>cl_graph_started := g\<rparr>)))
       (bindM (ubM (vec_get (unat g_idx) g)) (\<lambda>b. guardM AssertionFailed b))))))))"

definition cl_waitForGraph :: "u32 \<Rightarrow> unit cprog" where
  "cl_waitForGraph timeout_millisec = thenM (put (sendReq (ascii ''waitForGraph''))) (thenM (put (sendData_word timeout_millisec))
     (bindM (fetch recvVec_bool) (\<lambda>g. own (modifyM (\<lambda>s. s\<lparr>cl_graph_started := g\<rparr>)))))"

definition getServerTimeOut :: "u64 cprog" where
  "getServerTimeOut = thenM (put (sendReq (ascii ''getTimeOut''))) (fetch recvData_word)"

definition setServerTimeOut :: "u64 \<Rightarrow> unit cprog" where
  "setServerTimeOut timeout_seconds =
     (if timeout_seconds = 0 then throw_harness INVALID_ARGUMENTS
      else thenM (put (sendReq (ascii ''setTimeOut''))) (put (sendData_word timeout_seconds)))"

section \<open>Waiting\<close>

text \<open>The queue of the pending transactions. A reference to an element, like the \<open>t\<close> of the loop in \<open>waitForRes\<close>, is the number
  of elements that were pushed before it; once the element has been popped the reference dangles and reading it is undefined.\<close>

definition pending_at :: "nat \<Rightarrow> nat cown" where
  "pending_at t = bindM getM (\<lambda>s. if t < cl_front s then throw UndefinedBehaviour else ubM (vec_get (t - cl_front s) (cl_pending s)))"

definition pop_pending :: "unit cown" where
  "pop_pending = bindM getM (\<lambda>s. thenM (guardM UndefinedBehaviour (cl_pending s \<noteq> []))
     (modifyM (\<lambda>s. s\<lparr>cl_pending := tl (cl_pending s), cl_front := Suc (cl_front s)\<rparr>)))"

text \<open>What the threads of the transactions do while the user's thread blocks in \<open>join\<close> is up to the scheduler: \<open>qs\<close> are the threads
  that take a round, one after the other. The call has not returned if its thread has not ended after them; joining a thread
  that is not there throws a \<open>system_error\<close> (every pending transaction has a thread, so it never happens).\<close>

fun cl_rounds :: "nat list \<Rightarrow> unit cprog" where
  "cl_rounds [] = ret ()"
| "cl_rounds (q # qs) = thenM (bindM getM (\<lambda>(s, k). if cl_threads s q = Some CL_Waiting then cl_thread_round q else ret ())) (cl_rounds qs)"

definition cl_join :: "nat \<Rightarrow> nat list \<Rightarrow> unit cprog" where
  "cl_join p qs = thenM (cl_rounds qs) (bindM getM (\<lambda>(s, k). case cl_threads s p of
     None \<Rightarrow> throw (StdException Std_System_Error)
   | Some CL_Waiting \<Rightarrow> throw NoReturn
   | Some CL_Ended \<Rightarrow> ret ()))"

text \<open>The loop over the pending transactions, from the reference \<open>t\<close> on, with \<open>n\<close> elements to go. Stepping to the next element reads
  through the iterator, which dangles like \<open>t\<close>.\<close>

fun cl_wait_pending :: "u32 \<Rightarrow> (nat \<Rightarrow> nat list) \<Rightarrow> nat \<Rightarrow> nat \<Rightarrow> u32 \<Rightarrow> unit cprog" where
  "cl_wait_pending timeout_millisec sched 0 t all = ret ()"
| "cl_wait_pending timeout_millisec sched (Suc n) t all =
     bindM (own (pending_at t)) (\<lambda>p. thenM (cl_update p (setTimeOut timeout_millisec))
     (bindM (own (pending_at t)) (\<lambda>p. thenM (cl_join p (sched t))
     (thenM (own pop_pending)
     (bindM (own (pending_at t)) (\<lambda>p. thenM (own (modifyM (\<lambda>s. s\<lparr>cl_threads := (cl_threads s)(p := None)\<rparr>)))
     (let all = all - 1 in
      if all = 0 then ret ()
      else thenM (own (pending_at t)) (cl_wait_pending timeout_millisec sched n (Suc t) all))))))))"

definition cl_extend_limit :: "u32 \<Rightarrow> u64 cprog" where
  "cl_extend_limit timeout_millisec =
     (let timeout_in_seconds = (ucast ((timeout_millisec + 999) div 1000) :: u64) in
      bindM getServerTimeOut (\<lambda>server_timeout.
      thenM (if timeout_in_seconds \<noteq> 0 \<and> server_timeout \<noteq> 0 then setServerTimeOut (timeout_in_seconds + server_timeout) else ret ())
      (ret server_timeout)))"

text \<open>\<open>waitForRes\<close>; \<open>sched t\<close> are the rounds during the \<open>join\<close> for the element \<open>t\<close>.\<close>

definition cl_waitForRes :: "u32 \<Rightarrow> u32 \<Rightarrow> (nat \<Rightarrow> nat list) \<Rightarrow> unit cprog" where
  "cl_waitForRes timeout_millisec all sched =
     socket_guard TEST_HARNESS_WAIT_FOR_RES_FAILURE
       (bindM (cl_extend_limit timeout_millisec) (\<lambda>server_timeout.
        bindM getM (\<lambda>(s, k). thenM (cl_wait_pending timeout_millisec sched (length (cl_pending s)) (cl_front s) all)
        (thenM (if all = 0 then cl_waitForGraph timeout_millisec else ret ()) (setServerTimeOut server_timeout)))))"

section \<open>Queries\<close>

text \<open>The last finished transaction, or the one the user names.\<close>

fun last_done :: "client \<Rightarrow> nat list \<Rightarrow> nat \<Rightarrow> (harness_error + nat)" where
  "last_done s [] n = Inl (TestHarnessException INVALID_OPERATIONS)"
| "last_done s (p # ps) n = (case cl_heap s p of
     None \<Rightarrow> Inl UndefinedBehaviour
   | Some t \<Rightarrow> if getStatus t = TRANSACTION_DONE then Inr (n - 1) else last_done s ps (n - 1))"

definition sanctifyTransIdx :: "int \<Rightarrow> nat cown" where
  "sanctifyTransIdx t_idx = bindM getM (\<lambda>s.
     if cl_transactions s = [] then throw_harness INVALID_OPERATIONS
     else if t_idx = -1 then (\<lambda>s. (last_done s (rev (cl_transactions s)) (length (cl_transactions s)), s))
     else if t_idx < 0 \<or> nat t_idx \<ge> length (cl_transactions s) then throw_harness INVALID_OPERATIONS
     else ret (nat t_idx))"

definition cl_isResultValid :: "int \<Rightarrow> bool cown" where
  "cl_isResultValid t_idx = bindM (sanctifyTransIdx t_idx) (\<lambda>i. bindM getM (\<lambda>s.
     bindM (ubM (vec_get i (cl_transactions s))) (\<lambda>p. bindM (cl_deref p) (\<lambda>t. ret (isResultValid t)))))"

definition cl_getDelayBetween :: "channel_index \<Rightarrow> channel_index \<Rightarrow> int \<Rightarrow> int cown" where
  "cl_getDelayBetween id_from id_to t_idx = bindM (sanctifyTransIdx t_idx) (\<lambda>i. bindM getM (\<lambda>s.
     bindM (ubM (vec_get i (cl_transactions s))) (\<lambda>p. cl_on p (\<lambda>um. getDelayBwtween id_from id_to))))"

end
