(* ===== verification/Fast_XM.thy ===== *)
theory Fast_XM
  imports Transaction Buff_Memory
begin

text \<open>
  \<open>fastXM\<close> of \<^verbatim>\<open>include/ps/test_harness_fastxm.hpp\<close>, the part that starts the kernel, waits for it and fetches its
  buffers. It keeps the address of the vectors of a transaction until the buffers are fetched, so the
  transactions live in a heap here, and the use of a deleted one is undefined behaviour.

  The Xilinx runtime is a parameter of the calls that look at it: which of the started runs have finished
  (before the time limit), and what their device buffers hold now. A device buffer keeps the size of the
  vector it was made from.
\<close>

section \<open>Bytes and memory words\<close>

text \<open>The buffers are little endian on both sides.\<close>

definition words_of_bytes :: "u8 list \<Rightarrow> 's::len word list" where
  "words_of_bytes bs = packed (length bs div MEM_RATIO TYPE('s) TYPE(8)) bs"

definition bytes_of_words :: "'s::len word list \<Rightarrow> u8 list" where
  "bytes_of_words ws = stream_words ws"

section \<open>State\<close>

text \<open>A run of the kernel: the transaction whose vectors its buffers were made from, and their contents at
  the start. A buffer of size 0 is not made; its contents are empty either way.\<close>

record pl_run =
  run_trans :: nat
  run_cfg :: "u64 list"
  run_perf :: "u64 list"
  run_to_aie :: "u8 list"
  run_from_aie :: "u8 list"

record fastXM =
  pl_k_r_hdl :: "pl_run list"     \<comment> \<open>every run since the last reset\<close>
  bo_hdl :: "nat list"            \<comment> \<open>the runs whose buffers have not been fetched\<close>

record host =
  heap :: "nat \<rightharpoonup> transaction"
  next_trans :: nat
  xm :: fastXM

record xrt =
  finished :: "nat \<Rightarrow> bool"
  device_perf :: "nat \<Rightarrow> u64 list"
  device_from_aie :: "nat \<Rightarrow> u8 list"

type_synonym 'a hprog = "(host, harness_error, 'a) prog"

section \<open>The heap\<close>

definition new_trans :: "transaction \<Rightarrow> nat hprog" where
  "new_trans t = bindM getM (\<lambda>h.
     thenM (modifyM (\<lambda>h. h\<lparr>heap := (heap h)(next_trans h \<mapsto> t), next_trans := Suc (next_trans h)\<rparr>))
       (ret (next_trans h)))"

definition delete_trans :: "nat \<Rightarrow> unit hprog" where
  "delete_trans p = modifyM (\<lambda>h. h\<lparr>heap := (heap h)(p := None)\<rparr>)"

definition deref :: "nat \<Rightarrow> transaction hprog" where
  "deref p = bindM getM (\<lambda>h. ubM (heap h p))"

text \<open>A method of a transaction, called through a pointer.\<close>

definition on_trans :: "nat \<Rightarrow> 'a tprog \<Rightarrow> 'a hprog" where
  "on_trans p m = bindM getM (\<lambda>h. case heap h p of
     None \<Rightarrow> throw UndefinedBehaviour
   | Some t \<Rightarrow> (\<lambda>h. case m t of (r, t') \<Rightarrow> (r, h\<lparr>heap := (heap h)(p \<mapsto> t')\<rparr>)))"

section \<open>The kernel\<close>

text \<open>The four arguments are the vectors of the transaction.\<close>

definition runPL :: "nat \<Rightarrow> unit hprog" where
  "runPL p = bindM (deref p) (\<lambda>t. modifyM (\<lambda>h.
     let x = xm h in
     h\<lparr>xm := x\<lparr>pl_k_r_hdl := pl_k_r_hdl x @ [\<lparr>run_trans = p, run_cfg = cfg_ptr t, run_perf = perf_ptr t,
          run_to_aie = to_aie_ptr t, run_from_aie = from_aie_ptr t\<rparr>],
        bo_hdl := bo_hdl x @ [length (pl_k_r_hdl x)]\<rparr>\<rparr>))"

definition waitForTestHarness :: "xrt \<Rightarrow> bool hprog" where
  "waitForTestHarness X = bindM getM (\<lambda>h. ret (list_all (finished X) [0..<length (pl_k_r_hdl (xm h))]))"

text \<open>\<open>bo.read(ptr)\<close> for the buffers of one run; the kernel does not write the configuration and its input.\<close>

definition fetch_run :: "xrt \<Rightarrow> nat \<Rightarrow> unit hprog" where
  "fetch_run X i = bindM getM (\<lambda>h. bindM (ubM (vec_get i (pl_k_r_hdl (xm h)))) (\<lambda>r.
     on_trans (run_trans r) (modifyM (\<lambda>t. t\<lparr>cfg_ptr := run_cfg r, perf_ptr := device_perf X i,
       to_aie_ptr := run_to_aie r, from_aie_ptr := device_from_aie X i\<rparr>))))"

definition fetchRes :: "xrt \<Rightarrow> unit hprog" where
  "fetchRes X = bindM getM (\<lambda>h. thenM (each (fetch_run X) (bo_hdl (xm h)))
     (modifyM (\<lambda>h. h\<lparr>xm := (xm h)\<lparr>bo_hdl := []\<rparr>\<rparr>)))"

section \<open>Lemmas\<close>

text \<open>The run that \<open>runPL\<close> starts for a transaction.\<close>

definition run_of :: "nat \<Rightarrow> transaction \<Rightarrow> pl_run" where
  "run_of p u = \<lparr>run_trans = p, run_cfg = cfg_ptr u, run_perf = perf_ptr u, run_to_aie = to_aie_ptr u,
     run_from_aie = from_aie_ptr u\<rparr>"

lemma run_of_simps [simp]:
  "run_trans (run_of p u) = p" "run_cfg (run_of p u) = cfg_ptr u" "run_perf (run_of p u) = perf_ptr u"
  "run_to_aie (run_of p u) = to_aie_ptr u" "run_from_aie (run_of p u) = from_aie_ptr u"
  by (simp_all add: run_of_def)

lemma deref_run: "heap h p = Some t \<Longrightarrow> deref p h = (Inr t, h)"
  by (simp add: deref_def)

lemma on_trans_run: "heap h p = Some t \<Longrightarrow> m t = (r, t') \<Longrightarrow> on_trans p m h = (r, h\<lparr>heap := (heap h)(p \<mapsto> t')\<rparr>)"
  by (simp add: on_trans_def)

lemma runPL_run:
  assumes "heap h p = Some t"
  shows "runPL p h = (Inr (), h\<lparr>xm := (xm h)\<lparr>pl_k_r_hdl := pl_k_r_hdl (xm h) @ [\<lparr>run_trans = p, run_cfg = cfg_ptr t,
       run_perf = perf_ptr t, run_to_aie = to_aie_ptr t, run_from_aie = from_aie_ptr t\<rparr>],
     bo_hdl := bo_hdl (xm h) @ [length (pl_k_r_hdl (xm h))]\<rparr>\<rparr>)"
  by (simp add: runPL_def bindM_def deref_run [where h = h, OF assms] Let_def)

text \<open>Fetching the buffers of the only outstanding run.\<close>

definition fetched :: "xrt \<Rightarrow> nat \<Rightarrow> pl_run \<Rightarrow> transaction \<Rightarrow> transaction" where
  "fetched X i r t = t\<lparr>cfg_ptr := run_cfg r, perf_ptr := device_perf X i, to_aie_ptr := run_to_aie r,
     from_aie_ptr := device_from_aie X i\<rparr>"

lemma fetchRes_single:
  assumes "bo_hdl (xm h) = [i]" "i < length (pl_k_r_hdl (xm h))" "heap h (run_trans (pl_k_r_hdl (xm h) ! i)) = Some t"
  shows "fetchRes X h = (Inr (), h\<lparr>heap := (heap h)(run_trans (pl_k_r_hdl (xm h) ! i) \<mapsto>
      fetched X i (pl_k_r_hdl (xm h) ! i) t), xm := (xm h)\<lparr>bo_hdl := []\<rparr>\<rparr>)"
  using assms by (simp add: fetchRes_def fetch_run_def vec_get_def on_trans_def fetched_def thenM_def bindM_def ret_def)

lemma fetchRes_dangling:
  assumes "bo_hdl (xm h) = i # js" "i < length (pl_k_r_hdl (xm h))" "heap h (run_trans (pl_k_r_hdl (xm h) ! i)) = None"
  shows "fetchRes X h = (Inl UndefinedBehaviour, h)"
  using assms by (simp add: fetchRes_def fetch_run_def vec_get_def on_trans_def thenM_def bindM_def throw_def)

end
