(* ===== verification/Server_Manager.thy ===== *)
theory Server_Manager
  imports Sockets Fast_XM
begin

text \<open>
  \<open>test_harness_mgr_server\<close> of \<^verbatim>\<open>src/ps/test_harness_mgr_server.cpp\<close>: the server's end of the requests of one client. It
  receives transactions, runs each on the kernel in a thread of its own, in the order they came, and sends
  the results back. \<open>readGraphPort\<close> and \<open>writeGraphPort\<close> are not modelled: no request leads to them.

  A handler talks to the client over the connection it gets as second component of its state. The calls of the
  runtime that start a graph and wait for it have no effect on this state.
\<close>

section \<open>State\<close>

datatype pl_thread =
    PL_Waiting     \<comment> \<open>until its transaction is the first one\<close>
  | PL_Running     \<comment> \<open>has started the kernel and waits for it\<close>
  | PL_Ended

record server =
  sv_device :: "u8 list"
  sv_num_channels :: u32
  sv_word_size :: u32
  sv_depth :: u32
  sv_memWidth :: u32
  sv_transactions :: "nat list"
  sv_pl_threads :: "nat \<rightharpoonup> pl_thread"
  sv_id2trans :: "u32 \<rightharpoonup> nat"
  sv_graph_started :: "bool list"
  sv_memorySize :: u64
  sv_host :: host

type_synonym 'a vprog = "(server \<times> sock, harness_error, 'a) prog"

definition memorySizeMax :: u64 where
  "memorySizeMax = 1024 * 1024 * 1024"

definition sv_on_host :: "'a hprog \<Rightarrow> (server, harness_error, 'a) prog" where
  "sv_on_host m = (\<lambda>s. case m (sv_host s) of (r, h) \<Rightarrow> (r, s\<lparr>sv_host := h\<rparr>))"

section \<open>Transactions\<close>

abbreviation on_server :: "nat \<Rightarrow> (transaction \<Rightarrow> transaction) \<Rightarrow> unit vprog" where
  "on_server p f \<equiv> own (sv_on_host (on_trans p (modifyM f)))"

text \<open>The new transaction enters both tables before its contents have arrived.\<close>

definition sv_new_transaction :: "u32 \<Rightarrow> u8 \<Rightarrow> u32 \<Rightarrow> (server, harness_error, nat) prog" where
  "sv_new_transaction tid umode timeout = bindM getM (\<lambda>s.
     bindM (sv_on_host (new_trans (test_harness_transactions tid umode (sv_num_channels s)
        (sv_word_size s) (sv_depth s) timeout 0))) (\<lambda>p.
     thenM (modifyM (\<lambda>s. s\<lparr>sv_transactions := sv_transactions s @ [p], sv_id2trans := (sv_id2trans s)(tid \<mapsto> p)\<rparr>))
     (ret p)))"

definition sv_receive_data :: "nat \<Rightarrow> unit vprog" where
  "sv_receive_data p =
     bindM (fetch recvVec_word) (\<lambda>cfg. thenM (on_server p (\<lambda>t. t\<lparr>cfg_ptr := cfg\<rparr>))
     (bindM (fetch recvVec_word) (\<lambda>img. thenM (on_server p (\<lambda>t. t\<lparr>to_aie_ptr := img\<rparr>))
     (bindM (fetch recvData_word) (\<lambda>from_aie_size. thenM (net (resizeM 1 from_aie_size))
     (thenM (on_server p (\<lambda>t. t\<lparr>from_aie_ptr := vec_resize (unat from_aie_size) (from_aie_ptr t)\<rparr>))
     (on_server p (setStatus TRANSACTION_READY))))))))"

definition sv_start_thread :: "nat \<Rightarrow> u64 \<Rightarrow> (server, harness_error, unit) prog" where
  "sv_start_thread p trans_size = bindM (sv_on_host (deref p)) (\<lambda>t.
     if getMemoryUsage t \<noteq> trans_size then throw_harness INVALID_ARGUMENTS
     else modifyM (\<lambda>s. s\<lparr>sv_memorySize := sv_memorySize s + getMemoryUsage t,
       sv_pl_threads := (sv_pl_threads s)(p \<mapsto> PL_Waiting)\<rparr>))"

text \<open>The part of \<open>runTestHarness\<close> from \<open>server->sendData(true)\<close> on. The constructor gets the received timeout in the
  place of \<open>memWidth\<close>.\<close>

definition receive_transaction :: "u64 \<Rightarrow> unit vprog" where
  "receive_transaction trans_size =
     bindM (fetch recvData_word) (\<lambda>umode.
     if umode \<noteq> FUNC_MODE \<and> umode \<noteq> PERF_MODE then throw_harness INVALID_ARGUMENTS
     else bindM (fetch recvData_word) (\<lambda>trans_id.
     bindM getM (\<lambda>(s, k).
     if sv_id2trans s trans_id \<noteq> None then throw_harness INVALID_ARGUMENTS
     else bindM (fetch recvData_word) (\<lambda>timeout.
     bindM (own (sv_new_transaction trans_id umode timeout)) (\<lambda>p.
     thenM (sv_receive_data p) (own (sv_start_thread p trans_size)))))))"

definition sv_runTestHarness :: "unit vprog" where
  "sv_runTestHarness = socket_guard TEST_HARNESS_RUN_FAILURE
     (bindM (fetch recvData_word) (\<lambda>trans_size :: u64.
      bindM getM (\<lambda>(s, k).
      if sv_memorySize s + trans_size > memorySizeMax then put (sendData_bool False)
      else thenM (put (sendData_bool True)) (receive_transaction trans_size))))"

section \<open>The threads\<close>

text \<open>\<open>runPL\<close>: its beginning, once the transaction is the first one, and its end.\<close>

definition pl_start :: "nat \<Rightarrow> (server, harness_error, unit) prog" where
  "pl_start p = thenM (sv_on_host (runPL p))
     (thenM (sv_on_host (on_trans p (modifyM (setStatus TRANSACTION_RUNNING))))
     (modifyM (\<lambda>s. s\<lparr>sv_pl_threads := (sv_pl_threads s)(p \<mapsto> PL_Running)\<rparr>)))"

definition pl_end :: "nat \<Rightarrow> (server, harness_error, unit) prog" where
  "pl_end p = modifyM (\<lambda>s. s\<lparr>sv_pl_threads := (sv_pl_threads s)(p \<mapsto> PL_Ended)\<rparr>)"

text \<open>One look at the kernel while the transaction has no time limit; without a result the thread goes on waiting.\<close>

definition pl_poll :: "xrt \<Rightarrow> nat \<Rightarrow> (server, harness_error, unit) prog" where
  "pl_poll X p = bindM (sv_on_host (waitForTestHarness X)) (\<lambda>res.
     if res then
       thenM (sv_on_host (fetchRes X))
       (thenM (sv_on_host (on_trans p (modifyM (setStatus TRANSACTION_DONE)))) (pl_end p))
     else ret ())"

text \<open>The last look, with the time limit.\<close>

definition pl_last :: "xrt \<Rightarrow> nat \<Rightarrow> (server, harness_error, unit) prog" where
  "pl_last X p = bindM (sv_on_host (waitForTestHarness X)) (\<lambda>res.
     thenM (sv_on_host (on_trans p (modifyM (setStatus (if res then TRANSACTION_DONE else TRANSACTION_TIMEOUT)))))
     (thenM (sv_on_host (fetchRes X)) (pl_end p)))"

text \<open>What a running thread does next, by the time limit of its transaction.\<close>

definition pl_continue :: "xrt \<Rightarrow> nat \<Rightarrow> (server, harness_error, unit) prog" where
  "pl_continue X p = bindM (sv_on_host (deref p)) (\<lambda>t.
     if getTimeOut t = 0 then pl_poll X p else pl_last X p)"

text \<open>One step of the threads between two requests; \<open>X\<close> is what the runtime reports now.\<close>

inductive pl_step :: "xrt \<Rightarrow> server \<Rightarrow> server \<Rightarrow> bool" for X where
  start: "sv_transactions s = p # ps \<Longrightarrow> sv_pl_threads s p = Some PL_Waiting \<Longrightarrow> pl_start p s = (Inr (), s') \<Longrightarrow> pl_step X s s'"
| continue: "sv_transactions s = p # ps \<Longrightarrow> sv_pl_threads s p = Some PL_Running \<Longrightarrow> pl_continue X p s = (Inr (), s') \<Longrightarrow> pl_step X s s'"

text \<open>\<open>join\<close>: the thread of the first transaction runs to its end; \<open>X\<close> is what the runtime reports when it looks
  last. Without a time limit it only ends when the kernel has finished.\<close>

definition join_first :: "xrt \<Rightarrow> nat \<Rightarrow> (server, harness_error, unit) prog" where
  "join_first X p = bindM getM (\<lambda>s.
     if sv_pl_threads s p = Some PL_Ended then ret ()
     else thenM (if sv_pl_threads s p = Some PL_Waiting then pl_start p else ret ())
       (thenM (pl_continue X p)
       (bindM getM (\<lambda>s. if sv_pl_threads s p = Some PL_Ended then ret () else throw NoReturn))))"

section \<open>Results\<close>

text \<open>After \<open>join\<close>: the results are sent, then the transaction leaves both containers and is deleted. Its identifier stays in
  \<open>id2trans\<close>.\<close>

definition sv_send_results :: "transaction \<Rightarrow> unit vprog" where
  "sv_send_results t = thenM (put (sendData_word (status_code (getStatus t))))
     (thenM (put (sendVec_word (from_aie_ptr t))) (put (sendVec_word (perf_ptr t))))"

definition sv_release :: "nat \<Rightarrow> transaction \<Rightarrow> (server, harness_error, unit) prog" where
  "sv_release p t = thenM (modifyM (\<lambda>s. s\<lparr>sv_pl_threads := (sv_pl_threads s)(p := None),
       sv_transactions := tl (sv_transactions s), sv_memorySize := sv_memorySize s - getMemoryUsage t\<rparr>))
     (sv_on_host (delete_trans p))"

definition sv_collect :: "xrt \<Rightarrow> nat \<Rightarrow> unit vprog" where
  "sv_collect X p = bindM (fetch recvData_word) (\<lambda>tran_id.
     bindM (own (sv_on_host (deref p))) (\<lambda>t.
     if tran_id \<noteq> trans_id t then throw_harness INVALID_ARGUMENTS
     else bindM (fetch recvData_word) (\<lambda>timeout_millisec.
     thenM (on_server p (setTimeOut timeout_millisec))
     (thenM (own (join_first X p))
     (bindM (own (sv_on_host (deref p))) (\<lambda>t. thenM (sv_send_results t) (own (sv_release p t))))))))"

definition sv_waitForTestHarness :: "xrt \<Rightarrow> unit vprog" where
  "sv_waitForTestHarness X = bindM getM (\<lambda>(s, k).
     if dom (sv_pl_threads s) = {} then throw_harness INVALID_OPERATIONS
     else (case sv_transactions s of
       [] \<Rightarrow> throw UndefinedBehaviour
     | p # rest \<Rightarrow>
       if sv_pl_threads s p = None \<or> card (dom (sv_pl_threads s)) \<noteq> length (sv_transactions s)
       then throw_harness INVALID_OPERATIONS
       else socket_guard TEST_HARNESS_WAIT_FOR_RES_FAILURE (sv_collect X p)))"

definition sv_queryTransactionStatus :: "unit vprog" where
  "sv_queryTransactionStatus = socket_guard TEST_HARNESS_RUN_FAILURE
     (bindM (fetch recvData_word) (\<lambda>trans_id :: u32.
      bindM getM (\<lambda>(s, k). case sv_id2trans s trans_id of
        None \<Rightarrow> throw_harness INVALID_ARGUMENTS
      | Some p \<Rightarrow> bindM (own (sv_on_host (deref p))) (\<lambda>t. put (sendData_word (status_code (getStatus t)))))))"

section \<open>Graphs\<close>

definition sv_runAIEGraph :: "unit vprog" where
  "sv_runAIEGraph = socket_guard TEST_HARNESS_RUN_GRAPH_FAILURE
     (bindM (fetch recvData_word) (\<lambda>g_idx :: u32. bindM (fetch recvData_word) (\<lambda>iters :: u32.
      bindM getM (\<lambda>(s, k). bindM (ubM (vec_set (unat g_idx) True (sv_graph_started s))) (\<lambda>g.
      thenM (own (modifyM (\<lambda>s. s\<lparr>sv_graph_started := g\<rparr>))) (put (sendVec_bool g)))))))"

definition sv_waitForGraph :: "unit vprog" where
  "sv_waitForGraph = socket_guard TEST_HARNESS_RUN_FAILURE
     (bindM (fetch recvData_word) (\<lambda>timeout_millisec :: u32.
      thenM (own (modifyM (\<lambda>s. s\<lparr>sv_graph_started := map (\<lambda>_. False) (sv_graph_started s)\<rparr>)))
      (bindM getM (\<lambda>(s, k). put (sendVec_bool (sv_graph_started s))))))"

section \<open>Construction\<close>

definition supported :: "u8 list \<Rightarrow> bool" where
  "supported device \<longleftrightarrow> device \<in> set (map (map of_char) [''vek280'', ''vck190'', ''vek385''])"

definition verifyDevice :: "unit vprog" where
  "verifyDevice = socket_guard TEST_HARNESS_CREATION_FAILURE (bindM getM (\<lambda>(s, k).
     if \<not> supported (sv_device s) then throw_harness INVALID_ARGUMENTS
     else bindM (fetch recvData_str) (\<lambda>client_req_device.
       if sv_device s \<noteq> client_req_device then
         thenM (put (sendData_bool False)) (thenM (put (sendData_str (sv_device s))) (throw_harness INVALID_ARGUMENTS))
       else thenM (put (sendData_bool True)) (thenM (put (sendData_word (sv_num_channels s)))
         (thenM (put (sendData_word (sv_word_size s))) (thenM (put (sendData_word (sv_depth s)))
         (put (sendData_word (sv_memWidth s)))))))))"

text \<open>\<open>init\<close>: the design of the client, and the graphs it has started. \<open>can_open\<close> says whether the file of the design can be
  written. Loading it is a call of the runtime.\<close>

definition sv_init :: "bool \<Rightarrow> unit vprog" where
  "sv_init can_open = socket_guard TEST_HARNESS_CREATION_FAILURE
     (bindM (fetch recvData_word) (\<lambda>device_index :: u32.
      bindM (fetch recvVec_str) (\<lambda>graph_names.
      bindM (fetch recvVec_bool) (\<lambda>graph_started. thenM (own (modifyM (\<lambda>s. s\<lparr>sv_graph_started := graph_started\<rparr>)))
      (bindM (fetch recvVec_str) (\<lambda>pl_kernel_names.
      bindM (fetch (recvData_path can_open)) (\<lambda>xclbin.
      put (sendData_word memorySizeMax))))))))"

definition new_server :: "u8 list \<Rightarrow> u32 \<Rightarrow> u32 \<Rightarrow> u32 \<Rightarrow> u32 \<Rightarrow> server" where
  "new_server device num_channels depth word_size mem_width =
     \<lparr>sv_device = device, sv_num_channels = num_channels, sv_word_size = word_size, sv_depth = depth, sv_memWidth = mem_width,
      sv_transactions = [], sv_pl_threads = Map.empty, sv_id2trans = Map.empty, sv_graph_started = [], sv_memorySize = 0,
      sv_host = \<lparr>heap = Map.empty, next_trans = 0, xm = \<lparr>pl_k_r_hdl = [], bo_hdl = []\<rparr>\<rparr>\<rparr>"

text \<open>The constructor.\<close>

definition construct_server :: "bool \<Rightarrow> unit vprog" where
  "construct_server can_open = thenM verifyDevice (sv_init can_open)"

end
