(* ===== verification/Sockets_Codec.thy ===== *)
theory Sockets_Codec
  imports Sockets
begin

text \<open>
  The contract of the encodings: what is sent is read back, whatever the pieces the bytes arrive in. A
  conversation \<open>talks m ins outs v\<close> reads the bytes \<open>ins\<close>, sends the bytes \<open>outs\<close> and returns \<open>v\<close>; conversations
  compose, and a \<open>codec\<close> is a pair of one that sends and one that receives the same bytes.
\<close>

named_theorems talks

section \<open>Pieces\<close>

text \<open>The bytes that arrive before the connection ends or fails.\<close>

fun readable :: "recv_event list \<Rightarrow> u8 list" where
  "readable [] = []"
| "readable (Recv_Failure # es) = []"
| "readable (Chunk b bs # es) = b # bs @ readable es"

text \<open>How the connection ends.\<close>

fun ending :: "recv_event list \<Rightarrow> SocketStatus" where
  "ending [] = SOCKET_CLOSE_FAILURE"
| "ending (Recv_Failure # es) = SOCKET_RECEIVE_FAILURE"
| "ending (Chunk b bs # es) = ending es"

lemma sys_recv_some:
  assumes "0 < n" "readable es \<noteq> []"
  obtains k bs es' where "sys_recv n es = (int k, bs, es')" "0 < k" "k \<le> n" "length bs = k" "readable es = bs @ readable es'" "ending es' = ending es"
proof -
  obtain b bs es1 where es: "es = Chunk b bs # es1" using assms(2) by (cases es rule: readable.cases) auto
  show ?thesis
  proof (cases "length (b # bs) \<le> n")
    case True
    then show ?thesis using that [of "length (b # bs)" "b # bs" es1] es by simp
  next
    case False
    then obtain c cs where c: "drop n (b # bs) = c # cs" by (cases "drop n (b # bs)") auto
    have "readable es = take n (b # bs) @ drop n (b # bs) @ readable es1" unfolding es by (simp add: append_assoc [symmetric] del: append_assoc)
    then show ?thesis using that [of n "take n (b # bs)" "Chunk c cs # es1"] False c es assms(1) by simp
  qed
qed

lemma sys_recv_none:
  "readable es = [] \<Longrightarrow> \<exists>es'. sys_recv n es = (if ending es = SOCKET_CLOSE_FAILURE then 0 else -1, [], es')"
  by (cases es rule: readable.cases) auto

lemma ending_cases: "ending es = SOCKET_CLOSE_FAILURE \<or> ending es = SOCKET_RECEIVE_FAILURE"
  by (induction es rule: ending.induct) simp_all

lemma recv_rest_0 [simp]: "recv_rest 0 s = (Inr [], s)"
  by (simp add: recv_rest.simps)

text \<open>From \<open>s\<close> to \<open>s'\<close>, \<open>rest\<close> is left to read and \<open>outs\<close> has been sent.\<close>

definition advances :: "sock \<Rightarrow> u8 list \<Rightarrow> u8 list \<Rightarrow> sock \<Rightarrow> bool" where
  "advances s rest outs s' \<longleftrightarrow> readable (incoming s') = rest \<and> ending (incoming s') = ending (incoming s) \<and> outgoing s' = outgoing s @ outs \<and>
     send_room s' = send_room s \<and> alloc_limit s' = alloc_limit s"

lemma recv_rest_run:
  "n \<le> length (readable (incoming s)) \<Longrightarrow>
    \<exists>s'. recv_rest n s = (Inr (take n (readable (incoming s))), s') \<and> advances s (drop n (readable (incoming s))) [] s'"
proof (induction n arbitrary: s rule: less_induct)
  case (less n)
  show ?case
  proof (cases "n = 0")
    case True
    then show ?thesis by (simp add: advances_def)
  next
    case False
    then have "readable (incoming s) \<noteq> []" using less.prems by auto
    then obtain k bs es where r: "sys_recv n (incoming s) = (int k, bs, es)" "0 < k" "k \<le> n" "length bs = k"
      "readable (incoming s) = bs @ readable es" "ending es = ending (incoming s)"
      using sys_recv_some [of n "incoming s"] False by auto
    have "n - k < n" "n - k \<le> length (readable (incoming (s\<lparr>incoming := es\<rparr>)))" using r False less.prems by auto
    from less.IH [OF this] obtain s' where
      i: "recv_rest (n - k) (s\<lparr>incoming := es\<rparr>) = (Inr (take (n - k) (readable es)), s')"
      "advances s (drop (n - k) (readable es)) [] s'" using r(6) by (auto simp: advances_def)
    have "recv_rest n s = (Inr (bs @ take (n - k) (readable es)), s')"
      using False r(1,2) i(1) by (subst recv_rest.simps) simp
    then show ?thesis using r(3-6) i(2) by (simp add: advances_def)
  qed
qed

text \<open>A value that never arrives in full is an exception, never a short value.\<close>

lemma recv_rest_short:
  "length (readable (incoming s)) < n \<Longrightarrow>
    \<exists>s'. recv_rest n s = (Inl (SocketException (ending (incoming s))), s')"
proof (induction n arbitrary: s rule: less_induct)
  case (less n)
  have n: "n \<noteq> 0" using less.prems by auto
  show ?case
  proof (cases "readable (incoming s) = []")
    case True
    then obtain es' where "sys_recv n (incoming s) = (if ending (incoming s) = SOCKET_CLOSE_FAILURE then 0 else -1, [], es')"
      using sys_recv_none by blast
    then show ?thesis using n ending_cases [of "incoming s"] by (subst recv_rest.simps) auto
  next
    case False
    then obtain k bs es where r: "sys_recv n (incoming s) = (int k, bs, es)" "0 < k" "k \<le> n" "length bs = k"
      "readable (incoming s) = bs @ readable es" "ending es = ending (incoming s)"
      using sys_recv_some [of n "incoming s"] n by auto
    have "n - k < n" "length (readable (incoming (s\<lparr>incoming := es\<rparr>))) < n - k" using r n less.prems by auto
    from less.IH [OF this] obtain s' where
      "recv_rest (n - k) (s\<lparr>incoming := es\<rparr>) = (Inl (SocketException (ending es)), s')" by auto
    then show ?thesis using n r(1,2,6) by (subst recv_rest.simps) simp
  qed
qed

section \<open>Conversations\<close>

definition talks :: "'v sprog \<Rightarrow> u8 list \<Rightarrow> u8 list \<Rightarrow> 'v \<Rightarrow> bool" where
  "talks m ins outs v \<longleftrightarrow> (\<forall>s rest.
     readable (incoming s) = ins @ rest \<longrightarrow> send_room s = None \<longrightarrow> length ins \<le> alloc_limit s \<longrightarrow>
     (\<exists>s'. m s = (Inr v, s') \<and> advances s rest outs s'))"

lemma talksI:
  fixes m :: "'v sprog"
  assumes "\<And>s rest. readable (incoming s) = ins @ rest \<Longrightarrow> send_room s = None \<Longrightarrow> length ins \<le> alloc_limit s \<Longrightarrow>
    \<exists>s'. m s = (Inr v, s') \<and> advances s rest outs s'"
  shows "talks m ins outs v"
  using assms unfolding talks_def by blast

lemma talksD:
  fixes m :: "'v sprog"
  assumes "talks m ins outs v" "readable (incoming s) = ins @ rest" "send_room s = None" "length ins \<le> alloc_limit s"
  obtains s' where "m s = (Inr v, s')" "advances s rest outs s'"
  using assms unfolding talks_def by blast

lemma talks_ret [talks]: "talks (ret v) [] [] v"
  by (rule talksI) (simp add: advances_def)

lemma talks_bind:
  assumes m: "talks m a x v" and f: "talks (f v) b y w"
  shows "talks (bindM m f) (a @ b) (x @ y) w"
proof (rule talksI)
  fix s :: sock and rest assume s: "readable (incoming s) = (a @ b) @ rest" "send_room s = None" "length (a @ b) \<le> alloc_limit s"
  then obtain s1 where 1: "m s = (Inr v, s1)" "advances s (b @ rest) x s1"
    using talksD [OF m, of s "b @ rest"] by auto
  then obtain s2 where "f v s1 = (Inr w, s2)" "advances s1 rest y s2"
    using talksD [OF f, of s1 rest] s by (auto simp: advances_def)
  with 1 show "\<exists>s'. bindM m f s = (Inr w, s') \<and> advances s rest (x @ y) s'"
    by (intro exI [of _ s2]) (simp add: bindM_def advances_def)
qed

lemma talks_bind': "talks m a x v \<Longrightarrow> talks (f v) b y w \<Longrightarrow> c = a @ b \<Longrightarrow> z = x @ y \<Longrightarrow> u = w \<Longrightarrow> talks (bindM m f) c z u"
  by (simp add: talks_bind)

lemma talks_recvBytes: "d = int (length bs) \<Longrightarrow> talks (recvBytes d) bs [] bs"
proof (rule talksI)
  fix s :: sock and rest assume d: "d = int (length bs)" and "readable (incoming s) = bs @ rest"
  with recv_rest_run [of "length bs" s]
  show "\<exists>s'. recvBytes d s = (Inr bs, s') \<and> advances s rest [] s'"
    by (auto simp: recvBytes_def)
qed

lemma talks_sendBytes: "length bs < 2 ^ 64 \<Longrightarrow> talks (sendBytes bs) [] bs (length bs)"
  by (rule talksI) (simp add: sendBytes_def sys_send_def unat_of_nat_small advances_def)

lemma talks_resize:
  assumes "unat n \<le> length b" "unat n * k < 2 ^ 63" "talks m b y w" shows "talks (thenM (resizeM k n) m) b y w"
proof (rule talksI)
  fix s :: sock and rest assume s: "readable (incoming s) = b @ rest" "send_room s = None" "length b \<le> alloc_limit s"
  then have "thenM (resizeM k n) m s = m s" using assms(1,2) by (simp add: resizeM_def thenM_def bindM_def guardM_def ret_def)
  with talksD [OF assms(3) s] show "\<exists>s'. thenM (resizeM k n) m s = (Inr w, s') \<and> advances s rest y s'"
    by metis
qed

text \<open>A conversation that is cut short: \<open>m\<close> reads the bytes \<open>ins\<close> and throws when some of them never arrive.\<close>

definition breaks :: "'v sprog \<Rightarrow> u8 list \<Rightarrow> bool" where
  "breaks m ins \<longleftrightarrow> (\<forall>s missing. ins = readable (incoming s) @ missing \<longrightarrow> missing \<noteq> [] \<longrightarrow> send_room s = None \<longrightarrow>
     length ins \<le> alloc_limit s \<longrightarrow> (\<exists>s'. m s = (Inl (SocketException (ending (incoming s))), s')))"

lemma breaksI:
  fixes m :: "'v sprog"
  assumes "\<And>s missing. ins = readable (incoming s) @ missing \<Longrightarrow> missing \<noteq> [] \<Longrightarrow> send_room s = None \<Longrightarrow>
    length ins \<le> alloc_limit s \<Longrightarrow> \<exists>s'. m s = (Inl (SocketException (ending (incoming s))), s')"
  shows "breaks m ins"
  using assms unfolding breaks_def by blast

lemma breaksD:
  fixes m :: "'v sprog"
  assumes "breaks m ins" "ins = readable (incoming s) @ missing" "missing \<noteq> []" "send_room s = None" "length ins \<le> alloc_limit s"
  obtains s' where "m s = (Inl (SocketException (ending (incoming s))), s')"
  using assms unfolding breaks_def by blast

lemma breaks_Nil [simp]: "breaks m []"
  by (rule breaksI) simp

lemma breaks_bind:
  assumes "breaks m a" and m: "talks m a [] v" and f: "breaks (f v) b" and c: "c = a @ b"
  shows "breaks (bindM m f) c"
proof (rule breaksI)
  fix s :: sock and missing
  assume s: "c = readable (incoming s) @ missing" "missing \<noteq> []" "send_room s = None" "length c \<le> alloc_limit s"
  show "\<exists>s'. bindM m f s = (Inl (SocketException (ending (incoming s))), s')"
  proof (cases "length (readable (incoming s)) < length a")
    case True
    then have "take (length (readable (incoming s))) a = readable (incoming s)"
      using arg_cong [OF s(1), of "take (length (readable (incoming s)))"] c by simp
    then have "a = readable (incoming s) @ drop (length (readable (incoming s))) a" by (metis append_take_drop_id)
    moreover have "drop (length (readable (incoming s))) a \<noteq> []" using True by simp
    ultimately obtain q where "a = readable (incoming s) @ q" "q \<noteq> []" by blast
    from breaksD [OF assms(1) this s(3)] s(4) c obtain s' where "m s = (Inl (SocketException (ending (incoming s))), s')" by auto
    then show ?thesis by (simp add: bindM_Inl)
  next
    case False
    let ?p = "drop (length a) (readable (incoming s))"
    have "take (length a) (readable (incoming s)) = a"
      using False arg_cong [OF s(1), of "take (length a)"] c by simp
    then have p: "readable (incoming s) = a @ ?p" by (metis append_take_drop_id)
    then have pb: "b = ?p @ missing" using s(1) c by (metis append_assoc same_append_eq)
    obtain s1 where 1: "m s = (Inr v, s1)" "advances s ?p [] s1"
      using talksD [OF m p s(3)] s(4) c by auto
    then have "\<exists>s'. f v s1 = (Inl (SocketException (ending (incoming s1))), s')"
      using breaksD [OF f, of s1 missing] pb s c by (auto simp: advances_def)
    with 1 show ?thesis by (auto simp: bindM_def advances_def)
  qed
qed

lemma breaks_first: "breaks m a \<Longrightarrow> breaks (bindM m f) a"
  unfolding breaks_def by (fastforce simp: bindM_def)

lemma breaks_recvBytes: "breaks (recvBytes (int (length bs))) bs"
proof (rule breaksI)
  fix s :: sock and missing assume "bs = readable (incoming s) @ missing" "missing \<noteq> []"
  then have "length (readable (incoming s)) < length bs" by simp
  from recv_rest_short [OF this] show "\<exists>s'. recvBytes (int (length bs)) s = (Inl (SocketException (ending (incoming s))), s')"
    by (simp add: recvBytes_def)
qed

lemma breaks_recvBytes': "d = int (length bs) \<Longrightarrow> breaks (recvBytes d) bs"
  using breaks_recvBytes by simp

lemma breaks_resize:
  assumes "unat n \<le> length b" "unat n * k < 2 ^ 63" "breaks m b" shows "breaks (thenM (resizeM k n) m) b"
proof (rule breaksI)
  fix s :: sock and missing
  assume s: "b = readable (incoming s) @ missing" "missing \<noteq> []" "send_room s = None" "length b \<le> alloc_limit s"
  then have "thenM (resizeM k n) m s = m s" using assms(1,2) by (simp add: resizeM_def thenM_def bindM_def guardM_def ret_def)
  with breaksD [OF assms(3) s] show "\<exists>s'. thenM (resizeM k n) m s = (Inl (SocketException (ending (incoming s))), s')"
    by metis
qed

section \<open>Numbers\<close>

definition byte_sized :: "'a::len itself \<Rightarrow> bool" where
  "byte_sized T \<longleftrightarrow> LENGTH('a) mod 8 = 0 \<and> LENGTH('a) \<le> 128"

lemma byte_sized_widths: "byte_sized TYPE('a::len) \<Longrightarrow> widths_ok TYPE('a) TYPE(8)"
  using div_le_mono [of "LENGTH('a)" 128 8] by (simp add: byte_sized_def widths_ok_def MEM_RATIO_def)

lemma length_word_bytes [simp]: "length (word_bytes (w :: 'a::len word)) = LENGTH('a) div 8"
  by (simp add: word_bytes_def)

lemma pack_word_bytes:
  assumes "byte_sized TYPE('a::len)" shows "pack_lanes 0 (word_bytes w) 0 = (w :: 'a word)"
proof (rule word_eq_lanesI [OF byte_sized_widths [OF assms]])
  fix j assume j: "j < MEM_RATIO TYPE('a) TYPE(8)"
  then show "(lane (pack_lanes 0 (word_bytes w) 0 :: 'a word) j :: 8 word) = lane w j"
    using lane_pack_lanes [OF byte_sized_widths [OF assms] j, of 0 "word_bytes w" 0]
    by (simp add: word_bytes_def lanes_def MEM_RATIO_def)
qed

lemma talks_send_word [talks]:
  assumes "byte_sized TYPE('a::len)" shows "talks (sendData_word (w :: 'a word)) [] (word_bytes w) (LENGTH('a) div 8)"
proof -
  have "LENGTH('a) div 8 < 2 ^ 64" using assms div_le_mono [of "LENGTH('a)" 128 8] by (simp add: byte_sized_def)
  then show ?thesis using talks_sendBytes [of "word_bytes w"] by (simp add: sendData_word_def)
qed

lemma talks_recv_word [talks]:
  assumes "byte_sized TYPE('a::len)" shows "talks recvData_word (word_bytes (w :: 'a word)) [] (w, LENGTH('a) div 8)"
  unfolding recvData_word_def
  by (rule talks_bind' [OF talks_recvBytes [where bs = "word_bytes w"] talks_ret]) (simp_all add: pack_word_bytes [OF assms])

lemma breaks_recv_word:
  assumes "byte_sized TYPE('a::len)" shows "breaks (recvData_word :: ('a word \<times> nat) sprog) (word_bytes (w :: 'a word))"
  unfolding recvData_word_def by (rule breaks_first [OF breaks_recvBytes']) simp

definition enc_bool :: "bool \<Rightarrow> u8 list" where
  "enc_bool b = [if b then 1 else 0]"

lemma length_enc_bool [simp]: "length (enc_bool b) = 1"
  by (simp add: enc_bool_def)

lemma talks_send_bool [talks]: "talks (sendData_bool b) [] (enc_bool b) 1"
  using talks_sendBytes [of "enc_bool b"] by (simp add: sendData_bool_def enc_bool_def)

lemma talks_recv_bool [talks]: "talks recvData_bool (enc_bool b) [] (b, 1)"
proof -
  let ?f = "\<lambda>bs. if bs = [0 :: u8] then ret (False, 1) else if bs = [1] then ret (True, 1) else throw UndefinedBehaviour"
  have t: "talks (?f (enc_bool b)) [] [] (b, 1)" by (cases b) (simp_all add: talks_ret enc_bool_def)
  show ?thesis
    unfolding recvData_bool_def by (rule talks_bind' [where f = ?f, OF talks_recvBytes [where bs = "enc_bool b"] t]) simp_all
qed

lemma breaks_recv_bool: "breaks recvData_bool (enc_bool b)"
  unfolding recvData_bool_def by (rule breaks_first [OF breaks_recvBytes']) simp

section \<open>The contract of an encoding\<close>

text \<open>\<open>send\<close> writes the encoding of \<open>v\<close>; \<open>recv\<close> reads \<open>v\<close> back from these bytes, whatever the pieces they arrive in,
  and leaves the bytes that follow.\<close>

definition transports :: "('a \<Rightarrow> nat sprog) \<Rightarrow> ('a \<times> nat) sprog \<Rightarrow> ('a \<Rightarrow> u8 list) \<Rightarrow> 'a \<Rightarrow> bool" where
  "transports send recv enc v \<longleftrightarrow> (\<forall>s k rest.
     send_room s = None \<longrightarrow> send_room k = None \<longrightarrow> length (enc v) \<le> alloc_limit k \<longrightarrow>
     (\<exists>s'. send v s = (Inr (length (enc v)), s') \<and> outgoing s' = outgoing s @ enc v \<and>
       readable (incoming s') = readable (incoming s)) \<and>
     (readable (incoming k) = enc v @ rest \<longrightarrow>
       (\<exists>k'. recv k = (Inr (v, length (enc v)), k') \<and> readable (incoming k') = rest \<and> outgoing k' = outgoing k)))"

text \<open>When only a part of the encoding of \<open>v\<close> arrives, \<open>recv\<close> throws what the end of the connection calls for.\<close>

definition throws_when_cut :: "('a \<times> nat) sprog \<Rightarrow> ('a \<Rightarrow> u8 list) \<Rightarrow> 'a \<Rightarrow> bool" where
  "throws_when_cut recv enc v \<longleftrightarrow> (\<forall>k missing.
     enc v = readable (incoming k) @ missing \<longrightarrow> missing \<noteq> [] \<longrightarrow> send_room k = None \<longrightarrow> length (enc v) \<le> alloc_limit k \<longrightarrow>
     (\<exists>k'. recv k = (Inl (SocketException (ending (incoming k))), k')))"

locale codec =
  fixes send :: "'a \<Rightarrow> nat sprog" and recv :: "('a \<times> nat) sprog" and enc :: "'a \<Rightarrow> u8 list" and ok :: "'a \<Rightarrow> bool"
  assumes send_talks: "ok v \<Longrightarrow> talks (send v) [] (enc v) (length (enc v))"
    and recv_talks: "ok v \<Longrightarrow> talks recv (enc v) [] (v, length (enc v))"
    and recv_breaks: "ok v \<Longrightarrow> breaks recv (enc v)"
begin

lemma transported:
  assumes "ok v" shows "transports send recv enc v"
  unfolding transports_def
proof (intro allI impI conjI)
  fix s k :: sock and rest
  assume s: "send_room s = None" "send_room k = None" "length (enc v) \<le> alloc_limit k"
  obtain s' where "send v s = (Inr (length (enc v)), s')" "advances s (readable (incoming s)) (enc v) s'"
    using talksD [OF send_talks [OF assms], of s "readable (incoming s)"] s by auto
  then show "\<exists>s'. send v s = (Inr (length (enc v)), s') \<and> outgoing s' = outgoing s @ enc v \<and>
      readable (incoming s') = readable (incoming s)"
    by (auto simp: advances_def)
  assume "readable (incoming k) = enc v @ rest"
  then obtain k' where "recv k = (Inr (v, length (enc v)), k')" "advances k rest [] k'"
    using talksD [OF recv_talks [OF assms] _ s(2,3)] by blast
  then show "\<exists>k'. recv k = (Inr (v, length (enc v)), k') \<and> readable (incoming k') = rest \<and> outgoing k' = outgoing k"
    by (auto simp: advances_def)
qed

lemma fails_short: "ok v \<Longrightarrow> throws_when_cut recv enc v"
  using recv_breaks unfolding throws_when_cut_def breaks_def by blast

text \<open>The elements of a vector, one after the other.\<close>

definition enc_each :: "'a list \<Rightarrow> u8 list" where
  "enc_each v = word_bytes (of_nat (length v) :: u64) @ concat (map enc v)"

definition ok_each :: "'a list \<Rightarrow> bool" where
  "ok_each v \<longleftrightarrow> (\<forall>x \<in> set v. ok x \<and> enc x \<noteq> []) \<and> length v < 2 ^ 63"

lemma send_fold:
  "\<forall>x \<in> set v. ok x \<Longrightarrow> talks (foldM (\<lambda>x total. bindM (send x) (\<lambda>b. ret (total + b))) v n) [] (concat (map enc v))
    (n + length (concat (map enc v)))"
proof (induction v arbitrary: n)
  case Nil
  then show ?case by (simp add: talks_ret)
next
  case (Cons x v)
  have "talks (bindM (send x) (\<lambda>b. ret (n + b))) [] (enc x) (n + length (enc x))"
    by (rule talks_bind' [OF send_talks talks_ret]) (use Cons.prems in simp_all)
  from talks_bind' [where f = "foldM (\<lambda>x total. bindM (send x) (\<lambda>b. ret (total + b))) v", OF this
      Cons.IH [of "n + length (enc x)"] refl refl refl] Cons.prems
  show ?case by (simp add: add.assoc)
qed

lemma recv_fold:
  "\<forall>x \<in> set v. ok x \<Longrightarrow> length is = length v \<Longrightarrow>
    talks (foldM (\<lambda>_ (xs, total). bindM recv (\<lambda>(x, b). ret (xs @ [x], total + b))) is (xs, n)) (concat (map enc v)) []
      (xs @ v, n + length (concat (map enc v)))"
proof (induction v arbitrary: "is" xs n)
  case Nil
  then show ?case by (simp add: talks_ret)
next
  case (Cons x v)
  then obtain i is' where "is": "is = i # is'" "length is' = length v" by (cases "is") auto
  have "talks (bindM recv (\<lambda>(x, b). ret (xs @ [x], n + b))) (enc x) [] (xs @ [x], n + length (enc x))"
    by (rule talks_bind' [OF recv_talks]) (use Cons.prems in \<open>auto simp: talks_ret\<close>)
  from talks_bind' [where f = "foldM (\<lambda>_ (xs, total). bindM recv (\<lambda>(x, b). ret (xs @ [x], total + b))) is'", OF this
      Cons.IH [of is' "xs @ [x]" "n + length (enc x)"] refl refl refl] Cons.prems "is"
  show ?case by (simp add: add.assoc)
qed

lemma recv_fold_breaks:
  "\<forall>x \<in> set v. ok x \<Longrightarrow> length is = length v \<Longrightarrow>
    breaks (foldM (\<lambda>_ (xs, total). bindM recv (\<lambda>(x, b). ret (xs @ [x], total + b))) is (xs, n)) (concat (map enc v))"
proof (induction v arbitrary: "is" xs n)
  case Nil
  then show ?case by simp
next
  case (Cons x v)
  then obtain i is' where "is": "is = i # is'" "length is' = length v" by (cases "is") auto
  have "talks (bindM recv (\<lambda>(x, b). ret (xs @ [x], n + b))) (enc x) [] (xs @ [x], n + length (enc x))"
    by (rule talks_bind' [OF recv_talks]) (use Cons.prems in \<open>auto simp: talks_ret\<close>)
  moreover have "breaks (bindM recv (\<lambda>(x, b). ret (xs @ [x], n + b))) (enc x)"
    using Cons.prems by (intro breaks_first recv_breaks) simp
  moreover have "breaks (foldM (\<lambda>_ (xs, total). bindM recv (\<lambda>(x, b). ret (xs @ [x], total + b))) is'
      (xs @ [x], n + length (enc x))) (concat (map enc v))"
    using Cons "is" by simp
  ultimately show ?case
    using breaks_bind [where f = "foldM (\<lambda>_ (xs, total). bindM recv (\<lambda>(x, b). ret (xs @ [x], total + b))) is'"] "is" by simp
qed

lemma ok_each_count:
  assumes "ok_each v"
  shows "length v \<le> length (concat (map enc v))" "unat (of_nat (length v) :: u64) = length v" "length v < 2 ^ 63"
    "\<forall>x \<in> set v. ok x"
proof -
  show "length v \<le> length (concat (map enc v))"
    using assms unfolding ok_each_def
  proof (induction v)
    case (Cons x v)
    then have "1 \<le> length (enc x)" by (cases "enc x") auto
    with Cons show ?case by auto
  qed simp
  show "unat (of_nat (length v) :: u64) = length v" using assms by (intro unat_of_nat_small) (simp add: ok_each_def)
  show "length v < 2 ^ 63" "\<forall>x \<in> set v. ok x" using assms by (simp_all add: ok_each_def)
qed

lemma send_each_talks:
  assumes "ok_each v" shows "talks (send_each send v) [] (enc_each v) (length (enc_each v))"
  unfolding send_each_def enc_each_def
  by (rule talks_bind' [OF talks_send_word send_fold]) (use assms in \<open>simp_all add: ok_each_def byte_sized_def\<close>)

lemma recv_each_talks:
  assumes "ok_each v" shows "talks (recv_each recv) (enc_each v) [] (v, length (enc_each v))"
  unfolding recv_each_def enc_each_def
  by (rule talks_bind' [OF talks_recv_word])
    (use ok_each_count [OF assms] recv_fold [of v "[0..<length v]" "[]" 8] in
      \<open>auto simp: byte_sized_def intro!: talks_resize\<close>)

lemma recv_each_breaks:
  assumes "ok_each v" shows "breaks (recv_each recv) (enc_each v)"
  unfolding recv_each_def enc_each_def
  by (rule breaks_bind [OF breaks_recv_word talks_recv_word])
    (use ok_each_count [OF assms] recv_fold_breaks [of v "[0..<length v]" "[]" 8] in
      \<open>auto simp: byte_sized_def intro!: breaks_resize\<close>)

end

section \<open>The encodings of the harness\<close>

definition enc_str :: "u8 list \<Rightarrow> u8 list" where
  "enc_str str = word_bytes (of_nat (length str) :: u64) @ str"

definition short :: "nat \<Rightarrow> 'a list \<Rightarrow> bool" where
  "short n v \<longleftrightarrow> length v < 2 ^ n"

definition enc_vec :: "'a::len word list \<Rightarrow> u8 list" where
  "enc_vec v = word_bytes (of_nat (length v) :: u64) @ concat (map word_bytes v)"

lemma byte_sized_widths_used [simp]: "byte_sized TYPE(8)" "byte_sized TYPE(32)" "byte_sized TYPE(64)"
  by (simp_all add: byte_sized_def)

lemma unat_length_64: "length v < 2 ^ 63 \<Longrightarrow> unat (of_nat (length v) :: u64) = length v"
  by (intro unat_of_nat_small) simp

lemma sint_length_64:
  assumes "length v < 2 ^ 63" shows "sint (of_nat (length v) :: u64) = int (length v)"
  using assms by (simp add: sint_uint uint_nat unat_length_64 signed_take_bit_int_eq_self)

lemma talks_send_str:
  assumes "length str < 2 ^ 63" shows "talks (sendData_str str) [] (enc_str str) (length (enc_str str))"
  unfolding sendData_str_def enc_str_def
  by (rule talks_bind' [OF talks_send_word talks_bind' [OF talks_sendBytes talks_ret]]) (use assms in simp_all)

lemma talks_recv_str:
  assumes "length str < 2 ^ 63" shows "talks recvData_str (enc_str str) [] (str, length (enc_str str))"
proof -
  have "talks (bindM (recvBytes (sint (of_nat (length str) :: u64))) (\<lambda>bs. ret (bs, 8 + length bs))) str [] (str, 8 + length str)"
    by (rule talks_bind' [OF talks_recvBytes talks_ret]) (use assms in \<open>simp_all add: sint_length_64\<close>)
  then have "talks (thenM (resizeM 1 (of_nat (length str))) (bindM (recvBytes (sint (of_nat (length str) :: u64))) (\<lambda>bs. ret (bs, 8 + length bs))))
      str [] (str, 8 + length str)"
    using assms by (intro talks_resize) (simp_all add: unat_length_64)
  then show ?thesis
    unfolding recvData_str_def enc_str_def
    by (intro talks_bind' [OF talks_recv_word]) simp_all
qed

lemma breaks_recv_str:
  assumes "length str < 2 ^ 63" shows "breaks recvData_str (enc_str str)"
proof -
  have "breaks (bindM (recvBytes (sint (of_nat (length str) :: u64))) (\<lambda>bs. ret (bs, 8 + length bs))) str"
    using assms by (intro breaks_first breaks_recvBytes') (simp add: sint_length_64)
  then have "breaks (thenM (resizeM 1 (of_nat (length str))) (bindM (recvBytes (sint (of_nat (length str) :: u64)))
      (\<lambda>bs. ret (bs, 8 + length bs)))) str"
    using assms by (intro breaks_resize) (simp_all add: unat_length_64)
  then show ?thesis
    unfolding recvData_str_def enc_str_def by (intro breaks_bind [OF breaks_recv_word talks_recv_word]) simp_all
qed

lemma talks_send_vec:
  assumes "byte_sized TYPE('a::len)" "length v < 2 ^ 59"
  shows "talks (sendVec_word (v :: 'a word list)) [] (enc_vec v) (length (enc_vec v))"
proof -
  have "length (concat (map word_bytes v)) = length v * (LENGTH('a) div 8)" by (induction v) simp_all
  also have "\<dots> \<le> length v * 16" using assms(1) div_le_mono [of "LENGTH('a)" 128 8] by (simp add: byte_sized_def)
  finally have "length (concat (map word_bytes v)) < 2 ^ 64" using assms(2) by simp
  then show ?thesis
    unfolding sendVec_word_def enc_vec_def
    by (intro talks_bind' [OF talks_send_word talks_bind' [OF talks_sendBytes talks_ret]]) simp_all
qed

lemma words_of_bytes_concat:
  "byte_sized TYPE('a::len) \<Longrightarrow> words_of (LENGTH('a) div 8) (length v) (concat (map word_bytes v)) = (v :: 'a word list)"
  by (induction v) (simp_all add: pack_word_bytes)

lemma length_words_bytes: "length (concat (map word_bytes (v :: 'a::len word list))) = length v * (LENGTH('a) div 8)"
  by (induction v) simp_all

lemma count_le_bytes:
  assumes "byte_sized TYPE('a::len)" shows "length v \<le> length (concat (map word_bytes (v :: 'a word list)))"
proof -
  have "8 \<le> LENGTH('a)" using assms(1) by (intro dvd_imp_le) (auto simp: byte_sized_def)
  then have "1 \<le> LENGTH('a) div 8" by (simp add: div_greater_zero_iff Suc_le_eq)
  then show ?thesis unfolding length_words_bytes by simp
qed

lemma vec_fits:
  assumes "byte_sized TYPE('a::len)" "length v < 2 ^ 59" shows "length v * (LENGTH('a) div 8) < 2 ^ 63"
proof -
  have "LENGTH('a) div 8 \<le> 16" using assms(1) div_le_mono [of "LENGTH('a)" 128 8] by (simp add: byte_sized_def)
  then have "length v * (LENGTH('a) div 8) \<le> length v * 16" by (rule mult_le_mono2)
  also have "\<dots> < 2 ^ 63" using assms(2) by simp
  finally show ?thesis .
qed

lemma breaks_recv_vec:
  assumes "byte_sized TYPE('a::len)" "length v < 2 ^ 59"
  shows "breaks (recvVec_word :: ('a word list \<times> nat) sprog) (enc_vec (v :: 'a word list))"
proof -
  have n: "unat (of_nat (length v) :: u64) = length v" using assms(2) by (intro unat_length_64) simp
  have n': "uint (of_nat (length v) :: u64) = int (length v)" by (simp only: uint_nat n)
  have "breaks (thenM (resizeM (LENGTH('a) div 8) (of_nat (length v))) (bindM (recvBytes (int (length v * (LENGTH('a) div 8))))
      (\<lambda>bs. ret (words_of (LENGTH('a) div 8) (length v) bs :: 'a word list, 8 + length bs)))) (concat (map word_bytes v))"
    using count_le_bytes [OF assms(1), of v] vec_fits [OF assms]
    by (intro breaks_resize breaks_first breaks_recvBytes') (simp_all add: n length_words_bytes)
  then show ?thesis
    unfolding recvVec_word_def enc_vec_def
    by (intro breaks_bind [OF breaks_recv_word talks_recv_word]) (simp_all add: assms(1) n n')
qed

lemma talks_recv_vec:
  assumes "byte_sized TYPE('a::len)" "length v < 2 ^ 59"
  shows "talks recvVec_word (enc_vec (v :: 'a word list)) [] (v, length (enc_vec v))"
proof -
  have n: "unat (of_nat (length v) :: u64) = length v" using assms(2) by (intro unat_length_64) simp
  have n': "uint (of_nat (length v) :: u64) = int (length v)" by (simp only: uint_nat n)
  note len = length_words_bytes [of v] and l = count_le_bytes [OF assms(1), of v]
  have "talks (bindM (recvBytes (int (length v * (LENGTH('a) div 8)))) (\<lambda>bs. ret (words_of (LENGTH('a) div 8) (length v) bs, 8 + length bs)))
      (concat (map word_bytes v)) [] (v, 8 + length (concat (map word_bytes v)))"
    by (rule talks_bind' [OF talks_recvBytes [where bs = "concat (map word_bytes v)"] talks_ret])
      (simp_all add: len words_of_bytes_concat [OF assms(1)])
  then have "talks (thenM (resizeM (LENGTH('a) div 8) (of_nat (length v))) (bindM (recvBytes (int (length v * (LENGTH('a) div 8))))
      (\<lambda>bs. ret (words_of (LENGTH('a) div 8) (length v) bs, 8 + length bs))))
      (concat (map word_bytes v)) [] (v, 8 + length (concat (map word_bytes v)))"
    using l vec_fits [OF assms] by (intro talks_resize) (simp_all add: n)
  then show ?thesis
    unfolding recvVec_word_def enc_vec_def
    by (intro talks_bind' [OF talks_recv_word]) (simp_all add: n n')
qed

definition enc_path :: "u8 list \<times> u8 list \<Rightarrow> u8 list" where
  "enc_path pa = enc_str (fst pa) @ enc_vec (snd pa)"

definition path_ok :: "u8 list \<times> u8 list \<Rightarrow> bool" where
  "path_ok pa \<longleftrightarrow> fst pa \<noteq> [] \<and> length (fst pa) < 2 ^ 63 \<and> length (snd pa) < 2 ^ 59"

lemma talks_send_path:
  assumes "path_ok pa" shows "talks (sendData_path (Some pa)) [] (enc_path pa) (length (enc_path pa))"
proof -
  obtain f c where [simp]: "pa = (f, c)" by (metis surj_pair)
  show ?thesis
    using assms unfolding sendData_path_def enc_path_def path_ok_def
    by (auto intro!: talks_bind' [OF talks_send_str talks_bind' [OF talks_send_vec talks_ret]])
qed

lemma talks_path_rest:
  fixes c :: "u8 list"
  assumes "length c < 2 ^ 59"
  shows "talks (bindM recvVec_word (\<lambda>(filecontent :: u8 list, b). ret ((f, filecontent), n + b))) (enc_vec c) []
    ((f, c), n + length (enc_vec c))"
  by (rule talks_bind' [OF talks_recv_vec, where b = "[]" and y = "[]" and w = "((f, c), n + length (enc_vec c))"])
    (use assms in \<open>simp_all add: talks_ret\<close>)

lemma breaks_path_rest:
  fixes c :: "u8 list"
  assumes "length c < 2 ^ 59"
  shows "breaks (bindM recvVec_word (\<lambda>(filecontent :: u8 list, b). ret ((f, filecontent), n + b))) (enc_vec c)"
  by (rule breaks_first [OF breaks_recv_vec]) (use assms in simp_all)

lemma talks_recv_path:
  assumes "path_ok pa" shows "talks (recvData_path True) (enc_path pa) [] (pa, length (enc_path pa))"
  unfolding recvData_path_def enc_path_def
  by (cases pa, rule talks_bind' [OF talks_recv_str]) (use assms talks_path_rest in \<open>auto simp: path_ok_def\<close>)

lemma breaks_recv_path:
  assumes "path_ok pa" shows "breaks (recvData_path True) (enc_path pa)"
  unfolding recvData_path_def enc_path_def
  by (cases pa, rule breaks_bind [OF breaks_recv_str talks_recv_str]) (use assms breaks_path_rest in \<open>auto simp: path_ok_def\<close>)

interpretation byte_codec: codec sendData_word recvData_word word_bytes "\<lambda>w :: u8. True"
  by unfold_locales (use talks_send_word [where 'a = 8] talks_recv_word [where 'a = 8] in \<open>simp_all add: breaks_recv_word\<close>)

interpretation u32_codec: codec sendData_word recvData_word word_bytes "\<lambda>w :: u32. True"
  by unfold_locales (use talks_send_word [where 'a = 32] talks_recv_word [where 'a = 32] in \<open>simp_all add: breaks_recv_word\<close>)

interpretation u64_codec: codec sendData_word recvData_word word_bytes "\<lambda>w :: u64. True"
  by unfold_locales (use talks_send_word [where 'a = 64] talks_recv_word [where 'a = 64] in \<open>simp_all add: breaks_recv_word\<close>)

interpretation bool_codec: codec sendData_bool recvData_bool enc_bool "\<lambda>b. True"
  by unfold_locales (use talks_send_bool talks_recv_bool in \<open>simp_all add: breaks_recv_bool\<close>)

interpretation str_codec: codec sendData_str recvData_str enc_str "short 63"
  by unfold_locales (simp_all add: short_def talks_send_str talks_recv_str breaks_recv_str)

interpretation u64_vec_codec: codec sendVec_word recvVec_word enc_vec "short 59 :: u64 list \<Rightarrow> bool"
  by unfold_locales (simp_all add: short_def talks_send_vec talks_recv_vec breaks_recv_vec)

interpretation byte_vec_codec: codec sendVec_word recvVec_word enc_vec "short 59 :: u8 list \<Rightarrow> bool"
  by unfold_locales (simp_all add: short_def talks_send_vec talks_recv_vec breaks_recv_vec)

interpretation path_codec: codec "\<lambda>pa. sendData_path (Some pa)" "recvData_path True" enc_path path_ok
  by unfold_locales (simp_all add: talks_send_path talks_recv_path breaks_recv_path)

interpretation bool_vec_codec: codec sendVec_bool recvVec_bool bool_codec.enc_each bool_codec.ok_each
  by unfold_locales
    (simp_all add: sendVec_bool_def recvVec_bool_def bool_codec.send_each_talks bool_codec.recv_each_talks bool_codec.recv_each_breaks)

interpretation str_vec_codec: codec sendVec_str recvVec_str str_codec.enc_each str_codec.ok_each
  by unfold_locales
    (simp_all add: sendVec_str_def recvVec_str_def str_codec.send_each_talks str_codec.recv_each_talks str_codec.recv_each_breaks)

end
