(* ===== verification/Conversations.thy ===== *)
theory Conversations
  imports Server_Manager Sockets_Codec
begin

text \<open>
  Conversations of a program that has a state besides its connection: \<open>converses m s ins outs v s'\<close> reads the bytes \<open>ins\<close>, sends
  the bytes \<open>outs\<close>, returns \<open>v\<close> and takes the state from \<open>s\<close> to \<open>s'\<close>, on a machine that can still allocate a gigabyte. The
  client and the server talk to each other when each reads what the other sends.
\<close>

definition converses :: "('s \<times> sock, harness_error, 'v) prog \<Rightarrow> 's \<Rightarrow> u8 list \<Rightarrow> u8 list \<Rightarrow> 'v \<Rightarrow> 's \<Rightarrow> bool" where
  "converses m s ins outs v s' \<longleftrightarrow> (\<forall>k rest.
     readable (incoming k) = ins @ rest \<longrightarrow> send_room k = None \<longrightarrow> max (2 ^ 30) (length ins) \<le> alloc_limit k \<longrightarrow>
     (\<exists>k'. m (s, k) = (Inr v, (s', k')) \<and> advances k rest outs k'))"

lemma conversesI:
  fixes m :: "('s \<times> sock, harness_error, 'v) prog"
  assumes "\<And>k rest. readable (incoming k) = ins @ rest \<Longrightarrow> send_room k = None \<Longrightarrow> max (2 ^ 30) (length ins) \<le> alloc_limit k \<Longrightarrow>
    \<exists>k'. m (s, k) = (Inr v, (s', k')) \<and> advances k rest outs k'"
  shows "converses m s ins outs v s'"
  using assms unfolding converses_def by blast

lemma conversesD:
  fixes m :: "('s \<times> sock, harness_error, 'v) prog"
  assumes "converses m s ins outs v s'" "readable (incoming k) = ins @ rest" "send_room k = None" "max (2 ^ 30) (length ins) \<le> alloc_limit k"
  obtains k' where "m (s, k) = (Inr v, (s', k'))" "advances k rest outs k'"
  using assms unfolding converses_def by blast

text \<open>A conversation takes place on some connection.\<close>

lemma converses_occurs:
  assumes "converses m s ins outs v s'"
  obtains k k' where "m (s, k) = (Inr v, (s', k'))" "alloc_limit k = max (2 ^ 30) (length ins)"
proof -
  let ?k = "\<lparr>incoming = map (\<lambda>b. Chunk b []) ins, outgoing = [], send_room = None, alloc_limit = max (2 ^ 30) (length ins)\<rparr>"
  have r: "readable (incoming ?k) = ins @ []" by (induction ins) auto
  show ?thesis using conversesD [OF assms r] that [of ?k] by auto
qed

lemma conv_silent: "(\<And>k. m (s, k) = (Inr v, (s', k))) \<Longrightarrow> converses m s [] [] v s'"
  by (rule conversesI) (auto simp: advances_def)

lemma conv_ret: "converses (ret v) s [] [] v s"
  by (rule conv_silent) simp

lemma conv_bind:
  assumes m: "converses m s a x v s1" and f: "converses (f v) s1 b y w s2" and c: "c = a @ b" "z = x @ y"
  shows "converses (bindM m f) s c z w s2"
proof (rule conversesI)
  fix k :: sock and rest assume k: "readable (incoming k) = c @ rest" "send_room k = None" "max (2 ^ 30) (length c) \<le> alloc_limit k"
  then obtain k1 where 1: "m (s, k) = (Inr v, (s1, k1))" "advances k (b @ rest) x k1"
    using conversesD [OF m, of k "b @ rest"] c by auto
  then obtain k2 where "f v (s1, k1) = (Inr w, (s2, k2))" "advances k1 rest y k2"
    using conversesD [OF f, of k1 rest] k c by (auto simp: advances_def)
  with 1 c show "\<exists>k'. bindM m f (s, k) = (Inr w, (s2, k')) \<and> advances k rest z k'"
    by (intro exI [of _ k2]) (simp add: bindM_def advances_def)
qed

lemma conv_then: "converses m s a x v s1 \<Longrightarrow> converses n s1 b y w s2 \<Longrightarrow> c = a @ b \<Longrightarrow> z = x @ y \<Longrightarrow> converses (thenM m n) s c z w s2"
  unfolding thenM_def by (rule conv_bind)

lemma conv_net: "talks m a x v \<Longrightarrow> converses (net m) s a x v s"
proof (rule conversesI)
  fix k :: sock and rest
  assume m: "talks m a x v" and k: "readable (incoming k) = a @ rest" "send_room k = None" "max (2 ^ 30) (length a) \<le> alloc_limit k"
  from talksD [OF m k(1,2)] k(3) obtain k' where "m k = (Inr v, k')" "advances k rest x k'" by auto
  then show "\<exists>k'. net m (s, k) = (Inr v, (s, k')) \<and> advances k rest x k'" by (simp add: net_def)
qed

lemma conv_fetch: "talks m a x (v, n) \<Longrightarrow> converses (fetch m) s a x v s"
  unfolding fetch_def by (rule conv_bind [OF conv_net]) (auto intro: conv_ret)

lemma conv_put: "talks m a x n \<Longrightarrow> converses (put m) s a x () s"
  unfolding put_def by (rule conv_bind [OF conv_net]) (auto intro: conv_ret)

lemma conv_own: "m s = (Inr v, s') \<Longrightarrow> converses (own m) s [] [] v s'"
  by (rule conv_silent) (simp add: own_def)

lemma conv_get: "(\<And>k. converses (f (s, k)) s a x w s') \<Longrightarrow> converses (bindM getM f) s a x w s'"
proof (rule conversesI)
  fix k :: sock and rest
  assume m: "\<And>k. converses (f (s, k)) s a x w s'" and k: "readable (incoming k) = a @ rest" "send_room k = None" "max (2 ^ 30) (length a) \<le> alloc_limit k"
  from conversesD [OF m [of k] k] obtain k' where "f (s, k) (s, k) = (Inr w, (s', k'))" "advances k rest x k'" .
  then show "\<exists>k'. bindM getM f (s, k) = (Inr w, (s', k')) \<and> advances k rest x k'" by simp
qed

lemma conv_guard: "converses m s a x v s' \<Longrightarrow> converses (socket_guard st m) s a x v s'"
proof (rule conversesI)
  fix k :: sock and rest
  assume m: "converses m s a x v s'" and k: "readable (incoming k) = a @ rest" "send_room k = None" "max (2 ^ 30) (length a) \<le> alloc_limit k"
  from conversesD [OF m k] obtain k' where "m (s, k) = (Inr v, (s', k'))" "advances k rest x k'" .
  then show "\<exists>k'. socket_guard st m (s, k) = (Inr v, (s', k')) \<and> advances k rest x k'" by (simp add: socket_guard_def catch_def)
qed

lemma conv_catch: "converses m s a x v s' \<Longrightarrow> converses (catch m h) s a x v s'"
proof (rule conversesI)
  fix k :: sock and rest
  assume m: "converses m s a x v s'" and k: "readable (incoming k) = a @ rest" "send_room k = None" "max (2 ^ 30) (length a) \<le> alloc_limit k"
  from conversesD [OF m k] obtain k' where "m (s, k) = (Inr v, (s', k'))" "advances k rest x k'" .
  then show "\<exists>k'. catch m h (s, k) = (Inr v, (s', k')) \<and> advances k rest x k'" by (simp add: catch_def)
qed

lemma conv_resize: "n \<le> memorySizeMax \<Longrightarrow> converses (net (resizeM 1 n)) s [] [] () s"
  by (rule conversesI) (auto simp: net_def resizeM_def guardM_def ret_def advances_def memorySizeMax_def word_le_nat_alt)

text \<open>The same rules for a step that only reads, only sends, or does neither.\<close>

lemma conv_recv_bind: "converses m s a [] v s1 \<Longrightarrow> converses (f v) s1 b z w s2 \<Longrightarrow> converses (bindM m f) s (a @ b) z w s2"
  by (rule conv_bind, assumption+, simp_all)

lemma conv_recv_last: "converses m s a [] v s1 \<Longrightarrow> converses (f v) s1 [] z w s2 \<Longrightarrow> converses (bindM m f) s a z w s2"
  by (rule conv_bind, assumption+, simp_all)

lemma conv_silent_bind: "converses m s [] [] v s1 \<Longrightarrow> converses (f v) s1 c z w s2 \<Longrightarrow> converses (bindM m f) s c z w s2"
  by (rule conv_bind, assumption+, simp_all)

lemma conv_silent_then: "converses m s [] [] v s1 \<Longrightarrow> converses n s1 c z w s2 \<Longrightarrow> converses (thenM m n) s c z w s2"
  by (rule conv_then, assumption+, simp_all)

lemma conv_send_then: "converses m s [] x v s1 \<Longrightarrow> converses n s1 c y w s2 \<Longrightarrow> converses (thenM m n) s c (x @ y) w s2"
  by (rule conv_then, assumption+, simp_all)

lemma conv_last_bind: "converses m s c z v s1 \<Longrightarrow> converses (f v) s1 [] [] w s2 \<Longrightarrow> converses (bindM m f) s c z w s2"
  by (rule conv_bind, assumption+, simp_all)

lemma conv_last_then: "converses m s c z v s1 \<Longrightarrow> converses n s1 [] [] w s2 \<Longrightarrow> converses (thenM m n) s c z w s2"
  by (rule conv_then, assumption+, simp_all)

text \<open>Receiving one value; the type of the conversation fixes the encoding.\<close>

lemma conv_recv_word: "byte_sized TYPE('a::len) \<Longrightarrow> converses (fetch recvData_word) s (word_bytes (w :: 'a word)) [] w s"
  by (rule conv_fetch [OF talks_recv_word])

lemma conv_send_word: "byte_sized TYPE('a::len) \<Longrightarrow> converses (put (sendData_word (w :: 'a word))) s [] (word_bytes w) () s"
  by (rule conv_put [OF talks_send_word])

lemma conv_send_bool: "converses (put (sendData_bool b)) s [] (enc_bool b) () s"
  by (rule conv_put [OF talks_send_bool])

lemma conv_recv_bool: "converses (fetch recvData_bool) s (enc_bool b) [] b s"
  by (rule conv_fetch [OF talks_recv_bool])

lemma conv_recv_vec:
  "byte_sized TYPE('a::len) \<Longrightarrow> short 59 v \<Longrightarrow> converses (fetch recvVec_word) s (enc_vec (v :: 'a word list)) [] v s"
  by (rule conv_fetch [OF talks_recv_vec]) (simp_all add: short_def)

lemma conv_send_vec:
  "byte_sized TYPE('a::len) \<Longrightarrow> short 59 v \<Longrightarrow> converses (put (sendVec_word (v :: 'a word list))) s [] (enc_vec v) () s"
  by (rule conv_put [OF talks_send_vec]) (simp_all add: short_def)

lemma talks_sendReq: "length r < 2 ^ 63 \<Longrightarrow> talks (sendReq r) [] (enc_str r) (length (enc_str r))"
  unfolding sendReq_def by (rule talks_bind' [OF talks_send_str, where b = "[]" and y = "[]" and w = "length (enc_str r)"])
    (simp_all add: talks_ret enc_str_def)

lemma talks_recvReq: "length r < 2 ^ 63 \<Longrightarrow> talks recvReq (enc_str r) [] r"
  unfolding recvReq_def by (rule talks_bind' [OF talks_recv_str, where b = "[]" and y = "[]" and w = r])
    (simp_all add: talks_ret enc_str_def)

end
