(* ===== verification/Session.thy ===== *)
theory Session
  imports Server_Manager
begin

text \<open>
  \<open>test_harness_session\<close> of \<^verbatim>\<open>src/ps/test_harness_session.cpp\<close>: the dispatch of the requests of a client, and the watchdog
  beside it. The macros PARAM_* that select the device are a record here; the file system and the
  runtime are parameters of a request, as in the server manager.
\<close>

section \<open>State\<close>

record params =
  PARAM_DEVICE :: "u8 list"
  PARAM_CHANNELS :: u32
  PARAM_DEPTH :: u32
  PARAM_WIDTH :: u32
  PARAM_MEM_WIDTH :: u32

record session =
  ss_mgr :: "server option"
  monitorInterval :: u64
  mActive :: bool
  mDone :: bool
  unknownReqCount :: nat

type_synonym 'a ssprog = "(session \<times> sock, harness_error, 'a) prog"

definition new_session :: "u64 \<Rightarrow> session" where
  "new_session interval = \<lparr>ss_mgr = None, monitorInterval = interval, mActive = False, mDone = False, unknownReqCount = 0\<rparr>"

section \<open>Requests\<close>

definition setActive :: "bool \<Rightarrow> unit ssprog" where
  "setActive active = own (modifyM (\<lambda>s. s\<lparr>mActive := active\<rparr>))"

definition ss_setTimeOut :: "u64 \<Rightarrow> unit ssprog" where
  "ss_setTimeOut timeout =
     (if timeout = 0 then throw_harness INVALID_ARGUMENTS else own (modifyM (\<lambda>s. s\<lparr>monitorInterval := timeout\<rparr>)))"

text \<open>\<open>mgr->f()\<close>; \<open>mgr = std::make_unique<...>(...)\<close> leaves \<open>mgr\<close> empty when the constructor throws.\<close>

definition on_mgr :: "unit vprog \<Rightarrow> unit ssprog" where
  "on_mgr m = (\<lambda>(s, k). case ss_mgr s of
     None \<Rightarrow> (Inl (TestHarnessException TEST_HARNESS_NOT_CREATED_FAILURE), (s, k))
   | Some v \<Rightarrow> (case m (v, k) of (r, (v', k')) \<Rightarrow> (r, (s\<lparr>ss_mgr := Some v'\<rparr>, k'))))"

definition make_mgr :: "params \<Rightarrow> bool \<Rightarrow> unit ssprog" where
  "make_mgr P can_open = (\<lambda>(s, k).
     case construct_server can_open (new_server (PARAM_DEVICE P) (PARAM_CHANNELS P) (PARAM_DEPTH P) (PARAM_WIDTH P) (PARAM_MEM_WIDTH P), k) of
       (Inl e, (v, k')) \<Rightarrow> (Inl e, (s, k'))
     | (Inr u, (v, k')) \<Rightarrow> (Inr u, (s\<lparr>ss_mgr := Some v\<rparr>, k')))"

text \<open>\<open>mgr.reset()\<close>: the destructor joins no thread, so the process terminates when one has not been joined.\<close>

definition reset_mgr :: "unit ssprog" where
  "reset_mgr = (\<lambda>(s, k).
     (if (\<exists>v. ss_mgr s = Some v \<and> dom (sv_pl_threads v) \<noteq> {}) then Inl AssertionFailed else Inr (), (s\<lparr>ss_mgr := None\<rparr>, k)))"

definition mgr_exists :: "unit ssprog" where
  "mgr_exists = bindM getM (\<lambda>(s, k). guardM (TestHarnessException TEST_HARNESS_NOT_CREATED_FAILURE) (ss_mgr s \<noteq> None))"

text \<open>The body of the loop of \<open>run\<close>; the result says whether the loop goes on.\<close>

definition dispatch :: "params \<Rightarrow> bool \<Rightarrow> xrt \<Rightarrow> u8 list \<Rightarrow> bool ssprog" where
  "dispatch P can_open X request =
    (if request = ascii ''test_harness_mgr'' then
       bindM getM (\<lambda>(s, k).
       if ss_mgr s \<noteq> None then
         thenM reset_mgr (throw_harness TEST_HARNESS_NOT_CREATED_FAILURE)
       else thenM (setActive True) (thenM (make_mgr P can_open) (ret True)))
     else if request = ascii ''runTestHarness'' then
       thenM mgr_exists (thenM (setActive True) (thenM (on_mgr sv_runTestHarness) (ret True)))
     else if request = ascii ''runAIEGraph'' then
       thenM mgr_exists (thenM (setActive True) (thenM (on_mgr sv_runAIEGraph) (ret True)))
     else if request = ascii ''waitForTestHarness'' then
       thenM mgr_exists (thenM (setActive True) (thenM (on_mgr (sv_waitForTestHarness X)) (ret True)))
     else if request = ascii ''waitForGraph'' then
       thenM mgr_exists (thenM (setActive True) (thenM (on_mgr sv_waitForGraph) (ret True)))
     else if request = ascii ''queryTransactionStatus'' then
       thenM mgr_exists (thenM (on_mgr sv_queryTransactionStatus) (ret True))
     else if request = ascii ''destroy'' then
       thenM reset_mgr (ret False)
     else if request = ascii ''setTimeOut'' then
       bindM (fetch recvData_word) (\<lambda>timeout. thenM (ss_setTimeOut timeout) (ret True))
     else if request = ascii ''getTimeOut'' then
       bindM getM (\<lambda>(s, k). thenM (put (sendData_word (monitorInterval s))) (ret True))
     else
       bindM getM (\<lambda>(s, k). thenM (own (modifyM (\<lambda>s. s\<lparr>unknownReqCount := Suc (unknownReqCount s)\<rparr>)))
         (if Suc (unknownReqCount s) > 10 then throw_harness UNKNOWN_REQUEST else ret True)))"

definition serve :: "params \<Rightarrow> bool \<Rightarrow> xrt \<Rightarrow> bool ssprog" where
  "serve P can_open X = bindM (net recvReq) (dispatch P can_open X)"

text \<open>One iteration of the loop. When it ends, by \<open>destroy\<close> or by an exception that \<open>run\<close> catches, \<open>run\<close> sets \<open>mDone\<close>.\<close>

definition caught :: "harness_error \<Rightarrow> bool" where
  "caught e \<longleftrightarrow> e \<noteq> AssertionFailed \<and> e \<noteq> UndefinedBehaviour \<and> e \<noteq> NoReturn"

definition run_once :: "params \<Rightarrow> bool \<Rightarrow> xrt \<Rightarrow> bool ssprog" where
  "run_once P can_open X =
     bindM (catch (serve P can_open X) (\<lambda>e. if caught e then ret False else throw e)) (\<lambda>more.
       if more then ret True else thenM (own (modifyM (\<lambda>s. s\<lparr>mDone := True\<rparr>))) (ret False))"

section \<open>The watchdog\<close>

datatype watch = Watching u64 | Watch_Ended | Watch_Killed

text \<open>\<open>monitor\<close>: what it does after each second, with the counter of its loop. Once it has destroyed the manager it throws, which
  ends the process.\<close>

definition monitor_start :: "session \<Rightarrow> watch" where
  "monitor_start s = (if monitorInterval s \<noteq> 0 then Watching (monitorInterval s) else Watch_Ended)"

fun monitor_second :: "watch \<Rightarrow> session \<Rightarrow> watch \<times> session" where
  "monitor_second (Watching n) s =
     (if mDone s then (Watch_Ended, s)
      else
        let (n, s) = (if mActive s then (monitorInterval s, s\<lparr>mActive := False\<rparr>) else (n - 1, s)) in
        if n = 0 then (Watch_Killed, s\<lparr>ss_mgr := None\<rparr>) else (Watching n, s))"
| "monitor_second w s = (w, s)"

end
