(* ===== verification/Server_Inv.thy ===== *)
theory Server_Inv
  imports Server_Manager Sockets_Codec
begin

text \<open>
  What the handlers and the threads of the server do to its state, as pure functions, and the invariant they keep.
\<close>

named_theorems runs

section \<open>Normal returns\<close>

lemma fetch_eq [runs]: "fetch m w = (Inr x, w') \<longleftrightarrow> (\<exists>n k'. m (snd w) = (Inr (x, n), k') \<and> w' = (fst w, k'))"
  by (cases w) (auto simp: fetch_def net_def bindM_def split: prod.splits sum.splits)

lemma put_eq [runs]: "put m w = (Inr u, w') \<longleftrightarrow> (\<exists>n k'. m (snd w) = (Inr n, k') \<and> w' = (fst w, k'))"
  by (cases w) (auto simp: put_def net_def bindM_def split: prod.splits sum.splits)

lemma net_eq [runs]: "net m w = (Inr x, w') \<longleftrightarrow> (\<exists>k'. m (snd w) = (Inr x, k') \<and> w' = (fst w, k'))"
  by (cases w) (auto simp: net_def split: prod.splits)

lemma own_eq [runs]: "own m w = (Inr x, w') \<longleftrightarrow> (\<exists>s'. m (fst w) = (Inr x, s') \<and> w' = (s', snd w))"
  by (cases w) (auto simp: own_def split: prod.splits)

lemma socket_guard_eq [runs]: "socket_guard st m s = (Inr x, s') \<longleftrightarrow> m s = (Inr x, s')"
  by (auto simp: socket_guard_def catch_def throw_def split: prod.splits sum.splits harness_error.splits)

lemma sv_on_host_eq [runs]: "sv_on_host m s = (Inr x, s') \<longleftrightarrow> (\<exists>h. m (sv_host s) = (Inr x, h) \<and> s' = s\<lparr>sv_host := h\<rparr>)"
  by (auto simp: sv_on_host_def split: prod.splits)

lemma deref_eq [runs]: "deref p h = (Inr t, h') \<longleftrightarrow> heap h p = Some t \<and> h' = h"
  by (auto simp: deref_def split: option.splits)

lemma on_trans_eq [runs]:
  "on_trans p (modifyM f) h = (Inr u, h') \<longleftrightarrow> (\<exists>t. heap h p = Some t \<and> h' = h\<lparr>heap := (heap h)(p \<mapsto> f t)\<rparr>)"
  by (auto simp: on_trans_def split: option.splits)

lemma new_trans_eq [runs]:
  "new_trans t h = (Inr p, h') \<longleftrightarrow> p = next_trans h \<and>
     h' = h\<lparr>heap := (heap h)(next_trans h \<mapsto> t), next_trans := Suc (next_trans h)\<rparr>"
  by (auto simp: new_trans_def)

lemma delete_trans_eq [runs]: "delete_trans p h = (Inr u, h') \<longleftrightarrow> h' = h\<lparr>heap := (heap h)(p := None)\<rparr>"
  by (auto simp: delete_trans_def)

lemma runPL_eq [runs]:
  "runPL p h = (Inr u, h') \<longleftrightarrow> (\<exists>t. heap h p = Some t \<and>
     h' = h\<lparr>xm := (xm h)\<lparr>pl_k_r_hdl := pl_k_r_hdl (xm h) @ [run_of p t], bo_hdl := bo_hdl (xm h) @ [length (pl_k_r_hdl (xm h))]\<rparr>\<rparr>)"
  by (auto simp: runPL_def bindM_eq_Inr deref_eq run_of_def Let_def)

lemma waitForTestHarness_eq [runs]:
  "waitForTestHarness X h = (Inr b, h') \<longleftrightarrow> b = (\<forall>i < length (pl_k_r_hdl (xm h)). finished X i) \<and> h' = h"
  by (auto simp: waitForTestHarness_def list_all_iff)

lemma modifyM_eq [runs]: "modifyM f s = (Inr u, s') \<longleftrightarrow> s' = f s"
  by (auto simp: modifyM_def)

section \<open>What a receiver can return\<close>

lemma recv_rest_limit: "alloc_limit (snd (recv_rest n k)) = alloc_limit k"
proof (induction n arbitrary: k rule: less_induct)
  case (less n)
  show ?case
  proof (cases "n = 0")
    case False
    obtain r bs es where r: "sys_recv n (incoming k) = (r, bs, es)" by (cases "sys_recv n (incoming k)")
    let ?k = "k\<lparr>incoming := es\<rparr>"
    have "alloc_limit (snd (recv_rest (n - nat r) ?k)) = alloc_limit k" if "0 < r"
      using less.IH [of "n - nat r" ?k] that False by simp
    then show ?thesis using r False
      by (subst recv_rest.simps) (auto simp: Let_def split: prod.splits sum.splits)
  qed simp
qed

definition limited :: "nat \<Rightarrow> sock \<Rightarrow> bool" where
  "limited a k \<longleftrightarrow> alloc_limit k = a"

lemma limited_recvBytes [keeps]: "keeps (limited a) (recvBytes d)"
proof -
  have "alloc_limit k' = alloc_limit k" if "recv_rest n k = (r, k')" for n k r k'
    using recv_rest_limit [of n k] that by simp
  then show ?thesis by (auto simp: keeps_def hoare_def recvBytes_def limited_def throw_def split: prod.splits sum.splits)
qed

lemma limited_resize [keeps]: "keeps (limited a) (resizeM k n)"
  unfolding resizeM_def by (intro keeps)

lemma limited_word [keeps]: "keeps (limited a) recvData_word"
  unfolding recvData_word_def by (intro keeps)

lemma limited_vec [keeps]: "keeps (limited a) recvVec_word"
  unfolding recvVec_word_def by (intro keeps)

lemma limit_kept: "keeps (limited (alloc_limit k)) m \<Longrightarrow> m k = (r, k') \<Longrightarrow> alloc_limit k' = alloc_limit k"
  using keepsD [of "limited (alloc_limit k)" m k] by (simp add: limited_def)

lemmas recv_limits = limit_kept [OF limited_word] limit_kept [OF limited_vec] limit_kept [OF limited_resize]

lemma length_words_of [simp]: "length (words_of m n bs) = n"
  by (induction n arbitrary: bs) simp_all

lemma resize_limit: "resizeM b n k = (Inr u, k') \<Longrightarrow> unat n \<le> alloc_limit k \<and> k' = k"
  by (auto simp: resizeM_def split: if_splits)

lemma recvVec_limit: "recvVec_word k = (Inr (v, n), k') \<Longrightarrow> length v \<le> alloc_limit k"
  by (auto simp: recvVec_word_def bindM_eq_Inr thenM_eq_Inr dest!: resize_limit limit_kept [OF limited_word])

section \<open>Accepting a transaction\<close>

definition admitted :: "transaction \<Rightarrow> server \<Rightarrow> server" where
  "admitted t s = (let p = next_trans (sv_host s) in
     s\<lparr>sv_host := (sv_host s)\<lparr>heap := (heap (sv_host s))(p \<mapsto> t), next_trans := Suc p\<rparr>,
       sv_transactions := sv_transactions s @ [p], sv_id2trans := (sv_id2trans s)(trans_id t \<mapsto> p),
       sv_memorySize := sv_memorySize s + getMemoryUsage t, sv_pl_threads := (sv_pl_threads s)(p \<mapsto> PL_Waiting)\<rparr>)"

text \<open>The transaction the server builds from what it receives.\<close>

definition received_transaction :: "server \<Rightarrow> u32 \<Rightarrow> u8 \<Rightarrow> u32 \<Rightarrow> u64 list \<Rightarrow> u8 list \<Rightarrow> u64 \<Rightarrow> transaction" where
  "received_transaction s tid umode timeout cfg img from_aie_size =
     (test_harness_transactions tid umode (sv_num_channels s) (sv_word_size s) (sv_depth s) timeout 0)
       \<lparr>cfg_ptr := cfg, to_aie_ptr := img, from_aie_ptr := vec_resize (unat from_aie_size) [], status := TRANSACTION_READY\<rparr>"

lemma new_transaction_simps [simp]:
  "trans_id (test_harness_transactions tid md nc ws d mw to) = tid"
  "from_aie_ptr (test_harness_transactions tid md nc ws d mw to) = []"
  "length (perf_ptr (test_harness_transactions tid md nc ws d mw to)) = unat (nc * 4)"
  by (simp_all add: test_harness_transactions_def reset_def clearData_def Let_def)

lemma receive_effect:
  assumes "receive_transaction sz (s, k) = (Inr (), (s', k'))"
  shows "\<exists>tid umode timeout cfg img n.
    s' = admitted (received_transaction s tid umode timeout cfg img n) s \<and> sv_id2trans s tid = None \<and>
    getMemoryUsage (received_transaction s tid umode timeout cfg img n) = sz \<and>
    length cfg \<le> alloc_limit k \<and> length img \<le> alloc_limit k \<and> unat n \<le> alloc_limit k"
  apply (insert assms)
  apply ((auto simp: receive_transaction_def sv_new_transaction_def sv_receive_data_def sv_start_thread_def
    runs bindM_eq_Inr thenM_eq_Inr setStatus_def split: if_splits dest!: resize_limit);
    ((frule recvVec_limit, drule limit_kept [OF limited_vec])+); ((drule limit_kept [OF limited_word])+))
  subgoal for k1 n1 tid k2 n2 timeout k3 n3 cfg k4 n4 img k5 n5 fsz n6
    by (rule exI [of _ tid], rule exI [of _ FUNC_MODE], rule exI [of _ timeout], rule exI [of _ cfg], rule exI [of _ img],
      rule exI [of _ fsz]) (simp add: admitted_def received_transaction_def Let_def)
  subgoal for k1 n1 tid k2 n2 timeout k3 n3 cfg k4 n4 img k5 n5 fsz n6
    by (rule exI [of _ tid], rule exI [of _ PERF_MODE], rule exI [of _ timeout], rule exI [of _ cfg], rule exI [of _ img],
      rule exI [of _ fsz]) (simp add: admitted_def received_transaction_def Let_def)
  done

section \<open>The thread of the first transaction\<close>

definition runs_finished :: "xrt \<Rightarrow> server \<Rightarrow> bool" where
  "runs_finished X s \<longleftrightarrow> (\<forall>i < length (pl_k_r_hdl (xm (sv_host s))). finished X i)"

text \<open>The runs of the kernel up to now, and the one that is due.\<close>

definition due_runs :: "server \<Rightarrow> pl_run list" where
  "due_runs s = pl_k_r_hdl (xm (sv_host s)) @ (case sv_transactions s of
     [] \<Rightarrow> []
   | p # ps \<Rightarrow> if sv_pl_threads s p = Some PL_Waiting then [run_of p (the (heap (sv_host s) p))] else [])"

text \<open>A device buffer has the size of the vector it was made from.\<close>

definition sized :: "xrt \<Rightarrow> server \<Rightarrow> bool" where
  "sized X s \<longleftrightarrow> (\<forall>i < length (due_runs s). length (device_perf X i) = length (run_perf (due_runs s ! i)) \<and>
     length (device_from_aie X i) = length (run_from_aie (due_runs s ! i)))"

definition kernel_ok :: "server \<Rightarrow> bool" where
  "kernel_ok s \<longleftrightarrow> (case sv_transactions s of
     [] \<Rightarrow> bo_hdl (xm (sv_host s)) = []
   | p # ps \<Rightarrow>
       if sv_pl_threads s p = Some PL_Running then
         \<exists>t rs. heap (sv_host s) p = Some t \<and> pl_k_r_hdl (xm (sv_host s)) = rs @ [run_of p t] \<and>
           bo_hdl (xm (sv_host s)) = [length rs]
       else bo_hdl (xm (sv_host s)) = [])"

definition begun :: "nat \<Rightarrow> transaction \<Rightarrow> server \<Rightarrow> server" where
  "begun p t s = s\<lparr>sv_pl_threads := (sv_pl_threads s)(p \<mapsto> PL_Running),
     sv_host := (sv_host s)\<lparr>heap := (heap (sv_host s))(p \<mapsto> t\<lparr>status := TRANSACTION_RUNNING\<rparr>),
       xm := \<lparr>pl_k_r_hdl = pl_k_r_hdl (xm (sv_host s)) @ [run_of p t], bo_hdl = [length (pl_k_r_hdl (xm (sv_host s)))]\<rparr>\<rparr>\<rparr>"

definition ended :: "xrt \<Rightarrow> nat \<Rightarrow> transaction \<Rightarrow> server \<Rightarrow> server" where
  "ended X p t s = (let i = length (pl_k_r_hdl (xm (sv_host s))) - 1 in
     s\<lparr>sv_host := (sv_host s)\<lparr>
         heap := (heap (sv_host s))(p \<mapsto> (fetched X i (run_of p t) t)
           \<lparr>status := if runs_finished X s then TRANSACTION_DONE else TRANSACTION_TIMEOUT\<rparr>),
         xm := (xm (sv_host s))\<lparr>bo_hdl := []\<rparr>\<rparr>,
       sv_pl_threads := (sv_pl_threads s)(p \<mapsto> PL_Ended)\<rparr>)"

lemma fetched_status [simp]: "fetched X i r (t\<lparr>status := st\<rparr>) = (fetched X i r t)\<lparr>status := st\<rparr>"
  by (simp add: fetched_def)

lemma pl_start_run:
  assumes "heap (sv_host s) p = Some t" "bo_hdl (xm (sv_host s)) = []"
  shows "pl_start p s = (Inr (), begun p t s)"
proof -
  have "pl_start p s = (Inr (), begun p t s) \<longleftrightarrow> True"
    using assms by (simp add: pl_start_def thenM_eq_Inr runs begun_def setStatus_def)
  then show ?thesis by simp
qed

lemma run_of_status [simp]: "run_of p (t\<lparr>status := st\<rparr>) = run_of p t" "run_of p (t\<lparr>mTimeOut := to\<rparr>) = run_of p t"
  by (simp_all add: run_of_def)

lemma fetchRes_run:
  assumes "heap h p = Some t" "pl_k_r_hdl (xm h) = rs @ [run_of p t]" "bo_hdl (xm h) = [length rs]"
  shows "fetchRes X h = (Inr (), h\<lparr>heap := (heap h)(p \<mapsto> fetched X (length rs) (run_of p t) t), xm := (xm h)\<lparr>bo_hdl := []\<rparr>\<rparr>)"
  using fetchRes_single [where h = h and i = "length rs"] assms by (simp add: run_of_def)

lemma sv_on_host_run: "m (sv_host s) = (r, h) \<Longrightarrow> sv_on_host m s = (r, s\<lparr>sv_host := h\<rparr>)"
  by (simp add: sv_on_host_def)

lemma waitForTestHarness_run: "waitForTestHarness X (sv_host s) = (Inr (runs_finished X s), sv_host s)"
  by (auto simp: waitForTestHarness_def runs_finished_def list_all_iff)

lemma sv_same_host [simp]: "s\<lparr>sv_host := sv_host s\<rparr> = s"
  by simp

lemma pl_continue_run:
  assumes "sv_transactions s = p # ps" "sv_pl_threads s p = Some PL_Running" "kernel_ok s" "heap (sv_host s) p = Some t"
  shows "pl_continue X p s = (Inr (), if mTimeOut t = 0 \<and> \<not> runs_finished X s then s else ended X p t s)"
proof -
  obtain rs where k: "pl_k_r_hdl (xm (sv_host s)) = rs @ [run_of p t]" "bo_hdl (xm (sv_host s)) = [length rs]"
    using assms by (auto simp: kernel_ok_def)
  let ?m = "\<lambda>st. on_trans p (modifyM (setStatus st))"
  let ?last = "\<lambda>st. thenM (sv_on_host (?m st)) (thenM (sv_on_host (fetchRes X)) (pl_end p)) s"
  let ?poll = "thenM (sv_on_host (fetchRes X)) (thenM (sv_on_host (?m TRANSACTION_DONE)) (pl_end p)) s"
  have d: "sv_on_host (deref p) s = (Inr t, s)" using assms(4) by (simp add: sv_on_host_run deref_def)
  have w: "sv_on_host (waitForTestHarness X) s = (Inr (runs_finished X s), s)" using waitForTestHarness_run [of X s] by (simp add: sv_on_host_def)
  have l: "?last (if runs_finished X s then TRANSACTION_DONE else TRANSACTION_TIMEOUT) = (Inr (), ended X p t s)"
  proof -
    let ?t = "t\<lparr>status := if runs_finished X s then TRANSACTION_DONE else TRANSACTION_TIMEOUT\<rparr>"
    let ?h = "(sv_host s)\<lparr>heap := (heap (sv_host s))(p \<mapsto> ?t)\<rparr>"
    let ?s1 = "s\<lparr>sv_host := ?h\<rparr>"
    have 1: "sv_on_host (?m (if runs_finished X s then TRANSACTION_DONE else TRANSACTION_TIMEOUT)) s = (Inr (), ?s1)"
      using assms(4) by (simp add: sv_on_host_def on_trans_def setStatus_def)
    have "fetchRes X ?h = (Inr (), ?h\<lparr>heap := (heap ?h)(p \<mapsto> fetched X (length rs) (run_of p ?t) ?t), xm := (xm ?h)\<lparr>bo_hdl := []\<rparr>\<rparr>)"
      using k by (intro fetchRes_run) simp_all
    then have 2: "sv_on_host (fetchRes X) ?s1 = (Inr (), ?s1\<lparr>sv_host := ?h\<lparr>heap := (heap ?h)(p \<mapsto> fetched X (length rs) (run_of p ?t) ?t),
        xm := (xm ?h)\<lparr>bo_hdl := []\<rparr>\<rparr>\<rparr>)"
      by (simp add: sv_on_host_def)
    show ?thesis
      by (simp only: thenM_def bindM_def 1 2 prod.case sum.case) (simp add: k pl_end_def ended_def Let_def)
  qed
  have q: "?poll = (Inr (), ended X p t s)" if "runs_finished X s"
  proof -
    let ?h = "(sv_host s)\<lparr>heap := (heap (sv_host s))(p \<mapsto> fetched X (length rs) (run_of p t) t), xm := (xm (sv_host s))\<lparr>bo_hdl := []\<rparr>\<rparr>"
    have "fetchRes X (sv_host s) = (Inr (), ?h)"
      using k assms(4) by (intro fetchRes_run)
    then have 1: "sv_on_host (fetchRes X) s = (Inr (), s\<lparr>sv_host := ?h\<rparr>)" by (simp add: sv_on_host_def)
    have 2: "sv_on_host (?m TRANSACTION_DONE) (s\<lparr>sv_host := ?h\<rparr>) = (Inr (), s\<lparr>sv_host := ?h\<lparr>heap := (heap ?h)(p \<mapsto>
        (fetched X (length rs) (run_of p t) t)\<lparr>status := TRANSACTION_DONE\<rparr>)\<rparr>\<rparr>)"
      by (simp add: sv_on_host_def on_trans_def setStatus_def)
    show ?thesis
      by (simp only: thenM_def bindM_def 1 2 prod.case sum.case) (simp add: that k pl_end_def ended_def Let_def)
  qed
  show ?thesis
    using l q unfolding pl_continue_def pl_poll_def pl_last_def bindM_def [of "sv_on_host (deref p)"] d
    by (cases "mTimeOut t = 0"; cases "runs_finished X s") (simp_all add: getTimeOut_def bindM_def w)
qed

section \<open>The invariant\<close>

definition thread_status :: "pl_thread \<Rightarrow> TransactionStatus \<Rightarrow> bool" where
  "thread_status th st \<longleftrightarrow> (case th of PL_Waiting \<Rightarrow> st = TRANSACTION_READY | PL_Running \<Rightarrow> st = TRANSACTION_RUNNING
     | PL_Ended \<Rightarrow> st = TRANSACTION_DONE \<or> st = TRANSACTION_TIMEOUT)"

lemma thread_status_simps [simp]:
  "thread_status PL_Waiting st \<longleftrightarrow> st = TRANSACTION_READY" "thread_status PL_Running st \<longleftrightarrow> st = TRANSACTION_RUNNING"
  "thread_status PL_Ended st \<longleftrightarrow> st = TRANSACTION_DONE \<or> st = TRANSACTION_TIMEOUT"
  by (simp_all add: thread_status_def)

definition usage :: "server \<Rightarrow> nat" where
  "usage s = (\<Sum>p\<leftarrow>sv_transactions s. unat (getMemoryUsage (the (heap (sv_host s) p))))"

definition sv_inv :: "server \<Rightarrow> bool" where
  "sv_inv s \<longleftrightarrow>
     distinct (sv_transactions s) \<and> dom (heap (sv_host s)) = set (sv_transactions s) \<and>
     dom (sv_pl_threads s) = set (sv_transactions s) \<and>
     (\<forall>p \<in> set (sv_transactions s). p < next_trans (sv_host s)) \<and>
     (\<forall>p \<in> set (tl (sv_transactions s)). sv_pl_threads s p = Some PL_Waiting) \<and>
     (\<forall>p t th. heap (sv_host s) p = Some t \<longrightarrow> sv_pl_threads s p = Some th \<longrightarrow>
        thread_status th (status t) \<and> sv_id2trans s (trans_id t) = Some p) \<and>
     kernel_ok s \<and> unat (sv_memorySize s) = usage s \<and> sv_memorySize s \<le> memorySizeMax"

lemma sv_invD:
  assumes "sv_inv s"
  shows "distinct (sv_transactions s)" "dom (heap (sv_host s)) = set (sv_transactions s)"
    "dom (sv_pl_threads s) = set (sv_transactions s)" "p \<in> set (sv_transactions s) \<Longrightarrow> p < next_trans (sv_host s)"
    "p \<in> set (tl (sv_transactions s)) \<Longrightarrow> sv_pl_threads s p = Some PL_Waiting"
    "heap (sv_host s) p = Some t \<Longrightarrow> sv_pl_threads s p = Some th \<Longrightarrow> thread_status th (status t) \<and> sv_id2trans s (trans_id t) = Some p"
    "kernel_ok s" "unat (sv_memorySize s) = usage s" "sv_memorySize s \<le> memorySizeMax"
  using assms unfolding sv_inv_def by auto

lemma sv_invE:
  assumes "sv_inv s" "sv_transactions s = p # ps"
  obtains t th where "heap (sv_host s) p = Some t" "sv_pl_threads s p = Some th"
proof -
  have "p \<in> dom (heap (sv_host s))" "p \<in> dom (sv_pl_threads s)" using sv_invD(2,3) [OF assms(1)] assms(2) by auto
  then show ?thesis using that by blast
qed

lemma usage_cong:
  assumes "sv_transactions s' = sv_transactions s"
    and "\<And>p. p \<in> set (sv_transactions s) \<Longrightarrow>
      getMemoryUsage (the (heap (sv_host s') p)) = getMemoryUsage (the (heap (sv_host s) p))"
  shows "usage s' = usage s"
  unfolding usage_def using assms by (intro arg_cong [where f = sum_list] map_cong) auto

text \<open>The first transaction changes, and no other.\<close>

lemma inv_first:
  assumes inv: "sv_inv s" "sv_transactions s = p # ps" "heap (sv_host s) p = Some t"
    and s': "sv_transactions s' = p # ps" "heap (sv_host s') = (heap (sv_host s))(p \<mapsto> t')"
      "sv_pl_threads s' = (sv_pl_threads s)(p \<mapsto> th')" "next_trans (sv_host s') = next_trans (sv_host s)"
      "sv_id2trans s' = sv_id2trans s" "sv_memorySize s' = sv_memorySize s"
    and t': "thread_status th' (status t')" "trans_id t' = trans_id t" "getMemoryUsage t' = getMemoryUsage t"
    and k: "kernel_ok s'"
  shows "sv_inv s'"
proof -
  obtain th where th: "sv_pl_threads s p = Some th" using sv_invE [OF inv(1,2)] by metis
  have "usage s' = usage s"
    using inv(2,3) s'(1,2) t'(3) by (intro usage_cong) auto
  moreover have "distinct (p # ps)" using sv_invD(1) [OF inv(1)] inv(2) by simp
  moreover have "sv_id2trans s (trans_id t) = Some p" using sv_invD(6) [OF inv(1,3) th] by simp
  ultimately show ?thesis
    using sv_invD(2-6,8,9) [OF inv(1)] inv(2) s' t' k unfolding sv_inv_def by auto
qed

lemma inv_begun:
  assumes inv: "sv_inv s" "sv_transactions s = p # ps" "heap (sv_host s) p = Some t" and th: "sv_pl_threads s p = Some PL_Waiting"
  shows "sv_inv (begun p t s)"
proof (rule inv_first [OF inv, where t' = "t\<lparr>status := TRANSACTION_RUNNING\<rparr>" and th' = PL_Running])
  show "kernel_ok (begun p t s)"
    using inv by (auto simp: kernel_ok_def begun_def)
qed (use inv in \<open>simp_all add: begun_def getMemoryUsage_def\<close>)

lemma fetched_usage:
  "length (device_perf X i) = length (perf_ptr t) \<Longrightarrow> length (device_from_aie X i) = length (from_aie_ptr t) \<Longrightarrow>
    getMemoryUsage (fetched X i (run_of p t) t\<lparr>status := st\<rparr>) = getMemoryUsage t"
  by (simp add: getMemoryUsage_def fetched_def)

lemma inv_ended:
  assumes inv: "sv_inv s" "sv_transactions s = p # ps" "heap (sv_host s) p = Some t" and th: "sv_pl_threads s p = Some PL_Running"
    and X: "sized X s"
  shows "sv_inv (ended X p t s)"
proof (rule inv_first [OF inv, where th' = PL_Ended and t' = "(fetched X (length (pl_k_r_hdl (xm (sv_host s))) - 1) (run_of p t) t)
    \<lparr>status := if runs_finished X s then TRANSACTION_DONE else TRANSACTION_TIMEOUT\<rparr>"])
  obtain rs where k: "pl_k_r_hdl (xm (sv_host s)) = rs @ [run_of p t]" "bo_hdl (xm (sv_host s)) = [length rs]"
    using sv_invD(7) [OF inv(1)] inv(2,3) th by (auto simp: kernel_ok_def)
  have "due_runs s = rs @ [run_of p t]" using inv(2) th k by (simp add: due_runs_def)
  then have "length (device_perf X (length rs)) = length (perf_ptr t)" "length (device_from_aie X (length rs)) = length (from_aie_ptr t)"
    using X unfolding sized_def by force+
  then show "getMemoryUsage ((fetched X (length (pl_k_r_hdl (xm (sv_host s))) - 1) (run_of p t) t)\<lparr>status :=
      if runs_finished X s then TRANSACTION_DONE else TRANSACTION_TIMEOUT\<rparr>) = getMemoryUsage t"
    using fetched_usage k by simp
  show "kernel_ok (ended X p t s)"
    using inv by (simp add: kernel_ok_def ended_def Let_def)
qed (use inv in \<open>simp_all add: ended_def fetched_def Let_def\<close>)

definition timed :: "u32 \<Rightarrow> nat \<Rightarrow> transaction \<Rightarrow> server \<Rightarrow> server" where
  "timed to p t s = s\<lparr>sv_host := (sv_host s)\<lparr>heap := (heap (sv_host s))(p \<mapsto> t\<lparr>mTimeOut := to\<rparr>)\<rparr>\<rparr>"

lemma inv_timed:
  assumes inv: "sv_inv s" "sv_transactions s = p # ps" "heap (sv_host s) p = Some t"
  shows "sv_inv (timed to p t s)"
proof -
  obtain th where th: "sv_pl_threads s p = Some th" using sv_invE [OF inv(1,2)] by metis
  show ?thesis
  proof (rule inv_first [OF inv, where th' = th and t' = "t\<lparr>mTimeOut := to\<rparr>"])
    show "kernel_ok (timed to p t s)"
      using sv_invD(7) [OF inv(1)] inv(2,3) th by (auto simp: kernel_ok_def timed_def)
    show "sv_pl_threads (timed to p t s) = (sv_pl_threads s)(p \<mapsto> th)" using th by (auto simp: timed_def)
    show "thread_status th (status (t\<lparr>mTimeOut := to\<rparr>))" using sv_invD(6) [OF inv(1,3) th] by simp
  qed (use inv in \<open>simp_all add: timed_def getMemoryUsage_def\<close>)
qed

definition released :: "nat \<Rightarrow> transaction \<Rightarrow> server \<Rightarrow> server" where
  "released p t s = s\<lparr>sv_pl_threads := (sv_pl_threads s)(p := None), sv_transactions := tl (sv_transactions s),
     sv_memorySize := sv_memorySize s - getMemoryUsage t,
     sv_host := (sv_host s)\<lparr>heap := (heap (sv_host s))(p := None)\<rparr>\<rparr>"

lemma inv_released:
  assumes inv: "sv_inv s" "sv_transactions s = p # ps" "heap (sv_host s) p = Some t" and th: "sv_pl_threads s p = Some PL_Ended"
  shows "sv_inv (released p t s)"
proof -
  have d: "p \<notin> set ps" "distinct ps" using sv_invD(1) [OF inv(1)] inv(2) by auto
  have u: "usage s = unat (getMemoryUsage t) + usage (released p t s)"
    using inv(2,3) d unfolding usage_def released_def by (auto intro!: arg_cong [where f = sum_list] map_cong)
  have m: "getMemoryUsage t \<le> sv_memorySize s" using u sv_invD(8) [OF inv(1)] by (simp add: word_le_nat_alt)
  then have "unat (sv_memorySize s - getMemoryUsage t) = usage (released p t s)"
    using u sv_invD(8) [OF inv(1)] by (simp add: unat_sub)
  moreover have "sv_memorySize s - getMemoryUsage t \<le> memorySizeMax"
    using word_sub_le [OF m] sv_invD(9) [OF inv(1)] by (rule order_trans)
  moreover have "kernel_ok (released p t s)"
  proof (cases ps)
    case Nil
    then show ?thesis using sv_invD(7) [OF inv(1)] inv(2) th by (simp add: kernel_ok_def released_def)
  next
    case (Cons q qs)
    then have "sv_pl_threads s q = Some PL_Waiting" "q \<noteq> p" using sv_invD(5) [OF inv(1), of q] inv(2) d by auto
    then show ?thesis using sv_invD(7) [OF inv(1)] inv(2) th Cons by (simp add: kernel_ok_def released_def)
  qed
  moreover have "q \<in> set ps \<Longrightarrow> sv_pl_threads s q = Some PL_Waiting" for q using sv_invD(5) [OF inv(1), of q] inv(2) by simp
  moreover have "set (tl ps) \<subseteq> set ps" by (cases ps) auto
  ultimately show ?thesis
    using sv_invD(2-4,6) [OF inv(1)] inv(2) d unfolding sv_inv_def by (auto simp: released_def)
qed

lemma usage_small:
  assumes "length (cfg_ptr t) \<le> 2 ^ 59" "length (to_aie_ptr t) \<le> 2 ^ 59" "length (from_aie_ptr t) \<le> 2 ^ 59" "length (perf_ptr t) < 2 ^ 32"
  shows "unat (getMemoryUsage t) = 8 * length (cfg_ptr t) + 8 * length (perf_ptr t) + length (to_aie_ptr t) + length (from_aie_ptr t)"
proof -
  let ?n = "8 * length (cfg_ptr t) + 8 * length (perf_ptr t) + length (to_aie_ptr t) + length (from_aie_ptr t)"
  have 1: "getMemoryUsage t = of_nat ?n" by (simp add: getMemoryUsage_def mult.commute)
  have 2: "unat (of_nat ?n :: u64) = ?n" using assms by (intro unat_of_nat_small) simp
  show ?thesis by (simp only: 1 2)
qed

lemma inv_admitted:
  assumes inv: "sv_inv s" and t: "status t = TRANSACTION_READY" "sv_id2trans s (trans_id t) = None"
    and m: "sv_memorySize s + getMemoryUsage t \<le> memorySizeMax" and u: "unat (getMemoryUsage t) < 2 ^ 63"
  shows "sv_inv (admitted t s)"
proof -
  let ?n = "next_trans (sv_host s)"
  have n: "?n \<notin> set (sv_transactions s)" using sv_invD(4) [OF inv] by blast
  have "unat (sv_memorySize s) \<le> 2 ^ 30" using sv_invD(9) [OF inv] by (simp add: memorySizeMax_def word_le_nat_alt)
  then have "unat (sv_memorySize s + getMemoryUsage t) = unat (sv_memorySize s) + unat (getMemoryUsage t)"
    using u by (intro unat_add_small) simp
  moreover have "usage (admitted t s) = usage s + unat (getMemoryUsage t)"
    using n unfolding usage_def admitted_def Let_def by (auto intro!: arg_cong [where f = sum_list] map_cong)
  ultimately have "unat (sv_memorySize (admitted t s)) = usage (admitted t s)"
    using sv_invD(8) [OF inv] by (simp add: admitted_def Let_def)
  moreover have "kernel_ok (admitted t s)"
    using sv_invD(7) [OF inv] n by (cases "sv_transactions s") (auto simp: kernel_ok_def admitted_def Let_def)
  moreover have "trans_id t' \<noteq> trans_id t" if h: "heap (sv_host s) p = Some t'" for p t'
  proof -
    have "p \<in> dom (sv_pl_threads s)" using sv_invD(2,3) [OF inv] h by auto
    then show ?thesis using sv_invD(6) [OF inv h] t(2) by fastforce
  qed
  moreover have "\<forall>p \<in> set (tl (sv_transactions s @ [?n])). p = ?n \<or> sv_pl_threads s p = Some PL_Waiting"
    using sv_invD(5) [OF inv] by (cases "sv_transactions s") auto
  ultimately show ?thesis
    using sv_invD(1-4,6) [OF inv] t m n unfolding sv_inv_def by (auto simp: admitted_def Let_def less_Suc_eq)
qed

section \<open>The handlers\<close>

lemma due_runs_begun:
  "sv_transactions s = p # ps \<Longrightarrow> heap (sv_host s) p = Some t \<Longrightarrow> sv_pl_threads s p = Some PL_Waiting \<Longrightarrow> due_runs (begun p t s) = due_runs s"
  by (simp add: due_runs_def begun_def)

text \<open>\<open>join\<close> with what the runtime reports.\<close>

definition joined :: "xrt \<Rightarrow> nat \<Rightarrow> transaction \<Rightarrow> server \<Rightarrow> (harness_error + unit) \<times> server" where
  "joined X p t s =
     (if sv_pl_threads s p = Some PL_Ended then (Inr (), s)
      else let s1 = (if sv_pl_threads s p = Some PL_Waiting then begun p t s else s) in
        if mTimeOut t = 0 \<and> \<not> runs_finished X s1 then (Inl NoReturn, s1)
        else (Inr (), ended X p (the (heap (sv_host s1) p)) s1))"

lemma join_first_run:
  assumes inv: "sv_inv s" "sv_transactions s = p # ps" "heap (sv_host s) p = Some t"
  shows "join_first X p s = joined X p t s"
proof -
  obtain th where th: "sv_pl_threads s p = Some th" using sv_invE [OF inv(1,2)] by metis
  have e: "sv_pl_threads (ended X p t' s') p = Some PL_Ended" for t' s' by (simp add: ended_def Let_def)
  have running: "bindM (pl_continue X p) (\<lambda>_. bindM getM (\<lambda>s. if sv_pl_threads s p = Some PL_Ended then ret () else throw NoReturn)) s' =
      (if mTimeOut t' = 0 \<and> \<not> runs_finished X s' then (Inl NoReturn, s') else (Inr (), ended X p t' s'))"
    if "sv_inv s'" "sv_transactions s' = p # ps" "sv_pl_threads s' p = Some PL_Running" "heap (sv_host s') p = Some t'" for s' t'
    using that e by (simp add: bindM_def [of "pl_continue X p"] pl_continue_run [OF that(2,3) sv_invD(7) [OF that(1)] that(4)] ret_def throw_def)
  show ?thesis
  proof (cases th)
    case PL_Waiting
    have b: "bo_hdl (xm (sv_host s)) = []" using sv_invD(7) [OF inv(1)] inv(2) th PL_Waiting by (simp add: kernel_ok_def)
    have h: "sv_transactions (begun p t s) = p # ps" "sv_pl_threads (begun p t s) p = Some PL_Running"
      "heap (sv_host (begun p t s)) p = Some (t\<lparr>status := TRANSACTION_RUNNING\<rparr>)"
      using inv(2) by (simp_all add: begun_def)
    from running [OF inv_begun [OF inv] this] th PL_Waiting show ?thesis
      by (simp add: join_first_def joined_def thenM_def bindM_def [of "pl_start p"] pl_start_run [OF inv(3) b] h Let_def)
  next
    case PL_Running
    then show ?thesis using running [OF inv(1,2) _ inv(3)] th inv(3) by (simp add: join_first_def joined_def thenM_def)
  next
    case PL_Ended
    then show ?thesis using th by (simp add: join_first_def joined_def)
  qed
qed

lemma joined_inv:
  assumes inv: "sv_inv s" "sv_transactions s = p # ps" "heap (sv_host s) p = Some t" and X: "sized X s"
    and j: "joined X p t s = (Inr (), s')"
  shows "sv_inv s' \<and> sv_transactions s' = p # ps \<and> sv_pl_threads s' p = Some PL_Ended"
proof -
  obtain th where th: "sv_pl_threads s p = Some th" using sv_invE [OF inv(1,2)] by metis
  have e: "sv_pl_threads (ended X p t' s') p = Some PL_Ended" "sv_transactions (ended X p t' s') = sv_transactions s'" for t' s'
    by (simp_all add: ended_def Let_def)
  show ?thesis
  proof (cases th)
    case PL_Waiting
    have "sv_transactions (begun p t s) = p # ps" "sv_pl_threads (begun p t s) p = Some PL_Running"
      "heap (sv_host (begun p t s)) p = Some (t\<lparr>status := TRANSACTION_RUNNING\<rparr>)" "sized X (begun p t s)"
      using inv th PL_Waiting X due_runs_begun [of s p ps t] by (simp_all add: begun_def sized_def)
    with inv_ended [OF inv_begun [OF inv]] j th PL_Waiting e show ?thesis by (auto simp: joined_def Let_def split: if_splits)
  next
    case PL_Running
    with inv_ended [OF inv _ X] j th e inv show ?thesis by (auto simp: joined_def Let_def split: if_splits)
  next
    case PL_Ended
    with j th inv show ?thesis by (simp add: joined_def)
  qed
qed

text \<open>A normal return of each handler.\<close>

lemma run_effect:
  assumes inv: "sv_inv s" and k: "alloc_limit k \<le> 2 ^ 59" and r: "sv_runTestHarness (s, k) = (Inr (), (s', k'))"
  shows "s' = s \<or> (\<exists>t. s' = admitted t s \<and> sv_id2trans s (trans_id t) = None \<and> sv_inv s')"
proof -
  obtain sz n k1 where 1: "recvData_word k = (Inr (sz :: u64, n), k1)"
    and 2: "(if sv_memorySize s + sz > memorySizeMax then put (sendData_bool False)
      else thenM (put (sendData_bool True)) (receive_transaction sz)) (s, k1) = (Inr (), (s', k'))"
    using r by (auto simp: sv_runTestHarness_def runs bindM_eq_Inr)
  show ?thesis
  proof (cases "sv_memorySize s + sz > memorySizeMax")
    case True
    then show ?thesis using 2 by (auto simp: runs)
  next
    case False
    then obtain k2 m where 3: "sendData_bool True k1 = (Inr m, k2)" and 4: "receive_transaction sz (s, k2) = (Inr (), (s', k'))"
      using 2 by (auto simp: runs thenM_eq_Inr)
    have "alloc_limit k2 = alloc_limit k1"
      using 3 by (auto simp: sendData_bool_def sendBytes_def sys_send_def split: if_splits option.splits)
    then have a: "alloc_limit k2 \<le> 2 ^ 59" using limit_kept [OF limited_word 1] k by simp
    obtain tid umode to cfg img f where t: "s' = admitted (received_transaction s tid umode to cfg img f) s"
      "sv_id2trans s tid = None" "getMemoryUsage (received_transaction s tid umode to cfg img f) = sz"
      "length cfg \<le> alloc_limit k2" "length img \<le> alloc_limit k2" "unat f \<le> alloc_limit k2"
      using receive_effect [OF 4] by blast
    let ?t = "received_transaction s tid umode to cfg img f"
    have l: "length (cfg_ptr ?t) \<le> 2 ^ 59" "length (to_aie_ptr ?t) \<le> 2 ^ 59" "length (from_aie_ptr ?t) \<le> 2 ^ 59"
      "length (perf_ptr ?t) < 2 ^ 32"
      using t(4-6) a unat_less_exp [where m = 32 and x = "sv_num_channels s * 4"] by (simp_all add: received_transaction_def)
    then have "unat (getMemoryUsage ?t) < 2 ^ 63" unfolding usage_small [OF l] by simp
    then have "sv_inv (admitted ?t s)"
      using False t(2,3) by (intro inv_admitted [OF inv]) (simp_all add: received_transaction_def)
    then show ?thesis using t(1,2) by (auto simp: received_transaction_def intro!: exI [of _ ?t])
  qed
qed

lemma wait_effect:
  assumes inv: "sv_inv s" and X: "sized X s" and r: "sv_waitForTestHarness X (s, k) = (Inr (), (s', k'))"
  shows "sv_inv s' \<and> sv_transactions s' = tl (sv_transactions s)"
proof -
  obtain p ps where p: "sv_transactions s = p # ps" and c: "sv_collect X p (s, k) = (Inr (), (s', k'))"
    using r by (auto simp: sv_waitForTestHarness_def runs split: if_splits list.splits)
  obtain t where t: "heap (sv_host s) p = Some t" using sv_invE [OF inv p] by metis
  obtain to s2 t2 where j: "join_first X p (timed to p t s) = (Inr (), s2)" and t2: "heap (sv_host s2) p = Some t2"
    and s': "s' = released p t2 s2"
    using c t by (auto simp: sv_collect_def sv_send_results_def sv_release_def runs bindM_eq_Inr thenM_eq_Inr timed_def
        setTimeOut_def released_def split: if_splits)
  note i = inv_timed [OF inv p t, of to]
  have q: "sv_transactions (timed to p t s) = p # ps" "heap (sv_host (timed to p t s)) p = Some (t\<lparr>mTimeOut := to\<rparr>)"
    using p by (simp_all add: timed_def)
  have "due_runs (timed to p t s) = due_runs s" using p t by (simp add: due_runs_def timed_def)
  then have X': "sized X (timed to p t s)" using X by (simp add: sized_def)
  have "sv_inv s2 \<and> sv_transactions s2 = p # ps \<and> sv_pl_threads s2 p = Some PL_Ended"
    using joined_inv [OF i q X'] j join_first_run [OF i q] by simp
  then show ?thesis using inv_released [of s2 p ps t2] t2 s' p by (simp add: released_def)
qed

end
