(* ===== verification/Session_Inv.thy ===== *)
theory Session_Inv
  imports Session Server_Inv
begin

text \<open>
  The states a session can reach: its requests, whatever bytes the client sends, the threads of its server and the
  seconds of its watchdog, in any order. While it serves requests its server keeps its invariant.
\<close>

section \<open>Reachable states\<close>

definition mgr_sized :: "xrt \<Rightarrow> session \<Rightarrow> bool" where
  "mgr_sized X s \<longleftrightarrow> (\<forall>v \<in> set_option (ss_mgr s). sized X v)"

inductive session_reachable :: "params \<Rightarrow> session \<Rightarrow> bool" for P where
  start: "session_reachable P (new_session n)"
| request: "session_reachable P s \<Longrightarrow> \<not> mDone s \<Longrightarrow> alloc_limit k \<le> 2 ^ 59 \<Longrightarrow> mgr_sized X s \<Longrightarrow>
    run_once P can_open X (s, k) = (Inr go, (s', k')) \<Longrightarrow> session_reachable P s'"
| thread: "session_reachable P s \<Longrightarrow> ss_mgr s = Some v \<Longrightarrow> sized X v \<Longrightarrow> pl_step X v v' \<Longrightarrow>
    session_reachable P (s\<lparr>ss_mgr := Some v'\<rparr>)"
| second: "session_reachable P s \<Longrightarrow> monitor_second w s = (w', s') \<Longrightarrow> session_reachable P s'"

definition serving_inv :: "session \<Rightarrow> bool" where
  "serving_inv s \<longleftrightarrow> (\<not> mDone s \<longrightarrow> (\<forall>v \<in> set_option (ss_mgr s). sv_inv v))"

lemma new_server_inv: "sv_inv (new_server device nc d ws mw\<lparr>sv_graph_started := g\<rparr>)"
  by (simp add: sv_inv_def new_server_def kernel_ok_def usage_def memorySizeMax_def)

lemma construct_effect:
  "construct_server can_open (v, k) = (Inr (), (v', k')) \<Longrightarrow> \<exists>g. v' = v\<lparr>sv_graph_started := g\<rparr>"
  by (auto simp: construct_server_def verifyDevice_def sv_init_def runs thenM_eq_Inr bindM_eq_Inr throw_def split: if_splits)

lemma graph_inv: "sv_inv s \<Longrightarrow> sv_inv (s\<lparr>sv_graph_started := g\<rparr>)"
  by (cases "sv_transactions s") (auto simp: sv_inv_def kernel_ok_def usage_def)

lemma runAIEGraph_effect: "sv_runAIEGraph (v, k) = (Inr (), (v', k')) \<Longrightarrow> \<exists>g. v' = v\<lparr>sv_graph_started := g\<rparr>"
  by (auto simp: sv_runAIEGraph_def runs thenM_eq_Inr bindM_eq_Inr throw_def split: if_splits option.splits)

lemma waitForGraph_effect: "sv_waitForGraph (v, k) = (Inr (), (v', k')) \<Longrightarrow> \<exists>g. v' = v\<lparr>sv_graph_started := g\<rparr>"
  by (auto simp: sv_waitForGraph_def runs thenM_eq_Inr bindM_eq_Inr)

lemma query_effect: "sv_queryTransactionStatus (v, k) = (Inr (), (v', k')) \<Longrightarrow> v' = v"
  by (auto simp: sv_queryTransactionStatus_def runs thenM_eq_Inr bindM_eq_Inr throw_def split: option.splits)

lemma handlers_inv:
  assumes "sv_inv v"
  shows "alloc_limit k \<le> 2 ^ 59 \<Longrightarrow> sv_runTestHarness (v, k) = (Inr (), (v', k')) \<Longrightarrow> sv_inv v'"
    "sized X v \<Longrightarrow> sv_waitForTestHarness X (v, k) = (Inr (), (v', k')) \<Longrightarrow> sv_inv v'"
    "sv_runAIEGraph (v, k) = (Inr (), (v', k')) \<Longrightarrow> sv_inv v'" "sv_waitForGraph (v, k) = (Inr (), (v', k')) \<Longrightarrow> sv_inv v'"
    "sv_queryTransactionStatus (v, k) = (Inr (), (v', k')) \<Longrightarrow> sv_inv v'"
  by (rule run_effect [OF assms, THEN disjE]; auto simp: assms)
    (use wait_effect [OF assms] in blast,
     auto dest!: runAIEGraph_effect waitForGraph_effect query_effect simp: graph_inv [OF assms] assms)

lemma pl_step_inv:
  assumes "pl_step X s s'" "sv_inv s" "sized X s" shows "sv_inv s'"
  using assms(1)
proof cases
  case (start p ps)
  obtain t where t: "heap (sv_host s) p = Some t" using sv_invE [OF assms(2) start(1)] by metis
  have "bo_hdl (xm (sv_host s)) = []" using sv_invD(7) [OF assms(2)] start by (simp add: kernel_ok_def)
  then show ?thesis using pl_start_run [OF t] start(3) inv_begun [OF assms(2) start(1) t start(2)] by simp
next
  case (continue p ps)
  obtain t where t: "heap (sv_host s) p = Some t" using sv_invE [OF assms(2) continue(1)] by metis
  show ?thesis
    using pl_continue_run [OF continue(1,2) sv_invD(7) [OF assms(2)] t, of X] continue(3) assms(2)
      inv_ended [OF assms(2) continue(1) t continue(2) assms(3)] by (auto split: if_splits)
qed

lemma on_mgr_inv:
  assumes "on_mgr m (s, k) = (Inr (), (s', k'))" "serving_inv s" "\<not> mDone s"
    and "\<And>v v'. ss_mgr s = Some v \<Longrightarrow> sv_inv v \<Longrightarrow> m (v, k) = (Inr (), (v', k')) \<Longrightarrow> sv_inv v'"
  shows "serving_inv s'"
proof -
  obtain v v' where v: "ss_mgr s = Some v" "m (v, k) = (Inr (), (v', k'))" "s' = s\<lparr>ss_mgr := Some v'\<rparr>"
    using assms(1) by (auto simp: on_mgr_def split: option.splits prod.splits)
  have "sv_inv v" using assms(2,3) v(1) by (simp add: serving_inv_def)
  then show ?thesis using assms(4) v by (simp add: serving_inv_def)
qed

lemma make_mgr_inv:
  assumes "make_mgr P c (s, k) = (Inr (), (s', k'))" shows "serving_inv s'"
proof -
  let ?new = "new_server (PARAM_DEVICE P) (PARAM_CHANNELS P) (PARAM_DEPTH P) (PARAM_WIDTH P) (PARAM_MEM_WIDTH P)"
  obtain r v k1 where c: "construct_server c (?new, k) = (r, (v, k1))" by (metis surj_pair)
  have "make_mgr P c (s, k) = (case r of Inl e \<Rightarrow> (Inl e, (s, k1)) | Inr u \<Rightarrow> (Inr (), (s\<lparr>ss_mgr := Some v\<rparr>, k1)))"
    unfolding make_mgr_def prod.case c by (cases r) simp_all
  then have v: "construct_server c (?new, k) = (Inr (), (v, k'))" "s' = s\<lparr>ss_mgr := Some v\<rparr>"
    using assms c by (auto split: sum.splits)
  from construct_effect [OF v(1)] obtain g where "v = new_server (PARAM_DEVICE P) (PARAM_CHANNELS P) (PARAM_DEPTH P)
    (PARAM_WIDTH P) (PARAM_MEM_WIDTH P)\<lparr>sv_graph_started := g\<rparr>" by blast
  then have "sv_inv v" by (simp only: new_server_inv)
  then show ?thesis by (simp add: serving_inv_def v(2))
qed

lemma active_inv [simp]: "serving_inv (s\<lparr>mActive := a\<rparr>) \<longleftrightarrow> serving_inv s" "mgr_sized X (s\<lparr>mActive := a\<rparr>) \<longleftrightarrow> mgr_sized X s"
  by (simp_all add: serving_inv_def mgr_sized_def)

lemma dispatch_inv:
  assumes d: "dispatch P c X req (s, k) = (Inr go, (s', k'))"
    and s: "serving_inv s" "\<not> mDone s" "alloc_limit k \<le> 2 ^ 59" "mgr_sized X s"
  shows "serving_inv s'"
proof -
  let ?s = "s\<lparr>mActive := True\<rparr>"
  have a: "serving_inv ?s" "\<not> mDone ?s" "ss_mgr ?s = ss_mgr s" using s by simp_all
  have run: "serving_inv s'" if "on_mgr sv_runTestHarness (?s, k) = (Inr (), (s', k'))"
    by (rule on_mgr_inv [OF that a(1,2)]) (rule handlers_inv(1) [OF _ s(3)])
  have graph: "serving_inv s'" if "on_mgr sv_runAIEGraph (?s, k) = (Inr (), (s', k'))"
    by (rule on_mgr_inv [OF that a(1,2)]) (rule handlers_inv(3))
  have wait: "serving_inv s'" if "on_mgr (sv_waitForTestHarness X) (?s, k) = (Inr (), (s', k'))"
    by (rule on_mgr_inv [OF that a(1,2)]) (rule handlers_inv(2); use s(4) in \<open>simp add: mgr_sized_def\<close>)
  have wgraph: "serving_inv s'" if "on_mgr sv_waitForGraph (?s, k) = (Inr (), (s', k'))"
    by (rule on_mgr_inv [OF that a(1,2)]) (rule handlers_inv(4))
  have query: "serving_inv s'" if "on_mgr sv_queryTransactionStatus (s, k) = (Inr (), (s', k'))"
    by (rule on_mgr_inv [OF that s(1,2)]) (rule handlers_inv(5))
  have make: "serving_inv s'" if "make_mgr P c (?s, k) = (Inr (), (s', k'))" by (rule make_mgr_inv [OF that])
  show ?thesis
    using d s(1,2) run graph wait wgraph query make unfolding dispatch_def
    by (auto simp: thenM_eq_Inr bindM_eq_Inr runs setActive_def mgr_exists_def reset_mgr_def ss_setTimeOut_def serving_inv_def
        split: if_splits)
qed

lemma limited_recvReq: "keeps (limited a) recvReq"
  unfolding recvReq_def recvData_str_def by (intro keeps) 

lemma run_once_inv:
  assumes r: "run_once P c X (s, k) = (Inr go, (s', k'))"
    and s: "serving_inv s" "\<not> mDone s" "alloc_limit k \<le> 2 ^ 59" "mgr_sized X s"
  shows "serving_inv s'"
proof (cases go)
  case True
  then have "serve P c X (s, k) = (Inr True, (s', k'))"
    using r by (auto simp: run_once_def bindM_eq_Inr thenM_eq_Inr catch_def throw_def runs split: prod.splits sum.splits if_splits)
  then obtain req k1 where "recvReq k = (Inr req, k1)" "dispatch P c X req (s, k1) = (Inr True, (s', k'))"
    by (auto simp: serve_def bindM_eq_Inr runs)
  then show ?thesis using dispatch_inv [of P c X req s k1] s limit_kept [OF limited_recvReq, of k] by auto
next
  case False
  then have "mDone s'"
    using r by (auto simp: run_once_def bindM_eq_Inr thenM_eq_Inr runs split: if_splits)
  then show ?thesis by (simp add: serving_inv_def)
qed

lemma session_reachable_inv: "session_reachable P s \<Longrightarrow> serving_inv s"
proof (induction rule: session_reachable.induct)
  case (start n)
  then show ?case by (simp add: serving_inv_def new_session_def)
next
  case (request s k X can_open go s' k')
  then show ?case using run_once_inv by blast
next
  case (thread s v X v')
  then show ?case using pl_step_inv by (auto simp: serving_inv_def)
next
  case (second s w w' s')
  then show ?case by (cases w) (auto simp: serving_inv_def Let_def split: if_splits)
qed

end
