(* ===== verification/Server_Talks.thy ===== *)
theory Server_Talks
  imports Conversations Session_Inv
begin

text \<open>
  The requests of a client that keeps to the protocol, as conversations of the session.
\<close>

section \<open>Transactions\<close>

definition run_bytes :: "u64 \<Rightarrow> u8 \<Rightarrow> u32 \<Rightarrow> u32 \<Rightarrow> u64 list \<Rightarrow> u8 list \<Rightarrow> u64 \<Rightarrow> u8 list" where
  "run_bytes sz umode tid timeout cfg img from_aie_size =
     word_bytes sz @ word_bytes umode @ word_bytes tid @ word_bytes timeout @ enc_vec cfg @ enc_vec img @ word_bytes from_aie_size"

lemma new_transaction_run:
  "sv_new_transaction tid umode timeout s = (Inr (next_trans (sv_host s)),
     s\<lparr>sv_host := (sv_host s)\<lparr>heap := (heap (sv_host s))(next_trans (sv_host s) \<mapsto>
          test_harness_transactions tid umode (sv_num_channels s) (sv_word_size s) (sv_depth s) timeout 0),
          next_trans := Suc (next_trans (sv_host s))\<rparr>,
       sv_transactions := sv_transactions s @ [next_trans (sv_host s)],
       sv_id2trans := (sv_id2trans s)(tid \<mapsto> next_trans (sv_host s))\<rparr>)"
  by (simp add: sv_new_transaction_def sv_on_host_def new_trans_def bindM_def thenM_def ret_def)

lemma conv_on_server:
  assumes "heap (sv_host s) p = Some t"
  shows "converses (on_server p f) s [] [] () (s\<lparr>sv_host := (sv_host s)\<lparr>heap := (heap (sv_host s))(p \<mapsto> f t)\<rparr>\<rparr>)"
  using assms by (intro conv_own) (simp add: sv_on_host_def on_trans_def)

lemma conv_receive_data:
  assumes t: "heap (sv_host s) p = Some t" and l: "short 59 cfg" "short 59 img" "n \<le> memorySizeMax"
  shows "converses (sv_receive_data p) s (enc_vec cfg @ enc_vec img @ word_bytes n) [] ()
    (s\<lparr>sv_host := (sv_host s)\<lparr>heap := (heap (sv_host s))(p \<mapsto> t\<lparr>cfg_ptr := cfg, to_aie_ptr := img,
      from_aie_ptr := vec_resize (unat n) (from_aie_ptr t), status := TRANSACTION_READY\<rparr>)\<rparr>\<rparr>)"
proof -
  let ?s = "\<lambda>t. s\<lparr>sv_host := (sv_host s)\<lparr>heap := (heap (sv_host s))(p \<mapsto> t)\<rparr>\<rparr>"
  let ?t1 = "t\<lparr>cfg_ptr := cfg\<rparr>" and ?t2 = "t\<lparr>cfg_ptr := cfg, to_aie_ptr := img\<rparr>"
    and ?t3 = "t\<lparr>cfg_ptr := cfg, to_aie_ptr := img, from_aie_ptr := vec_resize (unat n) (from_aie_ptr t)\<rparr>"
  have step: "converses (on_server p f) (?s t') [] [] () (?s (f t'))" for f t'
    using conv_on_server [of "?s t'" p t' f] by simp
  have first: "converses (on_server p f) s [] [] () (?s (f t))" for f using conv_on_server [OF t] .
  have 4: "converses (thenM (on_server p (\<lambda>t. t\<lparr>from_aie_ptr := vec_resize (unat n) (from_aie_ptr t)\<rparr>))
      (on_server p (setStatus TRANSACTION_READY))) (?s ?t2) [] [] () (?s (?t3\<lparr>status := TRANSACTION_READY\<rparr>))"
    by (rule conv_then [OF step]) (use step [of "setStatus TRANSACTION_READY" ?t3] in \<open>simp_all add: setStatus_def\<close>)
  show ?thesis
    unfolding sv_receive_data_def
    by (rule conv_recv_bind [OF conv_recv_vec] conv_silent_then [OF first] conv_recv_bind [OF conv_recv_vec]
        conv_silent_then [OF step] conv_recv_last [OF conv_recv_word] conv_silent_then [OF conv_resize] 4 | simp add: l)+

qed

lemma start_thread_run:
  "heap (sv_host s) p = Some t \<Longrightarrow> getMemoryUsage t = sz \<Longrightarrow> sv_start_thread p sz s = (Inr (),
     s\<lparr>sv_memorySize := sv_memorySize s + sz, sv_pl_threads := (sv_pl_threads s)(p \<mapsto> PL_Waiting)\<rparr>)"
  by (simp add: sv_start_thread_def sv_on_host_def deref_def bindM_def ret_def)

lemma conv_receive:
  fixes v :: server
  assumes new: "sv_id2trans v tid = None" and md: "umode = FUNC_MODE \<or> umode = PERF_MODE"
    and sz: "getMemoryUsage (received_transaction v tid umode timeout cfg img n) = sz"
    and l: "short 59 cfg" "short 59 img" "n \<le> memorySizeMax"
  shows "converses (receive_transaction sz) v
    (word_bytes umode @ word_bytes tid @ word_bytes timeout @ enc_vec cfg @ enc_vec img @ word_bytes n) [] ()
    (admitted (received_transaction v tid umode timeout cfg img n) v)"
proof -
  let ?p = "next_trans (sv_host v)" and ?new = "test_harness_transactions tid umode (sv_num_channels v) (sv_word_size v) (sv_depth v) timeout 0"
    and ?t = "received_transaction v tid umode timeout cfg img n"
  let ?v1 = "v\<lparr>sv_host := (sv_host v)\<lparr>heap := (heap (sv_host v))(?p \<mapsto> ?new), next_trans := Suc ?p\<rparr>,
       sv_transactions := sv_transactions v @ [?p], sv_id2trans := (sv_id2trans v)(tid \<mapsto> ?p)\<rparr>"
  let ?v2 = "?v1\<lparr>sv_host := (sv_host ?v1)\<lparr>heap := (heap (sv_host ?v1))(?p \<mapsto> ?t)\<rparr>\<rparr>"
  have md': "\<not> (umode \<noteq> FUNC_MODE \<and> umode \<noteq> PERF_MODE)" using md by blast
  have d: "converses (sv_receive_data ?p) ?v1 (enc_vec cfg @ enc_vec img @ word_bytes n) [] () ?v2"
    using conv_receive_data [of ?v1 ?p ?new cfg img n] l by (simp add: received_transaction_def)
  have e: "converses (own (sv_start_thread ?p sz)) ?v2 [] [] () (admitted ?t v)"
    by (rule conv_own) (use start_thread_run [of ?v2 ?p ?t sz] sz in \<open>simp add: admitted_def received_transaction_def Let_def\<close>)
  show ?thesis
    unfolding receive_transaction_def
    by (rule conv_recv_bind [OF conv_recv_word] conv_get conv_silent_bind [OF conv_own [OF new_transaction_run]] conv_last_then [OF d e]
        | simp only: md' if_False prod.case new simp_thms | simp)+
qed

lemma conv_run:
  fixes v :: server
  assumes new: "sv_id2trans v tid = None" and md: "umode = FUNC_MODE \<or> umode = PERF_MODE"
    and sz: "getMemoryUsage (received_transaction v tid umode timeout cfg img n) = sz" "sv_memorySize v + sz \<le> memorySizeMax"
    and l: "short 59 cfg" "short 59 img" "n \<le> memorySizeMax"
  shows "converses sv_runTestHarness v (run_bytes sz umode tid timeout cfg img n) (enc_bool True) ()
    (admitted (received_transaction v tid umode timeout cfg img n) v)"
proof -
  have m: "\<not> sv_memorySize v + sz > memorySizeMax" using sz(2) by simp
  have s: "converses (thenM (put (sendData_bool True)) (receive_transaction sz)) v
      (word_bytes umode @ word_bytes tid @ word_bytes timeout @ enc_vec cfg @ enc_vec img @ word_bytes n) (enc_bool True @ []) ()
      (admitted (received_transaction v tid umode timeout cfg img n) v)"
    by (rule conv_send_then [OF conv_send_bool conv_receive]) (use assms in simp_all)
  show ?thesis
    unfolding sv_runTestHarness_def run_bytes_def
    by (rule conv_guard conv_recv_bind [OF conv_recv_word] conv_get | simp only: m if_False prod.case s [simplified] | simp)+
qed

section \<open>Results\<close>

lemma conv_query:
  assumes "sv_id2trans v tid = Some p" "heap (sv_host v) p = Some t"
  shows "converses sv_queryTransactionStatus v (word_bytes tid) (word_bytes (status_code (status t))) () v"
proof -
  have d: "converses (own (sv_on_host (deref p))) v [] [] t v"
    using assms(2) by (intro conv_own) (simp add: sv_on_host_run deref_def)
  show ?thesis
    unfolding sv_queryTransactionStatus_def
    by (rule conv_guard conv_recv_last [OF conv_recv_word] conv_get conv_silent_bind [OF d] conv_send_word
        | simp add: assms(1) getStatus_def)+
qed

lemma conv_wait:
  assumes inv: "sv_inv v" "sv_transactions v = p # ps" "heap (sv_host v) p = Some t"
    and j: "joined X p (t\<lparr>mTimeOut := timeout\<rparr>) (timed timeout p t v) = (Inr (), v2)"
    and t2: "heap (sv_host v2) p = Some t2" "short 59 (from_aie_ptr t2)" "short 59 (perf_ptr t2)"
  shows "converses (sv_waitForTestHarness X) v (word_bytes (trans_id t) @ word_bytes timeout)
    (word_bytes (status_code (status t2)) @ enc_vec (from_aie_ptr t2) @ enc_vec (perf_ptr t2)) () (released p t2 v2)"
proof -
  have d: "converses (own (sv_on_host (deref p))) v [] [] t v" "converses (own (sv_on_host (deref p))) v2 [] [] t2 v2"
    using inv(3) t2(1) by (auto intro!: conv_own simp: sv_on_host_run deref_def)
  have w: "converses (on_server p (setTimeOut timeout)) v [] [] () (timed timeout p t v)"
    using conv_on_server [OF inv(3), of "setTimeOut timeout"] by (simp add: timed_def setTimeOut_def)
  have q: "sv_transactions (timed timeout p t v) = p # ps" "heap (sv_host (timed timeout p t v)) p = Some (t\<lparr>mTimeOut := timeout\<rparr>)"
    using inv(2) by (simp_all add: timed_def)
  have jn: "converses (own (join_first X p)) (timed timeout p t v) [] [] () v2"
    using j join_first_run [OF inv_timed [OF inv] q] by (intro conv_own) simp
  have r: "converses (own (sv_release p t2)) v2 [] [] () (released p t2 v2)"
    by (rule conv_own) (simp add: sv_release_def sv_on_host_def delete_trans_def released_def)
  have e: "converses (sv_send_results t2) v2 [] (word_bytes (status_code (status t2)) @ enc_vec (from_aie_ptr t2) @ enc_vec (perf_ptr t2)) () v2"
    unfolding sv_send_results_def getStatus_def
    by (rule conv_send_then [OF conv_send_word] conv_send_then [OF conv_send_vec] conv_send_vec | simp add: t2)+
  have c: "converses (sv_collect X p) v (word_bytes (trans_id t) @ word_bytes timeout)
      (word_bytes (status_code (status t2)) @ enc_vec (from_aie_ptr t2) @ enc_vec (perf_ptr t2)) () (released p t2 v2)"
    unfolding sv_collect_def
    by (rule conv_recv_bind [OF conv_recv_word] conv_silent_bind [OF d(1)] conv_recv_last [OF conv_recv_word] conv_silent_then [OF w]
        conv_silent_then [OF jn] conv_silent_bind [OF d(2)] conv_last_then [OF e r] | simp)+
  obtain th where "sv_pl_threads v p = Some th" using sv_invE [OF inv(1,2)] by metis
  moreover have "card (dom (sv_pl_threads v)) = length (sv_transactions v)" "dom (sv_pl_threads v) \<noteq> {}"
    using sv_invD(1,3) [OF inv(1)] inv(2) distinct_card [of "sv_transactions v"] by auto
  ultimately show ?thesis
    unfolding sv_waitForTestHarness_def
    by (intro conv_get) (simp add: inv(2) conv_guard [OF c])
qed

section \<open>The session\<close>

definition req :: "string \<Rightarrow> u8 list" where
  "req r = enc_str (ascii r)"

text \<open>One iteration of the session that goes on.\<close>

lemma conv_serve:
  assumes "converses (dispatch P c X (ascii r)) s body outs True s'" "length r < 2 ^ 63"
  shows "converses (run_once P c X) s (req r @ body) outs True s'"
proof -
  have r: "converses (serve P c X) s (req r @ body) outs True s'"
    unfolding serve_def req_def by (rule conv_recv_bind [OF conv_net [OF talks_recvReq]]) (use assms in simp_all)
  show ?thesis
    unfolding run_once_def by (rule conv_last_bind [OF conv_catch [OF r]]) (simp add: conv_ret)
qed

lemma conv_on_mgr:
  assumes m: "converses m v a x () v'" and s: "ss_mgr s = Some v"
  shows "converses (on_mgr m) s a x () (s\<lparr>ss_mgr := Some v'\<rparr>)"
proof (rule conversesI)
  fix k :: sock and rest
  assume k: "readable (incoming k) = a @ rest" "send_room k = None" "max (2 ^ 30) (length a) \<le> alloc_limit k"
  from conversesD [OF m k] obtain k' where "m (v, k) = (Inr (), (v', k'))" "advances k rest x k'" .
  then show "\<exists>k'. on_mgr m (s, k) = (Inr (), (s\<lparr>ss_mgr := Some v'\<rparr>, k')) \<and> advances k rest x k'"
    using s by (simp add: on_mgr_def)
qed

lemma conv_active: "converses (setActive a) s [] [] () (s\<lparr>mActive := a\<rparr>)"
  unfolding setActive_def by (rule conv_own) simp

lemma conv_mgr_exists: "ss_mgr s = Some v \<Longrightarrow> converses mgr_exists s [] [] () s"
  unfolding mgr_exists_def by (rule conv_get) (simp add: guardM_def conv_ret)

lemma conv_mgr_request:
  assumes "converses m v a x () v'" "ss_mgr s = Some v"
  shows "converses (thenM mgr_exists (thenM (setActive True) (thenM (on_mgr m) (ret True)))) s a x True
    (s\<lparr>mActive := True, ss_mgr := Some v'\<rparr>)"
proof -
  have "converses (on_mgr m) (s\<lparr>mActive := True\<rparr>) a x () (s\<lparr>mActive := True, ss_mgr := Some v'\<rparr>)"
    using conv_on_mgr [OF assms(1), of "s\<lparr>mActive := True\<rparr>"] assms(2) by simp
  then show ?thesis
    by (intro conv_silent_then [OF conv_mgr_exists [OF assms(2)]] conv_silent_then [OF conv_active] conv_last_then [OF _ conv_ret])
qed

lemma serve_run:
  assumes "converses sv_runTestHarness v a x () v'" "ss_mgr s = Some v"
  shows "converses (run_once P c X) s (req ''runTestHarness'' @ a) x True (s\<lparr>mActive := True, ss_mgr := Some v'\<rparr>)"
  by (rule conv_serve) (use conv_mgr_request [OF assms] in \<open>simp_all add: dispatch_def\<close>)

lemma serve_wait:
  assumes "converses (sv_waitForTestHarness X) v a x () v'" "ss_mgr s = Some v"
  shows "converses (run_once P c X) s (req ''waitForTestHarness'' @ a) x True (s\<lparr>mActive := True, ss_mgr := Some v'\<rparr>)"
  by (rule conv_serve) (use conv_mgr_request [OF assms] in \<open>simp_all add: dispatch_def\<close>)

lemma serve_query:
  assumes "converses sv_queryTransactionStatus v a x () v" "ss_mgr s = Some v"
  shows "converses (run_once P c X) s (req ''queryTransactionStatus'' @ a) x True s"
proof (rule conv_serve)
  have "s\<lparr>ss_mgr := Some v\<rparr> = s" using assms(2) by (cases s) simp
  then have "converses (on_mgr sv_queryTransactionStatus) s a x () s"
    using conv_on_mgr [OF assms] by simp
  then have "converses (thenM mgr_exists (thenM (on_mgr sv_queryTransactionStatus) (ret True))) s a x True s"
    by (intro conv_silent_then [OF conv_mgr_exists [OF assms(2)]] conv_last_then [OF _ conv_ret])
  then show "converses (dispatch P c X (ascii ''queryTransactionStatus'')) s a x True s" by (simp add: dispatch_def)
qed simp

section \<open>Creation\<close>

definition create_bytes :: "u8 list \<Rightarrow> u32 \<Rightarrow> u8 list list \<Rightarrow> bool list \<Rightarrow> u8 list list \<Rightarrow> u8 list \<times> u8 list \<Rightarrow> u8 list" where
  "create_bytes device device_index graph_names graph_started pl_kernel_names xclbin =
     enc_str device @ word_bytes device_index @ str_codec.enc_each graph_names @ bool_codec.enc_each graph_started @
     str_codec.enc_each pl_kernel_names @ enc_path xclbin"

definition setup_bytes :: "u32 \<Rightarrow> u32 \<Rightarrow> u32 \<Rightarrow> u32 \<Rightarrow> u8 list" where
  "setup_bytes num_channels word_size depth memWidth =
     enc_bool True @ word_bytes num_channels @ word_bytes word_size @ word_bytes depth @ word_bytes memWidth @
     word_bytes memorySizeMax"

definition create_ok :: "u8 list \<Rightarrow> u8 list list \<Rightarrow> bool list \<Rightarrow> u8 list list \<Rightarrow> u8 list \<times> u8 list \<Rightarrow> bool" where
  "create_ok device graph_names graph_started pl_kernel_names xclbin \<longleftrightarrow> short 63 device \<and> str_codec.ok_each graph_names \<and>
     bool_codec.ok_each graph_started \<and> str_codec.ok_each pl_kernel_names \<and> path_ok xclbin"

lemma conv_verify:
  assumes "supported (sv_device v)" "short 63 (sv_device v)"
  shows "converses verifyDevice v (enc_str (sv_device v))
    (enc_bool True @ word_bytes (sv_num_channels v) @ word_bytes (sv_word_size v) @ word_bytes (sv_depth v) @ word_bytes (sv_memWidth v)) () v"
proof -
  have d: "converses (fetch recvData_str) v (enc_str (sv_device v)) [] (sv_device v) v"
    using assms(2) by (intro conv_fetch [OF talks_recv_str]) (simp add: short_def)
  show ?thesis
    unfolding verifyDevice_def
    by (rule conv_guard conv_get conv_recv_last [OF d] conv_send_then [OF conv_send_bool] conv_send_then [OF conv_send_word]
        conv_send_word | simp add: assms)+
qed

lemma conv_init:
  assumes ok: "create_ok device graph_names started names xclbin"
  shows "converses (sv_init True) v (word_bytes (device_index :: u32) @ str_codec.enc_each graph_names @ bool_codec.enc_each started @
      str_codec.enc_each names @ enc_path xclbin) (word_bytes memorySizeMax) () (v\<lparr>sv_graph_started := started\<rparr>)"
proof -
  note c = ok [unfolded create_ok_def]
  have s: "converses (fetch recvVec_str) w (str_codec.enc_each x) [] x w" if "str_codec.ok_each x" for w :: server and x
    by (rule conv_fetch [OF str_vec_codec.recv_talks [OF that]])
  have b: "converses (fetch recvVec_bool) v (bool_codec.enc_each started) [] started v"
    using c by (intro conv_fetch [OF bool_vec_codec.recv_talks]) simp
  have p: "converses (fetch (recvData_path True)) w (enc_path xclbin) [] xclbin w" for w :: server
    using c by (intro conv_fetch [OF path_codec.recv_talks]) simp
  have o: "converses (own (modifyM (\<lambda>s. s\<lparr>sv_graph_started := started\<rparr>))) v [] [] () (v\<lparr>sv_graph_started := started\<rparr>)"
    by (rule conv_own) simp
  show ?thesis
    unfolding sv_init_def
    by (rule conv_guard conv_recv_bind [OF conv_recv_word] conv_recv_bind [OF s] conv_recv_bind [OF b] conv_silent_then [OF o]
        conv_recv_last [OF p] conv_send_word | simp add: c)+
qed

definition made :: "params \<Rightarrow> bool list \<Rightarrow> server" where
  "made P started = new_server (PARAM_DEVICE P) (PARAM_CHANNELS P) (PARAM_DEPTH P) (PARAM_WIDTH P) (PARAM_MEM_WIDTH P)
     \<lparr>sv_graph_started := started\<rparr>"

lemma serve_create:
  assumes P: "supported (PARAM_DEVICE P)" and ok: "create_ok (PARAM_DEVICE P) graph_names started names xclbin" and s: "ss_mgr s = None"
  shows "converses (run_once P True X) s
    (req ''test_harness_mgr'' @ create_bytes (PARAM_DEVICE P) device_index graph_names started names xclbin)
    (setup_bytes (PARAM_CHANNELS P) (PARAM_WIDTH P) (PARAM_DEPTH P) (PARAM_MEM_WIDTH P)) True
    (s\<lparr>mActive := True, ss_mgr := Some (made P started)\<rparr>)"
proof (rule conv_serve)
  let ?new = "new_server (PARAM_DEVICE P) (PARAM_CHANNELS P) (PARAM_DEPTH P) (PARAM_WIDTH P) (PARAM_MEM_WIDTH P)"
    and ?ins = "create_bytes (PARAM_DEVICE P) device_index graph_names started names xclbin"
    and ?outs = "setup_bytes (PARAM_CHANNELS P) (PARAM_WIDTH P) (PARAM_DEPTH P) (PARAM_MEM_WIDTH P)"
  have "converses verifyDevice ?new (enc_str (PARAM_DEVICE P)) (enc_bool True @ word_bytes (PARAM_CHANNELS P) @
      word_bytes (PARAM_WIDTH P) @ word_bytes (PARAM_DEPTH P) @ word_bytes (PARAM_MEM_WIDTH P)) () ?new"
    using conv_verify [of ?new] P ok by (simp add: new_server_def create_ok_def)
  from conv_then [OF this conv_init [OF ok] refl refl]
  have c: "converses (construct_server True) ?new ?ins ?outs () (made P started)"
    by (simp add: construct_server_def create_bytes_def setup_bytes_def made_def)
  have "converses (make_mgr P True) (s\<lparr>mActive := True\<rparr>) ?ins ?outs () (s\<lparr>mActive := True, ss_mgr := Some (made P started)\<rparr>)"
  proof (rule conversesI)
    fix k :: sock and rest
    assume k: "readable (incoming k) = ?ins @ rest" "send_room k = None" "max (2 ^ 30) (length ?ins) \<le> alloc_limit k"
    from conversesD [OF c k] obtain k' where "construct_server True (?new, k) = (Inr (), (made P started, k'))" "advances k rest ?outs k'" .
    then show "\<exists>k'. make_mgr P True (s\<lparr>mActive := True\<rparr>, k) = (Inr (), (s\<lparr>mActive := True, ss_mgr := Some (made P started)\<rparr>, k')) \<and>
        advances k rest ?outs k'"
      by (simp add: make_mgr_def)
  qed
  from conv_silent_then [OF conv_active conv_last_then [OF this conv_ret]]
  have "converses (thenM (setActive True) (thenM (make_mgr P True) (ret True))) s ?ins ?outs True
      (s\<lparr>mActive := True, ss_mgr := Some (made P started)\<rparr>)" .
  then show "converses (dispatch P True X (ascii ''test_harness_mgr'')) s ?ins ?outs True
      (s\<lparr>mActive := True, ss_mgr := Some (made P started)\<rparr>)"
    unfolding dispatch_def by (simp add: conv_get s)
qed simp

end
