(* ===== verification/Client_Talks.thy ===== *)
theory Client_Talks
  imports Client_Manager Server_Talks
begin

text \<open>
  The calls of a client as conversations, and what a packed transaction looks like before it is sent.
\<close>

section \<open>A packed transaction\<close>

text \<open>Packing leaves the vectors for the results zero, and no time limit.\<close>

definition blank :: "transaction \<Rightarrow> transaction \<Rightarrow> bool" where
  "blank t0 t \<longleftrightarrow> perf_ptr t = replicate (unat (tr_num_channels t * 4)) 0 \<and> set (from_aie_ptr t) \<subseteq> {0} \<and> mTimeOut t = 0 \<and>
     trans_id t = trans_id t0 \<and> tr_num_channels t = tr_num_channels t0"

lemma blank_reset: "blank t (reset t)"
  by (simp add: blank_def reset_def clearData_def Let_def vec_resize_def map_replicate_const)

lemma blank_checks [keeps]: "keeps (blank t0) (check_arguments args)"
  unfolding check_arguments_def check_argument_def Let_def by (intro keeps) (simp_all add: blank_def)

lemma blank_write_cfg [keeps]: "keeps (blank t0) (write_cfg i v)"
  unfolding write_cfg_def by (intro keeps) (simp add: blank_def)

lemma keeps_seqM [keeps]: "(\<And>m. m \<in> set ms \<Longrightarrow> keeps P m) \<Longrightarrow> keeps P (seqM ms)"
  by (induction ms) (auto intro: keeps)

lemma blank_write_channel [keeps]: "keeps (blank t0) (write_channel_cfg b c a off)"
  unfolding write_channel_cfg_def Let_def by (intro keeps) (auto intro: blank_write_cfg)

lemma blank_copy [keeps]: "keeps (blank t0) (copy_to_aie n bs)"
  unfolding copy_to_aie_def by (intro keeps) (simp add: blank_def)

lemma blank_offset [keeps]: "keeps (blank t0) (set_from_offset c off)"
  unfolding set_from_offset_def by (intro keeps) (simp add: blank_def)

lemma blank_func [keeps]: "keeps (blank t0) (func_inputs um)"
proof -
  have "keeps (blank t0) (func_total a acc)" for a acc unfolding func_total_def Let_def by (intro keeps)
  moreover have "keeps (blank t0) (func_place um a acc)" for a acc unfolding func_place_def Let_def by (intro keeps)
  ultimately show ?thesis
    unfolding func_inputs_def by (intro keeps) (auto simp: blank_def vec_resize_def dest: in_set_takeD)
qed

lemma blank_perf [keeps]: "keeps (blank t0) (perf_inputs um)"
proof -
  have "keeps (blank t0) (perf_place um a)" for a unfolding perf_place_def Let_def by (intro keeps) (simp add: blank_def)
  then show ?thesis
    unfolding perf_inputs_def Let_def by (intro keeps) (auto simp: blank_def vec_resize_def dest: in_set_takeD)
qed

lemma handleInputs_blank:
  assumes "handleInputs um args t = (Inr (), u)" shows "blank t u"
proof -
  have "keeps (blank t) (thenM (check_arguments args) (bindM getM (\<lambda>t. thenM (write_cfg 0 (ucast (tr_mode t)))
      (thenM (if tr_mode t = FUNC_MODE then func_inputs um else if tr_mode t = PERF_MODE then perf_inputs um else ret ())
      (modifyM (\<lambda>t. t\<lparr>status := TRANSACTION_READY\<rparr>))))))"
    by (intro keeps) (simp add: blank_def)
  from keepsD [OF this blank_reset] assms show ?thesis by (simp add: handleInputs_def)
qed

section \<open>Requests\<close>

definition cl_fresh :: "TestMode \<Rightarrow> u32 \<Rightarrow> client \<Rightarrow> transaction" where
  "cl_fresh md timeout c = test_harness_transactions (cl_trans_id c) md (cl_num_channels c) (cl_word_size c) (cl_depth c) (cl_memWidth c) timeout"

text \<open>The client once the server has accepted the packed transaction \<open>u\<close>.\<close>

definition submitted :: "transaction \<Rightarrow> client \<Rightarrow> client" where
  "submitted u c = c\<lparr>cl_trans_id := cl_trans_id c + 1, cl_next := Suc (cl_next c), cl_transactions := cl_transactions c @ [cl_next c],
     cl_heap := (cl_heap c)(cl_next c \<mapsto> u\<lparr>status := TRANSACTION_RUNNING\<rparr>),
     cl_pending := cl_pending c @ [cl_next c], cl_threads := (cl_threads c)(cl_next c \<mapsto> CL_Waiting)\<rparr>"

lemma conv_request: "length r < 2 ^ 63 \<Longrightarrow> converses (put (sendReq (ascii r))) s [] (req r) () s"
  unfolding req_def by (rule conv_put [OF talks_sendReq]) simp

lemma conv_update:
  "cl_heap c p = Some t \<Longrightarrow> converses (cl_update p f) c [] [] () (c\<lparr>cl_heap := (cl_heap c)(p \<mapsto> f t)\<rparr>)"
  by (rule conv_own) (simp add: cl_on_def)

lemma conv_deref: "cl_heap c p = Some t \<Longrightarrow> converses (own (cl_deref p)) c [] [] t c"
  by (rule conv_own) (simp add: cl_deref_def)

lemma conv_submit:
  assumes t: "cl_heap c p = Some t" and l: "short 59 (cfg_ptr t)" "short 59 (to_aie_ptr t)"
  shows "converses (cl_submit md p t) c (enc_bool True)
    (req ''runTestHarness'' @ run_bytes (getMemoryUsage t) md (trans_id t) (getTimeOut t) (cfg_ptr t) (to_aie_ptr t)
      (of_nat (length (from_aie_ptr t)))) ()
    (c\<lparr>cl_heap := (cl_heap c)(p \<mapsto> t\<lparr>status := TRANSACTION_RUNNING\<rparr>), cl_pending := cl_pending c @ [p],
       cl_threads := (cl_threads c)(p \<mapsto> CL_Waiting)\<rparr>)"
proof -
  let ?c = "c\<lparr>cl_heap := (cl_heap c)(p \<mapsto> setStatus TRANSACTION_RUNNING t)\<rparr>"
  let ?done = "thenM (cl_update p (setStatus TRANSACTION_RUNNING))
        (own (modifyM (\<lambda>s. s\<lparr>cl_pending := cl_pending s @ [p], cl_threads := (cl_threads s)(p \<mapsto> CL_Waiting)\<rparr>)))"
  have d: "converses ?done c [] [] () (?c\<lparr>cl_pending := cl_pending c @ [p], cl_threads := (cl_threads c)(p \<mapsto> CL_Waiting)\<rparr>)"
    by (rule conv_silent_then [OF conv_update [OF t]], rule conv_own) simp
  have s: "converses (thenM (put (sendData_word md)) (thenM (put (sendData_word (trans_id t)))
        (thenM (put (sendData_word (getTimeOut t))) (thenM (put (sendVec_word (cfg_ptr t)))
        (thenM (put (sendVec_word (to_aie_ptr t))) (thenM (put (sendData_word (of_nat (length (from_aie_ptr t)) :: u64))) ?done)))))) c []
      (word_bytes md @ word_bytes (trans_id t) @ word_bytes (getTimeOut t) @ enc_vec (cfg_ptr t) @ enc_vec (to_aie_ptr t) @
        word_bytes (of_nat (length (from_aie_ptr t)) :: u64)) ()
      (?c\<lparr>cl_pending := cl_pending c @ [p], cl_threads := (cl_threads c)(p \<mapsto> CL_Waiting)\<rparr>)"
    by (rule conv_send_then [OF conv_send_word] conv_send_then [OF conv_send_vec] conv_last_then [OF conv_send_word d] | simp add: l)+
  show ?thesis
    unfolding cl_submit_def run_bytes_def
    by (rule conv_send_then [OF conv_request] conv_send_then [OF conv_send_word] conv_recv_last [OF conv_recv_bool]
        | use s in \<open>simp add: setStatus_def\<close>)+
qed

lemma conv_client_run:
  assumes md: "md = FUNC_MODE \<or> md = PERF_MODE"
    and u: "handleInputs (cl_mem c) args (cl_fresh md timeout c) = (Inr (), u)" "status u = TRANSACTION_READY"
    and m: "getMemoryUsage u \<le> cl_max_memory_usage c" and l: "short 59 (cfg_ptr u)" "short 59 (to_aie_ptr u)"
  shows "converses (cl_runTestHarness md args timeout) c (enc_bool True)
    (req ''runTestHarness'' @ run_bytes (getMemoryUsage u) md (trans_id u) (getTimeOut u) (cfg_ptr u) (to_aie_ptr u)
      (of_nat (length (from_aie_ptr u)))) () (submitted u c)"
proof -
  let ?p = "cl_next c"
  let ?c1 = "c\<lparr>cl_trans_id := cl_trans_id c + 1, cl_next := Suc ?p, cl_transactions := cl_transactions c @ [?p],
       cl_heap := (cl_heap c)(?p \<mapsto> cl_fresh md timeout c)\<rparr>"
  let ?c2 = "?c1\<lparr>cl_heap := (cl_heap c)(?p \<mapsto> u)\<rparr>"
  have 1: "converses (own (cl_new_transaction md timeout)) c [] [] ?p ?c1"
    by (rule conv_own) (simp add: cl_new_transaction_def cl_fresh_def Let_def)
  have 2: "converses (own (cl_on ?p (\<lambda>um. handleInputs um args))) ?c1 [] [] () ?c2"
    by (rule conv_own) (simp add: cl_on_def u(1))
  have s: "converses (cl_submit md ?p u) ?c2 (enc_bool True)
      (req ''runTestHarness'' @ run_bytes (getMemoryUsage u) md (trans_id u) (getTimeOut u) (cfg_ptr u) (to_aie_ptr u)
        (of_nat (length (from_aie_ptr u)))) () (submitted u c)"
    using conv_submit [of ?c2 ?p u md] l by (simp add: submitted_def)
  have md': "\<not> (md \<noteq> FUNC_MODE \<and> md \<noteq> PERF_MODE)" using md by blast
  have m': "\<not> getMemoryUsage u > cl_max_memory_usage ?c2" using m by simp
  show ?thesis
    unfolding cl_runTestHarness_def if_not_P [OF md']
    by (rule conv_guard conv_silent_bind [OF 1] conv_silent_then [OF 2] conv_silent_bind [OF conv_deref] conv_get s
        | simp only: getStatus_def u(2) not_False_eq_True if_False if_not_P [OF m'] prod.case simp_thms | simp)+
qed

lemma status_of_code [simp]: "status_of (status_code st) = Some st"
  by (cases st) (simp_all add: status_of_def status_code_def)

lemma status_code_inj [simp]: "status_code st = status_code st' \<longleftrightarrow> st = st'"
  by (metis option.inject status_of_code)

lemma conv_client_query:
  assumes "cl_heap c p = Some t"
  shows "converses (cl_queryTransactionStatus p) c (word_bytes (status_code st)) (req ''queryTransactionStatus'' @ word_bytes (trans_id t))
    (st = TRANSACTION_DONE \<or> st = TRANSACTION_TIMEOUT) c"
  unfolding cl_queryTransactionStatus_def
  by (rule conv_silent_bind [OF conv_deref [OF assms]] conv_send_then [OF conv_request] conv_send_then [OF conv_send_word, where y = "[]", simplified]
      conv_recv_last [OF conv_recv_word] | simp add: conv_ret)+

end
