(* ===== verification/Remote_Calls.thy ===== *)
theory Remote_Calls
  imports Client_Talks
begin

text \<open>
  A call of the client answered by the session: both keep their state, and each reads the bytes the other sends. How the
  bytes of the two directions interleave in time is not part of a conversation.
\<close>

section \<open>A session that answers\<close>

inductive serves :: "params \<Rightarrow> xrt \<Rightarrow> session \<Rightarrow> u8 list \<Rightarrow> u8 list \<Rightarrow> session \<Rightarrow> bool" for P X where
  idle: "serves P X s [] [] s"
| more: "converses (run_once P True X) s a x True s1 \<Longrightarrow> serves P X s1 b y s2 \<Longrightarrow> serves P X s (a @ b) (x @ y) s2"

definition calls :: "params \<Rightarrow> xrt \<Rightarrow> 'v cprog \<Rightarrow> client \<times> session \<Rightarrow> 'v \<Rightarrow> client \<times> session \<Rightarrow> bool" where
  "calls P X m w v w' \<longleftrightarrow> (\<exists>answers requests.
     converses m (fst w) answers requests v (fst w') \<and> serves P X (snd w) requests answers (snd w'))"

lemma serves_one: "converses (run_once P True X) s a x True s1 \<Longrightarrow> serves P X s a x s1"
  using serves.more [OF _ serves.idle] by fastforce

lemma serves_two:
  "converses (run_once P True X) s a x True s1 \<Longrightarrow> converses (run_once P True X) s1 b y True s2 \<Longrightarrow> serves P X s (a @ b) (x @ y) s2"
  by (rule serves.more [OF _ serves_one])

lemma callsI:
  "converses m c ins outs v c' \<Longrightarrow> serves P X s outs ins s' \<Longrightarrow> calls P X m (c, s) v (c', s')"
  by (auto simp: calls_def)

section \<open>The thread of a transaction\<close>

lemma conv_on_mem:
  assumes "cl_heap c p = Some t" "handleOutputs (t, cl_mem c) = (Inr (), (v, um))"
  shows "converses (own (cl_on_mem p handleOutputs)) c [] [] () (c\<lparr>cl_heap := (cl_heap c)(p \<mapsto> v), cl_mem := um\<rparr>)"
  by (rule conv_own) (simp add: cl_on_mem_def assms)

definition collect_bytes :: "transaction \<Rightarrow> u8 list" where
  "collect_bytes t = req ''waitForTestHarness'' @ word_bytes (trans_id t) @ word_bytes (getTimeOut t)"

definition result_bytes :: "TransactionStatus \<Rightarrow> u8 list \<Rightarrow> u64 list \<Rightarrow> u8 list" where
  "result_bytes st img perf = word_bytes (status_code st) @ enc_vec img @ enc_vec perf"

lemma conv_collect:
  assumes t: "cl_heap c p = Some t" and l: "short 59 img" "short 59 perf"
    and h: "handleOutputs (t\<lparr>status := st, from_aie_ptr := img, perf_ptr := perf\<rparr>, cl_mem c) = (Inr (), (v, um))"
  shows "converses (cl_collect p) c (result_bytes st img perf) (collect_bytes t) ()
    (c\<lparr>cl_heap := (cl_heap c)(p \<mapsto> v), cl_mem := um\<rparr>)"
proof -
  let ?c = "\<lambda>t. c\<lparr>cl_heap := (cl_heap c)(p \<mapsto> t)\<rparr>"
  have u: "converses (cl_update p f) (?c t') [] [] () (?c (f t'))" for f t'
    using conv_update [of "?c t'" p t' f] by simp
  have u0: "converses (cl_update p (setStatus st)) c [] [] () (?c (t\<lparr>status := st\<rparr>))"
    using conv_update [OF t, of "setStatus st"] by (simp add: setStatus_def)
  have o: "converses (own (cl_on_mem p handleOutputs)) (?c (t\<lparr>status := st, from_aie_ptr := img, perf_ptr := perf\<rparr>)) [] [] ()
      (c\<lparr>cl_heap := (cl_heap c)(p \<mapsto> v), cl_mem := um\<rparr>)"
    using conv_on_mem [of "?c (t\<lparr>status := st, from_aie_ptr := img, perf_ptr := perf\<rparr>)" p _ v um] h by simp
  have ub: "converses (ubM (status_of (status_code st))) c [] [] st c"
    by (simp add: conv_ret)
  have 3: "converses (bindM (fetch recvVec_word) (\<lambda>w. thenM (cl_update p (\<lambda>t. t\<lparr>perf_ptr := w\<rparr>)) (own (cl_on_mem p handleOutputs))))
      (?c (t\<lparr>status := st, from_aie_ptr := img\<rparr>)) (enc_vec perf) [] () (c\<lparr>cl_heap := (cl_heap c)(p \<mapsto> v), cl_mem := um\<rparr>)"
    by (rule conv_recv_last [OF conv_recv_vec]; (rule conv_silent_then [OF u])?) (use l o in simp_all)
  have 2: "converses (bindM (fetch recvVec_word) (\<lambda>w. thenM (cl_update p (\<lambda>t. t\<lparr>from_aie_ptr := w\<rparr>)) (bindM (fetch recvVec_word)
      (\<lambda>w. thenM (cl_update p (\<lambda>t. t\<lparr>perf_ptr := w\<rparr>)) (own (cl_on_mem p handleOutputs))))))
      (?c (t\<lparr>status := st\<rparr>)) (enc_vec img @ enc_vec perf) [] () (c\<lparr>cl_heap := (cl_heap c)(p \<mapsto> v), cl_mem := um\<rparr>)"
    by (rule conv_recv_bind [OF conv_recv_vec]; (rule conv_silent_then [OF u])?) (use l 3 in simp_all)
  have 1: "converses (bindM (fetch recvData_word) (\<lambda>status. bindM (ubM (status_of status)) (\<lambda>st. thenM (cl_update p (setStatus st))
     (bindM (fetch recvVec_word) (\<lambda>w. thenM (cl_update p (\<lambda>t. t\<lparr>from_aie_ptr := w\<rparr>)) (bindM (fetch recvVec_word)
      (\<lambda>w. thenM (cl_update p (\<lambda>t. t\<lparr>perf_ptr := w\<rparr>)) (own (cl_on_mem p handleOutputs))))))))) c
      (result_bytes st img perf) [] () (c\<lparr>cl_heap := (cl_heap c)(p \<mapsto> v), cl_mem := um\<rparr>)"
    unfolding result_bytes_def
    by (rule conv_recv_bind [OF conv_recv_word] conv_silent_bind [OF ub] conv_silent_then [OF u0] 2 | simp)+
  show ?thesis
    unfolding cl_collect_def collect_bytes_def
    by (rule conv_silent_bind [OF conv_deref [OF t]] conv_send_then [OF conv_request] conv_send_then [OF conv_send_word]
        conv_send_then [OF conv_send_word, where y = "[]", simplified] 1 | simp)+
qed

text \<open>A round of the thread while its transaction has no time limit.\<close>

definition query_bytes :: "transaction \<Rightarrow> u8 list" where
  "query_bytes t = req ''queryTransactionStatus'' @ word_bytes (trans_id t)"

lemma conv_thread_ends:
  assumes t: "cl_heap c p = Some t" "getTimeOut t = 0" and l: "short 59 img" "short 59 perf"
    and h: "handleOutputs (t\<lparr>status := TRANSACTION_DONE, from_aie_ptr := img, perf_ptr := perf\<rparr>, cl_mem c) = (Inr (), (v, um))"
  shows "converses (cl_thread_round p) c (word_bytes (status_code TRANSACTION_DONE) @ result_bytes TRANSACTION_DONE img perf)
    (query_bytes t @ collect_bytes t) ()
    (c\<lparr>cl_heap := (cl_heap c)(p \<mapsto> v), cl_mem := um, cl_threads := (cl_threads c)(p \<mapsto> CL_Ended)\<rparr>)"
proof -
  let ?c = "c\<lparr>cl_heap := (cl_heap c)(p \<mapsto> v), cl_mem := um\<rparr>"
  have q: "converses (cl_queryTransactionStatus p) c (word_bytes (status_code TRANSACTION_DONE)) (query_bytes t) True c"
    using conv_client_query [OF t(1), of TRANSACTION_DONE] by (simp add: query_bytes_def)
  have "converses (thenM (cl_collect p) (ret True)) c (result_bytes TRANSACTION_DONE img perf) (collect_bytes t) True ?c"
    by (rule conv_last_then [OF conv_collect [OF t(1) l h] conv_ret])
  then have "converses (bindM (cl_queryTransactionStatus p) (\<lambda>over. if over then thenM (cl_collect p) (ret True) else ret False)) c
      (word_bytes (status_code TRANSACTION_DONE) @ result_bytes TRANSACTION_DONE img perf) (query_bytes t @ collect_bytes t) True ?c"
    by (intro conv_bind [OF q _ refl refl]) simp
  then have "converses (cl_round p) c (word_bytes (status_code TRANSACTION_DONE) @ result_bytes TRANSACTION_DONE img perf)
      (query_bytes t @ collect_bytes t) True ?c"
    unfolding cl_round_def by (intro conv_catch conv_silent_bind [OF conv_deref [OF t(1)]]) (simp add: t(2))
  then show ?thesis
    unfolding cl_thread_round_def by (rule conv_last_bind) (simp add: conv_own)
qed

lemma conv_thread_polls:
  assumes t: "cl_heap c p = Some t" "getTimeOut t = 0" and st: "st \<noteq> TRANSACTION_DONE" "st \<noteq> TRANSACTION_TIMEOUT"
  shows "converses (cl_thread_round p) c (word_bytes (status_code st)) (query_bytes t) () c"
proof -
  have q: "converses (cl_queryTransactionStatus p) c (word_bytes (status_code st)) (query_bytes t) False c"
    using conv_client_query [OF t(1), of st] st by (simp add: query_bytes_def)
  have "converses (bindM (cl_queryTransactionStatus p) (\<lambda>over. if over then thenM (cl_collect p) (ret True) else ret False)) c
      (word_bytes (status_code st)) (query_bytes t) False c"
    by (rule conv_last_bind [OF q]) (simp add: conv_ret)
  then have "converses (cl_round p) c (word_bytes (status_code st)) (query_bytes t) False c"
    unfolding cl_round_def by (intro conv_catch conv_silent_bind [OF conv_deref [OF t(1)]]) (simp add: t(2))
  then show ?thesis
    unfolding cl_thread_round_def by (rule conv_last_bind) (simp add: conv_ret)
qed

section \<open>Creation\<close>

text \<open>The client after \<open>createTestHarness\<close>, when its server has the parameters \<open>P\<close>.\<close>

definition set_up :: "params \<Rightarrow> u8 list list \<Rightarrow> client \<Rightarrow> client" where
  "set_up P graph_name c = c\<lparr>cl_num_channels := PARAM_CHANNELS P, cl_depth := PARAM_DEPTH P, cl_word_size := PARAM_WIDTH P,
     cl_memWidth := PARAM_MEM_WIDTH P, cl_graph_started := replicate (length graph_name) False, cl_max_memory_usage := memorySizeMax\<rparr>"

lemma conv_send_design:
  assumes d: "cl_graph_started c = []" and ok: "create_ok (cl_device c) graph_name (replicate (length graph_name) False)
      [cl_device c @ ascii ''_test_harness''] xclbin"
  shows "converses (cl_send_design device_index (Some xclbin) graph_name) c (word_bytes memorySizeMax)
    (word_bytes device_index @ str_codec.enc_each graph_name @ bool_codec.enc_each (replicate (length graph_name) False) @
     str_codec.enc_each [cl_device c @ ascii ''_test_harness''] @ enc_path xclbin) ()
    (c\<lparr>cl_graph_started := replicate (length graph_name) False, cl_max_memory_usage := memorySizeMax\<rparr>)"
proof -
  note o = ok [unfolded create_ok_def]
  let ?g = "replicate (length graph_name) False" and ?n = "[cl_device c @ ascii ''_test_harness'']"
  let ?c = "c\<lparr>cl_graph_started := ?g\<rparr>"
  have s: "converses (put (sendVec_str x)) w [] (str_codec.enc_each x) () w" if "str_codec.ok_each x" for w :: client and x
    by (rule conv_put [OF str_vec_codec.send_talks [OF that]])
  have b: "converses (put (sendVec_bool ?g)) ?c [] (bool_codec.enc_each ?g) () ?c"
    using o by (intro conv_put [OF bool_vec_codec.send_talks]) simp
  have p: "converses (put (sendData_path (Some xclbin))) w [] (enc_path xclbin) () w" for w :: client
    using o by (intro conv_put [OF path_codec.send_talks]) simp
  have g: "converses (own (modifyM (\<lambda>s. s\<lparr>cl_graph_started := ?g\<rparr>))) c [] [] () ?c" by (rule conv_own) simp
  have m: "converses (bindM (fetch recvData_word) (\<lambda>max_memory. own (modifyM (\<lambda>s. s\<lparr>cl_max_memory_usage := max_memory\<rparr>)))) ?c
      (word_bytes memorySizeMax) [] () (?c\<lparr>cl_max_memory_usage := memorySizeMax\<rparr>)"
    by (rule conv_recv_last [OF conv_recv_word]) (simp_all add: conv_own)
  show ?thesis
    unfolding cl_send_design_def
    by (rule conv_get conv_send_then [OF conv_send_word] conv_send_then [OF s] conv_silent_then [OF g] conv_send_then [OF b]
        conv_send_then [OF p, where y = "[]", simplified] m | use o in \<open>simp add: d\<close>)+
qed

lemma conv_create:
  assumes d: "cl_device c = PARAM_DEVICE P" "cl_graph_started c = []"
    and ok: "create_ok (PARAM_DEVICE P) graph_name (replicate (length graph_name) False) [PARAM_DEVICE P @ ascii ''_test_harness''] xclbin"
  shows "converses (createTestHarness device_index (Some xclbin) graph_name) c
    (setup_bytes (PARAM_CHANNELS P) (PARAM_WIDTH P) (PARAM_DEPTH P) (PARAM_MEM_WIDTH P))
    (req ''test_harness_mgr'' @ create_bytes (PARAM_DEVICE P) device_index graph_name (replicate (length graph_name) False)
      [PARAM_DEVICE P @ ascii ''_test_harness''] xclbin) () (set_up P graph_name c)"
proof -
  let ?c = "c\<lparr>cl_num_channels := PARAM_CHANNELS P, cl_depth := PARAM_DEPTH P, cl_word_size := PARAM_WIDTH P, cl_memWidth := PARAM_MEM_WIDTH P\<rparr>"
  have dev: "short 63 (cl_device c)" using ok d by (simp add: create_ok_def)
  have n: "converses (put (sendData_str (cl_device c))) c [] (enc_str (cl_device c)) () c"
    using dev by (intro conv_put [OF talks_send_str]) (simp add: short_def)
  have s: "converses (own (cl_setup (PARAM_CHANNELS P) (PARAM_DEPTH P) (PARAM_WIDTH P) (PARAM_MEM_WIDTH P))) c [] [] () ?c"
    by (rule conv_own) (simp add: cl_setup_def)
  have e: "converses (cl_send_design device_index (Some xclbin) graph_name) ?c (word_bytes memorySizeMax)
      (word_bytes device_index @ str_codec.enc_each graph_name @ bool_codec.enc_each (replicate (length graph_name) False) @
       str_codec.enc_each [cl_device c @ ascii ''_test_harness''] @ enc_path xclbin) () (set_up P graph_name c)"
  proof -
    have "create_ok (cl_device ?c) graph_name (replicate (length graph_name) False) [cl_device ?c @ ascii ''_test_harness''] xclbin"
      using ok d(1) by simp
    from conv_send_design [where device_index = device_index, OF _ this] d(2) show ?thesis by simp (simp add: set_up_def)
  qed
  have r: "converses (put (sendReq (ascii ''test_harness_mgr''))) c [] (req ''test_harness_mgr'') () c" by (rule conv_request) simp
  have b: "converses (thenM (put (sendData_str (cl_device c)))
       (bindM (fetch recvData_bool) (\<lambda>res.
        if \<not> res then bindM (fetch recvData_str) (\<lambda>server_req_device. throw_harness TEST_HARNESS_CREATION_FAILURE)
        else bindM (fetch recvData_word) (\<lambda>serverN. bindM (fetch recvData_word) (\<lambda>serverW.
          bindM (fetch recvData_word) (\<lambda>serverD. bindM (fetch recvData_word) (\<lambda>serverM.
          thenM (own (cl_setup serverN serverD serverW serverM)) (cl_send_design device_index (Some xclbin) graph_name)))))))) c
      (setup_bytes (PARAM_CHANNELS P) (PARAM_WIDTH P) (PARAM_DEPTH P) (PARAM_MEM_WIDTH P))
      (create_bytes (PARAM_DEVICE P) device_index graph_name (replicate (length graph_name) False)
        [PARAM_DEVICE P @ ascii ''_test_harness''] xclbin) () (set_up P graph_name c)"
    unfolding create_bytes_def setup_bytes_def d(1) [symmetric]
    by (rule conv_send_then [OF n] conv_recv_bind [OF conv_recv_bool] conv_recv_bind [OF conv_recv_word] conv_silent_then [OF s] e
        | simp only: not_True_eq_False if_False | simp)+
  show ?thesis
    unfolding createTestHarness_def
    by (intro conv_send_then [OF conv_guard [OF r]] conv_guard conv_get) (use b in simp)
qed

lemma remote_create:
  assumes c: "cl_device c = PARAM_DEVICE P" "cl_graph_started c = []" and P: "supported (PARAM_DEVICE P)" and s: "ss_mgr s = None"
    and ok: "create_ok (PARAM_DEVICE P) graph_name (replicate (length graph_name) False) [PARAM_DEVICE P @ ascii ''_test_harness''] xclbin"
  shows "calls P X (createTestHarness device_index (Some xclbin) graph_name) (c, s) ()
    (set_up P graph_name c, s\<lparr>mActive := True, ss_mgr := Some (made P (replicate (length graph_name) False))\<rparr>)"
  by (rule callsI [OF conv_create [OF c ok] serves_one [OF serve_create [OF P ok s]]])

end
