(* ===== verification/Remote_Run.thy ===== *)
theory Remote_Run
  imports Remote_Calls
begin

text \<open>
  One transaction of a client, from its submission to its results, when the server has no other: what the
  server builds from the bytes is the transaction the client packed, and what the kernel leaves in its buffers
  comes back.
\<close>

section \<open>The transaction on both sides\<close>

definition matched :: "client \<Rightarrow> server \<Rightarrow> bool" where
  "matched c v \<longleftrightarrow> cl_num_channels c = sv_num_channels v \<and> cl_max_memory_usage c = memorySizeMax \<and>
     (\<forall>tid \<in> dom (sv_id2trans v). tid < cl_trans_id c) \<and> sv_inv v \<and> sv_transactions v = []"

definition trans_bytes :: "transaction \<Rightarrow> nat" where
  "trans_bytes u = 8 * length (cfg_ptr u) + 8 * length (perf_ptr u) + length (to_aie_ptr u) + length (from_aie_ptr u)"

definition packs :: "TestMode \<Rightarrow> test_harness_args list \<Rightarrow> u32 \<Rightarrow> client \<Rightarrow> transaction \<Rightarrow> bool" where
  "packs md args timeout c u \<longleftrightarrow> (md = FUNC_MODE \<or> md = PERF_MODE) \<and>
     handleInputs (cl_mem c) args (cl_fresh md timeout c) = (Inr (), u) \<and> status u = TRANSACTION_READY \<and> trans_bytes u \<le> 2 ^ 30"

text \<open>The transaction of the server that belongs to the packed transaction \<open>u\<close> of the client.\<close>

definition sent :: "TestMode \<Rightarrow> transaction \<Rightarrow> server \<Rightarrow> transaction" where
  "sent md u v = received_transaction v (trans_id u) md 0 (cfg_ptr u) (to_aie_ptr u) (of_nat (length (from_aie_ptr u)))"

lemma packs_usage:
  assumes "packs md args timeout c u" shows "unat (getMemoryUsage u) = trans_bytes u" "getMemoryUsage u \<le> memorySizeMax"
proof -
  have b: "trans_bytes u \<le> 2 ^ 30" using assms by (simp add: packs_def)
  have 1: "getMemoryUsage u = of_nat (trans_bytes u)" by (simp add: getMemoryUsage_def trans_bytes_def mult.commute)
  show 2: "unat (getMemoryUsage u) = trans_bytes u" unfolding 1 using b by (intro unat_of_nat_small) simp
  show "getMemoryUsage u \<le> memorySizeMax" using b unfolding word_le_nat_alt 2 by (simp add: memorySizeMax_def)
qed

lemma packs_short:
  assumes "packs md args timeout c u"
  shows "short 59 (cfg_ptr u)" "short 59 (to_aie_ptr u)" "short 59 (from_aie_ptr u)" "short 59 (perf_ptr u)"
    "unat (of_nat (length (from_aie_ptr u)) :: u64) = length (from_aie_ptr u)"
  using assms by (auto simp: packs_def trans_bytes_def short_def intro: unat_of_nat_small)

lemma zeros: "set xs \<subseteq> {0} \<Longrightarrow> xs = replicate (length xs) 0"
  by (simp add: list_eq_iff_nth_eq subset_iff in_set_conv_nth) fastforce

lemma packs_blank: "packs md args timeout c u \<Longrightarrow> blank (cl_fresh md timeout c) u"
  by (auto simp: packs_def intro: handleInputs_blank)

lemma fresh_fields:
  "trans_id (cl_fresh md timeout c) = cl_trans_id c" "tr_num_channels (cl_fresh md timeout c) = cl_num_channels c"
  by (simp_all add: cl_fresh_def test_harness_transactions_def reset_def clearData_def Let_def)

lemma packs_fields:
  assumes "packs md args timeout c u"
  shows "trans_id u = cl_trans_id c" "getTimeOut u = 0" "tr_num_channels u = cl_num_channels c"
  using packs_blank [OF assms] by (simp_all add: blank_def fresh_fields getTimeOut_def)

lemma sent_same:
  assumes p: "packs md args timeout c u" and m: "matched c v"
  shows "cfg_ptr (sent md u v) = cfg_ptr u" "perf_ptr (sent md u v) = perf_ptr u" "to_aie_ptr (sent md u v) = to_aie_ptr u"
    "from_aie_ptr (sent md u v) = from_aie_ptr u" "trans_id (sent md u v) = trans_id u" "mTimeOut (sent md u v) = 0"
    "status (sent md u v) = TRANSACTION_READY"
proof -
  have b: "perf_ptr u = replicate (unat (sv_num_channels v * 4)) 0" "set (from_aie_ptr u) \<subseteq> {0}"
    using packs_blank [OF p] m by (simp_all add: blank_def fresh_fields matched_def)
  show "from_aie_ptr (sent md u v) = from_aie_ptr u"
    using zeros [OF b(2)] by (simp add: sent_def received_transaction_def vec_resize_def packs_short(5) [OF p])
  show "perf_ptr (sent md u v) = perf_ptr u"
    by (simp add: b(1) sent_def received_transaction_def test_harness_transactions_def reset_def clearData_def Let_def
        vec_resize_def map_replicate_const)
qed (simp_all add: sent_def received_transaction_def test_harness_transactions_def reset_def clearData_def Let_def)

lemma sent_usage: "packs md args timeout c u \<Longrightarrow> matched c v \<Longrightarrow> getMemoryUsage (sent md u v) = getMemoryUsage u"
  by (simp add: getMemoryUsage_def sent_same)

section \<open>Submission\<close>

lemma idle_memory: "sv_inv v \<Longrightarrow> sv_transactions v = [] \<Longrightarrow> sv_memorySize v = 0"
  using sv_invD(8) [of v] by (simp add: usage_def unat_eq_0)

lemma matched_new: "matched c v \<Longrightarrow> sv_id2trans v (cl_trans_id c) = None"
  unfolding matched_def by (meson domIff less_irrefl)

lemma sent_admitted:
  assumes p: "packs md args timeout c u" and m: "matched c v"
  shows "sv_inv (admitted (sent md u v) v)"
proof (rule inv_admitted)
  show "sv_id2trans v (trans_id (sent md u v)) = None"
    using matched_new [OF m] by (simp add: sent_same [OF p m] packs_fields [OF p])
  show "sv_memorySize v + getMemoryUsage (sent md u v) \<le> memorySizeMax"
    using m packs_usage(2) [OF p] by (simp add: sent_usage [OF p m] matched_def idle_memory)
  show "unat (getMemoryUsage (sent md u v)) < 2 ^ 63"
    using p packs_usage(1) [OF p] by (simp add: sent_usage [OF p m] packs_def)
qed (use m sent_same [OF p m] in \<open>simp_all add: matched_def\<close>)

lemma serve_submit:
  assumes p: "packs md args timeout c u" and m: "matched c v" and s: "ss_mgr s = Some v"
  shows "converses (run_once P g X) s (req ''runTestHarness'' @ run_bytes (getMemoryUsage u) md (trans_id u) 0 (cfg_ptr u) (to_aie_ptr u)
      (of_nat (length (from_aie_ptr u)))) (enc_bool True) True
    (s\<lparr>mActive := True, ss_mgr := Some (admitted (sent md u v) v)\<rparr>)"
proof (rule serve_run [OF _ s])
  have md: "md = FUNC_MODE \<or> md = PERF_MODE" using p by (simp add: packs_def)
  have n: "(of_nat (length (from_aie_ptr u)) :: u64) \<le> memorySizeMax"
    using p packs_short(5) [OF p] by (simp add: word_le_nat_alt memorySizeMax_def packs_def trans_bytes_def)
  show "converses sv_runTestHarness v (run_bytes (getMemoryUsage u) md (trans_id u) 0 (cfg_ptr u) (to_aie_ptr u) (of_nat (length (from_aie_ptr u))))
      (enc_bool True) () (admitted (sent md u v) v)"
    unfolding sent_def
  proof (rule conv_run [OF _ md _ _ packs_short(1,2) [OF p] n])
    show "sv_id2trans v (trans_id u) = None" using matched_new [OF m] by (simp add: packs_fields [OF p])
    show "getMemoryUsage (received_transaction v (trans_id u) md 0 (cfg_ptr u) (to_aie_ptr u) (of_nat (length (from_aie_ptr u)))) = getMemoryUsage u"
      using sent_usage [OF p m] by (simp add: sent_def)
    show "sv_memorySize v + getMemoryUsage u \<le> memorySizeMax"
      using m packs_usage(2) [OF p] by (simp add: matched_def idle_memory)
  qed
qed

lemma remote_submit:
  assumes p: "packs md args timeout c u" and m: "matched c v" and s: "ss_mgr s = Some v"
  shows "calls P X (cl_runTestHarness md args timeout) (c, s) ()
    (submitted u c, s\<lparr>mActive := True, ss_mgr := Some (admitted (sent md u v) v)\<rparr>)"
proof -
  have md: "md = FUNC_MODE \<or> md = PERF_MODE" using p by (simp add: packs_def)
  have u: "handleInputs (cl_mem c) args (cl_fresh md timeout c) = (Inr (), u)" "status u = TRANSACTION_READY"
    "getMemoryUsage u \<le> cl_max_memory_usage c"
    using p m packs_usage(2) [OF p] by (simp_all add: packs_def matched_def)
  from callsI [OF conv_client_run [OF md u packs_short(1,2) [OF p], unfolded packs_fields(2) [OF p]] serves_one [OF serve_submit [OF p m s]]]
  show ?thesis .
qed

section \<open>The thread of the server\<close>

text \<open>The server after its thread has started the kernel on its only transaction \<open>w\<close>, and after the kernel has finished.\<close>

definition launched :: "transaction \<Rightarrow> server \<Rightarrow> server" where
  "launched w v = begun (next_trans (sv_host v)) w (admitted w v)"

definition completed :: "xrt \<Rightarrow> transaction \<Rightarrow> server \<Rightarrow> server" where
  "completed X w v = ended X (next_trans (sv_host v)) (w\<lparr>status := TRANSACTION_RUNNING\<rparr>) (launched w v)"

definition sv_last :: "server \<Rightarrow> nat" where
  "sv_last v = length (pl_k_r_hdl (xm (sv_host v))) - 1"

text \<open>The transaction with the results of run \<open>i\<close>.\<close>

definition answered :: "xrt \<Rightarrow> nat \<Rightarrow> transaction \<Rightarrow> transaction" where
  "answered X i w = w\<lparr>perf_ptr := device_perf X i, from_aie_ptr := device_from_aie X i, status := TRANSACTION_DONE\<rparr>"

lemma launched_facts:
  assumes "sv_transactions v = []"
  shows "sv_transactions (launched w v) = [next_trans (sv_host v)]" "sv_pl_threads (launched w v) (next_trans (sv_host v)) = Some PL_Running"
    "heap (sv_host (launched w v)) (next_trans (sv_host v)) = Some (w\<lparr>status := TRANSACTION_RUNNING\<rparr>)"
    "pl_k_r_hdl (xm (sv_host (launched w v))) = pl_k_r_hdl (xm (sv_host v)) @ [run_of (next_trans (sv_host v)) w]"
    "sv_last (launched w v) = length (pl_k_r_hdl (xm (sv_host v)))"
  using assms by (simp_all add: launched_def begun_def admitted_def Let_def sv_last_def)

lemma due_launched:
  assumes "sv_transactions v = []"
  shows "due_runs (launched w v) = pl_k_r_hdl (xm (sv_host v)) @ [run_of (next_trans (sv_host v)) w]"
  by (simp add: due_runs_def launched_facts [OF assms])

lemma launched_inv:
  assumes "sv_inv (admitted w v)" "sv_transactions v = []"
  shows "sv_inv (launched w v)"
  unfolding launched_def by (rule inv_begun [OF assms(1)]) (use assms(2) in \<open>simp_all add: admitted_def Let_def\<close>)

lemma server_begins:
  assumes "sv_inv (admitted w v)" "sv_transactions v = []"
  shows "pl_step X (admitted w v) (launched w v)"
proof (rule pl_step.start)
  show "sv_transactions (admitted w v) = next_trans (sv_host v) # []" using assms(2) by (simp add: admitted_def Let_def)
  show "sv_pl_threads (admitted w v) (next_trans (sv_host v)) = Some PL_Waiting" by (simp add: admitted_def Let_def)
  have h: "heap (sv_host (admitted w v)) (next_trans (sv_host v)) = Some w" by (simp add: admitted_def Let_def)
  have "bo_hdl (xm (sv_host (admitted w v))) = []"
    using sv_invD(7) [OF assms(1)] assms(2) by (simp add: kernel_ok_def admitted_def Let_def)
  from pl_start_run [OF h this] show "pl_start (next_trans (sv_host v)) (admitted w v) = (Inr (), launched w v)"
    by (simp add: launched_def)
qed

lemma server_ends:
  assumes "sv_inv (admitted w v)" "sv_transactions v = []" "mTimeOut w = 0" "runs_finished X (launched w v)"
  shows "pl_step X (launched w v) (completed X w v)"
proof (rule pl_step.continue)
  note f = launched_facts [OF assms(2), of w]
  show "sv_transactions (launched w v) = next_trans (sv_host v) # []" using f(1) .
  show "sv_pl_threads (launched w v) (next_trans (sv_host v)) = Some PL_Running" by (rule f(2))
  show "pl_continue X (next_trans (sv_host v)) (launched w v) = (Inr (), completed X w v)"
    using pl_continue_run [OF f(1) f(2) sv_invD(7) [OF launched_inv [OF assms(1,2)]] f(3), of X] assms(3,4) by (simp add: completed_def)
qed

lemma completed_facts:
  assumes "sv_transactions v = []" "runs_finished X (launched w v)"
  shows "sv_transactions (completed X w v) = [next_trans (sv_host v)]"
    "sv_pl_threads (completed X w v) (next_trans (sv_host v)) = Some PL_Ended"
    "heap (sv_host (completed X w v)) (next_trans (sv_host v)) = Some (answered X (sv_last (launched w v)) w)"
    "sv_id2trans (completed X w v) = (sv_id2trans v)(trans_id w \<mapsto> next_trans (sv_host v))"
    "sv_num_channels (completed X w v) = sv_num_channels v"
proof -
  note f = launched_facts [OF assms(1), of w]
  show "heap (sv_host (completed X w v)) (next_trans (sv_host v)) = Some (answered X (sv_last (launched w v)) w)"
    using assms(2) by (simp add: completed_def ended_def Let_def f fetched_def answered_def)
qed (use assms in \<open>simp_all add: completed_def ended_def launched_def begun_def admitted_def Let_def\<close>)

lemma completed_inv:
  assumes "sv_inv (admitted w v)" "sv_transactions v = []" "sized X (launched w v)"
  shows "sv_inv (completed X w v)"
  unfolding completed_def
  by (rule inv_ended [OF launched_inv [OF assms(1,2)] _ _ _ assms(3)]) (use launched_facts [OF assms(2), of w] in simp_all)

section \<open>Collection\<close>

text \<open>The server after it has handed_over the results.\<close>

definition handed_over :: "xrt \<Rightarrow> transaction \<Rightarrow> server \<Rightarrow> server" where
  "handed_over X w v = (let p = next_trans (sv_host v); t = answered X (sv_last (launched w v)) w in
     released p (t\<lparr>mTimeOut := 0\<rparr>) (timed 0 p t (completed X w v)))"

lemma conv_delivery:
  assumes w: "sv_inv (admitted w v)" "sv_transactions v = []" and X: "runs_finished X (launched w v)" "sized X (launched w v)"
    and l: "short 59 (device_from_aie X (sv_last (launched w v)))" "short 59 (device_perf X (sv_last (launched w v)))"
  shows "converses (sv_waitForTestHarness X) (completed X w v) (word_bytes (trans_id w) @ word_bytes (0 :: u32))
    (result_bytes TRANSACTION_DONE (device_from_aie X (sv_last (launched w v))) (device_perf X (sv_last (launched w v)))) () (handed_over X w v)"
proof -
  let ?p = "next_trans (sv_host v)" and ?t = "answered X (sv_last (launched w v)) w"
  note f = completed_facts [OF w(2) X(1)]
  have e: "sv_pl_threads (timed 0 ?p ?t (completed X w v)) ?p = Some PL_Ended" "heap (sv_host (timed 0 ?p ?t (completed X w v))) ?p = Some (?t\<lparr>mTimeOut := 0\<rparr>)"
    using f(2) by (simp_all add: timed_def)
  have j: "joined X ?p (?t\<lparr>mTimeOut := 0\<rparr>) (timed 0 ?p ?t (completed X w v)) = (Inr (), timed 0 ?p ?t (completed X w v))"
    using e(1) by (simp add: joined_def)
  have t: "from_aie_ptr (?t\<lparr>mTimeOut := 0\<rparr>) = device_from_aie X (sv_last (launched w v))" "perf_ptr (?t\<lparr>mTimeOut := 0\<rparr>) = device_perf X (sv_last (launched w v))"
    "status (?t\<lparr>mTimeOut := 0\<rparr>) = TRANSACTION_DONE" "trans_id ?t = trans_id w"
    by (simp_all add: answered_def)
  show ?thesis
    using conv_wait [OF completed_inv [OF w X(2)] f(1,3) j e(2), unfolded t, OF l] by (simp add: handed_over_def Let_def result_bytes_def)
qed

definition collected :: "transaction \<Rightarrow> umem \<Rightarrow> client \<Rightarrow> client" where
  "collected t um c = c\<lparr>cl_heap := (cl_heap c)(cl_next c - 1 \<mapsto> t), cl_mem := um, cl_threads := (cl_threads c)(cl_next c - 1 \<mapsto> CL_Ended)\<rparr>"

lemma submitted_facts:
  "cl_heap (submitted u c) (cl_next c) = Some (u\<lparr>status := TRANSACTION_RUNNING\<rparr>)" "cl_mem (submitted u c) = cl_mem c"
  "cl_next (submitted u c) = Suc (cl_next c)" "cl_transactions (submitted u c) = cl_transactions c @ [cl_next c]"
  by (simp_all add: submitted_def)

lemma remote_polls:
  assumes p: "packs md args timeout c u" and m: "matched c v" and s: "ss_mgr s = Some (launched (sent md u v) v)"
  shows "calls P X (cl_thread_round (cl_next c)) (submitted u c, s) () (submitted u c, s)"
proof (rule callsI)
  let ?w = "sent md u v"
  have v: "sv_transactions v = []" using m by (simp add: matched_def)
  note f = launched_facts [OF v, of ?w]
  show "converses (cl_thread_round (cl_next c)) (submitted u c) (word_bytes (status_code TRANSACTION_RUNNING))
      (query_bytes (u\<lparr>status := TRANSACTION_RUNNING\<rparr>)) () (submitted u c)"
    by (rule conv_thread_polls [OF submitted_facts(1)]) (use packs_fields(2) [OF p] in \<open>simp_all add: getTimeOut_def\<close>)
  have "sv_id2trans (launched ?w v) (trans_id ?w) = Some (next_trans (sv_host v))"
    by (simp add: launched_def begun_def admitted_def Let_def)
  from conv_query [OF this f(3)]
  have "converses sv_queryTransactionStatus (launched ?w v) (word_bytes (trans_id u)) (word_bytes (status_code TRANSACTION_RUNNING)) () (launched ?w v)"
    by (simp add: sent_same [OF p m])
  from serves_one [OF serve_query [OF this s]]
  show "serves P X s (query_bytes (u\<lparr>status := TRANSACTION_RUNNING\<rparr>)) (word_bytes (status_code TRANSACTION_RUNNING)) s"
    by (simp add: query_bytes_def)
qed

lemma remote_collect:
  assumes p: "packs md args timeout c u" and m: "matched c v" and s: "ss_mgr s = Some (completed X (sent md u v) v)"
    and X: "runs_finished X (launched (sent md u v) v)" "sized X (launched (sent md u v) v)"
    and h: "handleOutputs (u\<lparr>status := TRANSACTION_DONE, from_aie_ptr := device_from_aie X (sv_last (launched (sent md u v) v)),
      perf_ptr := device_perf X (sv_last (launched (sent md u v) v))\<rparr>, cl_mem c) = (Inr (), (t, um))"
  shows "calls P X (cl_thread_round (cl_next c)) (submitted u c, s) ()
    (collected t um (submitted u c), s\<lparr>mActive := True, ss_mgr := Some (handed_over X (sent md u v) v)\<rparr>)"
proof -
  let ?w = "sent md u v" and ?u = "u\<lparr>status := TRANSACTION_RUNNING\<rparr>"
  let ?i = "sv_last (launched ?w v)"
  have v: "sv_transactions v = []" using m by (simp add: matched_def)
  note a = sent_admitted [OF p m] and same = sent_same [OF p m]
  have "length (device_perf X ?i) = length (perf_ptr u)" "length (device_from_aie X ?i) = length (from_aie_ptr u)"
    using X(2) unfolding sized_def due_launched [OF v] by (simp_all add: launched_facts [OF v] same)
  then have l: "short 59 (device_from_aie X ?i)" "short 59 (device_perf X ?i)"
    using packs_short(3,4) [OF p] by (simp_all add: short_def)
  have t: "getTimeOut ?u = 0" using packs_fields(2) [OF p] by (simp add: getTimeOut_def)
  have h': "handleOutputs (?u\<lparr>status := TRANSACTION_DONE, from_aie_ptr := device_from_aie X ?i, perf_ptr := device_perf X ?i\<rparr>,
      cl_mem (submitted u c)) = (Inr (), (t, um))"
    using h by (simp add: submitted_facts)
  have 1: "converses (cl_thread_round (cl_next c)) (submitted u c)
      (word_bytes (status_code TRANSACTION_DONE) @ result_bytes TRANSACTION_DONE (device_from_aie X ?i) (device_perf X ?i))
      (query_bytes ?u @ collect_bytes ?u) () (collected t um (submitted u c))"
    using conv_thread_ends [OF submitted_facts(1) t l h'] by (simp add: collected_def submitted_facts)
  note f = completed_facts [OF v X(1)]
  have "converses sv_queryTransactionStatus (completed X ?w v) (word_bytes (trans_id u)) (word_bytes (status_code TRANSACTION_DONE)) ()
      (completed X ?w v)"
    using conv_query [OF _ f(3), of "trans_id u"] by (simp add: f(4) same(5) answered_def)
  from serve_query [OF this s]
  have 2: "converses (run_once P True X) s (query_bytes ?u) (word_bytes (status_code TRANSACTION_DONE)) True s"
    by (simp add: query_bytes_def)
  have "converses (sv_waitForTestHarness X) (completed X ?w v) (word_bytes (trans_id u) @ word_bytes (getTimeOut ?u))
      (result_bytes TRANSACTION_DONE (device_from_aie X ?i) (device_perf X ?i)) () (handed_over X ?w v)"
    using conv_delivery [OF a v X l] by (simp add: same(5) t)
  from serve_wait [OF this s]
  have 3: "converses (run_once P True X) s (collect_bytes ?u) (result_bytes TRANSACTION_DONE (device_from_aie X ?i) (device_perf X ?i)) True
      (s\<lparr>mActive := True, ss_mgr := Some (handed_over X ?w v)\<rparr>)"
    by (simp add: collect_bytes_def getTimeOut_def)
  show ?thesis by (rule callsI [OF 1 serves_two [OF 2 3]])
qed

text \<open>The next transaction finds everything as the last one did, until the counter of the identifiers wraps.\<close>

lemma handed_over_matched:
  assumes p: "packs md args timeout c u" and m: "matched c v"
    and X: "runs_finished X (launched (sent md u v) v)" "sized X (launched (sent md u v) v)" and w: "cl_trans_id c + 1 \<noteq> 0"
  shows "matched (collected t um (submitted u c)) (handed_over X (sent md u v) v)"
proof -
  let ?w = "sent md u v" and ?p = "next_trans (sv_host v)"
  let ?t = "answered X (sv_last (launched ?w v)) ?w"
  have v: "sv_transactions v = []" using m by (simp add: matched_def)
  note f = completed_facts [OF v X(1)]
  have "sv_inv (handed_over X ?w v)"
    unfolding handed_over_def Let_def
    by (rule inv_released [OF inv_timed [OF completed_inv [OF sent_admitted [OF p m] v X(2)] f(1,3)]])
      (use f(1,2) in \<open>simp_all add: timed_def\<close>)
  moreover have "sv_id2trans (handed_over X ?w v) = (sv_id2trans v)(cl_trans_id c \<mapsto> ?p)"
    using f(4) by (simp add: handed_over_def Let_def released_def timed_def sent_same [OF p m] packs_fields [OF p])
  moreover have lt: "cl_trans_id c < cl_trans_id c + 1" using w unatSuc [of "cl_trans_id c"] by (simp add: word_less_nat_alt add.commute)
  moreover have "tid < cl_trans_id c + 1" if "tid \<in> dom (sv_id2trans v)" for tid
    using that m lt unfolding matched_def by (meson order_less_trans)
  ultimately show ?thesis
    using m f(1,5) by (auto simp: matched_def collected_def submitted_def handed_over_def Let_def released_def timed_def)
qed

end
