(* ===== verification/Legacy_Manager.thy ===== *)
theory Legacy_Manager
  imports Fast_XM
begin

text \<open>
  \<open>test_harness_mgr\<close> of \<^verbatim>\<open>include/ps/test_harness_mgr.hpp\<close>: the manager that runs on the board itself. It holds
  one transaction; \<open>runTestHarness\<close> packs the arguments and starts the kernel, \<open>waitForRes\<close> waits for it
  and unpacks the results. The graphs of the design run on their own; the manager only remembers
  whether it has started one.
\<close>

section \<open>State\<close>

record legacy_mgr =
  lg_num_channels :: u32
  lg_word_size :: u32
  lg_depth :: u32
  lg_memWidth :: u32
  lg_trans :: "nat option"      \<comment> \<open>\<open>std::unique_ptr<test_harness_transactions> trans\<close>\<close>
  lg_graph_started :: bool
  lg_host :: host
  lg_mem :: umem

type_synonym 'a lprog = "(legacy_mgr, harness_error, 'a) prog"

text \<open>The constructor; \<open>fastXM\<close> has loaded the design and reset the kernel.\<close>

definition new_legacy_mgr :: "u32 \<Rightarrow> u32 \<Rightarrow> u32 \<Rightarrow> u32 \<Rightarrow> umem \<Rightarrow> legacy_mgr" where
  "new_legacy_mgr num_channels word_size depth memWidth um =
     \<lparr>lg_num_channels = num_channels, lg_word_size = word_size, lg_depth = depth, lg_memWidth = memWidth,
      lg_trans = None, lg_graph_started = False,
      lg_host = \<lparr>heap = Map.empty, next_trans = 0, xm = \<lparr>pl_k_r_hdl = [], bo_hdl = []\<rparr>\<rparr>, lg_mem = um\<rparr>"

definition on_host :: "'a hprog \<Rightarrow> 'a lprog" where
  "on_host m = (\<lambda>s. case m (lg_host s) of (r, h) \<Rightarrow> (r, s\<lparr>lg_host := h\<rparr>))"

text \<open>A method that also writes the user's memory.\<close>

definition on_trans_mem :: "nat \<Rightarrow> 'a oprog \<Rightarrow> 'a lprog" where
  "on_trans_mem p m = bindM getM (\<lambda>s. case heap (lg_host s) p of
     None \<Rightarrow> throw UndefinedBehaviour
   | Some t \<Rightarrow> (\<lambda>s. case m (t, lg_mem s) of (r, (t', um)) \<Rightarrow>
       (r, s\<lparr>lg_host := (lg_host s)\<lparr>heap := (heap (lg_host s))(p \<mapsto> t')\<rparr>, lg_mem := um\<rparr>)))"

text \<open>\<open>trans && trans->getStatus() == st\<close>\<close>

definition trans_in :: "TransactionStatus \<Rightarrow> bool lprog" where
  "trans_in st = bindM getM (\<lambda>s. case lg_trans s of
     None \<Rightarrow> ret False
   | Some p \<Rightarrow> bindM (on_host (deref p)) (\<lambda>t. ret (getStatus t = st)))"

section \<open>Operations\<close>

definition legacy_runAIEGraph :: "unit lprog" where
  "legacy_runAIEGraph = modifyM (\<lambda>s. s\<lparr>lg_graph_started := True\<rparr>)"

text \<open>\<open>trans = std::make_unique<...>(...)\<close>: the old transaction is deleted.\<close>

definition replace_trans :: "transaction \<Rightarrow> nat lprog" where
  "replace_trans t = bindM (on_host (new_trans t)) (\<lambda>p. bindM getM (\<lambda>s.
     thenM (modifyM (\<lambda>s. s\<lparr>lg_trans := Some p\<rparr>))
     (thenM (case lg_trans s of None \<Rightarrow> ret () | Some old \<Rightarrow> on_host (delete_trans old))
     (ret p))))"

definition legacy_runTestHarness :: "TestMode \<Rightarrow> test_harness_args list \<Rightarrow> unit lprog" where
  "legacy_runTestHarness md args =
     (if md \<noteq> FUNC_MODE \<and> md \<noteq> PERF_MODE then throw_harness INVALID_ARGUMENTS
      else bindM (trans_in TRANSACTION_RUNNING) (\<lambda>running.
        if running then throw_harness INVALID_OPERATIONS
        else bindM getM (\<lambda>s.
          bindM (replace_trans (test_harness_transactions 0 md (lg_num_channels s) (lg_word_size s)
              (lg_depth s) (lg_memWidth s) 0)) (\<lambda>p.
          thenM (on_host (on_trans p (handleInputs (lg_mem s) args)))
          (bindM (on_host (deref p)) (\<lambda>t.
          thenM (guardM AssertionFailed (getStatus t = TRANSACTION_READY))
          (thenM (on_host (runPL p))
          (on_host (on_trans p (modifyM (setStatus TRANSACTION_RUNNING)))))))))))"

text \<open>\<open>X\<close> is what the runtime reports when the call looks.\<close>

definition legacy_waitForRes :: "xrt \<Rightarrow> unit lprog" where
  "legacy_waitForRes X = bindM (trans_in TRANSACTION_RUNNING) (\<lambda>running.
     thenM
       (if \<not> running then throw_harness INVALID_OPERATIONS
        else bindM getM (\<lambda>s. let p = the (lg_trans s) in
          bindM (on_host (waitForTestHarness X)) (\<lambda>res.
          if res then
            thenM (on_host (fetchRes X))
            (thenM (on_trans_mem p handleOutputs)
            (on_host (on_trans p (modifyM (setStatus TRANSACTION_DONE)))))
          else on_host (on_trans p (modifyM (setStatus TRANSACTION_TIMEOUT))))))
       (modifyM (\<lambda>s. s\<lparr>lg_graph_started := False\<rparr>)))"

definition legacy_isResultValid :: "bool lprog" where
  "legacy_isResultValid = bindM getM (\<lambda>s. case lg_trans s of
     None \<Rightarrow> throw_harness INVALID_OPERATIONS
   | Some p \<Rightarrow> bindM (on_host (deref p)) (\<lambda>t. ret (isResultValid t)))"

section \<open>Lemmas\<close>

definition running_at :: "legacy_mgr \<Rightarrow> bool" where
  "running_at s \<longleftrightarrow> (\<exists>p t. lg_trans s = Some p \<and> heap (lg_host s) p = Some t \<and> status t = TRANSACTION_RUNNING)"

text \<open>The pointer of the manager never dangles, and it is the only one to a live transaction.\<close>

definition legacy_inv :: "legacy_mgr \<Rightarrow> bool" where
  "legacy_inv s \<longleftrightarrow> (\<forall>q. heap (lg_host s) q \<noteq> None \<longleftrightarrow> lg_trans s = Some q) \<and>
     (\<forall>p \<in> set_option (lg_trans s). p < next_trans (lg_host s)) \<and>
     (\<forall>r \<in> set (pl_k_r_hdl (xm (lg_host s))). run_trans r < next_trans (lg_host s)) \<and>
     (\<forall>i \<in> set (bo_hdl (xm (lg_host s))). i < length (pl_k_r_hdl (xm (lg_host s))))"

lemma on_host_run: "m (lg_host s) = (r, h) \<Longrightarrow> on_host m s = (r, s\<lparr>lg_host := h\<rparr>)"
  by (simp add: on_host_def)

lemma trans_in_run:
  assumes "legacy_inv s"
  shows "trans_in st s = (Inr (\<exists>p t. lg_trans s = Some p \<and> heap (lg_host s) p = Some t \<and> status t = st), s)"
proof (cases "lg_trans s")
  case None
  then show ?thesis by (simp add: trans_in_def)
next
  case (Some p)
  then have "heap (lg_host s) p \<noteq> None" using assms unfolding legacy_inv_def by blast
  then obtain t where t: "heap (lg_host s) p = Some t" by blast
  then show ?thesis using Some
    by (simp add: trans_in_def bindM_def on_host_def deref_run [OF t] getStatus_def)
qed

lemma legacy_deleted: "legacy_inv s \<Longrightarrow> lg_trans s \<noteq> Some q \<Longrightarrow> heap (lg_host s) q = None"
  by (auto simp: legacy_inv_def)

lemma replace_trans_run:
  assumes "legacy_inv s"
  shows "replace_trans t s = (Inr (next_trans (lg_host s)),
    s\<lparr>lg_trans := Some (next_trans (lg_host s)),
      lg_host := (lg_host s)\<lparr>heap := [next_trans (lg_host s) \<mapsto> t], next_trans := Suc (next_trans (lg_host s))\<rparr>\<rparr>)"
proof -
  let ?n = "next_trans (lg_host s)"
  have "p < ?n" if "lg_trans s = Some p" for p using assms that by (simp add: legacy_inv_def)
  then have e: "(case lg_trans s of None \<Rightarrow> (heap (lg_host s))(?n \<mapsto> t)
      | Some p \<Rightarrow> ((heap (lg_host s))(?n \<mapsto> t))(p := None)) = [?n \<mapsto> t]"
    using legacy_deleted [OF assms] by (auto simp: fun_eq_iff split: option.splits)
  show ?thesis
    using e by (cases "lg_trans s")
      (simp_all add: replace_trans_def on_host_def new_trans_def delete_trans_def bindM_def thenM_def ret_def)
qed

text \<open>The state after a successful \<open>runTestHarness\<close> that packed the transaction \<open>u\<close>.\<close>

definition started :: "transaction \<Rightarrow> legacy_mgr \<Rightarrow> legacy_mgr" where
  "started u s = (let n = next_trans (lg_host s); x = xm (lg_host s) in
     s\<lparr>lg_trans := Some n,
       lg_host := \<lparr>heap = [n \<mapsto> u\<lparr>status := TRANSACTION_RUNNING\<rparr>], next_trans = Suc n,
         xm = \<lparr>pl_k_r_hdl = pl_k_r_hdl x @ [run_of n u], bo_hdl = bo_hdl x @ [length (pl_k_r_hdl x)]\<rparr>\<rparr>\<rparr>)"

definition fresh_trans :: "TestMode \<Rightarrow> legacy_mgr \<Rightarrow> transaction" where
  "fresh_trans md s = test_harness_transactions 0 md (lg_num_channels s) (lg_word_size s) (lg_depth s) (lg_memWidth s) 0"

lemma legacy_run_started:
  assumes inv: "legacy_inv s" and idle: "\<not> running_at s" and md: "md = FUNC_MODE \<or> md = PERF_MODE"
    and h: "handleInputs (lg_mem s) args (fresh_trans md s) = (Inr (), u)" and r: "status u = TRANSACTION_READY"
  shows "legacy_runTestHarness md args s = (Inr (), started u s)"
proof -
  let ?n = "next_trans (lg_host s)"
  have i: "trans_in TRANSACTION_RUNNING s = (Inr False, s)"
    using trans_in_run [OF inv] idle by (simp add: running_at_def)
  show ?thesis
    using md h r unfolding fresh_trans_def
    by (simp add: legacy_runTestHarness_def bindM_def i replace_trans_run [OF inv] thenM_def on_host_def on_trans_def
        deref_def ret_def guardM_def getStatus_def setStatus_def runPL_def started_def run_of_def Let_def)
qed

text \<open>When packing throws, the manager is left with the unfinished transaction and has started nothing.\<close>

lemma legacy_run_thrown:
  assumes inv: "legacy_inv s" and idle: "\<not> running_at s" and md: "md = FUNC_MODE \<or> md = PERF_MODE"
    and h: "handleInputs (lg_mem s) args (fresh_trans md s) = (Inl e, u)"
  shows "legacy_runTestHarness md args s = (Inl e, s\<lparr>lg_trans := Some (next_trans (lg_host s)),
    lg_host := (lg_host s)\<lparr>heap := [next_trans (lg_host s) \<mapsto> u], next_trans := Suc (next_trans (lg_host s))\<rparr>\<rparr>)"
proof -
  have i: "trans_in TRANSACTION_RUNNING s = (Inr False, s)"
    using trans_in_run [OF inv] idle by (simp add: running_at_def)
  show ?thesis
    using md h unfolding fresh_trans_def legacy_runTestHarness_def
    by (elim disjE; simp add: bindM_def i replace_trans_run [OF inv] thenM_def on_host_def on_trans_def)
qed

lemma legacy_busy:
  assumes "legacy_inv s" "running_at s" "md = FUNC_MODE \<or> md = PERF_MODE"
  shows "legacy_runTestHarness md args s = (Inl (TestHarnessException INVALID_OPERATIONS), s)"
  using assms trans_in_run [OF assms(1), of TRANSACTION_RUNNING]
  by (simp add: legacy_runTestHarness_def bindM_def running_at_def throw_def)

lemma legacy_wait_idle:
  assumes "legacy_inv s" "\<not> running_at s"
  shows "legacy_waitForRes X s = (Inl (TestHarnessException INVALID_OPERATIONS), s)"
  using assms trans_in_run [OF assms(1), of TRANSACTION_RUNNING]
  by (simp add: legacy_waitForRes_def bindM_def thenM_def running_at_def throw_def)

lemma legacy_wait_timeout:
  assumes inv: "legacy_inv s" and run: "lg_trans s = Some p" "heap (lg_host s) p = Some t" "status t = TRANSACTION_RUNNING"
    and X: "\<exists>i < length (pl_k_r_hdl (xm (lg_host s))). \<not> finished X i"
  shows "legacy_waitForRes X s = (Inr (), s\<lparr>lg_graph_started := False,
    lg_host := (lg_host s)\<lparr>heap := (heap (lg_host s))(p \<mapsto> t\<lparr>status := TRANSACTION_TIMEOUT\<rparr>)\<rparr>\<rparr>)"
proof -
  have i: "trans_in TRANSACTION_RUNNING s = (Inr True, s)"
    using trans_in_run [OF inv] run by simp
  have "\<not> list_all (finished X) [0..<length (pl_k_r_hdl (xm (lg_host s)))]" using X by (auto simp: list_all_iff)
  with run show ?thesis
    by (simp add: legacy_waitForRes_def bindM_def thenM_def i on_host_def waitForTestHarness_def ret_def on_trans_def
        setStatus_def Let_def)
qed

lemma legacy_wait_done:
  assumes inv: "legacy_inv s" and run: "lg_trans s = Some p" "heap (lg_host s) p = Some t" "status t = TRANSACTION_RUNNING"
    and X: "\<forall>i < length (pl_k_r_hdl (xm (lg_host s))). finished X i"
    and b: "bo_hdl (xm (lg_host s)) = [i]" "run_trans (pl_k_r_hdl (xm (lg_host s)) ! i) = p"
    and out: "handleOutputs (fetched X i (pl_k_r_hdl (xm (lg_host s)) ! i) t, lg_mem s) = (Inr (), (v, um))"
  shows "legacy_waitForRes X s = (Inr (), s\<lparr>lg_graph_started := False, lg_mem := um,
    lg_host := (lg_host s)\<lparr>heap := (heap (lg_host s))(p \<mapsto> v\<lparr>status := TRANSACTION_DONE\<rparr>),
      xm := (xm (lg_host s))\<lparr>bo_hdl := []\<rparr>\<rparr>\<rparr>)"
proof -
  have a: "trans_in TRANSACTION_RUNNING s = (Inr True, s)"
    using trans_in_run [OF inv] run by simp
  have l: "list_all (finished X) [0..<length (pl_k_r_hdl (xm (lg_host s)))]" using X by (auto simp: list_all_iff)
  have "i < length (pl_k_r_hdl (xm (lg_host s)))" using inv b(1) by (simp add: legacy_inv_def)
  note f = fetchRes_single [where h = "lg_host s", OF b(1) this, unfolded b(2), OF run(2)]
  show ?thesis
    using run l out
    by (simp add: legacy_waitForRes_def bindM_def thenM_def a on_host_def waitForTestHarness_def ret_def on_trans_def
        setStatus_def Let_def f on_trans_mem_def)
qed

text \<open>A transaction that timed out leaves its buffers to be fetched into it, and the next transaction
  replaces it: fetching is then the use of a deleted object.\<close>

lemma legacy_wait_dangling:
  assumes inv: "legacy_inv s" and run: "lg_trans s = Some p" "heap (lg_host s) p = Some t" "status t = TRANSACTION_RUNNING"
    and X: "\<forall>i < length (pl_k_r_hdl (xm (lg_host s))). finished X i"
    and b: "bo_hdl (xm (lg_host s)) = i # js" "run_trans (pl_k_r_hdl (xm (lg_host s)) ! i) \<noteq> p"
  shows "legacy_waitForRes X s = (Inl UndefinedBehaviour, s)"
proof -
  have a: "trans_in TRANSACTION_RUNNING s = (Inr True, s)"
    using trans_in_run [OF inv] run by simp
  have l: "list_all (finished X) [0..<length (pl_k_r_hdl (xm (lg_host s)))]" using X by (auto simp: list_all_iff)
  have i: "i < length (pl_k_r_hdl (xm (lg_host s)))" using inv b(1) by (simp add: legacy_inv_def)
  have "heap (lg_host s) (run_trans (pl_k_r_hdl (xm (lg_host s)) ! i)) = None"
    using b(2) run(1) by (intro legacy_deleted [OF inv]) simp
  note f = fetchRes_dangling [where h = "lg_host s", OF b(1) i this]
  show ?thesis
    using run l
    by (simp add: legacy_waitForRes_def bindM_def thenM_def a on_host_def waitForTestHarness_def ret_def Let_def f)
qed

section \<open>The invariant\<close>

lemma keeps_on_host:
  assumes "keeps (\<lambda>h. legacy_inv (s\<lparr>lg_host := h\<rparr>)) m"
  shows "legacy_inv s \<Longrightarrow> legacy_inv (snd (on_host m s))"
  using keepsD [OF assms, of "lg_host s"] by (auto simp: on_host_def split: prod.splits)

lemma keeps_on_hostI [keeps]:
  assumes "\<And>s. keeps (\<lambda>h. legacy_inv (s\<lparr>lg_host := h\<rparr>)) m" shows "keeps legacy_inv (on_host m)"
  unfolding keeps_def hoare_def
proof (intro allI impI)
  fix s assume "legacy_inv s"
  from keeps_on_host [OF assms this] show "case on_host m s of (Inl e, s') \<Rightarrow> legacy_inv s' | (Inr a, s') \<Rightarrow> legacy_inv s'"
    by (cases "on_host m s"; cases "fst (on_host m s)") auto
qed

lemma on_trans_keeps [keeps]: "keeps (\<lambda>h. legacy_inv (s\<lparr>lg_host := h\<rparr>)) (on_trans p m)"
  by (rule keeps_state) (auto simp: on_trans_def legacy_inv_def split: option.splits prod.splits)

lemma deref_keeps [keeps]: "keeps P (deref p)"
  unfolding deref_def by (intro keeps)

lemma runPL_keeps [keeps]: "keeps (\<lambda>h. legacy_inv (s\<lparr>lg_host := h\<rparr>)) (runPL p)"
proof (rule keeps_state)
  fix h assume i: "legacy_inv (s\<lparr>lg_host := h\<rparr>)"
  show "legacy_inv (s\<lparr>lg_host := snd (runPL p h)\<rparr>)"
  proof (cases "heap h p")
    case None
    then show ?thesis using i by (simp add: runPL_def deref_def bindM_def)
  next
    case (Some t)
    then have "lg_trans s = Some p" using i by (auto simp: legacy_inv_def)
    then show ?thesis using i Some by (fastforce simp: runPL_run legacy_inv_def)
  qed
qed

lemma fetchRes_keeps [keeps]: "keeps (\<lambda>h. legacy_inv (s\<lparr>lg_host := h\<rparr>)) (fetchRes X)"
proof -
  have "keeps (\<lambda>h. legacy_inv (s\<lparr>lg_host := h\<rparr>)) (fetch_run X i)" for i
    unfolding fetch_run_def by (intro keeps)
  then show ?thesis unfolding fetchRes_def by (intro keeps) (simp_all add: legacy_inv_def)
qed

lemma waitForTestHarness_keeps [keeps]: "keeps P (waitForTestHarness X)"
  unfolding waitForTestHarness_def by (intro keeps)

lemma trans_in_keeps [keeps]: "keeps legacy_inv (trans_in st)"
  by (rule keeps_state) (simp add: trans_in_run)

lemma replace_trans_keeps [keeps]: "keeps legacy_inv (replace_trans t)"
proof (rule keeps_state)
  fix s assume i: "legacy_inv s"
  show "legacy_inv (snd (replace_trans t s))"
    unfolding replace_trans_run [OF i] using i by (auto simp: legacy_inv_def less_Suc_eq)
qed

lemma on_trans_mem_keeps [keeps]: "keeps legacy_inv (on_trans_mem p m)"
  by (rule keeps_state) (auto simp: on_trans_mem_def legacy_inv_def split: option.splits prod.splits)

lemma runTestHarness_keeps: "keeps legacy_inv (legacy_runTestHarness md args)"
  unfolding legacy_runTestHarness_def by (intro keeps)

lemma waitForRes_keeps: "keeps legacy_inv (legacy_waitForRes X)"
  unfolding legacy_waitForRes_def Let_def by (intro keeps) (simp add: legacy_inv_def)

section \<open>Sequences of calls\<close>

datatype legacy_call =
    Run_Test_Harness TestMode "test_harness_args list"
  | Run_AIE_Graph
  | Wait_For_Res xrt

fun legacy_do :: "legacy_call \<Rightarrow> unit lprog" where
  "legacy_do (Run_Test_Harness md args) = legacy_runTestHarness md args"
| "legacy_do Run_AIE_Graph = legacy_runAIEGraph"
| "legacy_do (Wait_For_Res X) = legacy_waitForRes X"

text \<open>The user's own code may write the memory between two calls; a call that throws is followed by others.\<close>

inductive legacy_reachable :: "legacy_mgr \<Rightarrow> bool" where
  new: "legacy_reachable (new_legacy_mgr nc ws d mw um)"
| call: "legacy_reachable s \<Longrightarrow> legacy_reachable (snd (legacy_do c s))"
| user: "legacy_reachable s \<Longrightarrow> legacy_reachable (s\<lparr>lg_mem := um\<rparr>)"

lemma legacy_do_keeps: "keeps legacy_inv (legacy_do c)"
proof (cases c)
  case Run_AIE_Graph
  have "keeps legacy_inv legacy_runAIEGraph"
    unfolding legacy_runAIEGraph_def by (rule keeps_modifyM) (simp add: legacy_inv_def)
  then show ?thesis by (simp add: Run_AIE_Graph)
qed (simp_all add: runTestHarness_keeps waitForRes_keeps)

lemma legacy_reachable_inv: "legacy_reachable s \<Longrightarrow> legacy_inv s"
proof (induction rule: legacy_reachable.induct)
  case (call s c)
  from keepsD [OF legacy_do_keeps call.IH] show ?case .
qed (simp_all add: legacy_inv_def new_legacy_mgr_def)

end
