(* ===== verification/Packed_Kernel.thy ===== *)
theory Packed_Kernel
  imports Fast_XM Kernel_Run Transaction_Props
begin

text \<open>
  What \<open>handleInputs\<close> packs is what the kernel expects: the configuration words and the images of a packed
  functional transaction describe regions inside the memories, disjoint for the channels from the AI
  Engine, and the region of a channel to the AI Engine holds the user's data. Stream and memory
  words have 128 bits on all boards (\<^verbatim>\<open>PARAM_WIDTH\<close> and \<^verbatim>\<open>PARAM_MEM_WIDTH\<close> are 16 in \<^verbatim>\<open>test_harness/common.mk\<close>).
\<close>

section \<open>Bytes and words\<close>

abbreviation words :: "u8 list \<Rightarrow> 128 word list" where "words \<equiv> words_of_bytes"
abbreviation bytes :: "128 word list \<Rightarrow> u8 list" where "bytes \<equiv> bytes_of_words"

lemma ratio_16 [simp]: "MEM_RATIO TYPE(128) TYPE(8) = 16"
  by (simp add: MEM_RATIO_def)

lemma widths_16: "widths_ok TYPE(128) TYPE(8)"
  by (simp add: widths_ok_def)

lemma length_words [simp]: "length (words bs) = length bs div 16"
  by (simp add: words_of_bytes_def)

lemma length_bytes [simp]: "length (bytes ws) = 16 * length ws"
  by (simp add: bytes_of_words_def)

lemma bytes_words: "16 dvd length bs \<Longrightarrow> bytes (words bs) = bs"
  unfolding words_of_bytes_def bytes_of_words_def
  by (subst stream_words_packed [OF widths_16]) (auto elim: dvdE)

lemma bytes_append: "bytes (xs @ ys) = bytes xs @ bytes ys"
  by (simp add: bytes_of_words_def stream_words_append)

text \<open>A run of memory words is the same run of bytes.\<close>

lemma bytes_slice: "bytes (take n (drop m ws)) = take (16 * n) (drop (16 * m) (bytes ws))"
proof -
  have t: "bytes (take k xs) = take (16 * k) (bytes xs)" for k and xs :: "128 word list"
    using bytes_append [of "take k xs" "drop k xs"] by (cases "k \<le> length xs") simp_all
  have "bytes ws = bytes (take m ws) @ bytes (drop m ws)"
    using bytes_append [of "take m ws" "drop m ws"] by simp
  then have "bytes (drop m ws) = drop (16 * m) (bytes ws)"
    by (cases "m \<le> length ws") (simp_all add: bytes_of_words_def)
  with t show ?thesis by simp
qed

lemma bytes_inj: "bytes xs = bytes ys \<Longrightarrow> xs = ys"
proof (rule nth_equalityI)
  assume e: "bytes xs = bytes ys"
  then show l: "length xs = length ys" using length_bytes by (metis mult_left_cancel zero_neq_numeral)
  fix i assume i: "i < length xs"
  show "xs ! i = ys ! i"
  proof (rule word_eq_lanesI [OF widths_16])
    fix j assume "j < MEM_RATIO TYPE(128) TYPE(8)"
    then have j: "j < 16" by simp
    have "(stream_words xs :: 8 word list) ! (16 * i + j) = (stream_words ys :: 8 word list) ! (16 * i + j)"
      using e by (simp add: bytes_of_words_def)
    then show "(lane (xs ! i) j :: 8 word) = lane (ys ! i) j"
      using i j l by (simp add: nth_stream_words)
  qed
qed

lemma words_slice:
  assumes "16 dvd length bs"
  shows "words (take (16 * n) (drop (16 * m) bs)) = take n (drop m (words bs))"
proof (rule bytes_inj)
  have "16 dvd length (take (16 * n) (drop (16 * m) bs))" using assms by (auto simp: min_def elim!: dvdE)
  then show "bytes (words (take (16 * n) (drop (16 * m) bs))) = bytes (take n (drop m (words bs)))"
    by (simp add: bytes_words assms bytes_slice)
qed

section \<open>The configuration words of a channel\<close>

lemma units_16:
  assumes "size_in_byte a mod ucast (16 :: u32) = 0" shows "unat (size_in_byte a) = 16 * units 16 a"
proof -
  have "unat (size_in_byte a mod 16) = 0" using assms by simp
  then have "unat (size_in_byte a) mod 16 = 0" by (simp only: unat_mod) simp
  then have "16 dvd unat (size_in_byte a)" by (rule mod_0_imp_dvd)
  then obtain k where "unat (size_in_byte a) = 16 * k" by (rule dvdE)
  then show ?thesis by (simp add: units_def)
qed

lemma take_units_mono:
  assumes "i < j" "j \<le> length as" "p (idx (as ! i))"
  shows "dir_units p w (take i as) + units w (as ! i) \<le> dir_units p w (take j as)"
proof -
  have "take (Suc i) as = take i as @ [as ! i]" using assms by (intro take_Suc_conv_app_nth) simp
  then have "dir_units p w (take i as) + units w (as ! i) = dir_units p w (take (Suc i) as)"
    using assms(3) by (simp add: dir_units_snoc)
  moreover have "take j as = take (Suc i) as @ take (j - Suc i) (drop (Suc i) as)"
    using assms(1) by (metis take_add Suc_leI le_add_diff_inverse)
  ultimately show ?thesis by (simp add: dir_units_append)
qed

text \<open>What the kernel reads for the channels of one direction: the frames and the offset of the argument
  that names the channel, or 0.\<close>

definition rows_ok ::
  "(channel_index \<Rightarrow> bool) \<Rightarrow> (test_harness_args \<Rightarrow> nat) \<Rightarrow> nat \<Rightarrow> u64 list \<Rightarrow> nat \<Rightarrow> test_harness_args list \<Rightarrow> bool" where
  "rows_ok p chn N cfg b args \<longleftrightarrow>
     (\<forall>i < length args. p (idx (args ! i)) \<longrightarrow> chn (args ! i) < N \<and>
        cfg_frames N cfg b (chn (args ! i)) = units 16 (args ! i) \<and>
        cfg_offset N cfg b (chn (args ! i)) = dir_units p 16 (take i args)) \<and>
     (\<forall>c < N. (\<forall>a \<in> set args. p (idx a) \<longrightarrow> chn a \<noteq> c) \<longrightarrow> cfg_frames N cfg b c = 0 \<and> cfg_offset N cfg b c = 0)"

lemma rows_named:
  assumes "rows_ok p chn N cfg b args" "c < N"
  obtains "cfg_frames N cfg b c = 0" "cfg_offset N cfg b c = 0" "\<forall>a \<in> set args. p (idx a) \<longrightarrow> chn a \<noteq> c"
  | i where "i < length args" "p (idx (args ! i))" "chn (args ! i) = c"
    "cfg_frames N cfg b c = units 16 (args ! i)" "cfg_offset N cfg b c = dir_units p 16 (take i args)"
proof (cases "\<forall>a \<in> set args. p (idx a) \<longrightarrow> chn a \<noteq> c")
  case True
  then have "cfg_frames N cfg b c = 0 \<and> cfg_offset N cfg b c = 0" using assms unfolding rows_ok_def by simp
  with True show ?thesis by (intro that(1)) simp_all
next
  case False
  then obtain i where i: "i < length args" "p (idx (args ! i))" "chn (args ! i) = c" by (auto simp: in_set_conv_nth)
  then have "cfg_frames N cfg b c = units 16 (args ! i) \<and> cfg_offset N cfg b c = dir_units p 16 (take i args)"
    using assms(1) unfolding rows_ok_def by auto
  with i show ?thesis by (intro that(2)) simp_all
qed

lemma rows_fit:
  assumes r: "rows_ok p chn N cfg b args" and len: "length mem = dir_units p 16 args" and fit: "fits 16 args"
  shows "cfg_fits 1 N cfg b mem"
  unfolding cfg_fits_def
proof (intro conjI allI impI)
  have "dir_units p 16 args * 16 < 2 ^ 32" by (rule fits_dir_units [OF _ fit]) simp
  then show m: "length mem < 2 ^ 32 - 32" unfolding len by simp
  fix c assume c: "c < N"
  show "cfg_offset N cfg b c + mem_frames 1 (cfg_frames N cfg b c) \<le> length mem"
  proof (cases rule: rows_named [OF r c, case_names unused used])
    case (used i)
    then show ?thesis
      using take_units_mono [of i "length args" args p 16] len by (simp add: mem_frames_def)
  qed (simp add: mem_frames_def)
  then show "cfg_frames N cfg b c + 1 < 2 ^ 32" using m by (simp add: mem_frames_def)
qed

lemma rows_disjoint:
  assumes "rows_ok p chn N cfg b args" shows "cfg_regions_disjoint 1 N cfg b"
  unfolding cfg_regions_disjoint_def
proof (intro allI impI)
  fix x y assume xy: "x < N" "y < N" "x \<noteq> y"
  let ?e = "\<lambda>c. cfg_offset N cfg b c + mem_frames 1 (cfg_frames N cfg b c)"
  show "?e x \<le> cfg_offset N cfg b y \<or> ?e y \<le> cfg_offset N cfg b x \<or> cfg_frames N cfg b x = 0 \<or> cfg_frames N cfg b y = 0"
  proof (cases rule: rows_named [OF assms xy(1), case_names unused used])
    case x: (used i)
    show ?thesis
    proof (cases rule: rows_named [OF assms xy(2), case_names unused used])
      case y: (used j)
      have "i \<noteq> j" using x(3) y(3) xy(3) by blast
      then have "i < j \<or> j < i" by linarith
      then show ?thesis
        using x y take_units_mono [of i j args p 16] take_units_mono [of j i args p 16]
        by (auto simp: mem_frames_def)
    qed simp
  qed simp
qed

text \<open>\<open>configured\<close> is what \<open>handleInputs\<close> promises for each direction.\<close>

lemma configured_rows:
  assumes w: "tr_word_size u = 16" and nc: "unat (tr_num_channels u) = N" and fit: "fits 16 args"
    and al: "\<forall>a \<in> set args. size_in_byte a mod ucast (tr_word_size u) = 0"
    and less: "\<And>a. a \<in> set args \<Longrightarrow> p (idx a) \<Longrightarrow> chn a < N"
    and conf: "\<And>i. i < length args \<Longrightarrow> p (idx (args ! i)) \<Longrightarrow>
      configured u b (chn (args ! i)) (args ! i) (dir_units p 16 (take i args))"
    and un: "\<And>c. c < N \<Longrightarrow> (\<forall>a \<in> set args. p (idx a) \<longrightarrow> chn a \<noteq> c) \<Longrightarrow> \<forall>r < 4. cfg_at N (cfg_ptr u) (b + r) c = 0"
  shows "rows_ok p chn N (cfg_ptr u) b args"
  unfolding rows_ok_def
proof (intro conjI allI impI)
  fix i assume i: "i < length args" and p: "p (idx (args ! i))"
  let ?a = "args ! i"
  have a: "?a \<in> set args" using i by simp
  show "chn ?a < N" by (rule less [OF a p])
  have c: "cfg_at N (cfg_ptr u) (b + 1) (chn ?a) = size_in_byte ?a div 16"
    "cfg_at N (cfg_ptr u) (b + 3) (chn ?a) = of_nat (dir_units p 16 (take i args))"
    using conf [OF i p] by (simp_all add: configured_def nc w Let_def)
  have s: "unat (size_in_byte ?a) = 16 * units 16 ?a" using al a w by (intro units_16) simp
  have b32: "16 * units 16 ?a < 2 ^ 32" using fits_elem [OF fit a] s by simp
  have "unat (size_in_byte ?a div 16) = units 16 ?a" using s by (simp add: unat_div)
  then show "cfg_frames N (cfg_ptr u) b (chn ?a) = units 16 ?a"
    using c(1) b32 by (simp add: cfg_frames_def cfg_at_def unsigned_ucast_eq take_bit_nat_eq_self)
  have "dir_units p 16 (take i args) \<le> dir_units p 16 args"
    using take_units_mono [of i "length args" args p 16] i p by simp
  also have "dir_units p 16 args * 16 < 2 ^ 32" by (rule fits_dir_units [OF _ fit]) simp
  then have "dir_units p 16 args < 2 ^ 28" by simp
  finally have d: "dir_units p 16 (take i args) < 2 ^ 28" .
  then have "unat (of_nat (dir_units p 16 (take i args)) :: u64) = dir_units p 16 (take i args)"
    by (intro unat_of_nat_small) simp
  then show "cfg_offset N (cfg_ptr u) b (chn ?a) = dir_units p 16 (take i args)"
    using c(2) d by (simp add: cfg_offset_def cfg_at_def unsigned_ucast_eq take_bit_nat_eq_self)
next
  fix c assume "c < N" "\<forall>a \<in> set args. p (idx a) \<longrightarrow> chn a \<noteq> c"
  then have "\<forall>r < 4. cfg_at N (cfg_ptr u) (b + r) c = 0" by (rule un)
  from spec [OF this, of 1] spec [OF this, of 3]
  show "cfg_frames N (cfg_ptr u) b c = 0" "cfg_offset N (cfg_ptr u) b c = 0"
    by (simp_all add: cfg_frames_def cfg_offset_def cfg_at_def)
qed

section \<open>A packed transaction\<close>

lemma packed_rows:
  assumes ok: "config_ok t" and w: "tr_word_size t = 16" "mMemWidth t = 16" and acc: "\<forall>a \<in> set args. accepted t a"
    and dist: "distinct (map idx args)" and fit: "fits 16 args"
    and rd: "inputs_ready t args u" and lay: "func_layout um u args"
  defines "N \<equiv> unat (tr_num_channels t)"
  shows "rows_ok (to_dir t) to_chn N (cfg_ptr u) 0 args" "rows_ok (from_dir t) from_chn N (cfg_ptr u) 4 args"
proof -
  have p: "tr_num_channels u = tr_num_channels t" "tr_word_size u = 16" "mMemWidth u = 16"
    using rd w by (simp_all add: inputs_ready_def)
  have d: "from_dir u = from_dir t" "to_dir u = to_dir t" by (simp_all add: from_dir_def to_dir_def p)
  have nc: "unat (tr_num_channels t) \<le> 36" using ok by (simp add: config_ok_def)
  have al: "\<forall>a \<in> set args. size_in_byte a mod ucast (tr_word_size u) = 0"
    using acc w p by (simp add: accepted_def aligned_def)
  have un: "unused_zero u args" using lay by (simp add: func_layout_def)
  have conf: "configured u 0 (to_chn (args ! i)) (args ! i) (dir_units (to_dir t) 16 (take i args))"
    if "i < length args" "to_dir t (idx (args ! i))" for i
    using lay dist that by (simp add: func_layout_def d p)
  have conf': "configured u 4 (from_chn (args ! i)) (args ! i) (dir_units (from_dir t) 16 (take i args))"
    if "i < length args" "from_dir t (idx (args ! i))" for i
    using lay dist that by (simp add: func_layout_def d p)
  show "rows_ok (to_dir t) to_chn N (cfg_ptr u) 0 args"
    by (rule configured_rows [OF p(2) _ fit al])
      (use conf un in \<open>auto simp: N_def p to_dir_def unused_zero_def Let_def intro: to_chn_less\<close>)
  show "rows_ok (from_dir t) from_chn N (cfg_ptr u) 4 args"
    by (rule configured_rows [OF p(2) _ fit al])
      (use conf' un nc in \<open>auto simp: N_def p from_dir_def unused_zero_def Let_def intro: from_chn_less\<close>)
qed

text \<open>The kernel can run on the packed transaction, and the region of a channel to the AI Engine is the
  user's data.\<close>

lemma packed_kernel_ready:
  assumes ok: "config_ok t" and md: "tr_mode t = FUNC_MODE" and N: "0 < unat (tr_num_channels t)"
    and w: "tr_word_size t = 16" "mMemWidth t = 16" and acc: "\<forall>a \<in> set args. accepted t a"
    and dist: "distinct (map idx args)" and fit: "fits 16 args"
    and rd: "inputs_ready t args u" and lay: "func_layout um u args"
    and len: "length (to_aie_ptr u) = dir_units (to_dir t) 16 args * 16"
      "length (from_aie_ptr u) = dir_units (from_dir t) 16 args * 16"
  shows "Kernel_Run.func_ready 1 (unat (tr_num_channels t)) (cfg_ptr u) (perf_ptr u) (words (to_aie_ptr u)) (words (from_aie_ptr u))"
proof -
  note r = packed_rows [OF ok w acc dist fit rd lay]
  have "cfg_ptr u ! 0 = 0" using rd md by (simp add: inputs_ready_def FUNC_MODE_def)
  moreover have "harness_ready (unat (tr_num_channels t)) (cfg_ptr u) (perf_ptr u)"
    using rd ok N by (simp add: harness_ready_def inputs_ready_def config_ok_def)
  ultimately show ?thesis
    unfolding Kernel_Run.func_ready_def
    using rows_fit [where mem = "words (to_aie_ptr u)", OF r(1) _ fit]
      rows_fit [where mem = "words (from_aie_ptr u)", OF r(2) _ fit] rows_disjoint [OF r(2)] len by simp
qed

lemma packed_region_to:
  assumes "rows_ok (to_dir t) to_chn N (cfg_ptr u) 0 args" and i: "i < length args" "to_dir t (idx (args ! i))"
    and w: "tr_word_size t = 16" and acc: "\<forall>a \<in> set args. accepted t a"
    and rd: "inputs_ready t args u" and m: "mMemWidth t = 16" and lay: "func_layout um u args"
    and len: "length (to_aie_ptr u) = dir_units (to_dir t) 16 args * 16"
  shows "take (cfg_frames N (cfg_ptr u) 0 (to_chn (args ! i))) (drop (cfg_offset N (cfg_ptr u) 0 (to_chn (args ! i))) (words (to_aie_ptr u)))
    = words (mem_read um (data (args ! i)) (unat (size_in_byte (args ! i))))"
proof -
  let ?a = "args ! i" and ?d = "dir_units (to_dir t) 16 (take i args)"
  have c: "cfg_frames N (cfg_ptr u) 0 (to_chn ?a) = units 16 ?a" "cfg_offset N (cfg_ptr u) 0 (to_chn ?a) = ?d"
    using assms(1) i by (simp_all add: rows_ok_def)
  have p: "to_dir u = to_dir t" "mMemWidth u = 16" using rd m by (simp_all add: inputs_ready_def to_dir_def)
  have s: "unat (size_in_byte ?a) = 16 * units 16 ?a"
    using acc i w by (intro units_16) (simp add: accepted_def aligned_def)
  have "to_data_at um u ?a ?d" using lay i by (simp add: func_layout_def p)
  then have "mem_read um (data ?a) (unat (size_in_byte ?a)) = take (16 * units 16 ?a) (drop (16 * ?d) (to_aie_ptr u))"
    by (simp add: to_data_at_def p vec_slice_def s mult.commute split: if_splits)
  then show ?thesis unfolding c using words_slice [of "to_aie_ptr u" "units 16 ?a" ?d] len by simp
qed

end
