(* ===== verification/Transfers.thy ===== *)
theory Transfers
  imports Legacy_Manager Packed_Kernel Transaction_Claims Board_Claims
begin

text \<open>
  What the two modes of a transaction have in common between the user's call and the user's buffers: the manager's own
  steps, the runtime and the kernels of the boards, around an interface that each mode implements.
\<close>

section \<open>The runtime\<close>

text \<open>What the Xilinx runtime promises: a run that has finished has executed the kernel of the board on the buffers it
  was started with.\<close>

definition runs_kernel ::
  "(u64 list \<Rightarrow> u64 list \<Rightarrow> 128 word list \<Rightarrow> 128 word list \<Rightarrow> (strm \<Rightarrow> 128 word ap_axiu list) \<Rightarrow> u64 list \<Rightarrow> 128 word list \<Rightarrow> bool) \<Rightarrow>
    xrt \<Rightarrow> nat \<Rightarrow> pl_run \<Rightarrow> (strm \<Rightarrow> 128 word ap_axiu list) \<Rightarrow> bool" where
  "runs_kernel k X i r out \<longleftrightarrow> (\<exists>mem'. device_from_aie X i = bytes mem' \<and>
     k (run_cfg r) (run_perf r) (words (run_to_aie r)) (words (run_from_aie r)) out (device_perf X i) mem')"

definition all_finished :: "xrt \<Rightarrow> legacy_mgr \<Rightarrow> bool" where
  "all_finished X s \<longleftrightarrow> (\<forall>i < length (pl_k_r_hdl (xm (lg_host s))). finished X i)"

definition board_mgr :: "nat \<Rightarrow> legacy_mgr \<Rightarrow> bool" where
  "board_mgr N s \<longleftrightarrow> lg_num_channels s = of_nat N \<and> lg_word_size s = 16 \<and> lg_memWidth s = 16 \<and>
     legacy_inv s \<and> \<not> running_at s \<and> bo_hdl (xm (lg_host s)) = []"

text \<open>The three boards, by their number of channels.\<close>

definition boards where
  "boards = {(36, vck190_test_harness), (16, vek280_test_harness), (16, vek385_test_harness)}"

lemma boards_kernel: "(N, board) \<in> boards \<Longrightarrow> \<exists>ks D. board = board_kernel ks N D \<and> wired ks N \<and> 0 < N \<and> N \<le> 36"
  using boards_wired by (auto simp: boards_def vck190_test_harness_def vek280_test_harness_def vek385_test_harness_def)

section \<open>Transactions of the manager\<close>

lemma fresh_simps [simp]:
  "tr_num_channels (fresh_trans md s) = lg_num_channels s" "tr_word_size (fresh_trans md s) = lg_word_size s"
  "mMemWidth (fresh_trans md s) = lg_memWidth s" "tr_mode (fresh_trans md s) = md"
  by (simp_all add: fresh_trans_def test_harness_transactions_def)

lemma status_frame:
  "received img perf (u\<lparr>status := st\<rparr>) = (received img perf u)\<lparr>status := st\<rparr>"
  "out_ready (t\<lparr>status := st\<rparr>) = out_ready t" "out_start (t\<lparr>status := st\<rparr>) a = out_start t a"
  "out_bytes (t\<lparr>status := st\<rparr>) a = out_bytes t a"
  by (simp_all add: received_def out_ready_def out_start_def out_bytes_def valid_channel_def from_dir_def
      perf_config_ok_def config_ok_def kept_bytes_def slot_bytes_def)

section \<open>One call of the manager\<close>

lemma started_inv: "legacy_inv s \<Longrightarrow> legacy_inv (started u s)"
  by (fastforce simp: legacy_inv_def started_def Let_def)

lemma started_simps:
  "lg_trans (started u s) = Some (next_trans (lg_host s))"
  "heap (lg_host (started u s)) (next_trans (lg_host s)) = Some (u\<lparr>status := TRANSACTION_RUNNING\<rparr>)"
  "pl_k_r_hdl (xm (lg_host (started u s))) = pl_k_r_hdl (xm (lg_host s)) @ [run_of (next_trans (lg_host s)) u]"
  "bo_hdl (xm (lg_host (started u s))) = bo_hdl (xm (lg_host s)) @ [length (pl_k_r_hdl (xm (lg_host s)))]"
  "lg_mem (started u s) = lg_mem s"
  by (simp_all add: started_def Let_def)

definition last_run :: "legacy_mgr \<Rightarrow> nat" where
  "last_run s = length (pl_k_r_hdl (xm (lg_host s))) - 1"

text \<open>The state a \<open>waitForRes\<close> leaves that runs into its time limit.\<close>

definition timed_out :: "legacy_mgr \<Rightarrow> legacy_mgr" where
  "timed_out s = (let h = lg_host s; p = the (lg_trans s) in
     s\<lparr>lg_graph_started := False,
       lg_host := h\<lparr>heap := (heap h)(p \<mapsto> (the (heap h p))\<lparr>status := TRANSACTION_TIMEOUT\<rparr>)\<rparr>\<rparr>)"

lemma fetched_received:
  "fetched X i (run_of p u) (u\<lparr>status := st\<rparr>) = received (device_from_aie X i) (device_perf X i) (u\<lparr>status := st\<rparr>)"
  by (simp add: fetched_def received_def)

text \<open>The state a successful \<open>waitForRes\<close> leaves.\<close>

definition finished_state :: "transaction \<Rightarrow> umem \<Rightarrow> legacy_mgr \<Rightarrow> legacy_mgr" where
  "finished_state v um s = (let h = lg_host s; p = the (lg_trans s) in
     s\<lparr>lg_graph_started := False, lg_mem := um,
       lg_host := h\<lparr>heap := (heap h)(p \<mapsto> v\<lparr>status := TRANSACTION_DONE\<rparr>), xm := (xm h)\<lparr>bo_hdl := []\<rparr>\<rparr>\<rparr>)"

lemma finished_valid:
  assumes "lg_trans s = Some p"
  shows "legacy_isResultValid (finished_state v um s) = (Inr (result_valid v), finished_state v um s)"
  using assms by (simp add: legacy_isResultValid_def finished_state_def on_host_def deref_def bindM_def ret_def
      isResultValid_def Let_def)

lemma finished_mgr:
  assumes "lg_trans s = Some p"
  shows "board_mgr N (finished_state v um s) \<longleftrightarrow> lg_num_channels s = of_nat N \<and> lg_word_size s = 16 \<and> lg_memWidth s = 16 \<and>
    legacy_inv (finished_state v um s)"
  using assms by (auto simp: board_mgr_def finished_state_def running_at_def Let_def)

lemma started_fields:
  "lg_num_channels (started u s) = lg_num_channels s" "lg_word_size (started u s) = lg_word_size s"
  "lg_memWidth (started u s) = lg_memWidth s"
  by (simp_all add: started_def Let_def)

lemma finished_inv:
  assumes "legacy_inv s" "lg_trans s = Some p" shows "legacy_inv (finished_state v um s)"
  using assms by (simp add: legacy_inv_def finished_state_def Let_def)

text \<open>A run of a board's kernel on what a transaction has packed.\<close>

definition executes where
  "executes board aie u out perf' mem' \<longleftrightarrow>
     board aie (cfg_ptr u) (perf_ptr u) (words (to_aie_ptr u)) (words (from_aie_ptr u)) out perf' mem'"

section \<open>A mode\<close>

text \<open>The contract of a mode: \<open>legal\<close> calls are packed, in images of \<open>image_bytes\<close> bytes together; the kernel can run on what is
  packed when the design \<open>answers\<close>, and what such a run leaves in its buffers is unpacked to what \<open>arrives\<close>.\<close>

locale transfer_mode =
  fixes md :: TestMode
    and legal :: "nat \<Rightarrow> transaction \<Rightarrow> test_harness_args list \<Rightarrow> bool"
    and image_bytes :: "nat \<Rightarrow> transaction \<Rightarrow> test_harness_args list \<Rightarrow> nat"
    and valid :: "transaction \<Rightarrow> test_harness_args list \<Rightarrow> bool"
    and answers :: "nat \<Rightarrow> transaction \<Rightarrow> test_harness_args list \<Rightarrow>
      ((strm \<Rightarrow> 128 word ap_axiu list) \<Rightarrow> strm \<Rightarrow> 128 word ap_axiu list) \<Rightarrow> umem \<Rightarrow> bool"
    and arrives :: "nat \<Rightarrow> transaction \<Rightarrow> test_harness_args list \<Rightarrow>
      ((strm \<Rightarrow> 128 word ap_axiu list) \<Rightarrow> strm \<Rightarrow> 128 word ap_axiu list) \<Rightarrow>
      umem \<Rightarrow> (strm \<Rightarrow> 128 word ap_axiu list) \<Rightarrow> umem \<Rightarrow> bool"
  assumes mode: "md = FUNC_MODE \<or> md = PERF_MODE"
    and channels: "legal N t args \<Longrightarrow> unat (tr_num_channels t) = N"
    and packs: "legal N t args \<Longrightarrow> \<exists>u. handleInputs um args t = (Inr (), u) \<and> inputs_ready t args u \<and>
      length (to_aie_ptr u) + length (from_aie_ptr u) = image_bytes N t args"
    and can_run: "(N, board) \<in> boards \<Longrightarrow> legal N t args \<Longrightarrow> handleInputs um args t = (Inr (), u) \<Longrightarrow> answers N t args aie um \<Longrightarrow>
      \<exists>out perf' mem'. executes board aie u out perf' mem'"
    and unpacks: "(N, board) \<in> boards \<Longrightarrow> legal N t args \<Longrightarrow> handleInputs um args t = (Inr (), u) \<Longrightarrow>
      executes board aie u out perf' mem' \<Longrightarrow>
      length perf' = length (perf_ptr u) \<and> length (bytes mem') = length (from_aie_ptr u) \<and>
      (\<exists>v um'. handleOutputs (received (bytes mem') perf' (u\<lparr>status := st\<rparr>), um) = (Inr (), (v, um')) \<and>
         result_valid v = valid t args \<and> status v = st \<and> arrives N t args aie um out um')"
begin

lemma legacy_path_wait:
  assumes b: "(N, board) \<in> boards" and m: "board_mgr N s" and l: "legal N (fresh_trans md s) args"
    and h: "handleInputs (lg_mem s) args (fresh_trans md s) = (Inr (), u)"
    and X: "all_finished X (started u s)"
    and k: "runs_kernel (board aie) X (length (pl_k_r_hdl (xm (lg_host s)))) (run_of (next_trans (lg_host s)) u) out"
  shows "\<exists>s2. legacy_waitForRes X (started u s) = (Inr (), s2) \<and>
    legacy_isResultValid s2 = (Inr (valid (fresh_trans md s) args), s2) \<and>
    board_mgr N s2 \<and> arrives N (fresh_trans md s) args aie (lg_mem s) out (lg_mem s2)"
proof -
  let ?s1 = "started u s" and ?i = "length (pl_k_r_hdl (xm (lg_host s)))" and ?n = "next_trans (lg_host s)"
  have inv: "legacy_inv s" "bo_hdl (xm (lg_host s)) = []" using m by (simp_all add: board_mgr_def)
  obtain mem' where mem': "device_from_aie X ?i = bytes mem'" "executes board aie u out (device_perf X ?i) mem'"
    using k unfolding runs_kernel_def executes_def by auto
  obtain v um' where hO: "handleOutputs (received (bytes mem') (device_perf X ?i) (u\<lparr>status := TRANSACTION_RUNNING\<rparr>), lg_mem s) =
      (Inr (), (v, um'))" "result_valid v = valid (fresh_trans md s) args" "arrives N (fresh_trans md s) args aie (lg_mem s) out um'"
    using unpacks [where board = board and aie = aie and mem' = mem', OF b l h mem'(2), of TRANSACTION_RUNNING] by blast
  have f: "fetched X ?i (run_of ?n u) (u\<lparr>status := TRANSACTION_RUNNING\<rparr>) =
      received (bytes mem') (device_perf X ?i) (u\<lparr>status := TRANSACTION_RUNNING\<rparr>)"
    by (simp add: fetched_received mem'(1))
  have "legacy_waitForRes X ?s1 = (Inr (), finished_state v um' ?s1)"
    unfolding finished_state_def Let_def started_simps
    using legacy_wait_done [OF started_inv [OF inv(1)] started_simps(1,2), where X = X and i = ?i and v = v and um = um'] X hO(1)
    by (simp add: started_simps inv(2) all_finished_def f)
  moreover have "legacy_isResultValid (finished_state v um' ?s1) = (Inr (valid (fresh_trans md s) args), finished_state v um' ?s1)"
    unfolding hO(2) [symmetric] by (rule finished_valid [OF started_simps(1)])
  moreover have "board_mgr N (finished_state v um' ?s1)"
    using m started_inv [OF inv(1), of u]
    unfolding finished_mgr [where p = ?n, OF started_simps(1)]
    by (simp add: finished_inv [where p = ?n] started_simps started_fields board_mgr_def)
  moreover have "arrives N (fresh_trans md s) args aie (lg_mem s) out (lg_mem (finished_state v um' ?s1))"
    using hO(3) by (simp add: finished_state_def Let_def)
  ultimately show ?thesis by blast
qed

text \<open>A transaction of the manager on the board, from the call to the user's buffers.\<close>

lemma legacy_path:
  assumes b: "(N, board) \<in> boards" and m: "board_mgr N s" and l: "legal N (fresh_trans md s) args"
  shows "\<exists>s1. legacy_runTestHarness md args s = (Inr (), s1) \<and>
    (\<forall>X out. all_finished X s1 \<and> runs_kernel (board aie) X (last_run s1) (pl_k_r_hdl (xm (lg_host s1)) ! last_run s1) out \<longrightarrow>
      (\<exists>s2. legacy_waitForRes X s1 = (Inr (), s2) \<and> legacy_isResultValid s2 = (Inr (valid (fresh_trans md s) args), s2) \<and>
         board_mgr N s2 \<and> arrives N (fresh_trans md s) args aie (lg_mem s) out (lg_mem s2))) \<and>
    (answers N (fresh_trans md s) args aie (lg_mem s) \<longrightarrow>
      (\<exists>X out. all_finished X s1 \<and> runs_kernel (board aie) X (last_run s1) (pl_k_r_hdl (xm (lg_host s1)) ! last_run s1) out))"
proof -
  obtain u where u: "handleInputs (lg_mem s) args (fresh_trans md s) = (Inr (), u)" "inputs_ready (fresh_trans md s) args u"
    using packs [OF l] by blast
  let ?s1 = "started u s" and ?r = "run_of (next_trans (lg_host s)) u"
  have r1: "legacy_runTestHarness md args s = (Inr (), ?s1)"
    using m mode u by (intro legacy_run_started) (simp_all add: board_mgr_def inputs_ready_def)
  have lr: "last_run ?s1 = length (pl_k_r_hdl (xm (lg_host s)))" "pl_k_r_hdl (xm (lg_host ?s1)) ! length (pl_k_r_hdl (xm (lg_host s))) = ?r"
    by (simp_all add: last_run_def started_simps)
  have live: "\<exists>X out. all_finished X ?s1 \<and> runs_kernel (board aie) X (last_run ?s1) ?r out"
    if a: "answers N (fresh_trans md s) args aie (lg_mem s)"
  proof -
    obtain out perf' mem' where k: "executes board aie u out perf' mem'"
      using can_run [where board = board and aie = aie, OF b l u(1) a] by blast
    let ?X = "\<lparr>finished = (\<lambda>_. True), device_perf = (\<lambda>_. perf'), device_from_aie = (\<lambda>_. bytes mem')\<rparr>"
    have "runs_kernel (board aie) ?X (last_run ?s1) ?r out" "all_finished ?X ?s1"
      using k by (auto simp: runs_kernel_def all_finished_def executes_def)
    then show ?thesis by blast
  qed
  show ?thesis
    by (rule exI [of _ ?s1]) (use r1 live legacy_path_wait [where board = board and aie = aie, OF b m l u(1)] in \<open>simp add: lr\<close>)
qed

end

end
