(* ===== verification/Remote_Transfers.thy ===== *)
theory Remote_Transfers
  imports Remote_Run Transfers
begin

text \<open>
  A transaction of a client whose server has no other, in either mode: the conversation of the client and the session, the
  threads of both, the runtime and the kernel of the board, around the contract of the mode.
\<close>

section \<open>A connected client\<close>

definition remote_ready :: "nat \<Rightarrow> client \<Rightarrow> server \<Rightarrow> bool" where
  "remote_ready N c v \<longleftrightarrow> matched c v \<and> cl_num_channels c = of_nat N \<and> cl_word_size c = 16 \<and> cl_memWidth c = 16"

lemma cl_fresh_simps [simp]:
  "tr_num_channels (cl_fresh md timeout c) = cl_num_channels c" "tr_word_size (cl_fresh md timeout c) = cl_word_size c"
  "mMemWidth (cl_fresh md timeout c) = cl_memWidth c" "tr_mode (cl_fresh md timeout c) = md"
  by (simp_all add: cl_fresh_def test_harness_transactions_def reset_def clearData_def Let_def)

lemma collected_valid:
  assumes "status t = TRANSACTION_DONE"
  shows "cl_isResultValid (-1) (collected t um (submitted u c)) = (Inr (isResultValid t), collected t um (submitted u c))"
  using assms by (simp add: cl_isResultValid_def sanctifyTransIdx_def collected_def submitted_def bindM_def ret_def
      cl_deref_def vec_get_def getStatus_def nth_append)

section \<open>The runtime\<close>

text \<open>What the runtime reports when every run has finished and the last one has left \<open>perf'\<close> and \<open>img'\<close> in its buffers.\<close>

definition last_result :: "server \<Rightarrow> u64 list \<Rightarrow> u8 list \<Rightarrow> xrt" where
  "last_result v perf' img' = \<lparr>finished = \<lambda>_. True,
     device_perf = \<lambda>i. if i = sv_last v then perf' else run_perf (pl_k_r_hdl (xm (sv_host v)) ! i),
     device_from_aie = \<lambda>i. if i = sv_last v then img' else run_from_aie (pl_k_r_hdl (xm (sv_host v)) ! i)\<rparr>"

lemma last_result_sized:
  assumes v: "sv_transactions v = []" and l: "length perf' = length (perf_ptr w)" "length img' = length (from_aie_ptr w)"
  shows "sized (last_result (launched w v) perf' img') (launched w v)"
  using l unfolding sized_def due_launched [OF v]
  by (auto simp: last_result_def launched_facts [OF v] nth_append)

text \<open>The hypotheses about the runtime: every run of the server has finished, its buffers kept their sizes, and the last
  run was one of the kernel of the board around the design \<open>aie\<close>.\<close>

definition runtime_ran ::
  "((strm \<Rightarrow> 128 word ap_axiu list) \<Rightarrow> strm \<Rightarrow> 128 word ap_axiu list) \<Rightarrow>
   (((strm \<Rightarrow> 128 word ap_axiu list) \<Rightarrow> strm \<Rightarrow> 128 word ap_axiu list) \<Rightarrow>
     u64 list \<Rightarrow> u64 list \<Rightarrow> 128 word list \<Rightarrow> 128 word list \<Rightarrow> (strm \<Rightarrow> 128 word ap_axiu list) \<Rightarrow> u64 list \<Rightarrow> 128 word list \<Rightarrow> bool) \<Rightarrow>
   xrt \<Rightarrow> server \<Rightarrow> (strm \<Rightarrow> 128 word ap_axiu list) \<Rightarrow> bool" where
  "runtime_ran aie board X v out \<longleftrightarrow> runs_finished X v \<and> sized X v \<and>
     runs_kernel (board aie) X (sv_last v) (pl_k_r_hdl (xm (sv_host v)) ! sv_last v) out"

section \<open>A transaction over the connection\<close>

text \<open>The bytes of a transaction on the server.\<close>

definition server_bytes :: "nat \<Rightarrow> nat \<Rightarrow> nat" where
  "server_bytes N n = 8 * (8 * N + 1) + 8 * (4 * N) + n"

context transfer_mode
begin

lemma remote_packs:
  assumes "legal N (cl_fresh md timeout c) args" "server_bytes N (image_bytes N (cl_fresh md timeout c) args) \<le> 2 ^ 30"
  shows "\<exists>u. packs md args timeout c u"
proof -
  obtain u where "handleInputs (cl_mem c) args (cl_fresh md timeout c) = (Inr (), u)" "inputs_ready (cl_fresh md timeout c) args u"
    "length (to_aie_ptr u) + length (from_aie_ptr u) = image_bytes N (cl_fresh md timeout c) args"
    using packs [OF assms(1)] by blast
  with assms(2) mode channels [OF assms(1)] show ?thesis
    by (intro exI [of _ u]) (simp add: packs_def inputs_ready_def server_bytes_def trans_bytes_def)
qed

text \<open>A finished run of the server's transaction, unpacked by the client.\<close>

lemma remote_unpacks:
  assumes b: "(N, board) \<in> boards" and l: "legal N (cl_fresh md timeout c) args"
    and q: "packs md args timeout c u" and m: "matched c v"
    and k: "runs_kernel (board aie) X i (run_of pp (sent md u v)) out"
  shows "\<exists>t um. handleOutputs (u\<lparr>status := TRANSACTION_DONE, from_aie_ptr := device_from_aie X i, perf_ptr := device_perf X i\<rparr>, cl_mem c) =
      (Inr (), (t, um)) \<and> isResultValid t = valid (cl_fresh md timeout c) args \<and> status t = TRANSACTION_DONE \<and>
    arrives N (cl_fresh md timeout c) args aie (cl_mem c) out um"
proof -
  have h: "handleInputs (cl_mem c) args (cl_fresh md timeout c) = (Inr (), u)" using q by (simp add: packs_def)
  obtain mem' where k': "device_from_aie X i = bytes mem'" "executes board aie u out (device_perf X i) mem'"
    using k by (auto simp: runs_kernel_def executes_def sent_same [OF q m])
  from unpacks [OF b l h k'(2), of TRANSACTION_DONE] show ?thesis
    by (simp add: received_def isResultValid_def k'(1)) blast
qed

lemma remote_waits:
  assumes b: "(N, board) \<in> boards" and r: "remote_ready N c v" and l: "legal N (cl_fresh md timeout c) args"
    and q: "packs md args timeout c u"
    and X: "runtime_ran aie board X (launched (sent md u v) v) out"
  shows "\<exists>v3 c2 s2 v4. pl_step X (launched (sent md u v) v) v3 \<and>
    calls P X (cl_thread_round (cl_next c)) (submitted u c, s\<lparr>ss_mgr := Some v3\<rparr>) () (c2, s2) \<and>
    cl_threads c2 (cl_next c) = Some CL_Ended \<and> cl_isResultValid (-1) c2 = (Inr (valid (cl_fresh md timeout c) args), c2) \<and>
    ss_mgr s2 = Some v4 \<and> (cl_trans_id c + 1 \<noteq> 0 \<longrightarrow> remote_ready N c2 v4) \<and> cl_depth c2 = cl_depth c \<and>
    arrives N (cl_fresh md timeout c) args aie (cl_mem c) out (cl_mem c2)"
proof -
  let ?w = "sent md u v"
  have m: "matched c v" and v: "sv_transactions v = []" using r by (simp_all add: remote_ready_def matched_def)
  note f = launched_facts [OF v, of ?w]
  have X': "runs_finished X (launched ?w v)" "sized X (launched ?w v)"
    "runs_kernel (board aie) X (sv_last (launched ?w v)) (run_of (next_trans (sv_host v)) ?w) out"
    using X by (simp_all add: runtime_ran_def f)
  obtain t um where h: "handleOutputs (u\<lparr>status := TRANSACTION_DONE, from_aie_ptr := device_from_aie X (sv_last (launched ?w v)),
      perf_ptr := device_perf X (sv_last (launched ?w v))\<rparr>, cl_mem c) = (Inr (), (t, um))"
    and t: "isResultValid t = valid (cl_fresh md timeout c) args" "status t = TRANSACTION_DONE"
    and tr: "arrives N (cl_fresh md timeout c) args aie (cl_mem c) out um"
    using remote_unpacks [where board = board and aie = aie, OF b l q m X'(3)] by (elim exE conjE)
  let ?c2 = "collected t um (submitted u c)" and ?v3 = "completed X ?w v"
  have c: "calls P X (cl_thread_round (cl_next c)) (submitted u c, s\<lparr>ss_mgr := Some ?v3\<rparr>) ()
      (?c2, s\<lparr>ss_mgr := Some ?v3, mActive := True, ss_mgr := Some (handed_over X ?w v)\<rparr>)"
    using remote_collect [where P = P, OF q m _ X'(1,2) h, of "s\<lparr>ss_mgr := Some ?v3\<rparr>"] by simp
  have "remote_ready N ?c2 (handed_over X ?w v)" if "cl_trans_id c + 1 \<noteq> 0"
    using handed_over_matched [OF q m X'(1,2) that] r by (simp add: remote_ready_def collected_def submitted_def)
  moreover have "cl_threads ?c2 (cl_next c) = Some CL_Ended" "cl_mem ?c2 = um" "cl_depth ?c2 = cl_depth c"
    by (simp_all add: collected_def submitted_def)
  moreover note server_ends [OF sent_admitted [OF q m] v sent_same(6) [OF q m] X'(1)] c collected_valid [OF t(2), unfolded t(1)] tr
  ultimately show ?thesis
    by (intro exI [of _ ?v3] exI [of _ ?c2] exI [of _ "s\<lparr>ss_mgr := Some ?v3, mActive := True, ss_mgr := Some (handed_over X ?w v)\<rparr>"]
        exI [of _ "handed_over X ?w v"]) simp
qed

lemma remote_can_finish:
  assumes b: "(N, board) \<in> boards" and m: "matched c v" and l: "legal N (cl_fresh md timeout c) args"
    and q: "packs md args timeout c u" and a: "answers N (cl_fresh md timeout c) args aie (cl_mem c)"
  shows "\<exists>X out. runtime_ran aie board X (launched (sent md u v) v) out"
proof -
  let ?w = "sent md u v"
  have v: "sv_transactions v = []" using m by (simp add: matched_def)
  note f = launched_facts [OF v, of ?w] and same = sent_same [OF q m]
  have h: "handleInputs (cl_mem c) args (cl_fresh md timeout c) = (Inr (), u)" using q by (simp add: packs_def)
  obtain out perf' mem' where k: "executes board aie u out perf' mem'" using can_run [OF b l h a] by blast
  let ?X = "last_result (launched ?w v) perf' (bytes mem')"
  have "sized ?X (launched ?w v)"
  proof (rule last_result_sized [OF v])
    show "length perf' = length (perf_ptr ?w)" "length (bytes mem') = length (from_aie_ptr ?w)"
      unfolding same using unpacks [OF b l h k] by (rule conjunct1, simp only:)
  qed
  moreover have "runs_kernel (board aie) ?X (sv_last (launched ?w v)) (run_of (next_trans (sv_host v)) ?w) out"
    unfolding runs_kernel_def
  proof (intro exI conjI)
    show "device_from_aie ?X (sv_last (launched ?w v)) = bytes mem'" by (simp add: last_result_def)
    have "device_perf ?X (sv_last (launched ?w v)) = perf'" by (simp add: last_result_def)
    then show "board aie (run_cfg (run_of (next_trans (sv_host v)) ?w)) (run_perf (run_of (next_trans (sv_host v)) ?w))
        (words (run_to_aie (run_of (next_trans (sv_host v)) ?w))) (words (run_from_aie (run_of (next_trans (sv_host v)) ?w))) out
        (device_perf ?X (sv_last (launched ?w v))) mem'"
      using k by (simp only: run_of_simps same executes_def)
  qed
  moreover have "runs_finished ?X (launched ?w v)" by (simp add: runs_finished_def last_result_def)
  ultimately show ?thesis by (auto simp: runtime_ran_def f)
qed

text \<open>A transaction over the connection, from the call to the user's buffers.\<close>

lemma remote_path:
  assumes b: "(N, board) \<in> boards" and r: "remote_ready N c v" and s: "ss_mgr s = Some v"
    and l: "legal N (cl_fresh md timeout c) args"
    and n: "server_bytes N (image_bytes N (cl_fresh md timeout c) args) \<le> 2 ^ 30"
  shows "\<exists>c1 s1 v1 v2. calls P Y (cl_runTestHarness md args timeout) (c, s) () (c1, s1) \<and>
    ss_mgr s1 = Some v1 \<and> pl_step Y v1 v2 \<and>
    calls P Y (cl_thread_round (cl_next c)) (c1, s1\<lparr>ss_mgr := Some v2\<rparr>) () (c1, s1\<lparr>ss_mgr := Some v2\<rparr>) \<and>
    (\<forall>X out. runtime_ran aie board X v2 out \<longrightarrow>
      (\<exists>v3 c2 s2 v4. pl_step X v2 v3 \<and>
         calls P X (cl_thread_round (cl_next c)) (c1, s1\<lparr>ss_mgr := Some v3\<rparr>) () (c2, s2) \<and>
         cl_threads c2 (cl_next c) = Some CL_Ended \<and>
         cl_isResultValid (-1) c2 = (Inr (valid (cl_fresh md timeout c) args), c2) \<and>
         ss_mgr s2 = Some v4 \<and> (cl_trans_id c + 1 \<noteq> 0 \<longrightarrow> remote_ready N c2 v4) \<and> cl_depth c2 = cl_depth c \<and>
         arrives N (cl_fresh md timeout c) args aie (cl_mem c) out (cl_mem c2))) \<and>
    (answers N (cl_fresh md timeout c) args aie (cl_mem c) \<longrightarrow> (\<exists>X out. runtime_ran aie board X v2 out))"
proof -
  obtain u where q: "packs md args timeout c u" using remote_packs [OF l n] by blast
  have m: "matched c v" "sv_transactions v = []" using r by (simp_all add: remote_ready_def matched_def)
  let ?w = "sent md u v"
  let ?v1 = "admitted ?w v" and ?v2 = "launched ?w v"
  let ?s1 = "s\<lparr>mActive := True, ss_mgr := Some ?v1\<rparr>"
  have poll: "calls P Y (cl_thread_round (cl_next c)) (submitted u c, ?s1\<lparr>ss_mgr := Some ?v2\<rparr>) () (submitted u c, ?s1\<lparr>ss_mgr := Some ?v2\<rparr>)"
    by (rule remote_polls [OF q m(1)]) simp
  show ?thesis
    using remote_submit [OF q m(1) s] server_begins [OF sent_admitted [OF q m(1)] m(2)] poll
      remote_waits [OF b r l q] remote_can_finish [OF b m(1) l q]
    by (intro exI [of _ "submitted u c"] exI [of _ ?s1] exI [of _ ?v1] exI [of _ ?v2]) simp
qed

end

end
