(* ===== verification/End_To_End_Claims.thy ===== *)
theory End_To_End_Claims
  imports Remote_Transfers
begin

text \<open>
  The whole path of a transaction: from the user's buffers through the manager, the kernel and the AI Engine
  design back into the user's buffers; and the manager's own state machine.
\<close>

definition user_args_ok :: "transaction \<Rightarrow> test_harness_args list \<Rightarrow> bool" where
  "user_args_ok t args \<longleftrightarrow> (\<forall>a \<in> set args. accepted t a \<and> repetition a = 1) \<and> distinct (map idx args) \<and>
     fits 16 args \<and> user_buffers_disjoint t args"

text \<open>The words on the ports are the user's data, and the words that come back end in the user's memory.\<close>

definition user_sent ::
  "nat \<Rightarrow> transaction \<Rightarrow> test_harness_args list \<Rightarrow> umem \<Rightarrow> (strm \<Rightarrow> 128 word ap_axiu list) \<Rightarrow> bool" where
  "user_sent N t args um out \<longleftrightarrow>
     (\<forall>a \<in> set args. to_dir t (idx a) \<longrightarrow>
        out (To (to_chn a)) = map axi_word (words (mem_read um (data a) (unat (size_in_byte a))))) \<and>
     (\<forall>c < N. (\<forall>a \<in> set args. to_dir t (idx a) \<longrightarrow> to_chn a \<noteq> c) \<longrightarrow> out (To c) = [])"

definition design_answers ::
  "nat \<Rightarrow> transaction \<Rightarrow> test_harness_args list \<Rightarrow>
    ((strm \<Rightarrow> 128 word ap_axiu list) \<Rightarrow> strm \<Rightarrow> 128 word ap_axiu list) \<Rightarrow> umem \<Rightarrow> bool" where
  "design_answers N t args aie um \<longleftrightarrow> (\<forall>out. user_sent N t args um out \<longrightarrow>
     (\<forall>a \<in> set args. from_dir t (idx a) \<longrightarrow>
        unat (size_in_byte a) div 16 \<le> length (aie out (From (from_chn a)))))"

definition user_transfer ::
  "nat \<Rightarrow> transaction \<Rightarrow> test_harness_args list \<Rightarrow>
    ((strm \<Rightarrow> 128 word ap_axiu list) \<Rightarrow> strm \<Rightarrow> 128 word ap_axiu list) \<Rightarrow>
    umem \<Rightarrow> (strm \<Rightarrow> 128 word ap_axiu list) \<Rightarrow> umem \<Rightarrow> bool" where
  "user_transfer N t args aie um out um' \<longleftrightarrow>
     user_sent N t args um out \<and>
     (\<forall>a \<in> set args. from_dir t (idx a) \<longrightarrow>
        (let n = unat (size_in_byte a) div 16; xs = aie out (From (from_chn a)) in
         n \<le> length xs \<and> mem_read um' (data a) (unat (size_in_byte a)) = bytes (map axi_data (take n xs)))) \<and>
     (\<forall>p k. (\<forall>a \<in> set args. from_dir t (idx a) \<longrightarrow> mem_disjoint p k (data a) (unat (size_in_byte a))) \<longrightarrow>
        mem_read um' p k = mem_read um p k)"

section \<open>Transfer\<close>

text \<open>The regions of a packed transaction on the ports are the user's data.\<close>

lemma packed_sent:
  assumes w: "tr_word_size t = 16" "mMemWidth t = 16" and acc: "\<forall>a \<in> set args. accepted t a"
    and rows: "rows_ok (to_dir t) to_chn N (cfg_ptr u) 0 args"
    and rd: "inputs_ready t args u" and lay: "func_layout um u args"
    and len: "length (to_aie_ptr u) = dir_units (to_dir t) 16 args * 16"
    and out: "\<forall>ch < N. out (To ch) = map axi_word
      (take (cfg_frames N (cfg_ptr u) 0 ch) (drop (cfg_offset N (cfg_ptr u) 0 ch) (words (to_aie_ptr u))))"
  shows "user_sent N t args um out"
  unfolding user_sent_def
proof (intro conjI ballI allI impI)
  fix a assume a: "a \<in> set args" "to_dir t (idx a)"
  then obtain i where i: "i < length args" "args ! i = a" by (auto simp: in_set_conv_nth)
  have c: "to_chn a < N" using rows i a(2) unfolding rows_ok_def by blast
  show "out (To (to_chn a)) = map axi_word (words (mem_read um (data a) (unat (size_in_byte a))))"
    using out c packed_region_to [OF rows i(1) _ w(1) acc rd w(2) lay len] i a(2) by simp
next
  fix c assume c: "c < N" "\<forall>a \<in> set args. to_dir t (idx a) \<longrightarrow> to_chn a \<noteq> c"
  then have "cfg_frames N (cfg_ptr u) 0 c = 0" using rows unfolding rows_ok_def by blast
  then show "out (To c) = []" using out c(1) by simp
qed

lemma board_transfer:
  assumes ok: "config_ok t" and md: "tr_mode t = FUNC_MODE" and N: "unat (tr_num_channels t) = N" "0 < N"
    and w: "tr_word_size t = 16" "mMemWidth t = 16" and args: "user_args_ok t args"
    and rd: "inputs_ready t args u" and lay: "func_layout um u args"
    and len: "length (to_aie_ptr u) = dir_units (to_dir t) 16 args * 16"
      "length (from_aie_ptr u) = dir_units (from_dir t) 16 args * 16"
    and bd: "board_done N (cfg_ptr u) (words (to_aie_ptr u)) (words (from_aie_ptr u)) aie out mem'"
    and perf: "length perf = 4 * N"
  shows "\<exists>v um'. handleOutputs (received (bytes mem') perf (u\<lparr>status := st\<rparr>), um) = (Inr (), (v, um')) \<and>
    result_valid v = result_valid u \<and> status v = st \<and> user_transfer N t args aie um out um'"
proof -
  have acc: "\<forall>a \<in> set args. accepted t a" and dist: "distinct (map idx args)" and fit: "fits 16 args"
    and dis: "user_buffers_disjoint t args" using args by (simp_all add: user_args_ok_def)
  note rows = packed_rows [OF ok w acc dist fit rd lay, unfolded N(1)]
  have img: "length (bytes mem') = dir_units (from_dir t) 16 args * 16"
    using bd len(2) by (simp add: board_done_def)
  have fit': "fits (unat (mMemWidth t)) args" using fit w by simp
  note o = func_out_ready [OF ok md acc dist fit' rd lay, unfolded w, simplified, OF img perf [folded N(1)]]
  let ?r = "received (bytes mem') perf (u\<lparr>status := st\<rparr>)"
  have o1: "out_ready ?r" using o(1) by (simp add: status_frame)
  have o2: "out_start ?r (args ! i) = dir_units (from_dir t) 16 (take i args) * 16"
    if "i < length args" "from_dir t (idx (args ! i))" for i using o(2) [OF that] by (simp add: status_frame)
  have p: "args_rec ?r = args" "tr_num_channels ?r = tr_num_channels t" "tr_mode ?r = FUNC_MODE"
    "perf_ptr ?r = perf" "from_aie_ptr ?r = bytes mem'"
    using rd md by (simp_all add: received_def inputs_ready_def)
  have d: "from_dir ?r = from_dir t" by (simp add: from_dir_def p)
  have "out_disjoint ?r (args_rec ?r)" unfolding p by (rule user_out_disjoint [OF dis p(2)])
  from handleOutputs_run [OF o1 this, of um] obtain pm um' where
    run: "handleOutputs (?r, um) = (Inr (), (clearData (?r\<lparr>perf_map := pm\<rparr>), um'))" and dn: "outputs_done ?r args um um'"
    unfolding p by blast
  have "user_transfer N t args aie um out um'"
    unfolding user_transfer_def
  proof (intro conjI ballI allI impI)
    show "user_sent N t args um out"
      using bd by (intro packed_sent [OF w acc rows(1) rd lay len(1)]) (simp add: board_done_def)
  next
    fix p k assume "\<forall>a \<in> set args. from_dir t (idx a) \<longrightarrow> mem_disjoint p k (data a) (unat (size_in_byte a))"
    then have "\<forall>a \<in> set args. from_dir ?r (idx a) \<longrightarrow> mem_disjoint p k (data a) (out_bytes ?r a)"
      unfolding d using mem_disjoint_mono [OF _ order_refl out_bytes_le] by blast
    then show "mem_read um' p k = mem_read um p k" using dn unfolding outputs_done_def by blast
  next
    fix a assume a: "a \<in> set args" "from_dir t (idx a)"
    then obtain i where i: "i < length args" "args ! i = a" by (auto simp: in_set_conv_nth)
    let ?d = "dir_units (from_dir t) 16 (take i args)" and ?c = "from_chn a" and ?n = "units 16 a"
    have c: "?c < N" "cfg_frames N (cfg_ptr u) 4 ?c = ?n" "cfg_offset N (cfg_ptr u) 4 ?c = ?d"
      using rows(2) i a(2) unfolding rows_ok_def by blast+
    have s: "unat (size_in_byte a) = 16 * ?n" using acc a w(1) by (intro units_16) (simp add: accepted_def aligned_def)
    have b: "take ?n (drop ?d mem') = map axi_data (take ?n (aie out (From ?c)))" "?n \<le> length (aie out (From ?c))"
      using bd c unfolding board_done_def by auto
    have st: "out_start ?r a = ?d * 16" using o2 [of i] i a(2) by simp
    have ob: "out_bytes ?r a = 16 * ?n" using p s by (simp add: out_bytes_def)
    then have "out_slice ?r a = bytes (take ?n (drop ?d mem'))"
      using st p by (simp add: out_slice_def bytes_slice mult.commute)
    then have sl: "out_slice ?r a = bytes (map axi_data (take ?n (aie out (From ?c))))" using b(1) by simp
    have "mem_read um' (data a) (out_bytes ?r a) = out_slice ?r a"
      using dn i a(2) unfolding outputs_done_def d by blast
    then show "let n = unat (size_in_byte a) div 16; xs = aie out (From ?c) in
        n \<le> length xs \<and> mem_read um' (data a) (unat (size_in_byte a)) = bytes (map axi_data (take n xs))"
      using b(2) s by (simp add: sl ob)
  qed
  with run show ?thesis by (auto simp: clearData_def received_def)
qed

lemma board_runs:
  assumes ok: "config_ok t" and md: "tr_mode t = FUNC_MODE" and N: "unat (tr_num_channels t) = N" "0 < N"
    and w: "tr_word_size t = 16" "mMemWidth t = 16" and args: "user_args_ok t args"
    and rd: "inputs_ready t args u" and lay: "func_layout um u args"
    and len: "length (to_aie_ptr u) = dir_units (to_dir t) 16 args * 16"
      "length (from_aie_ptr u) = dir_units (from_dir t) 16 args * 16"
    and ans: "design_answers N t args aie um"
  shows "board_answers N (cfg_ptr u) (words (to_aie_ptr u)) aie"
  unfolding board_answers_def
proof (intro allI impI)
  have acc: "\<forall>a \<in> set args. accepted t a" and dist: "distinct (map idx args)" and fit: "fits 16 args"
    using args by (simp_all add: user_args_ok_def)
  note rows = packed_rows [OF ok w acc dist fit rd lay, unfolded N(1)]
  fix out c
  assume out: "\<forall>ch < N. out (To ch) = map axi_word
      (take (cfg_frames N (cfg_ptr u) 0 ch) (drop (cfg_offset N (cfg_ptr u) 0 ch) (words (to_aie_ptr u))))" and c: "c < N"
  have a: "\<forall>a \<in> set args. from_dir t (idx a) \<longrightarrow> unat (size_in_byte a) div 16 \<le> length (aie out (From (from_chn a)))"
    using ans packed_sent [OF w acc rows(1) rd lay len(1) out] unfolding design_answers_def by blast
  show "cfg_frames N (cfg_ptr u) 4 c \<le> length (aie out (From c))"
  proof (cases rule: rows_named [OF rows(2) c, case_names unused used])
    case (used i)
    have "unat (size_in_byte (args ! i)) = 16 * units 16 (args ! i)"
      using acc used(1) w(1) by (intro units_16) (simp add: accepted_def aligned_def)
    then show ?thesis using a used nth_mem [OF used(1)] by fastforce
  qed simp
qed

lemma board_perf_length:
  fixes to_mem :: "128 word list" and out :: "strm \<Rightarrow> 128 word ap_axiu list"
  assumes rdy: "Kernel_Run.func_ready 1 N cfg perf to_mem from_mem"
    and run: "board_kernel ks N D aie cfg perf to_mem from_mem out perf' mem'"
  shows "length perf' = 4 * N"
proof -
  obtain sent where k: "kernel N D (\<lambda>sent ch. aie (port_words ks N sent) (the (store_port ks ch)))
      cfg perf to_mem from_mem sent perf' mem'"
    using run unfolding board_kernel_def by blast
  show ?thesis by (rule kernel_func_run(7) [OF k]) (use rdy in \<open>simp add: demo_ratio\<close>)
qed

section \<open>Packing, running, unpacking\<close>

definition board_trans :: "nat \<Rightarrow> transaction \<Rightarrow> test_harness_args list \<Rightarrow> bool" where
  "board_trans N t args \<longleftrightarrow> 0 < N \<and> config_ok t \<and> tr_mode t = FUNC_MODE \<and> unat (tr_num_channels t) = N \<and>
     tr_word_size t = 16 \<and> mMemWidth t = 16 \<and> user_args_ok t args"

definition board_packed :: "nat \<Rightarrow> transaction \<Rightarrow> test_harness_args list \<Rightarrow> umem \<Rightarrow> transaction \<Rightarrow> bool" where
  "board_packed N t args um u \<longleftrightarrow> board_trans N t args \<and> handleInputs um args t = (Inr (), u) \<and> inputs_ready t args u \<and>
     result_valid u \<and> func_layout um u args \<and>
     length (to_aie_ptr u) = dir_units (to_dir t) 16 args * 16 \<and>
     length (from_aie_ptr u) = dir_units (from_dir t) 16 args * 16"

lemma board_packs:
  assumes "board_trans N t args" shows "\<exists>u. board_packed N t args um u"
proof -
  have "config_ok t" "tr_mode t = FUNC_MODE" "\<forall>a \<in> set args. accepted t a" "\<forall>a \<in> set args. repetition a = 1"
    "fits (unat (mMemWidth t)) args" and w: "mMemWidth t = 16"
    using assms by (simp_all add: board_trans_def user_args_ok_def)
  from handleInputs_func_run [OF this(1-5), of um] show ?thesis
    using assms unfolding board_packed_def w by auto
qed

lemma board_packed_ready:
  assumes "board_packed N t args um u"
  shows "Kernel_Run.func_ready 1 N (cfg_ptr u) (perf_ptr u) (words (to_aie_ptr u)) (words (from_aie_ptr u))"
  using assms packed_kernel_ready [of t args u um]
  by (simp add: board_packed_def board_trans_def user_args_ok_def)

text \<open>A finished run of a packed transaction, unpacked.\<close>

lemma board_unpacks:
  assumes b: "(N, board) \<in> boards" and p: "board_packed N t args um u"
    and k: "executes board aie u out perf' mem'"
  shows "\<exists>v um'. handleOutputs (received (bytes mem') perf' (u\<lparr>status := st\<rparr>), um) = (Inr (), (v, um')) \<and>
    result_valid v \<and> status v = st \<and> user_transfer N t args aie um out um'"
proof -
  obtain ks D where bk: "board = board_kernel ks N D" "wired ks N" using boards_kernel [OF b] by blast
  note r = board_packed_ready [OF p] and k' = k [unfolded executes_def bk(1)]
  have v: "result_valid u" using p by (simp add: board_packed_def)
  have "\<exists>v um'. handleOutputs (received (bytes mem') perf' (u\<lparr>status := st\<rparr>), um) = (Inr (), (v, um')) \<and>
      result_valid v = result_valid u \<and> status v = st \<and> user_transfer N t args aie um out um'"
    by (rule board_transfer [OF _ _ _ _ _ _ _ _ _ _ _ board_kernel_done [OF bk(2) r k'] board_perf_length [OF r k']])
      (use p in \<open>simp_all add: board_packed_def board_trans_def\<close>)
  with v show ?thesis by simp
qed

lemma board_can_run:
  assumes b: "(N, board) \<in> boards" and p: "board_packed N t args um u" and a: "design_answers N t args aie um"
  shows "\<exists>out perf' mem'. executes board aie u out perf' mem'"
proof -
  obtain ks D where bk: "board = board_kernel ks N D" "wired ks N" using boards_kernel [OF b] by blast
  have "board_answers N (cfg_ptr u) (words (to_aie_ptr u)) aie"
    using p a board_runs [of t N args u um aie] by (simp add: board_packed_def board_trans_def)
  then show ?thesis unfolding executes_def bk(1) by (rule board_kernel_exists [OF bk(2) board_packed_ready [OF p]])
qed

lemma board_mgr_trans:
  assumes "(N, board) \<in> boards" "board_mgr N s" "user_args_ok (fresh_trans FUNC_MODE s) args"
  shows "board_trans N (fresh_trans FUNC_MODE s) args"
proof -
  have N: "0 < N" "N \<le> 36" using boards_kernel [OF assms(1)] by blast+
  then have n: "unat (of_nat N :: u32) = N" by (intro unat_of_nat_small) simp
  moreover have "(of_nat N :: u32) \<noteq> 0" using n N by (metis less_irrefl unat_0)
  ultimately show ?thesis
    using assms N by (simp add: board_trans_def board_mgr_def config_ok_def)
qed

lemma board_packed_here:
  assumes "board_trans N t args" "handleInputs um args t = (Inr (), u)" shows "board_packed N t args um u"
  using board_packs [OF assms(1), of um] assms(2) by (auto simp: board_packed_def)

lemma board_run_sizes:
  assumes b: "(N, board) \<in> boards" and p: "board_packed N t args um u"
    and k: "executes board aie u out perf' mem'"
  shows "length perf' = length (perf_ptr u) \<and> length (bytes mem') = length (from_aie_ptr u)"
proof -
  obtain ks D where bk: "board = board_kernel ks N D" "wired ks N" using boards_kernel [OF b] by blast
  note r = board_packed_ready [OF p] and k' = k [unfolded executes_def bk(1)]
  show ?thesis
    using board_perf_length [OF r k'] board_kernel_done [OF bk(2) r k'] p
    by (simp add: board_packed_def board_trans_def inputs_ready_def board_done_def)
qed

text \<open>Functional mode.\<close>

definition func_bytes :: "nat \<Rightarrow> transaction \<Rightarrow> test_harness_args list \<Rightarrow> nat" where
  "func_bytes N t args = 16 * dir_units (to_dir t) 16 args + 16 * dir_units (from_dir t) 16 args"

interpretation func: transfer_mode FUNC_MODE board_trans func_bytes "\<lambda>t args. True" design_answers user_transfer
proof
  show "\<exists>u. handleInputs um args t = (Inr (), u) \<and> inputs_ready t args u \<and>
      length (to_aie_ptr u) + length (from_aie_ptr u) = func_bytes N t args"
    if legal: "board_trans N t args" for N t args um
  proof -
    obtain u where "board_packed N t args um u" using board_packs [OF legal] by blast
    then have "handleInputs um args t = (Inr (), u)" "inputs_ready t args u"
      "length (to_aie_ptr u) + length (from_aie_ptr u) = func_bytes N t args"
      by (simp_all only: board_packed_def func_bytes_def mult.commute)
    then show ?thesis by blast
  qed
  show "\<exists>out perf' mem'. executes board aie u out perf' mem'"
    if "(N, board) \<in> boards" "board_trans N t args" "handleInputs um args t = (Inr (), u)" "design_answers N t args aie um"
    for N board t args um u aie
    by (rule board_can_run [OF that(1) board_packed_here [OF that(2,3)] that(4)])
  show "length perf' = length (perf_ptr u) \<and> length (bytes mem') = length (from_aie_ptr u) \<and>
      (\<exists>v um'. handleOutputs (received (bytes mem') perf' (u\<lparr>status := st\<rparr>), um) = (Inr (), (v, um')) \<and>
         result_valid v = True \<and> status v = st \<and> user_transfer N t args aie um out um')"
    if "(N, board) \<in> boards" "board_trans N t args" "handleInputs um args t = (Inr (), u)"
      "executes board aie u out perf' mem'"
    for N board t args um u aie out perf' mem' st
    using board_run_sizes [OF that(1) board_packed_here [OF that(2,3)] that(4)]
      board_unpacks [OF that(1) board_packed_here [OF that(2,3)] that(4)] by simp
qed (simp_all add: board_trans_def)

section \<open>Properties\<close>

text \<open>C26: a functional transaction of the on-board manager, end to end. On every board, \<open>runTestHarness\<close> followed by
  \<open>waitForRes\<close> puts the data of each user buffer for a channel to the AI Engine on the port of that channel, nothing
  on the ports of the other channels, and leaves the words that came back on the port of each channel
  from the AI Engine in the user's buffer for it and the rest of the user's memory as it was; the result is then valid,
  the manager can take the next transaction, and the kernel can always finish when the design answers with enough words.\<close>

theorem legacy_end_to_end:
  assumes "(N, board) \<in> boards" and "board_mgr N s" and "user_args_ok (fresh_trans FUNC_MODE s) args"
  defines "t \<equiv> fresh_trans FUNC_MODE s"
  shows "\<exists>s1. legacy_runTestHarness FUNC_MODE args s = (Inr (), s1) \<and>
    (\<forall>X out. all_finished X s1 \<and> runs_kernel (board aie) X (last_run s1) (pl_k_r_hdl (xm (lg_host s1)) ! last_run s1) out \<longrightarrow>
      (\<exists>s2. legacy_waitForRes X s1 = (Inr (), s2) \<and> legacy_isResultValid s2 = (Inr True, s2) \<and> board_mgr N s2 \<and>
         user_transfer N t args aie (lg_mem s) out (lg_mem s2))) \<and>
    (design_answers N t args aie (lg_mem s) \<longrightarrow>
      (\<exists>X out. all_finished X s1 \<and> runs_kernel (board aie) X (last_run s1) (pl_k_r_hdl (xm (lg_host s1)) ! last_run s1) out))"
  unfolding t_def by (rule func.legacy_path [OF assms(1,2) board_mgr_trans [OF assms(1-3)]])

text \<open>Two buffers of 32 bytes, for the first channel in each direction.\<close>

definition loop_args :: "test_harness_args list" where
  "loop_args = [\<lparr>idx = 0, size_in_byte = 32, repetition = 1, delay = 0, data = 0\<rparr>,
     \<lparr>idx = 36, size_in_byte = 32, repetition = 1, delay = 0, data = 64\<rparr>]"

definition loop_mgr :: legacy_mgr where
  "loop_mgr = new_legacy_mgr 36 16 4096 16 demo_mem"

lemma loop_fresh: "fresh_trans md loop_mgr = test_harness_transactions 0 md 36 16 4096 16 0"
  by (simp add: fresh_trans_def loop_mgr_def new_legacy_mgr_def)

lemma loop_dirs: "to_dir (fresh_trans md loop_mgr) i \<longleftrightarrow> unat i < 36" "from_dir (fresh_trans md loop_mgr) i \<longleftrightarrow> 36 \<le> unat i \<and> unat i < 72"
  by (simp_all add: loop_fresh to_dir_def from_dir_def is_to_aie_iff is_from_aie_iff test_harness_transactions_def)

lemma loop_args_ok: "user_args_ok (fresh_trans FUNC_MODE loop_mgr) loop_args"
proof -
  have "accepted (fresh_trans FUNC_MODE loop_mgr) a" if "a \<in> set loop_args" for a
    using that by (auto simp: loop_args_def accepted_def valid_channel_def aligned_def loop_fresh test_harness_transactions_def
        is_to_aie_iff is_from_aie_iff)
  moreover have "user_buffers_disjoint (fresh_trans FUNC_MODE loop_mgr) loop_args"
    by (auto simp: user_buffers_disjoint_def loop_args_def loop_dirs less_Suc_eq)
  ultimately show ?thesis by (auto simp: user_args_ok_def loop_args_def fits_def)
qed

lemma new_mgr_inv: "legacy_inv (new_legacy_mgr nc ws d mw um)"
  by (simp add: legacy_inv_def new_legacy_mgr_def)

lemma loop_board_mgr: "board_mgr 36 loop_mgr"
  unfolding board_mgr_def loop_mgr_def by (simp add: new_mgr_inv) (simp add: new_legacy_mgr_def running_at_def)

lemma loop_answers: "design_answers 36 (fresh_trans FUNC_MODE loop_mgr) loop_args board_loopback (lg_mem loop_mgr)"
  by (auto simp: design_answers_def user_sent_def loop_args_def loop_dirs board_loopback_def to_chn_def from_chn_def)

lemma loop_mem: "lg_mem loop_mgr = demo_mem"
  by (simp add: loop_mgr_def new_legacy_mgr_def)

lemma loop_transfer:
  assumes tr: "user_transfer 36 (fresh_trans FUNC_MODE loop_mgr) loop_args board_loopback demo_mem out um'"
  shows "mem_read um' 64 32 = mem_read demo_mem 0 32"
proof -
  let ?bs = "mem_read demo_mem 0 32"
  have "out (To 0) = map axi_word (words ?bs)"
    using tr by (auto simp: user_transfer_def user_sent_def loop_args_def loop_dirs to_chn_def)
  then have "mem_read um' 64 32 = bytes (map axi_data (take 2 (map axi_word (words ?bs))))"
    using tr by (auto simp: user_transfer_def loop_args_def loop_dirs from_chn_def board_loopback_def Let_def)
  also have "take 2 (map axi_word (words ?bs)) = map axi_word (words ?bs)" by (intro take_all) simp
  also have "bytes (map axi_data (map axi_word (words ?bs))) = ?bs"
    by (simp add: bytes_words comp_def axi_data_word)
  finally show ?thesis .
qed

theorem legacy_end_to_end_witness:
  "\<exists>s1 X s2. legacy_runTestHarness FUNC_MODE loop_args loop_mgr = (Inr (), s1) \<and> legacy_waitForRes X s1 = (Inr (), s2) \<and>
     mem_read (lg_mem s2) 64 32 = mem_read demo_mem 0 32"
proof -
  obtain s1 X out s2 where r: "legacy_runTestHarness FUNC_MODE loop_args loop_mgr = (Inr (), s1)"
    "legacy_waitForRes X s1 = (Inr (), s2)"
    and tr: "user_transfer 36 (fresh_trans FUNC_MODE loop_mgr) loop_args board_loopback (lg_mem loop_mgr) out (lg_mem s2)"
    using legacy_end_to_end [of 36 vck190_test_harness loop_mgr loop_args board_loopback] loop_board_mgr loop_args_ok loop_answers
    by (fastforce simp: boards_def)
  with loop_transfer show ?thesis unfolding loop_mem by blast
qed

text \<open>C27: the manager's protocol. In every state that calls of the manager can reach, whether they returned or threw, the
  manager owns the only live transaction; while it runs, \<open>runTestHarness\<close> throws, and while none runs, \<open>waitForRes\<close> throws,
  and both leave everything as it was.\<close>

theorem legacy_protocol:
  assumes "legacy_reachable s"
  shows "legacy_inv s \<and>
    (running_at s \<longrightarrow> (\<forall>md args. legacy_runTestHarness md args s =
      (Inl (TestHarnessException (if md = FUNC_MODE \<or> md = PERF_MODE then INVALID_OPERATIONS else INVALID_ARGUMENTS)), s))) \<and>
    (\<not> running_at s \<longrightarrow> (\<forall>X. legacy_waitForRes X s = (Inl (TestHarnessException INVALID_OPERATIONS), s)))"
proof -
  have inv: "legacy_inv s" using assms by (rule legacy_reachable_inv)
  have "legacy_runTestHarness md args s = (Inl (TestHarnessException INVALID_ARGUMENTS), s)"
    if "\<not> (md = FUNC_MODE \<or> md = PERF_MODE)" for md args
    using that by (simp add: legacy_runTestHarness_def)
  with inv legacy_busy [OF inv] legacy_wait_idle [OF inv] show ?thesis by auto
qed

theorem legacy_protocol_witness:
  "\<exists>s1. legacy_runTestHarness FUNC_MODE loop_args loop_mgr = (Inr (), s1) \<and>
     legacy_runTestHarness PERF_MODE loop_args s1 = (Inl (TestHarnessException INVALID_OPERATIONS), s1) \<and>
     (\<forall>X. legacy_waitForRes X loop_mgr = (Inl (TestHarnessException INVALID_OPERATIONS), loop_mgr))"
proof -
  obtain u where u: "board_packed 36 (fresh_trans FUNC_MODE loop_mgr) loop_args (lg_mem loop_mgr) u"
    using board_packs [OF board_mgr_trans [OF _ loop_board_mgr loop_args_ok, of vck190_test_harness]] by (auto simp: boards_def)
  let ?s1 = "started u loop_mgr"
  have inv: "legacy_inv loop_mgr" "\<not> running_at loop_mgr" using loop_board_mgr by (simp_all add: board_mgr_def)
  have r: "legacy_runTestHarness FUNC_MODE loop_args loop_mgr = (Inr (), ?s1)"
    using u inv by (intro legacy_run_started) (simp_all add: board_packed_def inputs_ready_def)
  have r0: "legacy_reachable loop_mgr" unfolding loop_mgr_def by (rule legacy_reachable.new)
  have "legacy_reachable (snd (legacy_do (Run_Test_Harness FUNC_MODE loop_args) loop_mgr))"
    by (rule legacy_reachable.call [OF r0])
  then have r1: "legacy_reachable ?s1" by (simp add: r)
  have "running_at ?s1" unfolding running_at_def using started_simps(1,2) [of u loop_mgr] by (intro exI conjI) auto
  with legacy_protocol [OF r1] legacy_protocol [OF r0] inv(2) r show ?thesis by auto
qed

text \<open>C28: what a timeout leaves behind. When a transaction times out, the manager reports it as not valid and takes
  the next one, which replaces the transaction but not the buffers that are still to be fetched into it: the
  next \<open>waitForRes\<close> that finds the kernel finished writes into a deleted object.\<close>

theorem legacy_timeout_dangling:
  assumes "legacy_inv s" and "\<not> running_at s"
    and "md = FUNC_MODE \<or> md = PERF_MODE" and "md' = FUNC_MODE \<or> md' = PERF_MODE"
    and "handleInputs (lg_mem s) args (fresh_trans md s) = (Inr (), u)" and "status u = TRANSACTION_READY"
    and "handleInputs (lg_mem s) args' (fresh_trans md' s) = (Inr (), u')" and "status u' = TRANSACTION_READY"
    and "bo_hdl (xm (lg_host s)) = []" and "\<not> finished X (length (pl_k_r_hdl (xm (lg_host s))))" and "\<forall>i. finished X' i"
  shows "\<exists>s1 s2 s3. legacy_runTestHarness md args s = (Inr (), s1) \<and> legacy_waitForRes X s1 = (Inr (), s2) \<and>
    legacy_isResultValid s2 = (Inr False, s2) \<and>
    legacy_runTestHarness md' args' s2 = (Inr (), s3) \<and> legacy_waitForRes X' s3 = (Inl UndefinedBehaviour, s3)"
proof -
  let ?n = "next_trans (lg_host s)" and ?i = "length (pl_k_r_hdl (xm (lg_host s)))"
  let ?s1 = "started u s" and ?s2 = "timed_out (started u s)"
  let ?s3 = "started u' ?s2"
  have inv1: "legacy_inv ?s1" and r1: "legacy_runTestHarness md args s = (Inr (), ?s1)"
    using assms by (simp_all add: started_inv legacy_run_started)
  have w1: "legacy_waitForRes X ?s1 = (Inr (), ?s2)"
    unfolding timed_out_def Let_def started_simps
    using assms(10) legacy_wait_timeout [OF inv1 started_simps(1,2), of X] by (auto simp: started_simps)
  have t2: "lg_trans ?s2 = Some ?n" "\<not> running_at ?s2" "next_trans (lg_host ?s2) = Suc ?n" "lg_mem ?s2 = lg_mem s"
    "fresh_trans md' ?s2 = fresh_trans md' s" "bo_hdl (xm (lg_host ?s2)) = [?i]"
    "pl_k_r_hdl (xm (lg_host ?s2)) = pl_k_r_hdl (xm (lg_host s)) @ [run_of ?n u]" "legacy_isResultValid ?s2 = (Inr False, ?s2)"
    using assms(9) by (simp_all add: timed_out_def started_def running_at_def fresh_trans_def legacy_isResultValid_def on_host_def
        deref_def bindM_def ret_def isResultValid_def Let_def)
  have inv2: "legacy_inv ?s2" using keepsD [OF waitForRes_keeps inv1, of X] by (simp add: w1)
  have inv3: "legacy_inv ?s3" and r3: "legacy_runTestHarness md' args' ?s2 = (Inr (), ?s3)"
    using assms inv2 t2 by (simp_all add: started_inv legacy_run_started)
  have "legacy_waitForRes X' ?s3 = (Inl UndefinedBehaviour, ?s3)"
    using assms(11) by (intro legacy_wait_dangling [OF inv3 started_simps(1,2)]) (auto simp: started_simps t2 nth_append)
  with r1 w1 t2(8) r3 show ?thesis by blast
qed

theorem legacy_timeout_dangling_witness:
  "\<exists>s1 s2 s3 X X'. legacy_runTestHarness FUNC_MODE loop_args loop_mgr = (Inr (), s1) \<and> legacy_waitForRes X s1 = (Inr (), s2) \<and>
     legacy_runTestHarness FUNC_MODE loop_args s2 = (Inr (), s3) \<and> legacy_waitForRes X' s3 = (Inl UndefinedBehaviour, s3)"
proof -
  obtain u where u: "board_packed 36 (fresh_trans FUNC_MODE loop_mgr) loop_args (lg_mem loop_mgr) u"
    using board_packs [OF board_mgr_trans [OF _ loop_board_mgr loop_args_ok, of vck190_test_harness]] by (auto simp: boards_def)
  then have h: "handleInputs (lg_mem loop_mgr) loop_args (fresh_trans FUNC_MODE loop_mgr) = (Inr (), u)" "status u = TRANSACTION_READY"
    by (simp_all add: board_packed_def inputs_ready_def)
  have s: "legacy_inv loop_mgr" "\<not> running_at loop_mgr" "bo_hdl (xm (lg_host loop_mgr)) = []"
    using loop_board_mgr by (simp_all add: board_mgr_def)
  show ?thesis
    using legacy_timeout_dangling [OF s(1,2) _ _ h h s(3), of "\<lparr>finished = \<lambda>_. False, device_perf = \<lambda>_. [], device_from_aie = \<lambda>_. []\<rparr>"
      "\<lparr>finished = \<lambda>_. True, device_perf = \<lambda>_. [], device_from_aie = \<lambda>_. []\<rparr>"] by auto
qed

end
