(* ===== verification/Sockets_Claims.thy ===== *)
theory Sockets_Claims
  imports Sockets_Codec
begin

text \<open>
  The properties of the byte stream: every encoding is read back whatever the pieces its bytes arrive in, and a
  value that is cut short is an exception.
\<close>

text \<open>The encodings of the vectors that go element by element, in full.\<close>

definition enc_bools :: "bool list \<Rightarrow> u8 list" where
  "enc_bools v = word_bytes (of_nat (length v) :: u64) @ map (\<lambda>b. if b then 1 else 0) v"

definition enc_strs :: "u8 list list \<Rightarrow> u8 list" where
  "enc_strs v = word_bytes (of_nat (length v) :: u64) @ concat (map enc_str v)"

lemma enc_bools_each: "bool_codec.enc_each = enc_bools"
proof
  fix v
  have "concat (map enc_bool v) = map (\<lambda>b. if b then 1 else 0) v" by (induction v) (simp_all add: enc_bool_def)
  then show "bool_codec.enc_each v = enc_bools v" by (simp add: bool_codec.enc_each_def enc_bools_def)
qed

lemma enc_strs_each: "str_codec.enc_each = enc_strs"
  by (rule ext) (simp add: str_codec.enc_each_def enc_strs_def)

lemma ok_strs: "\<forall>s \<in> set v. length s < 2 ^ 63 \<Longrightarrow> length v < 2 ^ 63 \<Longrightarrow> str_codec.ok_each v"
  by (simp add: str_codec.ok_each_def short_def enc_str_def flip: length_greater_0_conv)

lemma ok_bools: "length v < 2 ^ 63 \<Longrightarrow> bool_codec.ok_each v"
  by (simp add: bool_codec.ok_each_def enc_bool_def)

lemmas transported = byte_codec.transported u32_codec.transported u64_codec.transported bool_codec.transported
  str_codec.transported u64_vec_codec.transported byte_vec_codec.transported
  path_codec.transported bool_vec_codec.transported [unfolded enc_bools_each] str_vec_codec.transported [unfolded enc_strs_each]

lemmas fails_short = byte_codec.fails_short u32_codec.fails_short u64_codec.fails_short bool_codec.fails_short
  str_codec.fails_short u64_vec_codec.fails_short byte_vec_codec.fails_short
  path_codec.fails_short bool_vec_codec.fails_short [unfolded enc_bools_each] str_vec_codec.fails_short [unfolded enc_strs_each]

text \<open>C29: numbers, truth values, strings, vectors and files arrive as they were sent. The sender writes the documented
  encoding (the bytes of a number from the lowest one, a length as a 64-bit number before the elements), the
  receiver reads exactly these bytes back, in whatever pieces \<open>recv\<close> returns them, and reports their number.\<close>

theorem encodings_transported:
  fixes words :: "u64 list" and bytes :: "u8 list"
  assumes "length str < 2 ^ 63" "length words < 2 ^ 59" "length bytes < 2 ^ 59" "length flags < 2 ^ 63"
    and "length strs < 2 ^ 63" "\<forall>s \<in> set strs. length s < 2 ^ 63"
    and "filename \<noteq> []" "length filename < 2 ^ 63"
  shows "transports sendData_word recvData_word word_bytes (a :: u8) \<and>
    transports sendData_word recvData_word word_bytes (b :: u32) \<and>
    transports sendData_word recvData_word word_bytes (c :: u64) \<and>
    transports sendData_bool recvData_bool enc_bool d \<and>
    transports sendData_str recvData_str enc_str str \<and>
    transports sendVec_word recvVec_word enc_vec words \<and>
    transports sendVec_word recvVec_word enc_vec bytes \<and>
    transports sendVec_bool recvVec_bool enc_bools flags \<and>
    transports sendVec_str recvVec_str enc_strs strs \<and>
    transports (\<lambda>f. sendData_path (Some f)) (recvData_path True) enc_path (filename, bytes)"
  using assms by (auto intro!: transported ok_strs ok_bools simp: short_def path_ok_def)

definition example_strs :: "u8 list list" where
  "example_strs = [[114, 117, 110], [], [103]]"

theorem encodings_transported_witness:
  "transports sendVec_str recvVec_str enc_strs example_strs \<and> transports sendVec_bool recvVec_bool enc_bools [True, False] \<and>
   enc_bools [True, False] = [2, 0, 0, 0, 0, 0, 0, 0, 1, 0]"
proof -
  have "word_bytes (2 :: u64) = [2, 0, 0, 0, 0, 0, 0, 0]" by code_simp
  moreover have "\<forall>s \<in> set example_strs. length s < 2 ^ 63" "length example_strs < 2 ^ 63" by (simp_all add: example_strs_def)
  ultimately show ?thesis
    using encodings_transported [of "[]" "[]" "[]" "[True, False]" example_strs "[97]"] by (simp add: enc_bools_def)
qed

text \<open>C30: a value that is cut short is an exception, never a shorter value: whatever part of an encoding arrives
  before the connection ends, the receiver throws SOCKET_CLOSE_FAILURE when the peer has closed the connection and
  SOCKET_RECEIVE_FAILURE when it has failed.\<close>

theorem short_values_throw:
  fixes words :: "u64 list" and bytes :: "u8 list"
  assumes "length str < 2 ^ 63" "length words < 2 ^ 59" "length bytes < 2 ^ 59" "length flags < 2 ^ 63"
    and "length strs < 2 ^ 63" "\<forall>s \<in> set strs. length s < 2 ^ 63"
    and "filename \<noteq> []" "length filename < 2 ^ 63"
  shows "throws_when_cut recvData_word word_bytes (a :: u8) \<and>
    throws_when_cut recvData_word word_bytes (b :: u32) \<and>
    throws_when_cut recvData_word word_bytes (c :: u64) \<and>
    throws_when_cut recvData_bool enc_bool d \<and>
    throws_when_cut recvData_str enc_str str \<and>
    throws_when_cut recvVec_word enc_vec words \<and>
    throws_when_cut recvVec_word enc_vec bytes \<and>
    throws_when_cut recvVec_bool enc_bools flags \<and>
    throws_when_cut recvVec_str enc_strs strs \<and>
    throws_when_cut (recvData_path True) enc_path (filename, bytes)"
  using assms by (auto intro!: fails_short ok_strs ok_bools simp: short_def path_ok_def)

definition cut_connection :: sock where
  "cut_connection = \<lparr>incoming = [Chunk 3 [0], Recv_Failure], outgoing = [], send_room = None, alloc_limit = 100\<rparr>"

theorem short_values_throw_witness:
  "\<exists>k. recvData_str cut_connection = (Inl (SocketException SOCKET_RECEIVE_FAILURE), k)"
proof -
  have "throws_when_cut recvData_str enc_str [1, 2, 3]" using short_values_throw [of "[1, 2, 3]" "[]" "[]" "[]" "[]" "[97]"] by simp
  moreover have "word_bytes (3 :: u64) = [3, 0, 0, 0, 0, 0, 0, 0]" by code_simp
  then have "enc_str [1, 2, 3] = readable (incoming cut_connection) @ [0, 0, 0, 0, 0, 0, 1, 2, 3]"
    by (simp add: enc_str_def cut_connection_def)
  ultimately show ?thesis
    unfolding throws_when_cut_def by (fastforce simp: cut_connection_def enc_str_def)
qed

end
