(* ===== verification/Remote_Claims.thy ===== *)
theory Remote_Claims
  imports End_To_End_Claims
begin

text \<open>
  The client against the session: its creation, and a functional transaction from the user's buffers through the
  connection, the server, the kernel and the design, and back.
\<close>

section \<open>Functional transactions of a client\<close>

text \<open>The transaction is not larger than the memory of the server.\<close>

definition fits_server :: "nat \<Rightarrow> transaction \<Rightarrow> test_harness_args list \<Rightarrow> bool" where
  "fits_server N t args \<longleftrightarrow> server_bytes N (func_bytes N t args) \<le> 2 ^ 30"

lemma remote_trans:
  assumes "(N, board) \<in> boards" "remote_ready N c v" "user_args_ok (cl_fresh FUNC_MODE timeout c) args"
  shows "board_trans N (cl_fresh FUNC_MODE timeout c) args"
proof -
  have N: "0 < N" "N \<le> 36" using boards_kernel [OF assms(1)] by blast+
  then have n: "unat (of_nat N :: u32) = N" by (intro unat_of_nat_small) simp
  moreover have "(of_nat N :: u32) \<noteq> 0" using n N by (metis less_irrefl unat_0)
  ultimately show ?thesis
    using assms N by (simp add: board_trans_def remote_ready_def config_ok_def)
qed

lemma remote_transaction:
  assumes "(N, board) \<in> boards" and "remote_ready N c v" and "ss_mgr s = Some v"
    and "user_args_ok (cl_fresh FUNC_MODE timeout c) args" and "fits_server N (cl_fresh FUNC_MODE timeout c) args"
  defines "t \<equiv> cl_fresh FUNC_MODE timeout c"
  shows "\<exists>c1 s1 v1 v2. calls P Y (cl_runTestHarness FUNC_MODE args timeout) (c, s) () (c1, s1) \<and>
    ss_mgr s1 = Some v1 \<and> pl_step Y v1 v2 \<and>
    calls P Y (cl_thread_round (cl_next c)) (c1, s1\<lparr>ss_mgr := Some v2\<rparr>) () (c1, s1\<lparr>ss_mgr := Some v2\<rparr>) \<and>
    (\<forall>X out. runtime_ran aie board X v2 out \<longrightarrow>
      (\<exists>v3 c2 s2 v4. pl_step X v2 v3 \<and>
         calls P X (cl_thread_round (cl_next c)) (c1, s1\<lparr>ss_mgr := Some v3\<rparr>) () (c2, s2) \<and>
         cl_threads c2 (cl_next c) = Some CL_Ended \<and> cl_isResultValid (-1) c2 = (Inr True, c2) \<and>
         ss_mgr s2 = Some v4 \<and> (cl_trans_id c + 1 \<noteq> 0 \<longrightarrow> remote_ready N c2 v4) \<and> cl_depth c2 = cl_depth c \<and>
         user_transfer N t args aie (cl_mem c) out (cl_mem c2))) \<and>
    (design_answers N t args aie (cl_mem c) \<longrightarrow> (\<exists>X out. runtime_ran aie board X v2 out))"
  unfolding t_def
  by (rule func.remote_path [OF assms(1-3) remote_trans [OF assms(1,2,4)] assms(5) [unfolded fits_server_def]])

lemma made_matched:
  "cl_num_channels c = PARAM_CHANNELS P \<Longrightarrow> cl_max_memory_usage c = memorySizeMax \<Longrightarrow> matched c (made P gs)"
  using new_server_inv by (simp add: matched_def made_def new_server_def)

section \<open>Properties\<close>

text \<open>C31: creation. When the client asks for the device the server was built for, \<open>createTestHarness\<close> and the session agree: each
  reads exactly what the other sends, the client ends up with the number of channels, the width, the depth and the
  memory width of the server and with its memory as the limit, both know the same graphs as not started, and
  the two are ready for the first transaction.\<close>

theorem remote_creation:
  assumes "cl_device c = PARAM_DEVICE P" and "cl_graph_started c = []" and "supported (PARAM_DEVICE P)" and "ss_mgr s = None"
    and "create_ok (PARAM_DEVICE P) graph_name (replicate (length graph_name) False) [PARAM_DEVICE P @ ascii ''_test_harness''] xclbin"
  shows "\<exists>c' s' v. calls P X (createTestHarness device_index (Some xclbin) graph_name) (c, s) () (c', s') \<and> ss_mgr s' = Some v \<and>
    cl_num_channels c' = PARAM_CHANNELS P \<and> sv_num_channels v = PARAM_CHANNELS P \<and>
    cl_word_size c' = PARAM_WIDTH P \<and> sv_word_size v = PARAM_WIDTH P \<and> cl_depth c' = PARAM_DEPTH P \<and> sv_depth v = PARAM_DEPTH P \<and>
    cl_memWidth c' = PARAM_MEM_WIDTH P \<and> sv_memWidth v = PARAM_MEM_WIDTH P \<and> cl_max_memory_usage c' = 2 ^ 30 \<and>
    cl_graph_started c' = replicate (length graph_name) False \<and> sv_graph_started v = cl_graph_started c' \<and>
    cl_mem c' = cl_mem c \<and> cl_trans_id c' = cl_trans_id c \<and> matched c' v"
proof -
  let ?c = "set_up P graph_name c" and ?v = "made P (replicate (length graph_name) False)"
  have "matched ?c ?v" by (rule made_matched) (simp_all add: set_up_def)
  with remote_create [where P = P and X = X, OF assms] show ?thesis
    by (intro exI [of _ ?c] exI [of _ "s\<lparr>mActive := True, ss_mgr := Some ?v\<rparr>"] exI [of _ ?v])
      (simp add: set_up_def made_def new_server_def memorySizeMax_def)
qed

definition demo_params :: params where
  "demo_params = \<lparr>PARAM_DEVICE = ascii ''vck190'', PARAM_CHANNELS = 36, PARAM_DEPTH = 4096, PARAM_WIDTH = 16, PARAM_MEM_WIDTH = 16\<rparr>"

definition demo_client :: client where
  "demo_client = new_client (ascii ''vck190'') demo_mem"

lemma demo_create_ok: "create_ok (PARAM_DEVICE demo_params) [] (replicate (length []) False) [PARAM_DEVICE demo_params @ ascii ''_test_harness'']
    (ascii ''a'', [1])"
  by (simp add: create_ok_def demo_params_def short_def path_ok_def str_codec.ok_each_def bool_codec.ok_each_def enc_str_def)

theorem remote_creation_witness:
  "\<forall>X. \<exists>c s v. calls demo_params X (createTestHarness 0 (Some (ascii ''a'', [1])) []) (demo_client, new_session 60) () (c, s) \<and>
     ss_mgr s = Some v \<and> cl_num_channels c = 36 \<and> cl_word_size c = 16 \<and> cl_memWidth c = 16 \<and> cl_depth c = 4096 \<and>
     cl_mem c = demo_mem \<and> cl_trans_id c = 0 \<and> matched c v"
proof -
  have 1: "cl_device demo_client = PARAM_DEVICE demo_params" "cl_graph_started demo_client = []" "ss_mgr (new_session 60) = None"
    by (simp_all add: demo_client_def new_client_def demo_params_def new_session_def)
  have 2: "supported (PARAM_DEVICE demo_params)" by (simp add: supported_def demo_params_def)
  have 3: "cl_mem demo_client = demo_mem" "cl_trans_id demo_client = 0" by (simp_all add: demo_client_def new_client_def)
  show ?thesis
    by (intro allI, insert remote_creation [OF 1(1,2) 2 1(3) demo_create_ok, of _ 0] 3) (simp add: demo_params_def, blast)
qed

text \<open>C32: a functional transaction over the connection, end to end. On every board, with a server that has no other transaction,
  \<open>runTestHarness\<close> of the client is accepted and the thread of the server starts the kernel. While it runs the client's thread
  asks for its status and changes nothing. Once it has finished, the server's thread ends, the client's thread
  collects the results and ends, the data of each user buffer has been on the port of its channel, the words that came
  back are in the user's buffers, the rest of the user's memory is as it was, the result is valid, and both sides are ready for the next transaction unless
  the counter of the identifiers has wrapped. The kernel can always finish when the design
  answers with enough words.\<close>

theorem remote_end_to_end:
  assumes "(N, board) \<in> boards" and "remote_ready N c v" and "ss_mgr s = Some v"
    and "user_args_ok (cl_fresh FUNC_MODE timeout c) args" and "fits_server N (cl_fresh FUNC_MODE timeout c) args"
  defines "t \<equiv> cl_fresh FUNC_MODE timeout c"
  shows "\<exists>c1 s1 v1 v2. calls P Y (cl_runTestHarness FUNC_MODE args timeout) (c, s) () (c1, s1) \<and>
    ss_mgr s1 = Some v1 \<and> pl_step Y v1 v2 \<and>
    calls P Y (cl_thread_round (cl_next c)) (c1, s1\<lparr>ss_mgr := Some v2\<rparr>) () (c1, s1\<lparr>ss_mgr := Some v2\<rparr>) \<and>
    (\<forall>X out. runtime_ran aie board X v2 out \<longrightarrow>
      (\<exists>v3 c2 s2 v4. pl_step X v2 v3 \<and>
         calls P X (cl_thread_round (cl_next c)) (c1, s1\<lparr>ss_mgr := Some v3\<rparr>) () (c2, s2) \<and>
         cl_threads c2 (cl_next c) = Some CL_Ended \<and> cl_isResultValid (-1) c2 = (Inr True, c2) \<and>
         ss_mgr s2 = Some v4 \<and> (cl_trans_id c + 1 \<noteq> 0 \<longrightarrow> remote_ready N c2 v4) \<and> cl_depth c2 = cl_depth c \<and>
         user_transfer N t args aie (cl_mem c) out (cl_mem c2))) \<and>
    (design_answers N t args aie (cl_mem c) \<longrightarrow> (\<exists>X out. runtime_ran aie board X v2 out))"
  unfolding t_def by (rule remote_transaction [OF assms(1-5)])

text \<open>The client and the session of the witness, after the creation.\<close>

definition demo_connected :: client where
  "demo_connected = set_up demo_params [] demo_client"

lemma demo_fresh: "cl_fresh FUNC_MODE 0 demo_connected = fresh_trans FUNC_MODE loop_mgr"
  by (simp add: loop_fresh cl_fresh_def demo_connected_def set_up_def demo_client_def new_client_def demo_params_def)

lemma demo_ready: "remote_ready 36 demo_connected (made demo_params [])"
proof -
  have "matched demo_connected (made demo_params [])" by (rule made_matched) (simp_all add: demo_connected_def set_up_def)
  then show ?thesis by (simp add: remote_ready_def demo_connected_def set_up_def demo_params_def)
qed

lemma demo_server_fits: "fits_server 36 (fresh_trans FUNC_MODE loop_mgr) loop_args"
  by (simp add: fits_server_def server_bytes_def func_bytes_def loop_args_def dir_units_def loop_dirs units_def)

lemma demo_packs: "\<exists>u. packs FUNC_MODE loop_args 0 demo_connected u"
proof -
  have b: "(36, vck190_test_harness) \<in> boards" by (simp add: boards_def)
  have a: "user_args_ok (cl_fresh FUNC_MODE 0 demo_connected) loop_args" "fits_server 36 (cl_fresh FUNC_MODE 0 demo_connected) loop_args"
    unfolding demo_fresh by (rule loop_args_ok, rule demo_server_fits)
  show ?thesis by (rule func.remote_packs [OF remote_trans [OF b demo_ready a(1)] a(2) [unfolded fits_server_def]])
qed

theorem remote_end_to_end_witness:
  "\<exists>s Y X c1 s1 v1 v2 v3 c2 s2. calls demo_params Y (cl_runTestHarness FUNC_MODE loop_args 0) (demo_connected, s) () (c1, s1) \<and>
     ss_mgr s1 = Some v1 \<and> pl_step Y v1 v2 \<and> pl_step X v2 v3 \<and>
     calls demo_params X (cl_thread_round (cl_next demo_connected)) (c1, s1\<lparr>ss_mgr := Some v3\<rparr>) () (c2, s2) \<and>
     mem_read (cl_mem c2) 64 32 = mem_read demo_mem 0 32"
proof -
  let ?v = "made demo_params []" and ?t = "fresh_trans FUNC_MODE loop_mgr"
  let ?s = "new_session 60\<lparr>ss_mgr := Some ?v\<rparr>" and ?Y = "last_result ?v [] []"
  have b: "(36, vck190_test_harness) \<in> boards" by (simp add: boards_def)
  have s: "ss_mgr ?s = Some ?v" by simp
  have m: "cl_mem demo_connected = demo_mem" by (simp add: demo_connected_def set_up_def demo_client_def new_client_def)
  have h: "user_args_ok (cl_fresh FUNC_MODE 0 demo_connected) loop_args" "fits_server 36 (cl_fresh FUNC_MODE 0 demo_connected) loop_args"
    unfolding demo_fresh by (rule loop_args_ok, rule demo_server_fits)
  note e = remote_end_to_end [where Y = ?Y and aie = board_loopback and P = demo_params, OF b demo_ready s h, unfolded demo_fresh m]
  from e obtain c1 s1 v1 v2 where c: "calls demo_params ?Y (cl_runTestHarness FUNC_MODE loop_args 0) (demo_connected, ?s) () (c1, s1)"
      "ss_mgr s1 = Some v1" "pl_step ?Y v1 v2"
    and w: "\<And>X out. runtime_ran board_loopback vck190_test_harness X v2 out \<Longrightarrow> \<exists>v3 c2 s2 v4. pl_step X v2 v3 \<and>
         calls demo_params X (cl_thread_round (cl_next demo_connected)) (c1, s1\<lparr>ss_mgr := Some v3\<rparr>) () (c2, s2) \<and>
         cl_threads c2 (cl_next demo_connected) = Some CL_Ended \<and> cl_isResultValid (-1) c2 = (Inr True, c2) \<and>
         ss_mgr s2 = Some v4 \<and> (cl_trans_id demo_connected + 1 \<noteq> 0 \<longrightarrow> remote_ready 36 c2 v4) \<and> cl_depth c2 = cl_depth demo_connected \<and>
         user_transfer 36 ?t loop_args board_loopback demo_mem out (cl_mem c2)"
    and l: "design_answers 36 ?t loop_args board_loopback demo_mem \<Longrightarrow> \<exists>X out. runtime_ran board_loopback vck190_test_harness X v2 out"
    by (elim exE conjE) blast
  obtain X out where X: "runtime_ran board_loopback vck190_test_harness X v2 out" using l loop_answers unfolding loop_mem by blast
  from w [OF X] obtain v3 c2 s2 where "pl_step X v2 v3"
      "calls demo_params X (cl_thread_round (cl_next demo_connected)) (c1, s1\<lparr>ss_mgr := Some v3\<rparr>) () (c2, s2)"
      "user_transfer 36 ?t loop_args board_loopback demo_mem out (cl_mem c2)" by (elim exE conjE)
  with c loop_transfer show ?thesis by blast
qed

end
