(* ===== verification/Server_Errors.thy ===== *)
theory Server_Errors
  imports Session_Inv
begin

text \<open>
  How the requests of the server can end: the errors each step can throw, whatever bytes arrive.
\<close>

named_theorems fails

definition fails_in :: "('s \<Rightarrow> bool) \<Rightarrow> harness_error set \<Rightarrow> ('s, harness_error, 'a) prog \<Rightarrow> bool" where
  "fails_in I E m \<longleftrightarrow> hoare I m (\<lambda>_. I) (\<lambda>e _. e \<in> E)"

lemma fails_inD: "fails_in I E m \<Longrightarrow> I s \<Longrightarrow> m s = (Inl e, s') \<Longrightarrow> e \<in> E"
  unfolding fails_in_def by (rule hoareD_Inl)

lemma fails_basic [fails]: "fails_in I E (ret a)" "e \<in> E \<Longrightarrow> fails_in I E (throw e)" "fails_in I E getM"
  by (simp_all add: fails_in_def hoare_def)

lemma fails_modify [fails]: "(\<And>s. I s \<Longrightarrow> I (f s)) \<Longrightarrow> fails_in I E (modifyM f)"
  by (simp add: fails_in_def hoare_def)

lemma fails_bind [fails]: "fails_in I E m \<Longrightarrow> (\<And>a. fails_in I E (f a)) \<Longrightarrow> fails_in I E (bindM m f)"
  unfolding fails_in_def by (rule hoare_bindM)

lemma fails_then [fails]: "fails_in I E m \<Longrightarrow> fails_in I E n \<Longrightarrow> fails_in I E (thenM m n)"
  unfolding fails_in_def by (rule hoare_thenM)

lemma fails_cases [fails]:
  "fails_in I E m \<Longrightarrow> fails_in I E n \<Longrightarrow> fails_in I E (if b then m else n)"
  "(\<And>a b. fails_in I E (g a b)) \<Longrightarrow> fails_in I E (case x of (a, b) \<Rightarrow> g a b)"
  by (simp_all split: prod.splits)

section \<open>The connection\<close>

definition link_errors :: "harness_error set" where
  "link_errors = range SocketException \<union> {StdException Std_Length_Error, StdException Std_Bad_Alloc}"

lemma recv_rest_fails: "recv_rest n k = (Inl e, k') \<Longrightarrow> e \<in> range SocketException"
proof (induction n arbitrary: k k' rule: less_induct)
  case (less n)
  obtain r bs es where r: "sys_recv n (incoming k) = (r, bs, es)" by (cases "sys_recv n (incoming k)")
  have n: "n \<noteq> 0" using less.prems by (subst (asm) recv_rest.simps) (auto split: if_splits)
  show ?case
  proof (cases "0 < r")
    case True
    then have "\<exists>k1. recv_rest (n - nat r) (k\<lparr>incoming := es\<rparr>) = (Inl e, k1)"
      using less.prems r n by (subst (asm) recv_rest.simps) (auto simp: Let_def split: prod.splits sum.splits)
    then show ?thesis using less.IH [of "n - nat r"] True n by auto
  next
    case False
    then show ?thesis using less.prems r n by (subst (asm) recv_rest.simps) (auto simp: Let_def split: if_splits)
  qed
qed

lemma fails_recvBytes [fails]: "fails_in (\<lambda>_. True) link_errors (recvBytes n)"
  by (auto simp: fails_in_def hoare_def recvBytes_def link_errors_def throw_def split: prod.splits sum.splits dest: recv_rest_fails)

lemma fails_sendBytes [fails]: "fails_in (\<lambda>_. True) link_errors (sendBytes bs)"
  by (auto simp: fails_in_def hoare_def sendBytes_def link_errors_def split: prod.splits sum.splits)

lemma fails_resize [fails]: "fails_in (\<lambda>_. True) link_errors (resizeM k n)"
  by (auto simp: fails_in_def hoare_def resizeM_def guardM_def link_errors_def throw_def ret_def)

lemma fails_values [fails]:
  "fails_in (\<lambda>_. True) link_errors recvData_word" "fails_in (\<lambda>_. True) link_errors (sendData_word w)"
  "fails_in (\<lambda>_. True) link_errors recvVec_word" "fails_in (\<lambda>_. True) link_errors (sendVec_word v)"
  "fails_in (\<lambda>_. True) link_errors (sendData_bool b)"
  unfolding recvData_word_def sendData_word_def sendVec_word_def sendData_bool_def recvVec_word_def by (intro fails)+

lemma fails_net [fails]:
  assumes "fails_in (\<lambda>_. True) link_errors m" "link_errors \<subseteq> E" shows "fails_in (\<lambda>(s, k). J s) E (net m)"
  using assms by (auto simp: fails_in_def hoare_def net_def split: prod.splits sum.splits)

lemma fails_fetch [fails]: "fails_in (\<lambda>_. True) link_errors m \<Longrightarrow> link_errors \<subseteq> E \<Longrightarrow> fails_in (\<lambda>(s, k). J s) E (fetch m)"
  unfolding fetch_def by (intro fails)

lemma fails_put [fails]: "fails_in (\<lambda>_. True) link_errors m \<Longrightarrow> link_errors \<subseteq> E \<Longrightarrow> fails_in (\<lambda>(s, k). J s) E (put m)"
  unfolding put_def by (intro fails)

text \<open>The same, when nothing is assumed of the state.\<close>

lemma fails_fetch_any: "fails_in (\<lambda>_. True) link_errors m \<Longrightarrow> link_errors \<subseteq> E \<Longrightarrow> fails_in (\<lambda>_. True) E (fetch m)"
  using fails_fetch [where J = "\<lambda>_. True"] by (simp add: split_def)

lemma fails_put_any: "fails_in (\<lambda>_. True) link_errors m \<Longrightarrow> link_errors \<subseteq> E \<Longrightarrow> fails_in (\<lambda>_. True) E (put m)"
  using fails_put [where J = "\<lambda>_. True"] by (simp add: split_def)

lemma fails_own [fails]: "fails_in J E m \<Longrightarrow> fails_in (\<lambda>(s, k). J s) E (own m)"
  by (auto simp: fails_in_def hoare_def own_def split: prod.splits sum.splits)

lemma guard_fails:
  "socket_guard st m s = (Inl e, s') \<longleftrightarrow>
     (\<exists>e'. m s = (Inl e', s') \<and> e = (case e' of SocketException _ \<Rightarrow> TestHarnessException st | _ \<Rightarrow> e'))"
  by (auto simp: socket_guard_def catch_def throw_def split: prod.splits sum.splits harness_error.splits)

section \<open>Accepting a transaction\<close>

definition live :: "nat \<Rightarrow> server \<Rightarrow> bool" where
  "live p s \<longleftrightarrow> heap (sv_host s) p \<noteq> None"

lemma fails_deref [fails]: "fails_in (live p) E (sv_on_host (deref p))"
  by (auto simp: fails_in_def hoare_def live_def sv_on_host_def deref_def ret_def throw_def split: option.splits)

lemma fails_on_trans [fails]: "fails_in (live p) E (sv_on_host (on_trans p (modifyM f)))"
  by (auto simp: fails_in_def hoare_def live_def sv_on_host_def on_trans_def throw_def split: option.splits)

definition run_errors :: "harness_error set" where
  "run_errors = link_errors \<union> {TestHarnessException INVALID_ARGUMENTS}"

lemma run_errors_mem [simp]: "TestHarnessException INVALID_ARGUMENTS \<in> run_errors" "link_errors \<subseteq> run_errors"
  by (auto simp: run_errors_def)

lemma fails_start_thread [fails]: "fails_in (live p) run_errors (sv_start_thread p sz)"
  unfolding sv_start_thread_def by (intro fails) (simp_all add: live_def)

lemma fails_receive_data [fails]: "fails_in (\<lambda>(s, k). live p s) run_errors (sv_receive_data p)"
  unfolding sv_receive_data_def by (intro fails) simp_all

lemma new_transaction_live: "hoare (\<lambda>_. True) (own (sv_new_transaction tid md to)) (\<lambda>p (s, k). live p s) (\<lambda>e _. e \<in> E)"
  by (auto simp: hoare_def own_def sv_new_transaction_def sv_on_host_def new_trans_def bindM_def thenM_def ret_def live_def)

lemma fails_weaken: "fails_in I E m \<Longrightarrow> hoare I m (\<lambda>_ _. True) (\<lambda>e _. e \<in> E)"
  by (auto simp: fails_in_def hoare_def split: prod.splits sum.splits)

lemma fails_receive: "fails_in (\<lambda>_. True) run_errors (receive_transaction sz)"
proof -
  have rest: "fails_in (\<lambda>_. True) run_errors (bindM (own (sv_new_transaction tid md to)) (\<lambda>p. thenM (sv_receive_data p) (own (sv_start_thread p sz))))"
    for tid md to
    unfolding fails_in_def
    by (rule hoare_bindM [OF _ new_transaction_live]) (rule fails_weaken, intro fails)
  show ?thesis
    unfolding receive_transaction_def
    by (rule rest fails_bind fails_fetch_any fails_values fails_cases fails_basic | simp)+
qed

lemma run_fails:
  assumes "sv_runTestHarness (v, k) = (Inl e, w)"
  shows "e \<in> {TestHarnessException INVALID_ARGUMENTS, TestHarnessException TEST_HARNESS_RUN_FAILURE,
    StdException Std_Length_Error, StdException Std_Bad_Alloc}"
proof -
  have "fails_in (\<lambda>_. True) run_errors (bindM (fetch recvData_word) (\<lambda>trans_size :: u64. bindM getM (\<lambda>(s, k).
      if sv_memorySize s + trans_size > memorySizeMax then put (sendData_bool False)
      else thenM (put (sendData_bool True)) (receive_transaction trans_size))))"
    by (intro fails fails_fetch_any fails_put_any fails_receive) simp_all
  note f = fails_inD [OF this TrueI]
  obtain e' where "e' \<in> run_errors" "e = (case e' of SocketException _ \<Rightarrow> TestHarnessException TEST_HARNESS_RUN_FAILURE | _ \<Rightarrow> e')"
    using assms f unfolding sv_runTestHarness_def guard_fails by blast
  then show ?thesis by (auto simp: run_errors_def link_errors_def)
qed

section \<open>Waiting\<close>

definition wait_errors :: "harness_error set" where
  "wait_errors = link_errors \<union> {TestHarnessException INVALID_ARGUMENTS, NoReturn}"

lemma wait_errors_mem [simp]: "TestHarnessException INVALID_ARGUMENTS \<in> wait_errors" "NoReturn \<in> wait_errors" "link_errors \<subseteq> wait_errors"
  by (auto simp: wait_errors_def)

lemma joined_live:
  assumes "heap (sv_host s) p = Some t"
  shows "case joined X p t s of (Inl e, s') \<Rightarrow> e = NoReturn \<and> (\<exists>i. \<not> finished X i) | (Inr u, s') \<Rightarrow> live p s'"
  using assms by (auto simp: joined_def Let_def live_def ended_def runs_finished_def)

lemma collect_fails:
  assumes inv: "sv_inv v" "sv_transactions v = p # ps"
  shows "hoare (\<lambda>(s, k). s = v) (sv_collect X p) (\<lambda>_ _. True) (\<lambda>e _. e \<in> wait_errors \<and> (e = NoReturn \<longrightarrow> (\<exists>i. \<not> finished X i)))"
    (is "hoare _ _ _ ?E")
proof -
  obtain t where t: "heap (sv_host v) p = Some t" using sv_invE [OF inv] by metis
  have E: "hoare I m Q ?E" if "hoare I m Q (\<lambda>e _. e \<in> link_errors \<union> {TestHarnessException INVALID_ARGUMENTS})" for I m and Q :: "'x \<Rightarrow> server \<times> sock \<Rightarrow> bool"
    using that by (fastforce simp: hoare_def wait_errors_def link_errors_def split: prod.splits sum.splits)
  have recv: "hoare (\<lambda>(s, k). J s) (fetch recvData_word :: 'x::len word vprog) (\<lambda>_ (s, k). J s) ?E" for J
    using fails_fetch [of recvData_word "link_errors \<union> {TestHarnessException INVALID_ARGUMENTS}" J] fails_values(1)
    by (intro E) (auto simp: fails_in_def)
  have deref: "hoare (\<lambda>(s, k). s = v) (own (sv_on_host (deref p))) (\<lambda>t' (s, k). t' = t \<and> s = v) ?E"
    using t by (auto simp: hoare_def own_def sv_on_host_def deref_def)
  have set: "hoare (\<lambda>(s, k). s = v) (on_server p (setTimeOut to)) (\<lambda>_ (s, k). s = timed to p t v) ?E" for to
    using t by (auto simp: hoare_def own_def sv_on_host_def on_trans_def timed_def setTimeOut_def)
  have join: "hoare (\<lambda>(s, k). s = timed to p t v) (own (join_first X p)) (\<lambda>_ (s, k). live p s) ?E" for to
  proof -
    have q: "sv_transactions (timed to p t v) = p # ps" "heap (sv_host (timed to p t v)) p = Some (t\<lparr>mTimeOut := to\<rparr>)"
      using inv(2) by (simp_all add: timed_def)
    show ?thesis
      using joined_live [OF q(2), of X]
      by (auto simp: hoare_def own_def join_first_run [OF inv_timed [OF inv t] q] split: prod.splits sum.splits)
  qed
  have rest: "hoare (\<lambda>(s, k). live p s) (bindM (own (sv_on_host (deref p))) (\<lambda>t. thenM (sv_send_results t) (own (sv_release p t)))) (\<lambda>_ _. True) ?E"
  proof -
    have "fails_in (\<lambda>(s, k). live p s) (link_errors \<union> {TestHarnessException INVALID_ARGUMENTS}) (own (sv_on_host (deref p)))"
      by (intro fails)
    moreover have "fails_in (\<lambda>(s, k). live p s) (link_errors \<union> {TestHarnessException INVALID_ARGUMENTS}) (sv_send_results t')" for t'
      unfolding sv_send_results_def by (intro fails) auto
    moreover have "hoare (\<lambda>(s, k). live p s) (own (sv_release p t')) (\<lambda>_ _. True) (\<lambda>e _. e \<in> link_errors \<union> {TestHarnessException INVALID_ARGUMENTS})" for t'
      by (auto simp: hoare_def own_def sv_release_def sv_on_host_def delete_trans_def thenM_def bindM_def)
    ultimately show ?thesis
      by (intro E hoare_bindM [where R = "\<lambda>_ (s, k). live p s"] hoare_thenM [where R = "\<lambda>(s, k). live p s"]) (auto simp: fails_in_def)
  qed
  show ?thesis
    unfolding sv_collect_def
    apply (rule hoare_bindM [OF _ recv])
    apply (rule hoare_bindM [OF _ deref])
    apply (rule hoare_if)
     apply (simp add: hoare_def)
    apply (rule hoare_pre [where P' = "\<lambda>(s, k). s = v"])
     apply (rule hoare_bindM [OF _ recv])
     apply (rule hoare_thenM [OF _ set])
     apply (rule hoare_thenM [OF rest join])
    apply auto
    done
qed

lemma wait_fails:
  assumes inv: "sv_inv v" and r: "sv_waitForTestHarness X (v, k) = (Inl e, w)"
  shows "if sv_transactions v = [] then e = TestHarnessException INVALID_OPERATIONS
    else e \<in> {TestHarnessException INVALID_ARGUMENTS, TestHarnessException TEST_HARNESS_WAIT_FOR_RES_FAILURE,
      StdException Std_Length_Error, StdException Std_Bad_Alloc, NoReturn} \<and> (e = NoReturn \<longrightarrow> (\<exists>i. \<not> finished X i))"
proof (cases "sv_transactions v")
  case Nil
  then show ?thesis using r sv_invD(3) [OF inv] by (auto simp: sv_waitForTestHarness_def)
next
  case (Cons p ps)
  obtain th where "sv_pl_threads v p = Some th" using sv_invE [OF inv Cons] by metis
  moreover have "card (dom (sv_pl_threads v)) = length (sv_transactions v)" "dom (sv_pl_threads v) \<noteq> {}"
    using sv_invD(1,3) [OF inv] Cons distinct_card [of "sv_transactions v"] by auto
  ultimately have "socket_guard TEST_HARNESS_WAIT_FOR_RES_FAILURE (sv_collect X p) (v, k) = (Inl e, w)"
    using r Cons by (simp add: sv_waitForTestHarness_def)
  then obtain e' where e': "sv_collect X p (v, k) = (Inl e', w)"
    and e: "e = (case e' of SocketException _ \<Rightarrow> TestHarnessException TEST_HARNESS_WAIT_FOR_RES_FAILURE | _ \<Rightarrow> e')"
    unfolding guard_fails by blast
  have "e' \<in> wait_errors \<and> (e' = NoReturn \<longrightarrow> (\<exists>i. \<not> finished X i))"
    using hoareD_Inl [OF collect_fails [OF inv Cons] _ e'] by simp
  then show ?thesis using e Cons by (auto simp: wait_errors_def link_errors_def)
qed

text \<open>What a delivered transaction leaves behind.\<close>

lemma joined_ids:
  "joined X p t s = (Inr u, s') \<Longrightarrow> sv_id2trans s' = sv_id2trans s"
  by (auto simp: joined_def Let_def ended_def begun_def split: if_splits)

lemma wait_leaves:
  assumes inv: "sv_inv v" "sv_transactions v = p # ps" and r: "sv_waitForTestHarness X (v, k) = (Inr (), (v', k'))"
  shows "sv_id2trans v' = sv_id2trans v \<and> heap (sv_host v') p = None"
proof -
  have c: "sv_collect X p (v, k) = (Inr (), (v', k'))"
    using r inv(2) by (auto simp: sv_waitForTestHarness_def runs split: if_splits)
  obtain t where t: "heap (sv_host v) p = Some t" using sv_invE [OF inv] by metis
  obtain to s2 t2 where j: "join_first X p (timed to p t v) = (Inr (), s2)" and v': "v' = released p t2 s2"
    using c t by (auto simp: sv_collect_def sv_send_results_def sv_release_def runs bindM_eq_Inr thenM_eq_Inr timed_def
        setTimeOut_def released_def split: if_splits)
  have q: "sv_transactions (timed to p t v) = p # ps" "heap (sv_host (timed to p t v)) p = Some (t\<lparr>mTimeOut := to\<rparr>)"
    using inv(2) by (simp_all add: timed_def)
  have "sv_id2trans s2 = sv_id2trans v"
    using joined_ids [OF j [unfolded join_first_run [OF inv_timed [OF inv t] q]]] by (simp add: timed_def)
  then show ?thesis by (simp add: v' released_def)
qed

lemma query_dangling:
  assumes "sv_id2trans v tid = Some p" "heap (sv_host v) p = None" "recvData_word k = (Inr (tid, n), k')"
  shows "sv_queryTransactionStatus (v, k) = (Inl UndefinedBehaviour, (v, k'))"
  using assms by (simp add: sv_queryTransactionStatus_def socket_guard_def catch_def fetch_def net_def own_def bindM_def ret_def
      sv_on_host_def deref_def throw_def)

lemma receive_known:
  assumes "recvData_word k = (Inr (md, n), k1)" "md = FUNC_MODE \<or> md = PERF_MODE" "recvData_word k1 = (Inr (tid, n'), k2)"
    and "sv_id2trans v tid = Some p"
  shows "receive_transaction sz (v, k) = (Inl (TestHarnessException INVALID_ARGUMENTS), (v, k2))"
  using assms by (auto simp: receive_transaction_def fetch_def net_def bindM_def ret_def throw_def)

end
