(* ===== verification/Server_Claims.thy ===== *)
theory Server_Claims
  imports Remote_Claims Server_Errors
begin

text \<open>
  What holds of the session and its server whatever bytes a client sends: the invariant of the transactions, the ways a
  request can end, what remains of a delivered transaction, and the watchdog.
\<close>

section \<open>Reachable sessions\<close>

lemma serve_reachable:
  assumes s: "session_reachable P s" "\<not> mDone s" "mgr_sized X s"
    and c: "converses (run_once P True X) s a x True s1" and l: "length a \<le> 2 ^ 59"
  shows "session_reachable P s1"
proof (rule converses_occurs [OF c])
  fix k k' :: sock assume k: "run_once P True X (s, k) = (Inr True, (s1, k'))" "alloc_limit k = max (2 ^ 30) (length a)"
  show ?thesis by (rule session_reachable.request [OF s(1,2) _ s(3) k(1)]) (use l k(2) in simp)
qed

lemma live_first:
  assumes "sv_inv v"
  shows "(case sv_transactions v of [] \<Rightarrow> bo_hdl (xm (sv_host v)) = []
    | p # ps \<Rightarrow> bo_hdl (xm (sv_host v)) = [] \<or>
        sv_pl_threads v p = Some PL_Running \<and> bo_hdl (xm (sv_host v)) = [sv_last v] \<and>
        (\<exists>t. heap (sv_host v) p = Some t \<and> pl_k_r_hdl (xm (sv_host v)) ! sv_last v = run_of p t))"
  using sv_invD(7) [OF assms] by (auto simp: kernel_ok_def sv_last_def split: list.splits if_splits)

text \<open>A session that has accepted one transaction.\<close>

definition demo_session :: "session" where
  "demo_session = new_session 60\<lparr>mActive := True, ss_mgr := Some (made demo_params [])\<rparr>"

lemma demo_session_reachable: "session_reachable demo_params demo_session"
proof -
  have 1: "supported (PARAM_DEVICE demo_params)" by (simp add: supported_def demo_params_def)
  have c: "converses (run_once demo_params True X) (new_session 60) (req ''test_harness_mgr'' @ create_bytes (PARAM_DEVICE demo_params) 0 [] []
      [PARAM_DEVICE demo_params @ ascii ''_test_harness''] (ascii ''a'', [1])) (setup_bytes (PARAM_CHANNELS demo_params)
      (PARAM_WIDTH demo_params) (PARAM_DEPTH demo_params) (PARAM_MEM_WIDTH demo_params)) True demo_session" for X
    using serve_create [OF 1 demo_create_ok, of "new_session 60" X 0] by (simp add: demo_session_def new_session_def)
  show ?thesis
  proof (rule serve_reachable [OF session_reachable.start _ _ c])
    show "mgr_sized (last_result (made demo_params []) [] []) (new_session 60)" by (simp add: mgr_sized_def new_session_def)
  qed (simp_all add: new_session_def create_bytes_def req_def enc_str_def str_codec.enc_each_def bool_codec.enc_each_def enc_path_def
      enc_vec_def demo_params_def)
qed

lemma demo_busy_reachable:
  assumes p: "packs FUNC_MODE loop_args 0 demo_connected u"
  shows "session_reachable demo_params (demo_session\<lparr>ss_mgr := Some (admitted (sent FUNC_MODE u (made demo_params [])) (made demo_params []))\<rparr>)"
proof -
  let ?v = "made demo_params []"
  have m: "matched demo_connected ?v" using demo_ready by (simp add: remote_ready_def)
  have s: "ss_mgr demo_session = Some ?v" "\<not> mDone demo_session" by (simp_all add: demo_session_def new_session_def)
  have z: "mgr_sized (last_result ?v [] []) demo_session"
    by (simp add: mgr_sized_def s(1) sized_def due_runs_def made_def new_server_def)
  have l: "length (concat (map word_bytes (xs :: u64 list))) = 8 * length xs" "length (concat (map word_bytes (ys :: u8 list))) = length ys" for xs ys
    by (induction xs) (simp_all, induction ys, simp_all)
  have b: "8 * length (cfg_ptr u) + length (to_aie_ptr u) \<le> 2 ^ 30" using p by (simp add: packs_def trans_bytes_def)
  show ?thesis
    using serve_reachable [OF demo_session_reachable s(2) z serve_submit [OF p m s(1)]] b
    by (simp add: run_bytes_def req_def enc_str_def enc_vec_def l demo_session_def new_session_def)
qed

section \<open>Properties\<close>

text \<open>C33: the invariant of the server. In every session that serves requests, whatever bytes the client has sent, in whatever order
  requests, threads and the watchdog have run: the live transactions are exactly the pending ones, once each, and each
  has its thread; only the first one's can have started, and a transaction's status tells how far its thread is;
  at most one run of the kernel is outstanding (its buffers have not been fetched), the last one, and it has the buffers of the first transaction;
  the memory in use is counted exactly and never exceeds a gigabyte.\<close>

theorem server_invariant:
  assumes "session_reachable P s" and "\<not> mDone s" and "ss_mgr s = Some v"
  shows "distinct (sv_transactions v) \<and> dom (heap (sv_host v)) = set (sv_transactions v) \<and>
    dom (sv_pl_threads v) = set (sv_transactions v) \<and>
    (\<forall>p \<in> set (tl (sv_transactions v)). sv_pl_threads v p = Some PL_Waiting) \<and>
    (\<forall>p t th. heap (sv_host v) p = Some t \<longrightarrow> sv_pl_threads v p = Some th \<longrightarrow>
       sv_id2trans v (trans_id t) = Some p \<and>
       (case th of PL_Waiting \<Rightarrow> status t = TRANSACTION_READY | PL_Running \<Rightarrow> status t = TRANSACTION_RUNNING
          | PL_Ended \<Rightarrow> status t = TRANSACTION_DONE \<or> status t = TRANSACTION_TIMEOUT)) \<and>
    (case sv_transactions v of [] \<Rightarrow> bo_hdl (xm (sv_host v)) = []
     | p # ps \<Rightarrow> bo_hdl (xm (sv_host v)) = [] \<or>
         sv_pl_threads v p = Some PL_Running \<and> bo_hdl (xm (sv_host v)) = [sv_last v] \<and>
         (\<exists>t. heap (sv_host v) p = Some t \<and> pl_k_r_hdl (xm (sv_host v)) ! sv_last v = run_of p t)) \<and>
    unat (sv_memorySize v) = (\<Sum>p\<leftarrow>sv_transactions v. unat (getMemoryUsage (the (heap (sv_host v) p)))) \<and>
    unat (sv_memorySize v) \<le> 2 ^ 30"
proof -
  have i: "sv_inv v" using session_reachable_inv [OF assms(1)] assms(2,3) by (simp add: serving_inv_def)
  have "unat (sv_memorySize v) \<le> 2 ^ 30" using sv_invD(9) [OF i] by (simp add: memorySizeMax_def word_le_nat_alt)
  with live_first [OF i] sv_invD(1-3,8) [OF i] sv_invD(5) [OF i] show ?thesis
    unfolding usage_def using sv_invD(6) [OF i] unfolding thread_status_def by simp
qed

theorem server_invariant_witness:
  "\<exists>s v p t. session_reachable demo_params s \<and> ss_mgr s = Some v \<and> sv_transactions v = [p] \<and> heap (sv_host v) p = Some t \<and>
     unat (sv_memorySize v) = unat (getMemoryUsage t)"
proof -
  obtain u where p: "packs FUNC_MODE loop_args 0 demo_connected u" using demo_packs by blast
  let ?w = "sent FUNC_MODE u (made demo_params [])"
  let ?v = "admitted ?w (made demo_params [])" and ?n = "next_trans (sv_host (made demo_params []))"
  have t: "sv_transactions ?v = [?n]" "heap (sv_host ?v) ?n = Some ?w" by (simp_all add: admitted_def Let_def made_def new_server_def)
  have "\<not> mDone (demo_session\<lparr>ss_mgr := Some ?v\<rparr>)" "ss_mgr (demo_session\<lparr>ss_mgr := Some ?v\<rparr>) = Some ?v"
    by (simp_all add: demo_session_def new_session_def)
  from server_invariant [OF demo_busy_reachable [OF p] this]
  have "unat (sv_memorySize ?v) = unat (getMemoryUsage ?w)" unfolding t by (simp add: t(2))
  with demo_busy_reachable [OF p] t show ?thesis
    by (intro exI [of _ "demo_session\<lparr>ss_mgr := Some ?v\<rparr>"] exI [of _ ?v] exI [of _ ?n] exI [of _ ?w]) simp
qed

text \<open>C34: how a request can end. In every session that serves requests, whatever bytes arrive, \<open>runTestHarness\<close> of the server
  returns or throws one of its documented exceptions or an allocation failure, and so does \<open>waitForTestHarness\<close>, which
  refuses the request when no transaction is pending; the latter waits forever only if the kernel has not finished. Neither ever
  touches a deleted transaction.\<close>

theorem request_errors:
  assumes "session_reachable P s" and "\<not> mDone s" and "ss_mgr s = Some v"
  shows "(\<forall>k e w. sv_runTestHarness (v, k) = (Inl e, w) \<longrightarrow>
      e \<in> {TestHarnessException INVALID_ARGUMENTS, TestHarnessException TEST_HARNESS_RUN_FAILURE,
        StdException Std_Length_Error, StdException Std_Bad_Alloc}) \<and>
    (\<forall>X k e w. sv_waitForTestHarness X (v, k) = (Inl e, w) \<longrightarrow>
      (if sv_transactions v = [] then e = TestHarnessException INVALID_OPERATIONS
       else e \<in> {TestHarnessException INVALID_ARGUMENTS, TestHarnessException TEST_HARNESS_WAIT_FOR_RES_FAILURE,
          StdException Std_Length_Error, StdException Std_Bad_Alloc, NoReturn} \<and> (e = NoReturn \<longrightarrow> (\<exists>i. \<not> finished X i))))"
proof -
  have i: "sv_inv v" using session_reachable_inv [OF assms(1)] assms(2,3) by (simp add: serving_inv_def)
  show ?thesis
  proof (intro conjI allI impI)
    fix X k e w assume "sv_waitForTestHarness X (v, k) = (Inl e, w)"
    then show "if sv_transactions v = [] then e = TestHarnessException INVALID_OPERATIONS
       else e \<in> {TestHarnessException INVALID_ARGUMENTS, TestHarnessException TEST_HARNESS_WAIT_FOR_RES_FAILURE,
          StdException Std_Length_Error, StdException Std_Bad_Alloc, NoReturn} \<and> (e = NoReturn \<longrightarrow> (\<exists>i. \<not> finished X i))"
      by (rule wait_fails [OF i])
  qed (rule run_fails)
qed

lemma demo_session_simps: "\<not> mDone demo_session" "ss_mgr demo_session = Some (made demo_params [])"
  "sv_transactions (made demo_params []) = []"
  by (simp_all add: demo_session_def new_session_def made_def new_server_def)

theorem request_errors_witness:
  "\<forall>X k. \<exists>e. sv_waitForTestHarness X (made demo_params [], k) = (Inl e, (made demo_params [], k)) \<and> e = TestHarnessException INVALID_OPERATIONS"
proof (intro allI)
  fix X k
  obtain e where e: "sv_waitForTestHarness X (made demo_params [], k) = (Inl e, (made demo_params [], k))"
    by (simp add: sv_waitForTestHarness_def made_def new_server_def throw_def)
  from request_errors [OF demo_session_reachable demo_session_simps(1,2), THEN conjunct2, rule_format, OF e]
  show "\<exists>e. sv_waitForTestHarness X (made demo_params [], k) = (Inl e, (made demo_params [], k)) \<and> e = TestHarnessException INVALID_OPERATIONS"
    using e demo_session_simps(3) by simp
qed

text \<open>C35: what a delivered transaction leaves behind. Once the results of a transaction have been sent, the server has deleted it but
  still knows its identifier: a status query for it uses the deleted transaction, and a new transaction cannot
  have the identifier.\<close>

theorem delivered_identifier:
  assumes "session_reachable P s" and "\<not> mDone s" and "ss_mgr s = Some v" and "sv_transactions v = p # ps"
    and "heap (sv_host v) p = Some t" and "sv_waitForTestHarness X (v, k) = (Inr (), (v', k'))"
  shows "(\<forall>k1 n k2. recvData_word k1 = (Inr (trans_id t, n), k2) \<longrightarrow>
      sv_queryTransactionStatus (v', k1) = (Inl UndefinedBehaviour, (v', k2))) \<and>
    (\<forall>sz k1 md n k2 n' k3. recvData_word k1 = (Inr (md, n), k2) \<longrightarrow> md = FUNC_MODE \<or> md = PERF_MODE \<longrightarrow>
      recvData_word k2 = (Inr (trans_id t, n'), k3) \<longrightarrow>
      receive_transaction sz (v', k1) = (Inl (TestHarnessException INVALID_ARGUMENTS), (v', k3)))"
proof -
  have i: "sv_inv v" using session_reachable_inv [OF assms(1)] assms(2,3) by (simp add: serving_inv_def)
  obtain th where "sv_pl_threads v p = Some th" using sv_invE [OF i assms(4)] by metis
  then have "sv_id2trans v (trans_id t) = Some p" using sv_invD(6) [OF i assms(5)] by blast
  then have v': "sv_id2trans v' (trans_id t) = Some p" "heap (sv_host v') p = None"
    using wait_leaves [OF i assms(4,6)] by simp_all
  show ?thesis using query_dangling [OF v'] receive_known [OF _ _ _ v'(1)] by blast
qed

text \<open>The first transaction has run, and its results wait to be collected.\<close>

lemma demo_completed:
  assumes p: "packs FUNC_MODE loop_args 0 demo_connected u"
  defines "w \<equiv> sent FUNC_MODE u (made demo_params [])"
  defines "X \<equiv> last_result (launched w (made demo_params [])) (perf_ptr w) (from_aie_ptr w)"
  shows "session_reachable demo_params (demo_session\<lparr>ss_mgr := Some (completed X w (made demo_params []))\<rparr>) \<and>
    (\<exists>k v' k'. sv_waitForTestHarness X (completed X w (made demo_params []), k) = (Inr (), (v', k')))"
proof -
  let ?v = "made demo_params []"
  let ?s = "\<lambda>v. demo_session\<lparr>ss_mgr := Some v\<rparr>"
  have m: "matched demo_connected ?v" "sv_transactions ?v = []" using demo_ready by (simp_all add: remote_ready_def matched_def)
  note a = sent_admitted [OF p m(1), folded w_def] and same = sent_same [OF p m(1), folded w_def]
  have X: "runs_finished X (launched w ?v)" by (simp add: X_def runs_finished_def last_result_def)
  have z: "sized X (launched w ?v)" unfolding X_def by (rule last_result_sized [OF m(2)]) simp_all
  have z1: "sized X (admitted w ?v)"
    using z m(2) unfolding sized_def due_launched [OF m(2)] by (simp add: due_runs_def admitted_def Let_def)
  have r1: "session_reachable demo_params (?s (launched w ?v))"
    using session_reachable.thread [OF demo_busy_reachable [OF p] _ z1 [unfolded w_def] server_begins [OF a m(2), unfolded w_def, of X]]
    by (simp add: w_def)
  have r2: "session_reachable demo_params (?s (completed X w ?v))"
    using session_reachable.thread [OF r1 _ z server_ends [OF a m(2) same(6) X]] by simp
  have "short 59 (device_from_aie X (sv_last (launched w ?v)))" "short 59 (device_perf X (sv_last (launched w ?v)))"
    using packs_short(3,4) [OF p] by (simp_all add: X_def last_result_def same)
  note c = conv_delivery [OF a m(2) X z this]
  obtain k k' where "sv_waitForTestHarness X (completed X w ?v, k) = (Inr (), (handed_over X w ?v, k'))"
    by (rule converses_occurs [OF c])
  with r2 show ?thesis by blast
qed

theorem delivered_identifier_witness:
  "\<exists>v tid k n k'. recvData_word k = (Inr (tid :: u32, n), k') \<and> sv_queryTransactionStatus (v, k) = (Inl UndefinedBehaviour, (v, k'))"
proof -
  obtain u where p: "packs FUNC_MODE loop_args 0 demo_connected u" using demo_packs by blast
  let ?v = "made demo_params []" and ?w = "sent FUNC_MODE u (made demo_params [])"
  let ?X = "last_result (launched ?w ?v) (perf_ptr ?w) (from_aie_ptr ?w)"
  let ?s = "demo_session\<lparr>ss_mgr := Some (completed ?X ?w ?v)\<rparr>"
  have s: "\<not> mDone ?s" "ss_mgr ?s = Some (completed ?X ?w ?v)" by (simp_all add: demo_session_def new_session_def)
  have f: "runs_finished ?X (launched ?w ?v)" by (simp add: runs_finished_def last_result_def)
  note c = completed_facts [OF demo_session_simps(3) f]
  obtain k v' k' where d: "sv_waitForTestHarness ?X (completed ?X ?w ?v, k) = (Inr (), (v', k'))" using demo_completed [OF p] by blast
  let ?tid = "trans_id (answered ?X (sv_last (launched ?w ?v)) ?w)"
  obtain k1 k2 where "fetch recvData_word (v', k1) = (Inr ?tid, (v', k2))"
    by (rule converses_occurs [OF conv_recv_word [where w = ?tid and s = v']]) simp
  then obtain n where "recvData_word k1 = (Inr (?tid, n), k2)" by (auto simp: fetch_eq)
  with delivered_identifier [OF demo_completed [OF p, THEN conjunct1] s c(1) c(3) d] show ?thesis by blast
qed

section \<open>The watchdog\<close>

text \<open>The requests that count as activity.\<close>

definition active_requests :: "u8 list set" where
  "active_requests = {ascii ''test_harness_mgr'', ascii ''runTestHarness'', ascii ''runAIEGraph'', ascii ''waitForTestHarness'',
     ascii ''waitForGraph''}"

text \<open>\<open>j\<close> seconds of the watchdog while the session serves other requests only, and its threads run.\<close>

inductive idle :: "params \<Rightarrow> watch \<times> session \<Rightarrow> nat \<Rightarrow> watch \<Rightarrow> session \<Rightarrow> bool" for P ws where
  now: "idle P ws 0 (fst ws) (snd ws)"
| second: "idle P ws j w s \<Longrightarrow> monitor_second w s = (w', s') \<Longrightarrow> idle P ws (Suc j) w' s'"
| request: "idle P ws j w s \<Longrightarrow> recvReq k = (Inr r, k1) \<Longrightarrow> r \<notin> active_requests \<Longrightarrow> run_once P c X (s, k) = (Inr True, (s', k')) \<Longrightarrow>
    idle P ws j w s'"
| thread: "idle P ws j w s \<Longrightarrow> ss_mgr s = Some v \<Longrightarrow> pl_step X v v' \<Longrightarrow> idle P ws j w (s\<lparr>ss_mgr := Some v'\<rparr>)"

lemma query_keeps:
  assumes "on_mgr sv_queryTransactionStatus (s, k) = (Inr (), (s', k'))" shows "s' = s"
proof -
  obtain v v' where v: "ss_mgr s = Some v" "sv_queryTransactionStatus (v, k) = (Inr (), (v', k'))" "s' = s\<lparr>ss_mgr := Some v'\<rparr>"
    using assms by (auto simp: on_mgr_def split: option.splits prod.splits)
  have "v' = v" by (rule query_effect [OF v(2)])
  then show ?thesis using v(1,3) by (cases s) simp
qed

lemma passive_dispatch:
  assumes d: "dispatch P c X r (s, k) = (Inr True, (s', k'))" and r: "r \<notin> active_requests"
  shows "mActive s' = mActive s \<and> mDone s' = mDone s \<and> ss_mgr s' = ss_mgr s"
proof -
  have q: "s' = s" if "on_mgr sv_queryTransactionStatus (s, k) = (Inr (), (s', k'))" using query_keeps [OF that] .
  show ?thesis
    using d r q unfolding dispatch_def active_requests_def
    by (auto simp: thenM_eq_Inr bindM_eq_Inr runs mgr_exists_def ss_setTimeOut_def split: if_splits)
qed

lemma passive_request:
  assumes "recvReq k = (Inr r, k1)" "r \<notin> active_requests" "run_once P c X (s, k) = (Inr True, (s', k'))"
  shows "mActive s' = mActive s \<and> mDone s' = mDone s \<and> ss_mgr s' = ss_mgr s"
proof -
  have "serve P c X (s, k) = (Inr True, (s', k'))"
    using assms(3) by (auto simp: run_once_def bindM_eq_Inr thenM_eq_Inr catch_def throw_def runs split: prod.splits sum.splits if_splits)
  then have "dispatch P c X r (s, k1) = (Inr True, (s', k'))"
    using assms(1) by (auto simp: serve_def bindM_eq_Inr runs)
  then show ?thesis by (rule passive_dispatch [OF _ assms(2)])
qed

text \<open>C36: the watchdog. With \<open>n\<close> seconds left on its counter, a session that serves no request that counts as activity is destroyed
  exactly at the end of the \<open>n\<close>th second, whatever status queries, time limit requests and unknown requests it serves and
  whatever its threads do meanwhile; a request that counts gives it the whole interval again at the next second.\<close>

theorem watchdog_kills:
  assumes "\<not> mDone s" and "0 < n"
  shows "(\<not> mActive s \<longrightarrow> (\<forall>j w' s'. idle P (Watching n, s) j w' s' \<longrightarrow>
      (if j < unat n then w' = Watching (n - of_nat j) else w' = Watch_Killed \<and> ss_mgr s' = None))) \<and>
    (mActive s \<longrightarrow> monitorInterval s \<noteq> 0 \<longrightarrow> monitor_second (Watching n) s = (Watching (monitorInterval s), s\<lparr>mActive := False\<rparr>))"
proof (intro conjI impI allI)
  fix j w' s' assume i: "idle P (Watching n, s) j w' s'" and a: "\<not> mActive s"
  from i have "\<not> mActive s' \<and> \<not> mDone s' \<and>
      (if j < unat n then w' = Watching (n - of_nat j) else w' = Watch_Killed \<and> ss_mgr s' = None)"
  proof induction
    case now
    then show ?case using assms a by (simp add: word_less_nat_alt)
  next
    case (second j w s w' s')
    show ?case
    proof (cases "j < unat n")
      case True
      have u: "unat (of_nat j :: u64) = j"
        using True unat_less_exp [where m = 64 and x = n] by (intro unat_of_nat_small) simp
      have j1: "unat (n - of_nat j) = unat n - j" using True u by (simp add: unat_sub word_le_nat_alt)
      have j2: "unat (n - of_nat j - 1) = unat n - j - 1" using True j1 by (subst unat_sub) (simp_all add: word_le_nat_alt)
      have j3: "n - of_nat j - 1 = n - of_nat (Suc j)" by simp
      have "(n - of_nat j - 1 = 0) = (Suc j = unat n)" using j2 True by (auto simp: unat_eq_0 [symmetric])
      then show ?thesis using second True j3 by (auto simp: Let_def split: if_splits)
    next
      case False
      then show ?thesis using second by auto
    qed
  next
    case (request j w s k r k1 c X s' k')
    then show ?case using passive_request by metis
  next
    case (thread j w s v X v')
    then show ?case by (auto split: if_splits)
  qed
  then show "if j < unat n then w' = Watching (n - of_nat j) else w' = Watch_Killed \<and> ss_mgr s' = None" by blast
qed (use assms in \<open>simp add: Let_def\<close>)

theorem watchdog_kills_witness:
  "\<exists>s. idle demo_params (Watching 2, new_session 2) 2 Watch_Killed s \<and> ss_mgr s = None"
proof -
  let ?s = "new_session 2"
  have i: "idle demo_params (Watching 2, ?s) (Suc (Suc 0)) Watch_Killed (?s\<lparr>ss_mgr := None\<rparr>)"
    by (rule idle.second [OF idle.second [where w = "Watching 2" and s = ?s and w' = "Watching 1" and s' = ?s]])
      (use idle.now [of demo_params "(Watching 2, ?s)"] in \<open>simp_all add: new_session_def\<close>)
  have "\<not> mDone ?s" "\<not> mActive ?s" "(0 :: u64) < 2" by (simp_all add: new_session_def)
  from watchdog_kills [OF this(1,3), of demo_params] this(2) i show ?thesis by (auto simp: numeral_2_eq_2)
qed

end
