(* ===== verification/Client_Inv.thy ===== *)
theory Client_Inv
  imports Client_Talks
begin

text \<open>
  The shape of the state of a client: what every call and every round of a thread keeps, whether it returns, throws, still waits or
  has undefined behaviour, whatever the server sends; and what the loop of \<open>waitForRes\<close> does with a pending transaction.
\<close>

section \<open>Identifiers\<close>

lemma handleInputs_trans_id: "trans_id (snd (handleInputs um args t)) = trans_id t"
proof -
  have "keeps (blank t) (thenM (check_arguments args) (bindM getM (\<lambda>t. thenM (write_cfg 0 (ucast (tr_mode t)))
      (thenM (if tr_mode t = FUNC_MODE then func_inputs um else if tr_mode t = PERF_MODE then perf_inputs um else ret ())
      (modifyM (\<lambda>t. t\<lparr>status := TRANSACTION_READY\<rparr>))))))"
    by (intro keeps) (simp add: blank_def)
  from keepsD [OF this blank_reset] show ?thesis by (simp add: handleInputs_def blank_def)
qed

lemma handleOutputs_trans_id: "trans_id (fst (snd (handleOutputs (t, um)))) = trans_id t"
proof -
  have "keeps (\<lambda>(u, um). trans_id u = trans_id t) handleOutputs"
    unfolding handleOutputs_def handle_output_def copy_from_aie_def perf_pair_def Let_def
    by (intro keeps) (auto simp: clearData_def)
  from keepsD [OF this, of "(t, um)"] show ?thesis by (simp add: split_def)
qed

lemma getDelayBwtween_trans_id: "trans_id (snd (getDelayBwtween a b t)) = trans_id t"
proof -
  have "keeps (\<lambda>u. trans_id u = trans_id t) (perf_lookup ch)" for ch
    by (rule keeps_state) (simp add: perf_lookup_def split: option.splits)
  then have "keeps (\<lambda>u. trans_id u = trans_id t) (getDelayBwtween a b)"
    unfolding getDelayBwtween_def Let_def by (intro keeps)
  from keepsD [OF this refl] show ?thesis .
qed

section \<open>The shape\<close>

text \<open>\<open>ok\<close> says that no call has had undefined behaviour so far; then every thread belongs to a pending transaction.\<close>

definition client_wf :: "bool \<Rightarrow> client \<Rightarrow> bool" where
  "client_wf ok c \<longleftrightarrow> cl_transactions c = [0..<cl_next c] \<and> dom (cl_heap c) = {..<cl_next c} \<and>
     (\<forall>p t. cl_heap c p = Some t \<longrightarrow> trans_id t = cl_trans_id c - of_nat (cl_next c) + of_nat p) \<and>
     distinct (cl_pending c) \<and> set (cl_pending c) \<subseteq> dom (cl_threads c) \<and> dom (cl_threads c) \<subseteq> {..<cl_next c} \<and>
     (\<forall>p. cl_threads c p = Some CL_Waiting \<longrightarrow> p \<in> set (cl_pending c)) \<and>
     (ok \<longrightarrow> set (cl_pending c) = dom (cl_threads c))"

lemma wf_mono: "client_wf ok c \<Longrightarrow> client_wf (ok \<and> b) c"
  by (simp add: client_wf_def)

text \<open>The same for a client that works on a transaction of its own, which has no thread yet.\<close>

definition holds :: "bool \<Rightarrow> nat \<Rightarrow> client \<Rightarrow> bool" where
  "holds ok p c \<longleftrightarrow> client_wf ok c \<and> p < cl_next c \<and> p \<notin> dom (cl_threads c)"

definition linked :: "('s \<Rightarrow> bool) \<Rightarrow> 's \<times> sock \<Rightarrow> bool" where
  "linked I = (\<lambda>(s, k). I s)"

lemma linked_simp [simp]: "linked I (s, k) \<longleftrightarrow> I s"
  by (simp add: linked_def)

lemma keeps_net [keeps]: "keeps (linked I) (net m)"
  by (auto simp: keeps_def hoare_def net_def split: prod.splits sum.splits)

lemma keeps_fetch [keeps]: "keeps (linked I) (fetch m)"
  unfolding fetch_def by (intro keeps)

lemma keeps_put [keeps]: "keeps (linked I) (put m)"
  unfolding put_def by (intro keeps)

lemma keeps_own [keeps]: "keeps I m \<Longrightarrow> keeps (linked I) (own m)"
  by (auto simp: keeps_def hoare_def own_def split: prod.splits sum.splits)

lemma keeps_catch [keeps]: "keeps I m \<Longrightarrow> (\<And>e. keeps I (h e)) \<Longrightarrow> keeps I (catch m h)"
  unfolding keeps_def
proof (rule hoareI)
  assume m: "hoare I m (\<lambda>_. I) (\<lambda>_. I)" and h: "\<And>e. hoare I (h e) (\<lambda>_. I) (\<lambda>_. I)"
  fix s s' assume s: "I s"
  have k: "I s'" if "catch m h s = (r, s')" for r
  proof (cases "m s")
    case (Pair r1 s1)
    show ?thesis
    proof (cases r1)
      case (Inl e)
      then have "I s1" using m s Pair by (auto dest: hoareD_Inl)
      then have "I (snd (h e s1))" using keepsD [of I "h e"] h by (simp add: keeps_def)
      then show ?thesis using that Pair Inl by (simp add: catch_def)
    next
      case (Inr x)
      then show ?thesis using m s Pair that by (auto simp: catch_def dest: hoareD_Inr)
    qed
  qed
  show "I s'" if "catch m h s = (Inl e, s')" for e using k that .
  show "I s'" if "catch m h s = (Inr a, s')" for a using k that .
qed

lemma keeps_guard [keeps]: "keeps I m \<Longrightarrow> keeps I (socket_guard st m)"
  unfolding socket_guard_def by (intro keeps) (auto simp: keeps_basic split: harness_error.splits)

text \<open>A transaction changes, but not its identifier.\<close>

lemma wf_update: "client_wf ok c \<Longrightarrow> cl_heap c p = Some t \<Longrightarrow> trans_id t' = trans_id t \<Longrightarrow>
    client_wf ok (c\<lparr>cl_heap := (cl_heap c)(p \<mapsto> t')\<rparr>) \<and> client_wf ok (c\<lparr>cl_heap := (cl_heap c)(p \<mapsto> t'), cl_mem := um\<rparr>)"
  by (auto simp: client_wf_def)

definition heap_closed :: "(client \<Rightarrow> bool) \<Rightarrow> bool" where
  "heap_closed I \<longleftrightarrow> (\<forall>c p t t' um. I c \<longrightarrow> cl_heap c p = Some t \<longrightarrow> trans_id t' = trans_id t \<longrightarrow>
     I (c\<lparr>cl_heap := (cl_heap c)(p \<mapsto> t')\<rparr>) \<and> I (c\<lparr>cl_heap := (cl_heap c)(p \<mapsto> t'), cl_mem := um\<rparr>))"

lemma heap_closed_wf [simp]: "heap_closed (client_wf ok)"
  unfolding heap_closed_def using wf_update by blast

lemma heap_closed_holds [simp]: "heap_closed (holds ok p)"
  unfolding heap_closed_def holds_def using wf_update by simp

lemma heap_closed_running [simp]: "heap_closed (\<lambda>c. client_wf ok c \<and> p \<in> dom (cl_threads c))"
  unfolding heap_closed_def using wf_update by simp

lemma keeps_cl_deref [keeps]: "keeps I (cl_deref p)"
  unfolding cl_deref_def by (intro keeps)

lemma keeps_cl_on:
  assumes "heap_closed I" "\<And>um t. trans_id (snd (m um t)) = trans_id t" shows "keeps I (cl_on p m)"
proof -
  have "I (snd (cl_on p m c))" if "I c" for c
  proof (cases "cl_heap c p")
    case (Some t)
    then show ?thesis
      using that assms(1) assms(2) [of "cl_mem c" t] unfolding heap_closed_def
      by (cases "m (cl_mem c) t") (simp add: cl_on_def)
  qed (use that in \<open>simp add: cl_on_def throw_def\<close>)
  then show ?thesis by (rule keeps_state)
qed

lemma keeps_cl_on_mem:
  assumes "heap_closed I" shows "keeps I (cl_on_mem p handleOutputs)"
proof -
  have "I (snd (cl_on_mem p handleOutputs c))" if "I c" for c
  proof (cases "cl_heap c p")
    case (Some t)
    obtain r t' um where h: "handleOutputs (t, cl_mem c) = (r, (t', um))" by (metis surj_pair)
    then have "trans_id t' = trans_id t" using handleOutputs_trans_id [of t "cl_mem c"] by simp
    then show ?thesis
      using that assms(1) Some h unfolding heap_closed_def by (simp add: cl_on_mem_def)
  qed (use that in \<open>simp add: cl_on_mem_def throw_def\<close>)
  then show ?thesis by (rule keeps_state)
qed

lemma keeps_cl_update [keeps]:
  assumes "heap_closed I" "\<And>t. trans_id (f t) = trans_id t" shows "keeps (linked I) (cl_update p f)"
  by (intro keeps keeps_cl_on assms(1)) (simp add: modifyM_def assms(2))

text \<open>Fields the shape does not mention.\<close>

lemma wf_fields [simp]:
  "client_wf ok (c\<lparr>cl_graph_started := g\<rparr>) = client_wf ok c" "client_wf ok (c\<lparr>cl_max_memory_usage := x\<rparr>) = client_wf ok c"
  "client_wf ok (c\<lparr>cl_num_channels := a, cl_depth := d, cl_word_size := w, cl_memWidth := mw\<rparr>) = client_wf ok c"
  by (simp_all add: client_wf_def)

section \<open>The calls\<close>

lemma create_wf: "keeps (linked (client_wf ok)) (createTestHarness device_index xclbin graph_name)"
  unfolding createTestHarness_def cl_setup_def cl_send_design_def Let_def by (intro keeps) simp_all

lemma graph_calls_wf:
  "keeps (linked (client_wf ok)) (cl_runAIEGraph g iters)" "keeps (linked (client_wf ok)) (cl_waitForGraph ms)"
  "keeps (linked (client_wf ok)) getServerTimeOut" "keeps (linked (client_wf ok)) (setServerTimeOut sec)"
  unfolding cl_runAIEGraph_def cl_waitForGraph_def getServerTimeOut_def setServerTimeOut_def by (intro keeps; simp)+

lemma collect_wf: "heap_closed I \<Longrightarrow> keeps (linked I) (cl_collect p)"
  unfolding cl_collect_def by (intro keeps keeps_cl_on_mem) (simp_all add: setStatus_def)

lemma delay_wf: "keeps (client_wf ok) (cl_getDelayBetween a b i)"
proof -
  have "keeps (client_wf ok) (sanctifyTransIdx i)"
    by (rule keeps_state) (simp add: sanctifyTransIdx_def ret_def throw_def)
  then show ?thesis
    unfolding cl_getDelayBetween_def by (intro keeps keeps_cl_on) (simp_all add: getDelayBwtween_trans_id)
qed

lemma keeps_impl: "keeps P m \<Longrightarrow> (\<And>s. P s \<Longrightarrow> Q s) \<Longrightarrow> P s \<Longrightarrow> Q (snd (m s))"
  using keepsD by metis

text \<open>A round of a thread that runs.\<close>

lemma keeps_thread_round:
  assumes "heap_closed I" "\<And>c. I c \<Longrightarrow> I (c\<lparr>cl_threads := (cl_threads c)(p \<mapsto> CL_Ended)\<rparr>)" shows "keeps (linked I) (cl_thread_round p)"
  unfolding cl_thread_round_def cl_round_def cl_queryTransactionStatus_def
  by (intro keeps collect_wf assms)

definition thread_closed :: "(client \<Rightarrow> bool) \<Rightarrow> bool" where
  "thread_closed I \<longleftrightarrow> heap_closed I \<and>
     (\<forall>c p. I c \<longrightarrow> p \<in> dom (cl_threads c) \<longrightarrow> I (c\<lparr>cl_threads := (cl_threads c)(p \<mapsto> CL_Ended)\<rparr>))"

lemma round_keeps:
  assumes "thread_closed I" "I c" "p \<in> dom (cl_threads c)" shows "I (fst (snd (cl_thread_round p (c, k))))"
proof -
  let ?I = "\<lambda>c. I c \<and> p \<in> dom (cl_threads c)"
  have "keeps (linked ?I) (cl_thread_round p)"
    by (rule keeps_thread_round) (use assms(1) in \<open>auto simp: thread_closed_def heap_closed_def\<close>)
  from keepsD [OF this, of "(c, k)"] assms show ?thesis by (simp add: linked_def split_def)
qed

lemma thread_closed_wf: "thread_closed (client_wf ok)"
  by (auto simp: thread_closed_def client_wf_def)

lemma keeps_rounds: "thread_closed I \<Longrightarrow> keeps (linked I) (cl_rounds qs)"
proof (induction qs)
  case (Cons q qs)
  have "keeps (linked I) (bindM getM (\<lambda>(s, k). if cl_threads s q = Some CL_Waiting then cl_thread_round q else ret ()))"
  proof (rule keeps_state)
    fix w :: "client \<times> sock" assume "linked I w"
    then show "linked I (snd (bindM getM (\<lambda>(s, k). if cl_threads s q = Some CL_Waiting then cl_thread_round q else ret ()) w))"
      using round_keeps [OF Cons.prems, of "fst w" q "snd w"] by (auto simp: linked_def split_def ret_def)
  qed
  with Cons show ?case by (auto intro: keeps)
qed (simp add: keeps)

lemma keeps_join: "thread_closed I \<Longrightarrow> keeps (linked I) (cl_join p qs)"
proof -
  have "keeps (linked I) (case x of None \<Rightarrow> throw (StdException Std_System_Error) | Some CL_Waiting \<Rightarrow> throw NoReturn | Some CL_Ended \<Rightarrow> ret ())" for x
    by (auto simp: keeps_basic split: option.splits client_thread.splits)
  then show "thread_closed I \<Longrightarrow> keeps (linked I) (cl_join p qs)"
    unfolding cl_join_def by (intro keeps keeps_rounds)
qed

lemma join_ended: "cl_join p qs (c, k) = (Inr (), (c', k')) \<Longrightarrow> cl_threads c' p = Some CL_Ended"
  by (auto simp: cl_join_def thenM_def bindM_def ret_def throw_def split: prod.splits sum.splits option.splits client_thread.splits)

section \<open>Waiting\<close>

lemma extend_keeps: "keeps (linked I) (cl_extend_limit ms)"
  unfolding cl_extend_limit_def Let_def getServerTimeOut_def setServerTimeOut_def by (intro keeps)

text \<open>The pass for the first pending transaction, and there is no second.\<close>

lemma wait_first:
  fixes ms :: u32
  assumes w: "client_wf ok c" "cl_pending c = p # ps"
  defines "c1 \<equiv> c\<lparr>cl_heap := (cl_heap c)(p \<mapsto> setTimeOut ms (the (cl_heap c p)))\<rparr>"
  shows "cl_wait_pending ms sched (Suc n) (cl_front c) all (c, k) =
    (case cl_join p (sched (cl_front c)) (c1, k) of
       (Inl e, w) \<Rightarrow> (Inl e, w)
     | (Inr u, (c2, k2)) \<Rightarrow> (Inl UndefinedBehaviour, (c2\<lparr>cl_pending := ps, cl_front := Suc (cl_front c)\<rparr>, k2)))"
proof -
  have "p < cl_next c" using w unfolding client_wf_def by auto
  then obtain t where t: "cl_heap c p = Some t" using w(1) unfolding client_wf_def by blast
  have a: "own (pending_at (cl_front c)) (c, k) = (Inr p, (c, k))" "own (pending_at (cl_front c)) (c1, k) = (Inr p, (c1, k))"
    using w(2) by (simp_all add: own_def pending_at_def vec_get_def c1_def ret_def)
  have b: "cl_update p (setTimeOut ms) (c, k) = (Inr (), (c1, k))"
    using t by (simp add: own_def cl_on_def modifyM_def c1_def)
  obtain r c2 k2 where j: "cl_join p (sched (cl_front c)) (c1, k) = (r, (c2, k2))" by (metis surj_pair)
  have "thread_closed (\<lambda>d. cl_pending d = p # ps \<and> cl_front d = cl_front c)" by (simp add: thread_closed_def heap_closed_def)
  from keepsD [OF keeps_join [OF this], of "(c1, k)" p "sched (cl_front c)"] w(2)
  have q: "cl_pending c2 = p # ps" "cl_front c2 = cl_front c" by (simp_all add: j [unfolded c1_def] c1_def)
  have d: "own pop_pending (c2, k2) = (Inr (), (c2\<lparr>cl_pending := ps, cl_front := Suc (cl_front c)\<rparr>, k2))"
    "own (pending_at (cl_front c)) (c2\<lparr>cl_pending := ps, cl_front := Suc (cl_front c)\<rparr>, k2) =
      (Inl UndefinedBehaviour, (c2\<lparr>cl_pending := ps, cl_front := Suc (cl_front c)\<rparr>, k2))"
    using q by (simp_all add: own_def pop_pending_def pending_at_def guardM_def thenM_def bindM_def throw_def)
  show ?thesis using j a b d by (cases r) (simp_all add: thenM_def bindM_def)
qed

lemma wait_first_wf:
  assumes w: "client_wf ok c" "cl_pending c = p # ps" and r: "cl_wait_pending ms sched (Suc n) (cl_front c) all (c, k) = (r, (c', k'))"
  shows "r \<noteq> Inr () \<and> client_wf (ok \<and> r \<noteq> Inl UndefinedBehaviour) c'"
proof -
  let ?c1 = "c\<lparr>cl_heap := (cl_heap c)(p \<mapsto> setTimeOut ms (the (cl_heap c p)))\<rparr>"
  have "p < cl_next c" using w unfolding client_wf_def by auto
  then obtain t where t: "cl_heap c p = Some t" using w(1) unfolding client_wf_def by blast
  have w1: "client_wf ok ?c1" using wf_update [OF w(1) t, of "setTimeOut ms t"] t by (simp add: setTimeOut_def)
  obtain j c2 k2 where j: "cl_join p (sched (cl_front c)) (?c1, k) = (j, (c2, k2))" by (metis surj_pair)
  have w2: "client_wf ok c2" using keepsD [OF keeps_join [OF thread_closed_wf], of ok "(?c1, k)" p "sched (cl_front c)"] w1 j by simp
  have "thread_closed (\<lambda>d. cl_pending d = p # ps)" by (simp add: thread_closed_def heap_closed_def)
  from keepsD [OF keeps_join [OF this], of "(?c1, k)" p "sched (cl_front c)"] w(2) j have q: "cl_pending c2 = p # ps" by simp
  note e = wait_first [OF w, of ms sched n all k, unfolded j r]
  show ?thesis
  proof (cases j)
    case (Inl x)
    then show ?thesis using e wf_mono [OF w2] by simp
  next
    case (Inr u)
    then have "cl_threads c2 p = Some CL_Ended" using join_ended [of p "sched (cl_front c)" ?c1 k c2 k2] j by simp
    then have "client_wf False (c2\<lparr>cl_pending := ps, cl_front := Suc (cl_front c)\<rparr>)" using w2 q by (auto simp: client_wf_def)
    then show ?thesis using e Inr by simp
  qed
qed

lemma guard_result:
  "socket_guard st m s = (r, s') \<Longrightarrow> \<exists>r0. m s = (r0, s') \<and> (r = Inr a \<longleftrightarrow> r0 = Inr a) \<and> (r = Inl UndefinedBehaviour \<longleftrightarrow> r0 = Inl UndefinedBehaviour)"
  by (auto simp: socket_guard_def catch_def throw_def split: prod.splits sum.splits harness_error.splits)

lemma wait_wf:
  assumes w: "client_wf ok c" and r: "cl_waitForRes ms n sched (c, k) = (r, (c', k'))"
  shows "client_wf (ok \<and> r \<noteq> Inl UndefinedBehaviour) c'" "cl_pending c \<noteq> [] \<Longrightarrow> r \<noteq> Inr ()"
proof -
  let ?m = "bindM (cl_extend_limit ms) (\<lambda>server_timeout.
        bindM getM (\<lambda>(s, k). thenM (cl_wait_pending ms sched (length (cl_pending s)) (cl_front s) n)
        (thenM (if n = 0 then cl_waitForGraph ms else ret ()) (setServerTimeOut server_timeout))))"
  obtain r0 where r0: "?m (c, k) = (r0, (c', k'))" "r = Inr () \<longleftrightarrow> r0 = Inr ()" "r = Inl UndefinedBehaviour \<longleftrightarrow> r0 = Inl UndefinedBehaviour"
    using guard_result [OF r [unfolded cl_waitForRes_def], of "()"] by blast
  obtain x k1 where x: "cl_extend_limit ms (c, k) = (x, (c, k1))"
    using keepsD [OF extend_keeps [of "\<lambda>d. d = c"], of "(c, k)" ms] by (cases "cl_extend_limit ms (c, k)") (auto simp: linked_def split: prod.splits)
  have "client_wf (ok \<and> r0 \<noteq> Inl UndefinedBehaviour) c' \<and> (cl_pending c \<noteq> [] \<longrightarrow> r0 \<noteq> Inr ())"
  proof (cases x)
    case (Inl e)
    then show ?thesis using r0(1) x wf_mono [OF w] by (simp add: bindM_def) blast
  next
    case (Inr lim)
    note m = r0(1) [unfolded bindM_def x Inr, simplified]
    show ?thesis
    proof (cases "cl_pending c")
      case Nil
      let ?rest = "thenM (if n = 0 then cl_waitForGraph ms else ret ()) (setServerTimeOut lim)"
      have "?rest (c, k1) = (r0, (c', k'))" using m Nil by (simp add: thenM_def bindM_def ret_def)
      moreover have "keeps (linked (client_wf ok)) ?rest" by (intro keeps graph_calls_wf)
      ultimately have "client_wf ok c'" using keepsD [of "linked (client_wf ok)" ?rest "(c, k1)"] w by simp
      then show ?thesis using wf_mono Nil by blast
    next
      case (Cons p ps)
      obtain y c2 k2 where y: "cl_wait_pending ms sched (Suc (length ps)) (cl_front c) n (c, k1) = (y, (c2, k2))" by (metis surj_pair)
      note f = wait_first_wf [OF w Cons y]
      then obtain e where "y = Inl e" by (cases y) auto
      then have "r0 = y" "c' = c2" using m y Cons by (simp_all add: thenM_def bindM_def)
      then show ?thesis using f by blast
    qed
  qed
  with r0(2,3) show "client_wf (ok \<and> r \<noteq> Inl UndefinedBehaviour) c'" "cl_pending c \<noteq> [] \<Longrightarrow> r \<noteq> Inr ()" by simp_all
qed

lemma wait_returns_not: "client_wf ok c \<Longrightarrow> cl_pending c = p # ps \<Longrightarrow> fst (cl_waitForRes ms n sched (c, k)) \<noteq> Inr ()"
  using wait_wf(2) [of ok c ms n sched k] by (metis list.distinct(1) prod.collapse)

text \<open>Once the first pending transaction has been joined, its reference dangles.\<close>

lemma wait_dangles:
  assumes w: "client_wf ok c" "cl_pending c = p # ps" and l: "cl_extend_limit ms (c, k) = (Inr lim, (c, k1))"
    and j: "cl_join p (sched (cl_front c)) (c\<lparr>cl_heap := (cl_heap c)(p \<mapsto> setTimeOut ms (the (cl_heap c p)))\<rparr>, k1) = (Inr (), (c2, k2))"
  shows "cl_waitForRes ms n sched (c, k) = (Inl UndefinedBehaviour, (c2\<lparr>cl_pending := ps, cl_front := Suc (cl_front c)\<rparr>, k2))"
  using wait_first [OF w, of ms sched "length ps" n k1] w(2)
  by (simp add: cl_waitForRes_def socket_guard_def catch_def bindM_def thenM_def throw_def l j)

text \<open>A new transaction.\<close>

lemma new_transaction_holds: "hoare (linked (client_wf ok)) (own (cl_new_transaction md timeout)) (\<lambda>p. linked (holds ok p)) (\<lambda>_. linked (client_wf ok))"
  by (auto simp: hoare_def linked_def own_def cl_new_transaction_def Let_def bindM_def thenM_def ret_def holds_def client_wf_def
      test_harness_transactions_def reset_def clearData_def less_Suc_eq split: if_splits)

lemma holds_wf: "linked (holds ok p) w \<Longrightarrow> linked (client_wf ok) w"
  by (simp add: linked_def holds_def split_def)

lemma keeps_to_wf: "keeps (linked (holds ok p)) m \<Longrightarrow> hoare (linked (holds ok p)) m (\<lambda>_. linked (holds ok p)) (\<lambda>_. linked (client_wf ok))"
  unfolding keeps_def hoare_def using holds_wf by (fastforce split: prod.splits sum.splits)

lemma submit_wf: "hoare (linked (holds ok p)) (cl_submit md p t) (\<lambda>_. linked (client_wf ok)) (\<lambda>_. linked (client_wf ok))"
proof -
  have last: "hoare (linked (holds ok p)) (own (modifyM (\<lambda>s. s\<lparr>cl_pending := cl_pending s @ [p], cl_threads := (cl_threads s)(p \<mapsto> CL_Waiting)\<rparr>)))
      (\<lambda>_. linked (client_wf ok)) (\<lambda>_. linked (client_wf ok))"
    by (auto simp: hoare_def linked_def own_def modifyM_def holds_def client_wf_def)
  have up: "hoare (linked (holds ok p)) (cl_update p (setStatus TRANSACTION_RUNNING)) (\<lambda>_. linked (holds ok p)) (\<lambda>_. linked (client_wf ok))"
    by (intro keeps_to_wf keeps) (simp_all add: setStatus_def)
  have put: "hoare (linked (holds ok p)) (put m) (\<lambda>_. linked (holds ok p)) (\<lambda>_. linked (client_wf ok))" for m
    by (intro keeps_to_wf keeps)
  have get: "hoare (linked (holds ok p)) (fetch m) (\<lambda>_. linked (holds ok p)) (\<lambda>_. linked (client_wf ok))" for m :: "('x \<times> nat) sprog"
    by (intro keeps_to_wf keeps)
  have bad: "hoare (linked (holds ok p)) (throw_harness st) (\<lambda>_. linked (client_wf ok)) (\<lambda>_. linked (client_wf ok))" for st
    using holds_wf by (auto simp: hoare_def throw_def)
  show ?thesis
    unfolding cl_submit_def
    by (rule hoare_thenM [OF _ put] hoare_bindM [OF _ get] hoare_if bad hoare_thenM [OF _ up] last)+
qed

lemma run_wf: "keeps (linked (client_wf ok)) (cl_runTestHarness md args timeout)"
proof -
  have on: "hoare (linked (holds ok p)) (own (cl_on p (\<lambda>um. handleInputs um args))) (\<lambda>_. linked (holds ok p)) (\<lambda>_. linked (client_wf ok))" for p
    by (intro keeps_to_wf keeps keeps_cl_on) (simp_all add: handleInputs_trans_id)
  have get: "hoare (linked (holds ok p)) (own (cl_deref p)) (\<lambda>_. linked (holds ok p)) (\<lambda>_. linked (client_wf ok))"
    "hoare (linked (holds ok p)) getM (\<lambda>_. linked (holds ok p)) (\<lambda>_. linked (client_wf ok))" for p
    by (intro keeps_to_wf keeps)+
  have bad: "hoare (linked (holds ok p)) (throw_harness st) (\<lambda>_. linked (client_wf ok)) (\<lambda>_. linked (client_wf ok))" for p st
    using holds_wf by (auto simp: hoare_def throw_def)
  have body: "hoare (linked (client_wf ok)) (bindM (own (cl_new_transaction md timeout)) (\<lambda>p.
         thenM (own (cl_on p (\<lambda>um. handleInputs um args)))
         (bindM (own (cl_deref p)) (\<lambda>t.
          if getStatus t \<noteq> TRANSACTION_READY then throw_harness INVALID_ARGUMENTS
          else bindM getM (\<lambda>(s, k).
            if getMemoryUsage t > cl_max_memory_usage s then throw_harness INVALID_ARGUMENTS
            else cl_submit md p t))))) (\<lambda>_. linked (client_wf ok)) (\<lambda>_. linked (client_wf ok))"
    by (rule hoare_bindM [OF _ new_transaction_holds] hoare_thenM [OF _ on] hoare_bindM [OF _ get(1)] hoare_bindM [OF _ get(2)]
        hoare_if bad submit_wf | simp only: split_def)+
  show ?thesis
    unfolding cl_runTestHarness_def by (intro keeps_if keeps_guard keeps_basic body [folded keeps_def])
qed

section \<open>Reachable states\<close>

datatype client_call =
    Create u32 "(u8 list \<times> u8 list) option" "u8 list list"
  | Run TestMode "test_harness_args list" u32
  | Run_Graph u32 u32
  | Wait u32 u32 "nat \<Rightarrow> nat list"
  | Get_Limit
  | Set_Limit u64
  | Delay channel_index channel_index int

definition failure :: "harness_error + 'a \<Rightarrow> harness_error option" where
  "failure r = (case r of Inl e \<Rightarrow> Some e | Inr _ \<Rightarrow> None)"

definition failed :: "(harness_error + 'a) \<times> client \<times> sock \<Rightarrow> harness_error option \<times> client" where
  "failed x = (failure (fst x), fst (snd x))"

definition client_do :: "client_call \<Rightarrow> client \<times> sock \<Rightarrow> harness_error option \<times> client" where
  "client_do a w = (case a of
     Create i x g \<Rightarrow> failed (createTestHarness i x g w)
   | Run md args to \<Rightarrow> failed (cl_runTestHarness md args to w)
   | Run_Graph g n \<Rightarrow> failed (cl_runAIEGraph g n w)
   | Wait ms n sched \<Rightarrow> failed (cl_waitForRes ms n sched w)
   | Get_Limit \<Rightarrow> failed (getServerTimeOut w)
   | Set_Limit n \<Rightarrow> failed (setServerTimeOut n w)
   | Delay id_from id_to i \<Rightarrow> (case cl_getDelayBetween id_from id_to i (fst w) of (r, c) \<Rightarrow> (failure r, c)))"

text \<open>The calls of the user and the rounds of the threads, whatever is on the connection, returning, throwing or still waiting; \<open>ok\<close>
  as long as nothing undefined has happened.\<close>

inductive client_reaches :: "bool \<Rightarrow> client \<Rightarrow> bool" where
  new: "client_reaches True (new_client device um)"
| call: "client_reaches ok c \<Longrightarrow> client_do a (c, k) = (e, c') \<Longrightarrow> client_reaches (ok \<and> e \<noteq> Some UndefinedBehaviour) c'"
| round: "client_reaches ok c \<Longrightarrow> cl_threads c p = Some CL_Waiting \<Longrightarrow> cl_thread_round p (c, k) = (r, (c', k')) \<Longrightarrow>
    client_reaches (ok \<and> r \<noteq> Inl UndefinedBehaviour) c'"

definition client_reachable :: "client \<Rightarrow> bool" where
  "client_reachable c \<longleftrightarrow> client_reaches True c \<or> client_reaches False c"

lemma kept: "keeps (linked I) m \<Longrightarrow> I c \<Longrightarrow> failed (m (c, k)) = (e, c') \<Longrightarrow> I c'"
  using keepsD [of "linked I" m "(c, k)"] by (auto simp: linked_def split_def failed_def)

lemma kept_wf:
  "client_wf ok c \<Longrightarrow> keeps (linked (client_wf ok)) m \<Longrightarrow> failed (m (c, k)) = (e, c') \<Longrightarrow> client_wf (ok \<and> b) c'"
  using kept wf_mono by metis

lemma client_reaches_wf: "client_reaches ok c \<Longrightarrow> client_wf ok c"
proof (induction rule: client_reaches.induct)
  case (new device um)
  then show ?case by (simp add: client_wf_def new_client_def)
next
  case (call ok c a k e c')
  show ?case
  proof (cases a)
    case (Wait ms n sched)
    obtain r d k' where r: "cl_waitForRes ms n sched (c, k) = (r, (d, k'))" by (metis surj_pair)
    then have "e = failure r" "d = c'" using call.hyps Wait by (simp_all add: client_do_def failed_def)
    moreover have "failure r \<noteq> Some UndefinedBehaviour \<longleftrightarrow> r \<noteq> Inl UndefinedBehaviour" by (cases r) (simp_all add: failure_def)
    ultimately show ?thesis using wait_wf(1) [OF call.IH r] by simp
  next
    case (Delay x y i)
    then show ?thesis
      using call.hyps(2) keepsD [OF delay_wf call.IH, of x y i] wf_mono by (auto simp: client_do_def split: prod.splits)
  next
    case (Create i x g)
    show ?thesis by (rule kept_wf [OF call.IH create_wf]) (use call.hyps(2) Create in \<open>simp add: client_do_def\<close>)
  next
    case (Run md args to)
    show ?thesis by (rule kept_wf [OF call.IH run_wf]) (use call.hyps(2) Run in \<open>simp add: client_do_def\<close>)
  next
    case (Run_Graph g n)
    show ?thesis by (rule kept_wf [OF call.IH graph_calls_wf(1)]) (use call.hyps(2) Run_Graph in \<open>simp add: client_do_def\<close>)
  next
    case Get_Limit
    show ?thesis by (rule kept_wf [OF call.IH graph_calls_wf(3)]) (use call.hyps(2) Get_Limit in \<open>simp add: client_do_def\<close>)
  next
    case (Set_Limit n)
    show ?thesis by (rule kept_wf [OF call.IH graph_calls_wf(4)]) (use call.hyps(2) Set_Limit in \<open>simp add: client_do_def\<close>)
  qed
next
  case (round ok c p k r c' k')
  then have "p \<in> dom (cl_threads c)" by blast
  from round_keeps [OF thread_closed_wf round.IH this, of k] round.hyps(3) show ?case using wf_mono by simp
qed

lemma client_reachable_wf: "client_reachable c \<Longrightarrow> client_wf False c"
  using client_reaches_wf wf_mono [of True c False] unfolding client_reachable_def by auto

end
