(* ===== verification/Client_Claims.thy ===== *)
theory Client_Claims
  imports Remote_Claims Client_Inv
begin

text \<open>
  What holds of the client by itself, whatever the server sends: the shape of its state, the loop of \<open>waitForRes\<close>, its queries; and its
  waiting, with nothing pending, against the session.
\<close>

section \<open>Queries\<close>

lemma last_done_eq:
  assumes "\<forall>p < n. cl_heap c p \<noteq> None"
  shows "last_done c (rev [0..<n]) n = (case filter (\<lambda>p. status (the (cl_heap c p)) = TRANSACTION_DONE) [0..<n] of
    [] \<Rightarrow> Inl (TestHarnessException INVALID_OPERATIONS) | p # ps \<Rightarrow> Inr (last (p # ps)))"
  using assms
proof (induction n)
  case (Suc n)
  obtain t where t: "cl_heap c n = Some t" using Suc.prems by blast
  show ?case
    using Suc t by (cases "filter (\<lambda>p. status (the (cl_heap c p)) = TRANSACTION_DONE) [0..<n]") (auto simp: getStatus_def)
qed simp

lemma wf_heap: "client_wf ok c \<Longrightarrow> p < cl_next c \<Longrightarrow> cl_heap c p \<noteq> None"
  unfolding client_wf_def by blast

text \<open>The transaction a query is about: the one with the given index, or the last one that has finished in time.\<close>

definition asked :: "int \<Rightarrow> client \<Rightarrow> (harness_error + nat)" where
  "asked i c =
    (if i = -1 then (case filter (\<lambda>p. status (the (cl_heap c p)) = TRANSACTION_DONE) [0..<cl_next c] of
       [] \<Rightarrow> Inl (TestHarnessException INVALID_OPERATIONS) | p # ps \<Rightarrow> Inr (last (p # ps)))
     else if 0 \<le> i \<and> i < int (cl_next c) then Inr (nat i)
     else Inl (TestHarnessException INVALID_OPERATIONS))"

lemma sanctify_asked:
  assumes "client_wf ok c" shows "sanctifyTransIdx i c = (asked i c, c)"
proof (cases "i = -1")
  case False
  then show ?thesis using assms by (auto simp: sanctifyTransIdx_def asked_def client_wf_def throw_def ret_def)
next
  case True
  show ?thesis
  proof (cases "cl_next c = 0")
    case True
    then show ?thesis using \<open>i = -1\<close> assms by (simp add: sanctifyTransIdx_def asked_def client_wf_def throw_def)
  next
    case False
    then have "sanctifyTransIdx i c = (last_done c (rev [0..<cl_next c]) (cl_next c), c)"
      using \<open>i = -1\<close> assms by (simp add: sanctifyTransIdx_def client_wf_def)
    then show ?thesis using \<open>i = -1\<close> last_done_eq [of "cl_next c" c] wf_heap [OF assms] by (simp add: asked_def)
  qed
qed

lemma asked_lives:
  assumes "client_wf ok c" "asked i c = Inr n" shows "n < cl_next c" "\<exists>t. cl_heap c n = Some t"
proof -
  show n: "n < cl_next c"
  proof (cases "i = -1")
    case True
    then obtain p ps where f: "filter (\<lambda>p. status (the (cl_heap c p)) = TRANSACTION_DONE) [0..<cl_next c] = p # ps" "n = last (p # ps)"
      using assms(2) by (auto simp: asked_def split: list.splits)
    then have "n \<in> set (filter (\<lambda>p. status (the (cl_heap c p)) = TRANSACTION_DONE) [0..<cl_next c])" by (metis last_in_set list.distinct(1))
    then show ?thesis by simp
  next
    case False
    then show ?thesis using assms(2) by (auto simp: asked_def split: if_splits)
  qed
  from wf_heap [OF assms(1) this] show "\<exists>t. cl_heap c n = Some t" by blast
qed

lemma queries_asked:
  assumes "client_wf ok c"
  shows "cl_isResultValid i c = (case asked i c of Inl e \<Rightarrow> Inl e | Inr n \<Rightarrow> Inr (isResultValid (the (cl_heap c n))), c)"
    "fst (cl_getDelayBetween id_from id_to i c) =
      (case asked i c of Inl e \<Rightarrow> Inl e | Inr n \<Rightarrow> fst (getDelayBwtween id_from id_to (the (cl_heap c n))))"
proof -
  note q = sanctify_asked [OF assms, of i]
  have w: "cl_transactions c = [0..<cl_next c]" using assms by (simp add: client_wf_def)
  show "cl_isResultValid i c = (case asked i c of Inl e \<Rightarrow> Inl e | Inr n \<Rightarrow> Inr (isResultValid (the (cl_heap c n))), c)"
    using q asked_lives [OF assms, of i] by (cases "asked i c")
      (auto simp: cl_isResultValid_def bindM_def ret_def vec_get_def w cl_deref_def)
  show "fst (cl_getDelayBetween id_from id_to i c) =
      (case asked i c of Inl e \<Rightarrow> Inl e | Inr n \<Rightarrow> fst (getDelayBwtween id_from id_to (the (cl_heap c n))))"
    using q asked_lives [OF assms, of i] by (cases "asked i c")
      (auto simp: cl_getDelayBetween_def bindM_def ret_def vec_get_def w cl_on_def split: prod.splits)
qed

section \<open>The time limit\<close>

lemma conv_get_limit: "converses getServerTimeOut c (word_bytes n) (req ''getTimeOut'') n c"
proof -
  have "converses getServerTimeOut c (word_bytes n) (req ''getTimeOut'' @ []) n c"
    unfolding getServerTimeOut_def by (rule conv_send_then [OF conv_request] conv_recv_word | simp)+
  then show ?thesis by simp
qed

lemma conv_set_limit:
  assumes "n \<noteq> 0" shows "converses (setServerTimeOut n) c [] (req ''setTimeOut'' @ word_bytes n) () c"
  unfolding setServerTimeOut_def if_not_P [OF assms] by (rule conv_send_then [OF conv_request] conv_send_word | simp)+

section \<open>Properties\<close>

text \<open>C37: the shape of a client and the loop of \<open>waitForRes\<close>. In every state that calls of the user and rounds of the threads can
  reach, whether they returned or threw and whatever the server sent: every transaction of the client lives, its identifier
  follows from its index and is its own until the counter wraps, the pending transactions have a thread each, and every
  thread that still runs is of a pending transaction; as long as nothing undefined has happened (\<open>ok\<close>) no other thread is left. \<open>waitForRes\<close> never
  returns while a transaction is pending: the first pass of its loop sets the time limit of the oldest
  transaction and joins its thread, and if the thread ends it pops the transaction off the queue and
  then uses its reference to the popped element to erase the thread, which is undefined. The thread of the transaction is left over.\<close>

theorem client_shape:
  assumes "client_reaches ok c"
  shows "cl_transactions c = [0..<cl_next c] \<and> dom (cl_heap c) = {..<cl_next c} \<and>
    (\<forall>p t. cl_heap c p = Some t \<longrightarrow> trans_id t = cl_trans_id c - of_nat (cl_next c) + of_nat p) \<and>
    (cl_next c \<le> 2 ^ 32 \<longrightarrow> (\<forall>p q t u. cl_heap c p = Some t \<longrightarrow> cl_heap c q = Some u \<longrightarrow> trans_id t = trans_id u \<longrightarrow> p = q)) \<and>
    distinct (cl_pending c) \<and> set (cl_pending c) \<subseteq> dom (cl_threads c) \<and> dom (cl_threads c) \<subseteq> {..<cl_next c} \<and>
    (\<forall>p. cl_threads c p = Some CL_Waiting \<longrightarrow> p \<in> set (cl_pending c)) \<and> (ok \<longrightarrow> set (cl_pending c) = dom (cl_threads c)) \<and>
    (\<forall>p ps. cl_pending c = p # ps \<longrightarrow> fst (cl_waitForRes ms n sched (c, k)) \<noteq> Inr () \<and>
      (\<forall>limit k1 c2 k2. cl_extend_limit ms (c, k) = (Inr limit, (c, k1)) \<longrightarrow>
         cl_join p (sched (cl_front c)) (c\<lparr>cl_heap := (cl_heap c)(p \<mapsto> setTimeOut ms (the (cl_heap c p)))\<rparr>, k1) = (Inr (), (c2, k2)) \<longrightarrow>
         cl_waitForRes ms n sched (c, k) = (Inl UndefinedBehaviour, (c2\<lparr>cl_pending := ps, cl_front := Suc (cl_front c)\<rparr>, k2)) \<and>
         cl_threads c2 p = Some CL_Ended))"
proof -
  have w: "client_wf ok c" using assms by (rule client_reaches_wf)
  have "p = q" if n: "cl_next c \<le> 2 ^ 32" and h: "cl_heap c p = Some t" "cl_heap c q = Some u" "trans_id t = trans_id u" for p q t u
  proof -
    have "p \<in> {..<cl_next c}" "q \<in> {..<cl_next c}" using w h(1,2) unfolding client_wf_def by blast+
    then have "p < 2 ^ 32" "q < 2 ^ 32" using n by simp_all
    then have e: "unat (of_nat p :: u32) = p" "unat (of_nat q :: u32) = q" by (intro unat_of_nat_small; simp)+
    have "(of_nat p :: u32) = of_nat q" using w h unfolding client_wf_def by (metis add_left_cancel)
    then show "p = q" using e by metis
  qed
  then have unique: "cl_next c \<le> 2 ^ 32 \<longrightarrow>
      (\<forall>p q t u. cl_heap c p = Some t \<longrightarrow> cl_heap c q = Some u \<longrightarrow> trans_id t = trans_id u \<longrightarrow> p = q)" by blast
  have loop: "\<forall>p ps. cl_pending c = p # ps \<longrightarrow> fst (cl_waitForRes ms n sched (c, k)) \<noteq> Inr () \<and>
      (\<forall>limit k1 c2 k2. cl_extend_limit ms (c, k) = (Inr limit, (c, k1)) \<longrightarrow>
         cl_join p (sched (cl_front c)) (c\<lparr>cl_heap := (cl_heap c)(p \<mapsto> setTimeOut ms (the (cl_heap c p)))\<rparr>, k1) = (Inr (), (c2, k2)) \<longrightarrow>
         cl_waitForRes ms n sched (c, k) = (Inl UndefinedBehaviour, (c2\<lparr>cl_pending := ps, cl_front := Suc (cl_front c)\<rparr>, k2)) \<and>
         cl_threads c2 p = Some CL_Ended)"
    by (intro allI impI conjI) (erule wait_returns_not [OF w], erule (2) wait_dangles [OF w], erule join_ended)
  from w [unfolded client_wf_def] unique loop show ?thesis by (elim conjE, intro conjI)
qed

lemma demo_client_reaches: "client_reaches True demo_connected"
proof -
  have 1: "cl_device demo_client = PARAM_DEVICE demo_params" "cl_graph_started demo_client = []"
    by (simp_all add: demo_client_def new_client_def demo_params_def)
  have r: "client_reaches True demo_client" unfolding demo_client_def by (rule client_reaches.new)
  note c = conv_create [where device_index = 0, OF 1 demo_create_ok, folded demo_connected_def]
  obtain k k' where "createTestHarness 0 (Some (ascii ''a'', [1])) [] (demo_client, k) = (Inr (), (demo_connected, k'))"
    by (rule converses_occurs [OF c])
  then show ?thesis
    using client_reaches.call [OF r, of "Create 0 (Some (ascii ''a'', [1])) []" k] by (simp add: client_do_def failed_def failure_def)
qed

lemma demo_submitted_reaches:
  assumes p: "packs FUNC_MODE loop_args 0 demo_connected u" shows "client_reaches True (submitted u demo_connected)"
proof -
  have md: "FUNC_MODE = FUNC_MODE \<or> FUNC_MODE = PERF_MODE" by simp
  have u: "handleInputs (cl_mem demo_connected) loop_args (cl_fresh FUNC_MODE 0 demo_connected) = (Inr (), u)"
    "status u = TRANSACTION_READY" "getMemoryUsage u \<le> cl_max_memory_usage demo_connected"
    using p packs_usage(2) [OF p] by (simp_all add: packs_def demo_connected_def set_up_def)
  obtain k k' where "cl_runTestHarness FUNC_MODE loop_args 0 (demo_connected, k) = (Inr (), (submitted u demo_connected, k'))"
    by (rule converses_occurs [OF conv_client_run [OF md u packs_short(1,2) [OF p]]])
  then show ?thesis
    using client_reaches.call [OF demo_client_reaches, of "Run FUNC_MODE loop_args 0" k] by (simp add: client_do_def failed_def failure_def)
qed

lemma demo_client_reachable: "client_reachable demo_connected"
  using demo_client_reaches by (simp add: client_reachable_def)

text \<open>The results of some run of the kernel for the transaction of the witness.\<close>

lemma demo_outputs:
  assumes p: "packs FUNC_MODE loop_args 0 demo_connected u"
  obtains img perf t um where "short 59 img" "short 59 perf"
    "handleOutputs (u\<lparr>status := TRANSACTION_DONE, from_aie_ptr := img, perf_ptr := perf\<rparr>, cl_mem demo_connected) = (Inr (), (t, um))"
    "isResultValid t" "status t = TRANSACTION_DONE"
proof -
  let ?v = "made demo_params []" and ?w = "sent FUNC_MODE u (made demo_params [])"
  have b: "(36, vck190_test_harness) \<in> boards" by (simp add: boards_def)
  have m: "matched demo_connected ?v" and v: "sv_transactions ?v = []" using demo_ready by (simp_all add: remote_ready_def matched_def)
  have mem: "cl_mem demo_connected = demo_mem" by (simp add: demo_connected_def set_up_def demo_client_def new_client_def)
  have o: "user_args_ok (cl_fresh FUNC_MODE 0 demo_connected) loop_args" unfolding demo_fresh by (rule loop_args_ok)
  note l = remote_trans [OF b demo_ready o]
  have a: "design_answers 36 (cl_fresh FUNC_MODE 0 demo_connected) loop_args board_loopback (cl_mem demo_connected)"
    using loop_answers unfolding demo_fresh mem loop_mem .
  obtain X out where X: "runtime_ran board_loopback vck190_test_harness X (launched ?w ?v) out"
    using func.remote_can_finish [OF b m l p a] by blast
  note f = launched_facts [OF v, of ?w]
  let ?i = "sv_last (launched ?w ?v)"
  have z: "sized X (launched ?w ?v)" "runs_kernel (vck190_test_harness board_loopback) X ?i (run_of (next_trans (sv_host ?v)) ?w) out"
    using X by (simp_all add: runtime_ran_def f)
  have "length (device_perf X ?i) = length (perf_ptr u)" "length (device_from_aie X ?i) = length (from_aie_ptr u)"
    using z(1) unfolding sized_def due_launched [OF v] by (simp_all add: launched_facts [OF v] sent_same [OF p m])
  then have s: "short 59 (device_from_aie X ?i)" "short 59 (device_perf X ?i)"
    using packs_short(3,4) [OF p] by (simp_all add: short_def)
  from func.remote_unpacks [where board = vck190_test_harness and aie = board_loopback, OF b l p m z(2)]
  obtain t um where "handleOutputs (u\<lparr>status := TRANSACTION_DONE, from_aie_ptr := device_from_aie X ?i, perf_ptr := device_perf X ?i\<rparr>,
      cl_mem demo_connected) = (Inr (), (t, um))" "isResultValid t" "status t = TRANSACTION_DONE" by blast
  then show thesis by (rule that [OF s])
qed

text \<open>The first pass of the loop of \<open>waitForRes\<close>, up to the end of the thread it joins.\<close>

lemma conv_first_pass:
  assumes c: "cl_heap c p = Some t" "cl_threads c p = Some CL_Waiting" "getTimeOut t = 0" and l: "short 59 img" "short 59 perf"
    and h: "handleOutputs (t\<lparr>status := TRANSACTION_DONE, from_aie_ptr := img, perf_ptr := perf\<rparr>, cl_mem c) = (Inr (), (t', um))"
  shows "\<exists>k c2 k1 k2. cl_extend_limit 0 (c, k) = (Inr 60, (c, k1)) \<and> cl_join p [p] (c, k1) = (Inr (), (c2, k2)) \<and>
    c2 = c\<lparr>cl_heap := (cl_heap c)(p \<mapsto> t'), cl_mem := um, cl_threads := (cl_threads c)(p \<mapsto> CL_Ended)\<rparr>"
proof -
  let ?c2 = "c\<lparr>cl_heap := (cl_heap c)(p \<mapsto> t'), cl_mem := um, cl_threads := (cl_threads c)(p \<mapsto> CL_Ended)\<rparr>"
  have limit: "converses (cl_extend_limit 0) c (word_bytes (60 :: u64)) (req ''getTimeOut'') 60 c"
    unfolding cl_extend_limit_def Let_def by (rule conv_last_bind [OF conv_get_limit]) (simp add: conv_last_then [OF conv_ret conv_ret])
  have step: "converses (bindM getM (\<lambda>(s, k). if cl_threads s p = Some CL_Waiting then cl_thread_round p else ret ())) c
      (word_bytes (status_code TRANSACTION_DONE) @ result_bytes TRANSACTION_DONE img perf) (query_bytes t @ collect_bytes t) () ?c2"
    by (rule conv_get) (use conv_thread_ends [OF c(1,3) l h] c(2) in simp)
  have over: "converses (bindM getM (\<lambda>(s, k). case cl_threads s p of None \<Rightarrow> throw (StdException Std_System_Error)
     | Some CL_Waiting \<Rightarrow> throw NoReturn | Some CL_Ended \<Rightarrow> ret ())) ?c2 [] [] () ?c2"
    by (rule conv_get) (simp add: conv_ret)
  have join: "converses (cl_join p [p]) c (word_bytes (status_code TRANSACTION_DONE) @ result_bytes TRANSACTION_DONE img perf)
      (query_bytes t @ collect_bytes t) () ?c2"
    unfolding cl_join_def cl_rounds.simps by (rule conv_last_then [OF conv_last_then [OF step conv_ret] over])
  have both: "converses (thenM (cl_join p [p]) (ret 60)) c (word_bytes (status_code TRANSACTION_DONE) @ result_bytes TRANSACTION_DONE img perf)
      (query_bytes t @ collect_bytes t) (60 :: u64) ?c2"
    by (rule conv_last_then [OF join conv_ret])
  obtain k k2 where "bindM (cl_extend_limit 0) (\<lambda>x. thenM (cl_join p [p]) (ret x)) (c, k) = (Inr 60, (?c2, k2))"
    by (rule converses_occurs [OF conv_bind [where f = "\<lambda>x. thenM (cl_join p [p]) (ret x)", OF limit both refl refl]])
  then obtain w where w: "cl_extend_limit 0 (c, k) = (Inr 60, w)" "cl_join p [p] w = (Inr (), (?c2, k2))"
    by (auto simp: bindM_eq_Inr thenM_def)
  have "fst w = c" using keepsD [OF extend_keeps [of "\<lambda>d. d = c"], of "(c, k)" 0] w(1) by (simp add: linked_def split_def)
  then obtain k1 where k: "w = (c, k1)" by (cases w) simp
  show ?thesis by (rule exI [of _ k], rule exI [of _ ?c2], rule exI [of _ k1], rule exI [of _ k2]) (use w k in simp)
qed

theorem client_shape_witness:
  "\<exists>c k c2 k2. client_reaches True c \<and> cl_transactions c = [0] \<and> (\<exists>t. cl_heap c 0 = Some t \<and> trans_id t = 0) \<and>
     set (cl_pending c) = {0} \<and> cl_threads c 0 = Some CL_Waiting \<and>
     cl_waitForRes 0 0 (\<lambda>_. [0]) (c, k) = (Inl UndefinedBehaviour, (c2, k2)) \<and> cl_pending c2 = [] \<and> cl_threads c2 0 = Some CL_Ended \<and>
     client_reaches False c2"
proof -
  obtain u where p: "packs FUNC_MODE loop_args 0 demo_connected u" using demo_packs by blast
  let ?c = "submitted u demo_connected" and ?u = "u\<lparr>status := TRANSACTION_RUNNING\<rparr>"
  have n: "cl_next demo_connected = 0" "cl_next ?c = 1" "cl_trans_id ?c = 1" "cl_heap ?c 0 = Some ?u" "dom (cl_threads ?c) = {0}"
      "cl_pending ?c = [0]" "cl_threads ?c 0 = Some CL_Waiting" "cl_front ?c = 0"
    by (simp_all add: submitted_def demo_connected_def set_up_def demo_client_def new_client_def)
  have to: "getTimeOut ?u = 0" using packs_fields(2) [OF p] by (simp add: getTimeOut_def)
  have same: "?c\<lparr>cl_heap := (cl_heap ?c)(0 \<mapsto> setTimeOut 0 ?u)\<rparr> = ?c"
    using to n(4) by (simp add: setTimeOut_def getTimeOut_def fun_upd_idem)
  obtain img perf t um where o: "short 59 img" "short 59 perf"
    "handleOutputs (u\<lparr>status := TRANSACTION_DONE, from_aie_ptr := img, perf_ptr := perf\<rparr>, cl_mem demo_connected) = (Inr (), (t, um))"
    by (rule demo_outputs [OF p])
  have h: "handleOutputs (?u\<lparr>status := TRANSACTION_DONE, from_aie_ptr := img, perf_ptr := perf\<rparr>, cl_mem ?c) = (Inr (), (t, um))"
    using o(3) by (simp add: submitted_facts)
  obtain k c2 k1 k2 where f: "cl_extend_limit 0 (?c, k) = (Inr 60, (?c, k1))" "cl_join 0 [0] (?c, k1) = (Inr (), (c2, k2))"
    using conv_first_pass [OF n(4,7) to o(1,2) h] by blast
  note r = demo_submitted_reaches [OF p]
  note s = client_shape [OF r, of 0 0 "\<lambda>_. [0]" k, unfolded n(8)]
  have w: "cl_waitForRes 0 0 (\<lambda>_. [0]) (?c, k) = (Inl UndefinedBehaviour, (c2\<lparr>cl_pending := [], cl_front := Suc 0\<rparr>, k2))"
    "cl_threads c2 0 = Some CL_Ended"
    using s n(6) f by (simp_all add: n same)
  have "client_reaches False (c2\<lparr>cl_pending := [], cl_front := Suc 0\<rparr>)"
    using client_reaches.call [OF r, of "Wait 0 0 (\<lambda>_. [0])" k] w(1) by (simp add: client_do_def failed_def failure_def)
  with s r n w show ?thesis by (intro exI [of _ ?c] exI [of _ k] exI [of _ "c2\<lparr>cl_pending := [], cl_front := Suc 0\<rparr>"] exI [of _ k2]) simp
qed

text \<open>C38: which result a query is about. In every reachable state \<open>isResultValid\<close> and \<open>getDelayBetween\<close> are about the same
  transaction: an index names a transaction of its own, -1 the last transaction that has finished in time, and every
  other index, and -1 when no transaction has finished in time, throws. \<open>isResultValid\<close> gives its validity and changes
  nothing, and \<open>getDelayBetween\<close> gives its delay.\<close>

theorem last_result_queried:
  assumes "client_reachable c"
  shows "cl_isResultValid i c = (case asked i c of Inl e \<Rightarrow> Inl e | Inr n \<Rightarrow> Inr (isResultValid (the (cl_heap c n))), c) \<and>
    fst (cl_getDelayBetween id_from id_to i c) =
      (case asked i c of Inl e \<Rightarrow> Inl e | Inr n \<Rightarrow> fst (getDelayBwtween id_from id_to (the (cl_heap c n)))) \<and>
    asked i c =
      (if i = -1 then (case filter (\<lambda>p. status (the (cl_heap c p)) = TRANSACTION_DONE) [0..<cl_next c] of
         [] \<Rightarrow> Inl (TestHarnessException INVALID_OPERATIONS) | p # ps \<Rightarrow> Inr (last (p # ps)))
       else if 0 \<le> i \<and> i < int (cl_next c) then Inr (nat i)
       else Inl (TestHarnessException INVALID_OPERATIONS))"
  using queries_asked [OF client_reachable_wf [OF assms]] asked_def by blast

theorem last_result_queried_witness:
  "\<exists>c. client_reachable c \<and> cl_isResultValid (-1) c = (Inr True, c) \<and> cl_isResultValid 0 c = (Inr True, c) \<and>
     cl_isResultValid 5 c = (Inl (TestHarnessException INVALID_OPERATIONS), c) \<and>
     fst (cl_getDelayBetween 36 1 (-2) c) = Inl (TestHarnessException INVALID_OPERATIONS) \<and>
     cl_isResultValid (-1) demo_connected = (Inl (TestHarnessException INVALID_OPERATIONS), demo_connected)"
proof -
  obtain u where p: "packs FUNC_MODE loop_args 0 demo_connected u" using demo_packs by blast
  let ?c = "submitted u demo_connected" and ?u = "u\<lparr>status := TRANSACTION_RUNNING\<rparr>"
  have n: "cl_next demo_connected = 0" "cl_next ?c = 1" "cl_heap ?c 0 = Some ?u" "cl_threads ?c 0 = Some CL_Waiting"
    by (simp_all add: submitted_def demo_connected_def set_up_def demo_client_def new_client_def)
  have to: "getTimeOut ?u = 0" using packs_fields(2) [OF p] by (simp add: getTimeOut_def)
  obtain img perf t um where o: "short 59 img" "short 59 perf"
    "handleOutputs (u\<lparr>status := TRANSACTION_DONE, from_aie_ptr := img, perf_ptr := perf\<rparr>, cl_mem demo_connected) = (Inr (), (t, um))"
    "isResultValid t" "status t = TRANSACTION_DONE"
    by (rule demo_outputs [OF p])
  have h: "handleOutputs (?u\<lparr>status := TRANSACTION_DONE, from_aie_ptr := img, perf_ptr := perf\<rparr>, cl_mem ?c) = (Inr (), (t, um))"
    using o(3) by (simp add: submitted_facts)
  let ?d = "?c\<lparr>cl_heap := (cl_heap ?c)(0 \<mapsto> t), cl_mem := um, cl_threads := (cl_threads ?c)(0 \<mapsto> CL_Ended)\<rparr>"
  obtain k k' where "cl_thread_round 0 (?c, k) = (Inr (), (?d, k'))"
    by (rule converses_occurs [OF conv_thread_ends [OF n(3) to o(1,2) h]])
  from client_reaches.round [OF demo_submitted_reaches [OF p] n(4) this] have d: "client_reachable ?d" by (simp add: client_reachable_def)
  have a: "asked (-1) ?d = Inr 0" "asked 0 ?d = Inr 0" "asked 5 ?d = Inl (TestHarnessException INVALID_OPERATIONS)"
      "asked (-2) ?d = Inl (TestHarnessException INVALID_OPERATIONS)" "asked (-1) demo_connected = Inl (TestHarnessException INVALID_OPERATIONS)"
    using n(1,2) o(5) by (simp_all add: asked_def)
  note q = last_result_queried [OF d, THEN conjunct1] and q' = last_result_queried [OF d, THEN conjunct2, THEN conjunct1]
  have "cl_isResultValid (-1) ?d = (Inr True, ?d)" "cl_isResultValid 0 ?d = (Inr True, ?d)"
      "cl_isResultValid 5 ?d = (Inl (TestHarnessException INVALID_OPERATIONS), ?d)"
    using o(4) by (simp_all add: q a)
  moreover have "fst (cl_getDelayBetween 36 1 (-2) ?d) = Inl (TestHarnessException INVALID_OPERATIONS)" by (simp add: q' a)
  moreover have "cl_isResultValid (-1) demo_connected = (Inl (TestHarnessException INVALID_OPERATIONS), demo_connected)"
    using last_result_queried [OF demo_client_reachable, of "-1"] by (simp add: a)
  ultimately show ?thesis using d by blast
qed

section \<open>Waiting for results\<close>

lemma conv_wait_graph:
  assumes "bool_codec.ok_each g"
  shows "converses (cl_waitForGraph ms) c (bool_codec.enc_each g) (req ''waitForGraph'' @ word_bytes ms) () (c\<lparr>cl_graph_started := g\<rparr>)"
proof -
  have r: "converses (fetch recvVec_bool) c (bool_codec.enc_each g) [] g c"
    by (rule conv_fetch [OF bool_vec_codec.recv_talks [OF assms]])
  have o: "converses (own (modifyM (\<lambda>s. s\<lparr>cl_graph_started := g\<rparr>))) c [] [] () (c\<lparr>cl_graph_started := g\<rparr>)" by (rule conv_own) simp
  show ?thesis
    unfolding cl_waitForGraph_def
    by (rule conv_send_then [OF conv_request] conv_send_then [OF conv_send_word, where y = "[]", simplified] conv_recv_last [OF r] o | simp)+
qed

lemma serve_get_limit: "converses (run_once P g X) s (req ''getTimeOut'') (word_bytes (monitorInterval s)) True s"
proof -
  have "converses (bindM getM (\<lambda>(s, k). thenM (put (sendData_word (monitorInterval s))) (ret True))) s [] (word_bytes (monitorInterval s)) True s"
    by (rule conv_get) (simp add: conv_last_then [OF conv_send_word conv_ret])
  then have "converses (run_once P g X) s (req ''getTimeOut'' @ []) (word_bytes (monitorInterval s)) True s"
    by (intro conv_serve) (simp_all add: dispatch_def)
  then show ?thesis by simp
qed

lemma serve_set_limit:
  assumes "n \<noteq> 0"
  shows "converses (run_once P g X) s (req ''setTimeOut'' @ word_bytes n) [] True (s\<lparr>monitorInterval := n\<rparr>)"
proof (rule conv_serve)
  have o: "converses (ss_setTimeOut n) s [] [] () (s\<lparr>monitorInterval := n\<rparr>)"
    using assms by (simp add: ss_setTimeOut_def conv_own)
  have "converses (bindM (fetch recvData_word) (\<lambda>timeout. thenM (ss_setTimeOut timeout) (ret True))) s (word_bytes n) [] True (s\<lparr>monitorInterval := n\<rparr>)"
    by (rule conv_recv_last [OF conv_recv_word]) (simp_all add: conv_last_then [OF o conv_ret])
  then show "converses (dispatch P g X (ascii ''setTimeOut'')) s (word_bytes n) [] True (s\<lparr>monitorInterval := n\<rparr>)"
    by (simp add: dispatch_def)
qed simp

lemma serve_wait_graph:
  assumes s: "ss_mgr s = Some v" and g: "bool_codec.ok_each (map (\<lambda>_. False) (sv_graph_started v))"
  shows "converses (run_once P g' X) s (req ''waitForGraph'' @ word_bytes (ms :: u32)) (bool_codec.enc_each (map (\<lambda>_. False) (sv_graph_started v))) True
    (s\<lparr>mActive := True, ss_mgr := Some (v\<lparr>sv_graph_started := map (\<lambda>_. False) (sv_graph_started v)\<rparr>)\<rparr>)"
proof (rule conv_serve)
  let ?v = "v\<lparr>sv_graph_started := map (\<lambda>_. False) (sv_graph_started v)\<rparr>"
  have o: "converses (own (modifyM (\<lambda>s. s\<lparr>sv_graph_started := map (\<lambda>_. False) (sv_graph_started s)\<rparr>))) v [] [] () ?v" by (rule conv_own) simp
  have p: "converses (put (sendVec_bool (sv_graph_started ?v))) ?v [] (bool_codec.enc_each (sv_graph_started ?v)) () ?v"
    using g by (intro conv_put [OF bool_vec_codec.send_talks]) simp
  have "converses (bindM (fetch recvData_word) (\<lambda>timeout_millisec :: u32.
      thenM (own (modifyM (\<lambda>s. s\<lparr>sv_graph_started := map (\<lambda>_. False) (sv_graph_started s)\<rparr>)))
      (bindM getM (\<lambda>(s, k). put (sendVec_bool (sv_graph_started s)))))) v (word_bytes ms) (bool_codec.enc_each (sv_graph_started ?v)) () ?v"
    by (rule conv_recv_last [OF conv_recv_word] conv_silent_then [OF o] conv_get | use p in simp)+
  then have "converses sv_waitForGraph v (word_bytes ms) (bool_codec.enc_each (sv_graph_started ?v)) () ?v"
    unfolding sv_waitForGraph_def by (rule conv_guard)
  from conv_mgr_request [OF this s]
  show "converses (dispatch P g' X (ascii ''waitForGraph'')) s (word_bytes ms) (bool_codec.enc_each (map (\<lambda>_. False) (sv_graph_started v))) True
      (s\<lparr>mActive := True, ss_mgr := Some ?v\<rparr>)" by (simp add: dispatch_def)
qed simp

text \<open>A call whose exception is its result.\<close>

definition attempt :: "'v cprog \<Rightarrow> (harness_error + 'v) cprog" where
  "attempt m = (\<lambda>w. case m w of (r, w') \<Rightarrow> (Inr r, w'))"

lemma conv_attempt_throw: "converses (attempt (throw e)) c [] [] (Inl e) c"
  by (rule conv_silent) (simp add: attempt_def throw_def)

lemma conv_attempt_bind:
  assumes "converses m c a x v c1" "converses (attempt (f v)) c1 b y r c2"
  shows "converses (attempt (bindM m f)) c (a @ b) (x @ y) r c2"
proof (rule conversesI)
  fix k :: sock and rest
  assume k: "readable (incoming k) = (a @ b) @ rest" "send_room k = None" "max (2 ^ 30) (length (a @ b)) \<le> alloc_limit k"
  obtain k1 where 1: "m (c, k) = (Inr v, (c1, k1))" "advances k (b @ rest) x k1"
    by (rule conversesD [OF assms(1), of k "b @ rest"]) (use k in auto)
  obtain k2 where 2: "attempt (f v) (c1, k1) = (Inr r, (c2, k2))" "advances k1 rest y k2"
    by (rule conversesD [OF assms(2), of k1 rest]) (use k 1(2) in \<open>auto simp: advances_def\<close>)
  show "\<exists>k'. attempt (bindM m f) (c, k) = (Inr r, (c2, k')) \<and> advances k rest (x @ y) k'"
    using 1 2 by (intro exI [of _ k2]) (simp add: attempt_def bindM_def advances_def)
qed

lemma conv_attempt_guard:
  assumes "converses (attempt m) c a x (Inl (TestHarnessException st)) c'"
  shows "converses (attempt (socket_guard st' m)) c a x (Inl (TestHarnessException st)) c'"
proof (rule conversesI)
  fix k :: sock and rest
  assume k: "readable (incoming k) = a @ rest" "send_room k = None" "max (2 ^ 30) (length a) \<le> alloc_limit k"
  from conversesD [OF assms k] obtain k' where "attempt m (c, k) = (Inr (Inl (TestHarnessException st)), (c', k'))" "advances k rest x k'" .
  then show "\<exists>k'. attempt (socket_guard st' m) (c, k) = (Inr (Inl (TestHarnessException st)), (c', k')) \<and> advances k rest x k'"
    by (intro exI [of _ k']) (auto simp: attempt_def socket_guard_def catch_def throw_def split: prod.splits sum.splits)
qed

text \<open>The parts of \<open>waitForRes\<close> when nothing is pending: raising the limit, stopping the graphs, sending the limit back.\<close>

lemma wait_nothing:
  assumes "cl_pending c = []"
  shows "cl_waitForRes ms n sched (c, k) = socket_guard TEST_HARNESS_WAIT_FOR_RES_FAILURE (bindM (cl_extend_limit ms)
    (\<lambda>limit. thenM (if n = 0 then cl_waitForGraph ms else ret ()) (setServerTimeOut limit))) (c, k)"
proof -
  obtain r c1 k1 where x: "cl_extend_limit ms (c, k) = (r, (c1, k1))" by (metis surj_pair)
  have "c1 = c" using keepsD [OF extend_keeps [of "\<lambda>d. d = c"], of "(c, k)" ms] x by simp
  then show ?thesis using x assms by (cases r) (simp_all add: cl_waitForRes_def socket_guard_def catch_def bindM_def thenM_def ret_def)
qed

lemma attempt_nothing:
  assumes "cl_pending c = []"
  shows "attempt (cl_waitForRes ms n sched) (c, k) = attempt (socket_guard TEST_HARNESS_WAIT_FOR_RES_FAILURE (bindM (cl_extend_limit ms)
    (\<lambda>limit. thenM (if n = 0 then cl_waitForGraph ms else ret ()) (setServerTimeOut limit)))) (c, k)"
  by (simp only: attempt_def wait_nothing [OF assms])

lemma conv_cong: "(\<And>k. m (c, k) = m' (c, k)) \<Longrightarrow> converses m' c a x v c' \<Longrightarrow> converses m c a x v c'"
  by (simp add: converses_def)

lemma conv_extend:
  fixes limit :: u64
  assumes "sec = ucast ((ms + 999) div 1000)" "limit = 0 \<or> sec = 0 \<or> sec + limit \<noteq> 0"
  shows "converses (cl_extend_limit ms) c (word_bytes limit)
    (req ''getTimeOut'' @ (if sec \<noteq> 0 \<and> limit \<noteq> 0 then req ''setTimeOut'' @ word_bytes (sec + limit) else [])) limit c"
proof -
  have "converses (if sec \<noteq> 0 \<and> limit \<noteq> 0 then setServerTimeOut (sec + limit) else ret ()) c []
      (if sec \<noteq> 0 \<and> limit \<noteq> 0 then req ''setTimeOut'' @ word_bytes (sec + limit) else []) () c"
    using assms(2) conv_set_limit [of "sec + limit" c] conv_ret [of "()" c] by auto
  then have "converses (thenM (if sec \<noteq> 0 \<and> limit \<noteq> 0 then setServerTimeOut (sec + limit) else ret ()) (ret limit)) c []
      (if sec \<noteq> 0 \<and> limit \<noteq> 0 then req ''setTimeOut'' @ word_bytes (sec + limit) else []) limit c"
    by (rule conv_last_then [OF _ conv_ret])
  then show ?thesis
    unfolding cl_extend_limit_def Let_def assms(1) [symmetric] by (intro conv_bind [OF conv_get_limit, where b = "[]"]) simp_all
qed

text \<open>The raised limit wraps to 0.\<close>

lemma conv_extend_fails:
  fixes limit :: u64
  assumes "sec = ucast ((ms + 999) div 1000)" "limit \<noteq> 0" "sec \<noteq> 0" "sec + limit = 0"
  shows "converses (attempt (bindM (cl_extend_limit ms) f)) c (word_bytes limit) (req ''getTimeOut'') (Inl (TestHarnessException INVALID_ARGUMENTS)) c"
proof -
  let ?g = "\<lambda>l. bindM (thenM (if sec \<noteq> 0 \<and> l \<noteq> 0 then setServerTimeOut (sec + l) else ret ()) (ret l)) f"
  have e: "bindM (cl_extend_limit ms) f = bindM getServerTimeOut ?g"
    unfolding cl_extend_limit_def assms(1) Let_def bindM_assoc ..
  have "?g limit w = throw (TestHarnessException INVALID_ARGUMENTS) w" for w
    using assms(2-4) by (simp add: setServerTimeOut_def thenM_def bindM_def throw_def)
  then have "converses (attempt (?g limit)) c [] [] (Inl (TestHarnessException INVALID_ARGUMENTS)) c"
    by (intro conv_cong [OF _ conv_attempt_throw]) (simp only: attempt_def)
  from conv_attempt_bind [where f = ?g, OF conv_get_limit this] show ?thesis unfolding e by simp
qed

definition idle_graphs :: "server \<Rightarrow> bool list" where
  "idle_graphs v = replicate (length (sv_graph_started v)) False"

text \<open>The exchange up to the last request.\<close>

lemma conv_stop:
  assumes "bool_codec.ok_each g"
  shows "converses (if n = (0 :: u32) then cl_waitForGraph ms else ret ()) c (if n = 0 then bool_codec.enc_each g else [])
    (if n = 0 then req ''waitForGraph'' @ word_bytes ms else []) () (if n = 0 then c\<lparr>cl_graph_started := g\<rparr> else c)"
  using conv_wait_graph [OF assms] conv_ret by (cases "n = 0") simp_all

lemma serves_if:
  assumes "b \<Longrightarrow> converses (run_once P True X) s a x True s1" "serves P X (if b then s1 else s) r y s2"
  shows "serves P X s ((if b then a else []) @ r) ((if b then x else []) @ y) s2"
  using assms serves.more by (cases b) fastforce+

lemma serve_waiting:
  fixes n ms :: u32
  assumes "ss_mgr s = Some v" "length (sv_graph_started v) < 2 ^ 63" "monitorInterval s = 0 \<or> sec = 0 \<or> sec + monitorInterval s \<noteq> 0"
  defines "s' \<equiv> if n = 0 then s\<lparr>mActive := True, ss_mgr := Some (v\<lparr>sv_graph_started := idle_graphs v\<rparr>)\<rparr> else s"
  shows "serves P X s ((req ''getTimeOut'' @ (if sec \<noteq> 0 \<and> monitorInterval s \<noteq> 0 then req ''setTimeOut'' @ word_bytes (sec + monitorInterval s) else [])) @
      (if n = 0 then req ''waitForGraph'' @ word_bytes ms else []) @
      (if monitorInterval s \<noteq> 0 then req ''setTimeOut'' @ word_bytes (monitorInterval s) else []))
    (word_bytes (monitorInterval s) @ (if n = 0 then bool_codec.enc_each (idle_graphs v) else [])) s'"
proof -
  let ?limit = "monitorInterval s" and ?b = "sec \<noteq> 0 \<and> monitorInterval s \<noteq> 0"
  let ?s1 = "if ?b then s\<lparr>monitorInterval := sec + ?limit\<rparr> else s"
  let ?s2 = "if n = 0 then ?s1\<lparr>mActive := True, ss_mgr := Some (v\<lparr>sv_graph_started := idle_graphs v\<rparr>)\<rparr> else ?s1"
  have g: "bool_codec.ok_each (map (\<lambda>_. False) (sv_graph_started v))" using assms(2) by (simp add: bool_codec.ok_each_def enc_bool_def)
  have i: "map (\<lambda>_. False) (sv_graph_started v) = idle_graphs v" by (simp add: idle_graphs_def map_replicate_const)
  have stop: "converses (run_once P True X) ?s1 (req ''waitForGraph'' @ word_bytes ms) (bool_codec.enc_each (idle_graphs v)) True
      (?s1\<lparr>mActive := True, ss_mgr := Some (v\<lparr>sv_graph_started := idle_graphs v\<rparr>)\<rparr>)"
    using serve_wait_graph [of ?s1 v] assms(1) g by (simp add: i)
  have "(if ?limit \<noteq> 0 then ?s2\<lparr>monitorInterval := ?limit\<rparr> else ?s2) = s'" by (auto simp: s'_def)
  then have "serves P X ?s2 ((if ?limit \<noteq> 0 then req ''setTimeOut'' @ word_bytes ?limit else []) @ []) ((if ?limit \<noteq> 0 then [] else []) @ []) s'"
    by (intro serves_if [OF serve_set_limit]) (auto intro: serves.idle)
  then have "serves P X ?s2 (if ?limit \<noteq> 0 then req ''setTimeOut'' @ word_bytes ?limit else []) [] s'" by simp
  from serves_if [OF stop this]
  have "serves P X ?s1 ((if n = 0 then req ''waitForGraph'' @ word_bytes ms else []) @
      (if ?limit \<noteq> 0 then req ''setTimeOut'' @ word_bytes ?limit else [])) ((if n = 0 then bool_codec.enc_each (idle_graphs v) else []) @ []) s'" .
  then have "serves P X s ((if ?b then req ''setTimeOut'' @ word_bytes (sec + ?limit) else []) @ (if n = 0 then req ''waitForGraph'' @ word_bytes ms else []) @
      (if ?limit \<noteq> 0 then req ''setTimeOut'' @ word_bytes ?limit else [])) ((if ?b then [] else []) @ (if n = 0 then bool_codec.enc_each (idle_graphs v) else []) @ []) s'"
    by (intro serves_if [OF serve_set_limit]) (use assms(3) in auto)
  from serves.more [OF serve_get_limit this] show ?thesis by simp
qed

text \<open>C39: waiting with no transaction pending, whatever number of transactions the user asks for. \<open>waitForRes\<close> for everything
  (\<open>n = 0\<close>) stops the graphs on both sides; otherwise nothing but the time limit is touched. The server's time
  limit is raised meanwhile and ends as it was. But the client refuses to send a limit of 0: when the watchdog is
  disabled the call throws after it has done its work, although nothing went wrong, and when the raised limit wraps
  to 0 it throws before it has done anything.\<close>

theorem wait_restores_limit:
  fixes ms n :: u32
  assumes "cl_pending c = []" and "ss_mgr s = Some v" and "length (sv_graph_started v) < 2 ^ 63"
  defines "limit \<equiv> monitorInterval s" and "sec \<equiv> ucast ((ms + 999) div 1000)"
    and "c' \<equiv> if n = 0 then c\<lparr>cl_graph_started := idle_graphs v\<rparr> else c"
    and "s' \<equiv> if n = 0 then s\<lparr>mActive := True, ss_mgr := Some (v\<lparr>sv_graph_started := idle_graphs v\<rparr>)\<rparr> else s"
  shows "(limit \<noteq> 0 \<and> (sec = 0 \<or> sec + limit \<noteq> 0) \<longrightarrow> calls P X (cl_waitForRes ms n sched) (c, s) () (c', s') \<and> monitorInterval s' = limit) \<and>
    (limit = 0 \<longrightarrow> calls P X (attempt (cl_waitForRes ms n sched)) (c, s) (Inl (TestHarnessException INVALID_ARGUMENTS)) (c', s')) \<and>
    (limit \<noteq> 0 \<and> sec \<noteq> 0 \<and> sec + limit = 0 \<longrightarrow>
      calls P X (attempt (cl_waitForRes ms n sched)) (c, s) (Inl (TestHarnessException INVALID_ARGUMENTS)) (c, s))"
proof (intro conjI impI)
  have g: "bool_codec.ok_each (idle_graphs v)" using assms(3) by (simp add: idle_graphs_def bool_codec.ok_each_def enc_bool_def)
  note serve = serve_waiting [where P = P and X = X and n = n and ms = ms and sec = sec, OF assms(2,3), folded limit_def s'_def]
  note extend = conv_extend [OF sec_def [THEN meta_eq_to_obj_eq], of limit c]
  show "calls P X (cl_waitForRes ms n sched) (c, s) () (c', s')" if l: "limit \<noteq> 0 \<and> (sec = 0 \<or> sec + limit \<noteq> 0)"
  proof (rule callsI)
    have l0: "limit \<noteq> 0" using l by blast
    have last: "converses (thenM (if n = 0 then cl_waitForGraph ms else ret ()) (setServerTimeOut limit)) c
        ((if n = 0 then bool_codec.enc_each (idle_graphs v) else []) @ [])
        ((if n = 0 then req ''waitForGraph'' @ word_bytes ms else []) @ req ''setTimeOut'' @ word_bytes limit) () c'"
      unfolding c'_def by (rule conv_then [OF conv_stop [OF g] conv_set_limit [OF l0] refl refl])
    show "serves P X s ((req ''getTimeOut'' @ (if sec \<noteq> 0 \<and> limit \<noteq> 0 then req ''setTimeOut'' @ word_bytes (sec + limit) else [])) @
        (if n = 0 then req ''waitForGraph'' @ word_bytes ms else []) @ req ''setTimeOut'' @ word_bytes limit)
      (word_bytes limit @ (if n = 0 then bool_codec.enc_each (idle_graphs v) else []) @ []) s'"
      using serve l by simp
    show "converses (cl_waitForRes ms n sched) c (word_bytes limit @ (if n = 0 then bool_codec.enc_each (idle_graphs v) else []) @ [])
      ((req ''getTimeOut'' @ (if sec \<noteq> 0 \<and> limit \<noteq> 0 then req ''setTimeOut'' @ word_bytes (sec + limit) else [])) @
        (if n = 0 then req ''waitForGraph'' @ word_bytes ms else []) @ req ''setTimeOut'' @ word_bytes limit) () c'"
      by (rule conv_cong, rule wait_nothing [OF assms(1)], rule conv_guard, rule conv_bind, rule extend, use l in blast, rule last) simp_all
  qed
  show "monitorInterval s' = limit" by (simp add: s'_def limit_def)
  show "calls P X (attempt (cl_waitForRes ms n sched)) (c, s) (Inl (TestHarnessException INVALID_ARGUMENTS)) (c', s')" if l: "limit = 0"
  proof (rule callsI)
    have "setServerTimeOut 0 = throw (TestHarnessException INVALID_ARGUMENTS)" by (simp add: setServerTimeOut_def)
    then have t: "converses (attempt (setServerTimeOut limit)) c' [] [] (Inl (TestHarnessException INVALID_ARGUMENTS)) c'"
      using l conv_attempt_throw by simp
    have last: "converses (attempt (thenM (if n = 0 then cl_waitForGraph ms else ret ()) (setServerTimeOut limit))) c
        ((if n = 0 then bool_codec.enc_each (idle_graphs v) else []) @ [])
        ((if n = 0 then req ''waitForGraph'' @ word_bytes ms else []) @ []) (Inl (TestHarnessException INVALID_ARGUMENTS)) c'"
      unfolding thenM_def c'_def by (rule conv_attempt_bind, rule conv_stop [OF g], rule t [unfolded c'_def])
    show "serves P X s ((req ''getTimeOut'' @ (if sec \<noteq> 0 \<and> limit \<noteq> 0 then req ''setTimeOut'' @ word_bytes (sec + limit) else [])) @
        (if n = 0 then req ''waitForGraph'' @ word_bytes ms else []) @ [])
      (word_bytes limit @ (if n = 0 then bool_codec.enc_each (idle_graphs v) else []) @ []) s'"
      using serve l by simp
    show "converses (attempt (cl_waitForRes ms n sched)) c (word_bytes limit @ (if n = 0 then bool_codec.enc_each (idle_graphs v) else []) @ [])
      ((req ''getTimeOut'' @ (if sec \<noteq> 0 \<and> limit \<noteq> 0 then req ''setTimeOut'' @ word_bytes (sec + limit) else [])) @
        (if n = 0 then req ''waitForGraph'' @ word_bytes ms else []) @ []) (Inl (TestHarnessException INVALID_ARGUMENTS)) c'"
      by (rule conv_cong, rule attempt_nothing [OF assms(1)], rule conv_attempt_guard, rule conv_attempt_bind, rule extend, use l in blast, rule last)
  qed
  show "calls P X (attempt (cl_waitForRes ms n sched)) (c, s) (Inl (TestHarnessException INVALID_ARGUMENTS)) (c, s)"
    if l: "limit \<noteq> 0 \<and> sec \<noteq> 0 \<and> sec + limit = 0"
  proof (rule callsI)
    show "serves P X s (req ''getTimeOut'') (word_bytes limit) s" unfolding limit_def by (rule serves_one [OF serve_get_limit])
    show "converses (attempt (cl_waitForRes ms n sched)) c (word_bytes limit) (req ''getTimeOut'') (Inl (TestHarnessException INVALID_ARGUMENTS)) c"
      by (rule conv_cong, rule attempt_nothing [OF assms(1)], rule conv_attempt_guard, rule conv_extend_fails [OF sec_def [THEN meta_eq_to_obj_eq]]) (use l in simp_all)
  qed
qed

theorem wait_restores_limit_witness:
  "\<forall>X. \<exists>s s' v. monitorInterval s = 60 \<and> monitorInterval s' = 60 \<and> sv_graph_started v = [True] \<and> ss_mgr s = Some v \<and>
     ss_mgr s' = Some (v\<lparr>sv_graph_started := [False]\<rparr>) \<and>
     calls demo_params X (cl_waitForRes 5000 0 (\<lambda>_. [])) (demo_connected, s) () (demo_connected\<lparr>cl_graph_started := [False]\<rparr>, s') \<and>
     calls demo_params X (cl_waitForRes 5000 1 (\<lambda>_. [])) (demo_connected, s) () (demo_connected, s) \<and>
     calls demo_params X (attempt (cl_waitForRes 5000 1 (\<lambda>_. []))) (demo_connected, s\<lparr>monitorInterval := 0\<rparr>)
       (Inl (TestHarnessException INVALID_ARGUMENTS)) (demo_connected, s\<lparr>monitorInterval := 0\<rparr>)"
proof
  fix X
  let ?v = "made demo_params [True]"
  let ?s = "new_session 60\<lparr>mActive := True, ss_mgr := Some ?v\<rparr>"
  have 1: "cl_pending demo_connected = []" by (simp add: demo_connected_def set_up_def demo_client_def new_client_def)
  have 2: "ss_mgr ?s = Some ?v" "ss_mgr (?s\<lparr>monitorInterval := 0\<rparr>) = Some ?v" "length (sv_graph_started ?v) < 2 ^ 63"
    and v: "sv_graph_started ?v = [True]" by (simp_all add: made_def)
  have i: "idle_graphs ?v = [False]" by (simp add: idle_graphs_def v)
  have 3: "monitorInterval ?s = 60" "monitorInterval (?s\<lparr>monitorInterval := 0\<rparr>) = 0" by (simp_all add: new_session_def)
  note w = wait_restores_limit [where ms = 5000 and P = demo_params and X = X and sched = "\<lambda>_. []", unfolded i]
  note w0 = w [where n = 0, OF 1 2(1,3), unfolded i 3, THEN conjunct1]
  note w1 = w [where n = 1, OF 1 2(1,3), unfolded i 3, THEN conjunct1]
  note w2 = w [where n = 1, OF 1 2(2,3), unfolded i 3, THEN conjunct2, THEN conjunct1]
  show "\<exists>s s' v. monitorInterval s = 60 \<and> monitorInterval s' = 60 \<and> sv_graph_started v = [True] \<and> ss_mgr s = Some v \<and>
     ss_mgr s' = Some (v\<lparr>sv_graph_started := [False]\<rparr>) \<and>
     calls demo_params X (cl_waitForRes 5000 0 (\<lambda>_. [])) (demo_connected, s) () (demo_connected\<lparr>cl_graph_started := [False]\<rparr>, s') \<and>
     calls demo_params X (cl_waitForRes 5000 1 (\<lambda>_. [])) (demo_connected, s) () (demo_connected, s) \<and>
     calls demo_params X (attempt (cl_waitForRes 5000 1 (\<lambda>_. []))) (demo_connected, s\<lparr>monitorInterval := 0\<rparr>)
       (Inl (TestHarnessException INVALID_ARGUMENTS)) (demo_connected, s\<lparr>monitorInterval := 0\<rparr>)"
    using w0 w1 w2 3 v by (intro exI [of _ ?s] exI [of _ "?s\<lparr>mActive := True, ss_mgr := Some (?v\<lparr>sv_graph_started := [False]\<rparr>)\<rparr>"] exI [of _ ?v]) simp
qed

end
