(* ===== verification/Adder.thy ===== *)
theory Adder
  imports Packed_Kernel Board_Kernels
begin

text \<open>
  The example \<^verbatim>\<open>examples/*/adder_perf\<close>: the kernel \<open>aie_adder\<close>, the graph around it, and the program that calls the
  harness with it. The three copies differ in the name of the board only.
\<close>

section \<open>The kernel\<close>

text \<open>\<open>aie::add\<close> belongs to the AI Engine and is the argument \<open>add\<close>; its documentation says that it adds vectors of
  \<open>int32\<close> lane by lane, and the lanes wrap.\<close>

type_synonym int32 = "32 word"
type_synonym vadd = "int32 list \<Rightarrow> int32 list \<Rightarrow> int32 list"

definition add_documented :: "vadd \<Rightarrow> bool" where
  "add_documented add \<longleftrightarrow> (\<forall>x y. length x = 32 \<longrightarrow> length y = 32 \<longrightarrow> add x y = map2 (+) x y)"

text \<open>The loop of \<open>i\<close> iterations; each iterator is the rest of its buffer.\<close>

fun adder_loop :: "vadd \<Rightarrow> nat \<Rightarrow> int32 list \<Rightarrow> int32 list \<Rightarrow> int32 list" where
  "adder_loop add 0 in0 in1 = []"
| "adder_loop add (Suc i) in0 in1 = add (take 32 in0) (take 32 in1) @ adder_loop add i (drop 32 in0) (drop 32 in1)"

definition aie_adder :: "vadd \<Rightarrow> int32 list \<Rightarrow> int32 list \<Rightarrow> int32 list" where
  "aie_adder add in0 in1 = adder_loop add (4096 div 32) in0 in1"

section \<open>The graph\<close>

definition pl_in0 :: strm where "pl_in0 = To 0"       \<comment> \<open>\<open>PLIO_01_TO_AIE\<close>\<close>
definition pl_in1 :: strm where "pl_in1 = To 2"       \<comment> \<open>\<open>PLIO_03_TO_AIE\<close>\<close>
definition pl_out :: strm where "pl_out = From 1"     \<comment> \<open>\<open>PLIO_02_FROM_AIE\<close>\<close>

text \<open>The dimension of the three buffers, and buffer \<open>i\<close> of a stream.\<close>

definition buffer_dim :: nat where "buffer_dim = 4096"

definition buffer :: "nat \<Rightarrow> 'a list \<Rightarrow> 'a list" where
  "buffer i xs = take buffer_dim (drop (buffer_dim * i) xs)"

text \<open>What is connected to \<open>pl_out\<close>, in a run of \<open>iters\<close> iterations, from what is connected to the inputs: an iteration
  needs a full buffer of each.\<close>

definition test_graph :: "vadd \<Rightarrow> nat \<Rightarrow> (strm \<Rightarrow> int32 list) \<Rightarrow> int32 list" where
  "test_graph add iters s = concat (map (\<lambda>i. aie_adder add (buffer i (s pl_in0)) (buffer i (s pl_in1)))
     [0..<min iters (min (length (s pl_in0) div buffer_dim) (length (s pl_in1) div buffer_dim))])"

text \<open>The words of a port of 128 bits carry four elements each, the first one in the low bits. A design runs the graph if
  the elements on its output port are those of the graph on the elements on its input ports.\<close>

definition elements :: "128 word ap_axiu list \<Rightarrow> int32 list" where
  "elements ws = stream_words (map axi_data ws)"

definition runs_graph :: "((strm \<Rightarrow> int32 list) \<Rightarrow> int32 list) \<Rightarrow>
    ((strm \<Rightarrow> 128 word ap_axiu list) \<Rightarrow> strm \<Rightarrow> 128 word ap_axiu list) \<Rightarrow> bool" where
  "runs_graph g aie \<longleftrightarrow> (\<forall>out. elements (aie out pl_out) = g (\<lambda>p. elements (out p)))"

section \<open>The program\<close>

definition KERNEL_LOOP_ITERS :: nat where "KERNEL_LOOP_ITERS = 4096"
definition KERNEL_WORDS_PER_ITER :: nat where "KERNEL_WORDS_PER_ITER = 1"

definition tb_num_values :: "nat \<Rightarrow> nat" where
  "tb_num_values num_iterations = num_iterations * KERNEL_LOOP_ITERS * KERNEL_WORDS_PER_ITER"

text \<open>The vectors \<open>a\<close>, \<open>b\<close> and \<open>s\<close> after \<open>n\<close> iterations of the loop that fills them; \<open>rand k\<close> is what call \<open>k\<close> of \<open>rand\<close>
  returns, which is never negative.\<close>

definition tb_value :: "nat \<Rightarrow> int32" where
  "tb_value r = word_of_int (int (r mod 100) - 50)"

fun tb_fill :: "(nat \<Rightarrow> nat) \<Rightarrow> nat \<Rightarrow> int32 list \<times> int32 list \<times> int32 list" where
  "tb_fill rand 0 = ([], [], [])"
| "tb_fill rand (Suc i) = (case tb_fill rand i of (a, b, s) \<Rightarrow>
     (a @ [tb_value (rand (2 * i))], b @ [tb_value (rand (2 * i + 1))], s @ [0]))"

definition PLIO_03_TO_AIE :: channel_index where "PLIO_03_TO_AIE = 2"
definition PLIO_02_FROM_AIE :: channel_index where "PLIO_02_FROM_AIE = 37"

text \<open>The arguments of \<open>runTestHarness\<close>, for vectors at the addresses \<open>a\<close>, \<open>b\<close> and \<open>s\<close>.\<close>

definition tb_args :: "nat \<Rightarrow> u64 \<Rightarrow> u64 \<Rightarrow> u64 \<Rightarrow> u64 \<Rightarrow> u64 \<Rightarrow> test_harness_args list" where
  "tb_args num_values num_repetitions num_delay a b s =
     [\<lparr>idx = PLIO_01_TO_AIE, size_in_byte = of_nat (num_values * 4), repetition = num_repetitions, delay = num_delay, data = a\<rparr>,
      \<lparr>idx = PLIO_03_TO_AIE, size_in_byte = of_nat (num_values * 4), repetition = num_repetitions, delay = num_delay, data = b\<rparr>,
      \<lparr>idx = PLIO_02_FROM_AIE, size_in_byte = of_nat (num_values * 4), repetition = num_repetitions, delay = num_delay, data = s\<rparr>]"

text \<open>A vector of \<open>n\<close> elements in memory.\<close>

definition vec_at :: "umem \<Rightarrow> u64 \<Rightarrow> nat \<Rightarrow> int32 list" where
  "vec_at um p n = words_of_bytes (mem_read um p (n * 4))"

text \<open>The errors the comparison with the golden data counts, and what the program ends with.\<close>

definition tb_compare :: "nat \<Rightarrow> int32 list \<Rightarrow> int32 list \<Rightarrow> int32 list \<Rightarrow> nat" where
  "tb_compare num_values a b s = length (filter (\<lambda>i. sint (s ! i) \<noteq> sint (a ! i) + sint (b ! i)) [0..<num_values])"

definition tb_check :: "bool \<Rightarrow> nat \<Rightarrow> int32 list \<Rightarrow> int32 list \<Rightarrow> int32 list \<Rightarrow> nat \<Rightarrow> nat" where
  "tb_check is_valid num_values a b s errorCount =
     (if \<not> is_valid then errorCount else errorCount + tb_compare num_values a b s)"

datatype exit_status = EXIT_SUCCESS | EXIT_FAILURE

definition tb_exit :: "nat \<Rightarrow> exit_status" where
  "tb_exit errorCount = (if errorCount \<noteq> 0 then EXIT_FAILURE else EXIT_SUCCESS)"

section \<open>Elements of memory words\<close>

lemma ratio_4 [simp]: "MEM_RATIO TYPE(128) TYPE(32) = 4" "MEM_RATIO TYPE(32) TYPE(8) = 4"
  by (simp_all add: MEM_RATIO_def)

lemma widths_4: "widths_ok TYPE(128) TYPE(32)" "widths_ok TYPE(32) TYPE(8)"
  by (simp_all add: widths_ok_def)

lemma lane_of_lane:
  assumes "j < 4" "k < 4"
  shows "lane (lane (w :: 128 word) j :: int32) k = (lane w (j * 4 + k) :: u8)"
proof (rule bit_word_eqI)
  fix i assume i: "i < LENGTH(8)"
  have 1: "j * LENGTH(32) + (k * LENGTH(8) + i) = (j * 4 + k) * LENGTH(8) + i" by simp
  have 2: "k * LENGTH(8) + i < LENGTH(32)" using assms(2) i unfolding len_num1 by simp
  show "bit (lane (lane w j :: int32) k :: u8) i = bit (lane w (j * 4 + k) :: u8) i"
    unfolding bit_lane 1 using i 2 by (simp only: simp_thms)
qed

lemma bytes_by_elements: "bytes ws = stream_words (stream_words ws :: int32 list)"
proof (rule nth_equalityI)
  fix p assume "p < length (bytes ws)"
  then have p: "p < length ws * 16" by simp
  have d: "p div 4 div 4 = p div 16" by (simp add: div_mult2_eq [symmetric])
  have m: "p div 4 mod 4 * 4 + p mod 4 = p mod 16"
    using mod_mult2_eq [of p 4 4] by simp
  have "(stream_words (stream_words ws :: int32 list) :: u8 list) ! p = lane ((stream_words ws :: int32 list) ! (p div 4)) (p mod 4)"
    using p by (subst nth_stream_words) simp_all
  also have "(stream_words ws :: int32 list) ! (p div 4) = lane (ws ! (p div 4 div 4)) (p div 4 mod 4)"
    using p by (subst nth_stream_words) simp_all
  also have "lane (lane (ws ! (p div 4 div 4)) (p div 4 mod 4) :: int32) (p mod 4) = (lane (ws ! (p div 16)) (p mod 16) :: u8)"
    by (subst lane_of_lane) (simp_all add: d m)
  also have "\<dots> = bytes ws ! p" using p unfolding bytes_of_words_def by (subst nth_stream_words) simp_all
  finally show "bytes ws ! p = (stream_words (stream_words ws :: int32 list) :: u8 list) ! p" by simp
qed simp

lemma ints_of_bytes: "words_of_bytes (stream_words xs :: u8 list) = (xs :: int32 list)"
proof (rule nth_equalityI)
  fix i assume "i < length (words_of_bytes (stream_words xs :: u8 list) :: int32 list)"
  then have i: "i < length xs" by (simp add: words_of_bytes_def)
  show "(words_of_bytes (stream_words xs :: u8 list) :: int32 list) ! i = xs ! i"
  proof (rule word_eq_lanesI [where 's = 8, OF widths_4(2)])
    fix j assume j: "j < MEM_RATIO TYPE(32) TYPE(8)"
    then have "i * 4 + j < length xs * 4" using i by simp
    then have n: "(stream_words xs :: u8 list) ! (i * 4 + j) = lane (xs ! i) j"
      using j by (subst nth_stream_words) simp_all
    have "lane ((words_of_bytes (stream_words xs :: u8 list) :: int32 list) ! i) j = take 4 (drop (i * 4) (stream_words xs :: u8 list)) ! j"
      using i j by (simp add: words_of_bytes_def packed_def lane_pack_lanes [OF widths_4(2)])
    also have "\<dots> = (stream_words xs :: u8 list) ! (i * 4 + j)" using i j by simp
    finally show "(lane ((words_of_bytes (stream_words xs :: u8 list) :: int32 list) ! i) j :: u8) = lane (xs ! i) j" using n by simp
  qed
qed (simp add: words_of_bytes_def)

lemma ints_of_words: "words_of_bytes (bytes ws) = (stream_words ws :: int32 list)"
  by (simp add: bytes_by_elements ints_of_bytes)

lemma elements_of_words: "16 dvd length bs \<Longrightarrow> elements (map axi_word (words bs)) = words_of_bytes bs"
proof -
  assume "16 dvd length bs"
  then have "words_of_bytes bs = (words_of_bytes (bytes (words bs)) :: int32 list)" by (simp add: bytes_words)
  then show ?thesis by (simp add: ints_of_words elements_def comp_def)
qed

lemma length_elements [simp]: "length (elements ws) = length ws * 4"
  by (simp add: elements_def)

lemma take_elements: "elements (take n ws) = take (n * 4) (elements ws)"
proof -
  have "(stream_words (take n xs) :: int32 list) = take (n * 4) (stream_words xs)" for xs :: "128 word list"
  proof (cases "n \<le> length xs")
    case True
    have "(stream_words xs :: int32 list) = stream_words (take n xs) @ stream_words (drop n xs)"
      by (simp add: stream_words_append [symmetric])
    then show ?thesis using True by simp
  qed simp
  then show ?thesis by (simp only: elements_def take_map [symmetric])
qed

section \<open>Sums\<close>

lemma adder_loop_sums:
  assumes "add_documented add" "length x = 32 * i" "length y = 32 * i"
  shows "adder_loop add i x y = map2 (+) x y"
  using assms(2,3)
proof (induction i arbitrary: x y)
  case (Suc i)
  have "adder_loop add (Suc i) x y = map2 (+) (take 32 x) (take 32 y) @ map2 (+) (drop 32 x) (drop 32 y)"
    using assms(1) Suc by (simp add: add_documented_def)
  also have "\<dots> = map2 (+) (take 32 x @ drop 32 x) (take 32 y @ drop 32 y)"
    using Suc.prems by (simp only: map_append [symmetric] zip_append [symmetric] length_take)
  finally show ?case by (simp only: append_take_drop_id)
qed simp

lemma aie_adder_sums:
  "add_documented add \<Longrightarrow> length x = 4096 \<Longrightarrow> length y = 4096 \<Longrightarrow> aie_adder add x y = map2 (+) x y"
  unfolding aie_adder_def by (rule adder_loop_sums) simp_all

lemma take_buffers: "take (buffer_dim * Suc n) xs = take (buffer_dim * n) xs @ buffer n xs"
  by (simp add: buffer_def take_add [symmetric] add.commute)

lemma buffers_sums:
  assumes "length x = length y"
  shows "concat (map (\<lambda>i. map2 f (buffer i x) (buffer i y)) [0..<n]) = map2 f (take (buffer_dim * n) x) (take (buffer_dim * n) y)"
proof (induction n)
  case (Suc n)
  then show ?case using assms by (simp add: take_buffers del: mult_Suc_right)
qed simp

text \<open>A run on full buffers.\<close>

lemma test_graph_sums:
  assumes "add_documented add" "length (s pl_in0) = buffer_dim * n" "length (s pl_in1) = buffer_dim * n"
  shows "test_graph add n s = map2 (+) (s pl_in0) (s pl_in1)"
proof -
  have "aie_adder add (buffer i (s pl_in0)) (buffer i (s pl_in1)) = map2 (+) (buffer i (s pl_in0)) (buffer i (s pl_in1))"
    if "i < n" for i
  proof (rule aie_adder_sums [OF assms(1)])
    have "buffer_dim * i + buffer_dim \<le> buffer_dim * n"
      using mult_le_mono2 [of "Suc i" n buffer_dim] that by simp
    then show "length (buffer i (s pl_in0)) = 4096" "length (buffer i (s pl_in1)) = 4096"
      using assms(2,3) by (simp_all add: buffer_def buffer_dim_def)
  qed
  then have "test_graph add n s = concat (map (\<lambda>i. map2 (+) (buffer i (s pl_in0)) (buffer i (s pl_in1))) [0..<n])"
    using assms(2,3) unfolding test_graph_def by (intro arg_cong [where f = concat] map_cong) (simp_all add: buffer_dim_def)
  also have "\<dots> = map2 (+) (s pl_in0) (s pl_in1)"
    using assms(2,3) by (subst buffers_sums) simp_all
  finally show ?thesis .
qed

lemma tb_fill_shape:
  assumes "tb_fill rand n = (a, b, s)"
  shows "length a = n \<and> length b = n \<and> s = replicate n 0 \<and> set a \<subseteq> range tb_value \<and> set b \<subseteq> range tb_value"
  using assms
proof (induction n arbitrary: a b s)
  case (Suc n)
  obtain a1 b1 s1 where f: "tb_fill rand n = (a1, b1, s1)" by (metis surj_pair)
  then show ?case using Suc.IH [OF f] Suc.prems by (auto simp: replicate_append_same)
qed simp

lemma small_sum: "x \<in> range tb_value \<Longrightarrow> y \<in> range tb_value \<Longrightarrow> sint (x + y) = sint x + sint y"
proof -
  have s: "sint (word_of_int k :: int32) = k" if "- 200 \<le> k" "k < 200" for k :: int
    using that by (simp add: sint_sbintrunc' signed_take_bit_int_eq_self)
  have m: "0 \<le> int (i mod 100)" "int (i mod 100) < 100" for i :: nat by simp_all
  assume "x \<in> range tb_value" "y \<in> range tb_value"
  then obtain i j where e: "x = tb_value i" "y = tb_value j" by blast
  then have "x + y = word_of_int ((int (i mod 100) - 50) + (int (j mod 100) - 50))" unfolding tb_value_def by (simp only: of_int_add)
  then show ?thesis unfolding e tb_value_def using m [of i] m [of j] by (simp only: s)
qed

lemma tb_compare_sums:
  assumes "tb_fill rand n = (a, b, s)" shows "tb_compare n a b (map2 (+) a b) = 0"
proof -
  note f = tb_fill_shape [OF assms]
  have "sint (map2 (+) a b ! i) = sint (a ! i) + sint (b ! i)" if "i < n" for i
  proof -
    have "a ! i \<in> set a" "b ! i \<in> set b" using f that by simp_all
    then have "a ! i \<in> range tb_value" "b ! i \<in> range tb_value" using f by blast+
    then show ?thesis using f that by (simp only: nth_map nth_zip prod.case small_sum length_zip min.idem)
  qed
  then show ?thesis by (simp add: tb_compare_def filter_empty_conv)
qed

end
