(* ===== verification/Adder_Claims.thy ===== *)
theory Adder_Claims
  imports Adder Remote_Claims Session_Inv
begin

text \<open>
  The program of the adder example in functional mode: starting its graph over the connection, its transaction, and the
  comparison with the golden data.
\<close>

section \<open>Starting a graph\<close>

lemma bind_ret: "bindM (ret x) f = f x"
  by (simp add: fun_eq_iff bindM_def ret_def)

lemma conv_run_graph:
  assumes "unat g < length (cl_graph_started c)" "\<not> cl_graph_started c ! unat g"
    and "bool_codec.ok_each gs" "unat g < length gs" "gs ! unat g"
  shows "converses (cl_runAIEGraph g iters) c (bool_codec.enc_each gs) (req ''runAIEGraph'' @ word_bytes g @ word_bytes iters) ()
    (c\<lparr>cl_graph_started := gs\<rparr>)"
proof -
  let ?c = "c\<lparr>cl_graph_started := gs\<rparr>"
  have r: "converses (fetch recvVec_bool) c (bool_codec.enc_each gs) [] gs c"
    by (rule conv_fetch [OF bool_vec_codec.recv_talks [OF assms(3)]])
  have o: "converses (own (modifyM (\<lambda>s. s\<lparr>cl_graph_started := gs\<rparr>))) c [] [] () ?c" by (rule conv_own) simp
  have g: "converses (bindM (ubM (vec_get (unat g) gs)) (\<lambda>b. guardM AssertionFailed b)) ?c [] [] () ?c"
    using assms(4,5) conv_ret [of "()" ?c] by (simp add: vec_get_def guardM_def bind_ret)
  have e: "converses (bindM (fetch recvVec_bool) (\<lambda>g'. thenM (own (modifyM (\<lambda>s. s\<lparr>cl_graph_started := g'\<rparr>)))
      (bindM (ubM (vec_get (unat g) g')) (\<lambda>b. guardM AssertionFailed b)))) c (bool_codec.enc_each gs) [] () ?c"
    by (rule conv_recv_last [OF r], rule conv_silent_then [OF o], rule g)
  have "converses (thenM (put (sendReq (ascii ''runAIEGraph''))) (thenM (put (sendData_word g)) (thenM (put (sendData_word iters))
      (bindM (fetch recvVec_bool) (\<lambda>g'. thenM (own (modifyM (\<lambda>s. s\<lparr>cl_graph_started := g'\<rparr>)))
      (bindM (ubM (vec_get (unat g) g')) (\<lambda>b. guardM AssertionFailed b))))))) c (bool_codec.enc_each gs)
      (req ''runAIEGraph'' @ word_bytes g @ word_bytes iters) () ?c"
    by (rule conv_send_then [OF conv_request] conv_send_then [OF conv_send_word]
        conv_send_then [OF conv_send_word, where y = "[]", simplified] e | simp)+
  note body = conv_guard [OF this]
  have n: "\<not> length (cl_graph_started c) \<le> unat g" using assms(1) by simp
  show ?thesis
    unfolding cl_runAIEGraph_def
    by (rule conv_get) (simp only: prod.case if_not_P [OF n] if_not_P [OF assms(2)] body)
qed

lemma serve_run_graph:
  fixes g iters :: u32
  assumes s: "ss_mgr s = Some v" and g: "unat g < length (sv_graph_started v)"
    and gs: "gs = (sv_graph_started v)[unat g := True]" "bool_codec.ok_each gs"
  shows "converses (run_once P b X) s (req ''runAIEGraph'' @ word_bytes g @ word_bytes iters) (bool_codec.enc_each gs) True
    (s\<lparr>mActive := True, ss_mgr := Some (v\<lparr>sv_graph_started := gs\<rparr>)\<rparr>)"
proof (rule conv_serve)
  let ?v = "v\<lparr>sv_graph_started := gs\<rparr>"
  have o: "converses (own (modifyM (\<lambda>s. s\<lparr>sv_graph_started := gs\<rparr>))) v [] [] () ?v" by (rule conv_own) simp
  have p: "converses (put (sendVec_bool gs)) ?v [] (bool_codec.enc_each gs) () ?v"
    by (rule conv_put [OF bool_vec_codec.send_talks [OF gs(2)]])
  have e: "converses (bindM getM (\<lambda>(s, k). bindM (ubM (vec_set (unat g) True (sv_graph_started s))) (\<lambda>g.
      thenM (own (modifyM (\<lambda>s. s\<lparr>sv_graph_started := g\<rparr>))) (put (sendVec_bool g))))) v [] (bool_codec.enc_each gs) () ?v"
    by (rule conv_get) (use g conv_silent_then [OF o p] in \<open>simp add: vec_set_def gs(1) bind_ret\<close>)
  have "converses (bindM (fetch recvData_word) (\<lambda>g_idx :: u32. bindM (fetch recvData_word) (\<lambda>iters :: u32.
      bindM getM (\<lambda>(s, k). bindM (ubM (vec_set (unat g_idx) True (sv_graph_started s))) (\<lambda>g.
      thenM (own (modifyM (\<lambda>s. s\<lparr>sv_graph_started := g\<rparr>))) (put (sendVec_bool g)))))))
      v (word_bytes g @ word_bytes iters) (bool_codec.enc_each gs) () ?v"
    by (rule conv_recv_bind [OF conv_recv_word] conv_recv_last [OF conv_recv_word] e | simp)+
  then have "converses sv_runAIEGraph v (word_bytes g @ word_bytes iters) (bool_codec.enc_each gs) () ?v"
    unfolding sv_runAIEGraph_def by (rule conv_guard)
  from conv_mgr_request [OF this s]
  show "converses (dispatch P b X (ascii ''runAIEGraph'')) s (word_bytes g @ word_bytes iters) (bool_codec.enc_each gs) True
      (s\<lparr>mActive := True, ss_mgr := Some ?v\<rparr>)" by (simp add: dispatch_def)
qed simp

lemma remote_run_graph:
  fixes g iters :: u32
  assumes "ss_mgr s = Some v" "sv_graph_started v = cl_graph_started c" "unat g < length (cl_graph_started c)"
    and "\<not> cl_graph_started c ! unat g" "length (cl_graph_started c) < 2 ^ 63" "remote_ready N c v"
  defines "gs \<equiv> (cl_graph_started c)[unat g := True]"
  shows "calls P X (cl_runAIEGraph g iters) (c, s) ()
      (c\<lparr>cl_graph_started := gs\<rparr>, s\<lparr>mActive := True, ss_mgr := Some (v\<lparr>sv_graph_started := gs\<rparr>)\<rparr>) \<and>
    remote_ready N (c\<lparr>cl_graph_started := gs\<rparr>) (v\<lparr>sv_graph_started := gs\<rparr>)"
proof
  have ok: "bool_codec.ok_each gs" using assms(5) by (simp add: gs_def bool_codec.ok_each_def enc_bool_def)
  have l: "unat g < length gs" "gs ! unat g" using assms(3) by (simp_all add: gs_def)
  have v: "unat g < length (sv_graph_started v)" "gs = (sv_graph_started v)[unat g := True]" using assms(2,3) by (simp_all add: gs_def)
  show "calls P X (cl_runAIEGraph g iters) (c, s) ()
      (c\<lparr>cl_graph_started := gs\<rparr>, s\<lparr>mActive := True, ss_mgr := Some (v\<lparr>sv_graph_started := gs\<rparr>)\<rparr>)"
    by (rule callsI [OF conv_run_graph [OF assms(3,4) ok l] serves_one [OF serve_run_graph [OF assms(1) v ok]]])
  show "remote_ready N (c\<lparr>cl_graph_started := gs\<rparr>) (v\<lparr>sv_graph_started := gs\<rparr>)"
    using assms(6) graph_inv [of v gs] by (auto simp: remote_ready_def matched_def)
qed

section \<open>The transaction of the program\<close>

lemma board_channels: "(N, board) \<in> boards \<Longrightarrow> N = 36 \<or> N = 16"
  by (auto simp: boards_def)

lemma num_values: "tb_num_values n = 4096 * n"
  by (simp add: tb_num_values_def KERNEL_LOOP_ITERS_def KERNEL_WORDS_PER_ITER_def)

text \<open>With at most 21845 iterations the transaction fits into the memory of the server.\<close>

lemma tb_size:
  assumes "n \<le> 21845" shows "unat (of_nat (tb_num_values n * 4) :: u64) = 16384 * n" "unat (of_nat (tb_num_values n * 4) :: u64) div 16 = 1024 * n"
proof -
  have "tb_num_values n * 4 < 2 ^ 64" using assms by (simp add: num_values)
  then have "unat (of_nat (tb_num_values n * 4) :: u64) = tb_num_values n * 4" by (intro unat_of_nat_small) simp
  then show "unat (of_nat (tb_num_values n * 4) :: u64) = 16384 * n" "unat (of_nat (tb_num_values n * 4) :: u64) div 16 = 1024 * n"
    by (simp_all add: num_values)
qed

lemma tb_dirs:
  assumes "(N, board) \<in> boards" "tr_num_channels t = of_nat N"
  shows "to_dir t i \<longleftrightarrow> unat i < N" "from_dir t i \<longleftrightarrow> 36 \<le> unat i \<and> unat i < 36 + N"
  using board_channels [OF assms(1)] assms(2) by (auto simp: to_dir_def from_dir_def is_to_aie_iff is_from_aie_iff)

lemma tb_indices [simp]:
  "unat PLIO_01_TO_AIE = 0" "unat PLIO_03_TO_AIE = 2" "unat PLIO_02_FROM_AIE = 37"
  by (simp_all add: PLIO_01_TO_AIE_def PLIO_03_TO_AIE_def PLIO_02_FROM_AIE_def)

lemma tb_args_ok:
  assumes b: "(N, board) \<in> boards" and t: "tr_num_channels t = of_nat N" "tr_word_size t = 16" and n: "n \<le> 21845"
  shows "user_args_ok t (tb_args (tb_num_values n) 1 d pa pb ps)" "fits_server N t (tb_args (tb_num_values n) 1 d pa pb ps)"
proof -
  let ?args = "tb_args (tb_num_values n) 1 d pa pb ps"
  note dirs = tb_dirs [OF b t(1)]
  have N: "2 < N" "37 < 36 + N" using board_channels [OF b] by auto
  have al: "aligned t a" if "a \<in> set ?args" for a
  proof -
    have "size_in_byte a = of_nat (tb_num_values n * 4)" using that by (auto simp: tb_args_def)
    moreover have "unat (of_nat (tb_num_values n * 4) mod 16 :: u64) = 0"
      unfolding unat_mod tb_size(1) [OF n] by simp
    moreover have "ucast (16 :: u32) = (16 :: u64)" by simp
    ultimately show ?thesis by (simp only: aligned_def t(2) unat_eq_0)
  qed
  have "accepted t a" if "a \<in> set ?args" for a
    using that N dirs al [OF that] unfolding accepted_def valid_channel_def to_dir_def from_dir_def
    by (auto simp: tb_args_def)
  moreover have "user_buffers_disjoint t ?args"
    using board_channels [OF b] by (auto simp: user_buffers_disjoint_def tb_args_def dirs less_Suc_eq)
  moreover have "fits 16 ?args" using n tb_size(1) [OF n] by (simp add: fits_def tb_args_def)
  moreover have "distinct (map idx ?args)"
    by (simp add: tb_args_def PLIO_01_TO_AIE_def PLIO_03_TO_AIE_def PLIO_02_FROM_AIE_def)
  ultimately show "user_args_ok t ?args" by (auto simp: user_args_ok_def tb_args_def)
  have q: "(15 + 16384 * n) div 16 = 1024 * n" by simp
  have "dir_units (to_dir t) 16 ?args = 2048 * n" "dir_units (from_dir t) 16 ?args = 1024 * n"
    using N board_channels [OF b] tb_size(1) [OF n] q by (auto simp: dir_units_def units_def tb_args_def dirs)
  then show "fits_server N t ?args" using n board_channels [OF b] by (auto simp: fits_server_def server_bytes_def func_bytes_def)
qed

text \<open>What reaches the graph, and what it makes of it.\<close>

lemma tb_sent:
  assumes b: "(N, board) \<in> boards" and t: "tr_num_channels t = of_nat N" and n: "n \<le> 21845"
    and u: "user_sent N t (tb_args (tb_num_values n) r d pa pb ps) um out"
  shows "elements (out pl_in0) = vec_at um pa (tb_num_values n)" "elements (out pl_in1) = vec_at um pb (tb_num_values n)"
proof -
  note dirs = tb_dirs [OF b t]
  let ?sz = "unat (of_nat (tb_num_values n * 4) :: u64)"
  have N: "2 < N" using board_channels [OF b] by auto
  have "out (To 0) = map axi_word (words (mem_read um pa ?sz))" "out (To 2) = map axi_word (words (mem_read um pb ?sz))"
    using u N unfolding user_sent_def by (simp_all add: tb_args_def dirs to_chn_def del: of_nat_mult)
  moreover have "?sz = tb_num_values n * 4" using tb_size(1) [OF n] by (simp add: num_values)
  moreover have "16 dvd tb_num_values n * 4" by (simp add: num_values)
  ultimately show "elements (out pl_in0) = vec_at um pa (tb_num_values n)" "elements (out pl_in1) = vec_at um pb (tb_num_values n)"
    by (simp_all add: pl_in0_def pl_in1_def vec_at_def elements_of_words del: of_nat_mult)
qed

lemma length_vec_at [simp]: "length (vec_at um p n) = n"
  by (simp add: vec_at_def words_of_bytes_def)

lemma tb_answer:
  assumes b: "(N, board) \<in> boards" and t: "tr_num_channels t = of_nat N" and n: "n \<le> 21845"
    and u: "user_sent N t (tb_args (tb_num_values n) r d pa pb ps) um out"
    and g: "add_documented add" "runs_graph (test_graph add n) aie"
  shows "elements (aie out (From 1)) = map2 (+) (vec_at um pa (tb_num_values n)) (vec_at um pb (tb_num_values n))"
proof -
  let ?s = "\<lambda>p. elements (out p)"
  note e = tb_sent [OF b t n u]
  have "test_graph add n ?s = map2 (+) (?s pl_in0) (?s pl_in1)"
    by (rule test_graph_sums [OF g(1)]) (simp_all add: e num_values buffer_dim_def)
  then show ?thesis using g(2) unfolding runs_graph_def pl_out_def e by simp
qed

lemma tb_answers:
  assumes b: "(N, board) \<in> boards" and t: "tr_num_channels t = of_nat N" and n: "n \<le> 21845"
    and g: "add_documented add" "runs_graph (test_graph add n) aie"
  shows "design_answers N t (tb_args (tb_num_values n) r d pa pb ps) aie um"
proof -
  note dirs = tb_dirs [OF b t]
  have "unat (of_nat (tb_num_values n * 4) :: u64) div 16 \<le> length (aie out (From 1))"
    if "user_sent N t (tb_args (tb_num_values n) r d pa pb ps) um out" for out
  proof -
    have "length (aie out (From 1)) = 1024 * n"
      using arg_cong [where f = length, OF tb_answer [OF b t n that g]] by (simp add: num_values)
    then show ?thesis by (simp only: tb_size(2) [OF n] order_refl)
  qed
  then show ?thesis
    using board_channels [OF b] unfolding design_answers_def
    by (auto simp: tb_args_def dirs from_chn_def simp del: of_nat_mult)
qed

lemma tb_transferred:
  assumes b: "(N, board) \<in> boards" and t: "tr_num_channels t = of_nat N" and n: "n \<le> 21845"
    and g: "add_documented add" "runs_graph (test_graph add n) aie"
    and u: "user_transfer N t (tb_args (tb_num_values n) r d pa pb ps) aie um out um'"
  shows "vec_at um' ps (tb_num_values n) = map2 (+) (vec_at um pa (tb_num_values n)) (vec_at um pb (tb_num_values n))"
proof -
  note dirs = tb_dirs [OF b t]
  let ?sz = "unat (of_nat (tb_num_values n * 4) :: u64)" and ?ws = "aie out (From 1)"
  have s: "user_sent N t (tb_args (tb_num_values n) r d pa pb ps) um out" using u by (simp add: user_transfer_def)
  note a = tb_answer [OF b t n s g]
  have l: "length ?ws = 1024 * n" using arg_cong [where f = length, OF a] by (simp add: num_values)
  have "mem_read um' ps ?sz = bytes (map axi_data (take (?sz div 16) ?ws))"
    using u board_channels [OF b] unfolding user_transfer_def
    by (auto simp: tb_args_def dirs from_chn_def Let_def simp del: of_nat_mult)
  moreover have "take (?sz div 16) ?ws = ?ws" by (intro take_all) (simp only: l tb_size(2) [OF n] order_refl)
  moreover have "?sz = tb_num_values n * 4" using tb_size(1) [OF n] by (simp add: num_values)
  ultimately have "mem_read um' ps (tb_num_values n * 4) = bytes (map axi_data ?ws)" by (simp only:)
  then have "vec_at um' ps (tb_num_values n) = elements ?ws" by (simp only: vec_at_def elements_def ints_of_words)
  then show ?thesis unfolding a .
qed

lemma tb_untouched:
  assumes b: "(N, board) \<in> boards" and t: "tr_num_channels t = of_nat N" and n: "n \<le> 21845"
    and u: "user_transfer N t (tb_args (tb_num_values n) r d pa pb ps) aie um out um'"
    and p: "mem_disjoint p (tb_num_values n * 4) ps (tb_num_values n * 4)"
  shows "vec_at um' p (tb_num_values n) = vec_at um p (tb_num_values n)"
proof -
  note dirs = tb_dirs [OF b t]
  have sz: "unat (of_nat (tb_num_values n * 4) :: u64) = tb_num_values n * 4" using tb_size(1) [OF n] by (simp add: num_values)
  have "\<forall>a \<in> set (tb_args (tb_num_values n) r d pa pb ps). from_dir t (idx a) \<longrightarrow>
      mem_disjoint p (tb_num_values n * 4) (data a) (unat (size_in_byte a))"
    using p by (auto simp: tb_args_def dirs sz simp del: of_nat_mult)
  then have "mem_read um' p (tb_num_values n * 4) = mem_read um p (tb_num_values n * 4)"
    using u unfolding user_transfer_def by blast
  then show ?thesis by (simp add: vec_at_def)
qed

text \<open>Vectors in memory.\<close>

lemma vec_at_write:
  assumes "length xs = n" "n \<le> 2 ^ 60" shows "vec_at (mem_write um p (stream_words xs)) p n = xs"
proof -
  have "length (stream_words xs :: u8 list) = n * 4" using assms(1) by simp
  moreover from this have "length (stream_words xs :: u8 list) \<le> 2 ^ 64" using assms(2) by simp
  ultimately show ?thesis using mem_read_write_same [of "stream_words xs" um p] by (simp add: vec_at_def ints_of_bytes)
qed

lemma vec_at_other:
  "mem_disjoint p (n * 4) q (length (xs :: int32 list) * 4) \<Longrightarrow> vec_at (mem_write um q (stream_words xs)) p n = vec_at um p n"
  by (simp add: vec_at_def mem_read_write_other)

text \<open>One iteration of the example: a client connected for one graph, its vectors, and a design that runs the graph.\<close>

definition adder_client :: "int32 list \<Rightarrow> int32 list \<Rightarrow> client" where
  "adder_client va vb = set_up demo_params [ascii ''gr'']
     (new_client (ascii ''vck190'') (mem_write (mem_write demo_mem 0 (stream_words va)) 65536 (stream_words vb)))"

definition adder_design :: "(strm \<Rightarrow> 128 word ap_axiu list) \<Rightarrow> strm \<Rightarrow> 128 word ap_axiu list" where
  "adder_design out p = map axi_word (words (stream_words (test_graph (map2 (+)) 1 (\<lambda>p. elements (out p)))))"

lemma adder_client_ready:
  "remote_ready 36 (adder_client va vb) (made demo_params [False])" "cl_graph_started (adder_client va vb) = [False]"
  "sv_graph_started (made demo_params [False]) = [False]"
proof -
  have "matched (adder_client va vb) (made demo_params [False])" by (rule made_matched) (simp_all add: adder_client_def set_up_def)
  then show "remote_ready 36 (adder_client va vb) (made demo_params [False])"
    by (simp add: remote_ready_def adder_client_def set_up_def demo_params_def)
qed (simp_all add: adder_client_def set_up_def made_def)

lemma adder_vectors:
  assumes "length va = 4096" "length vb = 4096"
  shows "vec_at (cl_mem (adder_client va vb)) 0 4096 = va" "vec_at (cl_mem (adder_client va vb)) 65536 4096 = vb"
proof -
  have m: "cl_mem (adder_client va vb) = mem_write (mem_write demo_mem 0 (stream_words va)) 65536 (stream_words vb)"
    by (simp add: adder_client_def set_up_def new_client_def)
  have "mem_disjoint 0 (4096 * 4) 65536 (length vb * 4)" using assms by (intro mem_disjoint_apart) simp_all
  then have "vec_at (cl_mem (adder_client va vb)) 0 4096 = vec_at (mem_write demo_mem 0 (stream_words va)) 0 4096"
    unfolding m by (rule vec_at_other)
  then show "vec_at (cl_mem (adder_client va vb)) 0 4096 = va" using assms by (simp add: vec_at_write)
  show "vec_at (cl_mem (adder_client va vb)) 65536 4096 = vb" unfolding m using assms by (simp add: vec_at_write)
qed

lemma sums_documented: "add_documented (map2 (+))"
  by (simp add: add_documented_def)

lemma adder_design_runs: "runs_graph (test_graph (map2 (+)) 1) adder_design"
proof -
  have "16 dvd length (stream_words (test_graph (map2 (+)) 1 s) :: u8 list)" for s
  proof (cases "length (s pl_in0) div buffer_dim = 0 \<or> length (s pl_in1) div buffer_dim = 0")
    case False
    then have l: "length (buffer 0 (s pl_in0)) = 4096" "length (buffer 0 (s pl_in1)) = 4096"
      by (simp_all add: buffer_def buffer_dim_def div_eq_0_iff)
    have "min 1 (min (length (s pl_in0) div buffer_dim) (length (s pl_in1) div buffer_dim)) = 1" using False by simp
    then have "test_graph (map2 (+)) 1 s = aie_adder (map2 (+)) (buffer 0 (s pl_in0)) (buffer 0 (s pl_in1))"
      by (simp add: test_graph_def)
    then show ?thesis using l by (simp add: aie_adder_sums [OF sums_documented l])
  qed (auto simp: test_graph_def)
  then show ?thesis by (simp add: runs_graph_def adder_design_def elements_of_words ints_of_bytes)
qed

section \<open>The property\<close>

text \<open>C40: the adder example in functional mode, end to end. On every board, with a client and a session that are connected and
  have no other transaction, with the AI Engine running the graph of the example on the instruction \<open>aie::add\<close> as
  documented, for every number of iterations whose data fit into the memory of the server and every outcome of \<open>rand\<close>:
  the graph is started on both sides, the transaction is accepted, the kernel can finish, and whenever it has
  finished, the next round of the client's thread leaves the sums of \<open>a\<close> and \<open>b\<close> in \<open>s\<close> and both vectors
  as they were, the result is valid, and the program's comparison with the golden data counts no error. The
  program waits in \<open>waitForRes\<close>, whose use of a dangling reference after the thread has ended (C37) is left out here.\<close>

theorem adder_passes:
  assumes "(N, board) \<in> boards" and "remote_ready N c v" and "ss_mgr s = Some v"
    and "cl_graph_started c = [False]" and "sv_graph_started v = [False]"
    and "add_documented add" and "runs_graph (test_graph add num_iterations) aie" and "num_iterations \<le> 21845"
    and "tb_fill rand (tb_num_values num_iterations) = (va, vb, vs)"
    and "vec_at (cl_mem c) pa (tb_num_values num_iterations) = va" and "vec_at (cl_mem c) pb (tb_num_values num_iterations) = vb"
    and "mem_disjoint pa (tb_num_values num_iterations * 4) ps (tb_num_values num_iterations * 4)"
    and "mem_disjoint pb (tb_num_values num_iterations * 4) ps (tb_num_values num_iterations * 4)"
  defines "n \<equiv> tb_num_values num_iterations"
  shows "\<exists>cg sg c1 s1 v1 v2. calls P Y (cl_runAIEGraph 0 (of_nat num_iterations)) (c, s) () (cg, sg) \<and>
    calls P Y (cl_runTestHarness FUNC_MODE (tb_args n 1 num_delay pa pb ps) 0) (cg, sg) () (c1, s1) \<and>
    ss_mgr s1 = Some v1 \<and> pl_step Y v1 v2 \<and> (\<exists>X out. runtime_ran aie board X v2 out) \<and>
    (\<forall>X out. runtime_ran aie board X v2 out \<longrightarrow>
      (\<exists>v3 c2 s2. pl_step X v2 v3 \<and> calls P X (cl_thread_round (cl_next c)) (c1, s1\<lparr>ss_mgr := Some v3\<rparr>) () (c2, s2) \<and>
         cl_isResultValid (-1) c2 = (Inr True, c2) \<and>
         vec_at (cl_mem c2) pa n = va \<and> vec_at (cl_mem c2) pb n = vb \<and> vec_at (cl_mem c2) ps n = map2 (+) va vb \<and>
         tb_exit (tb_check True n (vec_at (cl_mem c2) pa n) (vec_at (cl_mem c2) pb n) (vec_at (cl_mem c2) ps n) 0) = EXIT_SUCCESS))"
proof -
  let ?args = "tb_args n 1 num_delay pa pb ps"
  let ?c = "c\<lparr>cl_graph_started := [True]\<rparr>" and ?v = "v\<lparr>sv_graph_started := [True]\<rparr>"
  let ?s = "s\<lparr>mActive := True, ss_mgr := Some ?v\<rparr>"
  let ?t = "cl_fresh FUNC_MODE 0 ?c"
  have g: "calls P Y (cl_runAIEGraph 0 (of_nat num_iterations)) (c, s) () (?c, ?s)" "remote_ready N ?c ?v"
    using remote_run_graph [OF assms(3) _ _ _ _ assms(2), of 0 P Y "of_nat num_iterations"] assms(4,5) by simp_all
  have t: "tr_num_channels ?t = of_nat N" "tr_word_size ?t = 16" using g(2) by (simp_all add: remote_ready_def)
  note ok = tb_args_ok [OF assms(1) t assms(8), of num_delay pa pb ps, folded n_def]
  have s: "ss_mgr ?s = Some ?v" "cl_next ?c = cl_next c" "cl_mem ?c = cl_mem c" by simp_all
  have a: "design_answers N ?t ?args aie (cl_mem c)"
    unfolding n_def by (rule tb_answers [OF assms(1) t(1) assms(8,6,7)])
  have e: "vec_at (cl_mem c2) pa n = va \<and> vec_at (cl_mem c2) pb n = vb \<and> vec_at (cl_mem c2) ps n = map2 (+) va vb \<and>
      tb_exit (tb_check True n (vec_at (cl_mem c2) pa n) (vec_at (cl_mem c2) pb n) (vec_at (cl_mem c2) ps n) 0) = EXIT_SUCCESS"
    if u: "user_transfer N ?t ?args aie (cl_mem c) out (cl_mem c2)" for out c2
    using tb_untouched [OF assms(1) t(1) assms(8) u [unfolded n_def] assms(12)] tb_untouched [OF assms(1) t(1) assms(8) u [unfolded n_def] assms(13)]
      tb_transferred [OF assms(1) t(1) assms(8,6,7) u [unfolded n_def]] tb_compare_sums [OF assms(9)]
    unfolding n_def assms(10,11) by (simp add: tb_exit_def tb_check_def)
  from remote_transaction [where P = P and Y = Y and aie = aie, OF assms(1) g(2) s(1) ok]
  obtain c1 s1 v1 v2 where r: "calls P Y (cl_runTestHarness FUNC_MODE ?args 0) (?c, ?s) () (c1, s1)" "ss_mgr s1 = Some v1" "pl_step Y v1 v2"
    and w: "\<And>X out. runtime_ran aie board X v2 out \<Longrightarrow> \<exists>v3 c2 s2 v4. pl_step X v2 v3 \<and>
         calls P X (cl_thread_round (cl_next c)) (c1, s1\<lparr>ss_mgr := Some v3\<rparr>) () (c2, s2) \<and>
         cl_threads c2 (cl_next c) = Some CL_Ended \<and> cl_isResultValid (-1) c2 = (Inr True, c2) \<and>
         ss_mgr s2 = Some v4 \<and> (cl_trans_id ?c + 1 \<noteq> 0 \<longrightarrow> remote_ready N c2 v4) \<and> cl_depth c2 = cl_depth ?c \<and>
         user_transfer N ?t ?args aie (cl_mem c) out (cl_mem c2)"
    and f: "design_answers N ?t ?args aie (cl_mem c) \<Longrightarrow> \<exists>X out. runtime_ran aie board X v2 out"
    unfolding s(2,3) by (elim exE conjE) blast
  have "\<exists>v3 c2 s2. pl_step X v2 v3 \<and> calls P X (cl_thread_round (cl_next c)) (c1, s1\<lparr>ss_mgr := Some v3\<rparr>) () (c2, s2) \<and>
         cl_isResultValid (-1) c2 = (Inr True, c2) \<and>
         vec_at (cl_mem c2) pa n = va \<and> vec_at (cl_mem c2) pb n = vb \<and> vec_at (cl_mem c2) ps n = map2 (+) va vb \<and>
         tb_exit (tb_check True n (vec_at (cl_mem c2) pa n) (vec_at (cl_mem c2) pb n) (vec_at (cl_mem c2) ps n) 0) = EXIT_SUCCESS"
    if "runtime_ran aie board X v2 out" for X out
    using w [OF that] e by (elim exE conjE) blast
  then show ?thesis using g(1) r f [OF a] by blast
qed

theorem adder_passes_witness:
  "\<exists>va vb vs c s Y X cg sg c1 s1 c2 s2. tb_fill (\<lambda>k. k) 4096 = (va, vb, vs) \<and>
     calls demo_params Y (cl_runAIEGraph 0 1) (c, s) () (cg, sg) \<and>
     calls demo_params Y (cl_runTestHarness FUNC_MODE (tb_args 4096 1 0 0 65536 131072) 0) (cg, sg) () (c1, s1) \<and>
     (\<exists>s3. calls demo_params X (cl_thread_round (cl_next c)) (c1, s3) () (c2, s2)) \<and>
     vec_at (cl_mem c2) 131072 4096 = map2 (+) va vb"
proof -
  obtain va vb vs where f: "tb_fill (\<lambda>k. k) (tb_num_values 1) = (va, vb, vs)" by (metis surj_pair)
  have n: "tb_num_values 1 = 4096" by (simp add: num_values)
  have l: "length va = 4096" "length vb = 4096" using tb_fill_shape [OF f] n by simp_all
  let ?c = "adder_client va vb" and ?v = "made demo_params [False]"
  let ?s = "new_session 60\<lparr>ss_mgr := Some ?v\<rparr>" and ?Y = "last_result ?v [] []"
  have b: "(36, vck190_test_harness) \<in> boards" by (simp add: boards_def)
  have s: "ss_mgr ?s = Some ?v" by simp
  have i: "(1 :: nat) \<le> 21845" by simp
  have d: "mem_disjoint 0 (tb_num_values 1 * 4) 131072 (tb_num_values 1 * 4)" "mem_disjoint 65536 (tb_num_values 1 * 4) 131072 (tb_num_values 1 * 4)"
    unfolding n by (rule mem_disjoint_apart; simp)+
  note w = adder_passes [where Y = ?Y and P = demo_params and num_delay = 0, OF b adder_client_ready(1) s adder_client_ready(2,3)
      sums_documented adder_design_runs i f adder_vectors [OF l, folded n] d, unfolded n of_nat_1]
  from w obtain cg sg c1 s1 v2 where c: "calls demo_params ?Y (cl_runAIEGraph 0 1) (?c, ?s) () (cg, sg)"
      "calls demo_params ?Y (cl_runTestHarness FUNC_MODE (tb_args 4096 1 0 0 65536 131072) 0) (cg, sg) () (c1, s1)"
    and r: "\<exists>X out. runtime_ran adder_design vck190_test_harness X v2 out"
    and e: "\<And>X out. runtime_ran adder_design vck190_test_harness X v2 out \<Longrightarrow>
      \<exists>v3 c2 s2. pl_step X v2 v3 \<and> calls demo_params X (cl_thread_round (cl_next ?c)) (c1, s1\<lparr>ss_mgr := Some v3\<rparr>) () (c2, s2) \<and>
         cl_isResultValid (-1) c2 = (Inr True, c2) \<and>
         vec_at (cl_mem c2) 0 4096 = va \<and> vec_at (cl_mem c2) 65536 4096 = vb \<and> vec_at (cl_mem c2) 131072 4096 = map2 (+) va vb \<and>
         tb_exit (tb_check True 4096 (vec_at (cl_mem c2) 0 4096) (vec_at (cl_mem c2) 65536 4096) (vec_at (cl_mem c2) 131072 4096) 0) = EXIT_SUCCESS"
    by (elim exE conjE) blast
  from r obtain X out where X: "runtime_ran adder_design vck190_test_harness X v2 out" by blast
  from e [OF X] obtain v3 c2 s2 where "calls demo_params X (cl_thread_round (cl_next ?c)) (c1, s1\<lparr>ss_mgr := Some v3\<rparr>) () (c2, s2)"
      "vec_at (cl_mem c2) 131072 4096 = map2 (+) va vb" by (elim exE conjE)
  with c f [unfolded n] show ?thesis by blast
qed

end
