(* ===== verification/Packed_Performance.thy ===== *)
theory Packed_Performance
  imports Packed_Kernel Board_Claims Transaction_Claims
begin

text \<open>
  A packed performance transaction is a legal input of the kernel: the slots of the transaction are the regions of the
  kernel's buffers. What the kernel sends and stores, in terms of the user's buffers.
\<close>

section \<open>Arguments\<close>

text \<open>The kernel keeps the number of frames and of repetitions in 32 bits; a channel that stores with no repetition would
  store what the buffer held before.\<close>

definition perf_args_ok :: "transaction \<Rightarrow> test_harness_args list \<Rightarrow> bool" where
  "perf_args_ok t args \<longleftrightarrow>
     (\<forall>a \<in> set args. accepted t a \<and> unat (repetition a) < 2 ^ 32 \<and> unat (size_in_byte a) < 2 ^ 36 \<and>
        (from_dir t (idx a) \<longrightarrow> repetition a \<noteq> 0)) \<and>
     distinct (map idx args) \<and> user_buffers_disjoint t args"

definition perf_trans :: "nat \<Rightarrow> nat \<Rightarrow> transaction \<Rightarrow> test_harness_args list \<Rightarrow> bool" where
  "perf_trans D N t args \<longleftrightarrow> 0 < N \<and> N \<le> 36 \<and> 0 < D \<and> D \<le> 2 ^ 13 \<and> tr_mode t = PERF_MODE \<and>
     unat (tr_num_channels t) = N \<and> unat (tr_depth t) = D \<and> tr_word_size t = 16 \<and> mMemWidth t = 16 \<and> perf_args_ok t args"

text \<open>The frames of an argument, and what the words of a channel are: the buffer's words around, each round marked.\<close>

definition frames :: "test_harness_args \<Rightarrow> nat" where
  "frames a = unat (size_in_byte a) div 16"

definition perf_words :: "nat \<Rightarrow> transaction \<Rightarrow> umem \<Rightarrow> test_harness_args \<Rightarrow> 128 word list" where
  "perf_words D t um a = concat (replicate (unat (repetition a))
     (perf_frames D (words (mem_read um (data a) (kept_bytes t a))) (frames a)))"

text \<open>The last repetition of what comes back, in a buffer of \<open>D\<close> words.\<close>

definition perf_kept :: "nat \<Rightarrow> test_harness_args \<Rightarrow> 128 word list \<Rightarrow> 128 word list" where
  "perf_kept D a vs = ring_content D (take (frames a) (drop ((unat (repetition a) - 1) * frames a) vs))"

lemma perf_trans_config:
  assumes "perf_trans D N t args"
  shows "perf_config_ok t" "slot_bytes t = 16 * D" "slot_words t = D"
proof -
  have w: "unat (tr_word_size t) = 16" "unat (mMemWidth t) = 16" using assms by (simp_all add: perf_trans_def)
  show s: "slot_bytes t = 16 * D" using assms w by (simp add: slot_bytes_def perf_trans_def)
  then show "slot_words t = D" using w by (simp add: slot_words_def)
  have "(N + 1) * (16 * D) \<le> 37 * (16 * 2 ^ 13)" using assms by (intro mult_le_mono) (simp_all add: perf_trans_def)
  also have "\<dots> < 2 ^ 32" by simp
  finally show "perf_config_ok t" using assms w s by (auto simp: perf_config_ok_def config_ok_def perf_trans_def)
qed

lemma frames_size: "accepted t a \<Longrightarrow> tr_word_size t = 16 \<Longrightarrow> unat (size_in_byte a) = 16 * frames a"
  using units_16 [of a] by (simp add: frames_def accepted_def aligned_def)

lemma kept_frames:
  "perf_trans D N t args \<Longrightarrow> a \<in> set args \<Longrightarrow> kept_bytes t a = 16 * min (frames a) D"
  using frames_size [of t a] perf_trans_config(2) [of D N t args]
  by (simp add: kept_bytes_def perf_trans_def perf_args_ok_def nat_mult_min_right)

section \<open>The configuration words\<close>

definition perf_rows ::
  "(channel_index \<Rightarrow> bool) \<Rightarrow> (test_harness_args \<Rightarrow> nat) \<Rightarrow> nat \<Rightarrow> nat \<Rightarrow> u64 list \<Rightarrow> nat \<Rightarrow> test_harness_args list \<Rightarrow> bool" where
  "perf_rows p chn D N cfg b args \<longleftrightarrow>
     (\<forall>a \<in> set args. p (idx a) \<longrightarrow> chn a < N \<and> cfg_frames N cfg b (chn a) = frames a \<and>
        cfg_reps N cfg b (chn a) = unat (repetition a) \<and> cfg_offset N cfg b (chn a) = D * chn a) \<and>
     (\<forall>c < N. (\<forall>a \<in> set args. p (idx a) \<longrightarrow> chn a \<noteq> c) \<longrightarrow>
        cfg_frames N cfg b c = 0 \<and> cfg_reps N cfg b c = 0 \<and> cfg_offset N cfg b c = 0)"

lemma perf_rows_named:
  assumes "perf_rows p chn D N cfg b args" "c < N"
  obtains "cfg_frames N cfg b c = 0" "cfg_offset N cfg b c = 0" "cfg_reps N cfg b c = 0" "\<forall>a \<in> set args. p (idx a) \<longrightarrow> chn a \<noteq> c"
  | a where "a \<in> set args" "p (idx a)" "chn a = c"
    "cfg_frames N cfg b c = frames a" "cfg_reps N cfg b c = unat (repetition a)" "cfg_offset N cfg b c = D * c"
proof (cases "\<forall>a \<in> set args. p (idx a) \<longrightarrow> chn a \<noteq> c")
  case True
  then have "cfg_frames N cfg b c = 0 \<and> cfg_reps N cfg b c = 0 \<and> cfg_offset N cfg b c = 0"
    using assms unfolding perf_rows_def by simp
  with True show ?thesis by (intro that(1)) simp_all
next
  case False
  then obtain a where a: "a \<in> set args" "p (idx a)" "chn a = c" by blast
  then show ?thesis using assms(1) unfolding perf_rows_def by (intro that(2)) auto
qed

lemma configured_perf_rows:
  assumes w: "tr_word_size u = 16" and nc: "unat (tr_num_channels u) = N" "N \<le> 36" and D: "D \<le> 2 ^ 13"
    and small: "\<And>a. a \<in> set args \<Longrightarrow> unat (repetition a) < 2 ^ 32 \<and> unat (size_in_byte a) < 2 ^ 36"
    and less: "\<And>a. a \<in> set args \<Longrightarrow> p (idx a) \<Longrightarrow> chn a < N"
    and conf: "\<And>a. a \<in> set args \<Longrightarrow> p (idx a) \<Longrightarrow> configured u b (chn a) a (D * chn a)"
    and un: "\<And>c. c < N \<Longrightarrow> (\<forall>a \<in> set args. p (idx a) \<longrightarrow> chn a \<noteq> c) \<Longrightarrow> \<forall>r < 4. cfg_at N (cfg_ptr u) (b + r) c = 0"
  shows "perf_rows p chn D N (cfg_ptr u) b args"
  unfolding perf_rows_def
proof (intro conjI ballI allI impI)
  fix a assume a: "a \<in> set args" "p (idx a)"
  show "chn a < N" by (rule less [OF a])
  have c: "cfg_at N (cfg_ptr u) (b + 1) (chn a) = size_in_byte a div 16" "cfg_at N (cfg_ptr u) (b + 2) (chn a) = repetition a"
    "cfg_at N (cfg_ptr u) (b + 3) (chn a) = of_nat (D * chn a)"
    using conf [OF a] by (simp_all add: configured_def nc w Let_def)
  have "unat (size_in_byte a div 16) = frames a" by (simp add: unat_div frames_def)
  moreover have "frames a < 2 ^ 32" using small [OF a(1)] less_mult_imp_div_less [of "unat (size_in_byte a)" "2 ^ 32" 16] by (simp add: frames_def)
  ultimately show "cfg_frames N (cfg_ptr u) b (chn a) = frames a"
    using c(1) by (simp add: cfg_frames_def cfg_at_def unsigned_ucast_eq take_bit_nat_eq_self)
  show "cfg_reps N (cfg_ptr u) b (chn a) = unat (repetition a)"
    using c(2) small [OF a(1)] by (simp add: cfg_reps_def cfg_at_def unsigned_ucast_eq take_bit_nat_eq_self)
  have "D * chn a \<le> 2 ^ 13 * 36" using D nc(2) less [OF a] by (intro mult_le_mono) simp_all
  then have d: "D * chn a < 2 ^ 32" by simp
  then have "unat (of_nat (D * chn a) :: u64) = D * chn a" by (intro unat_of_nat_small) simp
  then show "cfg_offset N (cfg_ptr u) b (chn a) = D * chn a"
    using c(3) d by (simp add: cfg_offset_def cfg_at_def unsigned_ucast_eq take_bit_nat_eq_self del: of_nat_mult)
next
  fix c assume "c < N" "\<forall>a \<in> set args. p (idx a) \<longrightarrow> chn a \<noteq> c"
  then have "\<forall>r < 4. cfg_at N (cfg_ptr u) (b + r) c = 0" by (rule un)
  from spec [OF this, of 1] spec [OF this, of 2] spec [OF this, of 3]
  show "cfg_frames N (cfg_ptr u) b c = 0" "cfg_reps N (cfg_ptr u) b c = 0" "cfg_offset N (cfg_ptr u) b c = 0"
    by (simp_all add: cfg_frames_def cfg_reps_def cfg_offset_def cfg_at_def)
qed

lemma perf_packed_rows:
  assumes t: "perf_trans D N t args" and rd: "inputs_ready t args u" and lay: "perf_layout um u args"
  shows "perf_rows (to_dir t) to_chn D N (cfg_ptr u) 0 args" "perf_rows (from_dir t) from_chn D N (cfg_ptr u) 4 args"
proof -
  have p: "tr_num_channels u = tr_num_channels t" "tr_word_size u = 16" "mMemWidth u = 16" "unat (tr_num_channels u) = N"
    using rd t by (simp_all add: inputs_ready_def perf_trans_def)
  have d: "from_dir u = from_dir t" "to_dir u = to_dir t" by (simp_all add: from_dir_def to_dir_def p)
  have sw: "slot_words u = D"
    using perf_trans_config(3) [OF t] rd by (simp add: slot_words_def slot_bytes_def inputs_ready_def)
  have nc: "N \<le> 36" "D \<le> 2 ^ 13" and dist: "distinct (map idx args)"
    and small: "\<And>a. a \<in> set args \<Longrightarrow> unat (repetition a) < 2 ^ 32 \<and> unat (size_in_byte a) < 2 ^ 36"
    using t by (auto simp: perf_trans_def perf_args_ok_def)
  have un: "unused_zero u args" using lay by (simp add: perf_layout_def)
  have conf: "to_dir t (idx a) \<Longrightarrow> configured u 0 (to_chn a) a (D * to_chn a)"
    "from_dir t (idx a) \<Longrightarrow> configured u 4 (from_chn a) a (D * from_chn a)" if "a \<in> set args" for a
    using lay dist that by (simp_all add: perf_layout_def d sw)
  show "perf_rows (to_dir t) to_chn D N (cfg_ptr u) 0 args"
    by (rule configured_perf_rows [OF p(2,4) nc small])
      (use conf un t in \<open>auto simp: p to_dir_def perf_trans_def unused_zero_def Let_def intro: to_chn_less\<close>)
  show "perf_rows (from_dir t) from_chn D N (cfg_ptr u) 4 args"
    by (rule configured_perf_rows [OF p(2,4) nc small])
      (use conf un nc t in \<open>auto simp: p from_dir_def perf_trans_def unused_zero_def Let_def intro: from_chn_less\<close>)
qed

section \<open>The kernel on a packed transaction\<close>

lemma perf_rows_fit:
  assumes r: "perf_rows p chn D N cfg b args" and len: "length mem = N * D" and N: "N \<le> 36" "D \<le> 2 ^ 13"
  shows "buffers_fit 1 D N cfg b mem"
  unfolding buffers_fit_def
proof (intro conjI allI impI)
  have "N * D \<le> 36 * 2 ^ 13" using N by (intro mult_le_mono) simp_all
  then show "length mem \<le> 2 ^ 32" using len by simp
  fix c assume c: "c < N"
  show "cfg_offset N cfg b c + mem_frames 1 (held_cfg D N cfg b c) \<le> length mem"
  proof (cases rule: perf_rows_named [OF r c, case_names unused used])
    case (used a)
    have "D * c + D = D * Suc c" by simp
    also have "\<dots> \<le> D * N" using c by (intro mult_le_mono2) simp
    finally show ?thesis using used len by (simp add: held_cfg_def mem_frames_def mult.commute)
  qed (simp add: held_cfg_def mem_frames_def)
qed

lemma slots_disjoint:
  assumes "x \<noteq> y" "(D :: nat) * x \<le> a" "a < D * x + D" "D * y \<le> a" shows "\<not> a < D * y + D"
proof -
  have "D * x + D \<le> D * y \<or> D * y + D \<le> D * x"
    using assms(1) mult_le_mono2 [of "Suc x" y D] mult_le_mono2 [of "Suc y" x D] by (auto simp: neq_iff)
  with assms(2-4) show ?thesis by linarith
qed

lemma perf_rows_disjoint:
  assumes "perf_rows p chn D N cfg b args" shows "buffers_disjoint 1 D N cfg b"
  unfolding buffers_disjoint_def
proof (intro allI impI)
  fix x y a assume xy: "x < N" "y < N" "x \<noteq> y" and x: "within (cfg_offset N cfg b x) (mem_frames 1 (held_cfg D N cfg b x)) a"
  show "\<not> within (cfg_offset N cfg b y) (mem_frames 1 (held_cfg D N cfg b y)) a"
  proof (cases rule: perf_rows_named [OF assms xy(1), case_names unused used])
    case ux: (used ax)
    show ?thesis
    proof (cases rule: perf_rows_named [OF assms xy(2), case_names unused used])
      case uy: (used ay)
      have "D * x \<le> a" "a < D * x + min (frames ax) D" using x by (simp_all add: within_def held_cfg_def mem_frames_def ux)
      then have "a < D * x + D" "D * x \<le> a" by linarith+
      then have "\<not> (D * y \<le> a \<and> a < D * y + min (frames ay) D)" using slots_disjoint [OF xy(3), of D a] by linarith
      then show ?thesis by (simp add: within_def held_cfg_def mem_frames_def uy)
    qed (simp add: within_def held_cfg_def mem_frames_def)
  qed (use x in \<open>simp add: within_def held_cfg_def mem_frames_def\<close>)
qed

lemma perf_kernel_ready:
  assumes t: "perf_trans D N t args" and rd: "inputs_ready t args u" and lay: "perf_layout um u args"
    and len: "length (to_aie_ptr u) = N * slot_bytes t" "length (from_aie_ptr u) = N * slot_bytes t"
  shows "Kernel_Perf.perf_ready 1 D N (cfg_ptr u) (perf_ptr u) (words (to_aie_ptr u)) (words (from_aie_ptr u))"
proof -
  note r = perf_packed_rows [OF t rd lay]
  have N: "0 < N" "N \<le> 36" "0 < D" "D \<le> 2 ^ 13" "tr_mode t = PERF_MODE" "unat (tr_num_channels t) = N"
    using t by (simp_all add: perf_trans_def)
  have l: "length (words (to_aie_ptr u)) = N * D" "length (words (from_aie_ptr u)) = N * D"
    using len by (simp_all add: perf_trans_config(2) [OF t])
  have "cfg_ptr u ! 0 \<noteq> 0" using rd N by (simp add: inputs_ready_def PERF_MODE_def)
  moreover have "harness_ready N (cfg_ptr u) (perf_ptr u)" using rd N by (simp add: harness_ready_def inputs_ready_def)
  moreover have "0 < cfg_reps N (cfg_ptr u) 4 c" if c: "c < N" "0 < cfg_frames N (cfg_ptr u) 4 c" for c
  proof (cases rule: perf_rows_named [OF r(2) c(1), case_names unused used])
    case (used a)
    then have "repetition a \<noteq> 0" using t by (simp add: perf_trans_def perf_args_ok_def)
    then show ?thesis by (simp add: used unat_gt_0)
  qed (use c in simp)
  ultimately show ?thesis
    using N perf_rows_fit [OF r(1) l(1) N(2,4)] perf_rows_fit [OF r(2) l(2) N(2,4)] perf_rows_disjoint [OF r(2)]
    by (simp add: Kernel_Perf.perf_ready_def)
qed

text \<open>The buffer of a channel to the AI Engine holds the user's data, as much of it as there is room for.\<close>

lemma perf_sent_user:
  assumes t: "perf_trans D N t args" and rd: "inputs_ready t args u" and lay: "perf_layout um u args"
    and len: "length (to_aie_ptr u) = N * slot_bytes t" and a: "a \<in> set args" "to_dir t (idx a)"
  shows "perf_sent D N (cfg_ptr u) (words (to_aie_ptr u)) (to_chn a) = perf_words D t um a"
proof -
  have c: "cfg_frames N (cfg_ptr u) 0 (to_chn a) = frames a" "cfg_reps N (cfg_ptr u) 0 (to_chn a) = unat (repetition a)"
    "cfg_offset N (cfg_ptr u) 0 (to_chn a) = D * to_chn a"
    using perf_packed_rows(1) [OF t rd lay] a by (simp_all add: perf_rows_def)
  have k: "kept_bytes t a = 16 * min (frames a) D" by (rule kept_frames [OF t a(1)])
  have e: "to_dir u = to_dir t" "slot_bytes u = slot_bytes t" "kept_bytes u a = kept_bytes t a"
    using rd by (simp_all add: to_dir_def slot_bytes_def kept_bytes_def inputs_ready_def)
  have "distinct (map idx args)" using t by (simp add: perf_trans_def perf_args_ok_def)
  then have "perf_data_at um u a" using lay a by (simp add: perf_layout_def e)
  then have "mem_read um (data a) (kept_bytes t a) = take (16 * min (frames a) D) (drop (16 * (D * to_chn a)) (to_aie_ptr u))"
    by (simp add: perf_data_at_def e k perf_trans_config(2) [OF t] vec_slice_def mult_ac split: if_splits)
  moreover have "16 dvd length (to_aie_ptr u)" using len by (simp add: perf_trans_config(2) [OF t])
  ultimately have "words (mem_read um (data a) (kept_bytes t a)) = take (min (frames a) D) (drop (D * to_chn a) (words (to_aie_ptr u)))"
    by (simp add: words_slice)
  then show ?thesis by (simp add: perf_sent_def perf_words_def held_cfg_def c stream_words_whole)
qed

section \<open>The kernels of the boards\<close>

definition perf_board_done ::
  "nat \<Rightarrow> nat \<Rightarrow> u64 list \<Rightarrow> 128 word list \<Rightarrow> ((strm \<Rightarrow> 128 word ap_axiu list) \<Rightarrow> strm \<Rightarrow> 128 word ap_axiu list) \<Rightarrow>
    (strm \<Rightarrow> 128 word ap_axiu list) \<Rightarrow> 128 word list \<Rightarrow> bool" where
  "perf_board_done D N cfg to_mem aie out mem' \<longleftrightarrow> (\<forall>ch < N.
     out (To ch) = map axi_word (perf_sent D N cfg to_mem ch) \<and>
     cfg_reps N cfg 4 ch * cfg_frames N cfg 4 ch \<le> length (aie out (From ch)) \<and>
     take (held_cfg D N cfg 4 ch) (drop (cfg_offset N cfg 4 ch) mem') =
       ring_content D (last_frames N cfg ch (map axi_data (aie out (From ch)))))"

lemma perf_stored_whole:
  assumes "cfg_reps N cfg 4 ch * cfg_frames N cfg 4 ch \<le> length xs" "0 < cfg_frames N cfg 4 ch \<longrightarrow> 0 < cfg_reps N cfg 4 ch"
  shows "(perf_stored D N cfg ch xs :: 128 word list) = ring_content D (last_frames N cfg ch (map axi_data xs))"
proof -
  let ?f = "cfg_frames N cfg 4 ch" and ?r = "cfg_reps N cfg 4 ch"
  have "length (last_frames N cfg ch (map axi_data xs)) = ?f"
  proof (cases "?f = 0")
    case False
    then have "?r * ?f = ?f + (?r - 1) * ?f" using assms(2) by (simp add: mult_eq_if)
    then show ?thesis using assms(1) by (simp add: last_frames_def)
  qed (simp add: last_frames_def)
  then have "length (ring_content D (last_frames N cfg ch (map axi_data xs))) = held_cfg D N cfg 4 ch"
    by (simp add: ring_content_def held_cfg_def)
  then show ?thesis
    unfolding perf_stored_def demo_ratio mem_frames_whole by (subst packed_whole) simp_all
qed

lemma board_kernel_perf:
  fixes aie :: "(strm \<Rightarrow> 128 word ap_axiu list) \<Rightarrow> strm \<Rightarrow> 128 word ap_axiu list" and to_mem :: "128 word list"
  assumes w: "wired ks N" and rdy: "Kernel_Perf.perf_ready 1 D N cfg perf to_mem from_mem"
    and run: "board_kernel ks N D aie cfg perf to_mem from_mem out perf' mem'"
  shows "perf_board_done D N cfg to_mem aie out mem'" "length mem' = length from_mem"
proof -
  obtain sent where k: "kernel N D (\<lambda>sent ch. aie (port_words ks N sent) (the (store_port ks ch)))
      cfg perf to_mem from_mem sent perf' mem'" and out: "out = port_words ks N sent"
    using run unfolding board_kernel_def by blast
  have r: "Kernel_Perf.perf_ready (MEM_RATIO TYPE(128) TYPE(128)) D N cfg perf to_mem from_mem" using rdy unfolding demo_ratio .
  note K = kernel_perf_run [OF k r]
  show "length mem' = length from_mem" using K(3) by (simp add: perf_done_def Let_def)
  show "perf_board_done D N cfg to_mem aie out mem'"
    unfolding perf_board_done_def
  proof (intro allI impI conjI)
    fix ch assume ch: "ch < N"
    have a: "aie (port_words ks N sent) (the (store_port ks ch)) = aie out (From ch)"
      using wired_ports(2) [OF w ch] by (simp add: out)
    show "out (To ch) = map axi_word (perf_sent D N cfg to_mem ch)"
      using K(1) [OF ch] by (simp add: out port_words_wired [OF w ch])
    show l: "cfg_reps N cfg 4 ch * cfg_frames N cfg 4 ch \<le> length (aie out (From ch))" using K(2) [OF ch] unfolding a .
    have f: "0 < cfg_frames N cfg 4 ch \<longrightarrow> 0 < cfg_reps N cfg 4 ch" using rdy ch by (simp add: Kernel_Perf.perf_ready_def)
    have "take (held_cfg D N cfg 4 ch) (drop (cfg_offset N cfg 4 ch) mem') =
        perf_stored D N cfg ch (aie (port_words ks N sent) (the (store_port ks ch)))"
      using K(3) ch unfolding perf_done_def demo_ratio mem_frames_whole Let_def by blast
    then show "take (held_cfg D N cfg 4 ch) (drop (cfg_offset N cfg 4 ch) mem') =
        ring_content D (last_frames N cfg ch (map axi_data (aie out (From ch))))"
      unfolding a perf_stored_whole [OF l f] .
  qed
qed

lemma board_perf_exists:
  fixes aie :: "(strm \<Rightarrow> 128 word ap_axiu list) \<Rightarrow> strm \<Rightarrow> 128 word ap_axiu list" and to_mem :: "128 word list"
  assumes w: "wired ks N" and rdy: "Kernel_Perf.perf_ready 1 D N cfg perf to_mem from_mem"
    and ans: "\<And>out ch. \<forall>ch < N. out (To ch) = map axi_word (perf_sent D N cfg to_mem ch) \<Longrightarrow> ch < N \<Longrightarrow>
      cfg_reps N cfg 4 ch * cfg_frames N cfg 4 ch \<le> length (aie out (From ch))"
  shows "\<exists>out perf' mem'. board_kernel ks N D aie cfg perf to_mem from_mem out perf' mem'"
proof -
  have r: "Kernel_Perf.perf_ready (MEM_RATIO TYPE(128) TYPE(128)) D N cfg perf to_mem from_mem" using rdy unfolding demo_ratio .
  have "\<exists>sent perf' mem'. kernel N D (\<lambda>sent ch. aie (port_words ks N sent) (the (store_port ks ch)))
      cfg perf to_mem from_mem sent perf' mem'"
    using r
  proof (rule kernel_perf_exists)
    fix sent :: "nat \<Rightarrow> 128 word ap_axiu list" and ch
    assume s: "\<forall>ch < N. sent ch = map axi_word (perf_sent D N cfg to_mem ch)" and ch: "ch < N"
    then have "\<forall>ch < N. port_words ks N sent (To ch) = map axi_word (perf_sent D N cfg to_mem ch)"
      by (simp add: port_words_wired [OF w])
    from ans [OF this ch] show "cfg_reps N cfg 4 ch * cfg_frames N cfg 4 ch \<le> length (aie (port_words ks N sent) (the (store_port ks ch)))"
      using wired_ports(2) [OF w ch] by simp
  qed
  then show ?thesis unfolding board_kernel_def using wired_streams [OF w] by blast
qed

end
