(* ===== verification/Performance_Claims.thy ===== *)
theory Performance_Claims
  imports Packed_Performance Remote_Claims
begin

text \<open>
  A performance transaction from the user's buffers through the buffers of the kernel and the design, back into the
  user's buffers, on the board and over the connection.
\<close>

section \<open>The user's side\<close>

text \<open>The words on the ports are the user's data, repeated from the buffers of the kernel; what comes back is the
  last repetition, as much of it as a buffer holds.\<close>

definition perf_user_sent ::
  "nat \<Rightarrow> nat \<Rightarrow> transaction \<Rightarrow> test_harness_args list \<Rightarrow> umem \<Rightarrow> (strm \<Rightarrow> 128 word ap_axiu list) \<Rightarrow> bool" where
  "perf_user_sent D N t args um out \<longleftrightarrow>
     (\<forall>a \<in> set args. to_dir t (idx a) \<longrightarrow> out (To (to_chn a)) = map axi_word (perf_words D t um a)) \<and>
     (\<forall>c < N. (\<forall>a \<in> set args. to_dir t (idx a) \<longrightarrow> to_chn a \<noteq> c) \<longrightarrow> out (To c) = [])"

definition perf_answers ::
  "nat \<Rightarrow> nat \<Rightarrow> transaction \<Rightarrow> test_harness_args list \<Rightarrow>
    ((strm \<Rightarrow> 128 word ap_axiu list) \<Rightarrow> strm \<Rightarrow> 128 word ap_axiu list) \<Rightarrow> umem \<Rightarrow> bool" where
  "perf_answers D N t args aie um \<longleftrightarrow> (\<forall>out. perf_user_sent D N t args um out \<longrightarrow>
     (\<forall>a \<in> set args. from_dir t (idx a) \<longrightarrow>
        unat (repetition a) * frames a \<le> length (aie out (From (from_chn a)))))"

definition perf_transfer ::
  "nat \<Rightarrow> nat \<Rightarrow> transaction \<Rightarrow> test_harness_args list \<Rightarrow>
    ((strm \<Rightarrow> 128 word ap_axiu list) \<Rightarrow> strm \<Rightarrow> 128 word ap_axiu list) \<Rightarrow>
    umem \<Rightarrow> (strm \<Rightarrow> 128 word ap_axiu list) \<Rightarrow> umem \<Rightarrow> bool" where
  "perf_transfer D N t args aie um out um' \<longleftrightarrow>
     perf_user_sent D N t args um out \<and>
     (\<forall>a \<in> set args. from_dir t (idx a) \<longrightarrow>
        (let xs = aie out (From (from_chn a)) in
         unat (repetition a) * frames a \<le> length xs \<and>
         mem_read um' (data a) (kept_bytes t a) = bytes (perf_kept D a (map axi_data xs)))) \<and>
     (\<forall>p k. (\<forall>a \<in> set args. from_dir t (idx a) \<longrightarrow> mem_disjoint p k (data a) (kept_bytes t a)) \<longrightarrow>
        mem_read um' p k = mem_read um p k)"

text \<open>The result is valid unless a buffer was too small for the data of its channel.\<close>

definition perf_valid :: "transaction \<Rightarrow> test_harness_args list \<Rightarrow> bool" where
  "perf_valid t args \<longleftrightarrow> (\<forall>a \<in> set args. to_dir t (idx a) \<longrightarrow> unat (size_in_byte a) \<le> slot_bytes t)"

section \<open>Packing\<close>

definition perf_packed :: "nat \<Rightarrow> nat \<Rightarrow> transaction \<Rightarrow> test_harness_args list \<Rightarrow> umem \<Rightarrow> transaction \<Rightarrow> bool" where
  "perf_packed D N t args um u \<longleftrightarrow> perf_trans D N t args \<and> inputs_ready t args u \<and> perf_layout um u args \<and>
     length (to_aie_ptr u) = N * slot_bytes t \<and> length (from_aie_ptr u) = N * slot_bytes t"

lemma perf_trans_facts:
  assumes "perf_trans D N t args"
  shows "perf_config_ok t" "tr_mode t = PERF_MODE" "unat (tr_num_channels t) = N" "\<forall>a \<in> set args. accepted t a"
    "distinct (map idx args)" "user_buffers_disjoint t args"
  using assms perf_trans_config(1) [OF assms] by (simp_all add: perf_trans_def perf_args_ok_def)

lemma perf_packs:
  assumes "perf_trans D N t args" shows "\<exists>u. handleInputs um args t = (Inr (), u) \<and> perf_packed D N t args um u"
  using handleInputs_perf_run [OF perf_trans_facts(1,2,4) [OF assms], of um] assms perf_trans_facts(3) [OF assms]
  by (auto simp: perf_packed_def)

lemma perf_packed_here:
  assumes "perf_trans D N t args" "handleInputs um args t = (Inr (), u)" shows "perf_packed D N t args um u"
  using perf_packs [OF assms(1), of um] assms(2) by auto

lemma perf_packed_ready:
  assumes "perf_packed D N t args um u"
  shows "Kernel_Perf.perf_ready 1 D N (cfg_ptr u) (perf_ptr u) (words (to_aie_ptr u)) (words (from_aie_ptr u))"
  using assms by (intro perf_kernel_ready [of D N t args u um]) (simp_all add: perf_packed_def)

text \<open>The regions of a packed transaction on the ports are the user's data.\<close>

lemma perf_packed_sent:
  assumes p: "perf_packed D N t args um u"
    and out: "\<forall>ch < N. out (To ch) = map axi_word (perf_sent D N (cfg_ptr u) (words (to_aie_ptr u)) ch)"
  shows "perf_user_sent D N t args um out"
  unfolding perf_user_sent_def
proof (intro conjI ballI allI impI)
  have q: "perf_trans D N t args" "inputs_ready t args u" "perf_layout um u args" "length (to_aie_ptr u) = N * slot_bytes t"
    using p by (simp_all add: perf_packed_def)
  note r = perf_packed_rows(1) [OF q(1-3)]
  show "out (To (to_chn a)) = map axi_word (perf_words D t um a)" if a: "a \<in> set args" "to_dir t (idx a)" for a
  proof -
    have "to_chn a < N" using r a unfolding perf_rows_def by blast
    then show ?thesis using out perf_sent_user [OF q a] by simp
  qed
  show "out (To c) = []" if c: "c < N" "\<forall>a \<in> set args. to_dir t (idx a) \<longrightarrow> to_chn a \<noteq> c" for c
  proof -
    have "cfg_reps N (cfg_ptr u) 0 c = 0" using r c unfolding perf_rows_def by simp
    then show ?thesis using out c(1) by (simp add: perf_sent_def)
  qed
qed

section \<open>Running and unpacking\<close>

lemma perf_can_run:
  assumes w: "wired ks N" and p: "perf_packed D N t args um u" and a: "perf_answers D N t args aie um"
  shows "\<exists>out perf' mem'. executes (board_kernel ks N D) aie u out perf' mem'"
  unfolding executes_def
proof (rule board_perf_exists [OF w perf_packed_ready [OF p]])
  have q: "perf_trans D N t args" "inputs_ready t args u" "perf_layout um u args" using p by (simp_all add: perf_packed_def)
  note r = perf_packed_rows(2) [OF q]
  fix out :: "strm \<Rightarrow> 128 word ap_axiu list" and c
  assume out: "\<forall>ch < N. out (To ch) = map axi_word (perf_sent D N (cfg_ptr u) (words (to_aie_ptr u)) ch)" and c: "c < N"
  have "\<forall>a \<in> set args. from_dir t (idx a) \<longrightarrow> unat (repetition a) * frames a \<le> length (aie out (From (from_chn a)))"
    using a perf_packed_sent [OF p out] unfolding perf_answers_def by blast
  then show "cfg_reps N (cfg_ptr u) 4 c * cfg_frames N (cfg_ptr u) 4 c \<le> length (aie out (From c))"
    by (cases rule: perf_rows_named [OF r c]) auto
qed

text \<open>What an output channel hands over is its slot of the image.\<close>

lemma perf_slot_image:
  assumes p: "perf_packed D N t args um u" and bd: "perf_board_done D N (cfg_ptr u) to_mem aie out mem'"
    and a: "a \<in> set args" "from_dir t (idx a)"
  defines "xs \<equiv> aie out (From (from_chn a))"
  shows "unat (repetition a) * frames a \<le> length xs"
    "take (kept_bytes t a) (drop (from_chn a * slot_bytes t) (bytes mem')) = bytes (perf_kept D a (map axi_data xs))"
proof -
  have q: "perf_trans D N t args" "inputs_ready t args u" "perf_layout um u args" using p by (simp_all add: perf_packed_def)
  have c: "from_chn a < N" "cfg_frames N (cfg_ptr u) 4 (from_chn a) = frames a"
      "cfg_reps N (cfg_ptr u) 4 (from_chn a) = unat (repetition a)" "cfg_offset N (cfg_ptr u) 4 (from_chn a) = D * from_chn a"
    using perf_packed_rows(2) [OF q] a by (simp_all add: perf_rows_def)
  show "unat (repetition a) * frames a \<le> length xs" using bd c unfolding perf_board_done_def xs_def by auto
  have "take (min (frames a) D) (drop (D * from_chn a) mem') = perf_kept D a (map axi_data xs)"
    using bd c unfolding perf_board_done_def xs_def perf_kept_def by (auto simp: held_cfg_def last_frames_def)
  then have "bytes (perf_kept D a (map axi_data xs)) = take (16 * min (frames a) D) (drop (16 * (D * from_chn a)) (bytes mem'))"
    by (simp add: bytes_slice [symmetric])
  then show "take (kept_bytes t a) (drop (from_chn a * slot_bytes t) (bytes mem')) = bytes (perf_kept D a (map axi_data xs))"
    using kept_frames [OF q(1) a(1)] perf_trans_config(2) [OF q(1)] by (simp add: mult_ac)
qed

lemma kernel_counters_length:
  assumes "kernel N D aie cfg perf to_mem from_mem ws perf' mem'" "length perf = 4 * N" shows "length perf' = 4 * N"
  using assms(1) by (cases rule: kernel.cases) (metis store_perf_run [OF assms(2)] option.inject)

lemma board_counters_length:
  assumes "board_kernel ks N D aie cfg perf to_mem from_mem out perf' mem'" "length perf = 4 * N" shows "length perf' = 4 * N"
  using assms kernel_counters_length unfolding board_kernel_def by blast

lemma perf_transferred:
  assumes p: "perf_packed D N t args um u"
    and bd: "perf_board_done D N (cfg_ptr u) (words (to_aie_ptr u)) aie out mem'"
    and len: "length (bytes mem') = N * slot_bytes t" "length perf = 4 * N"
  shows "\<exists>v um'. handleOutputs (received (bytes mem') perf (u\<lparr>status := st\<rparr>), um) = (Inr (), (v, um')) \<and>
    result_valid v = perf_valid t args \<and> status v = st \<and> perf_transfer D N t args aie um out um'"
proof -
  have q: "perf_trans D N t args" and rd: "inputs_ready t args u" and lay: "perf_layout um u args" using p by (simp_all add: perf_packed_def)
  note f = perf_trans_facts [OF q]
  note o = perf_out_ready [OF f(1,2,4,5) rd lay, unfolded f(3), OF len]
  let ?r = "received (bytes mem') perf (u\<lparr>status := st\<rparr>)"
  have o1: "out_ready ?r" using o(1) by (simp add: status_frame)
  have o2: "out_start ?r a = from_chn a * slot_bytes t" if "a \<in> set args" "from_dir t (idx a)" for a
    using o(2) [OF that] by (simp add: status_frame)
  have r: "args_rec ?r = args" "tr_num_channels ?r = tr_num_channels t" "tr_mode ?r = PERF_MODE" "from_aie_ptr ?r = bytes mem'"
    "tr_word_size ?r = tr_word_size t" "tr_depth ?r = tr_depth t"
    using rd f(2) by (simp_all add: received_def inputs_ready_def)
  have d: "from_dir ?r = from_dir t" by (simp add: from_dir_def r)
  have ob: "out_bytes ?r a = kept_bytes t a" for a by (simp add: out_bytes_def kept_bytes_def slot_bytes_def r)
  have "out_disjoint ?r (args_rec ?r)" unfolding r by (rule user_out_disjoint [OF f(6) r(2)])
  from handleOutputs_run [OF o1 this, of um] obtain pm um' where
    run: "handleOutputs (?r, um) = (Inr (), (clearData (?r\<lparr>perf_map := pm\<rparr>), um'))" and dn: "outputs_done ?r args um um'"
    unfolding r by blast
  have "perf_transfer D N t args aie um out um'"
    unfolding perf_transfer_def
  proof (intro conjI ballI allI impI)
    show "perf_user_sent D N t args um out"
      using bd by (intro perf_packed_sent [OF p]) (simp add: perf_board_done_def)
  next
    fix p k assume "\<forall>a \<in> set args. from_dir t (idx a) \<longrightarrow> mem_disjoint p k (data a) (kept_bytes t a)"
    then show "mem_read um' p k = mem_read um p k" using dn unfolding outputs_done_def d ob by blast
  next
    fix a assume a: "a \<in> set args" "from_dir t (idx a)"
    then have "mem_read um' (data a) (kept_bytes t a) = out_slice ?r a"
      using dn unfolding outputs_done_def d by (auto simp: in_set_conv_nth ob)
    then show "let xs = aie out (From (from_chn a)) in unat (repetition a) * frames a \<le> length xs \<and>
        mem_read um' (data a) (kept_bytes t a) = bytes (perf_kept D a (map axi_data xs))"
      using perf_slot_image [OF p bd a] o2 [OF a] by (simp add: out_slice_def ob r(4))
  qed
  moreover have "result_valid u = perf_valid t args"
    using lay rd by (simp add: perf_layout_def perf_valid_def to_dir_def slot_bytes_def inputs_ready_def)
  ultimately show ?thesis using run by (auto simp: clearData_def received_def)
qed

section \<open>The mode\<close>

text \<open>The words a buffer holds.\<close>

definition board_depth :: "nat \<Rightarrow> nat" where
  "board_depth N = (if N = 36 then 4096 else 8192)"

lemma boards_depth:
  assumes "(N, board) \<in> boards" obtains ks where "board = board_kernel ks N (board_depth N)" "wired ks N"
  using assms boards_wired
  by (auto simp: boards_def board_depth_def vck190_test_harness_def vek280_test_harness_def vek385_test_harness_def)

definition perf_bytes :: "nat \<Rightarrow> transaction \<Rightarrow> test_harness_args list \<Rightarrow> nat" where
  "perf_bytes N t args = 2 * (N * slot_bytes t)"

interpretation perf: transfer_mode PERF_MODE "\<lambda>N. perf_trans (board_depth N) N" perf_bytes perf_valid
  "\<lambda>N. perf_answers (board_depth N) N" "\<lambda>N. perf_transfer (board_depth N) N"
proof
  show "\<exists>u. handleInputs um args t = (Inr (), u) \<and> inputs_ready t args u \<and>
      length (to_aie_ptr u) + length (from_aie_ptr u) = perf_bytes N t args"
    if "perf_trans (board_depth N) N t args" for N t args um
    using perf_packs [OF that, of um] by (auto simp: perf_packed_def perf_bytes_def)
  show "\<exists>out perf' mem'. executes board aie u out perf' mem'"
    if "(N, board) \<in> boards" "perf_trans (board_depth N) N t args" "handleInputs um args t = (Inr (), u)"
      "perf_answers (board_depth N) N t args aie um"
    for N board t args um u aie
  proof (rule boards_depth [OF that(1)])
    fix ks assume "board = board_kernel ks N (board_depth N)" "wired ks N"
    with perf_can_run [OF this(2) perf_packed_here [OF that(2,3)] that(4)] show ?thesis by simp
  qed
  show "length perf' = length (perf_ptr u) \<and> length (bytes mem') = length (from_aie_ptr u) \<and>
      (\<exists>v um'. handleOutputs (received (bytes mem') perf' (u\<lparr>status := st\<rparr>), um) = (Inr (), (v, um')) \<and>
         result_valid v = perf_valid t args \<and> status v = st \<and> perf_transfer (board_depth N) N t args aie um out um')"
    if "(N, board) \<in> boards" "perf_trans (board_depth N) N t args" "handleInputs um args t = (Inr (), u)"
      "executes board aie u out perf' mem'"
    for N board t args um u aie out perf' mem' st
  proof (rule boards_depth [OF that(1)])
    fix ks assume b: "board = board_kernel ks N (board_depth N)" "wired ks N"
    note p = perf_packed_here [OF that(2,3)]
    note k = that(4) [unfolded executes_def b(1)] and r = perf_packed_ready [OF p]
    note B = board_kernel_perf [OF b(2) r k]
    have l: "length (from_aie_ptr u) = N * slot_bytes t" "length (perf_ptr u) = 4 * N" and d: "16 dvd length (from_aie_ptr u)"
      using p perf_trans_facts(3) [OF that(2)] perf_trans_config(2) [OF that(2)] by (simp_all add: perf_packed_def inputs_ready_def)
    have "length (bytes mem') = length (from_aie_ptr u)" using B(2) d by simp
    with board_counters_length [OF k l(2)] l perf_transferred [OF p B(1)] show ?thesis by simp
  qed
qed (simp_all add: perf_trans_facts)

section \<open>The call of a manager and of a client\<close>

lemma board_config:
  assumes b: "(N, board) \<in> boards" and t: "tr_mode t = PERF_MODE" "tr_num_channels t = of_nat N" "tr_depth t = of_nat (board_depth N)"
    "tr_word_size t = 16" "mMemWidth t = 16" and a: "perf_args_ok t args"
  shows "perf_trans (board_depth N) N t args"
proof -
  have N: "0 < N" "N \<le> 36" using boards_kernel [OF b] by blast+
  then have "unat (of_nat N :: u32) = N" by (intro unat_of_nat_small) simp
  then show ?thesis using N t a by (simp add: perf_trans_def board_depth_def)
qed

lemma perf_fits_server:
  assumes b: "(N, board) \<in> boards" and t: "perf_trans (board_depth N) N t args"
  shows "server_bytes N (perf_bytes N t args) \<le> 2 ^ 30"
  using b by (auto simp: boards_def server_bytes_def perf_bytes_def perf_trans_config(2) [OF t] board_depth_def)

text \<open>The client and the session of the witness: two frames of 16 bytes, twice.\<close>

definition perf_loop_args :: "test_harness_args list" where
  "perf_loop_args = map (\<lambda>a. a\<lparr>repetition := 2\<rparr>) loop_args"

lemma demo_perf_fresh: "cl_fresh PERF_MODE 0 demo_connected = fresh_trans PERF_MODE loop_mgr"
  by (simp add: loop_fresh cl_fresh_def demo_connected_def set_up_def demo_client_def new_client_def demo_params_def)

lemma demo_depth: "cl_depth demo_connected = of_nat (board_depth 36)"
  by (simp add: demo_connected_def set_up_def demo_params_def board_depth_def)

lemma perf_loop_ok: "perf_args_ok (fresh_trans PERF_MODE loop_mgr) perf_loop_args"
proof -
  have "accepted (fresh_trans PERF_MODE loop_mgr) a" if "a \<in> set perf_loop_args" for a
    using that by (auto simp: perf_loop_args_def loop_args_def accepted_def valid_channel_def aligned_def loop_fresh
        test_harness_transactions_def is_to_aie_iff is_from_aie_iff)
  moreover have "user_buffers_disjoint (fresh_trans PERF_MODE loop_mgr) perf_loop_args"
    by (auto simp: user_buffers_disjoint_def perf_loop_args_def loop_args_def loop_dirs less_Suc_eq)
  ultimately show ?thesis by (auto simp: perf_args_ok_def perf_loop_args_def loop_args_def)
qed

lemma perf_loop_kept:
  "kept_bytes (fresh_trans PERF_MODE loop_mgr) \<lparr>idx = i, size_in_byte = 32, repetition = r, delay = d, data = p\<rparr> = 32"
  by (simp add: kept_bytes_def slot_bytes_def loop_fresh test_harness_transactions_def)

lemma perf_loop_words:
  assumes "perf_user_sent 4096 36 (fresh_trans PERF_MODE loop_mgr) perf_loop_args um out"
  shows "out (To 0) = map axi_word (words (mem_read um 0 32) @ words (mem_read um 0 32))"
proof -
  let ?ws = "words (mem_read um 0 32) :: 128 word list"
  have l: "length ?ws = 2" by simp
  let ?b = "?ws @ replicate 4094 0"
  have "perf_frames 4096 (take (min 2 4096) ?b) 2 = perf_frames 4096 ?b 2" by (rule perf_frames_held) (simp_all add: l)
  moreover have "perf_frames 4096 ?b 2 = take 2 ?b" by (rule perf_frames_fit) (simp_all add: l)
  ultimately have "perf_frames 4096 ?ws 2 = ?ws" by (simp add: l)
  moreover have "out (To 0) = map axi_word (concat (replicate 2 (perf_frames 4096 ?ws 2)))"
    using assms by (simp add: perf_user_sent_def perf_loop_args_def loop_args_def loop_dirs to_chn_def perf_words_def
        perf_loop_kept frames_def)
  ultimately show ?thesis by (simp add: numeral_2_eq_2)
qed

lemma perf_loop_answers:
  "perf_answers 4096 36 (fresh_trans PERF_MODE loop_mgr) perf_loop_args board_loopback um"
  unfolding perf_answers_def
  by (auto simp: perf_loop_words board_loopback_def perf_loop_args_def loop_args_def loop_dirs from_chn_def frames_def
      dest!: perf_loop_words)

lemma perf_loop_transfer:
  assumes "perf_transfer 4096 36 (fresh_trans PERF_MODE loop_mgr) perf_loop_args board_loopback um out um'"
  shows "mem_read um' 64 32 = mem_read um 0 32"
proof -
  let ?bs = "mem_read um 0 32" and ?a = "\<lparr>idx = 36, size_in_byte = 32, repetition = 2, delay = 0, data = 64\<rparr> :: test_harness_args"
  have a: "?a \<in> set perf_loop_args" "from_dir (fresh_trans PERF_MODE loop_mgr) (idx ?a)"
    by (simp_all add: perf_loop_args_def loop_args_def loop_dirs)
  have o: "out (To 0) = map axi_word (words ?bs @ words ?bs)"
    using assms by (intro perf_loop_words) (simp add: perf_transfer_def)
  have "mem_read um' 64 32 = bytes (perf_kept 4096 ?a (map axi_data (out (To 0))))"
    using assms a unfolding perf_transfer_def Let_def by (force simp: perf_loop_kept board_loopback_def from_chn_def)
  also have "perf_kept 4096 ?a (map axi_data (out (To 0))) = words ?bs"
    by (simp add: perf_kept_def o frames_def comp_def axi_data_word ring_content_fit)
  finally show ?thesis by (simp add: bytes_words)
qed

section \<open>Properties\<close>

text \<open>C7: a performance transaction over the connection, end to end. On every board, with a server that has no other transaction and a
  client that was told the depth of the board, \<open>runTestHarness\<close> is accepted and the kernel is started. Once it has
  finished, each channel to the AI Engine has had the user's data, as much as its buffer holds, round and round with every round marked,
  as often as asked for; each user buffer for a channel from the AI Engine holds the last repetition of what came back, as much as a
  buffer holds; the rest of the user's memory is as it was. The result is valid exactly when no data to the AI Engine was
  larger than a buffer. Both sides are ready for the next transaction unless the counter of the identifiers
  has wrapped, and the kernel can always finish when the design answers with enough words.\<close>

theorem performance_end_to_end:
  assumes "(N, board) \<in> boards" and "remote_ready N c v" and "ss_mgr s = Some v" and "cl_depth c = of_nat (board_depth N)"
    and "perf_args_ok (cl_fresh PERF_MODE timeout c) args"
  defines "t \<equiv> cl_fresh PERF_MODE timeout c"
  shows "\<exists>c1 s1 v1 v2. calls P Y (cl_runTestHarness PERF_MODE args timeout) (c, s) () (c1, s1) \<and>
    ss_mgr s1 = Some v1 \<and> pl_step Y v1 v2 \<and>
    calls P Y (cl_thread_round (cl_next c)) (c1, s1\<lparr>ss_mgr := Some v2\<rparr>) () (c1, s1\<lparr>ss_mgr := Some v2\<rparr>) \<and>
    (\<forall>X out. runtime_ran aie board X v2 out \<longrightarrow>
      (\<exists>v3 c2 s2 v4. pl_step X v2 v3 \<and>
         calls P X (cl_thread_round (cl_next c)) (c1, s1\<lparr>ss_mgr := Some v3\<rparr>) () (c2, s2) \<and>
         cl_threads c2 (cl_next c) = Some CL_Ended \<and> cl_isResultValid (-1) c2 = (Inr (perf_valid t args), c2) \<and>
         ss_mgr s2 = Some v4 \<and> (cl_trans_id c + 1 \<noteq> 0 \<longrightarrow> remote_ready N c2 v4) \<and> cl_depth c2 = cl_depth c \<and>
         perf_transfer (board_depth N) N t args aie (cl_mem c) out (cl_mem c2))) \<and>
    (perf_answers (board_depth N) N t args aie (cl_mem c) \<longrightarrow> (\<exists>X out. runtime_ran aie board X v2 out))"
proof -
  have "tr_depth (cl_fresh PERF_MODE timeout c) = cl_depth c" by (simp add: cl_fresh_def test_harness_transactions_def)
  then have l: "perf_trans (board_depth N) N (cl_fresh PERF_MODE timeout c) args"
    using assms(2,4,5) by (intro board_config [OF assms(1)]) (simp_all add: remote_ready_def)
  show ?thesis unfolding t_def by (rule perf.remote_path [OF assms(1-3) l perf_fits_server [OF assms(1) l]])
qed

theorem performance_end_to_end_witness:
  "\<exists>s Y X c1 s1 v1 v2 v3 c2 s2. calls demo_params Y (cl_runTestHarness PERF_MODE perf_loop_args 0) (demo_connected, s) () (c1, s1) \<and>
     ss_mgr s1 = Some v1 \<and> pl_step Y v1 v2 \<and> pl_step X v2 v3 \<and>
     calls demo_params X (cl_thread_round (cl_next demo_connected)) (c1, s1\<lparr>ss_mgr := Some v3\<rparr>) () (c2, s2) \<and>
     mem_read (cl_mem c2) 64 32 = mem_read demo_mem 0 32"
proof -
  let ?v = "made demo_params []" and ?t = "fresh_trans PERF_MODE loop_mgr"
  let ?s = "new_session 60\<lparr>ss_mgr := Some ?v\<rparr>" and ?Y = "last_result ?v [] []"
  have b: "(36, vck190_test_harness) \<in> boards" by (simp add: boards_def)
  have s: "ss_mgr ?s = Some ?v" by simp
  have m: "cl_mem demo_connected = demo_mem" by (simp add: demo_connected_def set_up_def demo_client_def new_client_def)
  have D: "board_depth 36 = 4096" by (simp add: board_depth_def)
  have h: "perf_args_ok (cl_fresh PERF_MODE 0 demo_connected) perf_loop_args" unfolding demo_perf_fresh by (rule perf_loop_ok)
  note e = performance_end_to_end [where Y = ?Y and aie = board_loopback and P = demo_params, OF b demo_ready s demo_depth h,
      unfolded demo_perf_fresh m D]
  from e obtain c1 s1 v1 v2 where c: "calls demo_params ?Y (cl_runTestHarness PERF_MODE perf_loop_args 0) (demo_connected, ?s) () (c1, s1)"
      "ss_mgr s1 = Some v1" "pl_step ?Y v1 v2"
    and w: "\<And>X out. runtime_ran board_loopback vck190_test_harness X v2 out \<Longrightarrow> \<exists>v3 c2 s2 v4. pl_step X v2 v3 \<and>
         calls demo_params X (cl_thread_round (cl_next demo_connected)) (c1, s1\<lparr>ss_mgr := Some v3\<rparr>) () (c2, s2) \<and>
         cl_threads c2 (cl_next demo_connected) = Some CL_Ended \<and> cl_isResultValid (-1) c2 = (Inr (perf_valid ?t perf_loop_args), c2) \<and>
         ss_mgr s2 = Some v4 \<and> (cl_trans_id demo_connected + 1 \<noteq> 0 \<longrightarrow> remote_ready 36 c2 v4) \<and>
         cl_depth c2 = cl_depth demo_connected \<and>
         perf_transfer 4096 36 ?t perf_loop_args board_loopback demo_mem out (cl_mem c2)"
    and l: "perf_answers 4096 36 ?t perf_loop_args board_loopback demo_mem \<Longrightarrow> \<exists>X out. runtime_ran board_loopback vck190_test_harness X v2 out"
    by (elim exE conjE) blast
  obtain X out where X: "runtime_ran board_loopback vck190_test_harness X v2 out" using l perf_loop_answers by blast
  from w [OF X] obtain v3 c2 s2 where "pl_step X v2 v3"
      "calls demo_params X (cl_thread_round (cl_next demo_connected)) (c1, s1\<lparr>ss_mgr := Some v3\<rparr>) () (c2, s2)"
      "perf_transfer 4096 36 ?t perf_loop_args board_loopback demo_mem out (cl_mem c2)" by (elim exE conjE)
  with c perf_loop_transfer show ?thesis by blast
qed

text \<open>C12: a performance transaction of the on-board manager, end to end. On every board, with a manager that was told the depth of the
  board, \<open>runTestHarness\<close> in performance mode returns with the kernel started. When its runs have finished,
  \<open>waitForRes\<close> returns, every channel to the AI Engine has had the user's data, as much as its buffer holds, round and round as
  often as asked for, each user buffer for a channel from the AI Engine holds the last repetition of what came
  back, as much as a buffer holds, and the rest of the user's memory is as it was. \<open>isResultValid\<close> says whether all data to
  the AI Engine fitted its buffers, the manager can take the next transaction, and the kernel can always finish when the design answers with enough words.\<close>

theorem legacy_performance:
  assumes "(N, board) \<in> boards" and "board_mgr N s" and "lg_depth s = of_nat (board_depth N)"
    and "perf_args_ok (fresh_trans PERF_MODE s) args"
  defines "t \<equiv> fresh_trans PERF_MODE s"
  shows "\<exists>s1. legacy_runTestHarness PERF_MODE args s = (Inr (), s1) \<and>
    (\<forall>X out. all_finished X s1 \<and> runs_kernel (board aie) X (last_run s1) (pl_k_r_hdl (xm (lg_host s1)) ! last_run s1) out \<longrightarrow>
      (\<exists>s2. legacy_waitForRes X s1 = (Inr (), s2) \<and> legacy_isResultValid s2 = (Inr (perf_valid t args), s2) \<and> board_mgr N s2 \<and>
         perf_transfer (board_depth N) N t args aie (lg_mem s) out (lg_mem s2))) \<and>
    (perf_answers (board_depth N) N t args aie (lg_mem s) \<longrightarrow>
      (\<exists>X out. all_finished X s1 \<and> runs_kernel (board aie) X (last_run s1) (pl_k_r_hdl (xm (lg_host s1)) ! last_run s1) out))"
proof -
  have "tr_depth (fresh_trans PERF_MODE s) = lg_depth s" by (simp add: fresh_trans_def test_harness_transactions_def)
  then have "perf_trans (board_depth N) N (fresh_trans PERF_MODE s) args"
    using assms(2-4) by (intro board_config [OF assms(1)]) (simp_all add: board_mgr_def)
  then show ?thesis unfolding t_def by (rule perf.legacy_path [OF assms(1,2)])
qed

theorem legacy_performance_witness:
  "\<exists>s1 X s2. legacy_runTestHarness PERF_MODE perf_loop_args loop_mgr = (Inr (), s1) \<and> legacy_waitForRes X s1 = (Inr (), s2) \<and>
     mem_read (lg_mem s2) 64 32 = mem_read demo_mem 0 32"
proof -
  have b: "(36, vck190_test_harness) \<in> boards" by (simp add: boards_def)
  have D: "board_depth 36 = 4096" by (simp add: board_depth_def)
  have d: "lg_depth loop_mgr = of_nat (board_depth 36)" by (simp add: D loop_mgr_def new_legacy_mgr_def)
  note e = legacy_performance [where aie = board_loopback, OF b loop_board_mgr d perf_loop_ok, unfolded D loop_mem]
  from e obtain s1 where r: "legacy_runTestHarness PERF_MODE perf_loop_args loop_mgr = (Inr (), s1)"
    and w: "\<And>X out. all_finished X s1 \<and> runs_kernel (vck190_test_harness board_loopback) X (last_run s1) (pl_k_r_hdl (xm (lg_host s1)) ! last_run s1) out \<Longrightarrow>
      \<exists>s2. legacy_waitForRes X s1 = (Inr (), s2) \<and>
        legacy_isResultValid s2 = (Inr (perf_valid (fresh_trans PERF_MODE loop_mgr) perf_loop_args), s2) \<and> board_mgr 36 s2 \<and>
        perf_transfer 4096 36 (fresh_trans PERF_MODE loop_mgr) perf_loop_args board_loopback demo_mem out (lg_mem s2)"
    and l: "perf_answers 4096 36 (fresh_trans PERF_MODE loop_mgr) perf_loop_args board_loopback demo_mem \<Longrightarrow>
      \<exists>X out. all_finished X s1 \<and> runs_kernel (vck190_test_harness board_loopback) X (last_run s1) (pl_k_r_hdl (xm (lg_host s1)) ! last_run s1) out"
    by (elim exE conjE) blast
  obtain X out where X: "all_finished X s1 \<and>
      runs_kernel (vck190_test_harness board_loopback) X (last_run s1) (pl_k_r_hdl (xm (lg_host s1)) ! last_run s1) out"
    using l [OF perf_loop_answers] by (elim exE)
  from w [OF X] obtain s2 where "legacy_waitForRes X s1 = (Inr (), s2)"
      "perf_transfer 4096 36 (fresh_trans PERF_MODE loop_mgr) perf_loop_args board_loopback demo_mem out (lg_mem s2)" by (elim exE conjE)
  with r perf_loop_transfer show ?thesis by blast
qed

end
