(* ===== verification/Spec2Isabelle.thy ===== *)
theory Spec2Isabelle
  imports Transaction_Claims Kernel_Claims Board_Claims Channel_Claims Stream_Claims Channelizer_Claims End_To_End_Claims
    Sockets_Claims Remote_Claims Server_Claims Client_Claims Adder_Claims Performance_Claims
begin

text \<open>
  A model of the AI Engine test harness and the properties that make it correct.

  The program. A user describes, for every channel of an AI Engine design, a buffer in memory
  (\<^verbatim>\<open>include/ps/test_harness_utils.hpp\<close>). A transaction (\<^verbatim>\<open>include/ps/test_harness_transaction.hpp\<close>) packs the
  buffers into configuration words and memory images. A kernel in programmable logic
  (\<^verbatim>\<open>include/pl/test_harness.hpp\<close>, \<^verbatim>\<open>src/pl\<close>) reads them, streams the data of every channel to the design, collects
  what comes back and counts cycles; the transaction unpacks its results. In functional mode the data are
  streamed once from and to memory; in performance mode they are held in on-chip buffers and
  streamed as often as asked. The channelizer of \<^verbatim>\<open>examples/vck190/channelizer\<close> is the largest design that
  comes with the harness.

  The theories.

  \<^item> \<open>Harness_Prelude\<close>: programs with state and exceptions and their Hoare rules, checked vectors, counted loops.
    \<open>Harness_Types\<close>: exceptions, modes, channel numbers, arguments and the memory they point into.
  \<^item> \<open>Transaction\<close>: the transaction, one definition per function. \<open>Transaction_Layout\<close>, \<open>Transaction_Inputs\<close>,
    \<open>Transaction_Func\<close>, \<open>Transaction_Perf\<close>, \<open>Transaction_Props\<close>, \<open>Transaction_Outputs\<close>: the layout of the configuration
    words, what a loop over the arguments has done after each prefix, the packing in both modes, the
    unpacking. \<open>Transaction_Claims\<close>: the properties.
  \<^item> \<open>HLS_Words\<close>: bit ranges of \<open>ap_uint\<close> and lanes of memory words. \<open>Buff_Channel\<close>: one channel of the kernel,
    its feeder, collector, buffer and cycle counter, with the lemmas in \<open>Buff_Feed\<close>, \<open>Buff_Get\<close>, \<open>Buff_Memory\<close>,
    \<open>Buff_Counter\<close>. \<open>Stream_Claims\<close>: the properties.
  \<^item> \<open>Burst_Sched\<close>: the round robin of \<open>load_memories\<close> and \<open>store_memories\<close> as a step relation, interleaved with the
    processes at the other end of the streams. \<open>Burst_Inv\<close>: its invariant and its termination, once, inside a
    locale; \<open>Load_Memories\<close> and \<open>Store_Memories\<close> interpret it. \<open>Channel_Claims\<close>: the properties.
  \<^item> \<open>Test_Harness_PL\<close>: configuration, counters and the whole kernel. \<open>Kernel_Lemmas\<close>, \<open>Kernel_Func\<close>, \<open>Kernel_Run\<close>,
    \<open>Kernel_Live\<close>, \<open>Kernel_Perf\<close>, \<open>Kernel_Perf_Run\<close>: what a run does and that there is one. \<open>Kernel_Claims\<close>: the
    properties. \<open>Board_Kernels\<close>, \<open>Board_Claims\<close>: the kernels of the three boards with the wiring of their ports. A kernel whose
    processes were given the memory stream of another channel has no run (\<open>own_streams\<close>); the boards give each its own.
  \<^item> \<open>AIE_Vector\<close>: the vector instructions the channelizer uses. \<open>Polyphase_FIR\<close>, \<open>FIR_Blocks\<close>, \<open>FIR_Run\<close>,
    \<open>Filterbank_Taps\<close>, \<open>Filterbank\<close>: its filter bank. \<open>DFT_Widget\<close>, \<open>DFT_Run\<close>, \<open>DFT_Graph\<close>, \<open>Roots_Of_Unity\<close>: its Fourier
    transform. \<open>Channelizer\<close>, \<open>Channelizer_Claims\<close>: the graph and the properties.

  \<^item> \<open>Fast_XM\<close>: the buffers, runs and transactions behind the kernel (\<^verbatim>\<open>include/ps/test_harness_fastxm.hpp\<close>), on an
    explicit heap of transactions. \<open>Legacy_Manager\<close>: the manager of a program that runs on the board
    (\<^verbatim>\<open>include/ps/test_harness_mgr.hpp\<close>) and its invariant. \<open>Packed_Kernel\<close>, \<open>Packed_Performance\<close>: a packed transaction is
    a legal input of the kernel, in functional and in performance mode. \<open>Transfers\<close>: the contract of a mode, a locale, and inside it
    the way of a transaction through the manager, the runtime and the kernel. \<open>End_To_End_Claims\<close>: functional mode, from the user's
    buffers through manager, transaction and kernel and back.
  \<^item> \<open>Sockets\<close>: the byte stream between client and server and the encodings on it (\<^verbatim>\<open>include/ps/test_harness_sockets.hpp\<close>).
    \<open>Sockets_Codec\<close>: a calculus of conversations and the contract of an encoding, a locale with one interpretation
    for each of the ten encodings. \<open>Sockets_Claims\<close>: the properties.
  \<^item> \<open>Server_Manager\<close>: the server's end of the requests of a client and the threads that run its transactions
    (\<^verbatim>\<open>src/ps/test_harness_mgr_server.cpp\<close>). \<open>Server_Inv\<close>: its handlers as functions on its state, and their invariant.
    \<open>Session\<close>: the dispatch of the requests and the watchdog (\<^verbatim>\<open>src/ps/test_harness_session.cpp\<close>). \<open>Session_Inv\<close>: the
    states a session reaches whatever the client sends. \<open>Server_Errors\<close>: how the handlers can fail. \<open>Server_Claims\<close>:
    the properties.
  \<^item> \<open>Client_Manager\<close>: the user's end (\<^verbatim>\<open>include/ps/test_harness_mgr_client.hpp\<close>). \<open>Client_Inv\<close>: the shape of its state
    in every state the user's calls and the threads can reach. The loop of \<open>waitForRes\<close> (\<open>cl_wait_pending\<close>) is there as it is written: a
    reference into the queue of the pending transactions dangles once its element has been popped, and using it is undefined
    (\<open>pending_at\<close>). What the threads do while the user's thread joins one of them is an argument (\<open>sched\<close>). \<open>Client_Claims\<close>: its properties.
  \<^item> \<open>Conversations\<close>: programs with a state and a connection, and what they say to each other. \<open>Server_Talks\<close>,
    \<open>Client_Talks\<close>: the requests of both sides as conversations. \<open>Remote_Calls\<close>, \<open>Remote_Run\<close>: a call of the client answered
    by a session, and one transaction from its submission to its results. \<open>Remote_Transfers\<close>: the way of a transaction over the connection, inside
    the locale of the modes. \<open>Remote_Claims\<close>: functional mode over the connection. \<open>Performance_Claims\<close>:
    performance mode, which interprets the same locale, over the connection and for the manager on the board.
  \<^item> \<open>Adder\<close>: the example \<^verbatim>\<open>examples/*/adder_perf\<close>, its kernel, its graph and the program that calls the harness with it.
    \<open>Adder_Claims\<close>: its functional run over the connection, up to the program's own check of the result.

  Conventions. Unsigned C++ arithmetic is word arithmetic at the width of the type. A call that throws, fails an
  assertion or has no defined behaviour is an \<open>Inl\<close> value; in the kernels, which cannot throw, \<open>None\<close> stands for a
  blocking read that nothing will ever answer or an access outside an array. Counted loops are
  \<open>for_loop\<close>; the cycle counter, which need not end, is a \<open>partial_function\<close>; no definition uses fuel.

  Parameters. The AI Engine design between the streams is a function from the words sent on all ports to the words
  that come back. The vector instructions of the AI Engine are a record of functions (\<open>aie_ops\<close>); the properties that
  need them assume what the documentation of the instructions says (\<open>documented_*\<close>), and \<open>exact_ops\<close> has it.
  For the adder they are \<open>aie::add\<close> (\<open>add_documented\<close>) and the AI Engine that runs its graph (\<open>runs_graph\<close>); at most 21845
  iterations of 4096 values fit into the gibibyte the server has for transactions. What the Xilinx
  runtime reports of its runs is a record (\<open>xrt\<close>); the properties assume that a finished run has executed the kernel on the
  buffers it was started with (\<open>runs_kernel\<close>) and that device buffers keep their sizes (\<open>sized\<close>). The bytes of the peer arrive in
  pieces the operating system chooses, which are part of the state of a connection.

  Back-pressure. Writing a word to a stream towards the AI Engine never blocks in the model, and the design answers all words it is sent. A
  design that stops reading stalls the real kernel, so the properties that say that a run can end are about designs
  that take every word they are sent. For the channelizer, whose graph consumes and produces a fixed number of words in an iteration,
  this is a hypothesis of the property (\<open>dft_exact\<close>): exactly the words of \<open>n\<close> iterations are sent and
  collected. The adder sends and collects exactly what its graph uses. That a run stores the right words does not depend on it.

  Concurrency. The server runs a thread for each transaction and the client one for each pending transaction. A step of
  the server's threads is one step of \<open>pl_step\<close>, between two requests; the invariants hold for every interleaving of
  requests, thread steps and seconds of the watchdog (\<open>session_reachable\<close>). A request and a step are atomic: that a thread of the
  server and a request reach for the queue of the transactions at the same moment is not in the model. A conversation fixes what each
  side reads and sends in each direction, not how the bytes of the two directions interleave in time. The mutex \<open>req_mtx\<close> of the client
  makes one request at a time, which is how the model has it. \<open>query_mtx\<close>, which one polling thread holds until its transaction is
  over, is not in the model: any thread may take a round at any time, so the model has every order that the
  mutex allows and more, and what is proved for every order holds for those.

  Not modelled: \<open>printPerf\<close> and the logger, which only print; the calls of the Xilinx runtime, of the sockets, of the
  processes and of the file system; the set-up of the connection and its first bytes; \<open>readGraphPort\<close> and \<open>writeGraphPort\<close>,
  whose requests no session knows; what a program does after undefined behaviour, except that the client stays well-formed if it goes on; the
  language bindings; the other small examples, and the interface pragmas of the kernels except those of the stream ports, which are
  recorded (\<open>ks_axis\<close>) but on which no property rests.
\<close>

end
